(* ===== verification/Prelude.thy ===== *)
theory Prelude
  imports Main "HOL-Library.AList" "HOL-Library.Sublist"
begin

text \<open>
  Shared vocabulary of the development: Go's error values, byte strings and the functions of the
  packages strings, strconv and net that the modelled code calls, instants and durations of the
  package time, and Go maps as key-distinct association lists.  Nothing here models a file of the
  repository; the definitions render the Go standard library as far as src/ uses it.

  \<^item> A Go string is a byte sequence: \<open>string\<close>, one \<open>char\<close> per byte.
  \<^item> A Go \<open>error\<close> is \<open>'e option\<close>, \<open>None\<close> for nil; a pair (value, error) is
    \<open>'e + 'a\<close>.
  \<^item> A Go map is an association list with distinct keys.  Its order stands for the iteration
    order of the runtime, which Go leaves open: a theorem about every list is a theorem about
    every iteration order.
  \<^item> \<open>time.Time\<close> is the number of nanoseconds since January 1, year 1 UTC, so that the
    zero time is 0; \<open>time.Duration\<close> is a number of nanoseconds.
\<close>

named_theorems err_simps "reading error chains"
named_theorems map_simps "reading association-list maps"
named_theorems str_simps "trimming, splitting and joining byte strings"

section \<open>Errors\<close>

fun first_err :: "'e option list \<Rightarrow> 'e option" where
  "first_err [] = None"
| "first_err (e # es) = (case e of None \<Rightarrow> first_err es | Some x \<Rightarrow> Some x)"

definition fail_if :: "bool \<Rightarrow> 'e \<Rightarrow> 'e option" where
  "fail_if b e = (if b then Some e else None)"

definition bindE :: "'e + 'a \<Rightarrow> ('a \<Rightarrow> 'e + 'b) \<Rightarrow> 'e + 'b" where
  "bindE r f = (case r of Inl e \<Rightarrow> Inl e | Inr x \<Rightarrow> f x)"

lemma first_err_None: "first_err es = None \<longleftrightarrow> (\<forall>e\<in>set es. e = None)"
  by (induction es) (auto split: option.splits)

lemma first_err_append [err_simps]:
  "first_err (xs @ ys) = (case first_err xs of None \<Rightarrow> first_err ys | Some e \<Rightarrow> Some e)"
  by (induction xs) (auto split: option.splits)

lemma first_err_mem: "first_err es = Some e \<Longrightarrow> Some e \<in> set es"
  by (induction es) (auto split: option.splits)

lemma first_err_Cons_None [err_simps]:
  "first_err (e # es) = None \<longleftrightarrow> e = None \<and> first_err es = None"
  by (cases e) auto

declare first_err.simps(2) [simp del]

lemma fail_if_None [err_simps]: "fail_if b e = None \<longleftrightarrow> \<not> b"
  by (simp add: fail_if_def)

lemma if_None [err_simps]: "(if b then e else None) = None \<longleftrightarrow> (b \<longrightarrow> e = None)"
  by simp

lemma fail_if_Some [err_simps]: "fail_if b e = Some e' \<longleftrightarrow> b \<and> e' = e"
  by (auto simp: fail_if_def)

lemma bindE_Inl [simp]: "bindE (Inl e) f = Inl e"
  by (simp add: bindE_def)

lemma bindE_Inr [simp]: "bindE (Inr x) f = f x"
  by (simp add: bindE_def)

lemma bindE_eq_Inr [err_simps]: "bindE r f = Inr y \<longleftrightarrow> (\<exists>x. r = Inr x \<and> f x = Inr y)"
  by (cases r) auto

section \<open>Instants and durations\<close>

type_synonym time = int
type_synonym duration = int

definition zero_time :: time where "zero_time = 0"
definition second :: duration where "second = 10 ^ 9"
definition minute :: duration where "minute = 60 * second"
definition hour :: duration where "hour = 3600 * second"
definition max_duration :: duration where "max_duration = 2 ^ 63 - 1"

text \<open>\<open>t.Sub(u)\<close> saturates at the ends of the 64-bit range.\<close>

definition time_sub :: "time \<Rightarrow> time \<Rightarrow> duration" where
  "time_sub t u = max (- (2 ^ 63)) (min max_duration (t - u))"

text \<open>Signed 64-bit wrap-around, for products of durations.\<close>

definition wrap64 :: "int \<Rightarrow> int" where
  "wrap64 x = (x + 2 ^ 63) mod 2 ^ 64 - 2 ^ 63"

lemma wrap64_id: "- (2 ^ 63) \<le> x \<Longrightarrow> x < 2 ^ 63 \<Longrightarrow> wrap64 x = x"
  by (simp add: wrap64_def)

lemma wrap64_range: "- (2 ^ 63) \<le> wrap64 x" "wrap64 x < 2 ^ 63"
proof -
  have "0 \<le> (x + 2 ^ 63) mod 2 ^ 64" and "(x + 2 ^ 63) mod 2 ^ 64 < 2 ^ 64"
    by simp_all
  then show "- (2 ^ 63) \<le> wrap64 x" "wrap64 x < 2 ^ 63"
    unfolding wrap64_def by simp_all
qed

lemma time_sub_gt: "0 \<le> d \<Longrightarrow> d < max_duration \<Longrightarrow> d < time_sub t u \<longleftrightarrow> u + d < t"
  by (auto simp: time_sub_def max_duration_def)

lemma time_sub_lt: "0 < d \<Longrightarrow> d \<le> max_duration \<Longrightarrow> time_sub t u < d \<longleftrightarrow> t < u + d"
  by (auto simp: time_sub_def max_duration_def)

lemmas duration_defs = second_def minute_def hour_def max_duration_def zero_time_def

section \<open>Maps\<close>

abbreviation keys_ok :: "('k \<times> 'v) list \<Rightarrow> bool" where
  "keys_ok m \<equiv> distinct (map fst m)"

lemmas [map_simps] = update_conv' delete_conv'

lemma keys_ok_update [map_simps]: "keys_ok m \<Longrightarrow> keys_ok (AList.update k v m)"
  by (rule distinct_update)

lemma keys_ok_delete [map_simps]: "keys_ok m \<Longrightarrow> keys_ok (AList.delete k m)"
  by (rule distinct_delete)

lemma keys_ok_filter [map_simps]: "keys_ok m \<Longrightarrow> keys_ok (filter P m)"
  by (rule distinct_map_filter)

lemma map_of_filter_keys_ok [map_simps]:
  "keys_ok m \<Longrightarrow> map_of (filter P m) k = (case map_of m k of
      Some v \<Rightarrow> if P (k, v) then Some v else None | None \<Rightarrow> None)"
proof (induction m)
  case Nil
  then show ?case by simp
next
  case (Cons x m)
  obtain a b where [simp]: "x = (a, b)" by (cases x)
  from Cons have IH: "map_of (filter P m) k = (case map_of m k of
      Some v \<Rightarrow> if P (k, v) then Some v else None | None \<Rightarrow> None)" by simp
  show ?case
  proof (cases "k = a")
    case True
    with Cons.prems have "map_of m k = None"
      by (auto simp: map_of_eq_None_iff)
    with True IH show ?thesis by auto
  next
    case False
    with IH show ?thesis by auto
  qed
qed

lemma length_update_notin: "k \<notin> fst ` set m \<Longrightarrow> length (AList.update k v m) = Suc (length m)"
  by (induction m) auto

lemma length_update_in: "k \<in> fst ` set m \<Longrightarrow> length (AList.update k v m) = length m"
  by (induction m) auto

lemma length_delete_le: "length (AList.delete k m) \<le> length m"
  by (induction m) auto

lemma length_delete_in:
  "keys_ok m \<Longrightarrow> k \<in> fst ` set m \<Longrightarrow> Suc (length (AList.delete k m)) = length m"
proof (induction m)
  case Nil
  then show ?case by simp
next
  case (Cons x m)
  obtain a b where [simp]: "x = (a, b)" by (cases x)
  show ?case
  proof (cases "k = a")
    case True
    with Cons.prems have "k \<notin> fst ` set m" by auto
    then have "AList.delete k m = m"
      by (induction m) auto
    with True show ?thesis by simp
  next
    case False
    with Cons show ?thesis by auto
  qed
qed

end
