(* ===== verification/GoStrings.thy ===== *)
theory GoStrings
  imports Prelude
begin

text \<open>
  Byte strings and the functions of the Go packages strings, unicode/utf8, unicode, strconv and
  net that the modelled code calls: TrimSpace, ToLower, EqualFold, ValidString, IsControl, Split,
  Itoa, Atoi, SplitHostPort and JoinHostPort.

  \<open>to_lower\<close> and \<open>fold_key\<close> map ASCII letters and the few runes outside ASCII whose
  image is an ASCII letter (U+0130, U+212A, U+017F); other bytes are kept.  They decide exactly what
  src/ asks of them, whether the lowered or folded string equals a given ASCII string.
\<close>

section \<open>Trimming white space\<close>

text \<open>The UTF-8 encodings of the runes for which unicode.IsSpace holds.\<close>

definition space_seqs :: "string list" where
  "space_seqs =
    [[CHR '' ''], [CHR 0x09], [CHR 0x0A], [CHR 0x0B], [CHR 0x0C], [CHR 0x0D],
     [CHR 0xC2, CHR 0x85], [CHR 0xC2, CHR 0xA0], [CHR 0xE1, CHR 0x9A, CHR 0x80],
     [CHR 0xE2, CHR 0x80, CHR 0x80], [CHR 0xE2, CHR 0x80, CHR 0x81],
     [CHR 0xE2, CHR 0x80, CHR 0x82], [CHR 0xE2, CHR 0x80, CHR 0x83],
     [CHR 0xE2, CHR 0x80, CHR 0x84], [CHR 0xE2, CHR 0x80, CHR 0x85],
     [CHR 0xE2, CHR 0x80, CHR 0x86], [CHR 0xE2, CHR 0x80, CHR 0x87],
     [CHR 0xE2, CHR 0x80, CHR 0x88], [CHR 0xE2, CHR 0x80, CHR 0x89],
     [CHR 0xE2, CHR 0x80, CHR 0x8A], [CHR 0xE2, CHR 0x80, CHR 0xA8],
     [CHR 0xE2, CHR 0x80, CHR 0xA9], [CHR 0xE2, CHR 0x80, CHR 0xAF],
     [CHR 0xE2, CHR 0x81, CHR 0x9F], [CHR 0xE3, CHR 0x80, CHR 0x80]]"

definition find_prefix :: "string list \<Rightarrow> string \<Rightarrow> string option" where
  "find_prefix ps s = List.find (\<lambda>p. p \<noteq> [] \<and> prefix p s) ps"

lemma find_prefix_Some:
  "find_prefix ps s = Some p \<Longrightarrow> p \<in> set ps \<and> p \<noteq> [] \<and> prefix p s"
  unfolding find_prefix_def by (auto simp: find_Some_iff)

lemma find_prefix_None:
  "find_prefix ps s = None \<longleftrightarrow> (\<forall>p\<in>set ps. p \<noteq> [] \<longrightarrow> \<not> prefix p s)"
  unfolding find_prefix_def by (auto simp: find_None_iff)

function strip_front :: "string list \<Rightarrow> string \<Rightarrow> string" where
  "strip_front ps s = (case find_prefix ps s of None \<Rightarrow> s
     | Some p \<Rightarrow> strip_front ps (drop (length p) s))"
  by pat_completeness auto
termination
proof (relation "measure (\<lambda>(ps, s). length s)")
  show "wf (measure (\<lambda>(ps, s :: string). length s))" by simp
next
  fix ps s p
  assume "find_prefix ps s = Some p"
  then have "p \<noteq> []" and "length p \<le> length s"
    by (auto dest!: find_prefix_Some intro: prefix_length_le)
  then have "length s - length p < length s" by (cases p) auto
  then show "((ps, drop (length p) s), (ps, s)) \<in> measure (\<lambda>(ps, s). length s)"
    by simp
qed

declare strip_front.simps [simp del]

definition trim_space :: "string \<Rightarrow> string" where
  "trim_space s = rev (strip_front (map rev space_seqs) (rev (strip_front space_seqs s)))"

lemma strip_front_suffix: "suffix (strip_front ps s) s"
proof (induction ps s rule: strip_front.induct)
  case (1 ps s)
  show ?case
  proof (cases "find_prefix ps s")
    case None
    then show ?thesis by (subst strip_front.simps) simp
  next
    case (Some p)
    with 1 have "suffix (strip_front ps (drop (length p) s)) (drop (length p) s)" by simp
    then show ?thesis
      by (subst strip_front.simps) (auto simp: Some intro: suffix_order.trans suffix_drop)
  qed
qed

lemma find_prefix_strip_front: "find_prefix ps (strip_front ps s) = None"
proof (induction ps s rule: strip_front.induct)
  case (1 ps s)
  then show ?case
    by (cases "find_prefix ps s") (auto simp: strip_front.simps [of ps s])
qed

lemma strip_front_fixed: "find_prefix ps s = None \<Longrightarrow> strip_front ps s = s"
  by (simp add: strip_front.simps)

lemma strip_front_Nil [simp]: "strip_front ps [] = []"
  using strip_front_suffix [of ps "[]"] by simp

lemma trim_space_Nil [simp]: "trim_space [] = []"
  by (simp add: trim_space_def)

lemma no_leading_space_prefix:
  "find_prefix ps s = None \<Longrightarrow> prefix t s \<Longrightarrow> find_prefix ps t = None"
  unfolding find_prefix_None by (meson prefix_order.trans)

text \<open>Trimming twice is trimming once.\<close>

lemma trim_space_idem [simp, str_simps]: "trim_space (trim_space s) = trim_space s"
proof -
  define l where "l = strip_front space_seqs s"
  define r where "r = strip_front (map rev space_seqs) (rev l)"
  have "suffix r (rev l)" unfolding r_def by (rule strip_front_suffix)
  then have "prefix (rev r) l" by (simp add: suffix_to_prefix)
  moreover have "find_prefix space_seqs l = None"
    unfolding l_def by (rule find_prefix_strip_front)
  ultimately have "strip_front space_seqs (rev r) = rev r"
    by (blast intro: strip_front_fixed no_leading_space_prefix)
  moreover have "strip_front (map rev space_seqs) r = r"
    unfolding r_def by (intro strip_front_fixed find_prefix_strip_front)
  ultimately show ?thesis
    by (simp add: trim_space_def l_def r_def)
qed

lemma trim_space_plain:
  assumes "set s \<inter> set (concat space_seqs) = {}"
  shows "trim_space s = s"
proof -
  have "find_prefix space_seqs s = None"
    using assms unfolding find_prefix_None space_seqs_def by (cases s) auto
  moreover have "find_prefix (map rev space_seqs) (rev s) = None"
    using assms unfolding find_prefix_None space_seqs_def by (cases s rule: rev_cases) auto
  ultimately show ?thesis by (simp add: trim_space_def strip_front_fixed)
qed

lemma trim_space_length: "length (trim_space s) \<le> length s"
proof -
  have "length (strip_front ps t) \<le> length t" for ps t
    by (rule suffix_length_le [OF strip_front_suffix])
  from this [of "map rev space_seqs" "rev (strip_front space_seqs s)"] this [of space_seqs s]
  show ?thesis by (simp add: trim_space_def)
qed

section \<open>Case folding\<close>

definition ascii_lower :: "char \<Rightarrow> char" where
  "ascii_lower c =
     (let b = (of_char c :: nat) in if 65 \<le> b \<and> b \<le> 90 then char_of (b + 32) else c)"

function to_lower :: "string \<Rightarrow> string" where
  "to_lower s = (case s of [] \<Rightarrow> []
     | c # r \<Rightarrow>
        if prefix [CHR 0xC4, CHR 0xB0] s then CHR ''i'' # to_lower (drop 2 s)
        else if prefix [CHR 0xE2, CHR 0x84, CHR 0xAA] s then CHR ''k'' # to_lower (drop 3 s)
        else ascii_lower c # to_lower r)"
  by pat_completeness auto
termination by (relation "measure length") auto

function fold_key :: "string \<Rightarrow> string" where
  "fold_key s = (case s of [] \<Rightarrow> []
     | c # r \<Rightarrow>
        if prefix [CHR 0xC5, CHR 0xBF] s then CHR ''s'' # fold_key (drop 2 s)
        else if prefix [CHR 0xE2, CHR 0x84, CHR 0xAA] s then CHR ''k'' # fold_key (drop 3 s)
        else ascii_lower c # fold_key r)"
  by pat_completeness auto
termination by (relation "measure length") auto

declare to_lower.simps [simp del] fold_key.simps [simp del]

definition equal_fold :: "string \<Rightarrow> string \<Rightarrow> bool" where
  "equal_fold s t \<longleftrightarrow> fold_key s = fold_key t"

lemma to_lower_Nil [simp]: "to_lower [] = []"
  by (simp add: to_lower.simps)

section \<open>UTF-8\<close>

definition cont_byte :: "char \<Rightarrow> bool" where
  "cont_byte c \<longleftrightarrow> 128 \<le> (of_char c :: nat) \<and> (of_char c :: nat) \<le> 191"

text \<open>The byte ranges of well-formed UTF-8 (no overlong forms, no surrogates).\<close>

fun valid_utf8 :: "string \<Rightarrow> bool" where
  "valid_utf8 [] = True"
| "valid_utf8 (c # s) =
    (let b = (of_char c :: nat) in
     if b < 128 then valid_utf8 s
     else if 194 \<le> b \<and> b \<le> 223 then
       (case s of c1 # s1 \<Rightarrow> cont_byte c1 \<and> valid_utf8 s1 | _ \<Rightarrow> False)
     else if 224 \<le> b \<and> b \<le> 239 then
       (case s of c1 # c2 # s2 \<Rightarrow>
          (if b = 224 then 160 else 128) \<le> (of_char c1 :: nat) \<and>
          (of_char c1 :: nat) \<le> (if b = 237 then 159 else 191) \<and> cont_byte c2 \<and> valid_utf8 s2
        | _ \<Rightarrow> False)
     else if 240 \<le> b \<and> b \<le> 244 then
       (case s of c1 # c2 # c3 # s3 \<Rightarrow>
          (if b = 240 then 144 else 128) \<le> (of_char c1 :: nat) \<and>
          (of_char c1 :: nat) \<le> (if b = 244 then 143 else 191) \<and>
          cont_byte c2 \<and> cont_byte c3 \<and> valid_utf8 s3
        | _ \<Rightarrow> False)
     else False)"

text \<open>
  Whether a well-formed string holds a rune of category Cc: U+0000 to U+001F, U+007F, and U+0080 to
  U+009F (two bytes, the first 0xC2).
\<close>

fun has_control :: "string \<Rightarrow> bool" where
  "has_control [] = False"
| "has_control (c # s) =
    (let b = (of_char c :: nat) in
     b < 32 \<or> b = 127 \<or>
     (b = 194 \<and> s \<noteq> [] \<and> 128 \<le> (of_char (hd s) :: nat) \<and> (of_char (hd s) :: nat) \<le> 159) \<or>
     has_control s)"

section \<open>Splitting\<close>

fun split_on :: "char \<Rightarrow> string \<Rightarrow> string list" where
  "split_on d [] = [[]]"
| "split_on d (c # s) =
    (if c = d then [] # split_on d s
     else (case split_on d s of [] \<Rightarrow> [[c]] | w # ws \<Rightarrow> (c # w) # ws))"

lemma split_on_not_Nil [simp]: "split_on d s \<noteq> []"
  by (induction s) (auto split: list.splits)

lemma split_on_no_sep: "d \<notin> set s \<Longrightarrow> split_on d s = [s]"
  by (induction s) auto

section \<open>Decimal numbers\<close>

definition digit_char :: "nat \<Rightarrow> char" where
  "digit_char n = char_of (48 + n)"

definition digit_val :: "char \<Rightarrow> nat option" where
  "digit_val c = (let b = (of_char c :: nat) in if 48 \<le> b \<and> b \<le> 57 then Some (b - 48) else None)"

fun nat_str :: "nat \<Rightarrow> string" where
  "nat_str n = (if n < 10 then [digit_char n] else nat_str (n div 10) @ [digit_char (n mod 10)])"

declare nat_str.simps [simp del]

definition itoa :: "int \<Rightarrow> string" where
  "itoa i = (if i < 0 then CHR ''-'' # nat_str (nat (- i)) else nat_str (nat i))"

fun digits_val :: "nat \<Rightarrow> string \<Rightarrow> nat option" where
  "digits_val acc [] = Some acc"
| "digits_val acc (c # s) =
     (case digit_val c of None \<Rightarrow> None | Some d \<Rightarrow> digits_val (10 * acc + d) s)"

text \<open>
  strconv.Atoi: the value and whether the error is nil.  A malformed string gives 0, an
  out-of-range one the nearest end of the 64-bit range, both with an error.
\<close>

definition atoi :: "string \<Rightarrow> int \<times> bool" where
  "atoi s =
    (let neg = (s \<noteq> [] \<and> hd s = CHR ''-'');
         ds = (if s \<noteq> [] \<and> (hd s = CHR ''-'' \<or> hd s = CHR ''+'') then tl s else s)
     in if ds = [] then (0, False)
        else (case digits_val 0 ds of None \<Rightarrow> (0, False)
          | Some n \<Rightarrow>
             if neg then (if int n > 2 ^ 63 then (- (2 ^ 63), False) else (- int n, True))
             else (if int n \<ge> 2 ^ 63 then (2 ^ 63 - 1, False) else (int n, True))))"

lemma of_char_digit: "n < 10 \<Longrightarrow> (of_char (digit_char n) :: nat) = 48 + n"
  by (simp add: digit_char_def)

lemma digit_val_digit_char [simp]: "n < 10 \<Longrightarrow> digit_val (digit_char n) = Some n"
  by (simp add: digit_val_def of_char_digit)

lemma digits_val_append:
  "digits_val acc (xs @ ys) =
     (case digits_val acc xs of None \<Rightarrow> None | Some a \<Rightarrow> digits_val a ys)"
  by (induction acc xs rule: digits_val.induct) (auto split: option.splits)

lemma digits_val_nat_str [simp]: "digits_val 0 (nat_str n) = Some n"
proof (induction n rule: nat_str.induct)
  case (1 n)
  show ?case
  proof (cases "n < 10")
    case True
    then show ?thesis by (simp add: nat_str.simps [of n])
  next
    case False
    with 1 show ?thesis by (simp add: nat_str.simps [of n] digits_val_append)
  qed
qed

lemma nat_str_not_Nil [simp]: "nat_str n \<noteq> []"
  by (subst nat_str.simps) simp

lemma nat_str_inject [simp]: "nat_str m = nat_str n \<longleftrightarrow> m = n"
  by (metis digits_val_nat_str option.inject)

lemma nat_str_digits: "c \<in> set (nat_str n) \<Longrightarrow> 48 \<le> (of_char c :: nat) \<and> (of_char c :: nat) \<le> 57"
proof (induction n rule: nat_str.induct)
  case (1 n)
  show ?case
  proof (cases "n < 10")
    case True
    with 1 show ?thesis by (simp add: nat_str.simps [of n] of_char_digit)
  next
    case False
    with 1 show ?thesis
      by (auto simp: nat_str.simps [of n] of_char_digit)
  qed
qed

lemma nat_str_free: "\<not> (48 \<le> (of_char c :: nat) \<and> (of_char c :: nat) \<le> 57) \<Longrightarrow> c \<notin> set (nat_str n)"
  using nat_str_digits by blast

lemma itoa_int [simp]: "itoa (int n) = nat_str n"
  by (simp add: itoa_def)

lemma atoi_nat_str: "int n < 2 ^ 63 \<Longrightarrow> atoi (nat_str n) = (int n, True)"
proof -
  assume n: "int n < 2 ^ 63"
  have "hd (nat_str n) \<in> set (nat_str n)" by (rule hd_in_set) simp
  then have "hd (nat_str n) \<noteq> CHR ''-''" and "hd (nat_str n) \<noteq> CHR ''+''"
    using nat_str_digits by fastforce+
  with n show ?thesis by (simp add: atoi_def)
qed

lemma atoi_itoa: "0 \<le> i \<Longrightarrow> i < 2 ^ 63 \<Longrightarrow> atoi (itoa i) = (i, True)"
  using atoi_nat_str [of "nat i"] by (simp add: itoa_def)

section \<open>Host and port\<close>

text \<open>The text before and after the last colon.\<close>

definition split_last_colon :: "string \<Rightarrow> (string \<times> string) option" where
  "split_last_colon s =
    (case dropWhile (\<lambda>c. c \<noteq> CHR '':'') (rev s) of [] \<Rightarrow> None
     | _ # r \<Rightarrow> Some (rev r, rev (takeWhile (\<lambda>c. c \<noteq> CHR '':'') (rev s))))"

definition split_host_port :: "string \<Rightarrow> (string \<times> string) option" where
  "split_host_port s =
    (case split_last_colon s of None \<Rightarrow> None
     | Some (pre, port) \<Rightarrow>
        if s \<noteq> [] \<and> hd s = CHR ''['' then
          (let host = takeWhile (\<lambda>c. c \<noteq> CHR '']'') s; e = length host
           in if e = length s \<or> e + 1 \<noteq> length pre
                \<or> CHR ''['' \<in> set (tl s) \<or> CHR '']'' \<in> set (drop (e + 1) s) then None
              else Some (tl host, port))
        else if CHR '':'' \<in> set pre \<or> CHR ''['' \<in> set s \<or> CHR '']'' \<in> set s then None
        else Some (pre, port))"

definition join_host_port :: "string \<Rightarrow> string \<Rightarrow> string" where
  "join_host_port host port =
    (if CHR '':'' \<in> set host then [CHR ''[''] @ host @ '']:'' @ port else host @ '':'' @ port)"

definition plain_host :: "string \<Rightarrow> bool" where
  "plain_host h \<longleftrightarrow> CHR ''['' \<notin> set h \<and> CHR '']'' \<notin> set h"

lemma split_last_colon_append:
  assumes "CHR '':'' \<notin> set p"
  shows "split_last_colon (h @ CHR '':'' # p) = Some (h, p)"
proof -
  have n: "\<And>x. x \<in> set (rev p) \<Longrightarrow> x \<noteq> CHR '':''" using assms by auto
  have "dropWhile (\<lambda>c. c \<noteq> CHR '':'') (rev p @ CHR '':'' # rev h) = CHR '':'' # rev h"
    by (subst dropWhile_append2) (use n in auto)
  moreover have "takeWhile (\<lambda>c. c \<noteq> CHR '':'') (rev p @ CHR '':'' # rev h) = rev p"
    by (subst takeWhile_append2) (use n in auto)
  ultimately show ?thesis
    unfolding split_last_colon_def by simp
qed

text \<open>SplitHostPort undoes JoinHostPort for a host and a port without brackets.\<close>

lemma split_join_host_port:
  assumes "plain_host h" and "plain_host p" and "CHR '':'' \<notin> set p"
  shows "split_host_port (join_host_port h p) = Some (h, p)"
proof (cases "CHR '':'' \<in> set h")
  case True
  let ?s = "CHR ''['' # h @ CHR '']'' # CHR '':'' # p"
  have s: "join_host_port h p = ?s" using True by (simp add: join_host_port_def)
  have "split_last_colon ((CHR ''['' # h @ [CHR '']'']) @ CHR '':'' # p)
          = Some (CHR ''['' # h @ [CHR '']''], p)"
    by (rule split_last_colon_append) (rule assms(3))
  then have c: "split_last_colon ?s = Some (CHR ''['' # h @ [CHR '']''], p)" by simp
  have "\<And>x. x \<in> set h \<Longrightarrow> x \<noteq> CHR '']''" using assms(1) by (auto simp: plain_host_def)
  then have t: "takeWhile (\<lambda>c. c \<noteq> CHR '']'') (h @ CHR '']'' # CHR '':'' # p) = h"
    by (subst takeWhile_append2) auto
  show ?thesis
    using assms unfolding s split_host_port_def c by (simp add: t plain_host_def)
next
  case False
  then have s: "join_host_port h p = h @ CHR '':'' # p" by (simp add: join_host_port_def)
  have c: "split_last_colon (h @ CHR '':'' # p) = Some (h, p)"
    by (rule split_last_colon_append) (rule assms(3))
  have "hd (h @ CHR '':'' # p) \<noteq> CHR ''[''"
    using assms(1) by (cases h) (auto simp: plain_host_def)
  with False assms show ?thesis
    unfolding s split_host_port_def c by (auto simp: plain_host_def)
qed

lemma plain_nat_str [simp]: "plain_host (nat_str n)" "CHR '':'' \<notin> set (nat_str n)"
  by (auto simp: plain_host_def nat_str_free)

end
