(* ===== verification/Types.thy ===== *)
theory Types
  imports GoStrings
begin

text \<open>
  The data of internal/shared/model/types.go: one record per struct, in the order of the file.

  Go's string enumerations (TunnelType, TunnelTransport, TunnelStageRole, ForwardProtocol,
  NodeStatus, NodeUpdateStatus) are types of strings: a value read from a request may be any
  string, and the validators reject the unknown ones.  They are therefore strings here too, with
  the constants of the file as definitions.

  A nil map and an empty map differ (writing to a nil map panics), so a settings map is an
  \<open>option\<close>, \<open>None\<close> for nil.  A slice whose nil-ness the code tests is an option where it
  is tested (the request structs of the controller) and a plain list elsewhere.
\<close>

section \<open>Constants\<close>

definition relay_config_lease :: duration where "relay_config_lease = 30 * 24 * hour"
definition legacy_relay_config_lease :: duration where "legacy_relay_config_lease = 15 * minute"

type_synonym tunnel_type = string
type_synonym transport = string
type_synonym stage_role = string
type_synonym protocol = string
type_synonym node_status = string
type_synonym update_status = string

definition TunnelDirect :: tunnel_type where "TunnelDirect = ''direct''"
definition TunnelChain :: tunnel_type where "TunnelChain = ''chain''"

definition TransportDirect :: transport where "TransportDirect = ''direct''"
definition TransportTLS :: transport where "TransportTLS = ''tls''"
definition TransportMTLS :: transport where "TransportMTLS = ''mtls''"
definition TransportWSTLS :: transport where "TransportWSTLS = ''ws-tls''"

definition StageEntry :: stage_role where "StageEntry = ''entry''"
definition StageMiddle :: stage_role where "StageMiddle = ''middle''"
definition StageExit :: stage_role where "StageExit = ''exit''"

definition ProtoTCP :: protocol where "ProtoTCP = ''tcp''"
definition ProtoUDP :: protocol where "ProtoUDP = ''udp''"

definition NodeOffline :: node_status where "NodeOffline = ''offline''"
definition NodeOnline :: node_status where "NodeOnline = ''online''"
definition NodeRevoked :: node_status where "NodeRevoked = ''revoked''"

definition UpdateIdle :: update_status where "UpdateIdle = ''''"
definition UpdateRequested :: update_status where "UpdateRequested = ''requested''"
definition UpdateRunning :: update_status where "UpdateRunning = ''running''"
definition UpdateSucceeded :: update_status where "UpdateSucceeded = ''succeeded''"
definition UpdateFailed :: update_status where "UpdateFailed = ''failed''"

lemmas enum_defs =
  TunnelDirect_def TunnelChain_def TransportDirect_def TransportTLS_def TransportMTLS_def
  TransportWSTLS_def StageEntry_def StageMiddle_def StageExit_def ProtoTCP_def ProtoUDP_def
  NodeOffline_def NodeOnline_def NodeRevoked_def UpdateIdle_def UpdateRequested_def
  UpdateRunning_def UpdateSucceeded_def UpdateFailed_def

section \<open>Maps of strings\<close>

type_synonym settings = "(string \<times> string) list option"

text \<open>Indexing a map of strings: the empty string for a missing key and for a nil map.\<close>

definition mget :: "settings \<Rightarrow> string \<Rightarrow> string" where
  "mget m k = (case m of None \<Rightarrow> [] | Some l \<Rightarrow> (case map_of l k of None \<Rightarrow> [] | Some v \<Rightarrow> v))"

definition mlen :: "settings \<Rightarrow> nat" where
  "mlen m = (case m of None \<Rightarrow> 0 | Some l \<Rightarrow> length l)"

definition mentries :: "settings \<Rightarrow> (string \<times> string) list" where
  "mentries m = (case m of None \<Rightarrow> [] | Some l \<Rightarrow> l)"

definition settings_ok :: "settings \<Rightarrow> bool" where
  "settings_ok m \<longleftrightarrow> keys_ok (mentries m)"

lemma mget_None [simp]: "mget None k = []"
  by (simp add: mget_def)

lemma mget_Nil [simp]: "mget (Some []) k = []"
  by (simp add: mget_def)

lemma mget_update [simp]: "mget (Some (AList.update k v l)) k' = (if k' = k then v else mget (Some l) k')"
  by (simp add: mget_def map_simps)

section \<open>Nodes\<close>

record node_system =
  sys_hostname :: string
  sys_os :: string
  sys_arch :: string
  sys_ip :: string

record node =
  nd_id :: string
  nd_name :: string
  nd_status :: node_status
  nd_version :: string
  nd_desired :: string
  nd_update :: update_status
  nd_update_error :: string
  nd_requested_at :: time
  nd_finished_at :: time
  nd_labels :: settings
  nd_public_host :: string
  nd_port_min :: int
  nd_port_max :: int
  nd_approved :: bool
  nd_revoked :: bool
  nd_last_seen :: time
  nd_created_at :: time
  nd_updated_at :: time
  nd_system :: node_system

section \<open>Tunnels\<close>

record stage_node =
  sn_id :: string
  sn_tunnel_id :: string
  sn_stage_id :: string
  sn_node_id :: string
  sn_protocols :: "protocol list"
  sn_listen :: string
  sn_public :: string
  sn_connect :: string
  sn_weight :: int
  sn_settings :: settings
  sn_created_at :: time
  sn_updated_at :: time

record tunnel_stage =
  stg_id :: string
  stg_tunnel_id :: string
  stg_index :: int
  stg_role :: stage_role
  stg_strategy :: string
  stg_tcp_strategy :: string
  stg_udp_strategy :: string
  stg_nodes :: "stage_node list"
  stg_created_at :: time
  stg_updated_at :: time

record tunnel =
  tun_id :: string
  tun_name :: string
  tun_type :: tunnel_type
  tun_transport :: transport
  tun_entry_address :: string
  tun_enabled :: bool
  tun_settings :: settings
  tun_stages :: "tunnel_stage list"
  tun_created_at :: time
  tun_updated_at :: time

section \<open>Forwards\<close>

record forward_target =
  tgt_id :: string
  tgt_forward_id :: string
  tgt_address :: string
  tgt_protocols :: "protocol list"
  tgt_weight :: int
  tgt_enabled :: bool
  tgt_position :: int

record forward =
  fwd_id :: string
  fwd_name :: string
  fwd_tunnel_id :: string
  fwd_protocols :: "protocol list"
  fwd_listen :: string
  fwd_target :: string
  fwd_targets :: "forward_target list"
  fwd_strategy :: string
  fwd_tcp_strategy :: string
  fwd_udp_strategy :: string
  fwd_enabled :: bool
  fwd_created_at :: time
  fwd_updated_at :: time

record port_allocation =
  pa_id :: string
  pa_node_id :: string
  pa_owner_kind :: string
  pa_owner_id :: string
  pa_protocol :: string
  pa_port :: int
  pa_bind :: string
  pa_created_at :: time
  pa_updated_at :: time

section \<open>Runtime configuration\<close>

record runtime_node =
  rn_node_id :: string
  rn_protocols :: "protocol list"
  rn_listen :: string
  rn_public :: string
  rn_connect :: string
  rn_weight :: int
  rn_settings :: settings

record runtime_stage =
  rst_index :: int
  rst_role :: stage_role
  rst_strategy :: string
  rst_tcp_strategy :: string
  rst_udp_strategy :: string
  rst_nodes :: "runtime_node list"

record tunnel_runtime =
  trt_id :: string
  trt_name :: string
  trt_type :: tunnel_type
  trt_transport :: transport
  trt_stages :: "runtime_stage list"
  trt_settings :: settings

record forward_runtime =
  frt_id :: string
  frt_name :: string
  frt_tunnel_id :: string
  frt_protocols :: "protocol list"
  frt_listen :: string
  frt_target :: string
  frt_targets :: "forward_target list"
  frt_strategy :: string
  frt_tcp_strategy :: string
  frt_udp_strategy :: string
  frt_enabled :: bool

record relay_config =
  rc_revision :: int
  rc_issued_at :: time
  rc_node_id :: string
  rc_nodes :: "node list"
  rc_tunnels :: "tunnel_runtime list"
  rc_forwards :: "forward_runtime list"
  rc_cooldown_seconds :: int
  rc_expires_at :: time

record signed_config =
  sc_config :: relay_config
  sc_signature :: string
  sc_key_id :: string

section \<open>Metrics, releases, updates, audit\<close>

record traffic_stat =
  tst_id :: string
  tst_bytes_in :: int
  tst_bytes_out :: int
  tst_connections :: int

record runtime_stat =
  rts_uptime :: int
  rts_goroutines :: int

record agent_error =
  aer_at :: time
  aer_scope :: string
  aer_message :: string

record metrics_report =
  mrp_node_id :: string
  mrp_observed_at :: time
  mrp_forward_stats :: "traffic_stat list"
  mrp_tunnel_stats :: "traffic_stat list"
  mrp_runtime :: runtime_stat
  mrp_agent_errors :: "agent_error list"

record release_artifact =
  art_os :: string
  art_arch :: string
  art_sha256 :: string
  art_size :: int

record release_manifest =
  man_version :: string
  man_commit :: string
  man_build_date :: string
  man_artifacts :: "release_artifact list"

record signed_release =
  srl_manifest :: release_manifest
  srl_signature :: string
  srl_key_id :: string
  srl_enabled :: bool
  srl_reason :: string

record update_command =
  cmd_version :: string
  cmd_manifest :: release_manifest
  cmd_signature :: string
  cmd_key_id :: string

record update_report =
  rpt_status :: update_status
  rpt_version :: string
  rpt_error :: string
  rpt_completed_at :: time

record update_request =
  urq_controller :: string
  urq_node_id :: string
  urq_token :: string
  urq_version :: string
  urq_os :: string
  urq_arch :: string
  urq_sha256 :: string
  urq_requested_at :: time

record audit_event =
  aud_id :: int
  aud_actor :: string
  aud_action :: string
  aud_target :: string
  aud_detail :: string
  aud_created_at :: time

section \<open>Zero values\<close>

text \<open>The composite literals \<open>T{}\<close> that functions return beside an error or a false.\<close>

definition zero_stage_node :: stage_node where
  "zero_stage_node = \<lparr> sn_id = [], sn_tunnel_id = [], sn_stage_id = [], sn_node_id = [],
     sn_protocols = [], sn_listen = [], sn_public = [], sn_connect = [], sn_weight = 0,
     sn_settings = None, sn_created_at = 0, sn_updated_at = 0 \<rparr>"

definition zero_stage :: tunnel_stage where
  "zero_stage = \<lparr> stg_id = [], stg_tunnel_id = [], stg_index = 0, stg_role = [],
     stg_strategy = [], stg_tcp_strategy = [], stg_udp_strategy = [], stg_nodes = [],
     stg_created_at = 0, stg_updated_at = 0 \<rparr>"

definition zero_tunnel :: tunnel where
  "zero_tunnel = \<lparr> tun_id = [], tun_name = [], tun_type = [], tun_transport = [],
     tun_entry_address = [], tun_enabled = False, tun_settings = None, tun_stages = [],
     tun_created_at = 0, tun_updated_at = 0 \<rparr>"

definition zero_config :: relay_config where
  "zero_config = \<lparr> rc_revision = 0, rc_issued_at = 0, rc_node_id = [], rc_nodes = [],
     rc_tunnels = [], rc_forwards = [], rc_cooldown_seconds = 0, rc_expires_at = 0 \<rparr>"

definition legacy_target :: "string \<Rightarrow> forward_target" where
  "legacy_target addr = \<lparr> tgt_id = ''legacy-target'', tgt_forward_id = [],
     tgt_address = trim_space addr, tgt_protocols = [], tgt_weight = 1, tgt_enabled = True,
     tgt_position = 0 \<rparr>"

end
