(* ===== verification/Http.thy ===== *)
theory Http
  imports Types
begin

text \<open>
  What the handlers of internal/controller/server.go share: the answers they write (writeJSON, writeError), the
  parts of a request they read, and the URLs of net/url.  Parsing an HTTP message, a URL or JSON is an
  argument wherever a handler needs it; a body is what readJSON (one JSON value, no unknown field, at most
  1 MiB) makes of it.
\<close>

datatype 'a reply = Answer 'a | Refused nat string

record http_request =
  rq_method :: string
  rq_remote :: string
  rq_host :: string
  rq_tls :: bool
  rq_headers :: "(string \<times> string) list"
  rq_cookies :: "(string \<times> string) list"
  rq_query :: "(string \<times> string) list"

text \<open>Header.Get and Query().Get answer the empty string for a name that is not there.\<close>

definition header :: "http_request \<Rightarrow> string \<Rightarrow> string" where
  "header r name = (case map_of (rq_headers r) name of None \<Rightarrow> [] | Some v \<Rightarrow> v)"

definition query :: "http_request \<Rightarrow> string \<Rightarrow> string" where
  "query r name = (case map_of (rq_query r) name of None \<Rightarrow> [] | Some v \<Rightarrow> v)"

record url =
  url_scheme :: string
  url_opaque :: string
  url_user :: bool
  url_host :: string
  url_hostname :: string
  url_path :: string
  url_raw_path :: string
  url_query :: string
  url_fragment :: string

text \<open>\<open>net/url\<close> and the address parser of \<open>net\<close>: Parse, String, and ParseIP with IsLoopback.\<close>

record net_env =
  nt_parse_url :: "string \<Rightarrow> url option"
  nt_url_string :: "url \<Rightarrow> string"
  nt_parse_ip :: "string \<Rightarrow> string option"
  nt_loopback :: "string \<Rightarrow> bool"

text \<open>url.QueryEscape and url.PathEscape: what is neither unreserved nor harmless in its place is escaped.\<close>

definition unreserved :: "char \<Rightarrow> bool" where
  "unreserved c = (let b = (of_char c :: nat) in
     48 \<le> b \<and> b \<le> 57 \<or> 65 \<le> b \<and> b \<le> 90 \<or> 97 \<le> b \<and> b \<le> 122 \<or> c \<in> set ''-_.~'')"

definition percent :: "char \<Rightarrow> string" where
  "percent c = (let b = (of_char c :: nat); upper = (\<lambda>n. ''0123456789ABCDEF'' ! (n mod 16))
     in [CHR ''%'', upper (b div 16), upper b])"

definition query_escape :: "string \<Rightarrow> string" where
  "query_escape s = concat (map (\<lambda>c. if unreserved c then [c] else if c = CHR '' '' then ''+'' else percent c) s)"

definition path_escape :: "string \<Rightarrow> string" where
  "path_escape s = concat (map (\<lambda>c. if unreserved c \<or> c \<in> set ''$&+=:@'' then [c] else percent c) s)"

definition StatusBadRequest :: nat where "StatusBadRequest = 400"
definition StatusUnauthorized :: nat where "StatusUnauthorized = 401"
definition StatusForbidden :: nat where "StatusForbidden = 403"
definition StatusNotFound :: nat where "StatusNotFound = 404"
definition StatusConflict :: nat where "StatusConflict = 409"
definition StatusTooManyRequests :: nat where "StatusTooManyRequests = 429"
definition StatusInternalServerError :: nat where "StatusInternalServerError = 500"

lemmas status_defs = StatusBadRequest_def StatusUnauthorized_def StatusForbidden_def StatusNotFound_def
  StatusConflict_def StatusTooManyRequests_def StatusInternalServerError_def

lemma reply_not_refused: "(\<nexists>c e. r = Refused c e) \<longleftrightarrow> (\<exists>v. r = Answer v)"
  by (cases r) auto

end
