(* ===== verification/Sign.thy ===== *)
theory Sign
  imports Types
begin

text \<open>
  internal/shared/crypto/sign.go: signing and verifying JSON values and payloads with Ed25519 keys that
  are stored as unpadded URL-safe base64.  Base64 (encoding/base64.RawURLEncoding, which ignores line
  breaks when it decodes) is written out; Ed25519 itself and json.Marshal are arguments.  What is relied
  on of Ed25519 is \<open>signs_for\<close>: a signature made with a private key verifies with its public key.
\<close>

section \<open>Base64\<close>

definition b64_alphabet :: string where
  "b64_alphabet = ''ABCDEFGHIJKLMNOPQRSTUVWXYZabcdefghijklmnopqrstuvwxyz0123456789-_''"

definition b64_char :: "nat \<Rightarrow> char" where
  "b64_char n = b64_alphabet ! (n mod 64)"

definition b64_val :: "char \<Rightarrow> nat option" where
  "b64_val c = map_option fst (List.find (\<lambda>(i, d). d = c) (enumerate 0 b64_alphabet))"

fun b64_encode :: "string \<Rightarrow> string" where
  "b64_encode [] = []"
| "b64_encode [a] = [b64_char (of_char a div 4), b64_char (of_char a mod 4 * 16)]"
| "b64_encode [a, b] = [b64_char (of_char a div 4), b64_char (of_char a mod 4 * 16 + of_char b div 16),
     b64_char (of_char b mod 16 * 4)]"
| "b64_encode (a # b # c # s) = b64_char (of_char a div 4) # b64_char (of_char a mod 4 * 16 + of_char b div 16) #
     b64_char (of_char b mod 16 * 4 + of_char c div 64) # b64_char (of_char c mod 64) # b64_encode s"

fun b64_quads :: "nat list \<Rightarrow> string option" where
  "b64_quads [] = Some []"
| "b64_quads [w] = None"
| "b64_quads [w, x] = Some [char_of (w * 4 + x div 16)]"
| "b64_quads [w, x, y] = Some [char_of (w * 4 + x div 16), char_of (x mod 16 * 16 + y div 4)]"
| "b64_quads (w # x # y # z # s) = map_option
     (\<lambda>r. char_of (w * 4 + x div 16) # char_of (x mod 16 * 16 + y div 4) # char_of (y mod 4 * 64 + z) # r)
     (b64_quads s)"

definition b64_decode :: "string \<Rightarrow> string option" where
  "b64_decode s =
    (let vs = map b64_val (filter (\<lambda>c. c \<noteq> CHR 0x0A \<and> c \<noteq> CHR 0x0D) s)
     in if None \<in> set vs then None else b64_quads (map the vs))"

lemma b64_val_char: "n < 64 \<Longrightarrow> b64_val (b64_char n) = Some n"
proof -
  have "list_all (\<lambda>n. b64_val (b64_char n) = Some n) [0..<64]" by code_simp
  then show "n < 64 \<Longrightarrow> ?thesis" by (auto simp: list_all_iff)
qed

lemma b64_char_no_break: "b64_char n \<noteq> CHR 0x0A" "b64_char n \<noteq> CHR 0x0D"
proof -
  have "list_all (\<lambda>n. b64_char n \<noteq> CHR 0x0A \<and> b64_char n \<noteq> CHR 0x0D) [0..<64]" by code_simp
  then have "b64_char (n mod 64) \<noteq> CHR 0x0A \<and> b64_char (n mod 64) \<noteq> CHR 0x0D"
    by (auto simp: list_all_iff)
  then show "b64_char n \<noteq> CHR 0x0A" "b64_char n \<noteq> CHR 0x0D"
    by (simp_all add: b64_char_def)
qed

fun b64_groups :: "string \<Rightarrow> nat list" where
  "b64_groups [] = []"
| "b64_groups [a] = [of_char a div 4, of_char a mod 4 * 16]"
| "b64_groups [a, b] = [of_char a div 4, of_char a mod 4 * 16 + of_char b div 16, of_char b mod 16 * 4]"
| "b64_groups (a # b # c # s) = of_char a div 4 # (of_char a mod 4 * 16 + of_char b div 16) #
     (of_char b mod 16 * 4 + of_char c div 64) # of_char c mod 64 # b64_groups s"

lemma of_char_256 [simp]: "(of_char (c :: char) :: nat) < 256"
proof -
  have "(of_char c :: nat) \<in> range of_char" by simp
  then show ?thesis by (simp only: range_nat_of_char atLeastLessThan_iff)
qed

lemma div_small: "(b :: nat) < 256 \<Longrightarrow> b div 4 < 64" "(b :: nat) < 256 \<Longrightarrow> b div 16 < 16"
  "(b :: nat) < 256 \<Longrightarrow> b div 64 < 4"
  by (simp_all add: less_mult_imp_div_less)

lemma pack_16: "(y :: nat) < 16 \<Longrightarrow> (x * 16 + y) div 16 = x" "(y :: nat) < 16 \<Longrightarrow> (x * 16 + y) mod 16 = y"
  by simp_all

lemma pack_4: "(y :: nat) < 4 \<Longrightarrow> (x * 4 + y) div 4 = x" "(y :: nat) < 4 \<Longrightarrow> (x * 4 + y) mod 4 = y"
  by simp_all

lemma pack_less: "(x :: nat) < 4 \<Longrightarrow> y < 16 \<Longrightarrow> x * 16 + y < 64" "(x :: nat) < 16 \<Longrightarrow> y < 4 \<Longrightarrow> x * 4 + y < 64"
  by simp_all

lemma byte_pack: "(of_char (c :: char) :: nat) div 4 < 64" "(of_char c :: nat) div 16 < 16"
  "(of_char c :: nat) div 64 < 4"
  using div_small [of "of_char c"] of_char_256 by blast+

lemma b64_groups_small: "n \<in> set (b64_groups s) \<Longrightarrow> n < 64"
  by (induction s rule: b64_groups.induct)
    (auto simp: pack_less byte_pack intro: order.strict_trans1 [OF mod_le_divisor])

lemma b64_encode_groups: "b64_encode s = map b64_char (b64_groups s)"
  by (induction s rule: b64_groups.induct) simp_all

lemma b64_quads_groups: "b64_quads (b64_groups s) = Some s"
proof (induction s rule: b64_groups.induct)
  case (2 a)
  have "of_char a div 4 * 4 + of_char a mod 4 * 16 div 16 = (of_char a :: nat)" by simp
  then show ?case by simp
next
  case (3 a b)
  show ?case by (simp add: pack_16 byte_pack)
next
  case (4 a b c s)
  then show ?case by (simp add: pack_16 pack_4 byte_pack)
qed simp

lemma b64_roundtrip: "b64_decode (b64_encode s) = Some s"
proof -
  have "filter (\<lambda>c. c \<noteq> CHR 0x0A \<and> c \<noteq> CHR 0x0D) (b64_encode s) = b64_encode s"
    by (simp add: b64_encode_groups filter_id_conv b64_char_no_break)
  moreover have "map b64_val (b64_encode s) = map Some (b64_groups s)"
    using b64_groups_small by (simp add: b64_encode_groups b64_val_char)
  ultimately show ?thesis
    by (simp add: b64_decode_def b64_quads_groups comp_def image_iff)
qed

section \<open>Keys and signatures\<close>

datatype sign_error = BadBase64 | BadKeyLength | BadSignatureLength | MarshalFailed | BadSignature

definition EncodeKey :: "string \<Rightarrow> string" where "EncodeKey k = b64_encode k"

definition decode64 :: "string \<Rightarrow> sign_error + string" where
  "decode64 s = (case b64_decode s of None \<Rightarrow> Inl BadBase64 | Some raw \<Rightarrow> Inr raw)"

definition DecodePublicKey :: "string \<Rightarrow> sign_error + string" where
  "DecodePublicKey encoded = bindE (decode64 encoded)
     (\<lambda>raw. if length raw \<noteq> 32 then Inl BadKeyLength else Inr raw)"

definition DecodePrivateKey :: "string \<Rightarrow> sign_error + string" where
  "DecodePrivateKey encoded = bindE (decode64 encoded)
     (\<lambda>raw. if length raw \<noteq> 64 then Inl BadKeyLength else Inr raw)"

type_synonym ed_sign = "string \<Rightarrow> string \<Rightarrow> string"
type_synonym ed_verify = "string \<Rightarrow> string \<Rightarrow> string \<Rightarrow> bool"

definition GenerateSigningKey :: "(string \<times> string) option \<Rightarrow> (string \<times> string) option" where
  "GenerateSigningKey generated = map_option (\<lambda>(pub, priv). (EncodeKey pub, EncodeKey priv)) generated"

definition marshalE :: "('v \<Rightarrow> string option) \<Rightarrow> 'v \<Rightarrow> sign_error + string" where
  "marshalE json v = (case json v of None \<Rightarrow> Inl MarshalFailed | Some payload \<Rightarrow> Inr payload)"

definition SignJSON :: "ed_sign \<Rightarrow> ('v \<Rightarrow> string option) \<Rightarrow> string \<Rightarrow> 'v \<Rightarrow> sign_error + string" where
  "SignJSON sign json privateKey v =
     bindE (DecodePrivateKey privateKey) (\<lambda>priv. bindE (marshalE json v) (\<lambda>payload.
       Inr (EncodeKey (sign priv payload))))"

definition SignBytes :: "ed_sign \<Rightarrow> string \<Rightarrow> string \<Rightarrow> sign_error + string" where
  "SignBytes sign privateKey payload =
     bindE (DecodePrivateKey privateKey) (\<lambda>priv. Inr (EncodeKey (sign priv payload)))"

definition as_error :: "'e + unit \<Rightarrow> 'e option" where
  "as_error r = (case r of Inl e \<Rightarrow> Some e | Inr _ \<Rightarrow> None)"

definition VerifyJSON :: "ed_verify \<Rightarrow> ('v \<Rightarrow> string option) \<Rightarrow> string \<Rightarrow> 'v \<Rightarrow> string \<Rightarrow> sign_error option" where
  "VerifyJSON verify json publicKey v signature = as_error
     (bindE (DecodePublicKey publicKey) (\<lambda>pub. bindE (decode64 signature) (\<lambda>sig.
       bindE (marshalE json v) (\<lambda>payload.
         if \<not> verify pub payload sig then Inl BadSignature else Inr ()))))"

definition VerifyBytes :: "ed_verify \<Rightarrow> string \<Rightarrow> string \<Rightarrow> string \<Rightarrow> sign_error option" where
  "VerifyBytes verify publicKey payload signature = as_error
     (bindE (DecodePublicKey publicKey) (\<lambda>pub. bindE (decode64 signature) (\<lambda>sig.
       if length sig \<noteq> 64 then Inl BadSignatureLength
       else if \<not> verify pub payload sig then Inl BadSignature else Inr ())))"

text \<open>The documented behaviour of Ed25519 for one pair of keys.\<close>

definition signs_for :: "ed_sign \<Rightarrow> ed_verify \<Rightarrow> string \<Rightarrow> string \<Rightarrow> bool" where
  "signs_for sign verify pub priv \<longleftrightarrow> length pub = 32 \<and> length priv = 64 \<and>
     (\<forall>m. length (sign priv m) = 64 \<and> verify pub m (sign priv m))"

lemma decode64_EncodeKey [simp]: "decode64 (EncodeKey k) = Inr k"
  by (simp add: decode64_def EncodeKey_def b64_roundtrip)

lemma b64_char_plain: "b64_char n \<notin> set (concat space_seqs)"
proof -
  have "list_all (\<lambda>n. b64_char n \<notin> set (concat space_seqs)) [0..<64]" by code_simp
  then have "b64_char (n mod 64) \<notin> set (concat space_seqs)" by (simp add: list_all_iff del: set_concat)
  then show ?thesis by (simp add: b64_char_def)
qed

lemma trim_EncodeKey [simp]: "trim_space (EncodeKey k) = EncodeKey k"
  by (rule trim_space_plain) (use b64_char_plain in \<open>auto simp: EncodeKey_def b64_encode_groups simp del: set_concat\<close>)

lemma EncodeKey_Nil [simp]: "EncodeKey k = [] \<longleftrightarrow> k = []"
  by (cases k rule: b64_encode.cases) (simp_all add: EncodeKey_def)

lemma Decode_EncodeKey:
  "length k = 32 \<Longrightarrow> DecodePublicKey (EncodeKey k) = Inr k"
  "length k = 64 \<Longrightarrow> DecodePrivateKey (EncodeKey k) = Inr k"
  by (simp_all add: DecodePublicKey_def DecodePrivateKey_def)

lemma sign_verify:
  assumes "signs_for sign verify pub priv" and "json v \<noteq> None"
  shows "\<exists>s. SignJSON sign json (EncodeKey priv) v = Inr s \<and> VerifyJSON verify json (EncodeKey pub) v s = None"
    and "\<exists>s. SignBytes sign (EncodeKey priv) p = Inr s \<and> VerifyBytes verify (EncodeKey pub) p s = None"
  using assms
  by (auto simp: signs_for_def SignJSON_def VerifyJSON_def SignBytes_def VerifyBytes_def marshalE_def
      as_error_def Decode_EncodeKey)

text \<open>what the release tool and the controller sign, the nodes accept: with a pair of keys as they
  are stored, the signature of a value or a payload verifies.\<close>

theorem signatures_verify:
  assumes "GenerateSigningKey (Some (pub, priv)) = Some (public, private)"
    and "signs_for sign verify pub priv" and "json v \<noteq> None"
  shows "(\<exists>s. SignJSON sign json private v = Inr s \<and> VerifyJSON verify json public v s = None) \<and>
    (\<exists>s. SignBytes sign private p = Inr s \<and> VerifyBytes verify public p s = None)"
proof -
  have "public = EncodeKey pub" "private = EncodeKey priv"
    using assms(1) by (simp_all add: GenerateSigningKey_def)
  then show ?thesis using sign_verify(1) [where json = json and v = v, OF assms(2,3)]
    sign_verify(2) [where json = json and v = v, OF assms(2,3), of p] by simp
qed

text \<open>A scheme for the witnesses: the signature is the tail of the key and the length of the message.\<close>

definition toy_sign :: ed_sign where
  "toy_sign priv m = drop 32 priv @ replicate 32 (char_of (length m mod 256))"

definition toy_verify :: ed_verify where
  "toy_verify pub m s = (s = pub @ replicate 32 (char_of (length m mod 256)))"

lemma toy_signs: "length pub = 32 \<Longrightarrow> length seed = 32 \<Longrightarrow> signs_for toy_sign toy_verify pub (seed @ pub)"
  by (simp add: signs_for_def toy_sign_def toy_verify_def)

definition ex_seed :: string where "ex_seed = replicate 32 CHR ''s''"
definition ex_pub :: string where "ex_pub = replicate 32 CHR ''p''"

lemma ex_signs: "signs_for toy_sign toy_verify ex_pub (ex_seed @ ex_pub)"
  by (rule toy_signs) (simp_all add: ex_seed_def ex_pub_def)

lemma toy_verified:
  assumes "json v = Some m" and "s = EncodeKey (ex_pub @ replicate 32 (char_of (length m mod 256)))"
  shows "VerifyJSON toy_verify json (EncodeKey ex_pub) v s = None"
  using assms by (simp add: VerifyJSON_def Decode_EncodeKey marshalE_def as_error_def toy_verify_def ex_pub_def)

theorem signatures_verify_witness:
  "\<exists>s. SignBytes toy_sign (EncodeKey (ex_seed @ ex_pub)) ''release'' = Inr s \<and>
     VerifyBytes toy_verify (EncodeKey ex_pub) ''release'' s = None"
proof -
  have "GenerateSigningKey (Some (ex_pub, ex_seed @ ex_pub)) =
      Some (EncodeKey ex_pub, EncodeKey (ex_seed @ ex_pub))"
    by (simp add: GenerateSigningKey_def)
  from signatures_verify [OF this ex_signs, where json = Some and v = "''x''" and p = "''release''"]
  show ?thesis by blast
qed

end
