(* ===== verification/Files.thy ===== *)
theory Files
  imports Sign
begin

text \<open>
  The files of the node agent: node.go (writePrivateFileAtomic, readFileLimited, saveConfig, loadConfig) and
  update.go (replaceBinary, the update request and the update status).

  A file is its mode and its bytes, a directory tree the map from paths to files.  What the operating
  system answers to each step of a write is an argument, an error being its message; JSON coding is an
  argument too.  \<open>os.CreateTemp\<close> opens a file that does not exist yet, which is the hypothesis
  \<open>fresh_temp\<close>.

  The locale \<open>atomic_write\<close> is the contract of both writers: a write is seen whole or not at all.
\<close>

text \<open>Modes 0600 and 0755.\<close>

definition private_mode :: nat where "private_mode = 384"
definition executable_mode :: nat where "executable_mode = 493"

record disk_file =
  fl_mode :: nat
  fl_data :: string

type_synonym files = "(string \<times> disk_file) list"

record write_env =
  we_goos :: string
  we_mkdir :: "string option"
  we_temp :: "string + string"
  we_chmod :: "string option"
  we_write :: "string option"
  we_written :: nat
  we_sync :: "string option"
  we_close :: "string option"
  we_rename :: "string option"
  we_remove :: "string option"
  we_rename_again :: "string option"

definition put_file :: "string \<Rightarrow> nat \<Rightarrow> string \<Rightarrow> files \<Rightarrow> files" where
  "put_file path mode payload fs = AList.update path \<lparr> fl_mode = mode, fl_data = payload \<rparr> fs"

text \<open>os.Rename of the file \<open>from\<close>.\<close>

definition rename_file :: "string \<Rightarrow> string \<Rightarrow> files \<Rightarrow> files" where
  "rename_file src dst fs =
    (case map_of fs src of None \<Rightarrow> fs | Some f \<Rightarrow> AList.update dst f (AList.delete src fs))"

section \<open>Writing\<close>

text \<open>The deferred removal of the temporary file is the last step of every path that created it.\<close>

definition writePrivateFileAtomic :: "write_env \<Rightarrow> string \<Rightarrow> string \<Rightarrow> files \<Rightarrow> string option \<times> files" where
  "writePrivateFileAtomic we path payload fs =
    (case we_mkdir we of Some e \<Rightarrow> (Some e, fs) | None \<Rightarrow>
     (case we_temp we of Inl e \<Rightarrow> (Some e, fs) | Inr tmp \<Rightarrow>
       (let cleanup = AList.delete tmp;
            created = put_file tmp private_mode [] fs;
            partial = put_file tmp private_mode (take (we_written we) payload) fs;
            full = put_file tmp private_mode payload fs
        in (case we_chmod we of Some e \<Rightarrow> (Some e, cleanup created) | None \<Rightarrow>
            (case we_write we of Some e \<Rightarrow> (Some e, cleanup partial) | None \<Rightarrow>
             (case we_sync we of Some e \<Rightarrow> (Some e, cleanup full) | None \<Rightarrow>
              (case we_close we of Some e \<Rightarrow> (Some e, cleanup full) | None \<Rightarrow>
               (case we_rename we of
                  None \<Rightarrow> (None, cleanup (rename_file tmp path full))
                | Some e \<Rightarrow>
                    if we_goos we \<noteq> ''windows'' then (Some e, cleanup full)
                    else (case we_remove we of Some e \<Rightarrow> (Some e, cleanup full) | None \<Rightarrow>
                      (let gone = AList.delete path full
                       in case we_rename_again we of
                            None \<Rightarrow> (None, cleanup (rename_file tmp path gone))
                          | Some e \<Rightarrow> (Some e, cleanup gone)))))))))))"

definition replaceBinary :: "write_env \<Rightarrow> string \<Rightarrow> string \<Rightarrow> files \<Rightarrow> string option \<times> files" where
  "replaceBinary we path payload fs =
    (if path = [] then (Some ''binary path is required'', fs)
     else case we_mkdir we of Some e \<Rightarrow> (Some e, fs) | None \<Rightarrow>
     (case we_temp we of Inl e \<Rightarrow> (Some e, fs) | Inr tmp \<Rightarrow>
       (let cleanup = AList.delete tmp;
            partial = put_file tmp private_mode (take (we_written we) payload) fs;
            full = put_file tmp private_mode payload fs;
            executable = put_file tmp executable_mode payload fs
        in (case we_write we of Some e \<Rightarrow> (Some e, cleanup partial) | None \<Rightarrow>
            (case we_chmod we of Some e \<Rightarrow> (Some e, cleanup full) | None \<Rightarrow>
             (case we_close we of Some e \<Rightarrow> (Some e, cleanup executable) | None \<Rightarrow>
              (case we_rename we of
                 Some e \<Rightarrow> (Some e, cleanup executable)
               | None \<Rightarrow> (None, cleanup (rename_file tmp path executable)))))))))"

text \<open>The file created has a new name, other than the one it is going to replace.\<close>

definition fresh_temp :: "write_env \<Rightarrow> string \<Rightarrow> files \<Rightarrow> bool" where
  "fresh_temp we path fs = (case we_temp we of Inl _ \<Rightarrow> True | Inr tmp \<Rightarrow> tmp \<notin> fst ` set fs \<and> tmp \<noteq> path)"

locale atomic_write =
  fixes wr :: "write_env \<Rightarrow> string \<Rightarrow> string \<Rightarrow> files \<Rightarrow> string option \<times> files"
    and mode :: nat
  assumes written: "fresh_temp we path fs \<Longrightarrow> wr we path payload fs = (None, fs') \<Longrightarrow>
      map_of fs' = (map_of fs)(path \<mapsto> \<lparr> fl_mode = mode, fl_data = payload \<rparr>)"
    and not_written: "fresh_temp we path fs \<Longrightarrow> we_goos we \<noteq> ''windows'' \<Longrightarrow>
      wr we path payload fs = (Some e, fs') \<Longrightarrow> map_of fs' = map_of fs"
    and not_elsewhere: "fresh_temp we path fs \<Longrightarrow> q \<noteq> path \<Longrightarrow>
      map_of (snd (wr we path payload fs)) q = map_of fs q"
begin

lemma all_or_nothing:
  assumes "fresh_temp we path fs" and "we_goos we \<noteq> ''windows''"
  shows "map_of (snd (wr we path payload fs)) path \<in>
    {map_of fs path, Some \<lparr> fl_mode = mode, fl_data = payload \<rparr>}"
  using written [OF assms(1)] not_written [OF assms]
  by (cases "wr we path payload fs"; cases "fst (wr we path payload fs)") auto

lemma read_back:
  assumes "fresh_temp we path fs" and "wr we path payload fs = (None, fs')"
  shows "map_of fs' path = Some \<lparr> fl_mode = mode, fl_data = payload \<rparr>"
  using written [OF assms] by simp

end

lemma map_of_rename_temp:
  "tmp \<notin> fst ` set fs \<Longrightarrow> tmp \<noteq> path \<Longrightarrow>
   map_of (AList.delete tmp (rename_file tmp path (put_file tmp m payload fs))) =
     (map_of fs)(path \<mapsto> \<lparr> fl_mode = m, fl_data = payload \<rparr>)"
  "tmp \<notin> fst ` set fs \<Longrightarrow> tmp \<noteq> path \<Longrightarrow>
   map_of (AList.delete tmp (rename_file tmp path (AList.delete path (put_file tmp m payload fs)))) =
     (map_of fs)(path \<mapsto> \<lparr> fl_mode = m, fl_data = payload \<rparr>)"
  by (auto simp: rename_file_def put_file_def map_simps fun_eq_iff map_of_eq_None_iff [symmetric])

lemma map_of_drop_temp:
  "tmp \<notin> fst ` set fs \<Longrightarrow> map_of (AList.delete tmp (put_file tmp m payload fs)) = map_of fs"
  "tmp \<notin> fst ` set fs \<Longrightarrow>
     map_of (AList.delete tmp (AList.delete path (put_file tmp m payload fs))) = (map_of fs)(path := None)"
  by (auto simp: put_file_def map_simps fun_eq_iff map_of_eq_None_iff [symmetric])

lemma writePrivateFileAtomic_cases:
  assumes "fresh_temp we path fs" 
  shows "case writePrivateFileAtomic we path payload fs of
   (None, fs') \<Rightarrow> map_of fs' = (map_of fs)(path \<mapsto> \<lparr> fl_mode = private_mode, fl_data = payload \<rparr>)
 | (Some e, fs') \<Rightarrow> map_of fs' = map_of fs \<or> we_goos we = ''windows'' \<and> map_of fs' = (map_of fs)(path := None)"
proof (cases "we_mkdir we")
  case None
  show ?thesis
  proof (cases "we_temp we")
    case (Inr tmp)
    then have t: "tmp \<notin> fst ` set fs" "tmp \<noteq> path" using assms by (simp_all add: fresh_temp_def)
    show ?thesis
      unfolding writePrivateFileAtomic_def None Inr Let_def option.case sum.case
      by (simp add: map_of_rename_temp map_of_drop_temp t split: option.split)
  qed (simp add: None writePrivateFileAtomic_def)
qed (simp add: writePrivateFileAtomic_def)

lemma replaceBinary_cases:
  assumes "fresh_temp we path fs" 
  shows "case replaceBinary we path payload fs of
   (None, fs') \<Rightarrow> map_of fs' = (map_of fs)(path \<mapsto> \<lparr> fl_mode = executable_mode, fl_data = payload \<rparr>)
 | (Some e, fs') \<Rightarrow> map_of fs' = map_of fs"
proof (cases "we_mkdir we")
  case None
  show ?thesis
  proof (cases "we_temp we")
    case (Inr tmp)
    then have t: "tmp \<notin> fst ` set fs" "tmp \<noteq> path" using assms by (simp_all add: fresh_temp_def)
    show ?thesis
      unfolding replaceBinary_def None Inr Let_def option.case sum.case
      by (simp add: map_of_rename_temp map_of_drop_temp t split: option.split)
  qed (simp add: None replaceBinary_def)
qed (simp add: replaceBinary_def)

interpretation private_write: atomic_write writePrivateFileAtomic private_mode
proof unfold_locales
  fix we path fs payload fs' e q
  assume "fresh_temp we path fs"
  note c = writePrivateFileAtomic_cases [OF this, of payload]
  show "writePrivateFileAtomic we path payload fs = (None, fs') \<Longrightarrow>
      map_of fs' = (map_of fs)(path \<mapsto> \<lparr> fl_mode = private_mode, fl_data = payload \<rparr>)"
    using c by simp
  show "we_goos we \<noteq> ''windows'' \<Longrightarrow> writePrivateFileAtomic we path payload fs = (Some e, fs') \<Longrightarrow> map_of fs' = map_of fs"
    using c by simp
  show "q \<noteq> path \<Longrightarrow> map_of (snd (writePrivateFileAtomic we path payload fs)) q = map_of fs q"
    using c by (auto split: prod.splits option.splits)
qed

interpretation binary_write: atomic_write replaceBinary executable_mode
proof unfold_locales
  fix we path fs payload fs' e q
  assume "fresh_temp we path fs"
  note c = replaceBinary_cases [OF this, of payload]
  show "replaceBinary we path payload fs = (None, fs') \<Longrightarrow>
      map_of fs' = (map_of fs)(path \<mapsto> \<lparr> fl_mode = executable_mode, fl_data = payload \<rparr>)"
    using c by simp
  show "we_goos we \<noteq> ''windows'' \<Longrightarrow> replaceBinary we path payload fs = (Some e, fs') \<Longrightarrow> map_of fs' = map_of fs"
    using c by simp
  show "q \<noteq> path \<Longrightarrow> map_of (snd (replaceBinary we path payload fs)) q = map_of fs q"
    using c by (auto split: prod.splits option.splits)
qed

section \<open>Reading\<close>

text \<open>\<open>unreadable\<close> is what Stat and ReadFile may report of a file that exists.\<close>

definition readFileLimited :: "(string \<Rightarrow> string option) \<Rightarrow> nat \<Rightarrow> string \<Rightarrow> files \<Rightarrow> string + string" where
  "readFileLimited unreadable maxBytes path fs =
    (case map_of fs path of
       None \<Rightarrow> Inl ''file does not exist''
     | Some f \<Rightarrow>
         if length (fl_data f) > maxBytes then Inl (''file '' @ path @ '' is too large'')
         else case unreadable path of Some e \<Rightarrow> Inl e | None \<Rightarrow> Inr (fl_data f))"

text \<open>A JSON coding of the values of one type: \<open>json.MarshalIndent\<close> and \<open>json.Unmarshal\<close> with their error texts.\<close>

record 'v codec =
  cd_encode :: "'v \<Rightarrow> string + string"
  cd_decode :: "string \<Rightarrow> string + 'v"

definition decodes :: "'v codec \<Rightarrow> 'v \<Rightarrow> bool" where
  "decodes c v \<longleftrightarrow> (\<exists>p. cd_encode c v = Inr p \<and> cd_decode c p = Inr v)"

definition load_json :: "'v codec \<Rightarrow> (string \<Rightarrow> string option) \<Rightarrow> nat \<Rightarrow> string \<Rightarrow> files \<Rightarrow> string + 'v" where
  "load_json c unreadable maxBytes path fs = bindE (readFileLimited unreadable maxBytes path fs) (cd_decode c)"

definition saveConfig :: "signed_config codec \<Rightarrow> write_env \<Rightarrow> string \<Rightarrow> signed_config \<Rightarrow> files \<Rightarrow> string option \<times> files" where
  "saveConfig c we path signed fs =
    (case cd_encode c signed of Inl e \<Rightarrow> (Some e, fs) | Inr payload \<Rightarrow> writePrivateFileAtomic we path payload fs)"

definition loadConfig :: "signed_config codec \<Rightarrow> (string \<Rightarrow> string option) \<Rightarrow> string \<Rightarrow> files \<Rightarrow> string + signed_config" where
  "loadConfig c unreadable path fs = load_json c unreadable 8388608 path fs"

definition writeUpdateRequest ::
  "update_request codec \<Rightarrow> string option \<Rightarrow> write_env \<Rightarrow> string \<Rightarrow> update_request \<Rightarrow> files \<Rightarrow> string option \<times> files" where
  "writeUpdateRequest c mkdir we path req fs =
    (if trim_space (urq_version req) = [] then (Some ''target version is required'', fs)
     else case mkdir of Some e \<Rightarrow> (Some e, fs) | None \<Rightarrow>
     (case cd_encode c req of Inl e \<Rightarrow> (Some e, fs) | Inr payload \<Rightarrow> writePrivateFileAtomic we path payload fs))"

definition loadUpdateRequest ::
  "update_request codec \<Rightarrow> (string \<Rightarrow> string option) \<Rightarrow> string \<Rightarrow> files \<Rightarrow> string + update_request" where
  "loadUpdateRequest c unreadable path fs = load_json c unreadable 1048576 path fs"

definition completed_report :: "time \<Rightarrow> update_report \<Rightarrow> update_report" where
  "completed_report now r =
    (if rpt_completed_at r = zero_time \<and> (rpt_status r = UpdateSucceeded \<or> rpt_status r = UpdateFailed)
     then r\<lparr> rpt_completed_at := now \<rparr> else r)"

definition saveUpdateStatus ::
  "update_report codec \<Rightarrow> time \<Rightarrow> string option \<Rightarrow> write_env \<Rightarrow> string \<Rightarrow> update_report \<Rightarrow> files \<Rightarrow> string option \<times> files" where
  "saveUpdateStatus c now mkdir we path report fs =
    (case mkdir of Some e \<Rightarrow> (Some e, fs) | None \<Rightarrow>
     (case cd_encode c (completed_report now report) of
        Inl e \<Rightarrow> (Some e, fs) | Inr payload \<Rightarrow> writePrivateFileAtomic we path payload fs))"

definition loadUpdateStatus ::
  "update_report codec \<Rightarrow> (string \<Rightarrow> string option) \<Rightarrow> string \<Rightarrow> files \<Rightarrow> string + update_report" where
  "loadUpdateStatus c unreadable path fs = load_json c unreadable 1048576 path fs"

section \<open>What was saved is read back\<close>

lemma load_saved:
  assumes "fresh_temp we path fs" and "writePrivateFileAtomic we path p fs = (None, fs')"
    and "length p \<le> maxBytes" and "unreadable path = None"
  shows "load_json c unreadable maxBytes path fs' = cd_decode c p"
  using private_write.read_back [OF assms(1,2)] assms(3,4)
  by (simp add: load_json_def readFileLimited_def)

lemma config_cache_roundtrip:
  assumes "fresh_temp we path fs" and "cd_encode c sc = Inr p" and "cd_decode c p = Inr sc"
    and "length p \<le> 8388608" and "unreadable path = None" and "saveConfig c we path sc fs = (None, fs')"
  shows "loadConfig c unreadable path fs' = Inr sc"
  using assms by (simp add: saveConfig_def loadConfig_def load_saved)

lemma config_cache_survives:
  assumes "fresh_temp we path fs" and "we_goos we \<noteq> ''windows''" and "saveConfig c we path sc fs = (Some e, fs')"
  shows "loadConfig c unreadable path fs' = loadConfig c unreadable path fs"
proof -
  have "map_of fs' = map_of fs"
    using assms private_write.not_written [OF assms(1,2)]
    by (auto simp: saveConfig_def split: sum.splits)
  then show ?thesis by (simp add: loadConfig_def load_json_def readFileLimited_def)
qed

lemma status_elsewhere:
  assumes "fresh_temp we path fs" and "q \<noteq> path"
  shows "map_of (snd (saveUpdateStatus c now mkdir we path report fs)) q = map_of fs q"
  using private_write.not_elsewhere [OF assms]
  by (simp add: saveUpdateStatus_def split: option.splits sum.splits)

end
