(* ===== verification/GoTime.thy ===== *)
theory GoTime
  imports GoStrings "HOL-Library.Char_ord" "HOL-Library.List_Lexorder"
begin

text \<open>
  Instants as text: \<open>t.UTC().Format(time.RFC3339Nano)\<close>, the form in which the store writes its
  time columns, and \<open>t.Unix()\<close>.  Formatting and time.Parse are inverse on the instants the store
  writes, so the store model keeps the instant in a column; the text itself matters where SQL compares
  or sorts a time column, which it does byte by byte (collation BINARY): \<open>rfc3339nano\<close> and the
  lexicographic order of byte strings.
\<close>

section \<open>The calendar\<close>

definition seconds_of :: "time \<Rightarrow> int" where "seconds_of t = t div 10 ^ 9"
definition nanos_of :: "time \<Rightarrow> nat" where "nanos_of t = nat (t mod 10 ^ 9)"

definition unix_offset :: int where "unix_offset = 62135596800"

definition time_unix :: "time \<Rightarrow> int" where "time_unix t = seconds_of t - unix_offset"
definition unix_time :: "int \<Rightarrow> time" where "unix_time s = (s + unix_offset) * 10 ^ 9"

text \<open>Year and day of the year of a number of days since January 1, year 1.\<close>

definition year_day :: "nat \<Rightarrow> nat \<times> nat" where
  "year_day n =
    (let r400 = n mod 146097; c = min 3 (r400 div 36524); r100 = r400 - c * 36524;
         r4 = r100 mod 1461; y = min 3 (r4 div 365)
     in (400 * (n div 146097) + 100 * c + 4 * (r100 div 1461) + y + 1, r4 - y * 365))"

definition leap_year :: "nat \<Rightarrow> bool" where
  "leap_year y \<longleftrightarrow> y mod 4 = 0 \<and> (y mod 100 \<noteq> 0 \<or> y mod 400 = 0)"

definition month_lengths :: "nat \<Rightarrow> nat list" where
  "month_lengths y = [31, if leap_year y then 29 else 28, 31, 30, 31, 30, 31, 31, 30, 31, 30, 31]"

fun month_day :: "nat list \<Rightarrow> nat \<Rightarrow> nat \<Rightarrow> nat \<times> nat" where
  "month_day [] m d = (m, d + 1)"
| "month_day (l # ls) m d = (if d < l \<or> ls = [] then (m, d + 1) else month_day ls (m + 1) (d - l))"

section \<open>Formatting\<close>

primrec pad :: "nat \<Rightarrow> nat \<Rightarrow> string" where
  "pad 0 n = []"
| "pad (Suc w) n = pad w (n div 10) @ [digit_char (n mod 10)]"

definition fraction :: "nat \<Rightarrow> string" where
  "fraction ns = (if ns = 0 then [] else CHR ''.'' # rev (dropWhile (\<lambda>c. c = CHR ''0'') (rev (pad 9 ns))))"

definition rfc3339_seconds :: "nat \<Rightarrow> string" where
  "rfc3339_seconds s =
    (let (y, yd) = year_day (s div 86400); (m, d) = month_day (month_lengths y) 1 yd; r = s mod 86400
     in pad 4 y @ ''-'' @ pad 2 m @ ''-'' @ pad 2 d @ ''T'' @
        pad 2 (r div 3600) @ '':'' @ pad 2 (r div 60 mod 60) @ '':'' @ pad 2 (r mod 60))"

definition rfc3339nano :: "time \<Rightarrow> string" where
  "rfc3339nano t = rfc3339_seconds (nat (seconds_of t)) @ fraction (nanos_of t) @ ''Z''"

text \<open>The first instant the four-digit year cannot hold: January 1, year 10000.\<close>

definition time_limit :: time where "time_limit = 315537897600 * 10 ^ 9"

section \<open>The text order follows the seconds\<close>

lemma pad_length [simp]: "length (pad w n) = w"
  by (induction w arbitrary: n) simp_all

lemma digit_char_less: "m < 10 \<Longrightarrow> n < 10 \<Longrightarrow> digit_char m < digit_char n \<longleftrightarrow> m < n"
  by (simp add: less_char_def of_char_digit)

lemma less_append_left: "length (xs :: string) = length ys \<Longrightarrow> xs < ys \<Longrightarrow> xs @ us < ys @ vs"
proof (induction xs arbitrary: ys)
  case (Cons x xs)
  then obtain y ys' where "ys = y # ys'" by (cases ys) auto
  with Cons show ?case by auto
qed simp

lemma less_append_same: "(us :: string) < vs \<Longrightarrow> xs @ us < xs @ vs"
  by (induction xs) simp_all

lemma pad_less: "m < n \<Longrightarrow> n < 10 ^ w \<Longrightarrow> pad w m < pad w n"
proof (induction w arbitrary: m n)
  case (Suc w)
  show ?case
  proof (cases "m div 10 = n div 10")
    case True
    then have "m mod 10 < n mod 10"
      using Suc.prems(1) by (metis div_mult_mod_eq nat_add_left_cancel_less)
    then show ?thesis
      using True by (auto intro!: less_append_same simp: digit_char_less)
  next
    case False
    then have "m div 10 < n div 10" using Suc.prems(1) by (simp add: div_le_mono le_neq_trans)
    moreover have "n div 10 < 10 ^ w" using Suc.prems(2) by (simp add: less_mult_imp_div_less mult.commute)
    ultimately show ?thesis using Suc.IH by (simp add: less_append_left)
  qed
qed simp

lemma field_less:
  assumes "a < b \<or> a = b \<and> us < vs" and "b < 10 ^ w"
  shows "pad w a @ us < pad w b @ vs"
  using assms less_append_left [OF _ pad_less] less_append_same by auto

text \<open>Days: \<open>year_start z\<close> is the number of days before January 1 of year \<open>z + 1\<close>.\<close>

definition year_start :: "nat \<Rightarrow> nat" where
  "year_start z = 365 * z + z div 4 + z div 400 - z div 100"

lemma year_start_step: "year_start w < year_start (Suc w)"
proof -
  have arith: "365 * w + a + b - c < 365 * Suc w + a' + b' - c'"
    if "a \<le> a'" "b \<le> b'" "c' \<le> c + 1" "c \<le> w" for a b c a' b' c' :: nat
    using that by (simp add: less_diff_conv2 nat_diff_split)
  show ?thesis
    unfolding year_start_def by (rule arith) (simp_all add: div_le_mono div_Suc)
qed

lemma year_start_mono: "z < z' \<Longrightarrow> year_start z < year_start z'"
  by (rule lift_Suc_mono_less [of year_start, OF year_start_step])

lemma year_start_parts:
  assumes "c \<le> 3" "k \<le> 24" "j \<le> 3"
  shows "year_start (400 * q + 100 * c + 4 * k + j) = 146097 * q + 36524 * c + 1461 * k + 365 * j"
proof -
  let ?z = "400 * q + 100 * c + 4 * k + j"
  have "?z div 4 = 100 * q + 25 * c + k" "?z div 100 = 4 * q + c" "?z div 400 = q"
    by (rule div_nat_eqI; use assms in simp)+
  then show ?thesis by (simp add: year_start_def)
qed

lemma year_day_bounds:
  obtains z where "fst (year_day n) = z + 1" "year_start z + snd (year_day n) = n" "n < year_start (z + 1)"
    "snd (year_day n) < 366"
proof -
  define q r400 where "q = n div 146097" and "r400 = n mod 146097"
  define c where "c = min 3 (r400 div 36524)"
  define r100 where "r100 = r400 - c * 36524"
  define k r4 where "k = r100 div 1461" and "r4 = r100 mod 1461"
  define j where "j = min 3 (r4 div 365)"
  define d where "d = r4 - j * 365"
  have yd: "year_day n = (400 * q + 100 * c + 4 * k + j + 1, d)"
    unfolding year_day_def Let_def q_def r400_def c_def r100_def k_def r4_def j_def d_def by (rule refl)
  have n: "n = 146097 * q + r400" "r400 < 146097" by (simp_all add: q_def r400_def)
  have c: "c \<le> 3" "r400 = c * 36524 + r100" "c < 3 \<Longrightarrow> r100 < 36524" "r100 < 36525"
    using n(2) unfolding c_def r100_def by linarith+
  have k: "r100 = 1461 * k + r4" "r4 < 1461" by (simp_all add: k_def r4_def)
  have k24: "k \<le> 24" using c(4) unfolding k_def by linarith
  have j: "j \<le> 3" "r4 = j * 365 + d" "j < 3 \<Longrightarrow> d < 365" "d < 366"
    using k(2) unfolding j_def d_def by linarith+
  note start = year_start_parts [OF c(1) k24 j(1)]
  have "n < year_start (400 * q + 100 * c + 4 * k + j + 1)"
  proof (cases "j < 3")
    case True
    with year_start_parts [OF c(1) k24, of "j + 1" q] n(1) c(2) k(1) j(2,3) show ?thesis by simp
  next
    case False
    with j(1) have j3: "j = 3" by simp
    show ?thesis
    proof (cases "k < 24")
      case True
      with year_start_parts [OF c(1), of "k + 1" 0 q] n(1) c(2) k j3 show ?thesis by (simp add: algebra_simps)
    next
      case False
      with k24 have k24': "k = 24" by simp
      show ?thesis
      proof (cases "c < 3")
        case True
        with year_start_parts [of "c + 1" 0 0 q] n(1) c(2,3) k(1) j3 k24' show ?thesis by (simp add: algebra_simps)
      next
        case False
        with c(1) have "c = 3" by simp
        with year_start_parts [of 0 0 0 "q + 1"] n j3 k24' show ?thesis by (simp add: algebra_simps)
      qed
    qed
  qed
  moreover have "year_start (400 * q + 100 * c + 4 * k + j) + d = n"
    using start [of q] n(1) c(2) k(1) j(2) by simp
  ultimately show thesis
    using j(4) by (intro that [of "400 * q + 100 * c + 4 * k + j"]) (simp_all only: yd fst_conv snd_conv)
qed

lemma year_day_less:
  assumes "n < m"
  shows "fst (year_day n) < fst (year_day m) \<or> fst (year_day n) = fst (year_day m) \<and> snd (year_day n) < snd (year_day m)"
proof -
  obtain z where z: "fst (year_day n) = z + 1" "year_start z + snd (year_day n) = n" "n < year_start (z + 1)"
    using year_day_bounds .
  obtain w where w: "fst (year_day m) = w + 1" "year_start w + snd (year_day m) = m" "m < year_start (w + 1)"
    using year_day_bounds .
  have "\<not> w < z"
  proof
    assume "w < z"
    then have "year_start (w + 1) \<le> year_start z"
      using year_start_mono [of "w + 1" z] by (cases "w + 1 = z") auto
    with z w assms show False by linarith
  qed
  then show ?thesis using z w assms by (cases "z = w") auto
qed

lemma month_day_less:
  "d < d' \<Longrightarrow> fst (month_day ls m d) < fst (month_day ls m d') \<or>
     fst (month_day ls m d) = fst (month_day ls m d') \<and> snd (month_day ls m d) < snd (month_day ls m d')"
proof (induction ls m d arbitrary: d' rule: month_day.induct)
  case (2 l ls m d)
  have ge: "k \<le> fst (month_day ls k e)" for ls k e
    by (induction ls k e rule: month_day.induct) auto
  show ?case
  proof (cases "d < l \<or> ls = []")
    case True
    then show ?thesis using 2(2) ge [of "m + 1" ls "d' - l"] by auto
  next
    case False
    with 2(2) have "d - l < d' - l" "\<not> (d' < l \<or> ls = [])" by auto
    with 2(1) [OF False, of "d' - l"] False show ?thesis by simp
  qed
qed auto

lemma month_day_range:
  "ls \<noteq> [] \<Longrightarrow> \<forall>l\<in>set ls. l \<le> 31 \<Longrightarrow> d < sum_list ls + 2 \<Longrightarrow>
     fst (month_day ls m d) < m + length ls \<and> snd (month_day ls m d) < 34"
proof (induction ls m d rule: month_day.induct)
  case (2 l ls m d)
  show ?case
  proof (cases "d < l \<or> ls = []")
    case True
    then show ?thesis using 2(3,4) by auto
  next
    case False
    with 2(4) have "d - l < sum_list ls + 2" by simp
    with 2(1) [OF False] 2(3) False show ?thesis by auto
  qed
qed simp

lemma month_day_bounds:
  assumes "d < 366"
  shows "fst (month_day (month_lengths y) 1 d) < 100 \<and> snd (month_day (month_lengths y) 1 d) < 100"
proof -
  have "length (month_lengths y) = 12" "month_lengths y \<noteq> []" "\<forall>l\<in>set (month_lengths y). l \<le> 31"
    "d < sum_list (month_lengths y) + 2"
    using assms by (auto simp: month_lengths_def)
  with month_day_range [of "month_lengths y" d 1] show ?thesis by auto
qed

lemma clock_parts:
  fixes s :: nat
  shows "s = 86400 * (s div 86400) + 3600 * (s mod 86400 div 3600) + 60 * (s mod 86400 div 60 mod 60) + s mod 86400 mod 60"
    and "s mod 86400 div 3600 < 24"
proof -
  define r where "r = s mod 86400"
  have r: "s = 86400 * (s div 86400) + r" "r < 86400" by (simp_all add: r_def)
  have "r div 60 div 60 = r div 3600" by (simp add: div_mult2_eq [symmetric])
  moreover have "r = 60 * (r div 60) + r mod 60" "r div 60 = 60 * (r div 60 div 60) + r div 60 mod 60" by simp_all
  ultimately have "r = 3600 * (r div 3600) + 60 * (r div 60 mod 60) + r mod 60" by linarith
  with r show "s = 86400 * (s div 86400) + 3600 * (s mod 86400 div 3600) + 60 * (s mod 86400 div 60 mod 60) + s mod 86400 mod 60"
    unfolding r_def by linarith
  show "s mod 86400 div 3600 < 24" by (simp add: less_mult_imp_div_less)
qed

lemma lex_div: "k * a + r < k * b + r' \<Longrightarrow> r' < k \<Longrightarrow> a < b \<or> a = b \<and> r < (r' :: nat)"
proof (cases a b rule: linorder_cases)
  case greater
  then have "k * (b + 1) \<le> k * a" by (intro mult_le_mono) simp_all
  moreover assume "k * a + r < k * b + r'" "r' < k"
  ultimately show ?thesis by simp
qed simp_all

lemma rfc3339_seconds_less:
  assumes "s < s'" and "s' < 315537897600"
  shows "rfc3339_seconds s @ us < rfc3339_seconds s' @ vs"
proof -
  define n n' where "n = s div 86400" and "n' = s' div 86400"
  obtain y yd where y: "year_day n = (y, yd)" by (cases "year_day n")
  obtain y' yd' where y': "year_day n' = (y', yd')" by (cases "year_day n'")
  obtain m d where m: "month_day (month_lengths y) 1 yd = (m, d)" by (cases "month_day (month_lengths y) 1 yd")
  obtain m' d' where m': "month_day (month_lengths y') 1 yd' = (m', d')" by (cases "month_day (month_lengths y') 1 yd'")
  define h mi se where "h = s mod 86400 div 3600" and "mi = s mod 86400 div 60 mod 60" and "se = s mod 86400 mod 60"
  define h' mi' se' where "h' = s' mod 86400 div 3600" and "mi' = s' mod 86400 div 60 mod 60" and "se' = s' mod 86400 mod 60"
  have s: "s = 86400 * n + 3600 * h + 60 * mi + se" "h < 24" "mi < 60" "se < 60"
    using clock_parts [of s] unfolding n_def h_def mi_def se_def by simp_all
  have s': "s' = 86400 * n' + 3600 * h' + 60 * mi' + se'" "h' < 24" "mi' < 60" "se' < 60"
    using clock_parts [of s'] unfolding n'_def h'_def mi'_def se'_def by simp_all
  obtain w where w0: "fst (year_day n') = w + 1" "year_start w + snd (year_day n') = n'" "snd (year_day n') < 366"
    by (rule year_day_bounds)
  then have w: "y' = w + 1" "year_start w + yd' = n'" "yd' < 366" by (simp_all add: y')
  have "n' < year_start 9999" using assms(2) by (simp add: n'_def year_start_def)
  then have "w < 9999" using w(2) year_start_mono [of 9999 w] by (cases w "9999 :: nat" rule: linorder_cases) simp_all
  then have y4: "y' < 10 ^ 4" using w(1) by simp
  have md: "m' < 10 ^ 2" "d' < 10 ^ 2" using month_day_bounds [OF w(3), of y'] m' by simp_all
  have hms: "h' < 10 ^ 2" "mi' < 10 ^ 2" "se' < 10 ^ 2" using s' by simp_all
  have clock: "n < n' \<or> n = n' \<and> (h < h' \<or> h = h' \<and> (mi < mi' \<or> mi = mi' \<and> se < se'))"
  proof -
    have "n < n' \<or> n = n' \<and> 3600 * h + 60 * mi + se < 3600 * h' + 60 * mi' + se'"
      using assms(1) s s' by (intro lex_div [of 86400]) simp_all
    moreover have "h < h' \<or> h = h' \<and> 60 * mi + se < 60 * mi' + se'"
      if "3600 * h + 60 * mi + se < 3600 * h' + 60 * mi' + se'"
      using that s s' by (intro lex_div [of 3600]) simp_all
    moreover have "mi < mi' \<or> mi = mi' \<and> se < se'" if "60 * mi + se < 60 * mi' + se'"
      using that s s' by (intro lex_div [of 60]) simp_all
    ultimately show ?thesis by blast
  qed
  have date: "y < y' \<or> y = y' \<and> (m < m' \<or> m = m' \<and> d < d')" if "n < n'"
    using year_day_less [OF that] month_day_less [of yd yd' "month_lengths y'" 1] y y' m m' by auto
  have same: "y = y' \<and> m = m' \<and> d = d'" if "n = n'" using that y y' m m' by simp
  have "y < y' \<or> y = y' \<and> (m < m' \<or> m = m' \<and> (d < d' \<or> d = d' \<and>
      (h < h' \<or> h = h' \<and> (mi < mi' \<or> mi = mi' \<and> se < se'))))"
    using clock date same by blast
  then show ?thesis
    unfolding rfc3339_seconds_def Let_def n_def [symmetric] n'_def [symmetric] y y' m m' prod.case
      h_def [symmetric] mi_def [symmetric] se_def [symmetric] h'_def [symmetric] mi'_def [symmetric] se'_def [symmetric]
      append_assoc
    using y4 md hms
    by (intro field_less [OF _ y4]) (auto simp del: pad.simps intro!: field_less)
qed

lemma rfc3339nano_less:
  assumes "0 \<le> t" "u < time_limit" "seconds_of t < seconds_of u"
  shows "rfc3339nano t < rfc3339nano u"
proof -
  have "0 \<le> seconds_of t" "seconds_of u < 315537897600"
    using assms by (simp_all add: seconds_of_def time_limit_def)
  with assms(3) have "nat (seconds_of t) < nat (seconds_of u)" "nat (seconds_of u) < 315537897600" by simp_all
  then show ?thesis unfolding rfc3339nano_def by (rule rfc3339_seconds_less)
qed


text \<open>Within one second the text order is not the order of the instants: a fraction sorts before the
  \<open>Z\<close> that ends a shorter one.\<close>

lemma pad_numeral: "pad (numeral w) n = pad (pred_numeral w) (n div 10) @ [digit_char (n mod 10)]"
  using pad.simps(2) [of "pred_numeral w" n] by (simp only: numeral_eq_Suc [symmetric])

lemma digit_chars:
  "digit_char 0 = CHR ''0''" "digit_char 1 = CHR ''1''" "digit_char (Suc 0) = CHR ''1''" "digit_char 2 = CHR ''2''"
  "digit_char 3 = CHR ''3''" "digit_char 4 = CHR ''4''" "digit_char 5 = CHR ''5''" "digit_char 6 = CHR ''6''"
  "digit_char 7 = CHR ''7''" "digit_char 8 = CHR ''8''" "digit_char 9 = CHR ''9''"
  by code_simp+

lemma rfc3339nano_examples:
  "rfc3339nano 63000000000000000000 = ''1997-05-23T16:00:00Z''"
  "rfc3339nano 63000000000100000000 = ''1997-05-23T16:00:00.1Z''"
  by (simp_all add: rfc3339nano_def rfc3339_seconds_def year_day_def month_lengths_def leap_year_def
      seconds_of_def nanos_of_def fraction_def Let_def pad_numeral digit_chars)

lemma rfc3339nano_not_monotone: "rfc3339nano 63000000000100000000 < rfc3339nano 63000000000000000000"
  unfolding rfc3339nano_examples by (simp add: less_char_def)

end
