(* ===== verification/Tables.thy ===== *)
theory Tables
  imports GoTime
begin

text \<open>
  The few SQL statements the store uses, on tables that are lists of rows in rowid order: SELECT of the
  row with a key, INSERT under a PRIMARY KEY or UNIQUE constraint, INSERT ... ON CONFLICT DO UPDATE,
  UPDATE and DELETE with a condition, ORDER BY.  A statement that violates a constraint fails and
  changes nothing; the number of rows it affects is the number its condition selects.
\<close>

definition row_with :: "('a \<Rightarrow> 'k) \<Rightarrow> 'k \<Rightarrow> 'a list \<Rightarrow> 'a option" where
  "row_with key k rows = List.find (\<lambda>r. key r = k) rows"

definition key_used :: "('a \<Rightarrow> 'k) \<Rightarrow> 'k \<Rightarrow> 'a list \<Rightarrow> bool" where
  "key_used key k rows = list_ex (\<lambda>r. key r = k) rows"

definition upsert :: "('a \<Rightarrow> 'k) \<Rightarrow> ('a \<Rightarrow> 'a) \<Rightarrow> 'a \<Rightarrow> 'a list \<Rightarrow> 'a list" where
  "upsert key merge r rows =
    (if key_used key (key r) rows then map (\<lambda>x. if key x = key r then merge x else x) rows else rows @ [r])"

definition update_where :: "('a \<Rightarrow> bool) \<Rightarrow> ('a \<Rightarrow> 'a) \<Rightarrow> 'a list \<Rightarrow> 'a list" where
  "update_where P f rows = map (\<lambda>r. if P r then f r else r) rows"

definition delete_where :: "('a \<Rightarrow> bool) \<Rightarrow> 'a list \<Rightarrow> 'a list" where
  "delete_where P rows = filter (\<lambda>r. \<not> P r) rows"

definition affected :: "('a \<Rightarrow> bool) \<Rightarrow> 'a list \<Rightarrow> nat" where
  "affected P rows = length (filter P rows)"

definition order_asc :: "('a \<Rightarrow> 'k :: linorder) \<Rightarrow> 'a list \<Rightarrow> 'a list" where
  "order_asc f rows = sort_key f rows"

definition order_desc :: "('a \<Rightarrow> 'k :: linorder) \<Rightarrow> 'a list \<Rightarrow> 'a list" where
  "order_desc f rows = rev (sort_key f (rev rows))"

abbreviation unique_by :: "('a \<Rightarrow> 'k) \<Rightarrow> 'a list \<Rightarrow> bool" where
  "unique_by key rows \<equiv> distinct (map key rows)"

named_theorems sql_simps "reading tables after a statement"

lemma key_used_iff [sql_simps]: "key_used key k rows \<longleftrightarrow> k \<in> key ` set rows"
  by (auto simp: key_used_def list_ex_iff)

lemma row_with_Nil [simp]: "row_with key k [] = None"
  by (simp add: row_with_def)

lemma row_with_Cons [simp]: "row_with key k (r # rows) = (if key r = k then Some r else row_with key k rows)"
  by (simp add: row_with_def)

lemma row_with_None: "row_with key k rows = None \<longleftrightarrow> k \<notin> key ` set rows"
  by (induction rows) auto

lemma row_with_Some: "row_with key k rows = Some r \<Longrightarrow> r \<in> set rows \<and> key r = k"
  by (induction rows) (auto split: if_splits)

lemma row_with_unique: "unique_by key rows \<Longrightarrow> row_with key k rows = Some r \<longleftrightarrow> r \<in> set rows \<and> key r = k"
  by (induction rows) (auto split: if_splits)

lemma row_with_append [sql_simps]:
  "row_with key k (xs @ ys) = (case row_with key k xs of Some r \<Rightarrow> Some r | None \<Rightarrow> row_with key k ys)"
  by (induction xs) auto

lemma row_with_deleted [sql_simps]: "(\<And>r. key r = k \<Longrightarrow> P r) \<Longrightarrow> row_with key k (delete_where P rows) = None"
  by (auto simp: row_with_None delete_where_def)

lemma row_with_update_where [sql_simps]:
  "(\<And>r. key (f r) = key r) \<Longrightarrow> row_with key k (update_where P f rows) =
     map_option (\<lambda>r. if P r then f r else r) (row_with key k rows)"
  by (induction rows) (auto simp: update_where_def)

lemma row_with_delete_where [sql_simps]:
  "(\<And>r. key r = k \<Longrightarrow> \<not> P r) \<Longrightarrow> row_with key k (delete_where P rows) = row_with key k rows"
  by (induction rows) (auto simp: delete_where_def)

lemma row_with_merge:
  assumes "\<And>x. key x = k' \<Longrightarrow> key (merge x) = k'"
  shows "row_with key k (map (\<lambda>x. if key x = k' then merge x else x) rows) =
    map_option (\<lambda>x. if key x = k' then merge x else x) (row_with key k rows)"
  using assms by (induction rows) auto

lemma row_with_upsert [sql_simps]:
  assumes "\<And>x. key x = key r \<Longrightarrow> key (merge x) = key r"
  shows "row_with key k (upsert key merge r rows) =
    (if k = key r then Some (case row_with key k rows of None \<Rightarrow> r | Some x \<Rightarrow> merge x) else row_with key k rows)"
proof (cases "key_used key (key r) rows")
  case True
  then have "row_with key (key r) rows \<noteq> None" by (simp add: row_with_None key_used_iff)
  moreover have "map_option (\<lambda>x. if key x = key r then merge x else x) (row_with key k rows) = row_with key k rows"
    if "k \<noteq> key r"
    using that by (cases "row_with key k rows") (auto dest: row_with_Some)
  ultimately show ?thesis
    using True assms by (auto simp: upsert_def row_with_merge [where k' = "key r"] dest: row_with_Some)
next
  case False
  then have "row_with key (key r) rows = None" by (simp add: row_with_None key_used_iff)
  with False show ?thesis by (auto simp: upsert_def row_with_append split: option.split)
qed

lemma key_image_update_where [sql_simps]: "(\<And>r. key (f r) = key r) \<Longrightarrow> map key (update_where P f rows) = map key rows"
  by (simp add: update_where_def)

lemma unique_delete_where [intro, sql_simps]: "unique_by key rows \<Longrightarrow> unique_by key (delete_where P rows)"
  by (simp add: delete_where_def distinct_map_filter)

lemma unique_update_where [intro]:
  "(\<And>r. key (f r) = key r) \<Longrightarrow> unique_by key rows \<Longrightarrow> unique_by key (update_where P f rows)"
  by (simp add: sql_simps)

lemma unique_append_row [intro]: "unique_by key rows \<Longrightarrow> \<not> key_used key (key r) rows \<Longrightarrow> unique_by key (rows @ [r])"
  by (auto simp: sql_simps)

lemma unique_upsert [intro]:
  assumes "\<And>x. key x = key r \<Longrightarrow> key (merge x) = key r" and "unique_by key rows"
  shows "unique_by key (upsert key merge r rows)"
proof -
  have "map key (map (\<lambda>x. if key x = key r then merge x else x) rows) = map key rows"
    using assms(1) by simp
  with assms(2) have "unique_by key (map (\<lambda>x. if key x = key r then merge x else x) rows)" by (simp only:)
  with assms(2) show ?thesis by (auto simp: upsert_def key_used_iff simp del: map_map)
qed

lemma set_upsert:
  "x \<in> set (upsert key merge r rows) \<Longrightarrow> x = r \<or> x \<in> set rows \<and> key x \<noteq> key r \<or> (\<exists>y\<in>set rows. key y = key r \<and> x = merge y)"
  by (auto simp: upsert_def key_used_iff image_iff split: if_splits)

lemma set_delete_where [sql_simps]: "set (delete_where P rows) = {r \<in> set rows. \<not> P r}"
  by (auto simp: delete_where_def)

lemma set_update_where [sql_simps]: "set (update_where P f rows) = (\<lambda>r. if P r then f r else r) ` set rows"
  by (simp add: update_where_def)

lemma affected_0 [sql_simps]: "affected P rows = 0 \<longleftrightarrow> (\<forall>r\<in>set rows. \<not> P r)"
  by (auto simp: affected_def filter_empty_conv)

lemma affected_delete: "affected P rows + length (delete_where P rows) = length rows"
  using sum_length_filter_compl [of P rows] by (simp add: affected_def delete_where_def)

lemma set_order_asc [simp]: "set (order_asc f rows) = set rows"
  by (simp add: order_asc_def)

lemma set_order_desc [simp]: "set (order_desc f rows) = set rows"
  by (simp add: order_desc_def)

lemma length_order [simp]: "length (order_asc f rows) = length rows" "length (order_desc f rows) = length rows"
  by (simp_all add: order_asc_def order_desc_def)

lemma order_asc_sorted: "sorted (map f rows) \<Longrightarrow> order_asc f rows = rows"
  by (simp add: order_asc_def sort_key_id_if_sorted)

lemma filter_order_asc: "filter P (order_asc f rows) = order_asc f (filter P rows)"
  by (simp add: order_asc_def filter_sort)

end
