(* ===== verification/Secrets.thy ===== *)
theory Secrets
  imports Sign
begin

text \<open>
  internal/controller/store/store.go, the values kept encrypted at rest: node tokens
  (encryptNodeToken, decryptNodeToken), secrets with a prefix that marks them as encrypted
  (encryptSecretValue, decryptSecretValue), the one protected row of the settings table and the settings
  maps of tunnels and stage nodes.  AES-GCM (crypto/aes, crypto/cipher) is the pair of arguments
  \<open>seal\<close>, \<open>aopen\<close> with its 12 byte nonce and 16 byte tag; what is relied on of it is
  \<open>aead_ok\<close>.  A nonce drawn from crypto/rand is an argument, \<open>None\<close> when the draw
  fails; the keys are the two byte strings of \<open>Store\<close>.
\<close>

section \<open>AES-GCM\<close>

type_synonym aead_seal = "string \<Rightarrow> string \<Rightarrow> string \<Rightarrow> string \<Rightarrow> string"
type_synonym aead_open = "string \<Rightarrow> string \<Rightarrow> string \<Rightarrow> string \<Rightarrow> string option"

definition gcm_nonce :: nat where "gcm_nonce = 12"
definition gcm_overhead :: nat where "gcm_overhead = 16"

definition aead_ok :: "aead_seal \<Rightarrow> aead_open \<Rightarrow> bool" where
  "aead_ok seal aopen \<longleftrightarrow> (\<forall>key nonce plain aad. length nonce = gcm_nonce \<longrightarrow>
     length (seal key nonce plain aad) = length plain + gcm_overhead \<and>
     aopen key nonce (seal key nonce plain aad) aad = Some plain)"

lemma aead_okD:
  assumes "aead_ok seal aopen" and "length nonce = gcm_nonce"
  shows "length (seal key nonce plain aad) = length plain + gcm_overhead"
    and "aopen key nonce (seal key nonce plain aad) aad = Some plain"
  using assms by (simp_all add: aead_ok_def)

section \<open>Node tokens\<close>

datatype secret_error =
    TokenTooLarge
  | TokenKeyUnavailable
  | TokenInvalid
  | SecretTooLarge
  | CipherTooLarge
  | SecretKeyUnavailable
  | SecretInvalid
  | PlainTooLarge
  | NonceFailed

definition nodeTokenKeyBytes :: nat where "nodeTokenKeyBytes = 32"
definition maxNodeTokenCipherBytes :: nat where "maxNodeTokenCipherBytes = 4096"

definition encryptNodeToken :: "aead_seal \<Rightarrow> string \<Rightarrow> string option \<Rightarrow> string \<Rightarrow> string \<Rightarrow> secret_error + string" where
  "encryptNodeToken seal key nonce node token =
    (if token = [] then Inr []
     else if length key \<noteq> nodeTokenKeyBytes then Inl TokenKeyUnavailable
     else case nonce of
       None \<Rightarrow> Inl NonceFailed
     | Some n \<Rightarrow> Inr (b64_encode (n @ seal key n token node)))"

definition decryptNodeToken :: "aead_open \<Rightarrow> string \<Rightarrow> string \<Rightarrow> string \<Rightarrow> secret_error + string" where
  "decryptNodeToken aopen key node encrypted =
    (if encrypted = [] then Inr []
     else if length encrypted > maxNodeTokenCipherBytes then Inl TokenTooLarge
     else if length key \<noteq> nodeTokenKeyBytes then Inl TokenKeyUnavailable
     else case b64_decode encrypted of
       None \<Rightarrow> Inl TokenInvalid
     | Some payload \<Rightarrow>
         if length payload < gcm_nonce + gcm_overhead then Inl TokenInvalid
         else case aopen key (take gcm_nonce payload) (drop gcm_nonce payload) node of
           None \<Rightarrow> Inl TokenInvalid
         | Some plain \<Rightarrow> Inr plain)"

definition resolveNodeToken :: "aead_open \<Rightarrow> string \<Rightarrow> string \<Rightarrow> string \<Rightarrow> string \<Rightarrow> secret_error + string" where
  "resolveNodeToken aopen key node legacy encrypted =
    (if encrypted \<noteq> [] then decryptNodeToken aopen key node encrypted else Inr legacy)"

section \<open>Secret values\<close>

definition secretKeyBytes :: nat where "secretKeyBytes = 32"
definition maxSecretCipherBytes :: nat where "maxSecretCipherBytes = 2 ^ 20"
definition secretCipherPrefix :: string where "secretCipherPrefix = ''nyarelay-secret-v1:''"

text \<open>The bound is compared as an integer when a check is evaluated.\<close>

lemma secret_limit [code_unfold]: "length v > maxSecretCipherBytes \<longleftrightarrow> int (length v) > 1048576"
  by (simp add: maxSecretCipherBytes_def)

definition decryptSecretValue :: "aead_open \<Rightarrow> string \<Rightarrow> string \<Rightarrow> string \<Rightarrow> secret_error + string" where
  "decryptSecretValue aopen key v aad =
    (if v = [] \<or> \<not> prefix secretCipherPrefix v then Inr v
     else if length v > maxSecretCipherBytes then Inl CipherTooLarge
     else if length key \<noteq> secretKeyBytes then Inl SecretKeyUnavailable
     else case b64_decode (drop (length secretCipherPrefix) v) of
       None \<Rightarrow> Inl SecretInvalid
     | Some payload \<Rightarrow>
         if length payload < gcm_nonce + gcm_overhead then Inl SecretInvalid
         else case aopen key (take gcm_nonce payload) (drop gcm_nonce payload) aad of
           None \<Rightarrow> Inl SecretInvalid
         | Some plain \<Rightarrow>
             if length plain > maxSecretCipherBytes then Inl PlainTooLarge else Inr plain)"

definition encryptSecretValue ::
    "aead_seal \<Rightarrow> aead_open \<Rightarrow> string \<Rightarrow> string option \<Rightarrow> string \<Rightarrow> string \<Rightarrow> secret_error + string" where
  "encryptSecretValue seal aopen key nonce v aad =
    (if v = [] then Inr []
     else if prefix secretCipherPrefix v then
       (case decryptSecretValue aopen key v aad of Inl e \<Rightarrow> Inl e | Inr _ \<Rightarrow> Inr v)
     else if length v > maxSecretCipherBytes then Inl SecretTooLarge
     else if length key \<noteq> secretKeyBytes then Inl SecretKeyUnavailable
     else case nonce of
       None \<Rightarrow> Inl NonceFailed
     | Some n \<Rightarrow> Inr (secretCipherPrefix @ b64_encode (n @ seal key n v aad)))"

definition encryptSettingValue ::
    "aead_seal \<Rightarrow> aead_open \<Rightarrow> string \<Rightarrow> string option \<Rightarrow> string \<Rightarrow> string \<Rightarrow> secret_error + string" where
  "encryptSettingValue seal aopen key nonce k v =
    (if k \<noteq> ''config_signing_private_key'' then Inr v
     else encryptSecretValue seal aopen key nonce v (''setting:'' @ k))"

definition decryptSettingValue :: "aead_open \<Rightarrow> string \<Rightarrow> string \<Rightarrow> string \<Rightarrow> secret_error + string" where
  "decryptSettingValue aopen key k v =
    (if k \<noteq> ''config_signing_private_key'' then Inr v
     else decryptSecretValue aopen key v (''setting:'' @ k))"

section \<open>Maps of settings\<close>

text \<open>
  protectSettings and unprotectSettings iterate over a map; the list is the iteration order, the nonce of
  each entry is drawn for its key, and the first failing entry ends the loop.
\<close>

fun protect_entries ::
    "(string \<Rightarrow> string \<Rightarrow> secret_error + string) \<Rightarrow> (string \<times> string) list
     \<Rightarrow> secret_error + ((string \<times> string) list \<times> bool)" where
  "protect_entries enc [] = Inr ([], False)"
| "protect_entries enc ((k, v) # es) =
    bindE (enc k v) (\<lambda>p.
    bindE (protect_entries enc es) (\<lambda>(out, changed). Inr ((k, p) # out, p \<noteq> v \<or> changed)))"

definition protectSettings ::
    "aead_seal \<Rightarrow> aead_open \<Rightarrow> string \<Rightarrow> (string \<Rightarrow> string option) \<Rightarrow> settings \<Rightarrow> string
     \<Rightarrow> secret_error + (settings \<times> bool)" where
  "protectSettings seal aopen key rand m aad =
    (if mlen m = 0 then Inr (m, False)
     else bindE (protect_entries (\<lambda>k v. encryptSecretValue seal aopen key (rand k) v (aad @ '':'' @ k)) (mentries m)) (\<lambda>(out, changed).
       Inr (Some out, changed)))"

fun unprotect_entries ::
    "(string \<Rightarrow> string \<Rightarrow> secret_error + string) \<Rightarrow> (string \<times> string) list
     \<Rightarrow> secret_error + (string \<times> string) list" where
  "unprotect_entries dec [] = Inr []"
| "unprotect_entries dec ((k, v) # es) =
    bindE (dec k v) (\<lambda>p. bindE (unprotect_entries dec es) (\<lambda>out. Inr ((k, p) # out)))"

definition unprotectSettings :: "aead_open \<Rightarrow> string \<Rightarrow> settings \<Rightarrow> string \<Rightarrow> secret_error + settings" where
  "unprotectSettings aopen key m aad =
    (if mlen m = 0 then Inr m
     else bindE (unprotect_entries (\<lambda>k v. decryptSecretValue aopen key v (aad @ '':'' @ k)) (mentries m)) (\<lambda>out. Inr (Some out)))"

section \<open>Sizes of ciphertexts\<close>

lemma b64_encode_Nil [simp]: "b64_encode s = [] \<longleftrightarrow> s = []"
  by (cases s rule: b64_encode.cases) auto

lemma secretCipherPrefix_not_Nil [simp]: "secretCipherPrefix \<noteq> []"
  by (simp add: secretCipherPrefix_def)

lemma b64_encode_length: "length (b64_encode s) = (4 * length s + 2) div 3"
  by (induction s rule: b64_encode.induct) auto

definition secret_cipher_size :: "nat \<Rightarrow> nat" where
  "secret_cipher_size n = length secretCipherPrefix + (4 * (n + gcm_nonce + gcm_overhead) + 2) div 3"

lemmas secret_defs = gcm_nonce_def gcm_overhead_def nodeTokenKeyBytes_def maxNodeTokenCipherBytes_def
  secretKeyBytes_def maxSecretCipherBytes_def

lemma node_token_decrypt:
  assumes "aead_ok seal aopen" "length nonce = gcm_nonce" "length key = nodeTokenKeyBytes" "token \<noteq> []"
  shows "decryptNodeToken aopen key node (b64_encode (nonce @ seal key nonce token node)) =
    (if (4 * (length token + 28) + 2) div 3 \<le> 4096 then Inr token else Inl TokenTooLarge)"
proof -
  have "nonce \<noteq> []" using assms(2) by (auto simp: gcm_nonce_def)
  then show ?thesis
    using aead_okD [OF assms(1,2), of key token node] assms(2,3)
    by (simp add: decryptNodeToken_def b64_encode_length b64_roundtrip secret_defs ac_simps)
qed

lemma secret_cipher:
  assumes "aead_ok seal aopen" "length nonce = gcm_nonce" "length key = secretKeyBytes"
    and "v \<noteq> []" "\<not> prefix secretCipherPrefix v"
  shows "encryptSecretValue seal aopen key (Some nonce) v aad =
      (if length v > maxSecretCipherBytes then Inl SecretTooLarge
       else Inr (secretCipherPrefix @ b64_encode (nonce @ seal key nonce v aad)))"
  using assms by (simp add: encryptSecretValue_def)

lemma secret_decrypt:
  assumes "aead_ok seal aopen" "length nonce = gcm_nonce" "length key = secretKeyBytes"
    and "length v \<le> maxSecretCipherBytes"
  shows "decryptSecretValue aopen key (secretCipherPrefix @ b64_encode (nonce @ seal key nonce v aad)) aad =
    (if secret_cipher_size (length v) \<le> maxSecretCipherBytes then Inr v else Inl CipherTooLarge)"
proof -
  let ?c = "secretCipherPrefix @ b64_encode (nonce @ seal key nonce v aad)"
  have len: "length ?c = secret_cipher_size (length v)"
    using aead_okD(1) [OF assms(1,2)] assms(2)
    by (simp add: b64_encode_length secret_cipher_size_def ac_simps)
  have "?c \<noteq> []" "prefix secretCipherPrefix ?c" by simp_all
  moreover have "b64_decode (drop (length secretCipherPrefix) ?c) = Some (nonce @ seal key nonce v aad)"
    by (simp add: b64_roundtrip)
  ultimately show ?thesis
    using aead_okD [OF assms(1,2), of key v aad] assms(2-4)
    unfolding decryptSecretValue_def len by simp
qed


section \<open>The contract of a codec for stored values\<close>

text \<open>
  What the tables need of the two functions: a value that fits is stored as something that reads back as
  the value.  The maps of settings are protected entry by entry, so they read back as well.
\<close>

locale stored_codec =
  fixes enc :: "string \<Rightarrow> string \<Rightarrow> secret_error + string"
    and dec :: "string \<Rightarrow> string \<Rightarrow> secret_error + string"
    and fits :: "string \<Rightarrow> bool"
  assumes enc_total: "fits v \<Longrightarrow> \<exists>c. enc k v = Inr c"
    and dec_enc: "fits v \<Longrightarrow> enc k v = Inr c \<Longrightarrow> dec k c = Inr v"
begin

lemma entries_total:
  "\<forall>v\<in>snd ` set es. fits v \<Longrightarrow> \<exists>out changed. protect_entries enc es = Inr (out, changed) \<and> map fst out = map fst es"
proof (induction es)
  case (Cons e es)
  obtain k v where e: "e = (k, v)" by (cases e)
  then obtain c where "enc k v = Inr c" using enc_total [of v k] Cons.prems by auto
  moreover obtain out ch where "protect_entries enc es = Inr (out, ch)" "map fst out = map fst es"
    using Cons by auto
  ultimately show ?case by (simp add: e)
qed auto

lemma entries_roundtrip:
  "\<forall>v\<in>snd ` set es. fits v \<Longrightarrow> protect_entries enc es = Inr (out, changed) \<Longrightarrow> unprotect_entries dec out = Inr es"
proof (induction es arbitrary: out changed)
  case (Cons e es)
  obtain k v where e: "e = (k, v)" by (cases e)
  from Cons.prems(2) obtain p o' ch where p: "enc k v = Inr p" and o': "protect_entries enc es = Inr (o', ch)"
    and out: "out = (k, p) # o'"
    by (auto simp: e err_simps)
  have "dec k p = Inr v" using dec_enc [OF _ p] Cons.prems(1) by (simp add: e)
  moreover have "unprotect_entries dec o' = Inr es"
    using Cons.IH [OF _ o'] Cons.prems(1) by simp
  ultimately show ?case by (simp add: e out)
qed simp

end

definition secret_fits :: "aead_seal \<Rightarrow> aead_open \<Rightarrow> string \<Rightarrow> (string \<Rightarrow> string option) \<Rightarrow> string \<Rightarrow> bool" where
  "secret_fits seal aopen key rand v \<longleftrightarrow> aead_ok seal aopen \<and> length key = secretKeyBytes \<and>
     (\<forall>k. \<exists>n. rand k = Some n \<and> length n = gcm_nonce) \<and> \<not> prefix secretCipherPrefix v \<and>
     secret_cipher_size (length v) \<le> maxSecretCipherBytes"

lemma secret_cipher_size_ge: "n \<le> secret_cipher_size n"
  by (simp add: secret_cipher_size_def)

lemma secret_fits_encrypt:
  assumes "secret_fits seal aopen key rand v" and "v \<noteq> []"
  obtains n where "rand k = Some n" "length n = gcm_nonce"
    "encryptSecretValue seal aopen key (rand k) v aad = Inr (secretCipherPrefix @ b64_encode (n @ seal key n v aad))"
    "decryptSecretValue aopen key (secretCipherPrefix @ b64_encode (n @ seal key n v aad)) aad = Inr v"
proof -
  from assms obtain n where n: "rand k = Some n" "length n = gcm_nonce"
    by (auto simp: secret_fits_def)
  have len: "length v \<le> maxSecretCipherBytes"
    using assms secret_cipher_size_ge [of "length v"] by (simp add: secret_fits_def)
  show thesis
    using that [OF n] secret_cipher [of seal aopen n key v aad] secret_decrypt [of seal aopen n key v aad] assms n len
    by (simp add: secret_fits_def)
qed

lemma secret_value_roundtrip:
  assumes "secret_fits seal aopen key rand v"
  shows "\<exists>c. encryptSecretValue seal aopen key (rand k) v aad = Inr c"
    and "encryptSecretValue seal aopen key (rand k) v aad = Inr c \<Longrightarrow> decryptSecretValue aopen key c aad = Inr v"
proof -
  have "\<exists>c. encryptSecretValue seal aopen key (rand k) v aad = Inr c \<and> decryptSecretValue aopen key c aad = Inr v"
  proof (cases "v = []")
    case True
    then show ?thesis by (simp add: encryptSecretValue_def decryptSecretValue_def)
  next
    case False
    from secret_fits_encrypt [OF assms this, of k aad] show ?thesis by metis
  qed
  then show "\<exists>c. encryptSecretValue seal aopen key (rand k) v aad = Inr c"
    and "encryptSecretValue seal aopen key (rand k) v aad = Inr c \<Longrightarrow> decryptSecretValue aopen key c aad = Inr v"
    by auto
qed

interpretation secret_box: stored_codec
  "\<lambda>k v. encryptSecretValue seal aopen key (rand k) v (aad @ '':'' @ k)"
  "\<lambda>k v. decryptSecretValue aopen key v (aad @ '':'' @ k)"
  "secret_fits seal aopen key rand"
  for seal aopen key rand aad
  by unfold_locales (blast intro: secret_value_roundtrip)+

definition settings_fit :: "aead_seal \<Rightarrow> aead_open \<Rightarrow> string \<Rightarrow> (string \<Rightarrow> string option) \<Rightarrow> settings \<Rightarrow> bool" where
  "settings_fit seal aopen key rand m \<longleftrightarrow> (\<forall>v\<in>snd ` set (mentries m). secret_fits seal aopen key rand v)"

lemma protect_unprotect:
  assumes "settings_fit seal aopen key rand m"
  shows "\<exists>p changed. protectSettings seal aopen key rand m aad = Inr (p, changed) \<and> unprotectSettings aopen key p aad = Inr m"
proof (cases "mlen m = 0")
  case True
  then show ?thesis by (auto simp: protectSettings_def unprotectSettings_def)
next
  case False
  then obtain es where m: "m = Some es" "es \<noteq> []" by (auto simp: mlen_def split: option.splits)
  then have fit: "\<forall>v\<in>snd ` set es. secret_fits seal aopen key rand v"
    using assms by (simp add: settings_fit_def mentries_def)
  obtain out ch where o: "protect_entries (\<lambda>k v. encryptSecretValue seal aopen key (rand k) v (aad @ '':'' @ k)) es = Inr (out, ch)"
      and keys: "map fst out = map fst es"
    using secret_box.entries_total [OF fit] by blast
  have "unprotect_entries (\<lambda>k v. decryptSecretValue aopen key v (aad @ '':'' @ k)) out = Inr es"
    by (rule secret_box.entries_roundtrip [OF fit o])
  moreover have "out \<noteq> []" using keys m(2) by auto
  ultimately show ?thesis
    using m(2) by (simp add: m(1) protectSettings_def unprotectSettings_def mlen_def mentries_def
        o [unfolded append_Cons append_Nil] exI [of _ "Some out"])
qed

lemma protectSettings_encrypted:
  assumes "protectSettings seal aopen key rand m aad = Inr (p, changed)" and "(k, c) \<in> set (mentries p)"
  shows "c = [] \<or> prefix secretCipherPrefix c"
proof -
  have *: "protect_entries (\<lambda>k v. encryptSecretValue seal aopen key (rand k) v (aad @ '':'' @ k)) es = Inr (out, ch) \<Longrightarrow>
      (k, c) \<in> set out \<Longrightarrow> c = [] \<or> prefix secretCipherPrefix c" for es out ch
    by (induction es arbitrary: out ch rule: list.induct)
      (auto simp: err_simps encryptSecretValue_def split: if_splits option.splits sum.splits)
  show ?thesis
    using assms * by (auto simp: protectSettings_def mlen_def mentries_def err_simps split: if_splits option.splits)
qed


section \<open>Properties\<close>

text \<open>A secret of up to a mebibyte that is not empty and does not carry the prefix is stored as a
  prefixed ciphertext; protecting that ciphertext again leaves it as it is, and it reads back as the
  secret exactly when the ciphertext itself is at most a mebibyte long: a longer secret is accepted, and
  lost, since decryptSecretValue applies the bound to the encoded text.\<close>

theorem secret_roundtrip:
  assumes "aead_ok seal aopen" "length nonce = gcm_nonce" "length key = secretKeyBytes"
    and "v \<noteq> []" "\<not> prefix secretCipherPrefix v" "length v \<le> maxSecretCipherBytes"
  shows "\<exists>c. encryptSecretValue seal aopen key (Some nonce) v aad = Inr c \<and> prefix secretCipherPrefix c \<and>
    decryptSecretValue aopen key c aad =
      (if secret_cipher_size (length v) \<le> maxSecretCipherBytes then Inr v else Inl CipherTooLarge) \<and>
    encryptSecretValue seal aopen key nonce' c aad =
      (if secret_cipher_size (length v) \<le> maxSecretCipherBytes then Inr c else Inl CipherTooLarge)"
  using secret_cipher [OF assms(1-5), of aad] secret_decrypt [OF assms(1-3,6), of aad] assms(6)
  by (simp add: encryptSecretValue_def)

text \<open>The settings of a tunnel or of a stage node go through the database unchanged: when every value
  fits, protectSettings succeeds, what it stores holds no plain value (each is empty or a prefixed
  ciphertext), and unprotectSettings with the same associated data gives the map back.\<close>

theorem settings_at_rest:
  assumes "settings_fit seal aopen key rand m"
  shows "\<exists>p changed. protectSettings seal aopen key rand m aad = Inr (p, changed) \<and>
    (\<forall>kc\<in>set (mentries p). snd kc = [] \<or> prefix secretCipherPrefix (snd kc)) \<and>
    unprotectSettings aopen key p aad = Inr m"
proof -
  obtain p ch where p: "protectSettings seal aopen key rand m aad = Inr (p, ch)"
    and u: "unprotectSettings aopen key p aad = Inr m"
    using protect_unprotect [OF assms, of aad] by blast
  have "\<forall>kc\<in>set (mentries p). snd kc = [] \<or> prefix secretCipherPrefix (snd kc)"
    using protectSettings_encrypted [OF p] by force
  with p u show ?thesis by blast
qed

text \<open>A node token is encrypted for its node, and reads back as the token exactly when its
  ciphertext is at most 4096 bytes long; a row that still holds a plain token (written by an older
  version) reads back as that token.\<close>

theorem node_token_roundtrip:
  assumes "aead_ok seal aopen" "length nonce = gcm_nonce" "length key = nodeTokenKeyBytes" "token \<noteq> []"
  shows "\<exists>c. encryptNodeToken seal key (Some nonce) node token = Inr c \<and> c \<noteq> [] \<and>
    resolveNodeToken aopen key node legacy c =
      (if (4 * (length token + 28) + 2) div 3 \<le> maxNodeTokenCipherBytes then Inr token else Inl TokenTooLarge) \<and>
    resolveNodeToken aopen key node legacy [] = Inr legacy"
proof -
  have "nonce \<noteq> []" using assms(2) by (auto simp: gcm_nonce_def)
  then show ?thesis
    using node_token_decrypt [OF assms, of node] assms(3,4)
    by (simp add: encryptNodeToken_def resolveNodeToken_def maxNodeTokenCipherBytes_def)
qed

section \<open>Witnesses\<close>

definition toy_seal :: aead_seal where
  "toy_seal key nonce plain aad = plain @ take 16 (aad @ replicate 16 CHR ''t'')"

definition toy_open :: aead_open where
  "toy_open key nonce c aad =
    (if drop (length c - 16) c = take 16 (aad @ replicate 16 CHR ''t'') then Some (take (length c - 16) c) else None)"

lemma toy_aead: "aead_ok toy_seal toy_open"
  by (auto simp: aead_ok_def toy_seal_def toy_open_def gcm_overhead_def min_def)

definition ex_key :: string where "ex_key = replicate 32 CHR ''k''"
definition ex_nonce :: string where "ex_nonce = replicate 12 CHR ''n''"
definition ex_rand :: "string \<Rightarrow> string option" where "ex_rand k = Some ex_nonce"

lemma ex_key_simps [simp]: "length ex_key = 32" "length ex_nonce = 12"
  by (simp_all add: ex_key_def ex_nonce_def)

lemma secret_cipher_size_small: "n \<le> 1000 \<Longrightarrow> secret_cipher_size n \<le> maxSecretCipherBytes"
  by (simp add: secret_cipher_size_def secretCipherPrefix_def secret_defs)

lemma ex_secret_fits:
  "length v \<le> 1000 \<Longrightarrow> \<not> prefix secretCipherPrefix v \<Longrightarrow> secret_fits toy_seal toy_open ex_key ex_rand v"
  using secret_cipher_size_small [of "length v"]
  by (simp add: secret_fits_def toy_aead ex_rand_def gcm_nonce_def secretKeyBytes_def)

theorem secret_roundtrip_witness:
  "\<exists>c. encryptSecretValue toy_seal toy_open ex_key (Some ex_nonce) ''abc'' ''user:1:totp'' = Inr c \<and>
    decryptSecretValue toy_open ex_key c ''user:1:totp'' = Inr ''abc''"
  using secret_roundtrip [OF toy_aead, of ex_nonce ex_key "''abc''" "''user:1:totp''" None]
    secret_cipher_size_small [of "length ''abc''"]
  by (auto simp: gcm_nonce_def secretKeyBytes_def secretCipherPrefix_def maxSecretCipherBytes_def)

theorem settings_at_rest_witness:
  "\<exists>p changed. protectSettings toy_seal toy_open ex_key ex_rand (Some [(''secret'', ''s3''), (''note'', [])]) ''tunnel:t'' = Inr (p, changed) \<and>
    unprotectSettings toy_open ex_key p ''tunnel:t'' = Inr (Some [(''secret'', ''s3''), (''note'', [])])"
proof -
  have "settings_fit toy_seal toy_open ex_key ex_rand (Some [(''secret'', ''s3''), (''note'', [])])"
    by (simp add: settings_fit_def mentries_def ex_secret_fits secretCipherPrefix_def)
  from settings_at_rest [OF this] show ?thesis by blast
qed

theorem node_token_roundtrip_witness:
  "\<exists>c. encryptNodeToken toy_seal ex_key (Some ex_nonce) ''n1'' ''tok'' = Inr c \<and>
    resolveNodeToken toy_open ex_key ''n1'' [] c = Inr ''tok''"
  using node_token_roundtrip [OF toy_aead, of ex_nonce ex_key "''tok''" "''n1''" "[]"]
  by (auto simp: gcm_nonce_def nodeTokenKeyBytes_def maxNodeTokenCipherBytes_def)

end
