(* ===== verification/StoreBase.thy ===== *)
theory StoreBase
  imports Tables Secrets
begin

text \<open>
  internal/controller/store/store.go and session.go: the schema of the controller's SQLite database as a
  record of tables, and the operations on its settings, configuration revision, users and sessions.

  A table is the list of its rows in rowid order.  Columns hold Go values: time columns the instant their
  RFC3339Nano text denotes, columns of JSON text the value encoded in them, INTEGER flags a bool.  An
  operation returns its error, or its value and the database it leaves; on an error the database is
  the one before, since single statements are atomic and every deferred Rollback undoes a transaction
  that is not committed.  The connection pool has one connection, so operations do not interleave.
  Failures of SQLite itself (disk, corruption, cancelled contexts) are not modelled; violated constraints are.
\<close>

section \<open>Schema\<close>

record user_row =
  ur_id :: int
  ur_username :: string
  ur_password_hash :: string
  ur_totp_secret :: string
  ur_totp_enabled :: bool
  ur_created_at :: time

record session_row =
  ssr_hash :: string
  ssr_user :: int
  ssr_expires :: int

record node_row =
  ndr_node :: node
  ndr_token :: string
  ndr_encrypted :: string

record metric_row =
  mtr_id :: int
  mtr_node :: string
  mtr_stat :: string
  mtr_kind :: string
  mtr_in :: int
  mtr_out :: int
  mtr_connections :: int
  mtr_observed :: time

text \<open>Tunnels, stages and forwards are kept without the lists nested in them, which have tables of their own.\<close>

record db =
  db_users :: "user_row list"
  db_user_seq :: int
  db_settings :: "(string \<times> string) list"
  db_sessions :: "session_row list"
  db_nodes :: "node_row list"
  db_tunnels :: "tunnel list"
  db_stages :: "tunnel_stage list"
  db_stage_nodes :: "stage_node list"
  db_forwards :: "forward list"
  db_targets :: "forward_target list"
  db_allocs :: "port_allocation list"
  db_metrics :: "metric_row list"
  db_metric_seq :: int
  db_audit :: "audit_event list"
  db_audit_seq :: int

definition empty_db :: db where
  "empty_db = \<lparr> db_users = [], db_user_seq = 0, db_settings = [], db_sessions = [], db_nodes = [],
     db_tunnels = [], db_stages = [], db_stage_nodes = [], db_forwards = [], db_targets = [], db_allocs = [],
     db_metrics = [], db_metric_seq = 0, db_audit = [], db_audit_seq = 0 \<rparr>"

text \<open>The keys of the Store value, with the cipher they are used with.\<close>

record vault =
  va_seal :: aead_seal
  va_open :: aead_open
  va_token_key :: string
  va_secret_key :: string

datatype store_error =
    ErrSetupComplete
  | ErrNoRows
  | ErrUnique string
  | ErrSecret secret_error
  | ErrNodeNotFound
  | ErrNotAuthorized
  | ErrTunnelHasForwards
  | ErrTunnelNotFound
  | ErrForwardNotFound
  | ErrDetailJSON
  | ErrKeyLength
  | ErrDatabase string

definition secretE :: "secret_error + 'a \<Rightarrow> store_error + 'a" where
  "secretE r = (case r of Inl e \<Rightarrow> Inl (ErrSecret e) | Inr x \<Rightarrow> Inr x)"

lemma secretE_simps [simp]: "secretE (Inl e) = Inl (ErrSecret e)" "secretE (Inr x) = Inr x"
  by (simp_all add: secretE_def)

lemma secretE_Inr [err_simps]: "secretE r = Inr x \<longleftrightarrow> r = Inr x"
  by (cases r) auto

section \<open>Settings\<close>

definition GetSetting :: "vault \<Rightarrow> string \<Rightarrow> db \<Rightarrow> store_error + (string \<times> bool)" where
  "GetSetting va k d =
    (case map_of (db_settings d) k of
       None \<Rightarrow> Inr ([], False)
     | Some v \<Rightarrow> bindE (secretE (decryptSettingValue (va_open va) (va_secret_key va) k v)) (\<lambda>p. Inr (p, True)))"

definition put_setting :: "string \<Rightarrow> string \<Rightarrow> db \<Rightarrow> db" where
  "put_setting k v d = d\<lparr> db_settings := AList.update k v (db_settings d) \<rparr>"

definition SetSetting :: "vault \<Rightarrow> string option \<Rightarrow> string \<Rightarrow> string \<Rightarrow> db \<Rightarrow> store_error + db" where
  "SetSetting va nonce k v d =
    bindE (secretE (encryptSettingValue (va_seal va) (va_open va) (va_secret_key va) nonce k v))
      (\<lambda>c. Inr (put_setting k c d))"

text \<open>SetSettings encrypts every value before it opens the transaction.\<close>

definition SetSettings :: "vault \<Rightarrow> (string \<Rightarrow> string option) \<Rightarrow> (string \<times> string) list \<Rightarrow> db \<Rightarrow> store_error + db" where
  "SetSettings va rand kvs d =
    bindE (secretE (protect_entries
        (\<lambda>k v. encryptSettingValue (va_seal va) (va_open va) (va_secret_key va) (rand k) k v) kvs))
      (\<lambda>(out, _). Inr (fold (\<lambda>(k, c). put_setting k c) out d))"

section \<open>The configuration revision\<close>

text \<open>
  \<open>fmt.Sscan(value, &rev)\<close> with its error ignored: leading space is skipped, then an optional sign and
  the longest run of decimal digits; without digits, or out of the range of int64, the variable keeps its
  value 0.  (The setting is only ever written with %d; the prefixes 0x, 0o and 0b and the underscores that
  Sscan also accepts do not occur in it.)
\<close>

definition sscan_int :: "string \<Rightarrow> int" where
  "sscan_int s =
    (let s' = strip_front space_seqs s;
         neg = prefix ''-'' s';
         ds = takeWhile (\<lambda>c. digit_val c \<noteq> None) (if neg \<or> prefix ''+'' s' then tl s' else s')
     in case (if ds = [] then None else digits_val 0 ds) of
          None \<Rightarrow> 0
        | Some n \<Rightarrow> let i = (if neg then - int n else int n)
                   in if i < - (2 ^ 63) \<or> i \<ge> 2 ^ 63 then 0 else i)"

definition stored_revision :: "db \<Rightarrow> int" where
  "stored_revision d = (case map_of (db_settings d) ''config_revision'' of None \<Rightarrow> 0 | Some v \<Rightarrow> sscan_int v)"

definition bumpRevisionTx :: "db \<Rightarrow> int \<times> db" where
  "bumpRevisionTx d =
    (let r = wrap64 (stored_revision d + 1) in (r, put_setting ''config_revision'' (itoa r) d))"

text \<open>The transaction of its own that bumps the revision may fail where the statements of the caller have
  succeeded: before its end, with the value 0, or at the commit, with the value it did not store.\<close>

datatype bump_fault = BumpAborted store_error | CommitFailed store_error

definition BumpRevision :: "bump_fault option \<Rightarrow> db \<Rightarrow> (int \<times> store_error option) \<times> db" where
  "BumpRevision fault d =
    (case bumpRevisionTx d of (r, d') \<Rightarrow>
      (case fault of
         None \<Rightarrow> ((r, None), d')
       | Some (BumpAborted e) \<Rightarrow> ((0, Some e), d)
       | Some (CommitFailed e) \<Rightarrow> ((r, Some e), d)))"

lemma BumpRevision_stored: "BumpRevision None d = ((fst (bumpRevisionTx d), None), snd (bumpRevisionTx d))"
  by (simp add: BumpRevision_def split_beta)

lemma BumpRevision_failed: "fault \<noteq> None \<Longrightarrow> \<exists>r e. BumpRevision fault d = ((r, Some e), d)"
  by (auto simp: BumpRevision_def split_beta split: bump_fault.splits)

lemma BumpRevision_keeps [simp]:
  "db_nodes (snd (BumpRevision fault d)) = db_nodes d"
  "snd (BumpRevision (Some x) d) = d"
  by (auto simp: BumpRevision_def bumpRevisionTx_def put_setting_def Let_def split: option.splits bump_fault.splits)

definition CurrentRevision :: "vault \<Rightarrow> db \<Rightarrow> store_error + int" where
  "CurrentRevision va d =
    bindE (GetSetting va ''config_revision'' d) (\<lambda>(v, ok). Inr (if ok then sscan_int v else 0))"

section \<open>Users\<close>

record user =
  us_id :: int
  us_username :: string
  us_password_hash :: string
  us_totp_enabled :: bool
  us_created_at :: time

definition UserCount :: "db \<Rightarrow> int" where
  "UserCount d = int (length (db_users d))"

definition insert_user :: "time \<Rightarrow> string \<Rightarrow> string \<Rightarrow> db \<Rightarrow> int \<times> db" where
  "insert_user now name hash d =
    (let i = db_user_seq d + 1 in
     (i, d\<lparr> db_users := db_users d @ [\<lparr> ur_id = i, ur_username = name, ur_password_hash = hash,
              ur_totp_secret = [], ur_totp_enabled = False, ur_created_at = now \<rparr>], db_user_seq := i \<rparr>))"

definition new_user :: "int \<Rightarrow> string \<Rightarrow> string \<Rightarrow> time \<Rightarrow> user" where
  "new_user i name hash now = \<lparr> us_id = i, us_username = name, us_password_hash = hash,
     us_totp_enabled = False, us_created_at = now \<rparr>"

definition CreateUser :: "time \<Rightarrow> string \<Rightarrow> string \<Rightarrow> db \<Rightarrow> store_error + (user \<times> db)" where
  "CreateUser now name hash d =
    (if key_used ur_username name (db_users d) then Inl (ErrUnique ''users.username'')
     else let (i, d') = insert_user now name hash d in Inr (new_user i name hash now, d'))"

definition CreateInitialUser :: "time \<Rightarrow> string \<Rightarrow> string \<Rightarrow> db \<Rightarrow> store_error + (user \<times> db)" where
  "CreateInitialUser now name hash d =
    (if db_users d \<noteq> [] then Inl ErrSetupComplete
     else let (i, d') = insert_user now name hash d in Inr (new_user i name hash now, d'))"

definition FindUserByUsername :: "string \<Rightarrow> db \<Rightarrow> store_error + user" where
  "FindUserByUsername name d =
    (case row_with ur_username name (db_users d) of
       None \<Rightarrow> Inl ErrNoRows
     | Some r \<Rightarrow> Inr \<lparr> us_id = ur_id r, us_username = ur_username r, us_password_hash = ur_password_hash r,
                     us_totp_enabled = ur_totp_enabled r, us_created_at = ur_created_at r \<rparr>)"

definition totp_aad :: "int \<Rightarrow> string" where
  "totp_aad i = ''user:'' @ itoa i @ '':totp''"

definition TOTPSecret :: "vault \<Rightarrow> int \<Rightarrow> db \<Rightarrow> store_error + (string \<times> bool)" where
  "TOTPSecret va i d =
    (case row_with ur_id i (db_users d) of
       None \<Rightarrow> Inl ErrNoRows
     | Some r \<Rightarrow> bindE (secretE (decryptSecretValue (va_open va) (va_secret_key va) (ur_totp_secret r) (totp_aad i)))
                  (\<lambda>s. Inr (s, ur_totp_enabled r)))"

definition SetTOTPSecret :: "vault \<Rightarrow> string option \<Rightarrow> int \<Rightarrow> string \<Rightarrow> bool \<Rightarrow> db \<Rightarrow> store_error + db" where
  "SetTOTPSecret va nonce i secret enabled d =
    bindE (secretE (encryptSecretValue (va_seal va) (va_open va) (va_secret_key va) nonce secret (totp_aad i)))
      (\<lambda>c. Inr (d\<lparr> db_users := update_where (\<lambda>r. ur_id r = i)
                        (\<lambda>r. r\<lparr> ur_totp_secret := c, ur_totp_enabled := enabled \<rparr>) (db_users d) \<rparr>))"

section \<open>Sessions\<close>

record session =
  ses_id :: string
  ses_user :: int
  ses_username :: string
  ses_expires :: time

definition maxSessionEntries :: nat where "maxSessionEntries = 10000"

definition sessionTokenHash :: "(string \<Rightarrow> string) \<Rightarrow> string \<Rightarrow> string" where
  "sessionTokenHash sha token = b64_encode (sha token)"

definition NewSession :: "time \<Rightarrow> string option \<Rightarrow> int \<Rightarrow> string \<Rightarrow> duration \<Rightarrow> session option" where
  "NewSession now raw i name lifetime =
    map_option (\<lambda>b. \<lparr> ses_id = b64_encode b, ses_user = i, ses_username = name, ses_expires = now + lifetime \<rparr>) raw"

definition replace_session :: "session_row \<Rightarrow> session_row list \<Rightarrow> session_row list" where
  "replace_session s rows = delete_where (\<lambda>r. ssr_hash r = ssr_hash s) rows @ [s]"

definition cap_sessions :: "nat \<Rightarrow> session_row list \<Rightarrow> session_row list" where
  "cap_sessions cap rows =
    (let victims = map ssr_hash (take (length rows - cap) (order_asc ssr_expires rows))
     in delete_where (\<lambda>r. ssr_hash r \<in> set victims) rows)"

definition SaveSession :: "(string \<Rightarrow> string) \<Rightarrow> time \<Rightarrow> session \<Rightarrow> db \<Rightarrow> db" where
  "SaveSession sha now s d =
    (let live = delete_where (\<lambda>r. ssr_expires r \<le> time_unix now) (db_sessions d);
         row = \<lparr> ssr_hash = sessionTokenHash sha (ses_id s), ssr_user = ses_user s, ssr_expires = time_unix (ses_expires s) \<rparr>
     in d\<lparr> db_sessions := cap_sessions maxSessionEntries (replace_session row live) \<rparr>)"

definition DeleteSession :: "(string \<Rightarrow> string) \<Rightarrow> string \<Rightarrow> db \<Rightarrow> db" where
  "DeleteSession sha token d =
    d\<lparr> db_sessions := delete_where (\<lambda>r. ssr_hash r = sessionTokenHash sha token) (db_sessions d) \<rparr>"

definition Session :: "(string \<Rightarrow> string) \<Rightarrow> time \<Rightarrow> string \<Rightarrow> db \<Rightarrow> session option \<times> db" where
  "Session sha now token d =
    (case row_with ssr_hash (sessionTokenHash sha token) (db_sessions d) of
       None \<Rightarrow> (None, d)
     | Some r \<Rightarrow>
         (case row_with ur_id (ssr_user r) (db_users d) of
            None \<Rightarrow> (None, d)
          | Some u \<Rightarrow>
              if \<not> now < unix_time (ssr_expires r) then (None, DeleteSession sha token d)
              else (Some \<lparr> ses_id = token, ses_user = ssr_user r, ses_username = ur_username u,
                           ses_expires = unix_time (ssr_expires r) \<rparr>, d)))"

section \<open>The revision\<close>

lemma strip_front_digits:
  assumes "n < 10"
  shows "strip_front space_seqs (digit_char n # s) = digit_char n # s"
proof (rule strip_front_fixed)
  have "list_all (\<lambda>p. of_char (hd p) < (48 :: nat) \<or> 57 < (of_char (hd p) :: nat)) space_seqs" by code_simp
  then have "\<not> prefix p (digit_char n # s)" if "p \<in> set space_seqs" "p \<noteq> []" for p
    using that assms by (cases p) (auto simp: list_all_iff of_char_digit)
  then show "find_prefix space_seqs (digit_char n # s) = None" by (simp add: find_prefix_None)
qed

lemma nat_str_head: "\<exists>k s. k < 10 \<and> nat_str n = digit_char k # s"
proof (induction n rule: nat_str.induct)
  case (1 n)
  then show ?case by (cases "n < 10") (auto simp: nat_str.simps [of n])
qed

lemma digit_val_some: "48 \<le> (of_char c :: nat) \<Longrightarrow> (of_char c :: nat) \<le> 57 \<Longrightarrow> digit_val c \<noteq> None"
  by (simp add: digit_val_def)

lemma sscan_nat_str:
  assumes "int n < 2 ^ 63"
  shows "sscan_int (nat_str n) = int n"
proof -
  obtain k s where ks: "nat_str n = digit_char k # s" "k < 10" using nat_str_head by blast
  have 1: "\<not> prefix ''-'' (nat_str n)" "\<not> prefix ''+'' (nat_str n)"
    using nat_str_digits [of "CHR ''-''" n] nat_str_digits [of "CHR ''+''" n] ks by auto
  have 2: "strip_front space_seqs (nat_str n) = nat_str n" using ks by (simp add: strip_front_digits)
  have 3: "takeWhile (\<lambda>c. digit_val c \<noteq> None) (nat_str n) = nat_str n"
    unfolding takeWhile_eq_all_conv using nat_str_digits digit_val_some by blast
  show ?thesis
    by (simp only: sscan_int_def Let_def 2 1 3 simp_thms if_False) (use assms in simp)
qed

lemma sscan_itoa: "0 \<le> i \<Longrightarrow> i < 2 ^ 63 \<Longrightarrow> sscan_int (itoa i) = i"
  using sscan_nat_str [of "nat i"] by (metis int_nat_eq itoa_int)

lemma stored_revision_put [simp]:
  "stored_revision (put_setting k v d) = (if k = ''config_revision'' then sscan_int v else stored_revision d)"
  by (simp add: stored_revision_def put_setting_def map_simps)

lemma CurrentRevision_stored [simp]: "CurrentRevision va d = Inr (stored_revision d)"
  by (auto simp: CurrentRevision_def GetSetting_def decryptSettingValue_def stored_revision_def split: option.split)

lemma bump_revision:
  assumes "0 \<le> stored_revision d" "stored_revision d < 2 ^ 63 - 1"
  shows "bumpRevisionTx d = (stored_revision d + 1, put_setting ''config_revision'' (itoa (stored_revision d + 1)) d)"
    and "stored_revision (snd (bumpRevisionTx d)) = stored_revision d + 1"
proof -
  have "wrap64 (stored_revision d + 1) = stored_revision d + 1" using assms by (intro wrap64_id) simp_all
  then show "bumpRevisionTx d = (stored_revision d + 1, put_setting ''config_revision'' (itoa (stored_revision d + 1)) d)"
    and "stored_revision (snd (bumpRevisionTx d)) = stored_revision d + 1"
    using assms by (simp_all add: bumpRevisionTx_def Let_def sscan_itoa)
qed

section \<open>Settings\<close>

lemma setting_roundtrip:
  assumes "k = ''config_signing_private_key'' \<longrightarrow> secret_fits (va_seal va) (va_open va) (va_secret_key va) rand v"
    and "keys_ok (db_settings d)"
  shows "\<exists>d'. SetSetting va (rand k) k v d = Inr d' \<and> GetSetting va k d' = Inr (v, True) \<and>
    (\<forall>k'. k' \<noteq> k \<longrightarrow> GetSetting va k' d' = GetSetting va k' d)"
proof -
  have "\<exists>c. encryptSettingValue (va_seal va) (va_open va) (va_secret_key va) (rand k) k v = Inr c \<and>
      decryptSettingValue (va_open va) (va_secret_key va) k c = Inr v"
    using secret_value_roundtrip [of "va_seal va" "va_open va" "va_secret_key va" rand v k "''setting:'' @ k"] assms(1)
    by (auto simp: encryptSettingValue_def decryptSettingValue_def)
  then obtain c where c: "encryptSettingValue (va_seal va) (va_open va) (va_secret_key va) (rand k) k v = Inr c"
    "decryptSettingValue (va_open va) (va_secret_key va) k c = Inr v" by blast
  then show ?thesis
    by (simp add: SetSetting_def GetSetting_def put_setting_def map_simps)
qed

section \<open>Sessions\<close>

lemma unix_time_le: "unix_time s \<le> t \<longleftrightarrow> s \<le> time_unix t"
proof -
  have "x * 1000000000 \<le> t \<longleftrightarrow> x \<le> t div 1000000000" for x :: int
  proof
    assume "x * 1000000000 \<le> t"
    from zdiv_mono1 [OF this, of 1000000000] show "x \<le> t div 1000000000" by simp
  next
    assume "x \<le> t div 1000000000"
    moreover have "t = t div 1000000000 * 1000000000 + t mod 1000000000" by simp
    moreover have "0 \<le> t mod 1000000000" by simp
    ultimately show "x * 1000000000 \<le> t" by linarith
  qed
  from this [of "s + unix_offset"] show ?thesis
    by (simp add: unix_time_def time_unix_def seconds_of_def le_diff_eq)
qed

lemma time_unix_mono: "s \<le> t \<Longrightarrow> time_unix s \<le> time_unix t"
  by (simp add: time_unix_def seconds_of_def zdiv_mono1)

lemma cap_sessions_small: "length rows \<le> cap \<Longrightarrow> cap_sessions cap rows = rows"
  by (simp add: cap_sessions_def delete_where_def)

lemma cap_sessions_length:
  assumes "unique_by ssr_hash rows"
  shows "length (cap_sessions cap rows) \<le> cap"
proof -
  let ?v = "take (length rows - cap) (order_asc ssr_expires rows)"
  have "distinct (map ssr_hash (order_asc ssr_expires rows))"
    using assms by (simp add: distinct_map order_asc_def)
  then have "distinct (map ssr_hash ?v)" by (metis distinct_take take_map)
  have inj: "inj_on ssr_hash (set rows)" using assms by (simp add: distinct_map)
  have sub: "set ?v \<subseteq> set rows" by (metis set_take_subset set_order_asc)
  have "affected (\<lambda>r. ssr_hash r \<in> set (map ssr_hash ?v)) rows = card {r \<in> set rows. ssr_hash r \<in> ssr_hash ` set ?v}"
    using assms by (simp add: affected_def distinct_map distinct_card [symmetric])
  also have "{r \<in> set rows. ssr_hash r \<in> ssr_hash ` set ?v} = set ?v"
    using inj sub by (auto dest: inj_onD)
  also have "card (set ?v) = length ?v"
    using \<open>distinct (map ssr_hash ?v)\<close> by (simp add: distinct_map distinct_card)
  finally have "affected (\<lambda>r. ssr_hash r \<in> set (map ssr_hash ?v)) rows = length rows - cap" by simp
  then show ?thesis
    using affected_delete [of "\<lambda>r. ssr_hash r \<in> set (map ssr_hash ?v)" rows]
    by (simp add: cap_sessions_def Let_def)
qed

lemma cap_sessions_evicts_first:
  assumes "unique_by ssr_hash rows" "r \<in> set rows" "r \<notin> set (cap_sessions cap rows)" "r' \<in> set (cap_sessions cap rows)"
  shows "ssr_expires r \<le> ssr_expires r'"
proof -
  let ?o = "order_asc ssr_expires rows" and ?n = "length rows - cap"
  have inj: "inj_on ssr_hash (set rows)" using assms(1) by (simp add: distinct_map)
  from assms(2,3) obtain v where "v \<in> set (take ?n ?o)" "ssr_hash r = ssr_hash v"
    by (auto simp: cap_sessions_def sql_simps Let_def)
  moreover from this have "v \<in> set rows" by (metis in_set_takeD set_order_asc)
  ultimately have r: "r \<in> set (take ?n ?o)" using inj assms(2) by (auto dest: inj_onD)
  from assms(4) have "r' \<in> set rows" "r' \<notin> set (take ?n ?o)"
    by (auto simp: cap_sessions_def sql_simps Let_def)
  then have "r' \<in> set (drop ?n ?o)"
    by (metis Un_iff append_take_drop_id set_append set_order_asc)
  moreover have "sorted (map ssr_expires ?o)" by (simp add: order_asc_def)
  then have "sorted (map ssr_expires (take ?n ?o @ drop ?n ?o))" by simp
  ultimately show ?thesis using r by (auto simp only: map_append sorted_append set_map)
qed

lemma sessions_unique:
  assumes "unique_by ssr_hash (db_sessions d)"
  shows "unique_by ssr_hash (db_sessions (SaveSession sha now s d))"
proof -
  have "unique_by ssr_hash (replace_session row (delete_where P (db_sessions d)))" for row P
    unfolding replace_session_def
    using assms by (intro unique_append_row unique_delete_where) (auto simp: sql_simps)
  then show ?thesis
    by (auto simp: SaveSession_def cap_sessions_def Let_def)
qed


lemma row_with_replace [sql_simps]:
  "row_with ssr_hash h (replace_session s rows) = (if h = ssr_hash s then Some s else row_with ssr_hash h rows)"
  by (cases "h = ssr_hash s") (auto simp: replace_session_def sql_simps split: option.split)

lemma row_with_live:
  assumes "unique_by ssr_hash rows"
  shows "row_with ssr_hash h (delete_where (\<lambda>r. ssr_expires r \<le> t) rows) =
    (case row_with ssr_hash h rows of Some r \<Rightarrow> if ssr_expires r \<le> t then None else Some r | None \<Rightarrow> None)"
proof (cases "row_with ssr_hash h rows")
  case None
  then have "row_with ssr_hash h (delete_where (\<lambda>r. ssr_expires r \<le> t) rows) = None"
    by (auto simp: row_with_None sql_simps)
  with None show ?thesis by simp
next
  case (Some r)
  then have r: "r \<in> set rows \<and> ssr_hash r = h" by (rule row_with_Some)
  have inj: "inj_on ssr_hash (set rows)" using assms by (simp add: distinct_map)
  show ?thesis
  proof (cases "ssr_expires r \<le> t")
    case True
    have "x = r" if "x \<in> set rows" "ssr_hash x = h" for x using that r inj by (auto dest: inj_onD)
    with True have "row_with ssr_hash h (delete_where (\<lambda>r. ssr_expires r \<le> t) rows) = None"
      by (auto simp: row_with_None sql_simps)
    with True Some show ?thesis by simp
  next
    case False
    have "row_with ssr_hash h (delete_where (\<lambda>r. ssr_expires r \<le> t) rows) = Some r"
      using assms r False by (subst row_with_unique) (auto simp: sql_simps)
    with False Some show ?thesis by simp
  qed
qed

section \<open>Properties\<close>

text \<open>Every bump of the configuration revision stores the old revision plus one as decimal text, returns
  it, and is what CurrentRevision reads afterwards, up to the last value of int64, whose successor wraps to
  a negative revision; no other setting changes, and a bump that fails changes nothing.\<close>

theorem revision_grows:
  assumes "0 \<le> stored_revision d" "stored_revision d < 2 ^ 63 - 1"
  shows "fst (BumpRevision None d) = (stored_revision d + 1, None) \<and>
    CurrentRevision va (snd (BumpRevision None d)) = Inr (stored_revision d + 1) \<and>
    map_of (db_settings (snd (BumpRevision None d))) ''config_revision'' = Some (itoa (stored_revision d + 1)) \<and>
    (\<forall>k. k \<noteq> ''config_revision'' \<longrightarrow> GetSetting va k (snd (BumpRevision None d)) = GetSetting va k d) \<and>
    snd (BumpRevision (Some fault) d) = d"
  using bump_revision [OF assms] assms
  by (simp add: BumpRevision_stored CurrentRevision_def GetSetting_def decryptSettingValue_def put_setting_def map_simps sscan_itoa)

text \<open>A session that is saved is found under its token until the second it expires in, by any other
  token nothing changes, and expired sessions are found by nobody: after SaveSession, a lookup at a later
  time gives the new session for its own token and otherwise what it gave before.  (As long as the table
  holds fewer than 10000 live sessions; token hashes collide for no two of the tokens at hand.)\<close>

theorem session_lookup:
  assumes "unique_by ssr_hash (db_sessions d)"
    and "length (delete_where (\<lambda>r. ssr_expires r \<le> time_unix now) (db_sessions d)) < maxSessionEntries"
    and "sha tok = sha (ses_id s) \<longrightarrow> tok = ses_id s"
    and "row_with ur_id (ses_user s) (db_users d) = Some u"
    and "now \<le> now'"
  shows "fst (Session sha now' tok (SaveSession sha now s d)) =
    (if tok = ses_id s
     then (if now' < unix_time (time_unix (ses_expires s))
           then Some (s\<lparr> ses_username := ur_username u, ses_expires := unix_time (time_unix (ses_expires s)) \<rparr>)
           else None)
     else fst (Session sha now' tok d))"
proof -
  let ?live = "delete_where (\<lambda>r. ssr_expires r \<le> time_unix now) (db_sessions d)"
  let ?row = "\<lparr> ssr_hash = sessionTokenHash sha (ses_id s), ssr_user = ses_user s, ssr_expires = time_unix (ses_expires s) \<rparr>"
  have "length (replace_session ?row ?live) \<le> maxSessionEntries"
    using assms(2) affected_delete [of "\<lambda>r. ssr_hash r = ssr_hash ?row" ?live]
    by (simp add: replace_session_def)
  then have rows: "db_sessions (SaveSession sha now s d) = replace_session ?row ?live"
    by (simp add: SaveSession_def Let_def cap_sessions_small)
  have users: "db_users (SaveSession sha now s d) = db_users d"
    by (simp add: SaveSession_def Let_def)
  have hash: "sessionTokenHash sha tok = sessionTokenHash sha (ses_id s) \<longleftrightarrow> tok = ses_id s"
    using assms(3) b64_roundtrip by (metis option.inject sessionTokenHash_def)
  have later: "ssr_expires r \<le> time_unix now'" if "ssr_expires r \<le> time_unix now" for r
    using that time_unix_mono [OF assms(5)] by simp
  show ?thesis
  proof (cases "tok = ses_id s")
    case True
    then show ?thesis
      using assms(4) by (simp add: Session_def rows users sql_simps)
  next
    case False
    with hash have "row_with ssr_hash (sessionTokenHash sha tok) (replace_session ?row ?live) =
        row_with ssr_hash (sessionTokenHash sha tok) ?live"
      by (simp add: sql_simps)
    then show ?thesis
      using False later
      by (auto simp: Session_def rows users row_with_live [OF assms(1)] not_less unix_time_le split: option.split)
  qed
qed

text \<open>The session table keeps one row per token hash and, after SaveSession, at most 10000 rows; a live
  session that SaveSession evicts for that expires no later than any session it keeps.  After
  DeleteSession (logout) the token is unknown, and a session that is found has not expired.\<close>

theorem sessions_bounded:
  assumes "unique_by ssr_hash (db_sessions d)" and "d' = SaveSession sha now s d"
  shows "unique_by ssr_hash (db_sessions d') \<and> length (db_sessions d') \<le> maxSessionEntries \<and>
    (\<forall>r r'. r \<in> set (db_sessions d) \<and> time_unix now < ssr_expires r \<and> ssr_hash r \<noteq> sessionTokenHash sha (ses_id s) \<and>
       r \<notin> set (db_sessions d') \<and> r' \<in> set (db_sessions d') \<longrightarrow> ssr_expires r \<le> ssr_expires r') \<and>
    fst (Session sha now' tok (DeleteSession sha tok d)) = None \<and>
    (\<forall>ses d''. Session sha now' tok d = (Some ses, d'') \<longrightarrow> d'' = d \<and> ses_id ses = tok \<and> now' < ses_expires ses)"
proof (intro conjI allI impI)
  let ?live = "delete_where (\<lambda>r. ssr_expires r \<le> time_unix now) (db_sessions d)"
  let ?row = "\<lparr> ssr_hash = sessionTokenHash sha (ses_id s), ssr_user = ses_user s, ssr_expires = time_unix (ses_expires s) \<rparr>"
  have uniq: "unique_by ssr_hash (replace_session ?row ?live)"
    unfolding replace_session_def
    using assms by (intro unique_append_row unique_delete_where) (auto simp: sql_simps)
  have d': "db_sessions d' = cap_sessions maxSessionEntries (replace_session ?row ?live)"
    by (simp add: assms(2) SaveSession_def Let_def)
  show "unique_by ssr_hash (db_sessions d')"
    unfolding assms(2) by (rule sessions_unique [OF assms(1)])
  show "length (db_sessions d') \<le> maxSessionEntries"
    unfolding d' by (rule cap_sessions_length [OF uniq])
  show "ssr_expires r \<le> ssr_expires r'"
    if "r \<in> set (db_sessions d) \<and> time_unix now < ssr_expires r \<and> ssr_hash r \<noteq> sessionTokenHash sha (ses_id s) \<and>
       r \<notin> set (db_sessions d') \<and> r' \<in> set (db_sessions d')" for r r'
    using that unfolding d'
    by (intro cap_sessions_evicts_first [OF uniq]) (auto simp: replace_session_def sql_simps)
  have "row_with ssr_hash (sessionTokenHash sha tok) (db_sessions (DeleteSession sha tok d)) = None"
    by (simp add: DeleteSession_def sql_simps)
  then show "fst (Session sha now' tok (DeleteSession sha tok d)) = None" by (simp add: Session_def)
qed (auto simp: Session_def split: option.splits if_splits)

section \<open>Witnesses\<close>

definition ex_db :: db where
  "ex_db = snd (insert_user 5 ''admin'' ''hash'' empty_db)"

definition ex_session :: session where
  "ex_session = \<lparr> ses_id = ''tok'', ses_user = 1, ses_username = ''admin'', ses_expires = unix_time 1000 \<rparr>"

theorem revision_grows_witness:
  "fst (BumpRevision None (snd (BumpRevision None ex_db))) = (2, None)"
  using revision_grows [of ex_db] revision_grows [of "snd (BumpRevision None ex_db)"]
  by (simp add: ex_db_def empty_db_def stored_revision_def insert_user_def BumpRevision_stored bumpRevisionTx_def
      put_setting_def sscan_itoa wrap64_def)

theorem session_lookup_witness:
  "fst (Session (\<lambda>t. t) (unix_time 900) ''tok'' (SaveSession (\<lambda>t. t) (unix_time 10) ex_session ex_db)) = Some ex_session"
proof -
  have "time_unix (unix_time 1000) = 1000" by (simp add: time_unix_def unix_time_def seconds_of_def)
  then show ?thesis
    using session_lookup [of ex_db "unix_time 10" "\<lambda>t. t" "''tok''" ex_session
        "\<lparr> ur_id = 1, ur_username = ''admin'', ur_password_hash = ''hash'', ur_totp_secret = [], ur_totp_enabled = False,
           ur_created_at = 5 \<rparr>" "unix_time 900"]
    by (simp add: ex_db_def empty_db_def insert_user_def ex_session_def maxSessionEntries_def delete_where_def unix_time_def)
qed

theorem sessions_bounded_witness:
  "length (db_sessions (SaveSession (\<lambda>t. t) (unix_time 10) ex_session ex_db)) \<le> maxSessionEntries"
  using sessions_bounded [of ex_db _ "\<lambda>t. t" "unix_time 10" ex_session]
  by (simp add: ex_db_def empty_db_def insert_user_def)

end
