(* ===== verification/Version.thy ===== *)
theory Version
  imports GoStrings
begin

text \<open>
  internal/shared/version/version.go: the comparison of release versions that decides whether a
  node is offered an update.  A version is read as the list of its dot-separated numbers, after an
  optional v and up to the first plus or minus sign; a part that is no number counts as the value
  strconv.Atoi gives beside its error.

  The lemmas show that Compare is the lexicographic order of the number sequences padded with
  zeros, hence a total preorder, and what that means for the offers.
\<close>

definition trim_prefix :: "string \<Rightarrow> string \<Rightarrow> string" where
  "trim_prefix p s = (if prefix p s then drop (length p) s else s)"

definition version_parts :: "string \<Rightarrow> int list" where
  "version_parts value =
    (let v = trim_prefix ''v'' (trim_space value);
         v' = takeWhile (\<lambda>c. c \<noteq> CHR ''+'' \<and> c \<noteq> CHR ''-'') v
     in map (\<lambda>part. fst (atoi part)) (split_on (CHR ''.'') v'))"

text \<open>The loop of Compare, with 0 for the parts behind the end of a list.\<close>

fun compare_parts :: "int list \<Rightarrow> int list \<Rightarrow> int" where
  "compare_parts [] [] = 0"
| "compare_parts [] (b # bs) =
    (if 0 < b then -1 else if 0 > b then 1 else compare_parts [] bs)"
| "compare_parts (a # as) [] =
    (if a < 0 then -1 else if a > 0 then 1 else compare_parts as [])"
| "compare_parts (a # as) (b # bs) =
    (if a < b then -1 else if a > b then 1 else compare_parts as bs)"

definition Compare :: "string \<Rightarrow> string \<Rightarrow> int" where
  "Compare a b = compare_parts (version_parts a) (version_parts b)"

definition NeedsUpdate :: "string \<Rightarrow> string \<Rightarrow> bool" where
  "NeedsUpdate current desired =
    (if trim_space desired = [] then False
     else if trim_space current = [] then True
     else Compare current desired < 0)"

definition IsVersionCommand :: "string list \<Rightarrow> bool" where
  "IsVersionCommand args =
    (length args = 1 \<and> args ! 0 \<in> set [''--version'', ''-version'', ''version''])"

section \<open>Compare is a lexicographic order\<close>

definition part_at :: "int list \<Rightarrow> nat \<Rightarrow> int" where
  "part_at xs i = (if i < length xs then xs ! i else 0)"

definition lex_less :: "(nat \<Rightarrow> int) \<Rightarrow> (nat \<Rightarrow> int) \<Rightarrow> bool" where
  "lex_less f g \<longleftrightarrow> (\<exists>i. f i < g i \<and> (\<forall>j<i. f j = g j))"

lemma part_at_simps [simp]:
  "part_at [] i = 0" "part_at (a # as) 0 = a" "part_at (a # as) (Suc i) = part_at as i"
  by (simp_all add: part_at_def)

lemma lex_less_Suc:
  "lex_less f g \<longleftrightarrow> f 0 < g 0 \<or> f 0 = g 0 \<and> lex_less (\<lambda>i. f (Suc i)) (\<lambda>i. g (Suc i))"
proof
  assume "lex_less f g"
  then obtain i where i: "f i < g i" "\<forall>j<i. f j = g j" unfolding lex_less_def by blast
  show "f 0 < g 0 \<or> f 0 = g 0 \<and> lex_less (\<lambda>i. f (Suc i)) (\<lambda>i. g (Suc i))"
  proof (cases i)
    case (Suc k)
    then have "lex_less (\<lambda>i. f (Suc i)) (\<lambda>i. g (Suc i))"
      using i unfolding lex_less_def by (intro exI [of _ k]) auto
    then show ?thesis using i Suc by auto
  qed (use i in auto)
next
  assume "f 0 < g 0 \<or> f 0 = g 0 \<and> lex_less (\<lambda>i. f (Suc i)) (\<lambda>i. g (Suc i))"
  then show "lex_less f g"
  proof
    assume "f 0 < g 0"
    then show ?thesis unfolding lex_less_def by (intro exI [of _ 0]) auto
  next
    assume a: "f 0 = g 0 \<and> lex_less (\<lambda>i. f (Suc i)) (\<lambda>i. g (Suc i))"
    then obtain i where "f (Suc i) < g (Suc i)" "\<forall>j<i. f (Suc j) = g (Suc j)"
      unfolding lex_less_def by blast
    with a show ?thesis
      unfolding lex_less_def by (intro exI [of _ "Suc i"]) (auto simp: less_Suc_eq_0_disj)
  qed
qed

lemma lex_less_same: "\<not> lex_less f f"
  by (simp add: lex_less_def)

lemma compare_parts_less: "compare_parts as bs < 0 \<longleftrightarrow> lex_less (part_at as) (part_at bs)"
proof (induction as bs rule: compare_parts.induct)
  case 1
  then show ?case by (simp add: lex_less_same)
next
  case (2 b bs)
  then show ?case by (subst lex_less_Suc) auto
next
  case (3 a as)
  then show ?case by (subst lex_less_Suc) auto
next
  case (4 a as b bs)
  then show ?case by (subst lex_less_Suc) auto
qed

lemma compare_parts_swap: "compare_parts bs as = - compare_parts as bs"
  by (induction as bs rule: compare_parts.induct) auto

lemma compare_parts_range: "compare_parts as bs \<in> {-1, 0, 1}"
  by (induction as bs rule: compare_parts.induct) auto

lemma lex_less_trans: "lex_less f g \<Longrightarrow> lex_less g h \<Longrightarrow> lex_less f h"
proof -
  assume "lex_less f g" and "lex_less g h"
  then obtain i k where i: "f i < g i" "\<forall>j<i. f j = g j" and k: "g k < h k" "\<forall>j<k. g j = h j"
    unfolding lex_less_def by blast
  have "f (min i k) < h (min i k)"
    using i k by (cases i k rule: linorder_cases) (auto simp: min_def)
  moreover have "\<forall>j<min i k. f j = h j" using i(2) k(2) by simp
  ultimately show ?thesis unfolding lex_less_def by blast
qed

text \<open>an offer is made exactly when the desired version is set and either the current one is
  unset or its numbers, padded with zeros, come lexicographically before those of the desired one.\<close>

theorem NeedsUpdate_iff:
  "NeedsUpdate current desired \<longleftrightarrow> trim_space desired \<noteq> [] \<and>
     (trim_space current = [] \<or>
      lex_less (part_at (version_parts current)) (part_at (version_parts desired)))"
  by (simp add: NeedsUpdate_def Compare_def compare_parts_less)

text \<open>a chain of updates only moves forward: no version follows itself, and an update offered
  from a to b and from b to c is offered from a to c but never back from c to a.\<close>

theorem NeedsUpdate_forward:
  assumes "NeedsUpdate a b" and "NeedsUpdate b c" and "trim_space a \<noteq> []"
  shows "NeedsUpdate a c \<and> \<not> NeedsUpdate c a \<and> \<not> NeedsUpdate c c"
proof -
  have ne: "trim_space b \<noteq> []" "trim_space c \<noteq> []"
    using assms by (auto simp: NeedsUpdate_iff)
  then have ac: "lex_less (part_at (version_parts a)) (part_at (version_parts c))"
    using assms lex_less_trans by (auto simp: NeedsUpdate_iff)
  then have "Compare a c < 0" by (simp add: Compare_def compare_parts_less)
  then have "\<not> Compare c a < 0"
    using compare_parts_swap [of "version_parts c" "version_parts a"] by (simp add: Compare_def)
  moreover have "\<not> Compare c c < 0" by (simp add: Compare_def compare_parts_less lex_less_same)
  ultimately show ?thesis
    using ac ne assms(3) by (simp add: NeedsUpdate_def Compare_def compare_parts_less)
qed

theorem NeedsUpdate_forward_witness:
  "NeedsUpdate ''v0.1.3'' ''0.2.0-rc1'' \<and> \<not> NeedsUpdate ''0.2.0-rc1'' ''v0.1.3''"
proof -
  have "NeedsUpdate ''v0.1.3'' ''0.1.9''" "NeedsUpdate ''0.1.9'' ''0.2.0-rc1''" "trim_space ''v0.1.3'' \<noteq> []"
    by code_simp+
  from NeedsUpdate_forward [OF this] show ?thesis by blast
qed

end
