(* ===== verification/StoreNodes.thy ===== *)
theory StoreNodes
  imports StoreBase Version
begin

text \<open>
  internal/controller/store/store.go, the nodes table: creating and editing nodes, authentication by
  token, heartbeats (MarkNodeSeen), the update of a node's software as it is requested, reported and
  reached, and revocation.
\<close>

section \<open>Rows\<close>

definition ndr_id :: "node_row \<Rightarrow> string" where "ndr_id r = nd_id (ndr_node r)"

definition normalizeNodePorts :: "node \<Rightarrow> node" where
  "normalizeNodePorts n =
    (if nd_port_min n \<le> 0 \<and> nd_port_max n \<le> 0 then n\<lparr> nd_port_min := 10000, nd_port_max := 65535 \<rparr>
     else n\<lparr> nd_port_min := (if nd_port_min n \<le> 0 then 10000 else nd_port_min n),
             nd_port_max := (if nd_port_max n \<le> 0 then 65535 else nd_port_max n) \<rparr>)"

definition emptyMap :: "settings \<Rightarrow> settings" where
  "emptyMap m = (case m of None \<Rightarrow> Some [] | Some l \<Rightarrow> Some l)"

definition scanNode :: "vault \<Rightarrow> node_row \<Rightarrow> store_error + (node \<times> string)" where
  "scanNode va r =
    bindE (secretE (resolveNodeToken (va_open va) (va_token_key va) (ndr_id r) (ndr_token r) (ndr_encrypted r)))
      (\<lambda>token. Inr (ndr_node r, token))"

fun scan_rows :: "('r \<Rightarrow> store_error + 'a) \<Rightarrow> 'r list \<Rightarrow> store_error + 'a list" where
  "scan_rows f [] = Inr []"
| "scan_rows f (r # rs) = bindE (f r) (\<lambda>x. bindE (scan_rows f rs) (\<lambda>xs. Inr (x # xs)))"

abbreviation update_node :: "(node_row \<Rightarrow> bool) \<Rightarrow> (node \<Rightarrow> node) \<Rightarrow> db \<Rightarrow> db" where
  "update_node P f d \<equiv> d\<lparr> db_nodes := update_where P (\<lambda>r. r\<lparr> ndr_node := f (ndr_node r) \<rparr>) (db_nodes d) \<rparr>"

text \<open>The condition \<open>id = ? AND revoked = 0\<close> of most statements.\<close>

definition live_node :: "string \<Rightarrow> node_row \<Rightarrow> bool" where
  "live_node i r \<longleftrightarrow> ndr_id r = i \<and> \<not> nd_revoked (ndr_node r)"

section \<open>Operations\<close>

definition UpsertNode :: "vault \<Rightarrow> time \<Rightarrow> string option \<Rightarrow> node \<Rightarrow> string \<Rightarrow> db \<Rightarrow> store_error + db" where
  "UpsertNode va now nonce n token d =
    (let created = (if nd_created_at n = zero_time then now else nd_created_at n);
         n' = (normalizeNodePorts n)\<lparr> nd_created_at := created, nd_updated_at := now, nd_labels := emptyMap (nd_labels n) \<rparr>
     in bindE (secretE (encryptNodeToken (va_seal va) (va_token_key va) nonce (nd_id n) token)) (\<lambda>enc.
        Inr (d\<lparr> db_nodes := upsert ndr_id
          (\<lambda>old. \<lparr> ndr_node = n'\<lparr> nd_created_at := nd_created_at (ndr_node old) \<rparr>, ndr_token = [], ndr_encrypted = enc \<rparr>)
          \<lparr> ndr_node = n', ndr_token = [], ndr_encrypted = enc \<rparr> (db_nodes d) \<rparr>)))"

definition UpdateNode :: "time \<Rightarrow> node \<Rightarrow> db \<Rightarrow> store_error + db" where
  "UpdateNode now n d =
    (let n' = normalizeNodePorts n in
     if affected (live_node (nd_id n)) (db_nodes d) = 0 then Inl ErrNodeNotFound
     else Inr (update_node (live_node (nd_id n))
       (\<lambda>x. x\<lparr> nd_name := nd_name n', nd_labels := emptyMap (nd_labels n'), nd_public_host := nd_public_host n',
               nd_port_min := nd_port_min n', nd_port_max := nd_port_max n', nd_updated_at := now \<rparr>) d))"

definition GetNodeWithToken :: "vault \<Rightarrow> string \<Rightarrow> db \<Rightarrow> store_error + (node \<times> string)" where
  "GetNodeWithToken va i d =
    (case row_with ndr_id i (db_nodes d) of None \<Rightarrow> Inl ErrNoRows | Some r \<Rightarrow> scanNode va r)"

definition GetNode :: "vault \<Rightarrow> string \<Rightarrow> db \<Rightarrow> store_error + node" where
  "GetNode va i d = bindE (GetNodeWithToken va i d) (\<lambda>(n, _). Inr n)"

definition AuthenticateNode :: "vault \<Rightarrow> (string \<Rightarrow> string) \<Rightarrow> string \<Rightarrow> string \<Rightarrow> db \<Rightarrow> store_error + node" where
  "AuthenticateNode va sha i token d =
    bindE (GetNodeWithToken va i d) (\<lambda>(n, stored).
      if sha stored \<noteq> sha token \<or> nd_revoked n \<or> \<not> nd_approved n then Inl ErrNotAuthorized else Inr n)"

definition ListNodes :: "vault \<Rightarrow> db \<Rightarrow> store_error + node list" where
  "ListNodes va d =
    bindE (scan_rows (scanNode va) (order_desc (\<lambda>r. rfc3339nano (nd_created_at (ndr_node r)))
        (filter (\<lambda>r. \<not> nd_revoked (ndr_node r)) (db_nodes d))))
      (\<lambda>ns. Inr (map fst ns))"

definition mark_seen :: "time \<Rightarrow> node_system \<Rightarrow> string \<Rightarrow> bool \<Rightarrow> node \<Rightarrow> node" where
  "mark_seen now sys version reached n =
    n\<lparr> nd_status := NodeOnline, nd_version := version, nd_last_seen := now, nd_updated_at := now, nd_system := sys,
       nd_desired := (if reached then version else nd_desired n),
       nd_update := (if reached then UpdateSucceeded else nd_update n),
       nd_update_error := (if reached then [] else nd_update_error n),
       nd_finished_at := (if reached then now else nd_finished_at n) \<rparr>"

definition MarkNodeSeen :: "time \<Rightarrow> string \<Rightarrow> node_system \<Rightarrow> string \<Rightarrow> db \<Rightarrow> db" where
  "MarkNodeSeen now i sys version d =
    (case List.find (live_node i) (db_nodes d) of
       None \<Rightarrow> d
     | Some r \<Rightarrow>
         let desired = nd_desired (ndr_node r); reached = (desired \<noteq> [] \<and> \<not> NeedsUpdate version desired)
         in update_node (live_node i) (mark_seen now sys version reached) d)"

definition RequestNodeUpdate :: "vault \<Rightarrow> time \<Rightarrow> string \<Rightarrow> string \<Rightarrow> db \<Rightarrow> (store_error + node) \<times> db" where
  "RequestNodeUpdate va now i version d =
    (if affected (live_node i) (db_nodes d) = 0 then (Inl ErrNodeNotFound, d)
     else let d' = update_node (live_node i)
            (\<lambda>n. n\<lparr> nd_desired := version, nd_update := UpdateRequested, nd_update_error := [],
                    nd_requested_at := now, nd_finished_at := zero_time, nd_updated_at := now \<rparr>) d
          in (GetNode va i d', d'))"

definition UpdateNodeReport :: "time \<Rightarrow> string \<Rightarrow> update_report \<Rightarrow> db \<Rightarrow> db" where
  "UpdateNodeReport now i rep d =
    (let finished = (if rpt_completed_at rep \<noteq> zero_time then rpt_completed_at rep
                     else if rpt_status rep = UpdateSucceeded \<or> rpt_status rep = UpdateFailed then now
                     else zero_time)
     in update_node (live_node i)
          (\<lambda>n. n\<lparr> nd_update := rpt_status rep, nd_update_error := rpt_error rep,
                  nd_finished_at := (if finished \<noteq> zero_time then finished else nd_finished_at n),
                  nd_updated_at := now \<rparr>) d)"

definition MarkNodeOffline :: "time \<Rightarrow> string \<Rightarrow> db \<Rightarrow> db" where
  "MarkNodeOffline now i d =
    update_node (live_node i) (\<lambda>n. n\<lparr> nd_status := NodeOffline, nd_updated_at := now \<rparr>) d"

definition RevokeNode :: "time \<Rightarrow> string \<Rightarrow> db \<Rightarrow> store_error + db" where
  "RevokeNode now i d =
    (if affected (\<lambda>r. ndr_id r = i) (db_nodes d) = 0 then Inl ErrNodeNotFound
     else Inr (update_node (\<lambda>r. ndr_id r = i)
       (\<lambda>n. n\<lparr> nd_revoked := True, nd_status := NodeRevoked, nd_updated_at := now \<rparr>) d))"

section \<open>Lemmas\<close>

lemma normalizeNodePorts_simps [simp]:
  "nd_id (normalizeNodePorts n) = nd_id n" "nd_revoked (normalizeNodePorts n) = nd_revoked n"
  "nd_approved (normalizeNodePorts n) = nd_approved n" "nd_name (normalizeNodePorts n) = nd_name n"
  "nd_public_host (normalizeNodePorts n) = nd_public_host n" "nd_labels (normalizeNodePorts n) = nd_labels n"
  by (simp_all add: normalizeNodePorts_def)

lemma ndr_id_update [simp]: "nd_id (f (ndr_node r)) = nd_id (ndr_node r) \<Longrightarrow> ndr_id (r\<lparr> ndr_node := f (ndr_node r) \<rparr>) = ndr_id r"
  by (simp add: ndr_id_def)

lemma row_update_node [sql_simps]:
  assumes "\<And>n. nd_id (f n) = nd_id n"
  shows "row_with ndr_id i (db_nodes (update_node P f d)) =
    map_option (\<lambda>r. if P r then r\<lparr> ndr_node := f (ndr_node r) \<rparr> else r) (row_with ndr_id i (db_nodes d))"
  using assms by (simp add: sql_simps)

text \<open>With unique ids, the live row of an id is the row of that id when it is not revoked.\<close>

lemma find_live:
  assumes "unique_by ndr_id rows"
  shows "List.find (live_node i) rows =
    (case row_with ndr_id i rows of Some r \<Rightarrow> if nd_revoked (ndr_node r) then None else Some r | None \<Rightarrow> None)"
  using assms
proof (induction rows)
  case (Cons r rows)
  show ?case
  proof (cases "ndr_id r = i")
    case True
    with Cons.prems have "row_with ndr_id i rows = None" by (auto simp: row_with_None)
    with True Cons show ?thesis by (simp add: live_node_def)
  next
    case False
    with Cons show ?thesis by (simp add: live_node_def)
  qed
qed simp

lemma affected_live:
  assumes "unique_by ndr_id rows"
  shows "affected (live_node i) rows = 0 \<longleftrightarrow>
    (case row_with ndr_id i rows of Some r \<Rightarrow> nd_revoked (ndr_node r) | None \<Rightarrow> True)"
proof -
  have "affected (live_node i) rows = 0 \<longleftrightarrow> List.find (live_node i) rows = None"
    by (auto simp: affected_0 find_None_iff)
  then show ?thesis by (simp add: find_live [OF assms] split: option.split)
qed

lemma nd_id_mark_seen [simp]: "nd_id (mark_seen now sys version reached n) = nd_id n"
  "nd_revoked (mark_seen now sys version reached n) = nd_revoked n"
  by (simp_all add: mark_seen_def)

lemma row_MarkNodeSeen:
  assumes "unique_by ndr_id (db_nodes d)"
  shows "row_with ndr_id j (db_nodes (MarkNodeSeen now i sys version d)) =
    map_option (\<lambda>r. if live_node i r
       then r\<lparr> ndr_node := mark_seen now sys version
         (nd_desired (ndr_node r) \<noteq> [] \<and> \<not> NeedsUpdate version (nd_desired (ndr_node r))) (ndr_node r) \<rparr>
       else r) (row_with ndr_id j (db_nodes d))"
proof (cases "List.find (live_node i) (db_nodes d)")
  case None
  then have "\<not> live_node i r" if "row_with ndr_id j (db_nodes d) = Some r" for r
    using row_with_Some [OF that] by (auto simp: find_None_iff)
  with None show ?thesis by (cases "row_with ndr_id j (db_nodes d)") (auto simp: MarkNodeSeen_def)
next
  case (Some x)
  then have x: "live_node i x" "row_with ndr_id i (db_nodes d) = Some x"
    by (auto simp: find_live [OF assms] live_node_def split: option.splits if_splits dest: row_with_Some)
  have same: "r = x" if "live_node i r" "row_with ndr_id j (db_nodes d) = Some r" for r
  proof -
    have "j = i" using that row_with_Some by (fastforce simp: live_node_def)
    with that x show ?thesis by simp
  qed
  show ?thesis
    using Some same
    by (cases "row_with ndr_id j (db_nodes d)") (auto simp: MarkNodeSeen_def row_with_update_where Let_def)
qed


lemma row_UpsertNode:
  assumes "UpsertNode va now nonce n token d = Inr d'"
  shows "\<exists>enc n'. encryptNodeToken (va_seal va) (va_token_key va) nonce (nd_id n) token = Inr enc \<and>
    row_with ndr_id (nd_id n) (db_nodes d') = Some \<lparr> ndr_node = n', ndr_token = [], ndr_encrypted = enc \<rparr> \<and>
    nd_id n' = nd_id n \<and> nd_approved n' = nd_approved n \<and> nd_revoked n' = nd_revoked n \<and>
    nd_name n' = nd_name n \<and> 0 < nd_port_min n' \<and> 0 < nd_port_max n' \<and>
    (\<forall>j. j \<noteq> nd_id n \<longrightarrow> row_with ndr_id j (db_nodes d') = row_with ndr_id j (db_nodes d))"
proof -
  from assms obtain enc where enc: "encryptNodeToken (va_seal va) (va_token_key va) nonce (nd_id n) token = Inr enc"
    by (auto simp: UpsertNode_def Let_def err_simps)
  define n1 where "n1 = (normalizeNodePorts n)\<lparr> nd_created_at := if nd_created_at n = zero_time then now else nd_created_at n,
    nd_updated_at := now, nd_labels := emptyMap (nd_labels n) \<rparr>"
  define merge where "merge = (\<lambda>old :: node_row. \<lparr> ndr_node = n1\<lparr> nd_created_at := nd_created_at (ndr_node old) \<rparr>,
    ndr_token = [], ndr_encrypted = enc \<rparr>)"
  have d': "db_nodes d' = upsert ndr_id merge \<lparr> ndr_node = n1, ndr_token = [], ndr_encrypted = enc \<rparr> (db_nodes d)"
    using assms enc by (auto simp: UpsertNode_def Let_def n1_def merge_def)
  have id: "ndr_id \<lparr> ndr_node = n1, ndr_token = [], ndr_encrypted = enc \<rparr> = nd_id n" "ndr_id (merge x) = nd_id n" for x
    by (simp_all add: ndr_id_def n1_def merge_def)
  have rows: "row_with ndr_id j (db_nodes d') = (if j = nd_id n
      then Some (case row_with ndr_id j (db_nodes d) of None \<Rightarrow> \<lparr> ndr_node = n1, ndr_token = [], ndr_encrypted = enc \<rparr> | Some x \<Rightarrow> merge x)
      else row_with ndr_id j (db_nodes d))" for j
    unfolding d' by (simp add: row_with_upsert id)
  have "0 < nd_port_min n1" "0 < nd_port_max n1"
    by (simp_all add: normalizeNodePorts_def n1_def)
  then show ?thesis
    using enc rows
    by (cases "row_with ndr_id (nd_id n) (db_nodes d)") (simp_all add: n1_def merge_def)
qed

section \<open>Properties\<close>

lemma auth_UpsertNode:
  assumes "aead_ok (va_seal va) (va_open va)" "length nonce = gcm_nonce" "length (va_token_key va) = nodeTokenKeyBytes"
    and "token \<noteq> []" "(4 * (length token + 28) + 2) div 3 \<le> 4096"
    and "sha t = sha token \<longrightarrow> t = token"
    and "UpsertNode va now (Some nonce) n token d = Inr d'"
  shows "AuthenticateNode va sha (nd_id n) t d' =
      (if t = token \<and> nd_approved n \<and> \<not> nd_revoked n
       then Inr (ndr_node (the (row_with ndr_id (nd_id n) (db_nodes d')))) else Inl ErrNotAuthorized) \<and>
    ndr_token (the (row_with ndr_id (nd_id n) (db_nodes d'))) = [] \<and>
    (\<forall>j. j \<noteq> nd_id n \<longrightarrow> AuthenticateNode va sha j t d' = AuthenticateNode va sha j t d)"
proof -
  obtain enc n' where enc: "encryptNodeToken (va_seal va) (va_token_key va) (Some nonce) (nd_id n) token = Inr enc"
    and row: "row_with ndr_id (nd_id n) (db_nodes d') = Some \<lparr> ndr_node = n', ndr_token = [], ndr_encrypted = enc \<rparr>"
    and n': "nd_id n' = nd_id n" "nd_approved n' = nd_approved n" "nd_revoked n' = nd_revoked n"
    and other: "\<forall>j. j \<noteq> nd_id n \<longrightarrow> row_with ndr_id j (db_nodes d') = row_with ndr_id j (db_nodes d)"
    using row_UpsertNode [OF assms(7)] by blast
  have "nonce \<noteq> []" using assms(2) by (auto simp: gcm_nonce_def)
  then have "resolveNodeToken (va_open va) (va_token_key va) (nd_id n) [] enc = Inr token"
    using node_token_decrypt [OF assms(1-4), of "nd_id n"] assms(3-5) enc
    by (auto simp: resolveNodeToken_def encryptNodeToken_def)
  then have "GetNodeWithToken va (nd_id n) d' = Inr (n', token)"
    using row n' by (simp add: GetNodeWithToken_def scanNode_def ndr_id_def)
  then show ?thesis
    using row n' assms(6) other
    by (auto simp: AuthenticateNode_def GetNodeWithToken_def)
qed

text \<open>A node that the store has written is authorized by its own token and by no other, unless it is
  revoked or not approved: after UpsertNode the token (of up to 3044 bytes) opens exactly that node, the
  row holds no plain token, and what any token opens of the other nodes is as before.  (SHA-256 collides
  for no two of the tokens at hand.)\<close>

theorem node_token_authorizes:
  assumes "aead_ok (va_seal va) (va_open va)" "length nonce = gcm_nonce" "length (va_token_key va) = nodeTokenKeyBytes"
    and "token \<noteq> []" "(4 * (length token + 28) + 2) div 3 \<le> 4096"
    and "sha t = sha token \<longrightarrow> t = token"
    and "UpsertNode va now (Some nonce) n token d = Inr d'"
  shows "AuthenticateNode va sha (nd_id n) t d' =
      (if t = token \<and> nd_approved n \<and> \<not> nd_revoked n
       then Inr (ndr_node (the (row_with ndr_id (nd_id n) (db_nodes d')))) else Inl ErrNotAuthorized) \<and>
    ndr_token (the (row_with ndr_id (nd_id n) (db_nodes d'))) = [] \<and>
    (\<forall>j. j \<noteq> nd_id n \<longrightarrow> AuthenticateNode va sha j t d' = AuthenticateNode va sha j t d)"
  by (rule auth_UpsertNode [OF assms])


text \<open>Heartbeats while an update is wanted: the instant, the reported system and version of each.\<close>

type_synonym heartbeat = "time \<times> node_system \<times> string"

definition heartbeats :: "string \<Rightarrow> heartbeat list \<Rightarrow> db \<Rightarrow> db" where
  "heartbeats i bs d = fold (\<lambda>(now, sys, w). MarkNodeSeen now i sys w) bs d"

lemma unique_update_node [intro]:
  "(\<And>n. nd_id (f n) = nd_id n) \<Longrightarrow> unique_by ndr_id (db_nodes d) \<Longrightarrow> unique_by ndr_id (db_nodes (update_node P f d))"
  by (auto intro!: unique_update_where simp: ndr_id_def)

lemma unique_MarkNodeSeen: "unique_by ndr_id (db_nodes d) \<Longrightarrow> unique_by ndr_id (db_nodes (MarkNodeSeen now i sys w d))"
  unfolding MarkNodeSeen_def Let_def by (auto split: option.split intro!: unique_update_where simp: ndr_id_def)

definition update_state :: "string \<Rightarrow> bool \<Rightarrow> node_row \<Rightarrow> bool" where
  "update_state v reached r \<longleftrightarrow> \<not> nd_revoked (ndr_node r) \<and> nd_update_error (ndr_node r) = [] \<and>
     (if reached then nd_update (ndr_node r) = UpdateSucceeded
      else nd_update (ndr_node r) = UpdateRequested \<and> nd_desired (ndr_node r) = v)"

lemma heartbeat_state:
  assumes "unique_by ndr_id (db_nodes d)" "row_with ndr_id i (db_nodes d) = Some r" "update_state v reached r" "v \<noteq> []"
  obtains r' where "row_with ndr_id i (db_nodes (MarkNodeSeen now i sys w d)) = Some r'"
    "update_state v (reached \<or> \<not> NeedsUpdate w v) r'" "nd_status (ndr_node r') = NodeOnline" "nd_version (ndr_node r') = w"
proof -
  have "live_node i r" using assms(2,3) by (auto simp: live_node_def update_state_def dest: row_with_Some)
  then have "row_with ndr_id i (db_nodes (MarkNodeSeen now i sys w d)) =
      Some (r\<lparr> ndr_node := mark_seen now sys w (nd_desired (ndr_node r) \<noteq> [] \<and> \<not> NeedsUpdate w (nd_desired (ndr_node r))) (ndr_node r) \<rparr>)"
      (is "_ = Some ?r")
    using assms(2) row_MarkNodeSeen [OF assms(1), of i now i sys w] by simp
  moreover have "update_state v (reached \<or> \<not> NeedsUpdate w v) ?r"
    using assms(3,4) by (cases reached) (auto simp: update_state_def mark_seen_def)
  ultimately show thesis by (rule that) (simp_all add: mark_seen_def)
qed

lemma heartbeats_state:
  assumes "unique_by ndr_id (db_nodes d)" "row_with ndr_id i (db_nodes d) = Some r" "update_state v reached r" "v \<noteq> []"
  shows "\<exists>r'. row_with ndr_id i (db_nodes (heartbeats i bs d)) = Some r' \<and>
    update_state v (reached \<or> (\<exists>b\<in>set bs. \<not> NeedsUpdate (snd (snd b)) v)) r' \<and>
    (bs \<noteq> [] \<longrightarrow> nd_status (ndr_node r') = NodeOnline \<and> nd_version (ndr_node r') = snd (snd (last bs)))"
  using assms(1-3)
proof (induction bs arbitrary: d r reached)
  case Nil
  then show ?case by (simp add: heartbeats_def)
next
  case (Cons b bs)
  obtain now sys w where b: "b = (now, sys, w)" by (cases b)
  obtain r1 where r1: "row_with ndr_id i (db_nodes (MarkNodeSeen now i sys w d)) = Some r1"
    "update_state v (reached \<or> \<not> NeedsUpdate w v) r1" "nd_status (ndr_node r1) = NodeOnline" "nd_version (ndr_node r1) = w"
    by (rule heartbeat_state [OF Cons.prems assms(4)])
  have "heartbeats i (b # bs) d = heartbeats i bs (MarkNodeSeen now i sys w d)" by (simp add: heartbeats_def b)
  with Cons.IH [OF unique_MarkNodeSeen [OF Cons.prems(1)] r1(1,2)] r1(1,3,4) show ?case
    by (cases "bs = []") (auto simp: b heartbeats_def disj_ac)
qed

text \<open>C31: An update that is requested stays requested until the node reports a version that is no longer
  behind the requested one, and then counts as succeeded, whatever it reports later: after
  RequestNodeUpdate for version v and any sequence of heartbeats, the node's update status is
  \<open>succeeded\<close> if one of them reported a version that does not need v, and otherwise \<open>requested\<close> with v
  still wanted; its update error is cleared, and with at least one heartbeat it is online with the version of
  the last one.\<close>

theorem update_requested_until_reached:
  assumes "unique_by ndr_id (db_nodes d)" "RequestNodeUpdate va now i v d = (Inr n, d1)" "v \<noteq> []"
  shows "\<exists>r. row_with ndr_id i (db_nodes (heartbeats i bs d1)) = Some r \<and> nd_update_error (ndr_node r) = [] \<and>
    nd_update (ndr_node r) = (if \<exists>b\<in>set bs. \<not> NeedsUpdate (snd (snd b)) v then UpdateSucceeded else UpdateRequested) \<and>
    ((\<forall>b\<in>set bs. NeedsUpdate (snd (snd b)) v) \<longrightarrow> nd_desired (ndr_node r) = v) \<and>
    (bs \<noteq> [] \<longrightarrow> nd_status (ndr_node r) = NodeOnline \<and> nd_version (ndr_node r) = snd (snd (last bs)))"
proof -
  from assms(2) have nz: "affected (live_node i) (db_nodes d) \<noteq> 0" by (auto simp: RequestNodeUpdate_def split: if_splits)
  then obtain r where r: "row_with ndr_id i (db_nodes d) = Some r" "\<not> nd_revoked (ndr_node r)"
    by (auto simp: affected_live [OF assms(1)] split: option.splits)
  then have live: "live_node i r" by (auto simp: live_node_def dest: row_with_Some)
  let ?f = "\<lambda>n. n\<lparr> nd_desired := v, nd_update := UpdateRequested, nd_update_error := [],
     nd_requested_at := now, nd_finished_at := zero_time, nd_updated_at := now \<rparr>"
  have d1: "d1 = update_node (live_node i) ?f d"
    using assms(2) nz by (auto simp: RequestNodeUpdate_def Let_def)
  have "row_with ndr_id i (db_nodes d1) = Some (r\<lparr> ndr_node := ?f (ndr_node r) \<rparr>)"
    unfolding d1 by (subst row_update_node) (simp_all add: r live)
  moreover have "update_state v False (r\<lparr> ndr_node := ?f (ndr_node r) \<rparr>)" using r by (simp add: update_state_def)
  moreover have "unique_by ndr_id (db_nodes d1)" unfolding d1 using assms(1) by (intro unique_update_node) simp_all
  ultimately obtain r' where "row_with ndr_id i (db_nodes (heartbeats i bs d1)) = Some r'"
    "update_state v (\<exists>b\<in>set bs. \<not> NeedsUpdate (snd (snd b)) v) r'"
    "bs \<noteq> [] \<longrightarrow> nd_status (ndr_node r') = NodeOnline \<and> nd_version (ndr_node r') = snd (snd (last bs))"
    using heartbeats_state [OF _ _ _ assms(3), of d1 i _ False bs] by auto
  then show ?thesis by (auto simp: update_state_def)
qed

section \<open>Revocation\<close>

text \<open>Every statement on a node that exists; UpsertNode, which the server only uses for a fresh id, is left out.\<close>

inductive node_step :: "vault \<Rightarrow> db \<Rightarrow> db \<Rightarrow> bool" for va where
  seen: "node_step va d (MarkNodeSeen now i sys w d)"
| offline: "node_step va d (MarkNodeOffline now i d)"
| report: "node_step va d (UpdateNodeReport now i rep d)"
| request: "node_step va d (snd (RequestNodeUpdate va now i v d))"
| edit: "UpdateNode now n d = Inr d' \<Longrightarrow> node_step va d d'"
| revoke: "RevokeNode now i d = Inr d' \<Longrightarrow> node_step va d d'"

definition revoked_in :: "string \<Rightarrow> db \<Rightarrow> bool" where
  "revoked_in i d \<longleftrightarrow> unique_by ndr_id (db_nodes d) \<and>
     (\<exists>r. row_with ndr_id i (db_nodes d) = Some r \<and> nd_revoked (ndr_node r) \<and> nd_status (ndr_node r) = NodeRevoked)"

lemma revoked_update_node:
  assumes "revoked_in i d" "\<And>n. nd_id (f n) = nd_id n"
    and "\<And>r. P r \<Longrightarrow> ndr_id r = i \<Longrightarrow> nd_revoked (ndr_node r) \<Longrightarrow> nd_status (ndr_node r) = NodeRevoked \<Longrightarrow>
      nd_revoked (f (ndr_node r)) \<and> nd_status (f (ndr_node r)) = NodeRevoked"
  shows "revoked_in i (update_node P f d)"
proof -
  from assms(1) obtain r where r: "row_with ndr_id i (db_nodes d) = Some r" "nd_revoked (ndr_node r)"
    "nd_status (ndr_node r) = NodeRevoked" "unique_by ndr_id (db_nodes d)"
    by (auto simp: revoked_in_def)
  then have "ndr_id r = i" by (auto dest: row_with_Some)
  then show ?thesis
    unfolding revoked_in_def row_update_node [of f, OF assms(2)]
    using r assms(2,3) unique_update_node [of f d P] by auto
qed

lemma revoked_step: "node_step va d d' \<Longrightarrow> revoked_in i d \<Longrightarrow> revoked_in i d'"
proof (induction rule: node_step.induct)
  case (seen d now j sys w)
  then show ?case
    by (auto simp: MarkNodeSeen_def Let_def live_node_def split: option.split intro!: revoked_update_node)
qed (auto simp: MarkNodeOffline_def UpdateNodeReport_def RequestNodeUpdate_def UpdateNode_def RevokeNode_def
    Let_def live_node_def split: if_splits intro!: revoked_update_node)

lemma revoked_steps: "(node_step va)\<^sup>*\<^sup>* d d' \<Longrightarrow> revoked_in i d \<Longrightarrow> revoked_in i d'"
  by (induction rule: rtranclp_induct) (auto intro: revoked_step)

lemma scan_rows_mem: "scan_rows f rs = Inr xs \<Longrightarrow> x \<in> set xs \<Longrightarrow> \<exists>r\<in>set rs. f r = Inr x"
  by (induction rs arbitrary: xs) (auto simp: err_simps)

lemma listed_nodes:
  assumes "ListNodes va d = Inr ns" and "n \<in> set ns"
  shows "\<exists>r\<in>set (db_nodes d). ndr_node r = n \<and> \<not> nd_revoked n"
proof -
  from assms obtain xs t where "scan_rows (scanNode va) (order_desc (\<lambda>r. rfc3339nano (nd_created_at (ndr_node r)))
      (filter (\<lambda>r. \<not> nd_revoked (ndr_node r)) (db_nodes d))) = Inr xs" "(n, t) \<in> set xs"
    by (auto simp: ListNodes_def err_simps)
  from scan_rows_mem [OF this] show ?thesis by (auto simp: scanNode_def err_simps)
qed

lemma revoked_not_listed:
  assumes "ListNodes va d = Inr ns" and "unique_by ndr_id (db_nodes d)"
    and "r \<in> set (db_nodes d)" "nd_revoked (ndr_node r)"
  shows "ndr_id r \<notin> nd_id ` set ns"
proof
  assume "ndr_id r \<in> nd_id ` set ns"
  then obtain n where "n \<in> set ns" "nd_id n = ndr_id r" by auto
  with listed_nodes [OF assms(1), of n] obtain x where x: "x \<in> set (db_nodes d)" "\<not> nd_revoked (ndr_node x)" "ndr_id x = ndr_id r"
    by (auto simp: ndr_id_def)
  with assms(2,3) have "x = r" by (auto dest: inj_onD simp: distinct_map)
  with x assms(4) show False by simp
qed

text \<open>C30: Revocation is final: once RevokeNode has succeeded, no sequence of heartbeats, offline marks, update
  requests and reports, edits and further revocations makes the node usable again.  It stays revoked with
  status \<open>revoked\<close>, no token authenticates as it, and ListNodes (the nodes that are compiled into
  configurations and shown) never contains it.\<close>

theorem revocation_final:
  assumes "unique_by ndr_id (db_nodes d)" "RevokeNode now i d = Inr d1" "(node_step va)\<^sup>*\<^sup>* d1 d2"
  shows "(\<exists>r. row_with ndr_id i (db_nodes d2) = Some r \<and> nd_revoked (ndr_node r) \<and> nd_status (ndr_node r) = NodeRevoked) \<and>
    (\<forall>t n. AuthenticateNode va sha i t d2 \<noteq> Inr n) \<and>
    (\<forall>ns. ListNodes va d2 = Inr ns \<longrightarrow> i \<notin> nd_id ` set ns)"
proof -
  from assms(2) have nz: "affected (\<lambda>r. ndr_id r = i) (db_nodes d) \<noteq> 0" and
    d1: "d1 = update_node (\<lambda>r. ndr_id r = i) (\<lambda>n. n\<lparr> nd_revoked := True, nd_status := NodeRevoked, nd_updated_at := now \<rparr>) d"
    by (auto simp: RevokeNode_def split: if_splits)
  from nz obtain r where r0: "row_with ndr_id i (db_nodes d) = Some r"
    by (cases "row_with ndr_id i (db_nodes d)") (auto simp: affected_0 row_with_None)
  then have "revoked_in i d1"
    unfolding revoked_in_def d1
    using assms(1) row_with_Some [OF r0] by (subst row_update_node) (auto intro!: unique_update_where simp: ndr_id_def)
  then have "revoked_in i d2" by (rule revoked_steps [OF assms(3)])
  then obtain r where r: "row_with ndr_id i (db_nodes d2) = Some r" "nd_revoked (ndr_node r)"
    "nd_status (ndr_node r) = NodeRevoked" and uniq: "unique_by ndr_id (db_nodes d2)"
    by (auto simp: revoked_in_def)
  have "i \<notin> nd_id ` set ns" if "ListNodes va d2 = Inr ns" for ns
    using revoked_not_listed [OF that uniq] row_with_Some [OF r(1)] r(2) by auto
  with r show ?thesis
    by (auto simp: AuthenticateNode_def GetNodeWithToken_def scanNode_def err_simps)
qed

section \<open>Witnesses\<close>

definition ex_vault :: vault where
  "ex_vault = \<lparr> va_seal = toy_seal, va_open = toy_open, va_token_key = ex_key, va_secret_key = ex_key \<rparr>"

definition ex_stored_node :: node where
  "ex_stored_node = \<lparr> nd_id = ''n1'', nd_name = ''one'', nd_status = NodeOffline, nd_version = [], nd_desired = [],
     nd_update = UpdateIdle, nd_update_error = [], nd_requested_at = 0, nd_finished_at = 0, nd_labels = None,
     nd_public_host = [], nd_port_min = 0, nd_port_max = 0, nd_approved = True, nd_revoked = False, nd_last_seen = 0,
     nd_created_at = 3, nd_updated_at = 0, nd_system = \<lparr> sys_hostname = [], sys_os = [], sys_arch = [], sys_ip = [] \<rparr> \<rparr>"

definition ex_node_db :: db where
  "ex_node_db = empty_db\<lparr> db_nodes := [\<lparr> ndr_node = ex_stored_node, ndr_token = [], ndr_encrypted = [] \<rparr>] \<rparr>"

theorem node_token_authorizes_witness:
  "\<exists>d'. UpsertNode ex_vault 9 (Some ex_nonce) ex_stored_node ''tok'' ex_node_db = Inr d' \<and>
     (\<exists>n. AuthenticateNode ex_vault (\<lambda>t. t) ''n1'' ''tok'' d' = Inr n) \<and>
     AuthenticateNode ex_vault (\<lambda>t. t) ''n1'' ''bad'' d' = Inl ErrNotAuthorized"
proof -
  have ok: "\<exists>d'. UpsertNode ex_vault 9 (Some ex_nonce) ex_stored_node ''tok'' ex_node_db = Inr d'"
    by (simp add: UpsertNode_def encryptNodeToken_def ex_vault_def nodeTokenKeyBytes_def Let_def)
  then obtain d' where d': "UpsertNode ex_vault 9 (Some ex_nonce) ex_stored_node ''tok'' ex_node_db = Inr d'" by blast
  have pre: "aead_ok (va_seal ex_vault) (va_open ex_vault)" "length ex_nonce = gcm_nonce"
    "length (va_token_key ex_vault) = nodeTokenKeyBytes"
    by (simp_all add: ex_vault_def toy_aead gcm_nonce_def nodeTokenKeyBytes_def)
  have id: "nd_id ex_stored_node = ''n1''" "nd_approved ex_stored_node" "\<not> nd_revoked ex_stored_node"
    by (simp_all add: ex_stored_node_def)
  have "AuthenticateNode ex_vault (\<lambda>t. t) ''n1'' t d' =
      (if t = ''tok'' then Inr (ndr_node (the (row_with ndr_id ''n1'' (db_nodes d')))) else Inl ErrNotAuthorized)" for t
    using node_token_authorizes [OF pre _ _ _ d', of "\<lambda>t. t" t] by (simp add: id)
  with d' show ?thesis by auto
qed

theorem update_requested_until_reached_witness:
  "\<exists>d1 r. snd (RequestNodeUpdate ex_vault 9 ''n1'' ''v1.2'' ex_node_db) = d1 \<and>
     row_with ndr_id ''n1'' (db_nodes (heartbeats ''n1'' [(10, nd_system ex_stored_node, ''v1.1''), (11, nd_system ex_stored_node, ''v1.2'')] d1)) = Some r \<and>
     nd_update (ndr_node r) = UpdateSucceeded"
proof -
  have uniq: "unique_by ndr_id (db_nodes ex_node_db)" by (simp add: ex_node_db_def)
  have "isl (fst (RequestNodeUpdate ex_vault 9 ''n1'' ''v1.2'' ex_node_db)) = False"
    by code_simp
  then obtain n d1 where d1: "RequestNodeUpdate ex_vault 9 ''n1'' ''v1.2'' ex_node_db = (Inr n, d1)"
    by (metis obj_sumE prod.collapse sum.disc(1))
  have "\<not> NeedsUpdate ''v1.2'' ''v1.2''" by code_simp
  with update_requested_until_reached [OF uniq d1, of "[(10, nd_system ex_stored_node, ''v1.1''), (11, nd_system ex_stored_node, ''v1.2'')]"]
    d1 show ?thesis by fastforce
qed

theorem revocation_final_witness:
  "\<exists>d1. RevokeNode 9 ''n1'' ex_node_db = Inr d1 \<and>
     (\<forall>n. AuthenticateNode ex_vault (\<lambda>t. t) ''n1'' [] (MarkNodeSeen 10 ''n1'' (nd_system ex_stored_node) ''v1'' d1) \<noteq> Inr n)"
proof -
  have uniq: "unique_by ndr_id (db_nodes ex_node_db)" by (simp add: ex_node_db_def)
  obtain d1 where d1: "RevokeNode 9 ''n1'' ex_node_db = Inr d1"
    by (simp add: RevokeNode_def ex_node_db_def affected_def ndr_id_def ex_stored_node_def)
  have "(node_step ex_vault)\<^sup>*\<^sup>* d1 (MarkNodeSeen 10 ''n1'' (nd_system ex_stored_node) ''v1'' d1)"
    by (intro r_into_rtranclp node_step.seen)
  from revocation_final [OF uniq d1 this, of "\<lambda>t. t"] d1 show ?thesis by blast
qed

end
