(* ===== verification/Release.thy ===== *)
theory Release
  imports Http Files StoreNodes
begin

text \<open>
  The release of the node program that the controller bundles: release.go, and from server.go the downloads
  (handleDownloadNodeReleaseManifest to normalizeNodeBinaryTarget), the requests for an update
  (handleUpdateNodeBinary, handleUpdateAllNodeBinaries) and the command that carries it to a node
  (sendNodeUpdateIfNeeded).

  What the operating system answers, SHA-256, Ed25519 and JSON decoding are arguments, collected in
  \<open>release_env\<close>; errors are their texts.
\<close>

section \<open>Hexadecimal digits\<close>

definition hex_digit :: "nat \<Rightarrow> char" where
  "hex_digit n = ''0123456789abcdef'' ! (n mod 16)"

definition hex_encode :: "string \<Rightarrow> string" where
  "hex_encode s = concat (map (\<lambda>c. [hex_digit (of_char c div 16), hex_digit (of_char c mod 16)]) s)"

definition is_hex :: "char \<Rightarrow> bool" where
  "is_hex c \<longleftrightarrow> c \<in> set ''0123456789abcdefABCDEF''"

text \<open>Whether hex.DecodeString accepts its argument.\<close>

definition hex_decodable :: "string \<Rightarrow> bool" where
  "hex_decodable s \<longleftrightarrow> even (length s) \<and> list_all is_hex s"

lemma hex_encode_length [simp]: "length (hex_encode s) = 2 * length s"
  by (induction s) (simp_all add: hex_encode_def)

lemma hex_encode_decodable: "hex_decodable (hex_encode s)"
proof -
  have "list_all (\<lambda>n. is_hex (hex_digit n)) [0..<16]" by code_simp
  then have "is_hex (hex_digit (n mod 16))" for n by (auto simp: list_all_iff)
  then have "is_hex (hex_digit n)" for n by (simp add: hex_digit_def)
  then have "list_all is_hex (hex_encode s)" by (induction s) (simp_all add: hex_encode_def)
  then show ?thesis by (simp add: hex_decodable_def)
qed

section \<open>Files of the release directory\<close>

text \<open>An opened file: what Stat tells of it, the bytes read from it, and the error that ends them, if one does.\<close>

record opened =
  op_stat :: "string + (bool \<times> int)"
  op_data :: string
  op_error :: "string option"

record release_env =
  re_dir :: string
  re_binary :: string
  re_join :: "string \<Rightarrow> string \<Rightarrow> string"
  re_stat :: "string \<Rightarrow> string + (bool \<times> int)"
  re_open :: "string \<Rightarrow> (bool \<times> string) + opened"
  re_parse :: "string \<Rightarrow> string + release_manifest"
  re_sha256 :: "string \<Rightarrow> string"
  re_verify :: ed_verify
  re_json :: "release_manifest \<Rightarrow> string option"
  re_trusted :: string

definition maxNodeReleaseManifestBytes :: nat where "maxNodeReleaseManifestBytes = 2 ^ 20"
definition maxNodeReleaseMetadataBytes :: nat where "maxNodeReleaseMetadataBytes = 16 * 2 ^ 10"
definition maxNodeReleaseArtifactBytes :: nat where "maxNodeReleaseArtifactBytes = 128 * 2 ^ 20"

text \<open>Reading at most \<open>n\<close> bytes to the end.\<close>

definition read_limited :: "nat \<Rightarrow> opened \<Rightarrow> string + string" where
  "read_limited n op =
    (if n \<le> length (op_data op) then Inr (take n (op_data op))
     else case op_error op of Some e \<Rightarrow> Inl e | None \<Rightarrow> Inr (op_data op))"

text \<open>An error carries whether it is os.ErrNotExist.\<close>

definition readNodeReleaseFile :: "release_env \<Rightarrow> string \<Rightarrow> nat \<Rightarrow> (bool \<times> string) + string" where
  "readNodeReleaseFile re path maxBytes =
    (case re_open re path of Inl x \<Rightarrow> Inl x | Inr op \<Rightarrow>
     (case read_limited (maxBytes + 1) op of
        Inl e \<Rightarrow> Inl (False, e)
      | Inr payload \<Rightarrow>
          if length payload > maxBytes then Inl (False, ''file '' @ path @ '' is too large'') else Inr payload))"

definition readTrimmedFile :: "release_env \<Rightarrow> string \<Rightarrow> string \<Rightarrow> string + string" where
  "readTrimmedFile re path missing =
    (case readNodeReleaseFile re path maxNodeReleaseMetadataBytes of
       Inl (absent, e) \<Rightarrow> Inl (if absent then missing else e)
     | Inr payload \<Rightarrow> Inr (trim_space payload))"

definition nodeReleaseManifest :: "release_env \<Rightarrow> string + release_manifest" where
  "nodeReleaseManifest re =
    (case readNodeReleaseFile re (re_join re (re_dir re) ''node-release-manifest.json'') maxNodeReleaseManifestBytes of
       Inl (absent, e) \<Rightarrow> Inl (if absent then ''node release manifest is not bundled'' else e)
     | Inr payload \<Rightarrow>
         (case re_parse re payload of
            Inl e \<Rightarrow> Inl (''read node release manifest: '' @ e) | Inr m \<Rightarrow> Inr m))"

section \<open>Artifacts\<close>

definition normalizeNodeBinaryTarget :: "string \<Rightarrow> string \<Rightarrow> string + (string \<times> string)" where
  "normalizeNodeBinaryTarget targetOS targetArch =
    (if to_lower (trim_space targetOS) \<noteq> ''linux'' then
       Inl (''unsupported node binary operating system: '' @ targetOS)
     else let a = to_lower (trim_space targetArch) in
       if a \<in> set [''amd64'', ''x86_64''] then Inr (''linux'', ''amd64'')
       else if a \<in> set [''arm64'', ''aarch64''] then Inr (''linux'', ''arm64'')
       else Inl (''unsupported node binary architecture: '' @ targetArch))"

definition nodeReleaseArtifact :: "release_env \<Rightarrow> string \<Rightarrow> string \<Rightarrow> string \<Rightarrow> string + release_artifact" where
  "nodeReleaseArtifact re path targetOS targetArch =
    (case re_open re path of Inl x \<Rightarrow> Inl (snd x) | Inr op \<Rightarrow>
     (case op_stat op of Inl e \<Rightarrow> Inl e | Inr (dir, sz) \<Rightarrow>
       if dir \<or> sz \<le> 0 \<or> sz > int maxNodeReleaseArtifactBytes then Inl ''node release artifact has invalid size''
       else (case read_limited (maxNodeReleaseArtifactBytes + 1) op of
          Inl e \<Rightarrow> Inl e
        | Inr bytes \<Rightarrow>
            if bytes = [] \<or> length bytes > maxNodeReleaseArtifactBytes \<or> int (length bytes) \<noteq> sz
            then Inl ''node release artifact changed while reading''
            else Inr \<lparr> art_os = targetOS, art_arch = targetArch, art_sha256 = hex_encode (re_sha256 re bytes),
                       art_size = int (length bytes) \<rparr>)))"

definition binary_path :: "release_env \<Rightarrow> string \<Rightarrow> string \<Rightarrow> string" where
  "binary_path re targetOS targetArch = re_join re (re_dir re) (''nyarelay-node-'' @ targetOS @ ''-'' @ targetArch)"

text \<open>One pass of the loop of verifyNodeReleaseArtifacts.\<close>

definition verify_artifact :: "release_env \<Rightarrow> release_artifact \<Rightarrow> string option" where
  "verify_artifact re art =
    (let fault = (\<lambda>what. Some (''node release artifact '' @ art_os art @ ''/'' @ art_arch art @ what)) in
     case normalizeNodeBinaryTarget (art_os art) (art_arch art) of
       Inl _ \<Rightarrow> fault '' has invalid target''
     | Inr (targetOS, targetArch) \<Rightarrow>
         if targetOS \<noteq> art_os art \<or> targetArch \<noteq> art_arch art then fault '' has invalid target''
         else if art_size art \<le> 0 \<or> art_size art > int maxNodeReleaseArtifactBytes then fault '' has invalid size''
         else let path = binary_path re targetOS targetArch in
         case re_stat re path of
           Inl _ \<Rightarrow> fault '' is not available''
         | Inr (dir, sz) \<Rightarrow>
             if dir then fault '' is not available''
             else if sz > int maxNodeReleaseArtifactBytes then fault '' is too large''
             else case nodeReleaseArtifact re path (art_os art) (art_arch art) of
               Inl _ \<Rightarrow> fault '' is not available''
             | Inr actual \<Rightarrow>
                 if \<not> equal_fold (art_sha256 actual) (art_sha256 art) \<or> art_size actual \<noteq> art_size art
                 then fault '' does not match bundled manifest'' else None)"

definition verifyNodeReleaseArtifacts :: "release_env \<Rightarrow> release_manifest \<Rightarrow> string option" where
  "verifyNodeReleaseArtifacts re m = first_err (map (verify_artifact re) (man_artifacts m))"

section \<open>The release\<close>

definition no_manifest :: release_manifest where
  "no_manifest = \<lparr> man_version = [], man_commit = [], man_build_date = [], man_artifacts = [] \<rparr>"

definition disabled_release :: "string \<Rightarrow> signed_release" where
  "disabled_release reason =
    \<lparr> srl_manifest = no_manifest, srl_signature = [], srl_key_id = [], srl_enabled = False, srl_reason = reason \<rparr>"

definition nodeReleaseUncached :: "release_env \<Rightarrow> signed_release" where
  "nodeReleaseUncached re =
    (if trim_space (re_dir re) = [] then disabled_release ''node release directory is not configured''
     else case nodeReleaseManifest re of Inl e \<Rightarrow> disabled_release e
     | Inr m \<Rightarrow>
       (case readTrimmedFile re (re_join re (re_dir re) ''node-release-manifest.sig'')
               ''node release signature is not bundled'' of
          Inl e \<Rightarrow> (disabled_release e)\<lparr> srl_manifest := m \<rparr>
        | Inr sig \<Rightarrow>
       (case readTrimmedFile re (re_join re (re_dir re) ''node-release-public.key'')
               ''node release public key is not bundled'' of
          Inl e \<Rightarrow> (disabled_release e)\<lparr> srl_manifest := m \<rparr>
        | Inr key \<Rightarrow>
            (let bare = \<lparr> srl_manifest = m, srl_signature = sig, srl_key_id = key, srl_enabled = False, srl_reason = [] \<rparr>;
                 fault = (\<lambda>reason. bare\<lparr> srl_reason := reason \<rparr>)
             in if man_artifacts m = [] then fault ''node release artifacts are not available''
                else if trim_space (re_trusted re) = [] then fault ''node update public key is not configured''
                else if key = [] \<or> sig = [] then fault ''node release manifest signature is not configured''
                else if key \<noteq> re_trusted re then fault ''node release signing key does not match trusted key''
                else if VerifyJSON (re_verify re) (re_json re) (re_trusted re) m sig \<noteq> None then
                  fault ''node release manifest signature is invalid''
                else case verifyNodeReleaseArtifacts re m of
                    Some reason \<Rightarrow> fault reason
                  | None \<Rightarrow> bare\<lparr> srl_enabled := True \<rparr>))))"

text \<open>The server keeps the last answer for a minute; \<open>now\<close> is the clock at the check, \<open>later\<close> when the answer
  is stored.\<close>

record release_cache =
  rca_release :: signed_release
  rca_at :: time

definition nodeReleaseCacheTTL :: duration where "nodeReleaseCacheTTL = minute"

definition nodeRelease :: "release_env \<Rightarrow> time \<Rightarrow> time \<Rightarrow> release_cache \<Rightarrow> signed_release \<times> release_cache" where
  "nodeRelease re now later c =
    (if rca_at c \<noteq> zero_time \<and> time_sub now (rca_at c) < nodeReleaseCacheTTL then (rca_release c, c)
     else let release = nodeReleaseUncached re in (release, \<lparr> rca_release = release, rca_at = later \<rparr>))"

section \<open>Downloads\<close>

text \<open>handleDownloadNodeReleaseManifest, on the release it took from the cache.\<close>

definition public_release :: "signed_release \<Rightarrow> signed_release" where
  "public_release r =
    (if \<not> srl_enabled r then r\<lparr> srl_reason := ''node release is unavailable'' \<rparr> else r)"

definition nodeBinaryPathForRequest :: "release_env \<Rightarrow> http_request \<Rightarrow> string + (string \<times> string)" where
  "nodeBinaryPathForRequest re r =
    (let targetOS = query r ''os''; targetArch = query r ''arch'' in
     if targetOS = [] \<and> targetArch = [] then Inr (re_binary re, ''nyarelay-node'')
     else if trim_space (re_dir re) = [] then Inl ''node binary directory is not configured''
     else bindE (normalizeNodeBinaryTarget targetOS targetArch) (\<lambda>(os, arch).
       Inr (binary_path re os arch, ''nyarelay-node-'' @ os @ ''-'' @ arch)))"

text \<open>The bytes sent: the file itself, or what the gzip writer makes of it.\<close>

datatype download = Plain string | Gzipped string

definition handleDownloadNodeBinary :: "release_env \<Rightarrow> http_request \<Rightarrow> download reply" where
  "handleDownloadNodeBinary re r =
    (case nodeBinaryPathForRequest re r of
       Inl e \<Rightarrow> Refused StatusBadRequest e
     | Inr (path, filename) \<Rightarrow>
         if path = [] then Refused StatusInternalServerError ''node binary path is not configured''
         else case re_stat re path of
           Inl _ \<Rightarrow> Refused StatusNotFound ''node binary not found''
         | Inr (dir, sz) \<Rightarrow>
             if dir \<or> sz \<le> 0 \<or> sz > int maxNodeReleaseArtifactBytes
             then Refused StatusNotFound ''node binary not found''
             else case re_open re path of
               Inl _ \<Rightarrow> Refused StatusNotFound ''node binary not found''
             | Inr op \<Rightarrow> Answer (if query r ''compress'' = ''gzip'' then Gzipped (op_data op) else Plain (op_data op)))"

definition handleDownloadNodeBinarySignature :: "release_env \<Rightarrow> http_request \<Rightarrow> string reply" where
  "handleDownloadNodeBinarySignature re r =
    (case normalizeNodeBinaryTarget (query r ''os'') (query r ''arch'') of
       Inl e \<Rightarrow> Refused StatusBadRequest e
     | Inr (os, arch) \<Rightarrow>
         if trim_space (re_dir re) = [] then Refused StatusInternalServerError ''node binary directory is not configured''
         else let filename = ''nyarelay-node-'' @ os @ ''-'' @ arch @ ''.sig'' in
         case readNodeReleaseFile re (re_join re (re_dir re) filename) maxNodeReleaseMetadataBytes of
           Inl _ \<Rightarrow> Refused StatusNotFound ''node binary signature not found''
         | Inr payload \<Rightarrow>
             (case b64_decode (trim_space payload) of
                None \<Rightarrow> Refused StatusNotFound ''node binary signature not found''
              | Some sig \<Rightarrow>
                  if length sig \<noteq> 64 then Refused StatusNotFound ''node binary signature not found'' else Answer sig))"

section \<open>Updates\<close>

text \<open>The command sent to a node; \<open>None\<close> where the code sends nothing.  \<open>release\<close> is what nodeRelease answers.\<close>

definition sendNodeUpdateIfNeeded ::
  "vault \<Rightarrow> signed_release \<Rightarrow> string \<Rightarrow> db \<Rightarrow> store_error option \<times> string option \<times> update_command option" where
  "sendNodeUpdateIfNeeded va release i d =
    (case GetNode va i d of
       Inl e \<Rightarrow> (Some e, None, None)
     | Inr n \<Rightarrow>
         if nd_revoked n then (None, None, None)
         else if nd_update n \<noteq> UpdateRequested \<or> nd_desired n = [] then (None, None, None)
         else if \<not> NeedsUpdate (nd_version n) (nd_desired n) then (None, None, None)
         else if \<not> srl_enabled release then (None, Some (srl_reason release), None)
         else if man_version (srl_manifest release) \<noteq> nd_desired n then (None, None, None)
         else (None, None, Some \<lparr> cmd_version = man_version (srl_manifest release), cmd_manifest = srl_manifest release,
                                 cmd_signature = srl_signature release, cmd_key_id = srl_key_id release \<rparr>))"

text \<open>The two requests of the administration: the answer, the database and the nodes a command is pushed to.
  \<open>text\<close> renders an error of the store.\<close>

definition handleUpdateNodeBinary ::
  "(store_error \<Rightarrow> string) \<Rightarrow> vault \<Rightarrow> time \<Rightarrow> signed_release \<Rightarrow> string \<Rightarrow> db \<Rightarrow> node reply \<times> db \<times> string list" where
  "handleUpdateNodeBinary text va now release i d =
    (if \<not> srl_enabled release then (Refused StatusConflict (srl_reason release), d, [])
     else case GetNode va i d of
       Inl _ \<Rightarrow> (Refused StatusNotFound ''node not found'', d, [])
     | Inr n \<Rightarrow>
         if nd_revoked n then (Refused StatusNotFound ''node not found'', d, [])
         else if \<not> NeedsUpdate (nd_version n) (man_version (srl_manifest release)) then (Answer n, d, [])
         else case RequestNodeUpdate va now (nd_id n) (man_version (srl_manifest release)) d of
           (Inl e, d') \<Rightarrow> (Refused StatusBadRequest (text e), d', [])
         | (Inr updated, d') \<Rightarrow> (Answer updated, d', [nd_id n]))"

fun request_updates ::
  "vault \<Rightarrow> time \<Rightarrow> string \<Rightarrow> node list \<Rightarrow> db \<Rightarrow> store_error option \<times> db \<times> string list" where
  "request_updates va now version [] d = (None, d, [])"
| "request_updates va now version (n # ns) d =
    (if nd_revoked n \<or> \<not> NeedsUpdate (nd_version n) version then request_updates va now version ns d
     else case RequestNodeUpdate va now (nd_id n) version d of
       (Inl e, d') \<Rightarrow> (Some e, d', [])
     | (Inr _, d') \<Rightarrow>
         (case request_updates va now version ns d' of (e, d'', pushed) \<Rightarrow> (e, d'', nd_id n # pushed)))"

definition handleUpdateAllNodeBinaries ::
  "(store_error \<Rightarrow> string) \<Rightarrow> vault \<Rightarrow> time \<Rightarrow> signed_release \<Rightarrow> db \<Rightarrow> (string \<times> nat) reply \<times> db \<times> string list" where
  "handleUpdateAllNodeBinaries text va now release d =
    (if \<not> srl_enabled release then (Refused StatusConflict (srl_reason release), d, [])
     else case ListNodes va d of
       Inl e \<Rightarrow> (Refused StatusInternalServerError (text e), d, [])
     | Inr ns \<Rightarrow>
         (case request_updates va now (man_version (srl_manifest release)) ns d of
            (Some e, d', pushed) \<Rightarrow> (Refused StatusBadRequest (text e), d', pushed)
          | (None, d', pushed) \<Rightarrow>
              (Answer (man_version (srl_manifest release), length pushed), d', pushed)))"

section \<open>What an offered release is\<close>

text \<open>The bundled file of an artifact: the bytes the directory holds for its platform.\<close>

definition bundled :: "release_env \<Rightarrow> release_artifact \<Rightarrow> string \<Rightarrow> bool" where
  "bundled re art bytes \<longleftrightarrow>
     (\<exists>op. re_open re (binary_path re (art_os art) (art_arch art)) = Inr op \<and> op_data op = bytes) \<and>
     int (length bytes) = art_size art \<and> equal_fold (hex_encode (re_sha256 re bytes)) (art_sha256 art)"

lemma read_limited_whole:
  "read_limited (n + 1) op = Inr bytes \<Longrightarrow> length bytes \<le> n \<Longrightarrow> op_data op = bytes \<and> op_error op = None"
  by (auto simp: read_limited_def split: if_splits option.splits)

lemma nodeReleaseArtifact_sound:
  assumes "nodeReleaseArtifact re path targetOS targetArch = Inr art"
  shows "\<exists>op. re_open re path = Inr op \<and> op_error op = None \<and> art_os art = targetOS \<and> art_arch art = targetArch \<and>
    art_sha256 art = hex_encode (re_sha256 re (op_data op)) \<and> art_size art = int (length (op_data op)) \<and> 0 < art_size art"
proof -
  obtain op where op: "re_open re path = Inr op"
    using assms by (auto simp: nodeReleaseArtifact_def split: sum.splits)
  obtain bytes where bytes: "read_limited (maxNodeReleaseArtifactBytes + 1) op = Inr bytes"
      "\<not> (bytes = [] \<or> length bytes > maxNodeReleaseArtifactBytes)"
      "art = \<lparr> art_os = targetOS, art_arch = targetArch, art_sha256 = hex_encode (re_sha256 re bytes),
              art_size = int (length bytes) \<rparr>"
    using assms op by (auto simp: nodeReleaseArtifact_def split: sum.splits if_splits prod.splits)
  have whole: "op_data op = bytes \<and> op_error op = None"
    using read_limited_whole [OF bytes(1)] bytes(2) by simp
  show ?thesis using op whole bytes by (intro exI [of _ op]) auto
qed

lemma normalizeNodeBinaryTarget_range:
  "normalizeNodeBinaryTarget o1 a1 = Inr (o2, a2) \<Longrightarrow> o2 = ''linux'' \<and> a2 \<in> {''amd64'', ''arm64''}"
  by (auto simp: normalizeNodeBinaryTarget_def Let_def split: if_splits)

lemma verify_artifact_sound:
  assumes "verify_artifact re art = None"
  shows "art_os art = ''linux'' \<and> art_arch art \<in> {''amd64'', ''arm64''} \<and> 0 < art_size art \<and>
    art_size art \<le> int maxNodeReleaseArtifactBytes \<and> (\<exists>bytes. bundled re art bytes)"
proof -
  obtain os arch where t: "normalizeNodeBinaryTarget (art_os art) (art_arch art) = Inr (os, arch)"
    using assms by (auto simp: verify_artifact_def Let_def split: sum.splits)
  have same: "os = art_os art" "arch = art_arch art"
    using assms t by (auto simp: verify_artifact_def Let_def split: if_splits)
  let ?path = "binary_path re (art_os art) (art_arch art)"
  obtain actual where a: "nodeReleaseArtifact re ?path (art_os art) (art_arch art) = Inr actual"
      "equal_fold (art_sha256 actual) (art_sha256 art)" "art_size actual = art_size art"
      "0 < art_size art" "art_size art \<le> int maxNodeReleaseArtifactBytes"
    using assms t same
    by (auto simp: verify_artifact_def Let_def split: sum.splits if_splits prod.splits)
  from nodeReleaseArtifact_sound [OF a(1)] obtain op where
    "re_open re ?path = Inr op" "art_sha256 actual = hex_encode (re_sha256 re (op_data op))"
    "art_size actual = int (length (op_data op))" by blast
  then have "bundled re art (op_data op)" using a by (auto simp: bundled_def)
  then show ?thesis
    using normalizeNodeBinaryTarget_range [OF t] same a(4,5) by auto
qed

lemma nodeReleaseUncached_enabled:
  assumes "srl_enabled (nodeReleaseUncached re)"
  shows "trim_space (re_dir re) \<noteq> []"
    and "nodeReleaseManifest re = Inr (srl_manifest (nodeReleaseUncached re))"
    and "trim_space (re_trusted re) \<noteq> []"
    and "srl_key_id (nodeReleaseUncached re) = re_trusted re"
    and "VerifyJSON (re_verify re) (re_json re) (re_trusted re) (srl_manifest (nodeReleaseUncached re))
      (srl_signature (nodeReleaseUncached re)) = None"
    and "man_artifacts (srl_manifest (nodeReleaseUncached re)) \<noteq> []"
    and "verifyNodeReleaseArtifacts re (srl_manifest (nodeReleaseUncached re)) = None"
proof -
  have dir: "trim_space (re_dir re) \<noteq> []" using assms by (auto simp: nodeReleaseUncached_def disabled_release_def)
  obtain m where m: "nodeReleaseManifest re = Inr m"
    using assms dir by (auto simp: nodeReleaseUncached_def disabled_release_def split: sum.splits)
  obtain sig where sig: "readTrimmedFile re (re_join re (re_dir re) ''node-release-manifest.sig'')
      ''node release signature is not bundled'' = Inr sig"
    using assms dir m by (auto simp: nodeReleaseUncached_def disabled_release_def split: sum.splits)
  obtain key where key: "readTrimmedFile re (re_join re (re_dir re) ''node-release-public.key'')
      ''node release public key is not bundled'' = Inr key"
    using assms dir m sig by (auto simp: nodeReleaseUncached_def disabled_release_def split: sum.splits)
  note e = assms [unfolded nodeReleaseUncached_def, simplified dir m sig key Let_def sum.case if_False]
  have c: "man_artifacts m \<noteq> []" "trim_space (re_trusted re) \<noteq> []" "key = re_trusted re" "key \<noteq> []" "sig \<noteq> []"
    "VerifyJSON (re_verify re) (re_json re) (re_trusted re) m sig = None" "verifyNodeReleaseArtifacts re m = None"
    using e by (auto split: if_splits option.splits)
  then have "nodeReleaseUncached re =
      \<lparr> srl_manifest = m, srl_signature = sig, srl_key_id = key, srl_enabled = True, srl_reason = [] \<rparr>"
    using dir m sig key by (simp add: nodeReleaseUncached_def Let_def)
  then show "trim_space (re_dir re) \<noteq> []"
    and "nodeReleaseManifest re = Inr (srl_manifest (nodeReleaseUncached re))"
    and "trim_space (re_trusted re) \<noteq> []"
    and "srl_key_id (nodeReleaseUncached re) = re_trusted re"
    and "VerifyJSON (re_verify re) (re_json re) (re_trusted re) (srl_manifest (nodeReleaseUncached re))
      (srl_signature (nodeReleaseUncached re)) = None"
    and "man_artifacts (srl_manifest (nodeReleaseUncached re)) \<noteq> []"
    and "verifyNodeReleaseArtifacts re (srl_manifest (nodeReleaseUncached re)) = None"
    using dir m c by simp_all
qed

text \<open>C18: the controller offers a release only under the trusted key: the manifest is the one in the release
  directory, its signature verifies, and every artifact it lists is for a supported platform, of a
  permitted size, and is the file of the directory, in length and in SHA-256 digest.\<close>

theorem offered_release_genuine:
  assumes "srl_enabled (nodeReleaseUncached re)"
  shows "srl_key_id (nodeReleaseUncached re) = re_trusted re \<and>
    nodeReleaseManifest re = Inr (srl_manifest (nodeReleaseUncached re)) \<and>
    VerifyJSON (re_verify re) (re_json re) (re_trusted re) (srl_manifest (nodeReleaseUncached re))
      (srl_signature (nodeReleaseUncached re)) = None \<and>
    man_artifacts (srl_manifest (nodeReleaseUncached re)) \<noteq> [] \<and>
    (\<forall>art\<in>set (man_artifacts (srl_manifest (nodeReleaseUncached re))).
       art_os art = ''linux'' \<and> art_arch art \<in> {''amd64'', ''arm64''} \<and>
       0 < art_size art \<and> art_size art \<le> int maxNodeReleaseArtifactBytes \<and> (\<exists>bytes. bundled re art bytes))"
proof -
  note en = nodeReleaseUncached_enabled [OF assms]
  have "verify_artifact re art = None"
    if "art \<in> set (man_artifacts (srl_manifest (nodeReleaseUncached re)))" for art
    using en(7) that by (simp add: verifyNodeReleaseArtifacts_def first_err_None)
  then show ?thesis using en verify_artifact_sound by blast
qed

text \<open>An answer of the cache is one the directory gave less than a minute before.\<close>

definition cache_from :: "release_env \<Rightarrow> release_cache \<Rightarrow> bool" where
  "cache_from re c \<longleftrightarrow> rca_at c = zero_time \<or> rca_release c = nodeReleaseUncached re"

lemma nodeRelease_fresh:
  assumes "nodeRelease re now later c = (release, c')"
  shows "release = nodeReleaseUncached re \<and> cache_from re c' \<or>
    release = rca_release c \<and> c' = c \<and> rca_at c \<noteq> zero_time \<and> now < rca_at c + minute"
  using assms time_sub_lt [of minute now "rca_at c"]
  by (auto simp: nodeRelease_def Let_def cache_from_def nodeReleaseCacheTTL_def duration_defs split: if_splits)

text \<open>The command reaches a node only with an offered release of the version its update was requested to, which
  is newer than the one it runs.\<close>

lemma sent_update_wanted:
  assumes "sendNodeUpdateIfNeeded va release i d = (err, refused, Some cmd)"
  shows "err = None \<and> srl_enabled release \<and> cmd_manifest cmd = srl_manifest release \<and>
    cmd_signature cmd = srl_signature release \<and> cmd_key_id cmd = srl_key_id release \<and>
    cmd_version cmd = man_version (cmd_manifest cmd) \<and>
    (\<exists>n. GetNode va i d = Inr n \<and> \<not> nd_revoked n \<and> nd_desired n = cmd_version cmd \<and>
         NeedsUpdate (nd_version n) (cmd_version cmd))"
  using assms by (auto simp: sendNodeUpdateIfNeeded_def split: sum.splits if_splits)

text \<open>A release for one platform, signed with the scheme of the example keys.\<close>

definition ex_release_manifest :: release_manifest where
  "ex_release_manifest = \<lparr> man_version = ''v0.2.0'', man_commit = ''c0ffee'', man_build_date = ''2025-01-01'',
     man_artifacts = [\<lparr> art_os = ''linux'', art_arch = ''amd64'', art_sha256 = ''656c66'' @ replicate 58 CHR ''0'',
       art_size = 3 \<rparr>] \<rparr>"

definition ex_release_signature :: string where
  "ex_release_signature = EncodeKey (ex_pub @ replicate 32 (char_of (6 :: nat)))"

definition ex_release_files :: "(string \<times> string) list" where
  "ex_release_files =
     [(''d/node-release-manifest.json'', ''manifest''), (''d/node-release-manifest.sig'', ex_release_signature),
      (''d/node-release-public.key'', EncodeKey ex_pub), (''d/nyarelay-node-linux-amd64'', ''elf'')]"

definition ex_release_env :: release_env where
  "ex_release_env = \<lparr> re_dir = ''d'', re_binary = [], re_join = (\<lambda>d f. d @ ''/'' @ f),
     re_stat = (\<lambda>p. case map_of ex_release_files p of None \<Rightarrow> Inl ''absent'' | Some b \<Rightarrow> Inr (False, int (length b))),
     re_open = (\<lambda>p. case map_of ex_release_files p of None \<Rightarrow> Inl (True, ''absent'')
       | Some b \<Rightarrow> Inr \<lparr> op_stat = Inr (False, int (length b)), op_data = b, op_error = None \<rparr>),
     re_parse = (\<lambda>p. Inr ex_release_manifest), re_sha256 = (\<lambda>b. take 32 (b @ replicate 32 CHR 0x00)), re_verify = toy_verify,
     re_json = (\<lambda>m. Some (man_version m)), re_trusted = EncodeKey ex_pub \<rparr>"

lemma ex_release_signed:
  "VerifyJSON toy_verify (\<lambda>m. Some (man_version m)) (EncodeKey ex_pub) ex_release_manifest ex_release_signature = None"
  by (rule toy_verified [where m = "''v0.2.0''"]) (simp_all add: ex_release_manifest_def ex_release_signature_def)

lemma ex_release_digest:
  "equal_fold (hex_encode (take 32 (''elf'' @ replicate 32 CHR 0x00))) (''656c66'' @ replicate 58 CHR ''0'')"
proof -
  have "hex_encode (take 32 (''elf'' @ replicate 32 CHR 0x00)) = ''656c66'' @ replicate 58 CHR ''0''" by code_simp
  then show ?thesis by (simp only: equal_fold_def)
qed

lemma ex_release: "nodeReleaseUncached ex_release_env = \<lparr> srl_manifest = ex_release_manifest,
    srl_signature = ex_release_signature, srl_key_id = EncodeKey ex_pub, srl_enabled = True, srl_reason = [] \<rparr>"
proof -
  have t: "trim_space ex_release_signature = ex_release_signature" "trim_space (EncodeKey ex_pub) = EncodeKey ex_pub"
    "ex_release_signature \<noteq> []" "ex_pub \<noteq> []"
    by (simp_all add: ex_release_signature_def ex_pub_def)
  have len: "length ex_release_signature = 86" "length (EncodeKey ex_pub) = 43" "trim_space ''d'' = ''d''" by code_simp+
  have n: "normalizeNodeBinaryTarget ''linux'' ''amd64'' = Inr (''linux'', ''amd64'')" by code_simp
  have m: "man_artifacts ex_release_manifest =
      [\<lparr> art_os = ''linux'', art_arch = ''amd64'', art_sha256 = ''656c66'' @ replicate 58 CHR ''0'', art_size = 3 \<rparr>]"
    by (simp add: ex_release_manifest_def)
  have "verify_artifact ex_release_env
      \<lparr> art_os = ''linux'', art_arch = ''amd64'', art_sha256 = ''656c66'' @ replicate 58 CHR ''0'', art_size = 3 \<rparr> = None"
    using ex_release_digest by (simp add: verify_artifact_def n nodeReleaseArtifact_def binary_path_def read_limited_def
        maxNodeReleaseArtifactBytes_def ex_release_env_def ex_release_files_def Let_def)
  then have v: "verifyNodeReleaseArtifacts ex_release_env ex_release_manifest = None"
    by (simp add: verifyNodeReleaseArtifacts_def m first_err.simps)
  note rd = readNodeReleaseFile_def read_limited_def maxNodeReleaseManifestBytes_def maxNodeReleaseMetadataBytes_def
  have fl: "nodeReleaseManifest ex_release_env = Inr ex_release_manifest"
    "readTrimmedFile ex_release_env ''d/node-release-manifest.sig'' x = Inr ex_release_signature"
    "readTrimmedFile ex_release_env ''d/node-release-public.key'' x = Inr (EncodeKey ex_pub)" for x
    by (simp_all add: nodeReleaseManifest_def readTrimmedFile_def rd t len ex_release_env_def ex_release_files_def)
  have env: "re_dir ex_release_env = ''d''" "re_join ex_release_env d f = d @ ''/'' @ f" "re_verify ex_release_env = toy_verify"
    "re_json ex_release_env = (\<lambda>m. Some (man_version m))" "re_trusted ex_release_env = EncodeKey ex_pub" for d f
    by (simp_all add: ex_release_env_def)
  show ?thesis
    by (simp add: nodeReleaseUncached_def fl env v t len m ex_release_signed Let_def)
qed

lemma ex_release_enabled: "srl_enabled (nodeReleaseUncached ex_release_env)"
  by (simp add: ex_release)

theorem offered_release_genuine_witness:
  "\<exists>art bytes. art \<in> set (man_artifacts (srl_manifest (nodeReleaseUncached ex_release_env))) \<and>
     bundled ex_release_env art bytes"
  using offered_release_genuine [OF ex_release_enabled] by (meson list.set_sel(1))

end
