(* ===== verification/UdpSessions.thy ===== *)
theory UdpSessions
  imports Prelude
begin

text \<open>
  internal/node/relay/udp_sessions.go: the table that keeps the datagrams of a UDP session on the
  node or target chosen for its first one.  Entries idle for longer than the timeout are dropped
  when they are looked up or swept; a full table drops its longest idle entry for a new one.

  The scan for the oldest entry is shared with the login limiter, whose loop has the same shape.
  The locale \<open>session_cache\<close> is the contract the dialling code relies on.
\<close>

section \<open>The oldest entry of a table\<close>

text \<open>The loop over the map, with the two variables \<open>oldestKey\<close> and \<open>oldest\<close>; an empty
  \<open>oldestKey\<close> stands for none found yet.\<close>

fun oldest_scan :: "('v \<Rightarrow> time) \<Rightarrow> string \<Rightarrow> time \<Rightarrow> (string \<times> 'v) list \<Rightarrow> string" where
  "oldest_scan stamp oldestKey oldest [] = oldestKey"
| "oldest_scan stamp oldestKey oldest ((key, v) # rest) =
    (if oldestKey = '''' \<or> stamp v < oldest then oldest_scan stamp key (stamp v) rest
     else oldest_scan stamp oldestKey oldest rest)"

definition evict_oldest :: "('v \<Rightarrow> time) \<Rightarrow> (string \<times> 'v) list \<Rightarrow> (string \<times> 'v) list" where
  "evict_oldest stamp m =
    (let key = oldest_scan stamp '''' zero_time m in if key \<noteq> '''' then AList.delete key m else m)"

lemma oldest_scan_min:
  "key \<noteq> '''' \<Longrightarrow> '''' \<notin> fst ` set m \<Longrightarrow> distinct (key # map fst m) \<Longrightarrow>
   \<exists>v. (oldest_scan stamp key (stamp w) m, v) \<in> set ((key, w) # m) \<and>
     (\<forall>(k, u)\<in>set ((key, w) # m). stamp v \<le> stamp u)"
proof (induction m arbitrary: key w)
  case Nil
  then show ?case by auto
next
  case (Cons e m)
  obtain k u where e: "e = (k, u)" by (cases e)
  show ?case
  proof (cases "stamp u < stamp w")
    case True
    from Cons.IH [of k u] Cons.prems e obtain v where
      "(oldest_scan stamp k (stamp u) m, v) \<in> set ((k, u) # m)"
      "\<forall>(k, u)\<in>set ((k, u) # m). stamp v \<le> stamp u" by auto
    with True Cons.prems e show ?thesis by (intro exI [of _ v]) auto
  next
    case False
    from Cons.IH [of key w] Cons.prems e obtain v where
      "(oldest_scan stamp key (stamp w) m, v) \<in> set ((key, w) # m)"
      "\<forall>(k, u)\<in>set ((key, w) # m). stamp v \<le> stamp u" by auto
    with False Cons.prems e show ?thesis by (intro exI [of _ v]) auto
  qed
qed

text \<open>Evicting from a table whose keys are not empty drops one entry no younger than any other.\<close>

lemma evict_oldest_spec:
  assumes "keys_ok m" and "'''' \<notin> fst ` set m" and "m \<noteq> []"
  shows "\<exists>k v. (k, v) \<in> set m \<and> (\<forall>(j, w)\<in>set m. stamp v \<le> stamp w) \<and>
    evict_oldest stamp m = AList.delete k m"
proof -
  obtain k w r where m: "m = (k, w) # r" using assms(3) by (cases m) auto
  then have k: "k \<noteq> ''''" using assms(2) by auto
  obtain v where v: "(oldest_scan stamp k (stamp w) r, v) \<in> set ((k, w) # r)"
      "\<forall>(k, u)\<in>set ((k, w) # r). stamp v \<le> stamp u"
    using oldest_scan_min [of k r stamp w] assms k m by auto
  moreover have "oldest_scan stamp '''' zero_time m = oldest_scan stamp k (stamp w) r"
    by (simp add: m)
  moreover have "oldest_scan stamp k (stamp w) r \<noteq> ''''"
    using v(1) assms(2) m by force
  ultimately show ?thesis
    by (intro exI [of _ "oldest_scan stamp k (stamp w) r"] exI [of _ v])
      (auto simp: evict_oldest_def m [symmetric])
qed

lemma length_evict:
  "keys_ok m \<Longrightarrow> '''' \<notin> fst ` set m \<Longrightarrow> m \<noteq> [] \<Longrightarrow> Suc (length (evict_oldest stamp m)) = length m"
  using evict_oldest_spec [of m stamp] length_delete_in [of m] by force

lemma keys_ok_evict [simp]: "keys_ok m \<Longrightarrow> keys_ok (evict_oldest stamp m)"
  by (simp add: evict_oldest_def Let_def keys_ok_delete)

lemma delete_keys: "set (AList.delete k m) \<subseteq> set m"
  by (induction m) auto

lemma keys_evict: "fst ` set (evict_oldest stamp m) \<subseteq> fst ` set m"
proof -
  have "fst ` set (AList.delete k m) \<subseteq> fst ` set m" for k
    by (intro image_mono delete_keys)
  then show ?thesis by (simp add: evict_oldest_def Let_def)
qed

section \<open>The session table\<close>

definition udpSessionIdleTimeout :: duration where "udpSessionIdleTimeout = 120 * second"
definition udpSessionGCInterval :: duration where "udpSessionGCInterval = 30 * second"
definition maxUDPSessionEntries :: int where "maxUDPSessionEntries = 100000"

record udp_session =
  us_node :: string
  us_index :: int
  us_created :: time
  us_seen :: time

record udp_sessions =
  uss_idle :: duration
  uss_gc :: duration
  uss_max :: int
  uss_map :: "(string \<times> udp_session) list"

definition newUDPCandidateSessions :: udp_sessions where
  "newUDPCandidateSessions = \<lparr> uss_idle = udpSessionIdleTimeout, uss_gc = udpSessionGCInterval,
     uss_max = maxUDPSessionEntries, uss_map = [] \<rparr>"

definition idle_timeout :: "udp_sessions \<Rightarrow> duration" where
  "idle_timeout s = (if uss_idle s \<le> 0 then udpSessionIdleTimeout else uss_idle s)"

definition expiredLocked :: "udp_sessions \<Rightarrow> udp_session \<Rightarrow> time \<Rightarrow> bool" where
  "expiredLocked s session now \<longleftrightarrow>
     us_seen session \<noteq> zero_time \<and> time_sub now (us_seen session) > idle_timeout s"

definition sessions_get :: "string \<Rightarrow> time \<Rightarrow> udp_sessions \<Rightarrow> udp_session option \<times> udp_sessions" where
  "sessions_get key now s =
    (case map_of (uss_map s) key of
       None \<Rightarrow> (None, s)
     | Some session \<Rightarrow>
         if expiredLocked s session now then (None, s\<lparr> uss_map := AList.delete key (uss_map s) \<rparr>)
         else (let session' = session\<lparr> us_seen := now \<rparr>
               in (Some session', s\<lparr> uss_map := AList.update key session' (uss_map s) \<rparr>)))"

definition sessions_bind :: "string \<Rightarrow> int \<Rightarrow> string \<Rightarrow> time \<Rightarrow> udp_sessions \<Rightarrow> udp_sessions" where
  "sessions_bind key candidateIndex candidateNodeID now s =
    (case map_of (uss_map s) key of
       Some existing \<Rightarrow>
         s\<lparr> uss_map := AList.update key
              (existing\<lparr> us_index := candidateIndex, us_node := candidateNodeID, us_seen := now \<rparr>)
              (uss_map s) \<rparr>
     | None \<Rightarrow>
         (let limit = (if uss_max s \<le> 0 then maxUDPSessionEntries else uss_max s);
              m = (if int (length (uss_map s)) \<ge> limit then evict_oldest us_seen (uss_map s)
                   else uss_map s)
          in s\<lparr> uss_map := AList.update key
                 \<lparr> us_node = candidateNodeID, us_index = candidateIndex, us_created = now, us_seen = now \<rparr> m \<rparr>))"

definition sessions_delete :: "string \<Rightarrow> udp_sessions \<Rightarrow> udp_sessions" where
  "sessions_delete key s = s\<lparr> uss_map := AList.delete key (uss_map s) \<rparr>"

definition sessions_clear :: "udp_sessions \<Rightarrow> udp_sessions" where
  "sessions_clear s = s\<lparr> uss_map := [] \<rparr>"

definition sessions_gc :: "time \<Rightarrow> udp_sessions \<Rightarrow> udp_sessions" where
  "sessions_gc now s =
     s\<lparr> uss_map := filter (\<lambda>(key, session). \<not> expiredLocked s session now) (uss_map s) \<rparr>"

text \<open>The sweeps of \<open>gcLoop\<close>, one per tick until the context ends.\<close>

fun gcLoop :: "time list \<Rightarrow> udp_sessions \<Rightarrow> udp_sessions" where
  "gcLoop [] s = s"
| "gcLoop (now # ticks) s = gcLoop ticks (sessions_gc now s)"

section \<open>The contract of a session table\<close>

datatype cache_op = CGet string time | CSweep time

fun cache_op_time :: "cache_op \<Rightarrow> time" where
  "cache_op_time (CGet k t) = t"
| "cache_op_time (CSweep t) = t"

text \<open>Starting from the instant t of its last use, no two uses of the key are more than d apart,
  up to the instant e.\<close>

fun kept_warm :: "string \<Rightarrow> duration \<Rightarrow> time \<Rightarrow> cache_op list \<Rightarrow> bool" where
  "kept_warm key d t [] = True"
| "kept_warm key d t (CGet k u # ops) =
    (t \<le> u \<and> u \<le> t + d \<and> kept_warm key d (if k = key then u else t) ops)"
| "kept_warm key d t (CSweep u # ops) = (t \<le> u \<and> u \<le> t + d \<and> kept_warm key d t ops)"

text \<open>What the lookups of one key answer along a run.\<close>

fun answers :: "(string \<Rightarrow> time \<Rightarrow> 's \<Rightarrow> 'v \<times> 's) \<Rightarrow> (time \<Rightarrow> 's \<Rightarrow> 's) \<Rightarrow> string \<Rightarrow>
    cache_op list \<Rightarrow> 's \<Rightarrow> 'v list" where
  "answers get sweep key [] s = []"
| "answers get sweep key (CGet k u # ops) s =
    (let (v, s') = get k u s in (if k = key then [v] else []) @ answers get sweep key ops s')"
| "answers get sweep key (CSweep u # ops) s = answers get sweep key ops (sweep u s)"

locale session_cache =
  fixes value_at :: "time \<Rightarrow> string \<Rightarrow> 's \<Rightarrow> (int \<times> string) option"
    and get :: "string \<Rightarrow> time \<Rightarrow> 's \<Rightarrow> (int \<times> string) option \<times> 's"
    and bind :: "string \<Rightarrow> int \<Rightarrow> string \<Rightarrow> time \<Rightarrow> 's \<Rightarrow> 's"
    and del :: "string \<Rightarrow> 's \<Rightarrow> 's"
    and sweep :: "time \<Rightarrow> 's \<Rightarrow> 's"
    and idle :: "'s \<Rightarrow> duration"
    and ok :: "'s \<Rightarrow> bool"
  assumes get_value: "fst (get k t s) = value_at t k s"
    and value_after_hit: "ok s \<Longrightarrow> value_at t k s = Some v \<Longrightarrow> t \<le> u \<Longrightarrow> u \<le> t + idle s \<Longrightarrow>
      value_at u k (snd (get k t s)) = Some v"
    and value_other_get: "j \<noteq> k \<Longrightarrow> value_at u j (snd (get k t s)) = value_at u j s"
    and value_bind: "ok s \<Longrightarrow> t \<le> u \<Longrightarrow> u \<le> t + idle s \<Longrightarrow> value_at u k (bind k i n t s) = Some (i, n)"
    and value_del: "value_at u k (del k s) = None"
    and value_other_del: "j \<noteq> k \<Longrightarrow> value_at u j (del k s) = value_at u j s"
    and value_sweep: "ok s \<Longrightarrow> t \<le> u \<Longrightarrow> value_at u j (sweep t s) = value_at u j s"
    and idle_ops: "idle (snd (get k t s)) = idle s" "idle (bind k i n t s) = idle s"
      "idle (del k s) = idle s" "idle (sweep t s) = idle s"
    and ok_ops: "ok s \<Longrightarrow> ok (snd (get k t s))" "ok s \<Longrightarrow> ok (bind k i n t s)"
      "ok s \<Longrightarrow> ok (del k s)" "ok s \<Longrightarrow> ok (sweep t s)"
begin

lemma sticky:
  assumes "\<forall>w. c \<le> w \<longrightarrow> w \<le> t + idle s \<longrightarrow> value_at w key s = Some v"
    and "ok s" and "kept_warm key (idle s) t ops" and "sorted (c # map cache_op_time ops)"
  shows "set (answers get sweep key ops s) \<subseteq> {Some v}"
  using assms
proof (induction ops arbitrary: s t c)
  case Nil
  then show ?case by simp
next
  case (Cons op ops)
  show ?case
  proof (cases op)
    case (CGet k u)
    let ?s = "snd (get k u s)"
    from CGet Cons.prems have u: "c \<le> u" "t \<le> u" "u \<le> t + idle s" by auto
    then have here: "value_at u key s = Some v" using Cons.prems(1) by blast
    have "\<forall>w. u \<le> w \<longrightarrow> w \<le> (if k = key then u else t) + idle ?s \<longrightarrow> value_at w key ?s = Some v"
      using value_after_hit [OF Cons.prems(2) here] value_other_get [of key k] Cons.prems(1) u
      by (auto simp: idle_ops)
    then have "set (answers get sweep key ops ?s) \<subseteq> {Some v}"
      using Cons.prems CGet by (intro Cons.IH) (auto simp: idle_ops ok_ops)
    then show ?thesis using CGet here get_value [of k u s] by (auto simp: split_beta)
  next
    case (CSweep u)
    from CSweep Cons.prems have u: "c \<le> u" by auto
    have "\<forall>w. u \<le> w \<longrightarrow> w \<le> t + idle (sweep u s) \<longrightarrow> value_at w key (sweep u s) = Some v"
      using Cons.prems(1,2) u by (auto simp: idle_ops value_sweep)
    then have "set (answers get sweep key ops (sweep u s)) \<subseteq> {Some v}"
      using Cons.prems CSweep by (intro Cons.IH) (auto simp: idle_ops ok_ops)
    then show ?thesis using CSweep by simp
  qed
qed

end

section \<open>The table keeps the contract\<close>

definition session_value :: "udp_session \<Rightarrow> int \<times> string" where
  "session_value x = (us_index x, us_node x)"

definition session_at :: "time \<Rightarrow> string \<Rightarrow> udp_sessions \<Rightarrow> (int \<times> string) option" where
  "session_at now key s = (case map_of (uss_map s) key of None \<Rightarrow> None
     | Some x \<Rightarrow> if expiredLocked s x now then None else Some (session_value x))"

lemma expired_iff:
  "idle_timeout s < max_duration \<Longrightarrow> expiredLocked s x now \<longleftrightarrow>
     us_seen x \<noteq> zero_time \<and> us_seen x + idle_timeout s < now"
  using time_sub_gt [of "idle_timeout s" now "us_seen x"]
  by (auto simp: expiredLocked_def idle_timeout_def udpSessionIdleTimeout_def duration_defs
      split: if_splits)

text \<open>The contract is stated for tables with distinct keys and a timeout that is no sentinel.\<close>

definition sessions_ok :: "udp_sessions \<Rightarrow> bool" where
  "sessions_ok s \<longleftrightarrow> keys_ok (uss_map s) \<and> idle_timeout s < max_duration"

lemma idle_timeout_upd [simp]: "idle_timeout (s\<lparr> uss_map := m \<rparr>) = idle_timeout s"
  by (simp add: idle_timeout_def)

lemma expired_upd [simp]: "expiredLocked (s\<lparr> uss_map := m \<rparr>) = expiredLocked s"
  by (intro ext) (simp add: expiredLocked_def)

lemma idle_timeout_ops [simp]:
  "idle_timeout (snd (sessions_get k t s)) = idle_timeout s"
  "idle_timeout (sessions_bind k i n t s) = idle_timeout s"
  "idle_timeout (sessions_delete k s) = idle_timeout s"
  "idle_timeout (sessions_gc t s) = idle_timeout s"
  by (auto simp: sessions_get_def sessions_bind_def sessions_delete_def sessions_gc_def Let_def
      split: option.splits)

lemma sessions_ok_ops [simp]:
  "sessions_ok s \<Longrightarrow> sessions_ok (snd (sessions_get k t s))"
  "sessions_ok s \<Longrightarrow> sessions_ok (sessions_bind k i n t s)"
  "sessions_ok s \<Longrightarrow> sessions_ok (sessions_delete k s)"
  "sessions_ok s \<Longrightarrow> sessions_ok (sessions_gc t s)"
  by (auto simp: sessions_ok_def sessions_get_def sessions_bind_def sessions_delete_def
      sessions_gc_def Let_def keys_ok_update keys_ok_delete keys_ok_filter split: option.splits)

lemma expired_ok:
  "sessions_ok s \<Longrightarrow> expiredLocked s x now \<longleftrightarrow>
     us_seen x \<noteq> zero_time \<and> us_seen x + idle_timeout s < now"
  by (simp add: sessions_ok_def expired_iff)

definition sessions_get_value :: "string \<Rightarrow> time \<Rightarrow> udp_sessions \<Rightarrow> (int \<times> string) option \<times> udp_sessions" where
  "sessions_get_value key now s = map_prod (map_option session_value) id (sessions_get key now s)"

lemma map_of_filter_expired:
  "keys_ok (uss_map s) \<Longrightarrow> map_of (uss_map (sessions_gc t s)) k =
     (case map_of (uss_map s) k of None \<Rightarrow> None
      | Some x \<Rightarrow> if expiredLocked s x t then None else Some x)"
  by (simp add: sessions_gc_def map_of_filter_keys_ok split: option.splits)

interpretation udp_cache: session_cache session_at sessions_get_value sessions_bind sessions_delete
  sessions_gc idle_timeout sessions_ok
proof unfold_locales
  fix t u :: time and k j n :: string and i :: int and s and v
  show "fst (sessions_get_value k t s) = session_at t k s"
    by (auto simp: sessions_get_value_def sessions_get_def session_at_def session_value_def Let_def
        split: option.splits)
  show "session_at u k (snd (sessions_get_value k t s)) = Some v"
    if "sessions_ok s" "session_at t k s = Some v" "t \<le> u" "u \<le> t + idle_timeout s"
    using that
    by (auto simp: sessions_get_value_def sessions_get_def session_at_def session_value_def Let_def
        expired_ok map_simps split: option.splits if_splits)
  show "session_at u j (snd (sessions_get_value k t s)) = session_at u j s" if "j \<noteq> k"
    using that
    by (auto simp: sessions_get_value_def sessions_get_def session_at_def Let_def map_simps
        split: option.splits)
  show "session_at u k (sessions_bind k i n t s) = Some (i, n)"
    if "sessions_ok s" "t \<le> u" "u \<le> t + idle_timeout s"
    using that
    by (auto simp: sessions_bind_def session_at_def session_value_def Let_def expired_ok
        map_simps split: option.splits)
  show "session_at u k (sessions_delete k s) = None"
    by (simp add: sessions_delete_def session_at_def map_simps)
  show "session_at u j (sessions_delete k s) = session_at u j s" if "j \<noteq> k"
    using that by (simp add: sessions_delete_def session_at_def map_simps split: option.splits)
  show "session_at u j (sessions_gc t s) = session_at u j s" if "sessions_ok s" "t \<le> u"
    using that map_of_filter_expired [of s t j] idle_timeout_ops(4) [of t s]
    by (auto simp: session_at_def sessions_ok_def [of s] expired_iff split: option.splits)
qed (auto simp: sessions_get_value_def)

text \<open>The bound of the table; a binding of another key below it leaves a session in place.\<close>

definition session_limit :: "udp_sessions \<Rightarrow> int" where
  "session_limit s = (if uss_max s \<le> 0 then maxUDPSessionEntries else uss_max s)"

lemma session_limit_ops [simp]:
  "session_limit (snd (sessions_get k t s)) = session_limit s"
  "session_limit (sessions_bind k i n t s) = session_limit s"
  "session_limit (sessions_delete k s) = session_limit s"
  "session_limit (sessions_gc t s) = session_limit s"
  by (auto simp: session_limit_def sessions_get_def sessions_bind_def sessions_delete_def
      sessions_gc_def Let_def split: option.splits)

lemma sessions_bind_room:
  assumes "int (length (uss_map s)) < session_limit s" and "map_of (uss_map s) k = None"
  shows "sessions_bind k i n t s = s\<lparr> uss_map := AList.update k
    \<lparr> us_node = n, us_index = i, us_created = t, us_seen = t \<rparr> (uss_map s) \<rparr>"
  using assms
  by (cases "uss_max s \<le> 0") (simp_all add: sessions_bind_def session_limit_def)

lemma sessions_bind_present:
  "map_of (uss_map s) k = Some x \<Longrightarrow> sessions_bind k i n t s = s\<lparr> uss_map := AList.update k
    (x\<lparr> us_index := i, us_node := n, us_seen := t \<rparr>) (uss_map s) \<rparr>"
  by (simp add: sessions_bind_def)

lemma session_at_bind_other:
  "j \<noteq> k \<Longrightarrow> int (length (uss_map s)) < session_limit s \<Longrightarrow>
     session_at u j (sessions_bind k i n t s) = session_at u j s"
  by (cases "map_of (uss_map s) k")
    (simp_all add: sessions_bind_room sessions_bind_present session_at_def map_simps split: option.splits)

lemma length_update_le: "length (AList.update k v m) \<le> Suc (length m)"
  by (induction m) auto

lemma length_update_present: "map_of m k = Some w \<Longrightarrow> length (AList.update k v m) = length m"
  by (induction m) auto

lemma sessions_size:
  "length (uss_map (snd (sessions_get k t s))) \<le> length (uss_map s)"
  "length (uss_map (sessions_delete k s)) \<le> length (uss_map s)"
  "length (uss_map (sessions_gc t s)) \<le> length (uss_map s)"
  by (auto simp: sessions_get_def sessions_delete_def sessions_gc_def Let_def length_delete_le
      length_update_present split: option.splits)

lemma sessions_size_bind:
  "int (length (uss_map s)) < session_limit s \<Longrightarrow>
     length (uss_map (sessions_bind k i n t s)) \<le> Suc (length (uss_map s))"
  by (cases "map_of (uss_map s) k")
    (simp_all add: sessions_bind_room sessions_bind_present length_update_le length_update_present)

text \<open>once a session is bound to a candidate, and as long as it is used again within the idle
  timeout, every lookup gives that candidate, whatever other sessions are looked up and however often
  the table is swept in between.\<close>

theorem udp_session_sticky:
  assumes "sessions_ok s" and "kept_warm key (idle_timeout s) t ops"
    and "sorted (t # map cache_op_time ops)"
  shows "set (answers sessions_get_value sessions_gc key ops (sessions_bind key i n t s)) \<subseteq> {Some (i, n)}"
  using assms by (intro udp_cache.sticky [where c = t and t = t]) (simp_all add: udp_cache.value_bind)

theorem udp_session_sticky_witness:
  "set (answers sessions_get_value sessions_gc ''k''
      [CGet ''k'' (200 * second), CSweep (210 * second), CGet ''j'' (215 * second), CGet ''k'' (320 * second)]
      (sessions_bind ''k'' 2 ''n'' (100 * second) newUDPCandidateSessions)) \<subseteq> {Some (2, ''n'')}"
  by (rule udp_session_sticky)
    (simp_all add: sessions_ok_def newUDPCandidateSessions_def idle_timeout_def
      udpSessionIdleTimeout_def duration_defs)

section \<open>The table is bounded\<close>

datatype session_op =
    SGet string time
  | SBind string int string time
  | SDelete string
  | SClear
  | SGc time

fun session_step :: "session_op \<Rightarrow> udp_sessions \<Rightarrow> udp_sessions" where
  "session_step (SGet k t) s = snd (sessions_get k t s)"
| "session_step (SBind k i n t) s = sessions_bind k i n t s"
| "session_step (SDelete k) s = sessions_delete k s"
| "session_step SClear s = sessions_clear s"
| "session_step (SGc t) s = sessions_gc t s"

fun bound_key :: "session_op \<Rightarrow> string option" where
  "bound_key (SBind k i n t) = Some k"
| "bound_key _ = None"

definition table_inv :: "int \<Rightarrow> udp_sessions \<Rightarrow> bool" where
  "table_inv limit s \<longleftrightarrow> keys_ok (uss_map s) \<and> '''' \<notin> fst ` set (uss_map s) \<and>
     int (length (uss_map s)) \<le> limit \<and> 0 < limit \<and>
     limit = (if uss_max s \<le> 0 then maxUDPSessionEntries else uss_max s)"

lemma map_of_in_keys: "map_of m k = Some v \<Longrightarrow> k \<in> fst ` set m"
  by (force dest: map_of_SomeD)

lemma keys_update: "fst ` set (AList.update k v m) = insert k (fst ` set m)"
  by (induction m) auto

lemma table_inv_update:
  "table_inv l s \<Longrightarrow> map_of (uss_map s) k = Some v \<Longrightarrow> table_inv l (s\<lparr> uss_map := AList.update k w (uss_map s) \<rparr>)"
  using map_of_in_keys [of "uss_map s" k v]
  by (auto simp: table_inv_def keys_ok_update length_update_in keys_update)

lemma table_inv_shrink:
  "table_inv l s \<Longrightarrow> keys_ok m \<Longrightarrow> set m \<subseteq> set (uss_map s) \<Longrightarrow> length m \<le> length (uss_map s) \<Longrightarrow>
   table_inv l (s\<lparr> uss_map := m \<rparr>)"
  by (auto simp: table_inv_def)

lemma table_inv_delete:
  "table_inv l s \<Longrightarrow> table_inv l (s\<lparr> uss_map := AList.delete k (uss_map s) \<rparr>)"
  by (rule table_inv_shrink) (auto simp: delete_keys length_delete_le table_inv_def intro: keys_ok_delete)

lemma table_inv_bind:
  assumes inv: "table_inv l s" and k: "k \<noteq> ''''"
  shows "table_inv l (sessions_bind k i n t s)"
proof (cases "map_of (uss_map s) k")
  case (Some v)
  then show ?thesis using table_inv_update [OF inv Some] by (simp add: sessions_bind_def)
next
  case None
  then have new: "k \<notin> fst ` set (uss_map s)" by (simp add: map_of_eq_None_iff)
  let ?full = "l \<le> int (length (uss_map s))"
  define m where "m = (if ?full then evict_oldest us_seen (uss_map s) else uss_map s)"
  have l: "(if uss_max s \<le> 0 then maxUDPSessionEntries else uss_max s) = l"
    using inv by (simp add: table_inv_def)
  have "int (length m) < l"
  proof (cases ?full)
    case True
    then have "uss_map s \<noteq> []" using inv by (auto simp: table_inv_def)
    then have "Suc (length (evict_oldest us_seen (uss_map s))) = length (uss_map s)"
      using inv length_evict [of "uss_map s" us_seen] by (simp add: table_inv_def)
    then show ?thesis using True inv by (simp add: table_inv_def m_def)
  qed (simp add: m_def)
  moreover have "fst ` set m \<subseteq> fst ` set (uss_map s)"
    using keys_evict [of us_seen "uss_map s"] by (simp add: m_def)
  then have "k \<notin> fst ` set m" and no: "'''' \<notin> fst ` set m"
    using new inv unfolding table_inv_def by blast+
  then have "length (AList.update k v m) = Suc (length m)" for v by (intro length_update_notin)
  moreover have "keys_ok m" using inv by (simp add: table_inv_def m_def)
  moreover have "sessions_bind k i n t s = s\<lparr> uss_map := AList.update k
      \<lparr> us_node = n, us_index = i, us_created = t, us_seen = t \<rparr> m \<rparr>"
    by (simp add: sessions_bind_def None Let_def l m_def)
  ultimately show ?thesis
    using inv k no by (simp add: table_inv_def keys_ok_update keys_update)
qed

lemma table_inv_step:
  "table_inv l s \<Longrightarrow> bound_key op \<noteq> Some '''' \<Longrightarrow> table_inv l (session_step op s)"
proof (induction op)
  case (SGet k t)
  then show ?case
    using table_inv_update [of l s k] table_inv_delete [of l s k]
    by (auto simp: sessions_get_def Let_def split: option.splits)
next
  case (SBind k i n t)
  then show ?case by (simp add: table_inv_bind)
next
  case (SDelete k)
  then show ?case by (simp add: sessions_delete_def table_inv_delete)
next
  case SClear
  then show ?case by (auto simp: sessions_clear_def table_inv_def)
next
  case (SGc t)
  then show ?case
    unfolding session_step.simps sessions_gc_def
    by (intro table_inv_shrink) (auto simp: table_inv_def keys_ok_filter)
qed

text \<open>whatever is looked up, bound, dropped or swept, a session table never holds more than
  100000 entries, nor two for one session.\<close>

theorem udp_sessions_bounded:
  assumes "\<forall>op\<in>set ops. bound_key op \<noteq> Some ''''"
  shows "length (uss_map (fold session_step ops newUDPCandidateSessions)) \<le> 100000 \<and>
    keys_ok (uss_map (fold session_step ops newUDPCandidateSessions))"
proof -
  have "table_inv l s \<Longrightarrow> table_inv l (fold session_step ops s)" for l s
    using assms by (induction ops arbitrary: s) (auto intro: table_inv_step)
  moreover have "table_inv 100000 newUDPCandidateSessions"
    by (simp add: table_inv_def newUDPCandidateSessions_def maxUDPSessionEntries_def)
  ultimately have "table_inv 100000 (fold session_step ops newUDPCandidateSessions)" by blast
  then show ?thesis by (simp add: table_inv_def)
qed

theorem udp_sessions_bounded_witness:
  "length (uss_map (fold session_step [SBind ''a'' 0 ''n'' 1, SBind ''b'' 1 ''m'' 2, SGet ''a'' 3]
      newUDPCandidateSessions)) \<le> 100000"
  using udp_sessions_bounded [of "[SBind ''a'' 0 ''n'' 1, SBind ''b'' 1 ''m'' 2, SGet ''a'' 3]"] by simp

end
