(* ===== verification/Limiter.thy ===== *)
theory Limiter
  imports UdpSessions
begin

text \<open>
  internal/controller/auth/ratelimit.go: the login limiter of the controller, keyed by client
  address and user name.  \<open>time.Now()\<close> is an argument.

  The theorem is a refinement: as long as the table has room for every key that fails, the limiter
  answers for a key exactly as a limiter that saw the calls for that key alone, so that pruning,
  the bound and other keys never show.  From the one-key limiter the lockout times are read off.
\<close>

definition loginAttemptTTL :: duration where "loginAttemptTTL = 15 * minute"
definition maxLoginEntries :: nat where "maxLoginEntries = 10000"

record attempt =
  at_count :: int
  at_blocked :: time
  at_updated :: time

type_synonym limiter = "(string \<times> attempt) list"

definition zero_attempt :: attempt where
  "zero_attempt = \<lparr> at_count = 0, at_blocked = zero_time, at_updated = zero_time \<rparr>"

definition attempt_of :: "limiter \<Rightarrow> string \<Rightarrow> attempt" where
  "attempt_of l key = (case map_of l key of None \<Rightarrow> zero_attempt | Some a \<Rightarrow> a)"

definition stale :: "time \<Rightarrow> attempt \<Rightarrow> bool" where
  "stale now a \<longleftrightarrow> time_sub now (at_updated a) > loginAttemptTTL \<and>
     (at_blocked a = zero_time \<or> \<not> now < at_blocked a)"

definition limiter_prune :: "time \<Rightarrow> limiter \<Rightarrow> limiter" where
  "limiter_prune now l = filter (\<lambda>(key, a). \<not> stale now a) l"

definition limiter_evict :: "limiter \<Rightarrow> limiter" where
  "limiter_evict l = evict_oldest at_updated l"

definition open_attempt :: "time \<Rightarrow> attempt \<Rightarrow> bool" where
  "open_attempt now a \<longleftrightarrow> \<not> (at_blocked a \<noteq> zero_time \<and> now < at_blocked a)"

definition Allow :: "time \<Rightarrow> string \<Rightarrow> limiter \<Rightarrow> bool \<times> limiter" where
  "Allow now key l = (let l1 = limiter_prune now l in (open_attempt now (attempt_of l1 key), l1))"

definition failed_attempt :: "time \<Rightarrow> attempt \<Rightarrow> attempt" where
  "failed_attempt now a =
    (let a1 = (if time_sub now (at_updated a) > loginAttemptTTL
               then a\<lparr> at_count := 0, at_blocked := zero_time \<rparr> else a);
         n = at_count a1 + 1
     in a1\<lparr> at_count := n, at_updated := now,
            at_blocked := (if n \<ge> 5 then now + wrap64 ((n - 4) * minute) else at_blocked a1) \<rparr>)"

definition Fail :: "time \<Rightarrow> string \<Rightarrow> limiter \<Rightarrow> limiter" where
  "Fail now key l =
    (let l1 = limiter_prune now l;
         l2 = (if map_of l1 key = None \<and> length l1 \<ge> maxLoginEntries then limiter_evict l1 else l1)
     in AList.update key (failed_attempt now (attempt_of l2 key)) l2)"

definition Success :: "string \<Rightarrow> limiter \<Rightarrow> limiter" where
  "Success key l = AList.delete key l"

section \<open>One key\<close>

datatype login_op = LAllow time string | LFail time string | LSuccess time string

fun login_time :: "login_op \<Rightarrow> time" where
  "login_time (LAllow t k) = t"
| "login_time (LFail t k) = t"
| "login_time (LSuccess t k) = t"

fun failing_key :: "login_op \<Rightarrow> string option" where
  "failing_key (LFail t k) = Some k"
| "failing_key _ = None"

fun limiter_step :: "login_op \<Rightarrow> limiter \<Rightarrow> limiter" where
  "limiter_step (LAllow t k) l = snd (Allow t k l)"
| "limiter_step (LFail t k) l = Fail t k l"
| "limiter_step (LSuccess t k) l = Success k l"

text \<open>A limiter that remembers one key, for ever.\<close>

fun key_step :: "string \<Rightarrow> login_op \<Rightarrow> attempt \<Rightarrow> attempt" where
  "key_step key (LAllow t k) a = a"
| "key_step key (LFail t k) a = (if k = key then failed_attempt t a else a)"
| "key_step key (LSuccess t k) a = (if k = key then zero_attempt else a)"

text \<open>The entry of the table and the attempt of the one-key limiter agree, or the entry is gone and
  the attempt no longer matters.\<close>

definition agrees :: "time \<Rightarrow> limiter \<Rightarrow> string \<Rightarrow> attempt \<Rightarrow> bool" where
  "agrees now l key a \<longleftrightarrow> map_of l key = Some a \<or> map_of l key = None \<and> (stale now a \<or> a = zero_attempt)"

lemma ttl_bounds: "0 \<le> loginAttemptTTL" "loginAttemptTTL < max_duration"
  by (simp_all add: loginAttemptTTL_def duration_defs)

lemma stale_iff: "stale now a \<longleftrightarrow> at_updated a + loginAttemptTTL < now \<and> (at_blocked a = 0 \<or> at_blocked a \<le> now)"
  by (auto simp: stale_def time_sub_gt ttl_bounds zero_time_def)

lemma stale_mono: "stale t a \<Longrightarrow> t \<le> u \<Longrightarrow> stale u a"
  by (auto simp: stale_iff)

lemma stale_open: "stale t a \<Longrightarrow> open_attempt t a"
  by (auto simp: stale_iff open_attempt_def zero_time_def)

lemma open_zero: "open_attempt t zero_attempt"
  by (simp add: open_attempt_def zero_attempt_def)

lemma failed_stale: "stale t a \<Longrightarrow> failed_attempt t a = failed_attempt t zero_attempt"
  by (auto simp: stale_iff failed_attempt_def zero_attempt_def Let_def time_sub_gt ttl_bounds zero_time_def)

lemma map_of_prune:
  "keys_ok l \<Longrightarrow> map_of (limiter_prune t l) k = (case map_of l k of None \<Rightarrow> None
     | Some a \<Rightarrow> if stale t a then None else Some a)"
  by (simp add: limiter_prune_def map_of_filter_keys_ok split: option.splits)

lemma agrees_prune: "keys_ok l \<Longrightarrow> agrees t l key a \<Longrightarrow> t \<le> u \<Longrightarrow> agrees u (limiter_prune u l) key a"
proof -
  assume l: "keys_ok l" and a: "agrees t l key a" and t: "t \<le> u"
  have "map_of (limiter_prune u l) key = (case map_of l key of None \<Rightarrow> None
     | Some a \<Rightarrow> if stale u a then None else Some a)"
    using l by (rule map_of_prune)
  with a t show ?thesis
    unfolding agrees_def by (auto intro: stale_mono split: if_splits)
qed

lemma agrees_attempt:
  "agrees t l key a \<Longrightarrow> attempt_of l key = a \<or> attempt_of l key = zero_attempt \<and> (stale t a \<or> a = zero_attempt)"
  by (auto simp: agrees_def attempt_of_def)

lemma agrees_open: "agrees t l key a \<Longrightarrow> open_attempt t (attempt_of l key) = open_attempt t a"
  using agrees_attempt [of t l key a] stale_open [of t a] open_zero [of t] by auto

lemma agrees_failed: "agrees t l key a \<Longrightarrow> failed_attempt t (attempt_of l key) = failed_attempt t a"
  using agrees_attempt [of t l key a] failed_stale [of t a] by auto

lemma keys_ok_prune [simp]: "keys_ok l \<Longrightarrow> keys_ok (limiter_prune t l)"
  by (simp add: limiter_prune_def keys_ok_filter)

lemma prune_keys: "fst ` set (limiter_prune t l) \<subseteq> fst ` set l"
  by (auto simp: limiter_prune_def)

text \<open>The keys of the table are keys that failed.\<close>

definition table_within :: "string set \<Rightarrow> limiter \<Rightarrow> bool" where
  "table_within K l \<longleftrightarrow> keys_ok l \<and> fst ` set l \<subseteq> K"

lemma within_length: "table_within K l \<Longrightarrow> finite K \<Longrightarrow> length l \<le> card K"
  unfolding table_within_def by (metis card_mono distinct_card length_map list.set_map)

lemma within_new:
  "table_within K l \<Longrightarrow> finite K \<Longrightarrow> k \<in> K \<Longrightarrow> map_of l k = None \<Longrightarrow> length l < card K"
proof -
  assume a: "table_within K l" "finite K" "k \<in> K" "map_of l k = None"
  then have "table_within (K - {k}) l" by (auto simp: table_within_def map_of_eq_None_iff)
  with a have "length l \<le> card (K - {k})" by (intro within_length) auto
  also have "\<dots> < card K" using a by (intro card_Diff1_less) auto
  finally show ?thesis .
qed

lemma within_prune: "table_within K l \<Longrightarrow> table_within K (limiter_prune t l)"
  using prune_keys [of t l] by (auto simp: table_within_def)

lemma Fail_roomy:
  "table_within K l \<Longrightarrow> finite K \<Longrightarrow> k \<in> K \<Longrightarrow> card K \<le> maxLoginEntries \<Longrightarrow>
   Fail t k l = AList.update k (failed_attempt t (attempt_of (limiter_prune t l) k)) (limiter_prune t l)"
  using within_new [OF within_prune [of K l t], of k] by (auto simp: Fail_def Let_def)

lemma within_step:
  "table_within K l \<Longrightarrow> finite K \<Longrightarrow> card K \<le> maxLoginEntries \<Longrightarrow>
   (\<forall>k. failing_key op = Some k \<longrightarrow> k \<in> K) \<Longrightarrow> table_within K (limiter_step op l)"
proof (induction op)
  case (LAllow t k)
  then show ?case by (simp add: Allow_def Let_def within_prune)
next
  case (LFail t k)
  then have "k \<in> K" by simp
  with LFail within_prune [of K l t] show ?case
    by (simp add: Fail_roomy) (simp add: table_within_def keys_ok_update keys_update)
next
  case (LSuccess t k)
  then show ?case
    using delete_keys [of k l] by (auto simp: Success_def table_within_def keys_ok_delete)
qed

lemma agrees_step:
  assumes "table_within K l" and "finite K" and "card K \<le> maxLoginEntries"
    and "\<forall>k. failing_key op = Some k \<longrightarrow> k \<in> K" and "agrees t l key a" and "t \<le> login_time op"
  shows "agrees (login_time op) (limiter_step op l) key (key_step key op a)"
proof (cases op)
  case (LAllow u k)
  then show ?thesis using assms agrees_prune [of l t key a u] by (simp add: Allow_def Let_def table_within_def)
next
  case (LFail u k)
  then have k: "k \<in> K" using assms(4) by simp
  have p: "agrees u (limiter_prune u l) key a"
    using assms LFail agrees_prune [of l t key a u] by (simp add: table_within_def)
  show ?thesis
    unfolding LFail limiter_step.simps key_step.simps Fail_roomy [OF assms(1,2) k assms(3)]
    using p agrees_failed [OF p] by (auto simp: agrees_def map_simps)
next
  case (LSuccess u k)
  have "agrees u l key a"
    using assms(5,6) LSuccess by (auto simp: agrees_def intro: stale_mono)
  then show ?thesis
    unfolding LSuccess limiter_step.simps key_step.simps Success_def
    by (auto simp: agrees_def map_simps)
qed

text \<open>C36: while at most 10000 different keys fail, the login limiter answers for a key as if only
  the calls for that key had happened and nothing had been pruned.\<close>

theorem limiter_refines:
  assumes "card (\<Union>op\<in>set ops. set_option (failing_key op)) \<le> maxLoginEntries"
    and "sorted (map login_time ops)" and "\<forall>op\<in>set ops. login_time op \<le> now"
  shows "fst (Allow now key (fold limiter_step ops [])) =
    open_attempt now (fold (key_step key) ops zero_attempt)"
proof -
  define K where "K = (\<Union>op\<in>set ops. set_option (failing_key op))"
  have fin: "finite K" and card: "card K \<le> maxLoginEntries"
    using assms(1) by (simp_all add: K_def)
  have run: "\<exists>u. (u = t \<or> u \<in> login_time ` set ops) \<and>
      agrees u (fold limiter_step ops l) key (fold (key_step key) ops a) \<and>
      table_within K (fold limiter_step ops l)"
    if "table_within K l" "agrees t l key a" "sorted (t # map login_time ops)"
      "(\<Union>op\<in>set ops. set_option (failing_key op)) \<subseteq> K" for l t a ops
    using that
  proof (induction ops arbitrary: l t a)
    case Nil
    then show ?case by auto
  next
    case (Cons op ops)
    have fk: "\<forall>k. failing_key op = Some k \<longrightarrow> k \<in> K" using Cons.prems(4) by fastforce
    have "table_within K (limiter_step op l)"
      using within_step [OF Cons.prems(1) fin card fk] .
    moreover have "agrees (login_time op) (limiter_step op l) key (key_step key op a)"
      using agrees_step [OF Cons.prems(1) fin card fk Cons.prems(2)] Cons.prems(3) by simp
    ultimately show ?case
      using Cons.IH [of "limiter_step op l" "login_time op" "key_step key op a"] Cons.prems by auto
  qed
  show ?thesis
  proof (cases ops)
    case Nil
    then show ?thesis
      by (simp add: Allow_def limiter_prune_def attempt_of_def Let_def open_zero)
  next
    case (Cons op rest)
    have "sorted (login_time op # map login_time ops)"
      using assms(2) Cons by auto
    moreover have "table_within K []" "agrees (login_time op) [] key zero_attempt"
      by (simp_all add: table_within_def agrees_def)
    ultimately obtain u where u: "u = login_time op \<or> u \<in> login_time ` set ops"
        "agrees u (fold limiter_step ops []) key (fold (key_step key) ops zero_attempt)"
        "table_within K (fold limiter_step ops [])"
      using run [of "[]" "login_time op" zero_attempt ops] K_def by auto
    have "u \<le> now" using u(1) assms(3) Cons by auto
    then have "agrees now (limiter_prune now (fold limiter_step ops [])) key
        (fold (key_step key) ops zero_attempt)"
      using u agrees_prune by (simp add: table_within_def)
    then show ?thesis by (simp add: Allow_def Let_def agrees_open)
  qed
qed

theorem limiter_refines_witness:
  "fst (Allow 900 ''a'' (fold limiter_step
      [LFail 100 ''a'', LFail 200 ''b'', LAllow 300 ''a'', LFail 400 ''a'', LSuccess 500 ''b''] [])) =
   open_attempt 900 (fold (key_step ''a'')
      [LFail 100 ''a'', LFail 200 ''b'', LAllow 300 ''a'', LFail 400 ''a'', LSuccess 500 ''b''] zero_attempt)"
  by (rule limiter_refines) (simp_all add: maxLoginEntries_def card_insert_if)

section \<open>Lockout\<close>

lemma key_step_fails:
  assumes "sorted (u # ts)" and "successively (\<lambda>s t. t \<le> s + loginAttemptTTL) (u # ts)"
    and "a = \<lparr> at_count = n, at_blocked = b, at_updated = u \<rparr>" and "1 \<le> n" and "n + int (length ts) < 2 ^ 20"
    and "b = (if 5 \<le> n then u + (n - 4) * minute else zero_time)"
  shows "fold (key_step key) (map (\<lambda>t. LFail t key) ts) a =
    \<lparr> at_count = n + int (length ts),
      at_blocked = (if 5 \<le> n + int (length ts) then last (u # ts) + (n + int (length ts) - 4) * minute
                    else zero_time),
      at_updated = last (u # ts) \<rparr>"
  using assms
proof (induction ts arbitrary: u n b a)
  case Nil
  then show ?case by simp
next
  case (Cons t ts)
  let ?b = "if 5 \<le> n + 1 then t + (n + 1 - 4) * minute else zero_time"
  have w: "wrap64 ((n - 3) * minute) = (n - 3) * minute"
    using Cons.prems(4,5) by (intro wrap64_id) (simp_all add: duration_defs)
  have "key_step key (LFail t key) a = \<lparr> at_count = n + 1, at_blocked = ?b, at_updated = t \<rparr>"
    using Cons.prems(2,3,6) w
    by (auto simp: failed_attempt_def Let_def time_sub_gt ttl_bounds)
  then have "fold (key_step key) (map (\<lambda>t. LFail t key) (t # ts)) a =
      fold (key_step key) (map (\<lambda>t. LFail t key) ts) \<lparr> at_count = n + 1, at_blocked = ?b, at_updated = t \<rparr>"
    by simp
  also have "\<dots> = \<lparr> at_count = (n + 1) + int (length ts),
      at_blocked = (if 5 \<le> (n + 1) + int (length ts) then last (t # ts) + ((n + 1) + int (length ts) - 4) * minute
                    else zero_time),
      at_updated = last (t # ts) \<rparr>"
    using Cons.prems by (intro Cons.IH refl) (auto simp: successively_Cons)
  finally show ?case by simp
qed

lemma sorted_le_last: "sorted (ts :: int list) \<Longrightarrow> t \<in> set ts \<Longrightarrow> t \<le> last ts"
  by (induction ts) auto

text \<open>after n failures for a key, none more than 15 minutes after the one before, the key is
  refused exactly until n - 4 minutes after the last one, if n is at least 5, and not at all
  otherwise.\<close>

theorem login_lockout:
  assumes "ts \<noteq> []" and "sorted ts" and "successively (\<lambda>s t. t \<le> s + loginAttemptTTL) ts"
    and "int (length ts) < 2 ^ 20" and "0 < hd ts" and "last ts \<le> now"
  shows "fst (Allow now key (fold limiter_step (map (\<lambda>t. LFail t key) ts) [])) \<longleftrightarrow>
    length ts < 5 \<or> last ts + (int (length ts) - 4) * minute \<le> now"
proof -
  obtain u r where ts: "ts = u # r" using assms(1) by (cases ts) auto
  have le: "\<forall>t\<in>set ts. t \<le> now \<and> 0 < t"
    using assms(2,5,6) ts sorted_le_last [of ts] by fastforce
  have "failed_attempt u zero_attempt = \<lparr> at_count = 1, at_blocked = zero_time, at_updated = u \<rparr>"
    by (auto simp: failed_attempt_def zero_attempt_def Let_def)
  then have state: "fold (key_step key) (map (\<lambda>t. LFail t key) ts) zero_attempt =
      \<lparr> at_count = 1 + int (length r),
        at_blocked = (if 5 \<le> 1 + int (length r) then last (u # r) + (1 + int (length r) - 4) * minute
                      else zero_time),
        at_updated = last (u # r) \<rparr>"
    using assms(2-4) ts key_step_fails [of u r "\<lparr> at_count = 1, at_blocked = zero_time, at_updated = u \<rparr>" 1 zero_time key]
    by simp
  have "fst (Allow now key (fold limiter_step (map (\<lambda>t. LFail t key) ts) [])) =
      open_attempt now (fold (key_step key) (map (\<lambda>t. LFail t key) ts) zero_attempt)"
  proof (rule limiter_refines)
    have "(\<Union>op\<in>set (map (\<lambda>t. LFail t key) ts). set_option (failing_key op)) \<subseteq> {key}" by auto
    then have "card (\<Union>op\<in>set (map (\<lambda>t. LFail t key) ts). set_option (failing_key op)) \<le> card {key}"
      by (intro card_mono) auto
    then show "card (\<Union>op\<in>set (map (\<lambda>t. LFail t key) ts). set_option (failing_key op)) \<le> maxLoginEntries"
      by (simp add: maxLoginEntries_def)
  qed (use assms(2) le in \<open>auto simp: comp_def\<close>)
  moreover have "0 < last (u # r)" using le ts by (metis last_in_set list.distinct(1))
  ultimately show ?thesis
    unfolding state using ts by (auto simp: open_attempt_def zero_time_def duration_defs)
qed

theorem login_lockout_witness:
  "\<not> fst (Allow (150 * second) ''10.0.0.1:admin'' (fold limiter_step
      (map (\<lambda>t. LFail t ''10.0.0.1:admin'')
        [60 * second, 70 * second, 80 * second, 90 * second, 100 * second]) []))"
  using login_lockout [of "[60 * second, 70 * second, 80 * second, 90 * second, 100 * second]"
      "150 * second" "''10.0.0.1:admin''"]
  by (simp add: duration_defs loginAttemptTTL_def)

end
