(* ===== verification/Validate.thy ===== *)
theory Validate
  imports Types
begin

text \<open>
  internal/shared/validate/validate.go: the checks every tunnel and forward passes before the
  controller stores it.  An error is a value of \<open>verr\<close> that carries what the message of the
  source carries; the field names are built as the source builds them.  The loops over stages,
  nodes, targets, protocols and map entries are recursions that carry the \<open>seen\<close> maps of the
  source as lists.

  The lemmas characterise every checker by a predicate without control flow
  (\<open>tunnel_wf\<close>, \<open>forward_wf\<close>), and read the facts off it that the compiler of
  runtime configurations and the relays rely on.
\<close>

section \<open>Bounds and errors\<close>

definition maxSelectionWeight :: int where "maxSelectionWeight = 100"
definition MaxIDBytes :: nat where "MaxIDBytes = 128"
definition MaxNameBytes :: nat where "MaxNameBytes = 256"
definition MaxAddressBytes :: nat where "MaxAddressBytes = 512"
definition MaxStrategyBytes :: nat where "MaxStrategyBytes = 32"
definition MaxTunnelStages :: nat where "MaxTunnelStages = 16"
definition MaxStageNodes :: nat where "MaxStageNodes = 32"
definition MaxForwardTargets :: nat where "MaxForwardTargets = 128"
definition maxSettingsEntries :: nat where "maxSettingsEntries = 32"
definition maxSettingKeyBytes :: nat where "maxSettingKeyBytes = 64"
definition maxSettingValueBytes :: nat where "maxSettingValueBytes = 128 * 1024"

lemmas max_defs = maxSelectionWeight_def MaxIDBytes_def MaxNameBytes_def MaxAddressBytes_def
  MaxStrategyBytes_def MaxTunnelStages_def MaxStageNodes_def MaxForwardTargets_def
  maxSettingsEntries_def maxSettingKeyBytes_def maxSettingValueBytes_def

text \<open>The largest bound is compared as an integer when a check is evaluated.\<close>

lemma big_limit [code_unfold]: "length v > maxSettingValueBytes \<longleftrightarrow> int (length v) > 131072"
  by (simp add: maxSettingValueBytes_def)

datatype verr =
    VRequired string
  | VInvalidUTF8 string
  | VTooLong string
  | VControlCharacter string
  | VNULCharacter string
  | VTooMany string nat
  | VUnsupported string string
  | VDuplicate string string
  | VDirectTransport
  | VDirectStageCount
  | VChainStageCount
  | VStageIndex int
  | VStageRole int string
  | VStageEmpty int
  | VWeightTooLarge string
  | VRepeatedNode string
  | VInvalidAddress string
  | VNoPublicOrConnect int
  | VNoEnabledTarget string

section \<open>Text and settings\<close>

definition validateText :: "string \<Rightarrow> string \<Rightarrow> nat \<Rightarrow> bool \<Rightarrow> verr option" where
  "validateText field value maxBytes allowEmpty = first_err
    [fail_if (\<not> allowEmpty \<and> trim_space value = []) (VRequired field),
     fail_if (\<not> valid_utf8 value) (VInvalidUTF8 field),
     fail_if (length value > maxBytes) (VTooLong field),
     fail_if (has_control value) (VControlCharacter field)]"

fun validateSettingEntries :: "string \<Rightarrow> (string \<times> string) list \<Rightarrow> verr option" where
  "validateSettingEntries field [] = None"
| "validateSettingEntries field ((key, value) # rest) = first_err
    [validateText (field @ '' key'') key maxSettingKeyBytes False,
     fail_if (\<not> valid_utf8 value) (VInvalidUTF8 (field @ '' value'')),
     fail_if (length value > maxSettingValueBytes) (VTooLong (field @ '' value'')),
     fail_if (CHR 0x00 \<in> set value) (VNULCharacter field),
     validateSettingEntries field rest]"

definition validateSettings :: "string \<Rightarrow> settings \<Rightarrow> verr option" where
  "validateSettings field m = first_err
    [fail_if (mlen m > maxSettingsEntries) (VTooMany field maxSettingsEntries),
     validateSettingEntries field (mentries m)]"

definition text_ok :: "nat \<Rightarrow> bool \<Rightarrow> string \<Rightarrow> bool" where
  "text_ok n e s \<longleftrightarrow>
     (e \<or> trim_space s \<noteq> []) \<and> valid_utf8 s \<and> length s \<le> n \<and> \<not> has_control s"

definition settings_wf :: "settings \<Rightarrow> bool" where
  "settings_wf m \<longleftrightarrow> mlen m \<le> maxSettingsEntries \<and>
     (\<forall>(k, v)\<in>set (mentries m). text_ok maxSettingKeyBytes False k \<and> valid_utf8 v \<and>
        length v \<le> maxSettingValueBytes \<and> CHR 0x00 \<notin> set v)"

lemma validateText_None [err_simps]: "validateText f v n e = None \<longleftrightarrow> text_ok n e v"
  by (auto simp: validateText_def text_ok_def err_simps)

lemma validateSettings_None [err_simps]: "validateSettings f m = None \<longleftrightarrow> settings_wf m"
proof -
  have "validateSettingEntries f l = None \<longleftrightarrow>
      (\<forall>(k, v)\<in>set l. text_ok maxSettingKeyBytes False k \<and> valid_utf8 v \<and>
        length v \<le> maxSettingValueBytes \<and> CHR 0x00 \<notin> set v)" for l
    by (induction f l rule: validateSettingEntries.induct)
      (auto simp: err_simps linorder_not_less)
  then show ?thesis
    by (auto simp: validateSettings_def settings_wf_def err_simps linorder_not_less)
qed

section \<open>Strategies and protocols\<close>

definition known_strategies :: "string list" where
  "known_strategies = ['''', ''single'', ''round_robin'', ''random'', ''failover'']"

definition validateStageStrategy :: "int \<Rightarrow> string \<Rightarrow> string \<Rightarrow> verr option" where
  "validateStageStrategy index field strategy =
    (let f = ''stage '' @ itoa index @ '' '' @ field in first_err
      [validateText f strategy MaxStrategyBytes True,
       fail_if (to_lower (trim_space strategy) \<notin> set known_strategies) (VUnsupported f strategy)])"

definition validateForwardStrategy :: "string \<Rightarrow> string \<Rightarrow> verr option" where
  "validateForwardStrategy field strategy =
    (let f = ''forward '' @ field in first_err
      [validateText f strategy MaxStrategyBytes True,
       fail_if (to_lower (trim_space strategy) \<notin> set known_strategies) (VUnsupported f strategy)])"

text \<open>The loop shared by the two protocol checks, with the map \<open>seen\<close>.\<close>

fun protocols_loop :: "string \<Rightarrow> string list \<Rightarrow> protocol list \<Rightarrow> verr option" where
  "protocols_loop who seen [] = None"
| "protocols_loop who seen (p # ps) =
    (if p = ProtoTCP \<or> p = ProtoUDP then
       (if p \<in> set seen then Some (VDuplicate who p) else protocols_loop who (p # seen) ps)
     else Some (VUnsupported who p))"

definition validateStageNodeProtocols :: "int \<Rightarrow> stage_node \<Rightarrow> verr option" where
  "validateStageNodeProtocols index n =
    (let who = ''stage '' @ itoa index @ '' node '' @ sn_node_id n in
     if length (sn_protocols n) > 2 then Some (VTooMany who 2)
     else protocols_loop who [] (sn_protocols n))"

definition validateForwardTargetProtocols :: "int \<Rightarrow> forward_target \<Rightarrow> verr option" where
  "validateForwardTargetProtocols index t =
    (let who = ''forward target '' @ itoa (index + 1) in
     if length (tgt_protocols t) > 2 then Some (VTooMany who 2)
     else protocols_loop who [] (tgt_protocols t))"

definition targetSupportsProtocol :: "protocol list \<Rightarrow> protocol \<Rightarrow> bool" where
  "targetSupportsProtocol ps p \<longleftrightarrow> (if ps = [] then True else List.member ps p)"

definition strategy_ok :: "string \<Rightarrow> bool" where
  "strategy_ok s \<longleftrightarrow> text_ok MaxStrategyBytes True s \<and>
     to_lower (trim_space s) \<in> {'''', ''single'', ''round_robin'', ''random'', ''failover''}"

definition protocols_ok :: "protocol list \<Rightarrow> bool" where
  "protocols_ok ps \<longleftrightarrow> distinct ps \<and> set ps \<subseteq> {ProtoTCP, ProtoUDP}"

lemma proto_neq [simp]: "ProtoTCP \<noteq> ProtoUDP" "ProtoUDP \<noteq> ProtoTCP"
  by (simp_all add: enum_defs)

lemma stage_strategy_None [err_simps]:
  "validateStageStrategy i f s = None \<longleftrightarrow> strategy_ok s"
  by (auto simp: validateStageStrategy_def strategy_ok_def known_strategies_def Let_def err_simps)

lemma forward_strategy_None [err_simps]:
  "validateForwardStrategy f s = None \<longleftrightarrow> strategy_ok s"
  by (auto simp: validateForwardStrategy_def strategy_ok_def known_strategies_def Let_def err_simps)

lemma protocols_loop_None:
  "protocols_loop w seen ps = None \<longleftrightarrow>
     distinct ps \<and> set ps \<subseteq> {ProtoTCP, ProtoUDP} \<and> set ps \<inter> set seen = {}"
  by (induction w seen ps rule: protocols_loop.induct) auto

lemma loop_protocols_ok: "protocols_loop w [] ps = None \<longleftrightarrow> protocols_ok ps"
  by (simp add: protocols_loop_None protocols_ok_def)

lemma protocols_ok_length: "protocols_ok ps \<Longrightarrow> length ps \<le> 2"
proof -
  assume ok: "protocols_ok ps"
  then have "set ps \<subseteq> {ProtoTCP, ProtoUDP}" by (simp add: protocols_ok_def)
  from card_mono [OF _ this] have "card (set ps) \<le> 2" by simp
  moreover from ok have "card (set ps) = length ps" by (intro distinct_card) (simp add: protocols_ok_def)
  ultimately show ?thesis by simp
qed

lemma stage_node_protocols_None [err_simps]:
  "validateStageNodeProtocols i n = None \<longleftrightarrow> protocols_ok (sn_protocols n)"
  using protocols_ok_length [of "sn_protocols n"]
  by (auto simp: validateStageNodeProtocols_def Let_def loop_protocols_ok)

lemma target_protocols_None [err_simps]:
  "validateForwardTargetProtocols i t = None \<longleftrightarrow> protocols_ok (tgt_protocols t)"
  using protocols_ok_length [of "tgt_protocols t"]
  by (auto simp: validateForwardTargetProtocols_def Let_def loop_protocols_ok)

lemma targetSupports_iff: "targetSupportsProtocol ps p \<longleftrightarrow> ps = [] \<or> p \<in> set ps"
  by (simp add: targetSupportsProtocol_def)

section \<open>Tunnels\<close>

text \<open>The checks of one node of a stage, in the order of the loop body.\<close>

definition stage_node_checks ::
  "tunnel_type \<Rightarrow> stage_role \<Rightarrow> int \<Rightarrow> string list \<Rightarrow> stage_node \<Rightarrow> verr option" where
  "stage_node_checks ty role index seen n =
    (let st = ''stage '' @ itoa index in first_err
      [validateText (st @ '' node id'') (sn_node_id n) MaxIDBytes False,
       validateText (st @ '' node address'') (sn_listen n) MaxAddressBytes True,
       validateText (st @ '' node public address'') (sn_public n) MaxAddressBytes True,
       validateText (st @ '' node connect address'') (sn_connect n) MaxAddressBytes True,
       validateSettings (st @ '' node settings'') (sn_settings n),
       fail_if (trim_space (sn_node_id n) = []) (VRequired (st @ '' node id'')),
       fail_if (sn_weight n > maxSelectionWeight) (VWeightTooLarge (sn_node_id n)),
       fail_if (sn_node_id n \<in> set seen) (VRepeatedNode (sn_node_id n)),
       validateStageNodeProtocols index n,
       (if ty = TunnelChain \<and> role \<noteq> StageEntry then first_err
          [fail_if (trim_space (sn_listen n) = []) (VRequired (st @ '' listen address'')),
           fail_if (split_host_port (sn_listen n) = None) (VInvalidAddress (st @ '' listen address'')),
           fail_if (trim_space (sn_public n) = [] \<and> trim_space (sn_connect n) = [])
             (VNoPublicOrConnect index),
           fail_if (sn_public n \<noteq> [] \<and> split_host_port (sn_public n) = None)
             (VInvalidAddress (st @ '' public address'')),
           fail_if (sn_connect n \<noteq> [] \<and> split_host_port (sn_connect n) = None)
             (VInvalidAddress (st @ '' connect address''))]
        else None)])"

text \<open>The loop over \<open>stage.Nodes\<close>: an error, or the new \<open>seenNodes\<close>.\<close>

fun stage_nodes_loop ::
  "tunnel_type \<Rightarrow> stage_role \<Rightarrow> int \<Rightarrow> string list \<Rightarrow> stage_node list \<Rightarrow> verr + string list" where
  "stage_nodes_loop ty role index seen [] = Inr seen"
| "stage_nodes_loop ty role index seen (n # ns) =
    (case stage_node_checks ty role index seen n of
       Some e \<Rightarrow> Inl e
     | None \<Rightarrow> stage_nodes_loop ty role index (sn_node_id n # seen) ns)"

definition expected_role :: "tunnel_type \<Rightarrow> nat \<Rightarrow> nat \<Rightarrow> stage_role" where
  "expected_role ty count index =
    (if ty = TunnelDirect then StageEntry
     else if index = 0 then StageEntry
     else if index = count - 1 then StageExit
     else StageMiddle)"

definition stage_checks :: "tunnel_type \<Rightarrow> nat \<Rightarrow> nat \<Rightarrow> tunnel_stage \<Rightarrow> verr option" where
  "stage_checks ty count index s =
    (let st = ''stage '' @ itoa (int index); role = expected_role ty count index in first_err
      [(if stg_id s \<noteq> [] then validateText (st @ '' id'') (stg_id s) MaxIDBytes True else None),
       validateText (st @ '' strategy'') (stg_strategy s) MaxStrategyBytes True,
       validateText (st @ '' tcp strategy'') (stg_tcp_strategy s) MaxStrategyBytes True,
       validateText (st @ '' udp strategy'') (stg_udp_strategy s) MaxStrategyBytes True,
       fail_if (stg_index s \<noteq> int index) (VStageIndex (int index)),
       fail_if (stg_role s \<noteq> role) (VStageRole (int index) role),
       validateStageStrategy (int index) ''strategy'' (stg_strategy s),
       validateStageStrategy (int index) ''tcp_strategy'' (stg_tcp_strategy s),
       validateStageStrategy (int index) ''udp_strategy'' (stg_udp_strategy s),
       fail_if (stg_nodes s = []) (VStageEmpty (int index)),
       fail_if (length (stg_nodes s) > MaxStageNodes) (VTooMany st MaxStageNodes)])"

fun stages_loop ::
  "tunnel_type \<Rightarrow> nat \<Rightarrow> nat \<Rightarrow> string list \<Rightarrow> tunnel_stage list \<Rightarrow> verr option" where
  "stages_loop ty count index seen [] = None"
| "stages_loop ty count index seen (s # ss) =
    (case stage_checks ty count index s of
       Some e \<Rightarrow> Some e
     | None \<Rightarrow> (case stage_nodes_loop ty (stg_role s) (int index) seen (stg_nodes s) of
         Inl e \<Rightarrow> Some e
       | Inr seen' \<Rightarrow> stages_loop ty count (Suc index) seen' ss))"

definition validate_Tunnel :: "tunnel \<Rightarrow> verr option" where
  "validate_Tunnel t = first_err
    [validateText ''tunnel id'' (tun_id t) MaxIDBytes False,
     validateText ''tunnel name'' (tun_name t) MaxNameBytes False,
     (if tun_entry_address t \<noteq> []
      then validateText ''tunnel entry address'' (tun_entry_address t) MaxAddressBytes True
      else None),
     validateSettings ''tunnel settings'' (tun_settings t),
     fail_if (length (tun_stages t) > MaxTunnelStages) (VTooMany ''tunnel stages'' MaxTunnelStages),
     fail_if (trim_space (tun_id t) = []) (VRequired ''tunnel id''),
     fail_if (trim_space (tun_name t) = []) (VRequired ''tunnel name''),
     fail_if (tun_type t \<notin> set [TunnelDirect, TunnelChain])
       (VUnsupported ''tunnel type'' (tun_type t)),
     fail_if (tun_transport t \<notin> set [TransportDirect, TransportTLS, TransportMTLS, TransportWSTLS])
       (VUnsupported ''tunnel transport'' (tun_transport t)),
     fail_if (tun_type t = TunnelDirect \<and> tun_transport t \<noteq> TransportDirect) VDirectTransport,
     fail_if (tun_stages t = []) (VRequired ''tunnel stages''),
     fail_if (tun_type t = TunnelDirect \<and> length (tun_stages t) \<noteq> 1) VDirectStageCount,
     fail_if (tun_type t = TunnelChain \<and> length (tun_stages t) < 2) VChainStageCount,
     stages_loop (tun_type t) (length (tun_stages t)) 0 [] (tun_stages t)]"

section \<open>What an accepted tunnel is\<close>

definition link_addresses_ok :: "stage_node \<Rightarrow> bool" where
  "link_addresses_ok n \<longleftrightarrow> trim_space (sn_listen n) \<noteq> [] \<and> split_host_port (sn_listen n) \<noteq> None \<and>
     (trim_space (sn_public n) \<noteq> [] \<or> trim_space (sn_connect n) \<noteq> []) \<and>
     (sn_public n = [] \<or> split_host_port (sn_public n) \<noteq> None) \<and>
     (sn_connect n = [] \<or> split_host_port (sn_connect n) \<noteq> None)"

definition stage_node_wf :: "stage_node \<Rightarrow> bool" where
  "stage_node_wf n \<longleftrightarrow> text_ok MaxIDBytes False (sn_node_id n) \<and>
     text_ok MaxAddressBytes True (sn_listen n) \<and> text_ok MaxAddressBytes True (sn_public n) \<and>
     text_ok MaxAddressBytes True (sn_connect n) \<and> settings_wf (sn_settings n) \<and>
     sn_weight n \<le> maxSelectionWeight \<and> protocols_ok (sn_protocols n)"

definition stage_wf :: "tunnel_stage \<Rightarrow> bool" where
  "stage_wf s \<longleftrightarrow> text_ok MaxIDBytes True (stg_id s) \<and> strategy_ok (stg_strategy s) \<and>
     strategy_ok (stg_tcp_strategy s) \<and> strategy_ok (stg_udp_strategy s) \<and>
     stg_nodes s \<noteq> [] \<and> length (stg_nodes s) \<le> MaxStageNodes \<and>
     (\<forall>n\<in>set (stg_nodes s). stage_node_wf n)"

definition tunnel_node_ids :: "tunnel_stage list \<Rightarrow> string list" where
  "tunnel_node_ids ss = map sn_node_id (concat (map stg_nodes ss))"

definition tunnel_shape :: "tunnel \<Rightarrow> bool" where
  "tunnel_shape t \<longleftrightarrow>
     tun_type t = TunnelDirect \<and> tun_transport t = TransportDirect \<and> length (tun_stages t) = 1 \<or>
     tun_type t = TunnelChain \<and> length (tun_stages t) \<ge> 2 \<and>
     tun_transport t \<in> {TransportDirect, TransportTLS, TransportMTLS, TransportWSTLS}"

text \<open>The stage at each position: its own checks, its index, the role of the position.\<close>

definition stages_wf :: "tunnel_stage list \<Rightarrow> bool" where
  "stages_wf ss \<longleftrightarrow> (\<forall>i<length ss. stage_wf (ss ! i) \<and> stg_index (ss ! i) = int i \<and>
     stg_role (ss ! i) = (if i = 0 then StageEntry
                          else if Suc i = length ss then StageExit else StageMiddle) \<and>
     (0 < i \<longrightarrow> (\<forall>n\<in>set (stg_nodes (ss ! i)). link_addresses_ok n)))"

definition tunnel_wf :: "tunnel \<Rightarrow> bool" where
  "tunnel_wf t \<longleftrightarrow>
     text_ok MaxIDBytes False (tun_id t) \<and> text_ok MaxNameBytes False (tun_name t) \<and>
     text_ok MaxAddressBytes True (tun_entry_address t) \<and> settings_wf (tun_settings t) \<and>
     length (tun_stages t) \<le> MaxTunnelStages \<and> tunnel_shape t \<and> stages_wf (tun_stages t) \<and>
     distinct (tunnel_node_ids (tun_stages t))"

lemma type_neq [simp]: "TunnelDirect \<noteq> TunnelChain" "TunnelChain \<noteq> TunnelDirect"
  by (simp_all add: enum_defs)

lemma role_neq [simp]:
  "StageEntry \<noteq> StageExit" "StageEntry \<noteq> StageMiddle" "StageExit \<noteq> StageMiddle"
  "StageExit \<noteq> StageEntry" "StageMiddle \<noteq> StageEntry" "StageMiddle \<noteq> StageExit"
  by (simp_all add: enum_defs)

lemma text_ok_Nil [simp]: "text_ok n True []"
  by (simp add: text_ok_def)

lemma text_ok_required: "text_ok n False s \<Longrightarrow> trim_space s \<noteq> []"
  by (simp add: text_ok_def)

lemma strategy_ok_text: "strategy_ok s \<Longrightarrow> text_ok MaxStrategyBytes True s"
  by (simp add: strategy_ok_def)

lemma stage_node_checks_None:
  "stage_node_checks ty role i seen n = None \<longleftrightarrow>
     stage_node_wf n \<and> sn_node_id n \<notin> set seen \<and>
     (ty = TunnelChain \<and> role \<noteq> StageEntry \<longrightarrow> link_addresses_ok n)"
  unfolding stage_node_checks_def Let_def
  by (simp add: err_simps stage_node_wf_def link_addresses_ok_def linorder_not_less
      del: not_None_eq) (auto dest: text_ok_required)

lemma stage_nodes_loop_Inr:
  "stage_nodes_loop ty role i seen ns = Inr seen' \<longleftrightarrow>
     (\<forall>n\<in>set ns. stage_node_wf n \<and> (ty = TunnelChain \<and> role \<noteq> StageEntry \<longrightarrow> link_addresses_ok n)) \<and>
     distinct (map sn_node_id ns) \<and> sn_node_id ` set ns \<inter> set seen = {} \<and>
     seen' = rev (map sn_node_id ns) @ seen"
proof (induction ty role i seen ns rule: stage_nodes_loop.induct)
  case (1 ty role index seen)
  then show ?case by auto
next
  case (2 ty role index seen n ns)
  show ?case
  proof (cases "stage_node_checks ty role index seen n")
    case None
    with 2 show ?thesis
      using stage_node_checks_None [of ty role index seen n] by auto
  next
    case (Some e)
    then show ?thesis
      using stage_node_checks_None [of ty role index seen n] by auto
  qed
qed

lemma stage_checks_None:
  "stage_checks ty count i s = None \<and> (\<forall>n\<in>set (stg_nodes s). stage_node_wf n) \<longleftrightarrow>
     stage_wf s \<and> stg_index s = int i \<and> stg_role s = expected_role ty count i"
  unfolding stage_checks_def stage_wf_def Let_def
  by (auto simp: err_simps linorder_not_less strategy_ok_def split: if_splits)

definition stage_accepted :: "tunnel_type \<Rightarrow> nat \<Rightarrow> nat \<Rightarrow> tunnel_stage \<Rightarrow> bool" where
  "stage_accepted ty count i s \<longleftrightarrow>
     stage_wf s \<and> stg_index s = int i \<and> stg_role s = expected_role ty count i \<and>
     (ty = TunnelChain \<and> stg_role s \<noteq> StageEntry \<longrightarrow> (\<forall>n\<in>set (stg_nodes s). link_addresses_ok n))"

lemma stages_loop_None:
  "stages_loop ty count i seen ss = None \<longleftrightarrow>
     (\<forall>j<length ss. stage_accepted ty count (i + j) (ss ! j)) \<and>
     distinct (tunnel_node_ids ss) \<and> set (tunnel_node_ids ss) \<inter> set seen = {}"
proof (induction ty count i seen ss rule: stages_loop.induct)
  case (1 ty count index seen)
  then show ?case by (simp add: tunnel_node_ids_def)
next
  case (2 ty count index seen s ss)
  have split_j: "(\<forall>j<length (s # ss). stage_accepted ty count (index + j) ((s # ss) ! j)) \<longleftrightarrow>
      stage_accepted ty count index s \<and>
      (\<forall>j<length ss. stage_accepted ty count (Suc index + j) (ss ! j))"
    by (auto simp: less_Suc_eq_0_disj)
  have ids: "tunnel_node_ids (s # ss) = map sn_node_id (stg_nodes s) @ tunnel_node_ids ss"
    by (simp add: tunnel_node_ids_def)
  show ?case
  proof (cases "stage_checks ty count index s")
    case (Some e)
    then have "\<not> stage_accepted ty count index s"
      using stage_checks_None [of ty count index s] by (auto simp: stage_accepted_def stage_wf_def)
    with Some show ?thesis unfolding split_j by simp
  next
    case None
    show ?thesis
    proof (cases "stage_nodes_loop ty (stg_role s) (int index) seen (stg_nodes s)")
      case (Inl e)
      have "\<not> (stage_accepted ty count index s \<and> distinct (map sn_node_id (stg_nodes s)) \<and>
          sn_node_id ` set (stg_nodes s) \<inter> set seen = {})"
        using stage_nodes_loop_Inr [of ty "stg_role s" "int index" seen "stg_nodes s"
            "rev (map sn_node_id (stg_nodes s)) @ seen"] Inl
        by (auto simp: stage_accepted_def stage_wf_def)
      with None Inl show ?thesis unfolding split_j ids by auto
    next
      case (Inr seen')
      note loop = stage_nodes_loop_Inr [of ty "stg_role s" "int index" seen "stg_nodes s" seen',
          THEN iffD1, OF Inr]
      from loop None have "stage_accepted ty count index s"
        using stage_checks_None [of ty count index s] by (auto simp: stage_accepted_def)
      moreover have "set seen' = sn_node_id ` set (stg_nodes s) \<union> set seen" using loop by auto
      ultimately show ?thesis
        using 2 [OF None Inr] None Inr loop unfolding split_j ids by auto
    qed
  qed
qed

lemma expected_role_direct [simp]: "expected_role TunnelDirect n i = StageEntry"
  by (simp add: expected_role_def)

lemma expected_role_chain:
  "2 \<le> n \<Longrightarrow> i < n \<Longrightarrow> expected_role TunnelChain n i =
     (if i = 0 then StageEntry else if Suc i = n then StageExit else StageMiddle)"
  by (auto simp: expected_role_def)

lemma stage_accepted_position:
  "tunnel_shape t \<Longrightarrow> i < length (tun_stages t) \<Longrightarrow>
   stage_accepted (tun_type t) (length (tun_stages t)) i s \<longleftrightarrow>
     stage_wf s \<and> stg_index s = int i \<and>
     stg_role s = (if i = 0 then StageEntry
                   else if Suc i = length (tun_stages t) then StageExit else StageMiddle) \<and>
     (0 < i \<longrightarrow> (\<forall>n\<in>set (stg_nodes s). link_addresses_ok n))"
  by (auto simp: tunnel_shape_def stage_accepted_def expected_role_chain)

lemma stage_accepted_positions:
  assumes "tunnel_shape t"
  shows "(\<forall>i<length (tun_stages t).
      stage_accepted (tun_type t) (length (tun_stages t)) (0 + i) (tun_stages t ! i)) \<longleftrightarrow>
    stages_wf (tun_stages t)"
  unfolding stages_wf_def add_0
  by (intro all_cong1 imp_cong refl stage_accepted_position assms)

lemma text_ok_skip: "(s \<noteq> [] \<longrightarrow> text_ok n True s) \<longleftrightarrow> text_ok n True s"
  by auto

lemma tunnel_shape_checks:
  "tunnel_shape t \<longleftrightarrow> tun_type t \<in> set [TunnelDirect, TunnelChain] \<and>
   tun_transport t \<in> set [TransportDirect, TransportTLS, TransportMTLS, TransportWSTLS] \<and>
   \<not> (tun_type t = TunnelDirect \<and> tun_transport t \<noteq> TransportDirect) \<and> tun_stages t \<noteq> [] \<and>
   \<not> (tun_type t = TunnelDirect \<and> length (tun_stages t) \<noteq> 1) \<and>
   \<not> (tun_type t = TunnelChain \<and> length (tun_stages t) < 2)"
  unfolding tunnel_shape_def
  by (cases "tun_type t = TunnelDirect"; cases "tun_type t = TunnelChain") auto

lemma validate_Tunnel_wf: "validate_Tunnel t = None \<longleftrightarrow> tunnel_wf t"
proof -
  have top: "validate_Tunnel t = None \<longleftrightarrow>
     text_ok MaxIDBytes False (tun_id t) \<and> text_ok MaxNameBytes False (tun_name t) \<and>
     text_ok MaxAddressBytes True (tun_entry_address t) \<and> settings_wf (tun_settings t) \<and>
     length (tun_stages t) \<le> MaxTunnelStages \<and> tunnel_shape t \<and>
     stages_loop (tun_type t) (length (tun_stages t)) 0 [] (tun_stages t) = None"
    using text_ok_required [of MaxIDBytes "tun_id t"] text_ok_required [of MaxNameBytes "tun_name t"]
    unfolding validate_Tunnel_def tunnel_shape_checks
    by (simp only: err_simps not_not not_less text_ok_skip first_err.simps(1) simp_thms) argo
  show ?thesis
    unfolding top stages_loop_None tunnel_wf_def list.set Int_empty_right
    using stage_accepted_positions [of t] by argo
qed

text \<open>C1: validate.Tunnel accepts exactly the well-formed tunnels: bounded texts, the direct and
  chain shapes, the role and index of every stage by its position, known strategies, at least one
  node per stage, no node twice in the tunnel, and link addresses on every stage behind the entry.\<close>

theorem validate_Tunnel_iff: "validate_Tunnel t = None \<longleftrightarrow> tunnel_wf t"
  by (rule validate_Tunnel_wf)

section \<open>Forwards\<close>

definition validate_target_checks :: "nat \<Rightarrow> string list \<Rightarrow> forward_target \<Rightarrow> verr option" where
  "validate_target_checks index seen t =
    (let f = ''forward target '' @ itoa (int index + 1) in first_err
      [validateText (f @ '' id'') (tgt_id t) MaxIDBytes True,
       validateText (f @ '' address'') (tgt_address t) MaxAddressBytes False,
       fail_if (trim_space (tgt_id t) \<noteq> [] \<and> tgt_id t \<in> set seen)
         (VDuplicate ''forward target id'' (tgt_id t)),
       fail_if (trim_space (tgt_address t) = []) (VRequired (f @ '' address'')),
       fail_if (tgt_weight t > maxSelectionWeight) (VWeightTooLarge f),
       fail_if (split_host_port (tgt_address t) = None) (VInvalidAddress (f @ '' address'')),
       validateForwardTargetProtocols (int index) t])"

text \<open>The loop over the targets: an error, or the map \<open>protocolTargets\<close>.\<close>

fun targets_loop ::
  "protocol list \<Rightarrow> nat \<Rightarrow> string list \<Rightarrow> protocol list \<Rightarrow> forward_target list \<Rightarrow> verr + protocol list" where
  "targets_loop ps index seen found [] = Inr found"
| "targets_loop ps index seen found (t # ts) =
    (case validate_target_checks index seen t of
       Some e \<Rightarrow> Inl e
     | None \<Rightarrow> targets_loop ps (Suc index)
         (if trim_space (tgt_id t) \<noteq> [] then tgt_id t # seen else seen)
         (if tgt_enabled t then filter (targetSupportsProtocol (tgt_protocols t)) ps @ found else found)
         ts)"

definition validate_effective_targets :: "forward \<Rightarrow> forward_target list" where
  "validate_effective_targets f =
    (if fwd_targets f = [] \<and> trim_space (fwd_target f) \<noteq> []
     then [(legacy_target []) \<lparr> tgt_id := [], tgt_address := fwd_target f, tgt_weight := 0 \<rparr>]
     else fwd_targets f)"

definition validate_Forward :: "forward \<Rightarrow> verr option" where
  "validate_Forward f = first_err
    [validateText ''forward id'' (fwd_id f) MaxIDBytes False,
     validateText ''forward name'' (fwd_name f) MaxNameBytes False,
     validateText ''forward tunnel id'' (fwd_tunnel_id f) MaxIDBytes False,
     validateText ''forward listen address'' (fwd_listen f) MaxAddressBytes False,
     validateText ''forward target'' (fwd_target f) MaxAddressBytes True,
     validateText ''forward strategy'' (fwd_strategy f) MaxStrategyBytes True,
     validateText ''forward tcp strategy'' (fwd_tcp_strategy f) MaxStrategyBytes True,
     validateText ''forward udp strategy'' (fwd_udp_strategy f) MaxStrategyBytes True,
     fail_if (length (fwd_protocols f) > 2) (VTooMany ''forward protocols'' 2),
     fail_if (length (fwd_targets f) > MaxForwardTargets) (VTooMany ''forward targets'' MaxForwardTargets),
     fail_if (trim_space (fwd_id f) = []) (VRequired ''forward id''),
     fail_if (trim_space (fwd_name f) = []) (VRequired ''forward name''),
     fail_if (trim_space (fwd_tunnel_id f) = []) (VRequired ''tunnel id''),
     fail_if (fwd_protocols f = []) (VRequired ''forward protocol''),
     (case List.find (\<lambda>p. p \<noteq> ProtoTCP \<and> p \<noteq> ProtoUDP) (fwd_protocols f) of
        Some p \<Rightarrow> Some (VUnsupported ''forward protocol'' p) | None \<Rightarrow> None),
     fail_if (split_host_port (fwd_listen f) = None) (VInvalidAddress ''listen address''),
     validateForwardStrategy ''strategy'' (fwd_strategy f),
     validateForwardStrategy ''tcp_strategy'' (fwd_tcp_strategy f),
     validateForwardStrategy ''udp_strategy'' (fwd_udp_strategy f),
     fail_if (validate_effective_targets f = []) (VRequired ''forward target''),
     (case targets_loop (fwd_protocols f) 0 [] [] (validate_effective_targets f) of
        Inl e \<Rightarrow> Some e
      | Inr found \<Rightarrow> (case List.find (\<lambda>p. p \<notin> set found) (fwd_protocols f) of
          Some p \<Rightarrow> Some (VNoEnabledTarget p) | None \<Rightarrow> None))]"

definition target_wf :: "forward_target \<Rightarrow> bool" where
  "target_wf t \<longleftrightarrow> text_ok MaxIDBytes True (tgt_id t) \<and>
     text_ok MaxAddressBytes False (tgt_address t) \<and> split_host_port (tgt_address t) \<noteq> None \<and>
     tgt_weight t \<le> maxSelectionWeight \<and> protocols_ok (tgt_protocols t)"

definition named_ids :: "forward_target list \<Rightarrow> string list" where
  "named_ids ts = filter (\<lambda>i. trim_space i \<noteq> []) (map tgt_id ts)"

definition forward_wf :: "forward \<Rightarrow> bool" where
  "forward_wf f \<longleftrightarrow>
     text_ok MaxIDBytes False (fwd_id f) \<and> text_ok MaxNameBytes False (fwd_name f) \<and>
     text_ok MaxIDBytes False (fwd_tunnel_id f) \<and> text_ok MaxAddressBytes False (fwd_listen f) \<and>
     text_ok MaxAddressBytes True (fwd_target f) \<and> split_host_port (fwd_listen f) \<noteq> None \<and>
     strategy_ok (fwd_strategy f) \<and> strategy_ok (fwd_tcp_strategy f) \<and> strategy_ok (fwd_udp_strategy f) \<and>
     fwd_protocols f \<noteq> [] \<and> length (fwd_protocols f) \<le> 2 \<and>
     set (fwd_protocols f) \<subseteq> {ProtoTCP, ProtoUDP} \<and>
     length (fwd_targets f) \<le> MaxForwardTargets \<and>
     (\<forall>t\<in>set (validate_effective_targets f). target_wf t) \<and>
     distinct (named_ids (validate_effective_targets f)) \<and>
     (\<forall>p\<in>set (fwd_protocols f). \<exists>t\<in>set (validate_effective_targets f).
        tgt_enabled t \<and> (tgt_protocols t = [] \<or> p \<in> set (tgt_protocols t)))"

lemma validate_target_checks_None:
  "validate_target_checks i seen t = None \<longleftrightarrow>
     target_wf t \<and> (trim_space (tgt_id t) \<noteq> [] \<longrightarrow> tgt_id t \<notin> set seen)"
  unfolding validate_target_checks_def Let_def
  by (simp add: err_simps target_wf_def linorder_not_less del: not_None_eq)
    (auto dest: text_ok_required)

lemma targets_loop_Inr:
  "targets_loop ps i seen found ts = Inr r \<longleftrightarrow>
     (\<forall>t\<in>set ts. target_wf t) \<and> distinct (named_ids ts) \<and> set (named_ids ts) \<inter> set seen = {} \<and>
     r = concat (rev (map (\<lambda>t. if tgt_enabled t
           then filter (targetSupportsProtocol (tgt_protocols t)) ps else []) ts)) @ found"
proof (induction ps i seen found ts rule: targets_loop.induct)
  case (1 ps index seen found)
  then show ?case by (auto simp: named_ids_def)
next
  case (2 ps index seen found t ts)
  show ?case
  proof (cases "validate_target_checks index seen t")
    case None
    with 2 [OF None] show ?thesis
      using validate_target_checks_None [of index seen t] by (auto simp: named_ids_def)
  next
    case (Some e)
    then show ?thesis
      using validate_target_checks_None [of index seen t] by (auto simp: named_ids_def)
  qed
qed

lemma find_case_None:
  "(case List.find P xs of Some p \<Rightarrow> Some (g p) | None \<Rightarrow> None) = None \<longleftrightarrow> (\<forall>x\<in>set xs. \<not> P x)"
  by (auto simp: find_None_iff split: option.splits) (metis find_None_iff option.distinct(1))

lemma targets_stage_None:
  "(case targets_loop ps 0 [] [] ts of Inl e \<Rightarrow> Some e
      | Inr found \<Rightarrow> (case List.find (\<lambda>p. p \<notin> set found) ps of
          Some p \<Rightarrow> Some (VNoEnabledTarget p) | None \<Rightarrow> None)) = None \<longleftrightarrow>
     (\<forall>t\<in>set ts. target_wf t) \<and> distinct (named_ids ts) \<and>
     (\<forall>p\<in>set ps. \<exists>t\<in>set ts. tgt_enabled t \<and> (tgt_protocols t = [] \<or> p \<in> set (tgt_protocols t)))"
proof (cases "targets_loop ps 0 [] [] ts")
  case (Inl e)
  then have "\<not> ((\<forall>t\<in>set ts. target_wf t) \<and> distinct (named_ids ts))"
    using targets_loop_Inr [of ps 0 "[]" "[]" ts] by auto
  with Inl show ?thesis by auto
next
  case (Inr r)
  from targets_loop_Inr [THEN iffD1, OF this]
  have wf: "\<forall>t\<in>set ts. target_wf t" "distinct (named_ids ts)"
    and r: "set r = {p. p \<in> set ps \<and> (\<exists>t\<in>set ts. tgt_enabled t \<and>
        targetSupportsProtocol (tgt_protocols t) p)}"
    by (auto split: if_splits)
  from Inr wf show ?thesis
    by (simp add: find_case_None r targetSupports_iff)
qed

lemma validate_Forward_wf: "validate_Forward f = None \<longleftrightarrow> forward_wf f"
proof (cases "fwd_protocols f = []")
  case True
  then show ?thesis
    by (simp add: validate_Forward_def err_simps forward_wf_def)
next
  case False
  then obtain p where p: "p \<in> set (fwd_protocols f)" by (cases "fwd_protocols f") auto
  have ne: "forward_wf f \<Longrightarrow> validate_effective_targets f \<noteq> []"
    using p by (auto simp: forward_wf_def)
  have ps: "(\<forall>x\<in>set ps. \<not> (x \<noteq> ProtoTCP \<and> x \<noteq> ProtoUDP)) = (set ps \<subseteq> {ProtoTCP, ProtoUDP})"
    for ps by auto
  have "validate_Forward f = None \<longleftrightarrow> forward_wf f \<and> validate_effective_targets f \<noteq> []"
    using text_ok_required [of MaxIDBytes "fwd_id f"] text_ok_required [of MaxNameBytes "fwd_name f"]
      text_ok_required [of MaxIDBytes "fwd_tunnel_id f"] strategy_ok_text [of "fwd_strategy f"]
      strategy_ok_text [of "fwd_tcp_strategy f"] strategy_ok_text [of "fwd_udp_strategy f"] False
    unfolding validate_Forward_def forward_wf_def
    by (simp only: err_simps linorder_not_less find_case_None targets_stage_None ps first_err.simps(1))
      argo
  with ne show ?thesis by blast
qed

text \<open>validate.Forward accepts exactly the well-formed forwards: bounded texts, a listen
  address that splits, known strategies, one or two supported protocols, well-formed targets with
  distinct ids, and for each protocol of the forward an enabled target that carries it.\<close>

theorem validate_Forward_iff: "validate_Forward f = None \<longleftrightarrow> forward_wf f"
  by (rule validate_Forward_wf)

end
