(* ===== verification/Selector.thy ===== *)
theory Selector
  imports Types "HOL-Library.Multiset"
begin

text \<open>
  internal/node/relay/selector.go: the order in which a relay tries the nodes of the next stage
  (\<open>candidateSelector\<close>) and the targets of a forward (\<open>targetSelector\<close>).

  The two selectors have the same fields and are one record; \<open>time.Now()\<close> is an argument; the
  random source is a stream of numbers, each reduced modulo the bound asked for, so that a theorem
  about every stream is a theorem about every shuffle.  The round-robin counters are \<open>nat\<close>: they
  start at 0 and are only assigned remainders.

  The locale \<open>cooldown\<close> is the contract both selectors offer the dialling code: a key is
  unavailable exactly while its last recorded outcome is a failure younger than the timeout.
\<close>

section \<open>State\<close>

definition defaultCandidateMaxFails :: int where "defaultCandidateMaxFails = 1"
definition defaultCandidateFailTimeout :: duration where "defaultCandidateFailTimeout = 5 * second"
definition maxPoolWeight :: int where "maxPoolWeight = 100"

record cand_state =
  cs_fails :: int
  cs_last :: time
  cs_until :: time

record selector =
  sel_rr :: "(string \<times> nat) list"
  sel_states :: "(string \<times> cand_state) list"
  sel_rnd :: "nat \<Rightarrow> nat"
  sel_max_fails :: int
  sel_timeout :: duration

definition zero_state :: cand_state where
  "zero_state = \<lparr> cs_fails = 0, cs_last = zero_time, cs_until = zero_time \<rparr>"

definition new_selector :: "(nat \<Rightarrow> nat) \<Rightarrow> selector" where
  "new_selector rnd = \<lparr> sel_rr = [], sel_states = [], sel_rnd = rnd,
     sel_max_fails = defaultCandidateMaxFails, sel_timeout = defaultCandidateFailTimeout \<rparr>"

definition failureCooldownFromConfig :: "relay_config \<Rightarrow> duration" where
  "failureCooldownFromConfig cfg =
    (if rc_cooldown_seconds cfg \<le> 0 then defaultCandidateFailTimeout
     else wrap64 (rc_cooldown_seconds cfg * second))"

section \<open>Keys\<close>

definition lower_net :: "string \<Rightarrow> string" where
  "lower_net net = to_lower (trim_space net)"

definition stageSelectorKey :: "string \<Rightarrow> int \<Rightarrow> string \<Rightarrow> string" where
  "stageSelectorKey tunnelID stageIndex net = tunnelID @ '':'' @ itoa stageIndex @ '':'' @ lower_net net"

definition candidateSelectorKey :: "string \<Rightarrow> int \<Rightarrow> string \<Rightarrow> string \<Rightarrow> string" where
  "candidateSelectorKey tunnelID stageIndex nodeID net =
     tunnelID @ '':'' @ itoa stageIndex @ '':'' @ lower_net net @ '':'' @ nodeID"

definition targetSelectorKey :: "string \<Rightarrow> string \<Rightarrow> string" where
  "targetSelectorKey forwardID net = forwardID @ '':'' @ lower_net net"

definition targetSelectorStateKey :: "string \<Rightarrow> string \<Rightarrow> string \<Rightarrow> string" where
  "targetSelectorStateKey forwardID targetID net = targetSelectorKey forwardID net @ '':'' @ targetID"

section \<open>Availability\<close>

text \<open>The bodies of recordSuccess, recordFailure, setFailTimeout, reset and of the two
  availability checks, which the selectors share but for the key.\<close>

definition mark_success :: "string \<Rightarrow> selector \<Rightarrow> selector" where
  "mark_success key s = s\<lparr> sel_states := AList.update key zero_state (sel_states s) \<rparr>"

definition mark_failure :: "time \<Rightarrow> string \<Rightarrow> selector \<Rightarrow> selector" where
  "mark_failure now key s =
    (let st = (case map_of (sel_states s) key of None \<Rightarrow> zero_state | Some st \<Rightarrow> st);
         mf = (if sel_max_fails s \<le> 0 then defaultCandidateMaxFails else sel_max_fails s);
         n = cs_fails st + 1;
         st' = st\<lparr> cs_fails := n, cs_last := now,
                   cs_until := (if n \<ge> mf then now + sel_timeout s else cs_until st) \<rparr>
     in s\<lparr> sel_states := AList.update key st' (sel_states s), sel_max_fails := mf \<rparr>)"

definition setFailTimeout :: "duration \<Rightarrow> selector \<Rightarrow> selector" where
  "setFailTimeout timeout s =
     s\<lparr> sel_timeout := (if timeout \<le> 0 then defaultCandidateFailTimeout else timeout) \<rparr>"

definition reset_selector :: "selector \<Rightarrow> selector" where
  "reset_selector s = s\<lparr> sel_rr := [], sel_states := [] \<rparr>"

definition state_available :: "time \<Rightarrow> string \<Rightarrow> selector \<Rightarrow> bool \<times> selector" where
  "state_available now key s =
    (case map_of (sel_states s) key of
       None \<Rightarrow> (True, s)
     | Some st \<Rightarrow>
         if cs_until st \<noteq> zero_time \<and> \<not> now < cs_until st then
           (True, s\<lparr> sel_states :=
              AList.update key (st\<lparr> cs_fails := 0, cs_until := zero_time \<rparr>) (sel_states s) \<rparr>)
         else (cs_until st = zero_time, s))"

definition target_recordSuccess :: "string \<Rightarrow> string \<Rightarrow> string \<Rightarrow> selector \<Rightarrow> selector" where
  "target_recordSuccess forwardID targetID net =
     mark_success (targetSelectorStateKey forwardID targetID net)"

definition target_recordFailure :: "time \<Rightarrow> string \<Rightarrow> string \<Rightarrow> string \<Rightarrow> selector \<Rightarrow> selector" where
  "target_recordFailure now forwardID targetID net =
     mark_failure now (targetSelectorStateKey forwardID targetID net)"

definition targetAvailableLocked ::
  "string \<Rightarrow> string \<Rightarrow> string \<Rightarrow> time \<Rightarrow> selector \<Rightarrow> bool \<times> selector" where
  "targetAvailableLocked forwardID targetID net now =
     state_available now (targetSelectorStateKey forwardID targetID net)"

definition candidate_recordSuccess :: "string \<Rightarrow> int \<Rightarrow> string \<Rightarrow> string \<Rightarrow> selector \<Rightarrow> selector" where
  "candidate_recordSuccess tunnelID stageIndex nodeID net =
     mark_success (candidateSelectorKey tunnelID stageIndex nodeID net)"

definition candidate_recordFailure ::
  "time \<Rightarrow> string \<Rightarrow> int \<Rightarrow> string \<Rightarrow> string \<Rightarrow> selector \<Rightarrow> selector" where
  "candidate_recordFailure now tunnelID stageIndex nodeID net =
     mark_failure now (candidateSelectorKey tunnelID stageIndex nodeID net)"

definition candidateAvailableLocked ::
  "string \<Rightarrow> int \<Rightarrow> string \<Rightarrow> string \<Rightarrow> time \<Rightarrow> selector \<Rightarrow> bool \<times> selector" where
  "candidateAvailableLocked tunnelID stageIndex nodeID net now =
     state_available now (candidateSelectorKey tunnelID stageIndex nodeID net)"

section \<open>Strategies\<close>

definition normalizeStageStrategy :: "string \<Rightarrow> string" where
  "normalizeStageStrategy strategy =
    (let s = lower_net strategy in
     if s = '''' \<or> s = ''single'' then ''single''
     else if s = ''round_robin'' then ''round_robin''
     else if s = ''random'' then ''random''
     else if s = ''failover'' then ''failover''
     else ''single'')"

definition normalizeForwardStrategy :: "string \<Rightarrow> string" where
  "normalizeForwardStrategy strategy =
    (let s = lower_net strategy in
     if s = '''' \<or> s = ''single'' then ''single''
     else if s = ''round_robin'' then ''round_robin''
     else if s = ''random'' then ''random''
     else if s = ''failover'' then ''failover''
     else ''single'')"

definition strategyForNetwork :: "runtime_stage \<Rightarrow> string \<Rightarrow> string" where
  "strategyForNetwork stage net =
    (let n = lower_net net;
         tcp = normalizeStageStrategy (rst_tcp_strategy stage);
         udp = normalizeStageStrategy (rst_udp_strategy stage)
     in if n = ''tcp'' \<and> (tcp \<noteq> ''single'' \<or> trim_space (rst_tcp_strategy stage) \<noteq> []) then tcp
        else if n = ''udp'' \<and> (udp \<noteq> ''single'' \<or> trim_space (rst_udp_strategy stage) \<noteq> []) then udp
        else normalizeStageStrategy (rst_strategy stage))"

definition forwardStrategyForNetwork :: "forward_runtime \<Rightarrow> string \<Rightarrow> string" where
  "forwardStrategyForNetwork f net =
    (let n = trim_space net;
         s0 = frt_strategy f;
         s1 = (if equal_fold n ''tcp'' \<and> trim_space (frt_tcp_strategy f) \<noteq> []
               then frt_tcp_strategy f else s0);
         s2 = (if equal_fold n ''udp'' \<and> trim_space (frt_udp_strategy f) \<noteq> []
               then frt_udp_strategy f else s1)
     in normalizeForwardStrategy s2)"

section \<open>Candidates\<close>

record stage_candidate =
  cand_index :: nat
  cand_node :: runtime_node

record target_candidate =
  tc_index :: nat
  tc_target :: forward_target

definition runtimeNodeSupportsProtocol :: "runtime_node \<Rightarrow> protocol \<Rightarrow> bool" where
  "runtimeNodeSupportsProtocol n p =
    (if p \<noteq> ProtoTCP \<and> p \<noteq> ProtoUDP then False
     else if rn_protocols n = [] then True
     else List.member (rn_protocols n) p)"

definition stageCandidatesForNetwork :: "runtime_stage \<Rightarrow> string \<Rightarrow> stage_candidate list" where
  "stageCandidatesForNetwork stage net =
    map (\<lambda>(i, n). \<lparr> cand_index = i, cand_node = n \<rparr>)
      (filter (\<lambda>(i, n). runtimeNodeSupportsProtocol n (lower_net net))
        (enumerate 0 (rst_nodes stage)))"

definition relay_targetSupportsProtocol :: "protocol list \<Rightarrow> protocol \<Rightarrow> bool" where
  "relay_targetSupportsProtocol ps p =
    (if p \<noteq> ProtoTCP \<and> p \<noteq> ProtoUDP then False
     else if ps = [] then True
     else List.member ps p)"

text \<open>The id a target is known by: its address where it has none.\<close>

definition named_target :: "forward_target \<Rightarrow> forward_target" where
  "named_target t = (if tgt_id t = [] then t\<lparr> tgt_id := tgt_address t \<rparr> else t)"

definition effective_targets :: "forward_target list \<Rightarrow> string \<Rightarrow> forward_target list" where
  "effective_targets ts legacy =
    (if ts = [] \<and> trim_space legacy \<noteq> [] then [legacy_target legacy] else ts)"

definition forwardTargetsForNetwork ::
  "forward_target list \<Rightarrow> string \<Rightarrow> string \<Rightarrow> target_candidate list" where
  "forwardTargetsForNetwork ts legacy net =
    map (\<lambda>(i, t). \<lparr> tc_index = i, tc_target = named_target t \<rparr>)
      (filter (\<lambda>(i, t). tgt_enabled t \<and> trim_space (tgt_address t) \<noteq> [] \<and>
           relay_targetSupportsProtocol (tgt_protocols t) (lower_net net))
        (enumerate 0 (effective_targets ts legacy)))"

definition forwardTargetAt :: "forward_runtime \<Rightarrow> int \<Rightarrow> forward_target option" where
  "forwardTargetAt f index =
    (if 0 \<le> index \<and> index < int (length (frt_targets f)) then
       Some (named_target (frt_targets f ! nat index))
     else if frt_targets f = [] \<and> index = 0 \<and> trim_space (frt_target f) \<noteq> [] then
       Some (legacy_target (frt_target f))
     else None)"

definition boundedSelectionWeight :: "int \<Rightarrow> int" where
  "boundedSelectionWeight w = (if w \<le> 0 then 1 else if w > maxPoolWeight then maxPoolWeight else w)"

text \<open>The pool of positions, each as often as its weight.\<close>

definition weighted_pool :: "int list \<Rightarrow> nat list" where
  "weighted_pool ws =
    concat (map (\<lambda>(i, w). replicate (nat (boundedSelectionWeight w)) i) (enumerate 0 ws))"

definition weightedCandidatePool :: "stage_candidate list \<Rightarrow> nat list" where
  "weightedCandidatePool cs = weighted_pool (map (\<lambda>c. rn_weight (cand_node c)) cs)"

definition weightedTargetPool :: "target_candidate list \<Rightarrow> nat list" where
  "weightedTargetPool cs = weighted_pool (map (\<lambda>c. tgt_weight (tc_target c)) cs)"

fun dedupe_loop :: "nat list \<Rightarrow> nat list \<Rightarrow> nat list" where
  "dedupe_loop seen [] = []"
| "dedupe_loop seen (i # is) =
    (if i \<in> set seen then dedupe_loop seen is else i # dedupe_loop (i # seen) is)"

definition dedupeCandidatePool :: "nat list list \<Rightarrow> nat list" where
  "dedupeCandidatePool seqs = dedupe_loop [] (concat seqs)"

text \<open>\<open>rand.Shuffle\<close>: exchange position i, from the last down to 1, with a random one up to i.\<close>

definition swap_at :: "nat \<Rightarrow> nat \<Rightarrow> 'a list \<Rightarrow> 'a list" where
  "swap_at i j xs = (xs[i := xs ! j])[j := xs ! i]"

fun shuffle_steps :: "(nat \<Rightarrow> nat) \<Rightarrow> nat \<Rightarrow> 'a list \<Rightarrow> 'a list" where
  "shuffle_steps r 0 xs = xs"
| "shuffle_steps r (Suc i) xs =
     shuffle_steps (\<lambda>n. r (Suc n)) i (swap_at (Suc i) (r 0 mod (Suc i + 1)) xs)"

definition shuffle_pool :: "(nat \<Rightarrow> nat) \<Rightarrow> 'a list \<Rightarrow> 'a list \<times> (nat \<Rightarrow> nat)" where
  "shuffle_pool r xs = (shuffle_steps r (length xs - 1) xs, \<lambda>n. r (n + (length xs - 1)))"

section \<open>Orders\<close>

text \<open>The loop that keeps the available candidates, given by their index and key.\<close>

fun keep_available :: "time \<Rightarrow> (nat \<times> string) list \<Rightarrow> selector \<Rightarrow> nat list \<times> selector" where
  "keep_available now [] s = ([], s)"
| "keep_available now ((i, key) # rest) s =
    (let (ok, s1) = state_available now key s;
         (is, s2) = keep_available now rest s1
     in (if ok then i # is else is, s2))"

text \<open>Round robin: where to start in the pool, and the counter moved on.\<close>

definition next_start :: "string \<Rightarrow> nat \<Rightarrow> selector \<Rightarrow> nat \<times> selector" where
  "next_start key n s =
    (let start = (case map_of (sel_rr s) key of None \<Rightarrow> 0 | Some v \<Rightarrow> v) mod n
     in (start, s\<lparr> sel_rr := AList.update key ((start + 1) mod n) (sel_rr s) \<rparr>))"

definition target_entry :: "string \<Rightarrow> string \<Rightarrow> target_candidate \<Rightarrow> nat \<times> string" where
  "target_entry forwardID net c =
    (tc_index c, targetSelectorStateKey forwardID (tgt_id (tc_target c)) net)"

definition target_order ::
  "time \<Rightarrow> forward_runtime \<Rightarrow> string \<Rightarrow> selector \<Rightarrow> nat list \<times> selector" where
  "target_order now f net s =
    (let cands = forwardTargetsForNetwork (frt_targets f) (frt_target f) net;
         strategy = forwardStrategyForNetwork f net;
         entry = target_entry (frt_id f) net
     in if cands = [] then ([], s)
        else if strategy = ''round_robin'' then
          (let pool = weightedTargetPool cands;
               (start, s1) = next_start (targetSelectorKey (frt_id f) net) (length pool) s
           in keep_available now
                (map (\<lambda>i. entry (cands ! i)) (dedupeCandidatePool [drop start pool, take start pool])) s1)
        else if strategy = ''random'' then
          (let (pool, r) = shuffle_pool (sel_rnd s) (weightedTargetPool cands)
           in keep_available now
                (map (\<lambda>i. entry (cands ! i)) (dedupeCandidatePool [pool])) (s\<lparr> sel_rnd := r \<rparr>))
        else if strategy = ''failover'' then keep_available now (map entry cands) s
        else ([tc_index (hd cands)], s))"

definition candidate_entry :: "string \<Rightarrow> int \<Rightarrow> string \<Rightarrow> stage_candidate \<Rightarrow> nat \<times> string" where
  "candidate_entry tunnelID stageIndex net c =
    (cand_index c, candidateSelectorKey tunnelID stageIndex (rn_node_id (cand_node c)) net)"

definition candidate_order ::
  "time \<Rightarrow> string \<Rightarrow> runtime_stage \<Rightarrow> string \<Rightarrow> selector \<Rightarrow> nat list \<times> selector" where
  "candidate_order now tunnelID stage net s =
    (let cands = stageCandidatesForNetwork stage net;
         strategy = strategyForNetwork stage net;
         entry = candidate_entry tunnelID (rst_index stage) net;
         pool = weightedCandidatePool cands
     in if cands = [] then ([], s)
        else if strategy = ''round_robin'' then
          (if pool = [] then ([], s)
           else (let (start, s1) =
                      next_start (stageSelectorKey tunnelID (rst_index stage) net) (length pool) s
                 in keep_available now
                      (map (\<lambda>i. entry (cands ! i))
                        (dedupeCandidatePool [drop start pool, take start pool])) s1))
        else if strategy = ''random'' then
          (if pool = [] then ([], s)
           else (let (pool', r) = shuffle_pool (sel_rnd s) pool
                 in keep_available now
                      (map (\<lambda>i. entry (cands ! i)) (dedupeCandidatePool [pool'])) (s\<lparr> sel_rnd := r \<rparr>)))
        else if strategy = ''failover'' then keep_available now (map entry cands) s
        else ([cand_index (hd cands)], s))"

section \<open>The cooldown contract\<close>

datatype 'k outcome = Succeeded 'k | Failed time 'k | Probed time 'k

fun outcome_time :: "'k outcome \<Rightarrow> time option" where
  "outcome_time (Succeeded k) = None"
| "outcome_time (Failed t k) = Some t"
| "outcome_time (Probed t k) = Some t"

fun recorded_key :: "'k outcome \<Rightarrow> 'k option" where
  "recorded_key (Succeeded k) = Some k"
| "recorded_key (Failed t k) = Some k"
| "recorded_key (Probed t k) = None"

text \<open>What a history says of a key: available unless its last recorded outcome is a failure at
  some instant n with t before n + d.\<close>

definition history_free :: "'k outcome list \<Rightarrow> 'k \<Rightarrow> duration \<Rightarrow> time \<Rightarrow> bool" where
  "history_free es k d t =
    (case List.find (\<lambda>e. recorded_key e = Some k) (rev es) of
       Some (Failed n _) \<Rightarrow> n + d \<le> t | _ \<Rightarrow> True)"

fun replay :: "('k \<Rightarrow> 's \<Rightarrow> 's) \<Rightarrow> (time \<Rightarrow> 'k \<Rightarrow> 's \<Rightarrow> 's) \<Rightarrow> (time \<Rightarrow> 'k \<Rightarrow> 's \<Rightarrow> 's) \<Rightarrow>
    'k outcome list \<Rightarrow> 's \<Rightarrow> 's" where
  "replay ok bad probe [] s = s"
| "replay ok bad probe (e # es) s = replay ok bad probe es
    (case e of Succeeded k \<Rightarrow> ok k s | Failed t k \<Rightarrow> bad t k s | Probed t k \<Rightarrow> probe t k s)"

lemma replay_append:
  "replay ok bad probe (es @ fs) s = replay ok bad probe fs (replay ok bad probe es s)"
  by (induction ok bad probe es s rule: replay.induct) simp_all

locale cooldown =
  fixes ok :: "'k \<Rightarrow> 's \<Rightarrow> 's"
    and bad :: "time \<Rightarrow> 'k \<Rightarrow> 's \<Rightarrow> 's"
    and probe :: "time \<Rightarrow> 'k \<Rightarrow> 's \<Rightarrow> 's"
    and free :: "time \<Rightarrow> 'k \<Rightarrow> 's \<Rightarrow> bool"
    and ready :: "duration \<Rightarrow> 's \<Rightarrow> bool"
  assumes free_ok: "free t j (ok k s) \<longleftrightarrow> j = k \<or> free t j s"
    and free_bad: "ready d s \<Longrightarrow> 0 \<le> n \<Longrightarrow>
      free t j (bad n k s) \<longleftrightarrow> (if j = k then n + d \<le> t else free t j s)"
    and free_probe: "u \<le> t \<Longrightarrow> free t j (probe u k s) \<longleftrightarrow> free t j s"
    and ready_ok: "ready d s \<Longrightarrow> ready d (ok k s)"
    and ready_bad: "ready d s \<Longrightarrow> ready d (bad n k s)"
    and ready_probe: "ready d s \<Longrightarrow> ready d (probe n k s)"
begin

lemma ready_replay: "ready d s \<Longrightarrow> ready d (replay ok bad probe es s)"
  by (induction es arbitrary: s) (auto intro: ready_ok ready_bad ready_probe split: outcome.splits)

lemma free_replay:
  assumes "ready d s" and "free t k s"
    and "\<forall>e\<in>set es. \<forall>n. outcome_time e = Some n \<longrightarrow> 0 \<le> n \<and> n \<le> t"
  shows "free t k (replay ok bad probe es s) \<longleftrightarrow> history_free es k d t"
  using assms
proof (induction es rule: rev_induct)
  case Nil
  then show ?case by (simp add: history_free_def)
next
  case (snoc e es)
  then have IH: "free t k (replay ok bad probe es s) \<longleftrightarrow> history_free es k d t" by auto
  have r: "ready d (replay ok bad probe es s)" using snoc.prems(1) by (rule ready_replay)
  show ?case
  proof (cases e)
    case (Succeeded k')
    then show ?thesis using IH by (auto simp: replay_append free_ok history_free_def)
  next
    case (Failed n k')
    then have "0 \<le> n" using snoc.prems(3) by auto
    then show ?thesis using IH Failed by (auto simp: replay_append free_bad [OF r] history_free_def)
  next
    case (Probed n k')
    then have "n \<le> t" using snoc.prems(3) by auto
    then show ?thesis using IH Probed by (simp add: replay_append free_probe history_free_def)
  qed
qed

end

section \<open>The selectors keep the contract\<close>

definition key_free :: "time \<Rightarrow> string \<Rightarrow> selector \<Rightarrow> bool" where
  "key_free now key s = fst (state_available now key s)"

definition fails_ok :: "(string \<times> cand_state) list \<Rightarrow> bool" where
  "fails_ok m \<longleftrightarrow> (\<forall>st\<in>snd ` set m. 0 \<le> cs_fails st)"

text \<open>A failure reaches the threshold, and the timeout is d.\<close>

definition sel_ready :: "duration \<Rightarrow> selector \<Rightarrow> bool" where
  "sel_ready d s \<longleftrightarrow> sel_max_fails s \<le> 1 \<and> sel_timeout s = d \<and> 0 < d \<and>
     fails_ok (sel_states s)"

lemma key_free_iff:
  "key_free now key s \<longleftrightarrow> (case map_of (sel_states s) key of None \<Rightarrow> True
     | Some st \<Rightarrow> cs_until st = zero_time \<or> cs_until st \<le> now)"
  by (auto simp: key_free_def state_available_def split: option.splits)

lemma set_update_subset: "set (AList.update k v m) \<subseteq> insert (k, v) (set m)"
  by (induction m) auto

lemma update_fails: "fails_ok m \<Longrightarrow> 0 \<le> cs_fails v \<Longrightarrow> fails_ok (AList.update key v m)"
  using set_update_subset [of key v m] by (fastforce simp: fails_ok_def)

lemma ready_mark_success: "sel_ready d s \<Longrightarrow> sel_ready d (mark_success key s)"
  by (auto simp: sel_ready_def mark_success_def zero_state_def intro!: update_fails)

lemma ready_fails: "sel_ready d s \<Longrightarrow> map_of (sel_states s) key = Some st \<Longrightarrow> 0 \<le> cs_fails st"
  by (force simp: sel_ready_def fails_ok_def dest!: map_of_SomeD)

lemma ready_mark_failure: "sel_ready d s \<Longrightarrow> sel_ready d (mark_failure now key s)"
  using ready_fails [of d s key]
  by (auto simp: sel_ready_def mark_failure_def Let_def zero_state_def defaultCandidateMaxFails_def
      split: option.splits intro!: update_fails)

lemma ready_probe: "sel_ready d s \<Longrightarrow> sel_ready d (snd (state_available now key s))"
  by (auto simp: sel_ready_def state_available_def split: option.splits intro!: update_fails)

interpretation keys: cooldown mark_success mark_failure
  "\<lambda>now key s. snd (state_available now key s)" key_free sel_ready
proof unfold_locales
  show "key_free t j (mark_success k s) \<longleftrightarrow> j = k \<or> key_free t j s" for t j k s
    by (auto simp: key_free_iff mark_success_def zero_state_def map_simps)
  show "key_free t j (mark_failure n k s) \<longleftrightarrow> (if j = k then n + d \<le> t else key_free t j s)"
    if "sel_ready d s" and "0 \<le> n" for d s n t j k
    using that ready_fails [of d s k]
    by (auto simp: key_free_iff mark_failure_def Let_def sel_ready_def defaultCandidateMaxFails_def
        zero_state_def zero_time_def map_simps split: option.splits)
  show "key_free t j (snd (state_available u k s)) \<longleftrightarrow> key_free t j s" if "u \<le> t" for u t j k s
    using that
    by (auto simp: key_free_iff state_available_def map_simps split: option.splits)
qed (rule ready_mark_success ready_mark_failure ready_probe, assumption)+

text \<open>Histories of calls with the callers' arguments, read as histories of keys.\<close>

lemma replay_map:
  "replay (\<lambda>k. ok (key k)) (\<lambda>t k. bad t (key k)) (\<lambda>t k. probe t (key k)) es s =
   replay ok bad probe (map (map_outcome key) es) s"
  by (induction es arbitrary: s) (auto split: outcome.splits)

lemma outcome_time_map [simp]: "outcome_time (map_outcome key e) = outcome_time e"
  by (cases e) auto

fun target_key :: "string \<times> string \<times> string \<Rightarrow> string" where
  "target_key (f, t, net) = targetSelectorStateKey f t net"

fun candidate_key :: "string \<times> int \<times> string \<times> string \<Rightarrow> string" where
  "candidate_key (t, i, n, net) = candidateSelectorKey t i n net"

definition target_history ::
  "(string \<times> string \<times> string) outcome list \<Rightarrow> selector \<Rightarrow> selector" where
  "target_history =
     replay (\<lambda>(f, t, net). target_recordSuccess f t net)
       (\<lambda>now (f, t, net). target_recordFailure now f t net)
       (\<lambda>now (f, t, net) s. snd (targetAvailableLocked f t net now s))"

definition candidate_history ::
  "(string \<times> int \<times> string \<times> string) outcome list \<Rightarrow> selector \<Rightarrow> selector" where
  "candidate_history =
     replay (\<lambda>(t, i, n, net). candidate_recordSuccess t i n net)
       (\<lambda>now (t, i, n, net). candidate_recordFailure now t i n net)
       (\<lambda>now (t, i, n, net) s. snd (candidateAvailableLocked t i n net now s))"

lemma target_history_keys:
  "target_history es s = replay mark_success mark_failure
     (\<lambda>now key s. snd (state_available now key s)) (map (map_outcome target_key) es) s"
proof -
  have eq: "target_history = replay (\<lambda>k. mark_success (target_key k))
      (\<lambda>t k. mark_failure t (target_key k)) (\<lambda>t k s. snd (state_available t (target_key k) s))"
    unfolding target_history_def
    by (intro ext arg_cong3 [where f = "\<lambda>a b c. replay a b c _ _"])
      (auto simp: target_recordSuccess_def target_recordFailure_def targetAvailableLocked_def)
  show ?thesis
    unfolding eq by (rule replay_map [where ok = mark_success and bad = mark_failure and
        key = target_key and probe = "\<lambda>now key s. snd (state_available now key s)"])
qed

lemma candidate_history_keys:
  "candidate_history es s = replay mark_success mark_failure
     (\<lambda>now key s. snd (state_available now key s)) (map (map_outcome candidate_key) es) s"
proof -
  have eq: "candidate_history = replay (\<lambda>k. mark_success (candidate_key k))
      (\<lambda>t k. mark_failure t (candidate_key k)) (\<lambda>t k s. snd (state_available t (candidate_key k) s))"
    unfolding candidate_history_def
    by (intro ext arg_cong3 [where f = "\<lambda>a b c. replay a b c _ _"])
      (auto simp: candidate_recordSuccess_def candidate_recordFailure_def candidateAvailableLocked_def)
  show ?thesis
    unfolding eq by (rule replay_map [where ok = mark_success and bad = mark_failure and
        key = candidate_key and probe = "\<lambda>now key s. snd (state_available now key s)"])
qed

lemma ready_new: "0 < d \<Longrightarrow> sel_ready d (setFailTimeout d (new_selector rnd))"
  by (simp add: sel_ready_def fails_ok_def setFailTimeout_def new_selector_def defaultCandidateMaxFails_def)

lemma free_new: "key_free t k (setFailTimeout d (new_selector rnd))"
  by (simp add: key_free_iff setFailTimeout_def new_selector_def)

text \<open>whatever sequence of successes, failures and availability checks a target selector has
  seen up to now, a target is available exactly when its last recorded outcome is not a failure
  younger than the fail timeout; checks and outcomes of other keys change nothing.\<close>

theorem target_cooldown:
  assumes "0 < d" and "\<forall>e\<in>set es. \<forall>n. outcome_time e = Some n \<longrightarrow> 0 \<le> n \<and> n \<le> now"
  shows "fst (targetAvailableLocked f t net now
           (target_history es (setFailTimeout d (new_selector rnd)))) \<longleftrightarrow>
         history_free (map (map_outcome target_key) es) (targetSelectorStateKey f t net) d now"
  using keys.free_replay [OF ready_new [OF assms(1)] free_new, of "map (map_outcome target_key) es" now
      "targetSelectorStateKey f t net" rnd] assms(2)
  by (simp add: target_history_keys targetAvailableLocked_def key_free_def)

text \<open>the same for the nodes of a stage: after any sequence of outcomes and checks a node is
  available exactly when its last recorded outcome is not a failure younger than the fail timeout.\<close>

theorem candidate_cooldown:
  assumes "0 < d" and "\<forall>e\<in>set es. \<forall>n. outcome_time e = Some n \<longrightarrow> 0 \<le> n \<and> n \<le> now"
  shows "fst (candidateAvailableLocked t i n net now
           (candidate_history es (setFailTimeout d (new_selector rnd)))) \<longleftrightarrow>
         history_free (map (map_outcome candidate_key) es) (candidateSelectorKey t i n net) d now"
  using keys.free_replay [OF ready_new [OF assms(1)] free_new, of "map (map_outcome candidate_key) es" now
      "candidateSelectorKey t i n net" rnd] assms(2)
  by (simp add: candidate_history_keys candidateAvailableLocked_def key_free_def)

text \<open>A tunnel id without a colon makes the key of a node injective; with colons two nodes can share
  one, and a failure of one then disables the other.\<close>

lemma append_colon_inject:
  assumes "CHR '':'' \<notin> set a" and "CHR '':'' \<notin> set a'"
  shows "a @ CHR '':'' # b = a' @ CHR '':'' # b' \<longleftrightarrow> a = a' \<and> b = b'"
proof
  assume eq: "a @ CHR '':'' # b = a' @ CHR '':'' # b'"
  have t: "\<And>x. CHR '':'' \<notin> set x \<Longrightarrow> takeWhile (\<lambda>c. c \<noteq> CHR '':'') (x @ CHR '':'' # y) = x" for y
    by (subst takeWhile_append2) auto
  from arg_cong [OF eq, of "takeWhile (\<lambda>c. c \<noteq> CHR '':'')"] have "a = a'"
    by (simp only: t assms not_False_eq_True)
  with eq show "a = a' \<and> b = b'" by simp
qed simp

lemma colon_free_net [simp]: "CHR '':'' \<notin> set ''tcp''" "CHR '':'' \<notin> set ''udp''"
  by auto

lemma colon_free_itoa [simp]: "CHR '':'' \<notin> set (itoa i)"
  by (auto simp: itoa_def)

lemma itoa_inject [simp]: "0 \<le> i \<Longrightarrow> 0 \<le> j \<Longrightarrow> itoa i = itoa j \<longleftrightarrow> i = j"
  by (auto simp: itoa_def nat_eq_iff)

theorem candidate_key_inject:
  assumes "CHR '':'' \<notin> set t" and "CHR '':'' \<notin> set t'" and "0 \<le> i" and "0 \<le> i'"
    and "lower_net net \<in> {''tcp'', ''udp''}" and "lower_net net' \<in> {''tcp'', ''udp''}"
  shows "candidateSelectorKey t i n net = candidateSelectorKey t' i' n' net' \<longleftrightarrow>
    t = t' \<and> i = i' \<and> lower_net net = lower_net net' \<and> n = n'"
proof -
  have c: "CHR '':'' \<notin> set (lower_net net)" "CHR '':'' \<notin> set (lower_net net')"
    using assms by auto
  show ?thesis
    unfolding candidateSelectorKey_def append_Cons append_Nil
    by (simp only: append_colon_inject assms c colon_free_itoa itoa_inject not_False_eq_True)
qed

lemma candidate_key_collision:
  "candidateSelectorKey ''a:1:tcp'' 0 ''n'' ''tcp'' = candidateSelectorKey ''a'' 1 ''0:tcp:n'' ''tcp''"
  by code_simp

section \<open>What an order contains\<close>

lemma keep_available_free:
  "u \<le> t \<Longrightarrow> key_free t k (snd (keep_available u es s)) \<longleftrightarrow> key_free t k s"
proof (induction u es s rule: keep_available.induct)
  case (1 now s)
  then show ?case by simp
next
  case (2 now i key rest s)
  then show ?case
    by (cases "state_available now key s")
      (auto simp: split_beta dest: keys.free_probe [of now t k key s])
qed

lemma keep_available_fst:
  "fst (keep_available now es s) = map fst (filter (\<lambda>e. key_free now (snd e) s) es)"
proof (induction es arbitrary: s)
  case Nil
  then show ?case by simp
next
  case (Cons e es)
  obtain i key where e: "e = (i, key)" by (cases e)
  have "key_free now k (snd (state_available now key s)) = key_free now k s" for k
    by (rule keys.free_probe) simp
  with Cons show ?case
    by (simp add: e split_beta key_free_def)
qed

lemma dedupe_loop_props:
  "distinct (dedupe_loop seen xs) \<and> set (dedupe_loop seen xs) = set xs - set seen"
  by (induction seen xs rule: dedupe_loop.induct) auto

lemma dedupe_set [simp]: "set (dedupeCandidatePool seqs) = set (concat seqs)"
  and dedupe_distinct [simp]: "distinct (dedupeCandidatePool seqs)"
  by (simp_all add: dedupeCandidatePool_def dedupe_loop_props)

lemma weight_positive: "0 < nat (boundedSelectionWeight w)"
  by (simp add: boundedSelectionWeight_def maxPoolWeight_def)

lemma set_weighted_pool [simp]: "set (weighted_pool ws) = {..<length ws}"
proof -
  have r: "set (replicate (nat (boundedSelectionWeight w)) i) = {i}" for w and i :: nat
    using weight_positive [of w] by (simp add: set_replicate_conv_if)
  have "set (weighted_pool ws) = fst ` set (enumerate 0 ws)"
    by (force simp: weighted_pool_def r simp del: set_replicate set_replicate_conv_if)
  also have "\<dots> = {..<length ws}"
    by (simp only: set_map [symmetric] map_fst_enumerate) auto
  finally show ?thesis .
qed

lemma mset_swap_at: "i < length xs \<Longrightarrow> j < length xs \<Longrightarrow> mset (swap_at i j xs) = mset xs"
  by (simp add: swap_at_def mset_swap)

lemma length_swap_at [simp]: "length (swap_at i j xs) = length xs"
  by (simp add: swap_at_def)

text \<open>Every stream of random numbers gives a permutation.\<close>

lemma mset_shuffle_steps: "i < length xs \<Longrightarrow> mset (shuffle_steps r i xs) = mset xs"
proof (induction r i xs rule: shuffle_steps.induct)
  case (2 r i xs)
  have "r 0 mod Suc (Suc i) < Suc (Suc i)" by (rule mod_less_divisor) simp
  then have "r 0 mod Suc (Suc i) < length xs" using 2(2) by linarith
  with 2 show ?case by (simp add: mset_swap_at)
qed simp

lemma mset_shuffle [simp]: "mset (fst (shuffle_pool r xs)) = mset xs"
proof (cases xs)
  case Nil
  then show ?thesis by (simp add: shuffle_pool_def)
next
  case (Cons x ys)
  then show ?thesis by (simp add: shuffle_pool_def mset_shuffle_steps)
qed

lemma set_shuffle [simp]: "set (fst (shuffle_pool r xs)) = set xs"
  by (metis mset_shuffle set_mset_mset)

text \<open>A permutation of the positions of a list visits its elements once each.\<close>

lemma mset_visit:
  "distinct p \<Longrightarrow> set p = {..<length cs} \<Longrightarrow> mset (map (\<lambda>i. f (cs ! i)) p) = mset (map f cs)"
proof -
  assume p: "distinct p" "set p = {..<length cs}"
  then have "mset p = mset_set {..<length cs}" by (metis mset_set_set)
  then have "mset p = mset [0..<length cs]" by (simp add: lessThan_atLeast0)
  then have "mset (map (\<lambda>i. f (cs ! i)) p) = mset (map (\<lambda>i. f (cs ! i)) [0..<length cs])"
    by (simp only: mset_map)
  also have "map (\<lambda>i. f (cs ! i)) [0..<length cs] = map f cs"
    by (intro nth_equalityI) auto
  finally show ?thesis .
qed

lemma mset_kept:
  assumes "distinct p" and "set p = {..<length cs}"
  shows "mset (fst (keep_available now (map (\<lambda>i. entry (cs ! i)) p) s)) =
    mset (map (fst \<circ> entry) (filter (\<lambda>c. key_free now (snd (entry c)) s) cs))"
proof -
  have "mset (fst (keep_available now (map (\<lambda>i. entry (cs ! i)) p) s)) =
      image_mset fst (filter_mset (\<lambda>e. key_free now (snd e) s) (mset (map (\<lambda>i. entry (cs ! i)) p)))"
    by (simp add: keep_available_fst)
  also have "mset (map (\<lambda>i. entry (cs ! i)) p) = mset (map entry cs)"
    using assms by (rule mset_visit)
  finally show ?thesis
    by (simp add: filter_mset_image_mset comp_def image_mset.compositionality)
qed

lemma next_start_props:
  "fst (next_start key n s) = (case map_of (sel_rr s) key of None \<Rightarrow> 0 | Some v \<Rightarrow> v) mod n"
  "sel_states (snd (next_start key n s)) = sel_states s"
  by (simp_all add: next_start_def Let_def)

lemma key_free_states: "sel_states s = sel_states s' \<Longrightarrow> key_free t k s = key_free t k s'"
  by (simp add: key_free_iff)

lemma key_free_next_start [simp]: "key_free t k (snd (next_start key n s)) = key_free t k s"
  by (rule key_free_states) (rule next_start_props)

lemma key_free_rnd [simp]: "key_free t k (s\<lparr> sel_rnd := r \<rparr>) = key_free t k s"
  by (rule key_free_states) simp

definition usable_targets :: "time \<Rightarrow> forward_runtime \<Rightarrow> string \<Rightarrow> selector \<Rightarrow> nat list" where
  "usable_targets now f net s =
    map tc_index (filter (\<lambda>c. key_free now (targetSelectorStateKey (frt_id f) (tgt_id (tc_target c)) net) s)
      (forwardTargetsForNetwork (frt_targets f) (frt_target f) net))"

definition usable_candidates :: "time \<Rightarrow> string \<Rightarrow> runtime_stage \<Rightarrow> string \<Rightarrow> selector \<Rightarrow> nat list" where
  "usable_candidates now tid stage net s =
    map cand_index (filter (\<lambda>c.
        key_free now (candidateSelectorKey tid (rst_index stage) (rn_node_id (cand_node c)) net) s)
      (stageCandidatesForNetwork stage net))"

lemma distinct_indices:
  "distinct (map tc_index (forwardTargetsForNetwork ts legacy net))"
  "distinct (map cand_index (stageCandidatesForNetwork stage net))"
proof -
  have e: "map fst (filter P (enumerate 0 xs)) = filter (\<lambda>i. P (i, xs ! i)) [0..<length xs]"
    for P and xs :: "'a list"
  proof -
    have "enumerate 0 xs = map (\<lambda>i. (i, xs ! i)) [0..<length xs]"
      by (intro nth_equalityI) (auto simp: nth_enumerate_eq)
    then show ?thesis by (simp add: filter_map comp_def)
  qed
  have "map tc_index (forwardTargetsForNetwork ts legacy net) = map fst
      (filter (\<lambda>(i, t). tgt_enabled t \<and> trim_space (tgt_address t) \<noteq> [] \<and>
        relay_targetSupportsProtocol (tgt_protocols t) (lower_net net))
      (enumerate 0 (effective_targets ts legacy)))"
    by (simp add: forwardTargetsForNetwork_def comp_def split_beta)
  then show "distinct (map tc_index (forwardTargetsForNetwork ts legacy net))"
    by (simp add: e)
  have "map cand_index (stageCandidatesForNetwork stage net) = map fst
      (filter (\<lambda>(i, n). runtimeNodeSupportsProtocol n (lower_net net)) (enumerate 0 (rst_nodes stage)))"
    by (simp add: stageCandidatesForNetwork_def comp_def split_beta)
  then show "distinct (map cand_index (stageCandidatesForNetwork stage net))"
    by (simp add: e)
qed

lemma distinct_map_filter_index: "distinct (map f xs) \<Longrightarrow> distinct (map f (filter P xs))"
  by (rule distinct_map_filter)

lemma kept_entries:
  "fst (keep_available now (map entry cs) s) =
     map (fst \<circ> entry) (filter (\<lambda>c. key_free now (snd (entry c)) s) cs)"
  by (simp add: keep_available_fst filter_map comp_def)

lemma pool_sets:
  "set (weightedTargetPool cs) = {..<length cs}" "set (weightedCandidatePool ds) = {..<length ds}"
  by (simp_all add: weightedTargetPool_def weightedCandidatePool_def)

lemma pool_nonempty:
  assumes "cs \<noteq> []"
  shows "weightedCandidatePool cs \<noteq> []"
proof -
  have "0 \<in> set (weightedCandidatePool cs)" using assms by (simp add: pool_sets)
  then show ?thesis by force
qed

lemma target_pool_nonempty:
  assumes "cs \<noteq> []"
  shows "weightedTargetPool cs \<noteq> []"
proof -
  have "0 \<in> set (weightedTargetPool cs)" using assms by (simp add: pool_sets)
  then show ?thesis by force
qed

lemma rotation_set: "set (concat [drop n xs, take n xs]) = set xs"
  by (metis append_Nil2 concat.simps set_append append_take_drop_id sup_commute)

lemma target_order_lemma:
  "let strategy = forwardStrategyForNetwork f net; order = fst (target_order now f net s) in
     distinct order \<and>
     (if strategy = ''failover'' then order = usable_targets now f net s
      else if strategy = ''round_robin'' \<or> strategy = ''random''
      then mset order = mset (usable_targets now f net s)
      else order = take 1 (map tc_index (forwardTargetsForNetwork (frt_targets f) (frt_target f) net)))"
proof -
  let ?cs = "forwardTargetsForNetwork (frt_targets f) (frt_target f) net"
  let ?e = "target_entry (frt_id f) net"
  let ?st = "forwardStrategyForNetwork f net"
  let ?order = "fst (target_order now f net s)"
  have usable: "map (fst \<circ> ?e) (filter (\<lambda>c. key_free now (snd (?e c)) s) ?cs) = usable_targets now f net s"
    by (simp add: usable_targets_def target_entry_def comp_def)
  have dist: "distinct (usable_targets now f net s)"
    unfolding usable_targets_def by (intro distinct_map_filter_index distinct_indices)
  have perm: "mset (fst (keep_available now (map (\<lambda>i. ?e (?cs ! i)) (dedupeCandidatePool seqs)) s'))
      = mset (usable_targets now f net s)"
    if "set (concat seqs) = {..<length ?cs}" and "\<And>k. key_free now k s' = key_free now k s" for seqs s'
    using mset_kept [of "dedupeCandidatePool seqs" ?cs now ?e s'] that usable by simp
  consider (none) "?cs = []" | (rr) "?cs \<noteq> []" "?st = ''round_robin''"
    | (rnd) "?cs \<noteq> []" "?st = ''random''" | (fo) "?cs \<noteq> []" "?st = ''failover''"
    | (one) "?cs \<noteq> []" "?st \<notin> {''round_robin'', ''random'', ''failover''}"
    by blast
  then show ?thesis
  proof cases
    case none
    then show ?thesis by (simp add: target_order_def Let_def usable_targets_def)
  next
    case rr
    then have "mset ?order = mset (usable_targets now f net s)"
      unfolding target_order_def Let_def
      by (simp add: split_beta) (rule perm, simp only: rotation_set pool_sets, simp)
    with rr dist show ?thesis by (simp add: Let_def) (metis mset_eq_imp_distinct_iff)
  next
    case rnd
    then have "mset ?order = mset (usable_targets now f net s)"
      unfolding target_order_def Let_def
      by (simp add: split_beta) (rule perm, simp add: pool_sets, simp)
    with rnd dist show ?thesis by (simp add: Let_def) (metis mset_eq_imp_distinct_iff)
  next
    case fo
    then have "?order = usable_targets now f net s"
      unfolding target_order_def Let_def by (simp add: kept_entries usable)
    with fo dist show ?thesis by (simp add: Let_def)
  next
    case one
    then have "?order = [tc_index (hd ?cs)]" by (auto simp: target_order_def Let_def)
    with one show ?thesis by (cases ?cs) (auto simp: Let_def)
  qed
qed

text \<open>the order of targets holds each usable target (enabled, with an address, carrying the
  protocol, not cooling down) exactly once: in configuration order for failover, in some order for
  round robin and random; any other strategy gives the first target alone, cooling down or not.\<close>

theorem target_order_content:
  "let strategy = forwardStrategyForNetwork f net; order = fst (target_order now f net s) in
     distinct order \<and>
     (if strategy = ''failover'' then order = usable_targets now f net s
      else if strategy = ''round_robin'' \<or> strategy = ''random''
      then mset order = mset (usable_targets now f net s)
      else order = take 1 (map tc_index (forwardTargetsForNetwork (frt_targets f) (frt_target f) net)))"
  by (rule target_order_lemma)

lemma candidate_order_lemma:
  "let strategy = strategyForNetwork stage net; order = fst (candidate_order now tid stage net s) in
     distinct order \<and>
     (if strategy = ''failover'' then order = usable_candidates now tid stage net s
      else if strategy = ''round_robin'' \<or> strategy = ''random''
      then mset order = mset (usable_candidates now tid stage net s)
      else order = take 1 (map cand_index (stageCandidatesForNetwork stage net)))"
proof -
  let ?cs = "stageCandidatesForNetwork stage net"
  let ?e = "candidate_entry tid (rst_index stage) net"
  let ?st = "strategyForNetwork stage net"
  let ?order = "fst (candidate_order now tid stage net s)"
  have usable: "map (fst \<circ> ?e) (filter (\<lambda>c. key_free now (snd (?e c)) s) ?cs)
      = usable_candidates now tid stage net s"
    by (simp add: usable_candidates_def candidate_entry_def comp_def)
  have dist: "distinct (usable_candidates now tid stage net s)"
    unfolding usable_candidates_def by (intro distinct_map_filter_index distinct_indices)
  have perm: "mset (fst (keep_available now (map (\<lambda>i. ?e (?cs ! i)) (dedupeCandidatePool seqs)) s'))
      = mset (usable_candidates now tid stage net s)"
    if "set (concat seqs) = {..<length ?cs}" and "\<And>k. key_free now k s' = key_free now k s" for seqs s'
    using mset_kept [of "dedupeCandidatePool seqs" ?cs now ?e s'] that usable by simp
  have pool: "?cs \<noteq> [] \<Longrightarrow> weightedCandidatePool ?cs \<noteq> []"
    by (rule pool_nonempty)
  consider (none) "?cs = []" | (rr) "?cs \<noteq> []" "?st = ''round_robin''"
    | (rnd) "?cs \<noteq> []" "?st = ''random''" | (fo) "?cs \<noteq> []" "?st = ''failover''"
    | (one) "?cs \<noteq> []" "?st \<notin> {''round_robin'', ''random'', ''failover''}"
    by blast
  then show ?thesis
  proof cases
    case none
    then show ?thesis by (simp add: candidate_order_def Let_def usable_candidates_def)
  next
    case rr
    then have "mset ?order = mset (usable_candidates now tid stage net s)"
      unfolding candidate_order_def Let_def
      by (simp add: split_beta pool) (rule perm, simp only: rotation_set pool_sets, simp)
    with rr dist show ?thesis by (simp add: Let_def) (metis mset_eq_imp_distinct_iff)
  next
    case rnd
    then have "mset ?order = mset (usable_candidates now tid stage net s)"
      unfolding candidate_order_def Let_def
      by (simp add: split_beta pool) (rule perm, simp add: pool_sets, simp)
    with rnd dist show ?thesis by (simp add: Let_def) (metis mset_eq_imp_distinct_iff)
  next
    case fo
    then have "?order = usable_candidates now tid stage net s"
      unfolding candidate_order_def Let_def by (simp add: kept_entries usable)
    with fo dist show ?thesis by (simp add: Let_def)
  next
    case one
    then have "?order = [cand_index (hd ?cs)]" by (auto simp: candidate_order_def Let_def)
    with one show ?thesis by (cases ?cs) (auto simp: Let_def)
  qed
qed

text \<open>the same for the nodes of the next stage.\<close>

theorem candidate_order_content:
  "let strategy = strategyForNetwork stage net; order = fst (candidate_order now tid stage net s) in
     distinct order \<and>
     (if strategy = ''failover'' then order = usable_candidates now tid stage net s
      else if strategy = ''round_robin'' \<or> strategy = ''random''
      then mset order = mset (usable_candidates now tid stage net s)
      else order = take 1 (map cand_index (stageCandidatesForNetwork stage net)))"
  by (rule candidate_order_lemma)

section \<open>Round robin is fair\<close>

text \<open>What happens to the selector of the targets: it is asked for the order of a forward, a target was reached,
  or it was not.\<close>

datatype target_event =
    Asked time forward_runtime string
  | Reached string string string
  | Missed time string string string

fun target_step :: "target_event \<Rightarrow> selector \<Rightarrow> selector" where
  "target_step (Asked now g net) s = snd (target_order now g net s)"
| "target_step (Reached f i net) s = target_recordSuccess f i net s"
| "target_step (Missed now f i net) s = target_recordFailure now f i net s"

fun event_times :: "target_event list \<Rightarrow> time list" where
  "event_times [] = []"
| "event_times (Asked t g net # es) = t # event_times es"
| "event_times (Reached f i net # es) = event_times es"
| "event_times (Missed t f i net # es) = t # event_times es"

text \<open>What an event records.\<close>

fun recorded :: "target_event \<Rightarrow> string outcome list" where
  "recorded (Asked t g net) = []"
| "recorded (Reached f i net) = [Succeeded (targetSelectorStateKey f i net)]"
| "recorded (Missed t f i net) = [Failed t (targetSelectorStateKey f i net)]"

text \<open>The orders answered for one forward and network.\<close>

fun orders_for :: "forward_runtime \<Rightarrow> string \<Rightarrow> target_event list \<Rightarrow> selector \<Rightarrow> nat list list" where
  "orders_for f net [] s = []"
| "orders_for f net (e # es) s =
    (case e of Asked now g n \<Rightarrow> (if g = f \<and> n = net then [fst (target_order now g n s)] else []) | _ \<Rightarrow> []) @
      orders_for f net es (target_step e s)"

text \<open>Whenever the order of the forward is asked for, the last that was recorded of each of its targets
  is no failure, or one at least d ago; \<open>h\<close> is what was recorded before.  Other forwards and networks have
  their own counter.\<close>

fun targets_up :: "duration \<Rightarrow> forward_runtime \<Rightarrow> string \<Rightarrow> string outcome list \<Rightarrow> target_event list \<Rightarrow> bool" where
  "targets_up d f net h [] = True"
| "targets_up d f net h (e # es) =
    ((case e of Asked now g n \<Rightarrow>
        if g = f \<and> n = net then
          (\<forall>c\<in>set (forwardTargetsForNetwork (frt_targets f) (frt_target f) net).
             history_free h (targetSelectorStateKey (frt_id f) (tgt_id (tc_target c)) net) d now)
        else targetSelectorKey (frt_id g) n \<noteq> targetSelectorKey (frt_id f) net
      | _ \<Rightarrow> True) \<and> targets_up d f net (h @ recorded e) es)"

lemma ready_keep_available: "sel_ready d s \<Longrightarrow> sel_ready d (snd (keep_available now es s))"
proof (induction es arbitrary: s)
  case (Cons e es)
  then show ?case by (cases e) (simp add: split_beta ready_probe)
qed simp

lemma ready_states: "sel_ready d s \<Longrightarrow> sel_ready d (s\<lparr> sel_rr := rr \<rparr>)" "sel_ready d s \<Longrightarrow> sel_ready d (s\<lparr> sel_rnd := r \<rparr>)"
  by (simp_all add: sel_ready_def)

lemma ready_target_order: "sel_ready d s \<Longrightarrow> sel_ready d (snd (target_order now f net s))"
  by (simp add: target_order_def Let_def split_beta next_start_def ready_keep_available ready_states)

lemma free_target_order: "u \<le> t \<Longrightarrow> key_free t k (snd (target_order u f net s)) \<longleftrightarrow> key_free t k s"
  by (simp add: target_order_def Let_def split_beta keep_available_free)

lemma keep_available_rr: "sel_rr (snd (keep_available now es s)) = sel_rr s"
proof (induction es arbitrary: s)
  case (Cons e es)
  then show ?case by (cases e) (simp add: split_beta state_available_def split: option.split)
qed simp

text \<open>At every instant from the last event on, a key is available as its history says.\<close>

definition agrees :: "duration \<Rightarrow> time \<Rightarrow> string outcome list \<Rightarrow> selector \<Rightarrow> bool" where
  "agrees d now h s \<longleftrightarrow> sel_ready d s \<and> (\<forall>t\<ge>now. \<forall>k. key_free t k s \<longleftrightarrow> history_free h k d t)"

lemma history_free_snoc [simp]:
  "history_free (h @ [Succeeded j]) k d t \<longleftrightarrow> k = j \<or> history_free h k d t"
  "history_free (h @ [Failed n j]) k d t \<longleftrightarrow> (if k = j then n + d \<le> t else history_free h k d t)"
  by (auto simp: history_free_def)

lemma selector_agrees_step:
  assumes "agrees d now h s" and "sorted (now # event_times [e])" and "0 \<le> now"
  shows "agrees d (List.last (now # event_times [e])) (h @ recorded e) (target_step e s)"
proof (cases e)
  case (Asked t g n)
  with assms show ?thesis by (simp add: agrees_def ready_target_order free_target_order)
next
  case (Reached f i n)
  with assms show ?thesis by (simp add: agrees_def target_recordSuccess_def ready_mark_success keys.free_ok)
next
  case (Missed t f i n)
  with assms show ?thesis
    by (auto simp: agrees_def target_recordFailure_def ready_mark_failure keys.free_bad)
qed

lemma event_times_append: "event_times (es @ es') = event_times es @ event_times es'"
proof (induction es)
  case (Cons e es)
  then show ?case by (cases e) simp_all
qed simp

lemma agrees_run:
  "agrees d now h s \<Longrightarrow> sorted (now # event_times es) \<Longrightarrow> 0 \<le> now \<Longrightarrow>
     agrees d (List.last (now # event_times es)) (h @ concat (map recorded es)) (fold target_step es s)"
proof (induction es arbitrary: now h s)
  case (Cons e es)
  let ?now = "List.last (now # event_times [e])"
  have t: "sorted (now # event_times [e])" "sorted (?now # event_times es)" "0 \<le> ?now"
    "List.last (now # event_times (e # es)) = List.last (?now # event_times es)"
    using Cons.prems(2,3) by (cases e; auto)+
  from Cons.IH [OF selector_agrees_step [OF Cons.prems(1) t(1) Cons.prems(3)] t(2,3)] show ?case
    unfolding t(4) by (simp del: last.simps)
qed simp

lemma hd_dedupe: "xs \<noteq> [] \<Longrightarrow> hd (dedupeCandidatePool [xs, ys]) = hd xs"
  by (cases xs) (auto simp: dedupeCandidatePool_def)

lemma mset_rotate_map:
  fixes xs :: "'b list"
  shows "mset (map (\<lambda>k. f (xs ! ((a + k) mod length xs))) [0..<length xs]) = mset (map f xs)"
proof -
  have "map (\<lambda>k. f (xs ! ((a + k) mod length xs))) [0..<length xs] = map f (rotate a xs)"
    by (intro nth_equalityI) (auto simp: nth_rotate)
  moreover have "mset (rotate a xs) = mset xs"
  proof (induction a)
    case (Suc a)
    have "mset (rotate1 ys) = mset ys" for ys :: "'b list" by (cases ys) auto
    with Suc show ?case by (simp add: rotate_def)
  qed simp
  ultimately show ?thesis by simp
qed

definition rr_counter :: "string \<Rightarrow> selector \<Rightarrow> nat" where
  "rr_counter key s = (case map_of (sel_rr s) key of None \<Rightarrow> 0 | Some v \<Rightarrow> v)"

lemma target_order_step:
  assumes "forwardStrategyForNetwork f net = ''round_robin''"
    and up: "\<forall>c\<in>set cs. key_free now (targetSelectorStateKey (frt_id f) (tgt_id (tc_target c)) net) s"
    and cs: "cs = forwardTargetsForNetwork (frt_targets f) (frt_target f) net" "cs \<noteq> []"
    and pool: "pool = weightedTargetPool cs"
  shows "hd (fst (target_order now f net s)) =
      tc_index (cs ! (pool ! (rr_counter (targetSelectorKey (frt_id f) net) s mod length pool)))"
    and "rr_counter (targetSelectorKey (frt_id f) net) (snd (target_order now f net s)) =
      (rr_counter (targetSelectorKey (frt_id f) net) s mod length pool + 1) mod length pool"
proof -
  let ?k = "targetSelectorKey (frt_id f) net"
  let ?a = "rr_counter ?k s mod length pool"
  let ?s1 = "s\<lparr> sel_rr := AList.update ?k ((?a + 1) mod length pool) (sel_rr s) \<rparr>"
  have ne: "pool \<noteq> []" unfolding pool by (rule target_pool_nonempty [OF cs(2)])
  have start: "next_start ?k (length pool) s = (?a, ?s1)"
    by (simp add: next_start_def rr_counter_def Let_def)
  let ?seq = "dedupeCandidatePool [drop ?a pool, take ?a pool]"
  have order: "target_order now f net s = keep_available now (map (\<lambda>i. target_entry (frt_id f) net (cs ! i)) ?seq) ?s1"
    unfolding target_order_def Let_def cs(1) [symmetric] pool [symmetric] start assms(1)
    using cs(2) by simp
  have a: "?a < length pool" using ne by simp
  then have "hd ?seq = pool ! ?a"
    by (subst hd_dedupe) (auto simp: hd_drop_conv_nth)
  moreover have seq: "set ?seq = set pool" "?seq \<noteq> []"
    using ne dedupe_set [of "[drop ?a pool, take ?a pool]"] rotation_set [of ?a pool]
    by (metis set_empty)+
  moreover have "set ?seq = {..<length cs}" unfolding seq(1) by (simp add: pool pool_sets)
  then have "i < length cs" if "i \<in> set ?seq" for i using that by blast
  then have "key_free now (snd (target_entry (frt_id f) net (cs ! i))) ?s1" if "i \<in> set ?seq" for i
    using that up key_free_states [of ?s1 s] by (simp add: target_entry_def)
  then have "fst (target_order now f net s) = map (\<lambda>i. tc_index (cs ! i)) ?seq"
    unfolding order keep_available_fst by (simp add: filter_map comp_def target_entry_def cong: filter_cong)
  ultimately show "hd (fst (target_order now f net s)) = tc_index (cs ! (pool ! ?a))"
    by (simp add: hd_map)
  show "rr_counter ?k (snd (target_order now f net s)) = (?a + 1) mod length pool"
    by (simp add: order keep_available_rr rr_counter_def map_simps)
qed

text \<open>The other events leave the counter alone.\<close>

lemma rr_counter_step:
  assumes "\<And>now g n. e = Asked now g n \<Longrightarrow> targetSelectorKey (frt_id g) n \<noteq> k"
  shows "rr_counter k (target_step e s) = rr_counter k s"
  using assms
  by (cases e) (auto simp: target_order_def Let_def split_beta keep_available_rr next_start_def rr_counter_def map_simps
      target_recordSuccess_def target_recordFailure_def mark_success_def mark_failure_def)

lemma orders_for_heads:
  assumes "forwardStrategyForNetwork f net = ''round_robin''"
    and cs: "cs = forwardTargetsForNetwork (frt_targets f) (frt_target f) net" "cs \<noteq> []"
    and pool: "pool = weightedTargetPool cs"
    and "agrees d now h s" "sorted (now # event_times es)" "0 \<le> now" "targets_up d f net h es"
  shows "map hd (orders_for f net es s) =
    map (\<lambda>k. tc_index (cs ! (pool ! ((rr_counter (targetSelectorKey (frt_id f) net) s + k) mod length pool))))
      [0..<length (orders_for f net es s)]"
  using assms(5-)
proof (induction es arbitrary: now h s)
  case (Cons e es)
  let ?now = "List.last (now # event_times [e])" and ?k = "targetSelectorKey (frt_id f) net"
  have times: "event_times (e # es) = event_times [e] @ event_times es" by (cases e) simp_all
  have t: "sorted (now # event_times [e])" "sorted (?now # event_times es)" "0 \<le> ?now"
    using Cons.prems(2,3) by (cases e; auto)+
  have IH: "map hd (orders_for f net es (target_step e s)) =
      map (\<lambda>k. tc_index (cs ! (pool ! ((rr_counter ?k (target_step e s) + k) mod length pool))))
      [0..<length (orders_for f net es (target_step e s))]"
    using Cons.prems(4) by (intro Cons.IH [OF selector_agrees_step [OF Cons.prems(1) t(1) Cons.prems(3)] t(2,3)]) simp
  show ?case
  proof (cases "\<exists>u. e = Asked u f net")
    case True
    then obtain u where e: "e = Asked u f net" by blast
    have "\<forall>c\<in>set cs. key_free u (targetSelectorStateKey (frt_id f) (tgt_id (tc_target c)) net) s"
      using Cons.prems(1,2,4) by (simp add: e agrees_def cs(1))
    note step = target_order_step [OF assms(1) this cs pool]
    have "[0..<Suc n] = 0 # map Suc [0..<n]" for n
      by (simp add: map_Suc_upt upt_conv_Cons del: upt_Suc)
    with step IH show ?thesis by (simp add: e comp_def mod_simps del: upt_Suc)
  next
    case False
    then have "rr_counter ?k (target_step e s) = rr_counter ?k s"
      using Cons.prems(4) by (intro rr_counter_step) (auto split: if_splits)
    moreover have "orders_for f net (e # es) s = orders_for f net es (target_step e s)"
      using False by (auto split: target_event.split)
    ultimately show ?thesis using IH by simp
  qed
qed simp

lemma count_image_inj:
  "inj_on f A \<Longrightarrow> set_mset M \<subseteq> A \<Longrightarrow> j \<in> A \<Longrightarrow> count (image_mset f M) (f j) = count M j"
  by (induction M) (auto dest: inj_onD)

lemma count_weighted_pool:
  "i < length ws \<Longrightarrow> count (mset (weighted_pool ws)) i = nat (boundedSelectionWeight (ws ! i))"
proof -
  have gen: "count (mset (concat (map (\<lambda>(i, w). replicate (nat (boundedSelectionWeight w)) i)
      (enumerate n ws)))) i =
    (if n \<le> i \<and> i < n + length ws then nat (boundedSelectionWeight (ws ! (i - n))) else 0)" for n ws
  proof (induction ws arbitrary: n)
    case (Cons w ws)
    then show ?case by (auto simp: nth_Cons' Suc_diff_Suc)
  qed simp
  assume "i < length ws"
  then show ?thesis by (simp add: weighted_pool_def gen)
qed

text \<open>C34: round robin is fair: from any point of any run of the selector on, as long as no target of the forward is
  cooling down when its order is asked for - none has failed since it was last reached, or its failure is at
  least the fail timeout ago - and over as many calls as the weights add up to, each target is put first exactly
  as often as its weight says.  In between, targets may be reached and fail and the orders of other forwards be
  asked for.  (Time does not go back, and the fail timeout is the one the selector is set to.)\<close>

theorem round_robin_fair:
  assumes "forwardStrategyForNetwork f net = ''round_robin''"
    and "sel_ready d init" and "sel_states init = []" and "s = fold target_step before init"
    and "sorted (0 # event_times (before @ es))" and "targets_up d f net (concat (map recorded before)) es"
    and "c \<in> set (forwardTargetsForNetwork (frt_targets f) (frt_target f) net)"
    and "length (orders_for f net es s) =
      length (weightedTargetPool (forwardTargetsForNetwork (frt_targets f) (frt_target f) net))"
  shows "count (mset (map hd (orders_for f net es s))) (tc_index c) =
    nat (boundedSelectionWeight (tgt_weight (tc_target c)))"
proof -
  define cs where "cs = forwardTargetsForNetwork (frt_targets f) (frt_target f) net"
  define pool where "pool = weightedTargetPool cs"
  have ne: "cs \<noteq> []" using assms(7) cs_def by auto
  have len: "length (orders_for f net es s) = length pool" using assms(8) by (simp only: pool_def cs_def)
  have fresh: "agrees d 0 [] init" using assms(2,3) by (simp add: agrees_def key_free_iff history_free_def)
  let ?now = "List.last (0 # event_times before)"
  have times: "sorted (0 # event_times before)" "sorted (?now # event_times es)" "0 \<le> ?now"
    using assms(5) by (auto simp: event_times_append sorted_append)
  have run: "agrees d ?now (concat (map recorded before)) s"
    using agrees_run [OF fresh times(1)] by (simp add: assms(4))
  from assms(7) obtain j where j: "j < length cs" "cs ! j = c"
    by (auto simp: in_set_conv_nth cs_def)
  have "mset (map hd (orders_for f net es s)) = mset (map (\<lambda>i. tc_index (cs ! i)) pool)"
    unfolding orders_for_heads [OF assms(1) cs_def ne pool_def run times(2,3) assms(6)] len
    by (rule mset_rotate_map)
  also have "count \<dots> (tc_index c) = count (mset pool) j"
  proof -
    have inj: "inj_on (\<lambda>i. tc_index (cs ! i)) {..<length cs}"
      using distinct_indices(1) [of "frt_targets f" "frt_target f" net]
      unfolding cs_def [symmetric] by (force simp: inj_on_def distinct_conv_nth)
    have "set_mset (mset pool) \<subseteq> {..<length cs}" by (simp add: pool_def pool_sets)
    then have "count (image_mset (\<lambda>i. tc_index (cs ! i)) (mset pool)) (tc_index (cs ! j))
        = count (mset pool) j"
      using j by (intro count_image_inj [OF inj]) auto
    then show ?thesis using j by simp
  qed
  also have "\<dots> = nat (boundedSelectionWeight (tgt_weight (tc_target c)))"
    unfolding pool_def weightedTargetPool_def using j by (subst count_weighted_pool) auto
  finally show ?thesis .
qed

section \<open>What the callers use of an order\<close>

lemma target_order_indices:
  "set (fst (target_order now f net s)) \<subseteq>
     tc_index ` set (forwardTargetsForNetwork (frt_targets f) (frt_target f) net)"
proof -
  have "set (usable_targets now f net s) \<subseteq>
      tc_index ` set (forwardTargetsForNetwork (frt_targets f) (frt_target f) net)"
    by (auto simp: usable_targets_def)
  then show ?thesis
    using target_order_lemma [of f net now s]
    by (auto simp: Let_def split: if_splits dest!: mset_eq_setD in_set_takeD)
qed

lemma candidate_order_indices:
  "set (fst (candidate_order now tid stage net s)) \<subseteq>
     cand_index ` set (stageCandidatesForNetwork stage net)"
proof -
  have "set (usable_candidates now tid stage net s) \<subseteq> cand_index ` set (stageCandidatesForNetwork stage net)"
    by (auto simp: usable_candidates_def)
  then show ?thesis
    using candidate_order_lemma [of stage net now tid s]
    by (auto simp: Let_def split: if_splits dest!: mset_eq_setD in_set_takeD)
qed

lemma target_candidate_at:
  assumes "i \<in> tc_index ` set (forwardTargetsForNetwork (frt_targets f) (frt_target f) net)"
  shows "\<exists>t. forwardTargetAt f (int i) = Some t \<and> tgt_enabled t \<and> trim_space (tgt_address t) \<noteq> [] \<and>
    relay_targetSupportsProtocol (tgt_protocols t) (lower_net net) \<and>
    t \<in> named_target ` set (effective_targets (frt_targets f) (frt_target f))"
proof -
  from assms obtain t where t: "(i, t) \<in> set (enumerate 0 (effective_targets (frt_targets f) (frt_target f)))"
      "tgt_enabled t" "trim_space (tgt_address t) \<noteq> []"
      "relay_targetSupportsProtocol (tgt_protocols t) (lower_net net)"
    by (auto simp: forwardTargetsForNetwork_def)
  have ti: "i < length (effective_targets (frt_targets f) (frt_target f))"
      "t = effective_targets (frt_targets f) (frt_target f) ! i"
    using t(1) by (auto simp: in_set_enumerate_eq)
  have same: "tgt_enabled (named_target t) = tgt_enabled t" "tgt_address (named_target t) = tgt_address t"
    "tgt_protocols (named_target t) = tgt_protocols t"
    by (simp_all add: named_target_def)
  have "forwardTargetAt f (int i) = Some (named_target t)"
    using ti by (auto simp: forwardTargetAt_def effective_targets_def legacy_target_def named_target_def
        split: if_splits)
  moreover have "t \<in> set (effective_targets (frt_targets f) (frt_target f))"
    using ti by simp
  ultimately show ?thesis using t same by auto
qed

lemma stage_candidate_at:
  assumes "i \<in> cand_index ` set (stageCandidatesForNetwork stage net)"
  shows "i < length (rst_nodes stage) \<and> runtimeNodeSupportsProtocol (rst_nodes stage ! i) (lower_net net)"
  using assms by (auto simp: stageCandidatesForNetwork_def in_set_enumerate_eq)

lemma lower_net_proto: "lower_net ''tcp'' = ProtoTCP" "lower_net ''udp'' = ProtoUDP"
  unfolding lower_net_def ProtoTCP_def ProtoUDP_def by code_simp+

section \<open>Witnesses\<close>

theorem target_cooldown_witness:
  "fst (targetAvailableLocked ''f'' ''t'' ''tcp'' 16 (target_history
      [Failed 10 (''f'', ''t'', ''tcp''), Probed 12 (''f'', ''t'', ''tcp'')]
      (setFailTimeout 5 (new_selector (\<lambda>n. n))))) \<and>
   \<not> fst (targetAvailableLocked ''f'' ''t'' ''tcp'' 14 (target_history
      [Failed 10 (''f'', ''t'', ''tcp''), Probed 12 (''f'', ''t'', ''tcp'')]
      (setFailTimeout 5 (new_selector (\<lambda>n. n)))))"
proof -
  have times: "\<forall>e\<in>set [Failed 10 (''f'', ''t'', ''tcp''), Probed 12 (''f'', ''t'', ''tcp'')].
      \<forall>n. outcome_time e = Some n \<longrightarrow> 0 \<le> n \<and> n \<le> now" if "14 \<le> now" for now
    using that by auto
  have h: "history_free (map (map_outcome target_key)
      [Failed 10 (''f'', ''t'', ''tcp''), Probed 12 (''f'', ''t'', ''tcp'')])
      (targetSelectorStateKey ''f'' ''t'' ''tcp'') 5 now \<longleftrightarrow> 15 \<le> now" for now
    by (simp add: history_free_def)
  show ?thesis
    using target_cooldown [of 5 _ 16 "''f''" "''t''" "''tcp''" "\<lambda>n. n", OF _ times]
      target_cooldown [of 5 _ 14 "''f''" "''t''" "''tcp''" "\<lambda>n. n", OF _ times]
    by (simp only: h) simp
qed

theorem candidate_cooldown_witness:
  "\<not> fst (candidateAvailableLocked ''t'' 1 ''n'' ''tcp'' 14 (candidate_history
      [Succeeded (''t'', 1, ''n'', ''tcp''), Failed 10 (''t'', 1, ''n'', ''tcp'')]
      (setFailTimeout 5 (new_selector (\<lambda>n. n)))))"
  using candidate_cooldown [of 5 "[Succeeded (''t'', 1, ''n'', ''tcp''), Failed 10 (''t'', 1, ''n'', ''tcp'')]"
      14 "''t''" 1 "''n''" "''tcp''" "\<lambda>n. n"]
  by (simp add: history_free_def)

definition ex_weighted :: "string \<Rightarrow> int \<Rightarrow> forward_target" where
  "ex_weighted i w = \<lparr> tgt_id = i, tgt_forward_id = ''f'', tgt_address = ''10.0.0.1:80'',
     tgt_protocols = [], tgt_weight = w, tgt_enabled = True, tgt_position = 0 \<rparr>"

definition ex_rr_forward :: forward_runtime where
  "ex_rr_forward = \<lparr> frt_id = ''f'', frt_name = ''f'', frt_tunnel_id = ''t'', frt_protocols = [ProtoTCP],
     frt_listen = '':80'', frt_target = '''', frt_targets = [ex_weighted ''a'' 2, ex_weighted ''b'' 1],
     frt_strategy = ''round_robin'', frt_tcp_strategy = '''', frt_udp_strategy = '''', frt_enabled = True \<rparr>"

definition ex_rr_events :: "target_event list" where
  "ex_rr_events = [Asked 1 ex_rr_forward ''tcp'', Reached ''f'' ''a'' ''tcp'', Missed 2 ''f'' ''b'' ''tcp'', Asked 8 ex_rr_forward ''tcp'',
     Reached ''f'' ''b'' ''tcp'', Asked 9 ex_rr_forward ''udp'', Asked 9 ex_rr_forward ''tcp'']"

theorem round_robin_fair_witness:
  "let s = fold target_step [Missed 0 ''g'' ''a'' ''tcp'', Asked 1 ex_rr_forward ''tcp''] (setFailTimeout 5 (new_selector (\<lambda>n. n)))
   in count (mset (map hd (orders_for ex_rr_forward ''tcp'' ex_rr_events s))) 0 = 2"
proof -
  let ?c = "\<lparr> tc_index = 0, tc_target = ex_weighted ''a'' 2 \<rparr>" and ?start = "setFailTimeout 5 (new_selector (\<lambda>n. n))"
  let ?before = "[Missed 0 ''g'' ''a'' ''tcp'', Asked 1 ex_rr_forward ''tcp'']"
  let ?s = "fold target_step ?before ?start"
  have cs: "forwardTargetsForNetwork (frt_targets ex_rr_forward) (frt_target ex_rr_forward) ''tcp'' =
      [?c, \<lparr> tc_index = 1, tc_target = ex_weighted ''b'' 1 \<rparr>]" by code_simp
  have "count (mset (map hd (orders_for ex_rr_forward ''tcp'' ex_rr_events ?s))) (tc_index ?c) =
      nat (boundedSelectionWeight (tgt_weight (tc_target ?c)))"
  proof (rule round_robin_fair [where before = ?before and init = ?start])
    show "forwardStrategyForNetwork ex_rr_forward ''tcp'' = ''round_robin''" by code_simp
    show "sel_ready 5 ?start" by (rule ready_new) simp
    show "sel_states ?start = []" by (simp add: new_selector_def setFailTimeout_def)
    show "sorted (0 # event_times (?before @ ex_rr_events))" by (simp add: ex_rr_events_def)
    show "targets_up 5 ex_rr_forward ''tcp'' (concat (map recorded ?before)) ex_rr_events" by code_simp
    show "length (orders_for ex_rr_forward ''tcp'' ex_rr_events ?s) =
        length (weightedTargetPool (forwardTargetsForNetwork (frt_targets ex_rr_forward) (frt_target ex_rr_forward) ''tcp''))"
      by code_simp
  qed (simp_all add: cs)
  then show ?thesis by (simp add: ex_weighted_def boundedSelectionWeight_def maxPoolWeight_def Let_def)
qed

end
