(* ===== verification/Frames.thy ===== *)
theory Frames
  imports GoStrings
begin

text \<open>
  internal/shared/protocol: the frames on the links between relays.  A frame is a four-byte
  big-endian length and a JSON document; \<open>relay.go\<close> carries the hello that opens a link,
  \<open>udp.go\<close> the datagrams.

  A reader is the byte string still to come; reading returns the rest.  A writer is a script: what
  its k-th call answers for a buffer of n bytes, a count and an error.  encoding/json is a
  parameter of the definitions (the encoder of a value, the decoder of a document).
\<close>

section \<open>Frames of bytes\<close>

datatype frame_error =
    FShortRead
  | FWriter
  | FShortWrite
  | FInvalidSize
  | FTooLarge
  | FIdentifierTooLarge
  | FPayloadTooLarge
  | FMarshal
  | FUnmarshal
  | FTrailing
  | FMagic
  | FVersion

definition byte_char :: "nat \<Rightarrow> char" where
  "byte_char n = char_of (n mod 256)"

definition be32 :: "nat \<Rightarrow> string" where
  "be32 n = [byte_char (n div 2 ^ 24), byte_char (n div 2 ^ 16), byte_char (n div 2 ^ 8), byte_char n]"

fun from_be :: "nat \<Rightarrow> string \<Rightarrow> nat" where
  "from_be acc [] = acc"
| "from_be acc (c # cs) = from_be (256 * acc + of_char c) cs"

text \<open>\<open>io.ReadFull\<close> into a buffer of n bytes.\<close>

definition read_full :: "nat \<Rightarrow> string \<Rightarrow> (string \<times> string) option" where
  "read_full n s = (if length s < n then None else Some (take n s, drop n s))"

lemma of_char_byte [simp]: "(of_char (byte_char n) :: nat) = n mod 256"
  by (simp add: byte_char_def)

lemma length_be32 [simp]: "length (be32 n) = 4"
  by (simp add: be32_def)

lemma from_be32: "n < 2 ^ 32 \<Longrightarrow> from_be 0 (be32 n) = n"
proof -
  assume n: "n < 2 ^ 32"
  have a: "n div 65536 = n div 256 div 256" "n div 16777216 = n div 256 div 256 div 256"
    by (simp_all only: div_mult2_eq [symmetric]) simp_all
  have "n div 256 div 256 div 256 < 256" using n by (simp add: div_less_iff_less_mult a [symmetric])
  then have "n div 256 div 256 div 256 mod 256 = n div 256 div 256 div 256" by simp
  moreover have "256 * (x div 256) + x mod 256 = x" for x :: nat by (rule mult_div_mod_eq)
  ultimately show ?thesis by (simp add: be32_def a del: div_mult2_eq)
qed

lemma read_full_append [simp]: "length p = n \<Longrightarrow> read_full n (p @ s) = Some (p, s)"
  by (auto simp: read_full_def)

section \<open>Writing\<close>

type_synonym writer = "nat \<Rightarrow> nat \<Rightarrow> nat \<times> bool"

text \<open>
  The loop of \<open>writeFull\<close>: k counts the calls of the writer, out is what it has taken.  The
  count is at most the length of the buffer, as io.Writer promises; the flag says whether an error
  came with it.
\<close>

function writeFull :: "writer \<Rightarrow> nat \<Rightarrow> string \<Rightarrow> string \<Rightarrow> frame_error option \<times> nat \<times> string" where
  "writeFull w k out payload =
    (if payload = [] then (None, k, out)
     else (let (n, failed) = w k (length payload); n = min n (length payload);
               out' = out @ take n payload
           in if failed then (Some FWriter, Suc k, out')
              else if n = 0 then (Some FShortWrite, Suc k, out')
              else writeFull w (Suc k) out' (drop n payload)))"
  by pat_completeness auto
termination by (relation "measure (\<lambda>(w, k, out, payload). length payload)") auto

declare writeFull.simps [simp del]

text \<open>A writer that neither fails nor stalls, however few bytes it takes at a time.\<close>

definition progressing :: "writer \<Rightarrow> bool" where
  "progressing w \<longleftrightarrow> (\<forall>k n. 0 < n \<longrightarrow> 0 < fst (w k n) \<and> \<not> snd (w k n))"

lemma writeFull_progressing:
  "progressing w \<Longrightarrow> \<exists>k'. writeFull w k out payload = (None, k', out @ payload)"
proof (induction w k out payload rule: writeFull.induct)
  case (1 w k out payload)
  show ?case
  proof (cases "payload = []")
    case True
    then show ?thesis by (simp add: writeFull.simps)
  next
    case False
    obtain n f where w: "w k (length payload) = (n, f)" by (cases "w k (length payload)")
    with 1(2) False have "0 < n" "\<not> f" unfolding progressing_def by (metis fst_conv length_greater_0_conv snd_conv)+
    then have m: "min n (length payload) \<noteq> 0" using False by simp
    from 1(1) [OF False refl w [symmetric] refl refl \<open>\<not> f\<close> m 1(2)] show ?thesis
      using False w m \<open>\<not> f\<close> by (subst (1) writeFull.simps) (simp add: Let_def)
  qed
qed

text \<open>Whatever the writer does, the bytes it has taken are a prefix of what was to be written, and
  all of it when there is no error.\<close>

lemma writeFull_prefix:
  "writeFull w k out payload = (e, k', out') \<Longrightarrow>
     \<exists>p. out' = out @ p \<and> prefix p payload \<and> (e = None \<longrightarrow> p = payload)"
proof (induction w k out payload arbitrary: e k' out' rule: writeFull.induct)
  case (1 w k out payload)
  obtain n f where w: "w k (length payload) = (n, f)" by (cases "w k (length payload)")
  define m where "m = min n (length payload)"
  note unfold = writeFull.simps [of w k out payload]
  consider (nil) "payload = []" | (failed) "payload \<noteq> []" f
    | (stall) "payload \<noteq> []" "\<not> f" "m = 0" | (more) "payload \<noteq> []" "\<not> f" "m \<noteq> 0" by blast
  then show ?case
  proof cases
    case more
    then have "writeFull w (Suc k) (out @ take m payload) (drop m payload) = (e, k', out')"
      using 1(2) w by (simp add: writeFull.simps [of w k out payload] m_def [symmetric])
    then obtain p where "out' = (out @ take m payload) @ p" "prefix p (drop m payload)"
        "e = None \<longrightarrow> p = drop m payload"
      using 1(1) [OF more(1) refl w [symmetric] m_def refl more(2,3)] by metis
    moreover from this have "prefix (take m payload @ p) payload"
      using same_prefix_prefix [of "take m payload" p "drop m payload"] by simp
    ultimately show ?thesis
      by (intro exI [of _ "take m payload @ p"]) auto
  next
    case nil
    then show ?thesis using 1(2) unfold by simp
  next
    case failed
    then have "e = Some FWriter" "out' = out @ take m payload"
      using 1(2) w by (simp_all add: unfold m_def [symmetric])
    then show ?thesis by (auto simp: take_is_prefix)
  next
    case stall
    then have "e = Some FShortWrite" "out' = out @ take m payload"
      using 1(2) w by (simp_all add: unfold m_def [symmetric])
    then show ?thesis by (auto simp: take_is_prefix)
  qed
qed

section \<open>Datagram frames\<close>

definition MaxUDPPacket :: nat where "MaxUDPPacket = 65507"
definition MaxUDPFrameBytes :: nat where "MaxUDPFrameBytes = 96 * 1024"
definition MaxUDPIdentifierBytes :: nat where "MaxUDPIdentifierBytes = 1024"

record udp_frame =
  uf_forward :: string
  uf_session :: string
  uf_payload :: string

definition WriteUDPDatagramFrame ::
  "(udp_frame \<Rightarrow> string option) \<Rightarrow> writer \<Rightarrow> nat \<Rightarrow> string \<Rightarrow> udp_frame \<Rightarrow>
     frame_error option \<times> nat \<times> string" where
  "WriteUDPDatagramFrame marshal w k out f =
    (if length (uf_forward f) > MaxUDPIdentifierBytes \<or> length (uf_session f) > MaxUDPIdentifierBytes
     then (Some FIdentifierTooLarge, k, out)
     else if length (uf_payload f) > MaxUDPPacket then (Some FPayloadTooLarge, k, out)
     else (case marshal f of
         None \<Rightarrow> (Some FMarshal, k, out)
       | Some payload \<Rightarrow>
           if payload = [] \<or> length payload > MaxUDPFrameBytes then (Some FTooLarge, k, out)
           else (case writeFull w k out (be32 (length payload)) of
               (Some e, k', out') \<Rightarrow> (Some e, k', out')
             | (None, k', out') \<Rightarrow> writeFull w k' out' payload)))"

definition ReadUDPDatagramFrame ::
  "(string \<Rightarrow> udp_frame option) \<Rightarrow> string \<Rightarrow> frame_error + udp_frame \<times> string" where
  "ReadUDPDatagramFrame unmarshal r =
    (case read_full 4 r of
       None \<Rightarrow> Inl FShortRead
     | Some (header, r1) \<Rightarrow>
         (let n = from_be 0 header in
          if n = 0 \<or> n > MaxUDPFrameBytes then Inl FInvalidSize
          else (case read_full n r1 of
              None \<Rightarrow> Inl FShortRead
            | Some (payload, r2) \<Rightarrow>
                (case unmarshal payload of
                   None \<Rightarrow> Inl FUnmarshal
                 | Some f \<Rightarrow>
                     if length (uf_forward f) > MaxUDPIdentifierBytes \<or>
                        length (uf_session f) > MaxUDPIdentifierBytes then Inl FIdentifierTooLarge
                     else if length (uf_payload f) > MaxUDPPacket then Inl FPayloadTooLarge
                     else Inr (f, r2)))))"

text \<open>Reading as many frames as were written.\<close>

fun write_frames ::
  "(udp_frame \<Rightarrow> string option) \<Rightarrow> writer \<Rightarrow> nat \<Rightarrow> string \<Rightarrow> udp_frame list \<Rightarrow>
     frame_error option \<times> nat \<times> string" where
  "write_frames marshal w k out [] = (None, k, out)"
| "write_frames marshal w k out (f # fs) =
    (case WriteUDPDatagramFrame marshal w k out f of
       (Some e, k', out') \<Rightarrow> (Some e, k', out')
     | (None, k', out') \<Rightarrow> write_frames marshal w k' out' fs)"

fun read_frames ::
  "(string \<Rightarrow> udp_frame option) \<Rightarrow> nat \<Rightarrow> string \<Rightarrow> frame_error + udp_frame list \<times> string" where
  "read_frames unmarshal 0 r = Inr ([], r)"
| "read_frames unmarshal (Suc n) r =
    (case ReadUDPDatagramFrame unmarshal r of
       Inl e \<Rightarrow> Inl e
     | Inr (f, r1) \<Rightarrow> (case read_frames unmarshal n r1 of
         Inl e \<Rightarrow> Inl e | Inr (fs, r2) \<Rightarrow> Inr (f # fs, r2)))"

definition frame_fits :: "udp_frame \<Rightarrow> bool" where
  "frame_fits f \<longleftrightarrow> length (uf_forward f) \<le> MaxUDPIdentifierBytes \<and>
     length (uf_session f) \<le> MaxUDPIdentifierBytes \<and> length (uf_payload f) \<le> MaxUDPPacket"

text \<open>What the code relies on of encoding/json: a frame within the limits is encoded to a document
  within the frame size, and decoding the document gives it back.\<close>

definition codec_ok :: "(udp_frame \<Rightarrow> string option) \<Rightarrow> (string \<Rightarrow> udp_frame option) \<Rightarrow> udp_frame \<Rightarrow> bool" where
  "codec_ok marshal unmarshal f \<longleftrightarrow>
     (\<exists>doc. marshal f = Some doc \<and> doc \<noteq> [] \<and> length doc \<le> MaxUDPFrameBytes \<and> unmarshal doc = Some f)"

lemma write_frame_bytes:
  assumes "progressing w" and "frame_fits f" and "marshal f = Some doc" and "doc \<noteq> []"
    and "length doc \<le> MaxUDPFrameBytes"
  shows "\<exists>k'. WriteUDPDatagramFrame marshal w k out f = (None, k', out @ be32 (length doc) @ doc)"
proof -
  obtain k1 where 1: "writeFull w k out (be32 (length doc)) = (None, k1, out @ be32 (length doc))"
    using writeFull_progressing [OF assms(1)] by blast
  obtain k2 where "writeFull w k1 (out @ be32 (length doc)) doc = (None, k2, (out @ be32 (length doc)) @ doc)"
    using writeFull_progressing [OF assms(1)] by blast
  with 1 assms show ?thesis by (simp add: WriteUDPDatagramFrame_def frame_fits_def)
qed

lemma read_frame_bytes:
  assumes "frame_fits f" and "unmarshal doc = Some f" and "doc \<noteq> []"
    and "length doc \<le> MaxUDPFrameBytes"
  shows "ReadUDPDatagramFrame unmarshal (be32 (length doc) @ doc @ rest) = Inr (f, rest)"
proof -
  have "from_be 0 (be32 (length doc)) = length doc"
    using assms(4) by (intro from_be32) (simp add: MaxUDPFrameBytes_def)
  with assms show ?thesis
    by (simp add: ReadUDPDatagramFrame_def Let_def frame_fits_def)
qed

text \<open>C38: datagram frames written one after the other over a link that takes any few bytes at a
  time are read back as they were, in order, and the reader stops at the end of the last one.\<close>

theorem frames_roundtrip:
  assumes "progressing w" and "\<forall>f\<in>set fs. frame_fits f \<and> codec_ok marshal unmarshal f"
  shows "\<exists>k' bytes. write_frames marshal w k out fs = (None, k', out @ bytes) \<and>
    read_frames unmarshal (length fs) (bytes @ rest) = Inr (fs, rest)"
  using assms(2)
proof (induction fs arbitrary: k out)
  case Nil
  then show ?case by simp
next
  case (Cons f fs)
  then obtain doc where f: "frame_fits f" and doc: "marshal f = Some doc" "doc \<noteq> []"
      "length doc \<le> MaxUDPFrameBytes" "unmarshal doc = Some f"
    by (auto simp: codec_ok_def)
  obtain k1 where w1: "WriteUDPDatagramFrame marshal w k out f = (None, k1, out @ be32 (length doc) @ doc)"
    using write_frame_bytes [where marshal = marshal, OF assms(1) f doc(1-3)] by blast
  obtain k2 bytes where w2: "write_frames marshal w k1 (out @ be32 (length doc) @ doc) fs =
      (None, k2, (out @ be32 (length doc) @ doc) @ bytes)"
    and r2: "read_frames unmarshal (length fs) (bytes @ rest) = Inr (fs, rest)"
    using Cons.IH [of k1 "out @ be32 (length doc) @ doc"] Cons.prems by auto
  have r1: "ReadUDPDatagramFrame unmarshal (be32 (length doc) @ doc @ bytes @ rest) = Inr (f, bytes @ rest)"
    using read_frame_bytes [where unmarshal = unmarshal, OF f doc(4,2,3)] .
  show ?case
    by (intro exI [of _ k2] exI [of _ "be32 (length doc) @ doc @ bytes"]) (simp add: w1 w2 r1 r2)
qed

text \<open>A codec for the witness: the payload behind two one-byte lengths.\<close>

definition toy_marshal :: "udp_frame \<Rightarrow> string option" where
  "toy_marshal f = Some ([byte_char (length (uf_forward f)), byte_char (length (uf_session f))]
     @ uf_forward f @ uf_session f @ uf_payload f)"

definition toy_unmarshal :: "string \<Rightarrow> udp_frame option" where
  "toy_unmarshal s = (case s of a # b # r \<Rightarrow>
     Some \<lparr> uf_forward = take (of_char a) r, uf_session = take (of_char b) (drop (of_char a) r),
            uf_payload = drop (of_char a + of_char b) r \<rparr> | _ \<Rightarrow> None)"

lemma frames_roundtrip_witness:
  "\<exists>k' bytes. write_frames toy_marshal (\<lambda>k n. (min 3 n, False)) 0 ''''
      [\<lparr> uf_forward = ''f1'', uf_session = ''s'', uf_payload = ''hello'' \<rparr>,
       \<lparr> uf_forward = ''f1'', uf_session = ''t'', uf_payload = '''' \<rparr>] = (None, k', '''' @ bytes) \<and>
    read_frames toy_unmarshal 2 (bytes @ ''next'') =
      Inr ([\<lparr> uf_forward = ''f1'', uf_session = ''s'', uf_payload = ''hello'' \<rparr>,
       \<lparr> uf_forward = ''f1'', uf_session = ''t'', uf_payload = '''' \<rparr>], ''next'')"
proof -
  have p: "progressing (\<lambda>k n. (min 3 n, False))" by (simp add: progressing_def)
  have c: "\<forall>f\<in>set [\<lparr> uf_forward = ''f1'', uf_session = ''s'', uf_payload = ''hello'' \<rparr>,
       \<lparr> uf_forward = ''f1'', uf_session = ''t'', uf_payload = '''' \<rparr>].
      frame_fits f \<and> codec_ok toy_marshal toy_unmarshal f"
    by (simp add: frame_fits_def codec_ok_def toy_marshal_def toy_unmarshal_def
        MaxUDPIdentifierBytes_def MaxUDPPacket_def MaxUDPFrameBytes_def)
  from frames_roundtrip [OF p c, of 0 "''''" "''next''"] show ?thesis
    by (simp only: list.size numeral_2_eq_2 One_nat_def add_0 add_Suc)
qed

section \<open>Hellos\<close>

definition Magic :: string where "Magic = ''NYAR1''"
definition HelloVersion :: int where "HelloVersion = 1"

record relay_hello =
  hl_magic :: string
  hl_version :: int
  hl_tunnel :: string
  hl_forward :: string
  hl_from :: int
  hl_to :: int
  hl_network :: string
  hl_secret :: string

text \<open>One \<open>Write\<close> per part: a writer that takes fewer bytes without an error breaks its
  contract, so only the error flag is looked at.\<close>

definition write_once :: "writer \<Rightarrow> nat \<Rightarrow> string \<Rightarrow> string \<Rightarrow> frame_error option \<times> nat \<times> string" where
  "write_once w k out p = (let (n, failed) = w k (length p)
     in if failed then (Some FWriter, Suc k, out @ take n p) else (None, Suc k, out @ p))"

definition WriteHello ::
  "(relay_hello \<Rightarrow> string option) \<Rightarrow> writer \<Rightarrow> nat \<Rightarrow> string \<Rightarrow> relay_hello \<Rightarrow>
     frame_error option \<times> nat \<times> string" where
  "WriteHello marshal w k out hello =
    (let h = hello\<lparr> hl_magic := Magic,
                    hl_version := (if hl_version hello = 0 then HelloVersion else hl_version hello) \<rparr>
     in case marshal h of
         None \<Rightarrow> (Some FMarshal, k, out)
       | Some payload \<Rightarrow>
           if length payload > 64 * 1024 then (Some FTooLarge, k, out)
           else (case write_once w k out (be32 (length payload)) of
               (Some e, k', out') \<Rightarrow> (Some e, k', out')
             | (None, k', out') \<Rightarrow> write_once w k' out' payload))"

text \<open>The decoder gives the first JSON value and the rest of the document, where only white space
  may follow.\<close>

definition ReadHello ::
  "(string \<Rightarrow> (relay_hello \<times> string) option) \<Rightarrow> string \<Rightarrow> frame_error + relay_hello \<times> string" where
  "ReadHello decode r =
    (case read_full 4 r of
       None \<Rightarrow> Inl FShortRead
     | Some (header, r1) \<Rightarrow>
         (let n = from_be 0 header in
          if n = 0 \<or> n > 64 * 1024 then Inl FInvalidSize
          else (case read_full n r1 of
              None \<Rightarrow> Inl FShortRead
            | Some (payload, r2) \<Rightarrow>
                (case decode payload of
                   None \<Rightarrow> Inl FUnmarshal
                 | Some (h, extra) \<Rightarrow>
                     if trim_space extra \<noteq> [] then Inl FTrailing
                     else if hl_magic h \<noteq> Magic then Inl FMagic
                     else if hl_version h \<noteq> HelloVersion then Inl FVersion
                     else Inr (h, r2)))))"

definition sent_hello :: "relay_hello \<Rightarrow> relay_hello" where
  "sent_hello h = h\<lparr> hl_magic := Magic, hl_version := HelloVersion \<rparr>"

text \<open>a hello of version 0 or 1 that fits is read back with the magic and the version set, and
  what follows it on the link is left for the stream.\<close>

theorem hello_roundtrip:
  assumes "\<forall>k n. \<not> snd (w k n)" and "hl_version h \<in> {0, HelloVersion}"
    and "marshal (sent_hello h) = Some doc" and "doc \<noteq> []" and "length doc \<le> 64 * 1024"
    and "decode doc = Some (sent_hello h, '''')"
  shows "\<exists>k' bytes. WriteHello marshal w k out h = (None, k', out @ bytes) \<and>
    ReadHello decode (bytes @ rest) = Inr (sent_hello h, rest)"
proof -
  have h: "h\<lparr> hl_magic := Magic, hl_version := (if hl_version h = 0 then HelloVersion else hl_version h) \<rparr>
      = sent_hello h"
    using assms(2) by (auto simp: sent_hello_def HelloVersion_def)
  have w: "write_once w k out p = (None, Suc k, out @ p)" for k out p
    using assms(1) by (simp add: write_once_def split_beta)
  have "WriteHello marshal w k out h = (None, Suc (Suc k), out @ (be32 (length doc) @ doc))"
    unfolding WriteHello_def h using assms by (simp add: w)
  moreover have "from_be 0 (be32 (length doc)) = length doc"
    using assms(5) by (intro from_be32) simp
  then have "ReadHello decode ((be32 (length doc) @ doc) @ rest) = Inr (sent_hello h, rest)"
    using assms by (simp add: ReadHello_def Let_def sent_hello_def)
  ultimately show ?thesis by blast
qed

definition toy_hello :: relay_hello where
  "toy_hello = \<lparr> hl_magic = '''', hl_version = 0, hl_tunnel = ''t'', hl_forward = ''f'', hl_from = 0,
     hl_to = 1, hl_network = ''tcp'', hl_secret = ''s'' \<rparr>"

lemma hello_roundtrip_witness:
  "\<exists>k' bytes. WriteHello (\<lambda>h. Some (hl_magic h @ hl_tunnel h)) (\<lambda>k n. (n, False)) 0 '''' toy_hello
      = (None, k', '''' @ bytes) \<and>
    ReadHello (\<lambda>d. if d = ''NYAR1t'' then Some (sent_hello toy_hello, '''') else None) (bytes @ ''stream'')
      = Inr (sent_hello toy_hello, ''stream'')"
  by (rule hello_roundtrip [where doc = "''NYAR1t''"])
    (simp_all add: toy_hello_def sent_hello_def Magic_def)

end
