(* ===== verification/Dial.thy ===== *)
theory Dial
  imports Selector UdpSessions Frames
begin

text \<open>
  The dialling half of internal/node/relay/service.go: how a relay reaches the next stage of a
  tunnel or a target of a forward, trying candidates in the order of the selectors, recording what
  happens, and keeping UDP sessions where they are.

  What the operating system and the peer answer is an environment, a record of functions of a tick
  count; each reading of the clock and each network operation takes the next tick.  A deadline that
  passes is one of the ways in which an operation of the environment fails.  A connection is the
  tick of its dial and the address.
\<close>

section \<open>Addresses\<close>

definition trimEnclosingBrackets :: "string \<Rightarrow> string" where
  "trimEnclosingBrackets value =
    (if prefix ''['' value \<and> suffix '']'' value \<and> length value \<ge> 2
     then take (length value - 2) (drop 1 value) else value)"

text \<open>\<open>parse_ip\<close> is net.ParseIP followed by String.\<close>

definition hostOnly :: "(string \<Rightarrow> string option) \<Rightarrow> string \<Rightarrow> string" where
  "hostOnly parse_ip value =
    (let value = trim_space value in
     if value = '''' then ''''
     else (case split_host_port value of
         Some (host, port) \<Rightarrow> trimEnclosingBrackets host
       | None \<Rightarrow> (let trimmed = trimEnclosingBrackets value in
           case parse_ip trimmed of Some ip \<Rightarrow> ip | None \<Rightarrow> trimmed)))"

definition headerContainsToken :: "string \<Rightarrow> string \<Rightarrow> bool" where
  "headerContainsToken value token =
     list_ex (\<lambda>part. equal_fold (trim_space part) token) (split_on (CHR '','') value)"

section \<open>Environment and state\<close>

record http_response =
  hr_status :: nat
  hr_upgrade :: string
  hr_connection :: string

record env =
  env_now :: "nat \<Rightarrow> time"
  env_dial :: "nat \<Rightarrow> string \<Rightarrow> string \<Rightarrow> bool"
  env_tls_config :: "tunnel_runtime \<Rightarrow> runtime_node \<Rightarrow> string \<Rightarrow> bool"
  env_handshake :: "nat \<Rightarrow> bool"
  env_write :: "nat \<Rightarrow> bool"
  env_response :: "nat \<Rightarrow> http_response option"
  env_hello :: "nat \<Rightarrow> relay_hello \<Rightarrow> bool"
  env_parse_ip :: "string \<Rightarrow> string option"

record relay =
  rl_selector :: selector
  rl_targets :: selector
  rl_udp :: udp_sessions
  rl_udp_targets :: udp_sessions
  rl_tick :: nat

type_synonym conn = "nat \<times> string"

datatype dial_error =
    NoTarget string
  | NoCandidate int
  | NoStageNode int
  | InvalidStage int
  | InvalidCandidate int int
  | NoConnectAddress
  | DialFailed nat
  | TLSConfigFailed
  | HandshakeFailed nat
  | InvalidHost
  | UpgradeFailed nat
  | UpgradeRejected
  | HelloFailed nat

definition tick :: "relay \<Rightarrow> relay" where
  "tick r = r\<lparr> rl_tick := rl_tick r + 1 \<rparr>"

definition now_of :: "env \<Rightarrow> relay \<Rightarrow> time" where
  "now_of e r = env_now e (rl_tick r)"

text \<open>Calls of the selectors and of the session tables, with the clock they read.\<close>

definition fail_target :: "env \<Rightarrow> string \<Rightarrow> string \<Rightarrow> string \<Rightarrow> relay \<Rightarrow> relay" where
  "fail_target e f t net r =
     tick (r\<lparr> rl_targets := target_recordFailure (now_of e r) f t net (rl_targets r) \<rparr>)"

definition ok_target :: "string \<Rightarrow> string \<Rightarrow> string \<Rightarrow> relay \<Rightarrow> relay" where
  "ok_target f t net r = r\<lparr> rl_targets := target_recordSuccess f t net (rl_targets r) \<rparr>"

definition fail_candidate :: "env \<Rightarrow> string \<Rightarrow> int \<Rightarrow> string \<Rightarrow> string \<Rightarrow> relay \<Rightarrow> relay" where
  "fail_candidate e t i n net r =
     tick (r\<lparr> rl_selector := candidate_recordFailure (now_of e r) t i n net (rl_selector r) \<rparr>)"

definition ok_candidate :: "string \<Rightarrow> int \<Rightarrow> string \<Rightarrow> string \<Rightarrow> relay \<Rightarrow> relay" where
  "ok_candidate t i n net r = r\<lparr> rl_selector := candidate_recordSuccess t i n net (rl_selector r) \<rparr>"

section \<open>Keys and statistics ids\<close>

definition udpTargetSessionKey :: "string \<Rightarrow> string \<Rightarrow> string" where
  "udpTargetSessionKey forwardID sessionID = ''target:'' @ forwardID @ '':udp:'' @ sessionID"

definition targetStatID :: "string \<Rightarrow> string \<Rightarrow> string" where
  "targetStatID forwardID targetID =
    (if targetID = '''' then ''target:'' @ forwardID else ''target:'' @ forwardID @ '':'' @ targetID)"

definition udpSessionKey :: "string \<Rightarrow> string \<Rightarrow> int \<Rightarrow> int \<Rightarrow> string \<Rightarrow> string" where
  "udpSessionKey tunnelID forwardID from to sessionID =
     tunnelID @ '':'' @ forwardID @ '':'' @ itoa from @ '':'' @ itoa to @ '':udp:'' @ sessionID"

definition stageStatID :: "string \<Rightarrow> int \<Rightarrow> string" where
  "stageStatID tunnelID i = ''tunnel:'' @ tunnelID @ '':stage:'' @ itoa i"

definition stageCandidateStatID :: "string \<Rightarrow> int \<Rightarrow> string \<Rightarrow> string" where
  "stageCandidateStatID tunnelID i nodeID =
     ''tunnel:'' @ tunnelID @ '':stage:'' @ itoa i @ '':candidate:'' @ nodeID"

section \<open>Targets\<close>

definition dialRelayContext :: "env \<Rightarrow> string \<Rightarrow> string \<Rightarrow> relay \<Rightarrow> (dial_error + conn) \<times> relay" where
  "dialRelayContext e net addr r =
    (if env_dial e (rl_tick r) net addr then (Inr (rl_tick r, addr), tick r)
     else (Inl (DialFailed (rl_tick r)), tick r))"

type_synonym target_result = "(string \<times> dial_error) + (conn \<times> string \<times> string)"

text \<open>The loop over the order; the last error is that of the last failed dial.\<close>

fun try_targets ::
  "env \<Rightarrow> forward_runtime \<Rightarrow> string \<Rightarrow> string \<Rightarrow> nat list \<Rightarrow> dial_error option \<Rightarrow> relay \<Rightarrow> target_result \<times> relay" where
  "try_targets e f net skey [] lastErr r =
     (Inl (''target:'' @ frt_id f, case lastErr of None \<Rightarrow> NoTarget net | Some x \<Rightarrow> x), r)"
| "try_targets e f net skey (i # is) lastErr r =
    (case forwardTargetAt f (int i) of
       None \<Rightarrow> try_targets e f net skey is lastErr r
     | Some t \<Rightarrow> (case dialRelayContext e net (tgt_address t) r of
         (Inl x, r1) \<Rightarrow> try_targets e f net skey is (Some x) (fail_target e (frt_id f) (tgt_id t) net r1)
       | (Inr c, r1) \<Rightarrow>
           (let r2 = ok_target (frt_id f) (tgt_id t) net r1;
                r3 = (if skey \<noteq> '''' then
                        tick (r2\<lparr> rl_udp_targets :=
                          sessions_bind skey (int i) (tgt_id t) (now_of e r2) (rl_udp_targets r2) \<rparr>)
                      else r2)
            in (Inr (c, targetStatID (frt_id f) (tgt_id t), tgt_id t), r3))))"

text \<open>The target a session was bound to, if it is still one to use.\<close>

definition session_target :: "forward_runtime \<Rightarrow> udp_session \<Rightarrow> forward_target option" where
  "session_target f s =
    (case forwardTargetAt f (us_index s) of None \<Rightarrow> None
     | Some t \<Rightarrow> if tgt_id t = us_node s \<and> tgt_enabled t \<and>
                    relay_targetSupportsProtocol (tgt_protocols t) ProtoUDP then Some t else None)"

text \<open>The lookup of the session: a connection at once, or the state to go on with.\<close>

definition dial_session_target ::
  "env \<Rightarrow> forward_runtime \<Rightarrow> string \<Rightarrow> string \<Rightarrow> relay \<Rightarrow> (conn \<times> string \<times> string) option \<times> relay" where
  "dial_session_target e f net skey r =
    (let (found, us) = sessions_get skey (now_of e r) (rl_udp_targets r);
         r1 = tick (r\<lparr> rl_udp_targets := us \<rparr>);
         drop = (\<lambda>r. r\<lparr> rl_udp_targets := sessions_delete skey (rl_udp_targets r) \<rparr>)
     in case found of
          None \<Rightarrow> (None, r1)
        | Some s \<Rightarrow> (case session_target f s of
            None \<Rightarrow> (None, drop r1)
          | Some t \<Rightarrow> (case dialRelayContext e net (tgt_address t) r1 of
              (Inr c, r2) \<Rightarrow> (Some (c, targetStatID (frt_id f) (tgt_id t), tgt_id t),
                             ok_target (frt_id f) (tgt_id t) net r2)
            | (Inl x, r2) \<Rightarrow> (None, drop (fail_target e (frt_id f) (tgt_id t) net r2)))))"

definition dialForwardTarget ::
  "env \<Rightarrow> forward_runtime \<Rightarrow> string \<Rightarrow> string \<Rightarrow> relay \<Rightarrow> target_result \<times> relay" where
  "dialForwardTarget e f net sessionID r =
    (let skey = (if net = ''udp'' \<and> sessionID \<noteq> '''' then udpTargetSessionKey (frt_id f) sessionID else '''');
         (hit, r1) = (if skey \<noteq> '''' then dial_session_target e f net skey r else (None, r))
     in case hit of
          Some c \<Rightarrow> (Inr c, r1)
        | None \<Rightarrow>
            (let (order, ts) = target_order (now_of e r1) f net (rl_targets r1);
                 r2 = tick (r1\<lparr> rl_targets := ts \<rparr>)
             in if order = [] then (Inl (''target:'' @ frt_id f, NoTarget net), r2)
                else try_targets e f net skey order None r2))"

section \<open>Stages\<close>

text \<open>\<open>dialStage\<close>: the address, then the steps of the transport; a step that fails closes the
  connection.\<close>

definition stage_tls ::
  "env \<Rightarrow> tunnel_runtime \<Rightarrow> runtime_node \<Rightarrow> string \<Rightarrow> relay \<Rightarrow> dial_error option \<times> relay" where
  "stage_tls e t n serverName r =
    (if \<not> env_tls_config e t n serverName then (Some TLSConfigFailed, r)
     else if env_handshake e (rl_tick r) then (None, tick r)
     else (Some (HandshakeFailed (rl_tick r)), tick r))"

definition stage_upgrade :: "env \<Rightarrow> relay \<Rightarrow> dial_error option \<times> relay" where
  "stage_upgrade e r =
    (if \<not> env_write e (rl_tick r) then (Some (UpgradeFailed (rl_tick r)), tick r)
     else (let r1 = tick r in case env_response e (rl_tick r1) of
         None \<Rightarrow> (Some (UpgradeFailed (rl_tick r1)), tick r1)
       | Some response \<Rightarrow>
           if hr_status response \<noteq> 101 \<or> \<not> equal_fold (hr_upgrade response) ''nyarelay'' \<or>
              \<not> headerContainsToken (hr_connection response) ''upgrade''
           then (Some UpgradeRejected, tick r1) else (None, tick r1)))"

definition stage_address :: "runtime_node \<Rightarrow> string" where
  "stage_address n = (if rn_connect n = '''' then rn_public n else rn_connect n)"

definition server_name :: "env \<Rightarrow> runtime_node \<Rightarrow> string" where
  "server_name e n =
    (let name = mget (rn_settings n) ''server_name''
     in if name = '''' then hostOnly (env_parse_ip e) (stage_address n) else name)"

definition dialStage :: "env \<Rightarrow> tunnel_runtime \<Rightarrow> runtime_node \<Rightarrow> relay \<Rightarrow> (dial_error + conn) \<times> relay" where
  "dialStage e t n r =
    (let addr = stage_address n in
     if addr = '''' then (Inl NoConnectAddress, r)
     else (case dialRelayContext e ''tcp'' addr r of
         (Inl x, r1) \<Rightarrow> (Inl x, r1)
       | (Inr c, r1) \<Rightarrow>
           if trt_transport t = TransportTLS \<or> trt_transport t = TransportMTLS then
             (case stage_tls e t n (server_name e n) r1 of
                (Some x, r2) \<Rightarrow> (Inl x, r2) | (None, r2) \<Rightarrow> (Inr c, r2))
           else if trt_transport t = TransportWSTLS then
             (let host = server_name e n in
              if \<exists>x\<in>set [CHR 0x0D, CHR 0x0A, CHR 0x09, CHR '' '']. x \<in> set host then (Inl InvalidHost, r1)
              else (case stage_tls e t n host r1 of
                  (Some x, r2) \<Rightarrow> (Inl x, r2)
                | (None, r2) \<Rightarrow> (case stage_upgrade e r2 of
                    (Some x, r3) \<Rightarrow> (Inl x, r3) | (None, r3) \<Rightarrow> (Inr c, r3))))
           else (Inr c, r1)))"

definition stage_hello :: "tunnel_runtime \<Rightarrow> forward_runtime \<Rightarrow> int \<Rightarrow> int \<Rightarrow> string \<Rightarrow> runtime_node \<Rightarrow> relay_hello" where
  "stage_hello t f from next net n = \<lparr> hl_magic = '''', hl_version = 0, hl_tunnel = trt_id t,
     hl_forward = frt_id f, hl_from = from, hl_to = next, hl_network = net,
     hl_secret = mget (rn_settings n) ''secret'' \<rparr>"

type_synonym stage_result = "(string \<times> dial_error) + (conn \<times> string)"

definition dialStageCandidate ::
  "env \<Rightarrow> tunnel_runtime \<Rightarrow> forward_runtime \<Rightarrow> int \<Rightarrow> int \<Rightarrow> int \<Rightarrow> string \<Rightarrow> relay \<Rightarrow> stage_result \<times> relay" where
  "dialStageCandidate e t f from next i net r =
    (if next < 0 \<or> next \<ge> int (length (trt_stages t)) then (Inl ('''', InvalidStage next), r)
     else (let stage = trt_stages t ! nat next in
       if i < 0 \<or> i \<ge> int (length (rst_nodes stage)) then
         (Inl (stageStatID (trt_id t) next, InvalidCandidate i next), r)
       else (let n = rst_nodes stage ! nat i;
                 stat = stageCandidateStatID (trt_id t) next (rn_node_id n)
         in case dialStage e t n r of
              (Inl x, r1) \<Rightarrow> (Inl (stat, x), fail_candidate e (trt_id t) next (rn_node_id n) net r1)
            | (Inr c, r1) \<Rightarrow>
                if env_hello e (rl_tick r1) (stage_hello t f from next net n) then
                  (Inr (c, stat), ok_candidate (trt_id t) next (rn_node_id n) net (tick r1))
                else (Inl (stat, HelloFailed (rl_tick r1)),
                      fail_candidate e (trt_id t) next (rn_node_id n) net (tick r1)))))"

text \<open>The loop over the order of candidates, with the session to bind or the empty key.\<close>

fun try_candidates ::
  "env \<Rightarrow> tunnel_runtime \<Rightarrow> forward_runtime \<Rightarrow> int \<Rightarrow> int \<Rightarrow> runtime_stage \<Rightarrow> string \<Rightarrow> string \<Rightarrow>
     nat list \<Rightarrow> dial_error option \<Rightarrow> relay \<Rightarrow> stage_result \<times> relay" where
  "try_candidates e t f from next stage net skey [] lastErr r =
     (Inl (stageStatID (trt_id t) next, case lastErr of None \<Rightarrow> NoCandidate next | Some x \<Rightarrow> x), r)"
| "try_candidates e t f from next stage net skey (i # is) lastErr r =
    (case dialStageCandidate e t f from next (int i) net r of
       (Inl (stat, x), r1) \<Rightarrow> try_candidates e t f from next stage net skey is (Some x) r1
     | (Inr (c, stat), r1) \<Rightarrow>
         (Inr (c, stat),
          if skey \<noteq> '''' then
            tick (r1\<lparr> rl_udp := sessions_bind skey (int i) (rn_node_id (rst_nodes stage ! i))
                        (now_of e r1) (rl_udp r1) \<rparr>)
          else r1))"

text \<open>The lookup of the session, as for the targets; a session of another node is left in place.\<close>

definition dial_session_candidate ::
  "env \<Rightarrow> tunnel_runtime \<Rightarrow> forward_runtime \<Rightarrow> int \<Rightarrow> runtime_stage \<Rightarrow> string \<Rightarrow> relay \<Rightarrow>
     (conn \<times> string) option \<times> relay" where
  "dial_session_candidate e t f from stage key r =
    (let (found, us) = sessions_get key (now_of e r) (rl_udp r);
         r1 = tick (r\<lparr> rl_udp := us \<rparr>);
         drop = (\<lambda>r. r\<lparr> rl_udp := sessions_delete key (rl_udp r) \<rparr>)
     in case found of
          None \<Rightarrow> (None, r1)
        | Some s \<Rightarrow>
            if 0 \<le> us_index s \<and> us_index s < int (length (rst_nodes stage)) then
              (let n = rst_nodes stage ! nat (us_index s) in
               if rn_node_id n = us_node s \<and> runtimeNodeSupportsProtocol n ProtoUDP then
                 (case dialStageCandidate e t f from (from + 1) (us_index s) ''udp'' r1 of
                    (Inr c, r2) \<Rightarrow> (Some c, r2) | (Inl x, r2) \<Rightarrow> (None, drop r2))
               else (None, r1))
            else (None, drop r1))"

definition dialForwardNextUDP ::
  "env \<Rightarrow> tunnel_runtime \<Rightarrow> forward_runtime \<Rightarrow> int \<Rightarrow> runtime_stage \<Rightarrow> string \<Rightarrow> relay \<Rightarrow> stage_result \<times> relay" where
  "dialForwardNextUDP e t f from stage sessionID r =
    (let next = from + 1;
         key = udpSessionKey (trt_id t) (frt_id f) from next sessionID;
         (hit, r2) = dial_session_candidate e t f from stage key r
     in case hit of
          Some c \<Rightarrow> (Inr c, r2)
        | None \<Rightarrow>
            (let (order, sel) = candidate_order (now_of e r2) (trt_id t) stage ''udp'' (rl_selector r2);
                 r3 = tick (r2\<lparr> rl_selector := sel \<rparr>)
             in if order = [] then (Inl (stageStatID (trt_id t) next, NoCandidate next), r3)
                else try_candidates e t f from next stage ''udp'' key order None r3))"

definition forget_target :: "target_result \<times> relay \<Rightarrow> stage_result \<times> relay" where
  "forget_target x = (case x of (Inl d, r) \<Rightarrow> (Inl d, r) | (Inr (c, stat, t), r) \<Rightarrow> (Inr (c, stat), r))"

definition dialForwardNext ::
  "env \<Rightarrow> tunnel_runtime \<Rightarrow> forward_runtime \<Rightarrow> int \<Rightarrow> string \<Rightarrow> string \<Rightarrow> relay \<Rightarrow> stage_result \<times> relay" where
  "dialForwardNext e t f from net sessionID r =
    (if trt_type t = TunnelDirect then forget_target (dialForwardTarget e f net sessionID r)
     else if from + 1 \<ge> int (length (trt_stages t)) then
       forget_target (dialForwardTarget e f net sessionID r)
     else (let next = from + 1; stage = trt_stages t ! nat next in
       if rst_nodes stage = [] then (Inl ('''', NoStageNode next), r)
       else if net = ''udp'' \<and> sessionID \<noteq> '''' then dialForwardNextUDP e t f from stage sessionID r
       else (let (order, sel) = candidate_order (now_of e r) (trt_id t) stage net (rl_selector r);
                 r1 = tick (r\<lparr> rl_selector := sel \<rparr>)
             in if order = [] then (Inl (stageStatID (trt_id t) next, NoCandidate next), r1)
                else try_candidates e t f from next stage net '''' order None r1)))"

section \<open>What a dial reaches\<close>

text \<open>The target a connection was made to: enabled, carrying the protocol, dialled with success.\<close>

definition reached :: "env \<Rightarrow> forward_runtime \<Rightarrow> string \<Rightarrow> forward_target \<Rightarrow> conn \<times> string \<times> string \<Rightarrow> bool" where
  "reached e f net t res \<longleftrightarrow> (case res of (c, stat, tid) \<Rightarrow>
     tgt_enabled t \<and> relay_targetSupportsProtocol (tgt_protocols t) (lower_net net) \<and>
     snd c = tgt_address t \<and> env_dial e (fst c) net (tgt_address t) \<and>
     tid = tgt_id t \<and> stat = targetStatID (frt_id f) (tgt_id t))"

lemma dialRelayContext_Inr:
  "dialRelayContext e net addr r = (Inr c, r') \<longleftrightarrow>
     env_dial e (rl_tick r) net addr \<and> c = (rl_tick r, addr) \<and> r' = tick r"
  by (auto simp: dialRelayContext_def)

lemma dialRelayContext_Inl:
  "dialRelayContext e net addr r = (Inl x, r') \<longleftrightarrow>
     \<not> env_dial e (rl_tick r) net addr \<and> x = DialFailed (rl_tick r) \<and> r' = tick r"
  by (auto simp: dialRelayContext_def)

lemma try_targets_Inr:
  "try_targets e f net skey is lastErr r = (Inr res, r') \<Longrightarrow>
     \<exists>i t. i \<in> set is \<and> forwardTargetAt f (int i) = Some t \<and> snd (fst res) = tgt_address t \<and>
       env_dial e (fst (fst res)) net (tgt_address t) \<and> snd (snd res) = tgt_id t \<and>
       fst (snd res) = targetStatID (frt_id f) (tgt_id t)"
proof (induction e f net skey "is" lastErr r rule: try_targets.induct)
  case (2 e f net skey i "is" lastErr r)
  show ?case
  proof (cases "forwardTargetAt f (int i)")
    case None
    with 2 show ?thesis by fastforce
  next
    case (Some t)
    show ?thesis
    proof (cases "env_dial e (rl_tick r) net (tgt_address t)")
      case True
      with 2(3) Some have "fst res = (rl_tick r, tgt_address t)" "snd (snd res) = tgt_id t"
          "fst (snd res) = targetStatID (frt_id f) (tgt_id t)"
        by (auto simp: dialRelayContext_def Let_def)
      with True Some show ?thesis by (intro exI [of _ i] exI [of _ t]) auto
    next
      case False
      with 2(2) [OF Some, of "Inl (DialFailed (rl_tick r))" "tick r" "DialFailed (rl_tick r)"] 2(3) Some
      show ?thesis by (fastforce simp: dialRelayContext_def)
    qed
  qed
qed simp

lemma session_target_props:
  "session_target f s = Some t \<Longrightarrow> forwardTargetAt f (us_index s) = Some t \<and> tgt_id t = us_node s \<and>
     tgt_enabled t \<and> relay_targetSupportsProtocol (tgt_protocols t) ProtoUDP"
  by (auto simp: session_target_def split: option.splits if_splits)

lemma dial_session_target_Some:
  "dial_session_target e f net skey r = (Some res, r') \<Longrightarrow>
     \<exists>s t. session_target f s = Some t \<and> fst (sessions_get skey (now_of e r) (rl_udp_targets r)) = Some s \<and>
       res = ((Suc (rl_tick r), tgt_address t), targetStatID (frt_id f) (tgt_id t), tgt_id t) \<and>
       env_dial e (Suc (rl_tick r)) net (tgt_address t) \<and>
       rl_udp_targets r' = snd (sessions_get skey (now_of e r) (rl_udp_targets r)) \<and>
       rl_tick r' = Suc (Suc (rl_tick r))"
  by (auto simp: dial_session_target_def Let_def split_beta dialRelayContext_def tick_def ok_target_def
      split: option.splits sum.splits prod.splits if_splits)

lemma dial_reached:
  assumes "dialForwardTarget e f net sid r = (Inr res, r')"
  shows "\<exists>i t. forwardTargetAt f i = Some t \<and> reached e f net t res"
proof -
  define skey where "skey = (if net = ''udp'' \<and> sid \<noteq> '''' then udpTargetSessionKey (frt_id f) sid else '''')"
  obtain hit r1 where h: "(if skey \<noteq> '''' then dial_session_target e f net skey r else (None, r)) = (hit, r1)"
    by (cases "if skey \<noteq> '''' then dial_session_target e f net skey r else (None, r)") auto
  note d = assms [unfolded dialForwardTarget_def, folded skey_def]
  show ?thesis
  proof (cases hit)
    case (Some c)
    with h have k: "skey \<noteq> ''''" and dst: "dial_session_target e f net skey r = (Some c, r1)"
      by (auto split: if_splits)
    have net: "net = ''udp''" using k by (auto simp: skey_def split: if_splits)
    have "res = c" using d Some by (simp add: h Let_def)
    from dial_session_target_Some [OF dst] obtain s t where st: "session_target f s = Some t"
        "c = ((Suc (rl_tick r), tgt_address t), targetStatID (frt_id f) (tgt_id t), tgt_id t)"
        "env_dial e (Suc (rl_tick r)) net (tgt_address t)" by blast
    then have "reached e f net t res"
      using session_target_props [OF st(1)] lower_net_proto(2) net \<open>res = c\<close> by (simp add: reached_def)
    then show ?thesis using session_target_props [OF st(1)] by blast
  next
    case None
    let ?o = "target_order (now_of e r1) f net (rl_targets r1)"
    from d None have "try_targets e f net skey (fst ?o) None (tick (r1\<lparr> rl_targets := snd ?o \<rparr>)) = (Inr res, r')"
      by (auto simp: h Let_def split_beta split: if_splits)
    from try_targets_Inr [OF this] obtain i t where it: "i \<in> set (fst ?o)" "forwardTargetAt f (int i) = Some t"
        "snd (fst res) = tgt_address t" "env_dial e (fst (fst res)) net (tgt_address t)"
        "snd (snd res) = tgt_id t" "fst (snd res) = targetStatID (frt_id f) (tgt_id t)" by blast
    with target_order_indices [of "now_of e r1" f net "rl_targets r1"] target_candidate_at [of i f net]
    show ?thesis by (cases res) (auto simp: reached_def)
  qed
qed

text \<open>C33: a dial for a forward that succeeds reached an enabled target of the forward that carries
  the protocol, over a successful connection to its address, and reports the id and the statistics
  id of that target, whether it came from a session or from the order.\<close>

theorem dial_target_sound:
  assumes "dialForwardTarget e f net sid r = (Inr res, r')"
  shows "\<exists>i t. forwardTargetAt f i = Some t \<and> reached e f net t res"
  by (rule dial_reached [OF assms])

text \<open>The environment and forward of the witnesses: two targets, of which the first refuses.\<close>

definition ex_env :: env where
  "ex_env = \<lparr> env_now = (\<lambda>k. int k * second), env_dial = (\<lambda>k net addr. addr \<noteq> ''10.0.0.1:80''),
     env_tls_config = (\<lambda>t n s. True), env_handshake = (\<lambda>k. True), env_write = (\<lambda>k. True),
     env_response = (\<lambda>k. None), env_hello = (\<lambda>k h. True), env_parse_ip = (\<lambda>s. None) \<rparr>"

definition ex_target :: "string \<Rightarrow> string \<Rightarrow> forward_target" where
  "ex_target i addr = \<lparr> tgt_id = i, tgt_forward_id = ''f'', tgt_address = addr, tgt_protocols = [],
     tgt_weight = 1, tgt_enabled = True, tgt_position = 0 \<rparr>"

definition ex_forward :: forward_runtime where
  "ex_forward = \<lparr> frt_id = ''f'', frt_name = ''f'', frt_tunnel_id = ''t'', frt_protocols = [ProtoTCP, ProtoUDP],
     frt_listen = '':8080'', frt_target = '''', frt_targets = [ex_target ''a'' ''10.0.0.1:80'', ex_target ''b'' ''10.0.0.2:80''],
     frt_strategy = ''failover'', frt_tcp_strategy = '''', frt_udp_strategy = '''', frt_enabled = True \<rparr>"

definition ex_relay :: relay where
  "ex_relay = \<lparr> rl_selector = new_selector (\<lambda>n. n), rl_targets = new_selector (\<lambda>n. n),
     rl_udp = newUDPCandidateSessions, rl_udp_targets = newUDPCandidateSessions, rl_tick = 100 \<rparr>"

lemma ex_dial:
  "fst (dialForwardTarget ex_env ex_forward ''udp'' ''s'' ex_relay) =
     Inr ((104, ''10.0.0.2:80''), ''target:f:b'', ''b'')"
  by code_simp

theorem dial_target_sound_witness:
  "\<exists>i t. forwardTargetAt ex_forward i = Some t \<and>
     reached ex_env ex_forward ''udp'' t ((104, ''10.0.0.2:80''), ''target:f:b'', ''b'')"
  by (rule dial_target_sound [where r' = "snd (dialForwardTarget ex_env ex_forward ''udp'' ''s'' ex_relay)"
        and sid = "''s''" and r = ex_relay])
    (simp add: ex_dial [symmetric])

section \<open>Sessions stay where they are\<close>

lemma relay_ops [simp]:
  "rl_udp_targets (tick r) = rl_udp_targets r" "rl_tick (tick r) = Suc (rl_tick r)"
  "rl_targets (tick r) = rl_targets r" "rl_selector (tick r) = rl_selector r" "rl_udp (tick r) = rl_udp r"
  "rl_udp_targets (fail_target e a b net r) = rl_udp_targets r" "rl_tick (fail_target e a b net r) = Suc (rl_tick r)"
  "rl_udp_targets (ok_target a b net r) = rl_udp_targets r" "rl_tick (ok_target a b net r) = rl_tick r"
  by (simp_all add: tick_def fail_target_def ok_target_def)

lemma try_targets_bound:
  "try_targets e f net skey is lastErr r = (Inr res, r') \<Longrightarrow> skey \<noteq> '''' \<Longrightarrow>
     \<exists>i t k. i \<in> set is \<and> forwardTargetAt f (int i) = Some t \<and> fst res = (fst (fst res), tgt_address t) \<and>
       snd (snd res) = tgt_id t \<and> fst (snd res) = targetStatID (frt_id f) (tgt_id t) \<and>
       rl_tick r \<le> k \<and> k < rl_tick r' \<and>
       rl_udp_targets r' = sessions_bind skey (int i) (tgt_id t) (env_now e k) (rl_udp_targets r)"
proof (induction e f net skey "is" lastErr r rule: try_targets.induct)
  case (2 e f net skey i "is" lastErr r)
  show ?case
  proof (cases "forwardTargetAt f (int i)")
    case None
    with 2 show ?thesis by fastforce
  next
    case (Some t)
    show ?thesis
    proof (cases "env_dial e (rl_tick r) net (tgt_address t)")
      case True
      with 2(3,4) Some have "fst res = (rl_tick r, tgt_address t)" "snd (snd res) = tgt_id t"
          "fst (snd res) = targetStatID (frt_id f) (tgt_id t)"
          "rl_udp_targets r' = sessions_bind skey (int i) (tgt_id t) (env_now e (Suc (rl_tick r))) (rl_udp_targets r)"
          "rl_tick r' = Suc (Suc (rl_tick r))"
        by (auto simp: dialRelayContext_def Let_def now_of_def)
      with Some show ?thesis by (intro exI [of _ i] exI [of _ t] exI [of _ "Suc (rl_tick r)"]) auto
    next
      case False
      let ?r = "fail_target e (frt_id f) (tgt_id t) net (tick r)"
      have "try_targets e f net skey is (Some (DialFailed (rl_tick r))) ?r = (Inr res, r')"
        using 2(3) Some False by (simp add: dialRelayContext_def)
      from 2(2) [OF Some _ refl this 2(4)] False obtain j t' k where
        "j \<in> set is" "forwardTargetAt f (int j) = Some t'" "fst res = (fst (fst res), tgt_address t')"
        "snd (snd res) = tgt_id t'" "fst (snd res) = targetStatID (frt_id f) (tgt_id t')"
        "rl_tick ?r \<le> k" "k < rl_tick r'"
        "rl_udp_targets r' = sessions_bind skey (int j) (tgt_id t') (env_now e k) (rl_udp_targets ?r)"
        by (auto simp: dialRelayContext_def)
      then show ?thesis by (intro exI [of _ j] exI [of _ t'] exI [of _ k]) auto
    qed
  qed
qed simp

lemma target_session_key_nonempty: "udpTargetSessionKey a b \<noteq> ''''"
  by (simp add: udpTargetSessionKey_def)

text \<open>A lookup that hits a session of a usable target dials that target.\<close>

lemma dial_session_hit:
  assumes "session_at (now_of e r) skey (rl_udp_targets r) = Some (i, tgt_id t)"
    and "forwardTargetAt f i = Some t" and "tgt_enabled t"
    and "relay_targetSupportsProtocol (tgt_protocols t) ProtoUDP"
    and "env_dial e (Suc (rl_tick r)) net (tgt_address t)"
  shows "\<exists>r'. dial_session_target e f net skey r =
      (Some ((Suc (rl_tick r), tgt_address t), targetStatID (frt_id f) (tgt_id t), tgt_id t), r') \<and>
    rl_targets r' = target_recordSuccess (frt_id f) (tgt_id t) net (rl_targets r)"
proof -
  from assms(1) obtain s where s: "fst (sessions_get skey (now_of e r) (rl_udp_targets r)) = Some s"
      "us_index s = i" "us_node s = tgt_id t"
    by (auto simp: session_at_def sessions_get_def session_value_def Let_def split: option.splits if_splits)
  then have "session_target f s = Some t" using assms by (simp add: session_target_def)
  with s assms(5) show ?thesis
    by (simp add: dial_session_target_def Let_def split_beta dialRelayContext_def tick_def ok_target_def)
qed

text \<open>What a successful dial for a session leaves in the table.\<close>

lemma dial_target_session:
  assumes "dialForwardTarget e f ''udp'' sid r = (Inr (c, stat, tid), r1)" and sid: "sid \<noteq> ''''"
    and ok: "sessions_ok (rl_udp_targets r)"
  shows "\<exists>i t k. forwardTargetAt f i = Some t \<and> tgt_enabled t \<and>
    relay_targetSupportsProtocol (tgt_protocols t) ProtoUDP \<and> snd c = tgt_address t \<and>
    tid = tgt_id t \<and> stat = targetStatID (frt_id f) (tgt_id t) \<and> rl_tick r \<le> k \<and> k < rl_tick r1 \<and>
    sessions_ok (rl_udp_targets r1) \<and>
    (\<forall>u. env_now e k \<le> u \<longrightarrow> u \<le> env_now e k + idle_timeout (rl_udp_targets r) \<longrightarrow>
       session_at u (udpTargetSessionKey (frt_id f) sid) (rl_udp_targets r1) = Some (i, tid))"
proof -
  define skey where "skey = udpTargetSessionKey (frt_id f) sid"
  have ne: "skey \<noteq> ''''" by (simp add: skey_def target_session_key_nonempty)
  obtain hit r0 where h: "dial_session_target e f ''udp'' skey r = (hit, r0)" by force
  note d = assms(1) [unfolded dialForwardTarget_def Let_def, folded skey_def]
  let ?get = "sessions_get skey (now_of e r) (rl_udp_targets r)"
  show ?thesis
  proof (cases hit)
    case (Some x)
    then have x: "x = (c, stat, tid)" "r1 = r0" using d sid by (auto simp: h ne)
    from dial_session_target_Some [OF h [unfolded Some]] obtain s t where st:
        "session_target f s = Some t" "fst ?get = Some s"
        "x = ((Suc (rl_tick r), tgt_address t), targetStatID (frt_id f) (tgt_id t), tgt_id t)"
        "rl_udp_targets r0 = snd ?get" "rl_tick r0 = Suc (Suc (rl_tick r))" by blast
    have "fst (sessions_get_value skey (now_of e r) (rl_udp_targets r)) = Some (us_index s, us_node s)"
      using st(2) by (simp add: sessions_get_value_def session_value_def)
    then have "session_at (now_of e r) skey (rl_udp_targets r) = Some (us_index s, us_node s)"
      by (simp add: udp_cache.get_value)
    from udp_cache.value_after_hit [OF ok this]
    have "\<forall>u. env_now e (rl_tick r) \<le> u \<longrightarrow> u \<le> env_now e (rl_tick r) + idle_timeout (rl_udp_targets r) \<longrightarrow>
        session_at u skey (rl_udp_targets r1) = Some (us_index s, us_node s)"
      using st(4) x by (simp add: sessions_get_value_def now_of_def)
    moreover have "sessions_ok (rl_udp_targets r1)" using st(4) x(2) sessions_ok_ops(1) [OF ok] by simp
    ultimately show ?thesis
      using session_target_props [OF st(1)] st x
      by (intro exI [of _ "us_index s"] exI [of _ t] exI [of _ "rl_tick r"]) (simp add: skey_def)
  next
    case None
    let ?o = "target_order (now_of e r0) f ''udp'' (rl_targets r0)"
    let ?r2 = "tick (r0\<lparr> rl_targets := snd ?o \<rparr>)"
    from d None sid have tt: "try_targets e f ''udp'' skey (fst ?o) None ?r2 = (Inr (c, stat, tid), r1)"
      by (auto simp: h ne split_beta split: if_splits)
    from try_targets_bound [OF tt ne] obtain i t k where it: "i \<in> set (fst ?o)"
        "forwardTargetAt f (int i) = Some t" "snd c = tgt_address t" "tid = tgt_id t"
        "stat = targetStatID (frt_id f) (tgt_id t)" "rl_tick ?r2 \<le> k" "k < rl_tick r1"
        "rl_udp_targets r1 = sessions_bind skey (int i) (tgt_id t) (env_now e k) (rl_udp_targets ?r2)"
      by (metis fst_conv prod.collapse snd_conv)
    have r0: "sessions_ok (rl_udp_targets r0)" "idle_timeout (rl_udp_targets r0) = idle_timeout (rl_udp_targets r)"
      "rl_tick r \<le> rl_tick r0"
      using h ok None
      by (auto simp: dial_session_target_def Let_def split_beta dialRelayContext_def sessions_ok_ops
          split: option.splits if_splits)
    have "i \<in> tc_index ` set (forwardTargetsForNetwork (frt_targets f) (frt_target f) ''udp'')"
      using it(1) target_order_indices by blast
    from target_candidate_at [OF this] it(2) have t: "tgt_enabled t"
        "relay_targetSupportsProtocol (tgt_protocols t) ProtoUDP"
      by (auto simp: lower_net_proto)
    have "\<forall>u. env_now e k \<le> u \<longrightarrow> u \<le> env_now e k + idle_timeout (rl_udp_targets r) \<longrightarrow>
        session_at u skey (rl_udp_targets r1) = Some (int i, tid)"
      using udp_cache.value_bind [OF r0(1)] it r0(2) by simp
    moreover have "sessions_ok (rl_udp_targets r1)" using it(8) sessions_ok_ops(2) [OF r0(1)] by simp
    ultimately show ?thesis
      using it t r0(3) by (intro exI [of _ "int i"] exI [of _ t] exI [of _ k]) (simp add: skey_def)
  qed
qed

text \<open>What happens to a relay between two dials of a session: dials for other forwards, networks and
  sessions, and sweeps of the session table.\<close>

datatype relay_event =
    DialTarget forward_runtime string string
  | SweepTargets

fun run_event :: "env \<Rightarrow> relay_event \<Rightarrow> relay \<Rightarrow> relay" where
  "run_event e (DialTarget f net sid) r = snd (dialForwardTarget e f net sid r)"
| "run_event e SweepTargets r =
     tick (r\<lparr> rl_udp_targets := sessions_gc (now_of e r) (rl_udp_targets r) \<rparr>)"

definition run_events :: "env \<Rightarrow> relay_event list \<Rightarrow> relay \<Rightarrow> relay" where
  "run_events e evs r = fold (run_event e) evs r"

text \<open>The events that are no dial of the session: forward ids hold no colon, session ids may.\<close>

fun foreign_event :: "string \<Rightarrow> string \<Rightarrow> relay_event \<Rightarrow> bool" where
  "foreign_event fid sid (DialTarget f net sid') \<longleftrightarrow> net \<noteq> ''udp'' \<or> sid' = '''' \<or>
     (if frt_id f = fid then sid' \<noteq> sid else CHR '':'' \<notin> set (frt_id f) \<and> CHR '':'' \<notin> set fid)"
| "foreign_event fid sid SweepTargets \<longleftrightarrow> True"

lemma target_session_key_other:
  "foreign_event fid sid (DialTarget f ''udp'' sid') \<Longrightarrow> sid' \<noteq> '''' \<Longrightarrow>
     udpTargetSessionKey fid sid \<noteq> udpTargetSessionKey (frt_id f) sid'"
  using append_colon_inject [of fid "frt_id f"]
  by (auto simp: udpTargetSessionKey_def split: if_splits)

text \<open>The entry of a key is as before, in a table that has grown by at most n entries.\<close>

definition session_kept :: "env \<Rightarrow> string \<Rightarrow> nat \<Rightarrow> relay \<Rightarrow> relay \<Rightarrow> bool" where
  "session_kept e key n r r' \<longleftrightarrow>
     sessions_ok (rl_udp_targets r') \<and> rl_tick r \<le> rl_tick r' \<and>
     session_limit (rl_udp_targets r') = session_limit (rl_udp_targets r) \<and>
     length (uss_map (rl_udp_targets r')) \<le> length (uss_map (rl_udp_targets r)) + n \<and>
     (\<forall>u\<ge>env_now e (rl_tick r'). session_at u key (rl_udp_targets r') = session_at u key (rl_udp_targets r))"

lemma session_kept_trans:
  assumes "session_kept e key n r r'" and "session_kept e key m r' r''" and "mono (env_now e)"
  shows "session_kept e key (n + m) r r''"
proof -
  have "env_now e (rl_tick r') \<le> env_now e (rl_tick r'')"
    using assms(2) by (intro monoD [OF assms(3)]) (simp add: session_kept_def)
  with assms(1,2) show ?thesis by (auto simp: session_kept_def)
qed

lemma session_kept_mono: "session_kept e key n r r' \<Longrightarrow> n \<le> m \<Longrightarrow> session_kept e key m r r'"
  by (simp add: session_kept_def)

lemma session_kept_same:
  "sessions_ok (rl_udp_targets r) \<Longrightarrow> rl_udp_targets r' = rl_udp_targets r \<Longrightarrow> rl_tick r \<le> rl_tick r' \<Longrightarrow>
     session_kept e key 0 r r'"
  by (simp add: session_kept_def)

lemma session_at_other_get:
  "key \<noteq> k \<Longrightarrow> session_at u key (snd (sessions_get k t s)) = session_at u key s"
  using udp_cache.value_other_get [of key k u t s] by (simp add: sessions_get_value_def)

lemma try_targets_kept:
  assumes "sessions_ok (rl_udp_targets r)" and "key \<noteq> skey"
    and "int (length (uss_map (rl_udp_targets r))) < session_limit (rl_udp_targets r)"
  shows "session_kept e key 1 r (snd (try_targets e f net skey is lastErr r))"
  using assms
proof (induction e f net skey "is" lastErr r rule: try_targets.induct)
  case (2 e f net skey i "is" lastErr r)
  show ?case
  proof (cases "forwardTargetAt f (int i)")
    case (Some t)
    show ?thesis
    proof (cases "env_dial e (rl_tick r) net (tgt_address t)")
      case True
      with Some 2(3-5) show ?thesis
        by (auto simp: dialRelayContext_def Let_def session_kept_def session_at_bind_other sessions_size_bind)
    next
      case False
      with 2(2) [OF Some, of "Inl (DialFailed (rl_tick r))" "tick r" "DialFailed (rl_tick r)"] 2(3-5) Some
      show ?thesis by (auto simp: dialRelayContext_def session_kept_def)
    qed
  qed (use 2 in simp)
qed (simp add: session_kept_def)

lemma dial_session_kept:
  assumes "sessions_ok (rl_udp_targets r)" and "key \<noteq> skey"
  shows "session_kept e key 0 r (snd (dial_session_target e f net skey r))"
proof -
  let ?s = "snd (sessions_get skey (now_of e r) (rl_udp_targets r))"
  have "length (uss_map (sessions_delete skey ?s)) \<le> length (uss_map (rl_udp_targets r))"
    by (rule order_trans [OF sessions_size(2) sessions_size(1)])
  then show ?thesis
    using assms sessions_size(1) [of skey "now_of e r" "rl_udp_targets r"]
    by (auto simp: dial_session_target_def Let_def split_beta dialRelayContext_def session_kept_def
        session_at_other_get udp_cache.value_other_del split: option.splits)
qed

lemma dial_kept:
  assumes "sessions_ok (rl_udp_targets r)" and "mono (env_now e)"
    and "foreign_event fid sid (DialTarget f net sid')"
    and "int (length (uss_map (rl_udp_targets r))) < session_limit (rl_udp_targets r)"
  shows "session_kept e (udpTargetSessionKey fid sid) 1 r (snd (dialForwardTarget e f net sid' r))"
proof -
  define skey where "skey = (if net = ''udp'' \<and> sid' \<noteq> '''' then udpTargetSessionKey (frt_id f) sid' else '''')"
  have other: "udpTargetSessionKey fid sid \<noteq> skey"
    using assms(3) target_session_key_other [of fid sid f sid'] target_session_key_nonempty
    by (auto simp: skey_def simp del: foreign_event.simps)
  define look where "look = (if skey \<noteq> '''' then dial_session_target e f net skey r else (None, r))"
  let ?o = "target_order (now_of e (snd look)) f net (rl_targets (snd look))"
  let ?r2 = "tick ((snd look)\<lparr> rl_targets := snd ?o \<rparr>)"
  have k1: "session_kept e (udpTargetSessionKey fid sid) 0 r (snd look)"
    using dial_session_kept [OF assms(1) other] session_kept_same [OF assms(1) refl order_refl]
    by (simp add: look_def)
  have k2: "session_kept e (udpTargetSessionKey fid sid) 0 r ?r2"
    using session_kept_trans [OF k1 session_kept_same [of "snd look" ?r2] assms(2)] k1
    by (simp add: session_kept_def)
  then have "session_kept e (udpTargetSessionKey fid sid) 1 ?r2
      (snd (try_targets e f net skey (fst ?o) None ?r2))"
    using assms(4) other by (intro try_targets_kept) (auto simp: session_kept_def)
  from session_kept_trans [OF k2 this assms(2)]
  have k3: "session_kept e (udpTargetSessionKey fid sid) 1 r
      (snd (try_targets e f net skey (fst ?o) None ?r2))" by simp
  have "snd (dialForwardTarget e f net sid' r) \<in>
      {snd look, ?r2, snd (try_targets e f net skey (fst ?o) None ?r2)}"
    unfolding dialForwardTarget_def Let_def skey_def [symmetric] look_def [symmetric] split_beta
    by (simp split: option.split)
  with k3 session_kept_mono [OF k1, of 1] session_kept_mono [OF k2, of 1] show ?thesis by auto
qed

lemma event_kept:
  assumes "sessions_ok (rl_udp_targets r)" and "mono (env_now e)" and "foreign_event fid sid ev"
    and "int (length (uss_map (rl_udp_targets r))) < session_limit (rl_udp_targets r)"
  shows "session_kept e (udpTargetSessionKey fid sid) 1 r (run_event e ev r)"
proof (cases ev)
  case (DialTarget f net sid')
  then show ?thesis using dial_kept [OF assms(1,2) _ assms(4)] assms(3) by simp
next
  case SweepTargets
  have "env_now e (rl_tick r) \<le> env_now e (Suc (rl_tick r))" by (intro monoD [OF assms(2)]) simp
  then show ?thesis
    using assms(1) sessions_size(3) [of "now_of e r" "rl_udp_targets r"] SweepTargets
    by (auto simp: session_kept_def now_of_def udp_cache.value_sweep)
qed

lemma events_kept:
  "sessions_ok (rl_udp_targets r) \<Longrightarrow> mono (env_now e) \<Longrightarrow> \<forall>ev\<in>set evs. foreign_event fid sid ev \<Longrightarrow>
     int (length (uss_map (rl_udp_targets r)) + length evs) \<le> session_limit (rl_udp_targets r) \<Longrightarrow>
     session_kept e (udpTargetSessionKey fid sid) (length evs) r (run_events e evs r)"
proof (induction evs arbitrary: r)
  case Nil
  then show ?case by (simp add: run_events_def session_kept_same)
next
  case (Cons ev evs)
  let ?r = "run_event e ev r"
  have k: "session_kept e (udpTargetSessionKey fid sid) 1 r ?r"
    using Cons.prems by (intro event_kept) auto
  then have "session_kept e (udpTargetSessionKey fid sid) (length evs) ?r (run_events e evs ?r)"
    using Cons.prems by (intro Cons.IH) (auto simp: session_kept_def)
  from session_kept_trans [OF k this Cons.prems(2)] show ?case by (simp add: run_events_def)
qed

text \<open>C32: a UDP session keeps its target: whatever dials of other sessions, forwards and networks
  and whatever sweeps of the table happen in between, as long as the table does not fill up, the
  next dial of the session within the idle timeout goes to the same target when that answers, and
  it does not ask the selector, which only has the success recorded.  (The clock does not go back,
  and the ids of different forwards hold no colon.)\<close>

theorem udp_target_affinity:
  assumes "dialForwardTarget e f ''udp'' sid r = (Inr (c, stat, tid), r1)" and "sid \<noteq> ''''"
    and "sessions_ok (rl_udp_targets r)" and "mono (env_now e)"
    and "\<forall>ev\<in>set evs. foreign_event (frt_id f) sid ev" and "r2 = run_events e evs r1"
    and "int (length (uss_map (rl_udp_targets r1)) + length evs) \<le> session_limit (rl_udp_targets r1)"
    and "env_now e (rl_tick r2) \<le> env_now e (rl_tick r) + idle_timeout (rl_udp_targets r)"
    and "env_dial e (Suc (rl_tick r2)) ''udp'' (snd c)"
  shows "fst (dialForwardTarget e f ''udp'' sid r2) = Inr ((Suc (rl_tick r2), snd c), stat, tid) \<and>
    rl_targets (snd (dialForwardTarget e f ''udp'' sid r2)) =
      target_recordSuccess (frt_id f) tid ''udp'' (rl_targets r2)"
proof -
  let ?k = "udpTargetSessionKey (frt_id f) sid"
  from dial_target_session [OF assms(1-3)] obtain i t k where it: "forwardTargetAt f i = Some t"
      "tgt_enabled t" "relay_targetSupportsProtocol (tgt_protocols t) ProtoUDP" "snd c = tgt_address t"
      "tid = tgt_id t" "stat = targetStatID (frt_id f) (tgt_id t)" "rl_tick r \<le> k" "k < rl_tick r1"
      "sessions_ok (rl_udp_targets r1)"
    and s: "\<forall>u. env_now e k \<le> u \<longrightarrow> u \<le> env_now e k + idle_timeout (rl_udp_targets r) \<longrightarrow>
       session_at u ?k (rl_udp_targets r1) = Some (i, tid)" by blast
  from events_kept [OF it(9) assms(4,5,7)] have kept: "session_kept e ?k (length evs) r1 r2"
    by (simp add: assms(6))
  then have "env_now e k \<le> now_of e r2" "now_of e r2 \<le> env_now e k + idle_timeout (rl_udp_targets r)"
    using assms(8) monoD [OF assms(4) it(7)] monoD [OF assms(4), of k "rl_tick r2"] it(8)
    by (simp_all add: now_of_def session_kept_def)
  with s it(5) kept have "session_at (now_of e r2) ?k (rl_udp_targets r2) = Some (i, tgt_id t)"
    by (simp add: session_kept_def now_of_def)
  from dial_session_hit [OF this it(1-3), of "''udp''"] assms(9) it obtain r3 where
    "dial_session_target e f ''udp'' ?k r2 = (Some ((Suc (rl_tick r2), snd c), stat, tid), r3)"
    "rl_targets r3 = target_recordSuccess (frt_id f) tid ''udp'' (rl_targets r2)" by auto
  then show ?thesis using assms(2) by (simp add: dialForwardTarget_def Let_def target_session_key_nonempty)
qed

definition ex_events :: "relay_event list" where
  "ex_events = [DialTarget ex_forward ''udp'' ''other'', SweepTargets, DialTarget ex_forward ''tcp'' ''s'']"

theorem udp_target_affinity_witness:
  "let r2 = run_events ex_env ex_events (snd (dialForwardTarget ex_env ex_forward ''udp'' ''s'' ex_relay))
   in fst (dialForwardTarget ex_env ex_forward ''udp'' ''s'' r2) =
     Inr ((Suc (rl_tick r2), ''10.0.0.2:80''), ''target:f:b'', ''b'')"
proof -
  define r1 where "r1 = snd (dialForwardTarget ex_env ex_forward ''udp'' ''s'' ex_relay)"
  define r2 where "r2 = run_events ex_env ex_events r1"
  have d: "dialForwardTarget ex_env ex_forward ''udp'' ''s'' ex_relay =
      (Inr ((104, ''10.0.0.2:80''), ''target:f:b'', ''b''), r1)"
    by (simp add: ex_dial prod_eq_iff r1_def)
  have t: "rl_tick r2 \<le> 130" unfolding r2_def r1_def by code_simp
  have m: "length (uss_map (rl_udp_targets r1)) = 1" "session_limit (rl_udp_targets r1) = 100000"
    unfolding r1_def by code_simp+
  have "fst (dialForwardTarget ex_env ex_forward ''udp'' ''s'' r2) =
      Inr ((Suc (rl_tick r2), snd (104 :: nat, ''10.0.0.2:80'')), ''target:f:b'', ''b'')"
  proof (rule udp_target_affinity [OF d _ _ _ _ r2_def, THEN conjunct1])
    show "sessions_ok (rl_udp_targets ex_relay)"
      by (simp add: ex_relay_def sessions_ok_def newUDPCandidateSessions_def idle_timeout_def
          udpSessionIdleTimeout_def duration_defs)
    show "mono (env_now ex_env)" by (simp add: ex_env_def mono_def second_def)
    show "\<forall>ev\<in>set ex_events. foreign_event (frt_id ex_forward) ''s'' ev"
      by (simp add: ex_events_def ex_forward_def)
    show "int (length (uss_map (rl_udp_targets r1)) + length ex_events) \<le> session_limit (rl_udp_targets r1)"
      by (simp add: m ex_events_def)
    show "env_now ex_env (rl_tick r2) \<le> env_now ex_env (rl_tick ex_relay) + idle_timeout (rl_udp_targets ex_relay)"
      using t by (simp add: ex_env_def ex_relay_def newUDPCandidateSessions_def idle_timeout_def
          udpSessionIdleTimeout_def duration_defs)
    show "env_dial ex_env (Suc (rl_tick r2)) ''udp'' (snd (104 :: nat, ''10.0.0.2:80''))"
      by (simp add: ex_env_def)
  qed simp
  then show ?thesis by (simp add: r2_def r1_def Let_def)
qed

section \<open>A dial that fails\<close>

lemma fail_target_free:
  assumes "sel_ready d (rl_targets r)" and "0 \<le> now_of e r" and "t < now_of e r + d"
  shows "\<not> key_free t (targetSelectorStateKey f tid net) (rl_targets (fail_target e f tid net r))"
    and "\<not> key_free t k (rl_targets r) \<Longrightarrow> \<not> key_free t k (rl_targets (fail_target e f tid net r))"
    and "sel_ready d (rl_targets (fail_target e f tid net r))"
  using assms
  by (simp_all add: fail_target_def target_recordFailure_def keys.free_bad ready_mark_failure)

lemma try_targets_fail:
  assumes "try_targets e f net skey is lastErr r = (Inl x, r')" and "sel_ready d (rl_targets r)"
    and "\<forall>k\<ge>rl_tick r. 0 \<le> env_now e k \<and> t < env_now e k + d"
  shows "(\<forall>i\<in>set is. \<forall>tg. forwardTargetAt f (int i) = Some tg \<longrightarrow>
      \<not> key_free t (targetSelectorStateKey (frt_id f) (tgt_id tg) net) (rl_targets r')) \<and>
    (\<forall>k. \<not> key_free t k (rl_targets r) \<longrightarrow> \<not> key_free t k (rl_targets r'))"
  using assms
proof (induction e f net skey "is" lastErr r rule: try_targets.induct)
  case (1 e f net skey lastErr r)
  then show ?case by auto
next
  case (2 e f net skey i "is" lastErr r)
  show ?case
  proof (cases "forwardTargetAt f (int i)")
    case None
    with 2 show ?thesis by simp
  next
    case (Some tg)
    let ?r = "fail_target e (frt_id f) (tgt_id tg) net (tick r)"
    have no: "\<not> env_dial e (rl_tick r) net (tgt_address tg)"
      using 2(3) Some by (auto simp: dialRelayContext_def Let_def)
    then have dial: "dialRelayContext e net (tgt_address tg) r = (Inl (DialFailed (rl_tick r)), tick r)"
      by (simp add: dialRelayContext_def)
    have now: "0 \<le> now_of e (tick r)" "t < now_of e (tick r) + d"
      using 2(5) by (simp_all add: now_of_def)
    have tready: "sel_ready d (rl_targets (tick r))" using 2(4) by simp
    note ff = fail_target_free [OF tready now]
    have "try_targets e f net skey is (Some (DialFailed (rl_tick r))) ?r = (Inl x, r')"
      using 2(3) Some dial by simp
    from 2(2) [OF Some dial [symmetric] refl this ff(3)] 2(5)
    have IH: "\<forall>i\<in>set is. \<forall>tg. forwardTargetAt f (int i) = Some tg \<longrightarrow>
        \<not> key_free t (targetSelectorStateKey (frt_id f) (tgt_id tg) net) (rl_targets r')"
      "\<forall>k. \<not> key_free t k (rl_targets ?r) \<longrightarrow> \<not> key_free t k (rl_targets r')"
      by auto
    have "\<not> key_free t (targetSelectorStateKey (frt_id f) (tgt_id tg) net) (rl_targets r')"
      using IH(2) ff(1) by blast
    moreover have "\<not> key_free t k (rl_targets r) \<Longrightarrow> \<not> key_free t k (rl_targets r')" for k
      using IH(2) ff(2) [of k] by simp
    ultimately show ?thesis using IH(1) Some by auto
  qed
qed

text \<open>a dial without a session that fails has tried every target of its order, and leaves each of
  them cooling down for the fail timeout.\<close>

theorem dial_failure_cools_down:
  assumes "dialForwardTarget e f net '''' r = (Inl x, r')" and "sel_ready d (rl_targets r)"
    and "\<forall>k\<ge>rl_tick r. 0 \<le> env_now e k \<and> t < env_now e k + d"
    and "i \<in> set (fst (target_order (now_of e r) f net (rl_targets r)))"
  shows "\<exists>tg. forwardTargetAt f (int i) = Some tg \<and>
    \<not> fst (targetAvailableLocked (frt_id f) (tgt_id tg) net t (rl_targets r'))"
proof -
  let ?o = "target_order (now_of e r) f net (rl_targets r)"
  let ?r = "tick (r\<lparr> rl_targets := snd ?o \<rparr>)"
  have "try_targets e f net '''' (fst ?o) None ?r = (Inl x, r')"
    using assms(1,4) by (auto simp: dialForwardTarget_def Let_def split_beta split: if_splits)
  from try_targets_fail [OF this, of d t] ready_target_order [OF assms(2)] assms(3)
  have "\<forall>i\<in>set (fst ?o). \<forall>tg. forwardTargetAt f (int i) = Some tg \<longrightarrow>
      \<not> key_free t (targetSelectorStateKey (frt_id f) (tgt_id tg) net) (rl_targets r')"
    by simp
  moreover have "i \<in> tc_index ` set (forwardTargetsForNetwork (frt_targets f) (frt_target f) net)"
    using assms(4) target_order_indices by blast
  from target_candidate_at [OF this] obtain tg where "forwardTargetAt f (int i) = Some tg" by blast
  ultimately show ?thesis using assms(4) by (auto simp: targetAvailableLocked_def key_free_def)
qed

definition dead_env :: env where
  "dead_env = ex_env\<lparr> env_dial := (\<lambda>k net addr. False) \<rparr>"

theorem dial_failure_cools_down_witness:
  "\<not> fst (targetAvailableLocked ''f'' ''b'' ''tcp'' (104 * second)
      (rl_targets (snd (dialForwardTarget dead_env ex_forward ''tcp'' '''' ex_relay))))"
proof -
  have "isl (fst (dialForwardTarget dead_env ex_forward ''tcp'' '''' ex_relay))" by code_simp
  then obtain x where d: "dialForwardTarget dead_env ex_forward ''tcp'' '''' ex_relay =
      (Inl x, snd (dialForwardTarget dead_env ex_forward ''tcp'' '''' ex_relay))"
    by (metis prod.collapse sum.collapse(1))
  have o: "1 \<in> set (fst (target_order (now_of dead_env ex_relay) ex_forward ''tcp'' (rl_targets ex_relay)))"
    by code_simp
  have r: "sel_ready (5 * second) (rl_targets ex_relay)"
    by (simp add: ex_relay_def sel_ready_def fails_ok_def new_selector_def defaultCandidateMaxFails_def
        defaultCandidateFailTimeout_def second_def)
  have t: "\<forall>k\<ge>rl_tick ex_relay. 0 \<le> env_now dead_env k \<and> 104 * second < env_now dead_env k + 5 * second"
    by (simp add: ex_relay_def dead_env_def ex_env_def second_def)
  from dial_failure_cools_down [OF d r t o]
  show ?thesis by (auto simp: ex_forward_def forwardTargetAt_def ex_target_def named_target_def)
qed

section \<open>Stages\<close>

lemma dialStage_address: "dialStage e t n r = (Inr c, r') \<Longrightarrow> snd c = stage_address n"
  by (auto simp: dialStage_def Let_def dialRelayContext_def split: if_splits prod.splits option.splits)

lemma dialStageCandidate_Inr:
  "dialStageCandidate e t f from next i net r = (Inr (c, stat), r') \<Longrightarrow>
     0 \<le> next \<and> next < int (length (trt_stages t)) \<and> 0 \<le> i \<and>
     i < int (length (rst_nodes (trt_stages t ! nat next))) \<and>
     (let n = rst_nodes (trt_stages t ! nat next) ! nat i in
        snd c = stage_address n \<and> stat = stageCandidateStatID (trt_id t) next (rn_node_id n) \<and>
        (\<exists>k. env_hello e k (stage_hello t f from next net n)))"
  by (auto simp: dialStageCandidate_def Let_def dest!: dialStage_address
      split: if_splits sum.splits prod.splits)

text \<open>A connection to a node of the stage: the node carries the protocol, the connection goes to its
  address, and it took a hello with its secret.\<close>

definition reached_stage ::
  "env \<Rightarrow> tunnel_runtime \<Rightarrow> forward_runtime \<Rightarrow> int \<Rightarrow> string \<Rightarrow> runtime_node \<Rightarrow> conn \<times> string \<Rightarrow> bool" where
  "reached_stage e t f from net n res \<longleftrightarrow>
     n \<in> set (rst_nodes (trt_stages t ! nat (from + 1))) \<and>
     runtimeNodeSupportsProtocol n (lower_net net) \<and> snd (fst res) = stage_address n \<and>
     snd res = stageCandidateStatID (trt_id t) (from + 1) (rn_node_id n) \<and>
     (\<exists>k. env_hello e k (stage_hello t f from (from + 1) net n))"

lemma reached_stageI:
  assumes "dialStageCandidate e t f from (from + 1) i net r = (Inr res, r')"
    and "runtimeNodeSupportsProtocol (rst_nodes (trt_stages t ! nat (from + 1)) ! nat i) (lower_net net)"
  shows "\<exists>n. reached_stage e t f from net n res"
proof -
  obtain c stat where res: "res = (c, stat)" by (cases res)
  from dialStageCandidate_Inr [OF assms(1) [unfolded res]] assms(2) show ?thesis
    by (intro exI [of _ "rst_nodes (trt_stages t ! nat (from + 1)) ! nat i"])
      (auto simp: reached_stage_def res Let_def)
qed

lemma try_candidates_Inr:
  assumes "try_candidates e t f from (from + 1) stage net skey is lastErr r = (Inr res, r')"
    and "stage = trt_stages t ! nat (from + 1)"
    and "set is \<subseteq> cand_index ` set (stageCandidatesForNetwork stage net)"
  shows "\<exists>n. reached_stage e t f from net n res"
  using assms
proof (induction "is" arbitrary: lastErr r)
  case (Cons i "is")
  have i: "runtimeNodeSupportsProtocol (rst_nodes stage ! i) (lower_net net)"
    using Cons.prems(3) stage_candidate_at [of i stage net] by auto
  obtain d r1 where d: "dialStageCandidate e t f from (from + 1) (int i) net r = (d, r1)" by force
  show ?case
  proof (cases d)
    case (Inl x)
    then show ?thesis using Cons.prems d Cons.IH by (cases x) auto
  next
    case (Inr x)
    then have "res = x" using Cons.prems(1) d by (cases x) auto
    with reached_stageI [OF d [unfolded Inr]] i show ?thesis by (simp add: Cons.prems(2))
  qed
qed simp

lemma dial_session_candidate_Some:
  assumes "dial_session_candidate e t f from (trt_stages t ! nat (from + 1)) key r = (Some res, r')"
  shows "\<exists>n. reached_stage e t f from ''udp'' n res"
proof -
  define got where "got = sessions_get key (now_of e r) (rl_udp r)"
  obtain s :: udp_session and r2 where
      "dialStageCandidate e t f from (from + 1) (us_index s) ''udp'' (tick (r\<lparr> rl_udp := snd got \<rparr>)) = (Inr res, r2)"
      "runtimeNodeSupportsProtocol (rst_nodes (trt_stages t ! nat (from + 1)) ! nat (us_index s)) ProtoUDP"
    using assms unfolding dial_session_candidate_def got_def [symmetric] Let_def split_beta
    by (auto simp: prod_eq_iff split: option.splits if_splits sum.splits)
  from reached_stageI [OF this [folded lower_net_proto(2)]] show ?thesis .
qed

text \<open>a relay that is not the last stage of its tunnel only ever connects to a node of the next
  stage that carries the protocol, at that node's address, and sends it a hello that names the two
  stages and carries that node's secret.\<close>

theorem dial_next_sound:
  assumes "dialForwardNext e t f from net sid r = (Inr res, r')" and "trt_type t \<noteq> TunnelDirect"
    and "from + 1 < int (length (trt_stages t))"
  shows "\<exists>n. reached_stage e t f from net n res"
proof -
  let ?stage = "trt_stages t ! nat (from + 1)"
  note sub = candidate_order_indices
  show ?thesis
  proof (cases "net = ''udp'' \<and> sid \<noteq> ''''")
    case False
    then show ?thesis
      using assms try_candidates_Inr [OF _ refl sub]
      by (auto simp: dialForwardNext_def Let_def split_beta split: if_splits)
  next
    case True
    then have d: "dialForwardNextUDP e t f from ?stage sid r = (Inr res, r')"
      using assms by (auto simp: dialForwardNext_def Let_def split: if_splits)
    let ?key = "udpSessionKey (trt_id t) (frt_id f) from (from + 1) sid"
    obtain hit r2 where h: "dial_session_candidate e t f from ?stage ?key r = (hit, r2)" by force
    show ?thesis
    proof (cases hit)
      case (Some c)
      then have "res = c" using d by (simp add: dialForwardNextUDP_def Let_def h)
      with dial_session_candidate_Some [OF h [unfolded Some]] True show ?thesis by simp
    next
      case None
      let ?o = "candidate_order (now_of e r2) (trt_id t) ?stage ''udp'' (rl_selector r2)"
      have "try_candidates e t f from (from + 1) ?stage ''udp'' ?key (fst ?o) None
          (tick (r2\<lparr> rl_selector := snd ?o \<rparr>)) = (Inr res, r')"
        using d None by (auto simp: dialForwardNextUDP_def Let_def h split_beta split: if_splits)
      from try_candidates_Inr [OF this refl sub] True show ?thesis by simp
    qed
  qed
qed

definition ex_node :: "string \<Rightarrow> string \<Rightarrow> runtime_node" where
  "ex_node i addr = \<lparr> rn_node_id = i, rn_protocols = [], rn_listen = '':7000'', rn_public = addr,
     rn_connect = '''', rn_weight = 1, rn_settings = Some [(''secret'', ''x'' @ i)] \<rparr>"

definition ex_tunnel :: tunnel_runtime where
  "ex_tunnel = \<lparr> trt_id = ''t'', trt_name = ''t'', trt_type = TunnelChain, trt_transport = TransportDirect,
     trt_stages =
       [\<lparr> rst_index = 0, rst_role = StageEntry, rst_strategy = '''', rst_tcp_strategy = '''',
          rst_udp_strategy = '''', rst_nodes = [ex_node ''n0'' ''1.1.1.1:7000''] \<rparr>,
        \<lparr> rst_index = 1, rst_role = StageExit, rst_strategy = ''failover'', rst_tcp_strategy = '''',
          rst_udp_strategy = '''', rst_nodes = [ex_node ''n1'' ''10.0.0.1:80'', ex_node ''n2'' ''2.2.2.2:7000''] \<rparr>],
     trt_settings = None \<rparr>"

theorem dial_next_sound_witness:
  "\<exists>n. reached_stage ex_env ex_tunnel ex_forward 0 ''tcp'' n
     ((103, ''2.2.2.2:7000''), ''tunnel:t:stage:1:candidate:n2'')"
proof -
  let ?d = "dialForwardNext ex_env ex_tunnel ex_forward 0 ''tcp'' '''' ex_relay"
  have "fst ?d = Inr ((103, ''2.2.2.2:7000''), ''tunnel:t:stage:1:candidate:n2'')" by code_simp
  then have "?d = (Inr ((103, ''2.2.2.2:7000''), ''tunnel:t:stage:1:candidate:n2''), snd ?d)"
    by (metis prod.collapse)
  from dial_next_sound [OF this] show ?thesis by (simp add: ex_tunnel_def enum_defs)
qed

end
