(* ===== verification/Guard.thy ===== *)
theory Guard
  imports Http Release Limiter Validate Dial
begin

text \<open>
  What stands between a request and its handler in internal/controller/server.go: the client address behind a
  trusted proxy, the keys of the rate limiters, the check of the origin, the sessions of the
  administration (withAuth) and the credentials of the nodes (withNode).

  The state is the database and one limiter; a middleware answers either a refusal or what it found out
  about the caller, and the state it leaves.  Address arithmetic and SHA-256 are arguments.
\<close>

record web_config =
  wc_public_url :: string
  wc_trust_proxy :: bool
  wc_proxies :: string

text \<open>\<open>gd_in_cidr raw ip\<close>: whether net.ParseCIDR accepts \<open>raw\<close> and the network contains the address.\<close>

record guard_env =
  gd_net :: net_env
  gd_in_cidr :: "string \<Rightarrow> string \<Rightarrow> bool"
  gd_sha256 :: "string \<Rightarrow> string"
  gd_vault :: vault
  gd_now :: time

definition maxProxyHeaderBytes :: nat where "maxProxyHeaderBytes = 256"
definition maxNodeCredentialBytes :: nat where "maxNodeCredentialBytes = 256"
definition sessionCookieName :: string where "sessionCookieName = ''nyarelay_session''"
definition controllerPublicURLSetting :: string where "controllerPublicURLSetting = ''controller_public_url''"

section \<open>Addresses\<close>

definition remoteAddrHost :: "string \<Rightarrow> string" where
  "remoteAddrHost value =
    (case split_host_port (trim_space value) of
       Some (host, port) \<Rightarrow> trimEnclosingBrackets host
     | None \<Rightarrow> trimEnclosingBrackets (trim_space value))"

definition normalizedIP :: "net_env \<Rightarrow> string \<Rightarrow> string" where
  "normalizedIP nt raw =
    (let value = trim_space raw in
     if value = [] \<or> length value > maxProxyHeaderBytes then []
     else case nt_parse_ip nt (trimEnclosingBrackets value) of None \<Rightarrow> [] | Some ip \<Rightarrow> ip)"

definition forwardedHeaderValue :: "string \<Rightarrow> string" where
  "forwardedHeaderValue value =
    (if value = [] \<or> length value > maxProxyHeaderBytes then []
     else case List.find (\<lambda>c. c \<noteq> [] \<and> length c \<le> maxProxyHeaderBytes) (map trim_space (split_on (CHR '','') value)) of
       None \<Rightarrow> [] | Some c \<Rightarrow> c)"

definition requestClientIP :: "net_env \<Rightarrow> http_request \<Rightarrow> string" where
  "requestClientIP nt r = normalizedIP nt (remoteAddrHost (rq_remote r))"

definition requestClientIPForProxy :: "net_env \<Rightarrow> http_request \<Rightarrow> bool \<Rightarrow> string" where
  "requestClientIPForProxy nt r trust =
    (let peer = requestClientIP nt r in
     if \<not> trust then peer
     else let forwarded = trim_space (header r ''X-Forwarded-For'') in
       if forwarded \<noteq> [] then
         (let c = normalizedIP nt (forwardedHeaderValue forwarded) in if c \<noteq> [] then c else peer)
       else let real = trim_space (header r ''X-Real-IP'') in
         if real \<noteq> [] then (let c = normalizedIP nt real in if c \<noteq> [] then c else peer) else peer)"

text \<open>One entry of the list of trusted proxies.\<close>

definition proxy_entry :: "guard_env \<Rightarrow> string \<Rightarrow> string \<Rightarrow> bool" where
  "proxy_entry ge peer raw =
    (raw \<noteq> [] \<and> (case nt_parse_ip (gd_net ge) raw of Some ip \<Rightarrow> peer = ip | None \<Rightarrow> gd_in_cidr ge raw peer))"

definition proxyHeadersTrusted :: "guard_env \<Rightarrow> web_config \<Rightarrow> http_request \<Rightarrow> bool" where
  "proxyHeadersTrusted ge wc r =
    (if \<not> wc_trust_proxy wc then False
     else case nt_parse_ip (gd_net ge) (requestClientIP (gd_net ge) r) of
       None \<Rightarrow> False
     | Some peer \<Rightarrow> list_ex (\<lambda>raw. proxy_entry ge peer (trim_space raw)) (split_on (CHR '','') (wc_proxies wc)))"

definition requestIsSecureForProxy :: "http_request \<Rightarrow> bool \<Rightarrow> bool" where
  "requestIsSecureForProxy r trust \<longleftrightarrow>
     rq_tls r \<or> trust \<and> equal_fold (trim_space (forwardedHeaderValue (header r ''X-Forwarded-Proto''))) ''https''"

definition loginIPLimitKey :: "guard_env \<Rightarrow> web_config \<Rightarrow> http_request \<Rightarrow> string" where
  "loginIPLimitKey ge wc r = requestClientIPForProxy (gd_net ge) r (proxyHeadersTrusted ge wc r)"

definition loginUserIPLimitKey :: "(string \<Rightarrow> string) \<Rightarrow> string \<Rightarrow> string \<Rightarrow> string" where
  "loginUserIPLimitKey sha ip name = ''login:user-ip:'' @ hex_encode (sha (name @ [CHR 0x00] @ ip))"

definition loginLimitKeys :: "guard_env \<Rightarrow> web_config \<Rightarrow> http_request \<Rightarrow> string \<Rightarrow> string list" where
  "loginLimitKeys ge wc r name =
    (let ip = loginIPLimitKey ge wc r in [''login:ip:'' @ ip, loginUserIPLimitKey (gd_sha256 ge) ip name])"

definition nodeAuthLimitKeys :: "guard_env \<Rightarrow> web_config \<Rightarrow> http_request \<Rightarrow> string \<Rightarrow> string list" where
  "nodeAuthLimitKeys ge wc r i =
    (let ip = loginIPLimitKey ge wc r
     in [''node-auth:ip:'' @ ip, ''node-auth:node-ip:'' @ hex_encode (gd_sha256 ge (i @ [CHR 0x00] @ ip))])"

text \<open>The first key that is blocked ends the loop.\<close>

fun allowLimiterKeys :: "time \<Rightarrow> string list \<Rightarrow> limiter \<Rightarrow> bool \<times> limiter" where
  "allowLimiterKeys now [] l = (True, l)"
| "allowLimiterKeys now (k # ks) l =
    (case Allow now k l of (ok, l') \<Rightarrow> if \<not> ok then (False, l') else allowLimiterKeys now ks l')"

definition failLimiterKeys :: "time \<Rightarrow> string list \<Rightarrow> limiter \<Rightarrow> limiter" where
  "failLimiterKeys now ks l = fold (Fail now) ks l"

definition successLimiterKeys :: "string list \<Rightarrow> limiter \<Rightarrow> limiter" where
  "successLimiterKeys ks l = fold Success ks l"

section \<open>The controller's own address\<close>

definition trim_right_slash :: "string \<Rightarrow> string" where
  "trim_right_slash s = List.rev (dropWhile (\<lambda>c. c = CHR ''/'') (List.rev s))"

definition isLoopbackURLHost :: "net_env \<Rightarrow> string \<Rightarrow> bool" where
  "isLoopbackURLHost nt host \<longleftrightarrow>
     equal_fold (if suffix ''.'' host then butlast host else host) ''localhost'' \<or> nt_loopback nt host"

definition normalizeControllerURL :: "net_env \<Rightarrow> string \<Rightarrow> string + string" where
  "normalizeControllerURL nt raw =
    (let value = trim_space raw in
     if value = [] then Inr []
     else case nt_parse_url nt value of
       None \<Rightarrow> Inl ''invalid controller URL''
     | Some u \<Rightarrow>
         if url_scheme u \<noteq> ''http'' \<and> url_scheme u \<noteq> ''https'' then Inl ''controller URL must use http or https''
         else if url_host u = [] \<or> url_hostname u = [] then Inl ''controller URL must include a host''
         else if url_scheme u = ''http'' \<and> \<not> isLoopbackURLHost nt (url_hostname u) then
           Inl ''remote controller URL must use https''
         else if url_user u \<or> url_query u \<noteq> [] \<or> url_fragment u \<noteq> [] \<or> url_opaque u \<noteq> [] then
           Inl ''controller URL must not include credentials, query, or fragment''
         else if url_path u \<noteq> [] \<and> url_path u \<noteq> ''/'' then Inl ''controller URL must not include a path''
         else Inr (trim_right_slash (nt_url_string nt (u\<lparr> url_path := [], url_raw_path := [] \<rparr>))))"

definition controllerBaseURL :: "net_env \<Rightarrow> string \<Rightarrow> string" where
  "controllerBaseURL nt configured = (case normalizeControllerURL nt configured of Inl _ \<Rightarrow> [] | Inr u \<Rightarrow> u)"

definition controllerPublicURL :: "guard_env \<Rightarrow> web_config \<Rightarrow> db \<Rightarrow> string" where
  "controllerPublicURL ge wc d =
    (let fallback = controllerBaseURL (gd_net ge) (wc_public_url wc) in
     case GetSetting (gd_vault ge) controllerPublicURLSetting d of
       Inr (value, True) \<Rightarrow>
         (case normalizeControllerURL (gd_net ge) value of
            Inl _ \<Rightarrow> fallback | Inr u \<Rightarrow> if u \<noteq> [] then u else fallback)
     | _ \<Rightarrow> fallback)"

definition originFromURL :: "net_env \<Rightarrow> string \<Rightarrow> string option" where
  "originFromURL nt value =
    (case nt_parse_url nt (trim_space value) of
       None \<Rightarrow> None
     | Some u \<Rightarrow>
         if url_scheme u = [] \<or> url_host u = [] \<or> url_user u \<or> url_opaque u \<noteq> [] then None
         else if url_scheme u \<noteq> ''http'' \<and> url_scheme u \<noteq> ''https'' then None
         else if url_hostname u = [] then None
         else Some (trim_right_slash (url_scheme u @ ''://'' @ url_host u)))"

section \<open>Same origin\<close>

text \<open>The last call ignores its error: the origin is then empty.\<close>

definition expectedOrigin :: "guard_env \<Rightarrow> web_config \<Rightarrow> http_request \<Rightarrow> db \<Rightarrow> string" where
  "expectedOrigin ge wc r d =
    (let configured = controllerPublicURL ge wc d;
         scheme = (if requestIsSecureForProxy r (proxyHeadersTrusted ge wc r) then ''https'' else ''http'');
         own = (case originFromURL (gd_net ge) (scheme @ ''://'' @ trim_space (rq_host r)) of None \<Rightarrow> [] | Some x \<Rightarrow> x)
     in if configured \<noteq> [] then (case originFromURL (gd_net ge) configured of Some x \<Rightarrow> x | None \<Rightarrow> own) else own)"

definition request_origin :: "http_request \<Rightarrow> string" where
  "request_origin r =
    (let x = trim_space (header r ''Origin'') in if x = [] then trim_space (header r ''Referer'') else x)"

definition requireSameOrigin :: "guard_env \<Rightarrow> web_config \<Rightarrow> http_request \<Rightarrow> db \<Rightarrow> bool" where
  "requireSameOrigin ge wc r d =
    (if equal_fold (trim_space (header r ''Sec-Fetch-Site'')) ''cross-site'' then False
     else if request_origin r = [] then True
     else case originFromURL (gd_net ge) (request_origin r) of
       None \<Rightarrow> False | Some x \<Rightarrow> equal_fold x (expectedOrigin ge wc r d))"

definition stateChangingMethod :: "string \<Rightarrow> bool" where
  "stateChangingMethod m \<longleftrightarrow> m \<in> set [''POST'', ''PUT'', ''PATCH'', ''DELETE'']"

definition sessionCookieSecure :: "guard_env \<Rightarrow> web_config \<Rightarrow> http_request \<Rightarrow> db \<Rightarrow> bool" where
  "sessionCookieSecure ge wc r d =
    (if requestIsSecureForProxy r (proxyHeadersTrusted ge wc r) then True
     else case nt_parse_url (gd_net ge) (controllerPublicURL ge wc d) of
       None \<Rightarrow> False | Some u \<Rightarrow> equal_fold (url_scheme u) ''https'')"

record cookie =
  ck_name :: string
  ck_value :: string
  ck_secure :: bool
  ck_expires :: time

definition setSessionCookie :: "guard_env \<Rightarrow> web_config \<Rightarrow> http_request \<Rightarrow> db \<Rightarrow> session \<Rightarrow> cookie" where
  "setSessionCookie ge wc r d s =
     \<lparr> ck_name = sessionCookieName, ck_value = ses_id s,
       ck_secure = (sessionCookieSecure ge wc r d \<or> requestIsSecureForProxy r False), ck_expires = ses_expires s \<rparr>"

section \<open>The administration's requests\<close>

definition cross_origin :: "'a reply" where
  "cross_origin = Refused StatusForbidden ''cross-origin request rejected''"

definition unauthenticated :: "'a reply" where
  "unauthenticated = Refused StatusUnauthorized ''authentication required''"

text \<open>\<open>Answer s\<close>: the handler runs for the session s.\<close>

definition withAuth :: "guard_env \<Rightarrow> web_config \<Rightarrow> http_request \<Rightarrow> db \<Rightarrow> session reply \<times> db" where
  "withAuth ge wc r d =
    (if stateChangingMethod (rq_method r) \<and> \<not> requireSameOrigin ge wc r d then (cross_origin, d)
     else case map_of (rq_cookies r) sessionCookieName of
       None \<Rightarrow> (unauthenticated, d)
     | Some token \<Rightarrow>
         (case Session (gd_sha256 ge) (gd_now ge) token d of
            (None, d') \<Rightarrow> (unauthenticated, d')
          | (Some s, d') \<Rightarrow> (Answer s, d')))"

section \<open>The nodes' requests\<close>

definition bad_node :: "'a reply" where
  "bad_node = Refused StatusUnauthorized ''node credentials are invalid''"

definition withNode :: "guard_env \<Rightarrow> web_config \<Rightarrow> http_request \<Rightarrow> db \<Rightarrow> limiter \<Rightarrow> node reply \<times> limiter" where
  "withNode ge wc r d l =
    (let i = header r ''X-NyaRelay-Node-ID''; token = header r ''X-NyaRelay-Node-Token'';
         keys = nodeAuthLimitKeys ge wc r i
     in case allowLimiterKeys (gd_now ge) keys l of
       (False, l') \<Rightarrow> (Refused StatusTooManyRequests ''too many node authentication attempts'', l')
     | (True, l') \<Rightarrow>
         if i = [] \<or> token = [] then
           (Refused StatusUnauthorized ''node credentials are required'', failLimiterKeys (gd_now ge) keys l')
         else if length i > MaxIDBytes \<or> length token > maxNodeCredentialBytes then
           (bad_node, failLimiterKeys (gd_now ge) keys l')
         else if validateText ''node id'' i MaxIDBytes False \<noteq> None then (bad_node, failLimiterKeys (gd_now ge) keys l')
         else (case AuthenticateNode (gd_vault ge) (gd_sha256 ge) i token d of
             Inl _ \<Rightarrow> (bad_node, failLimiterKeys (gd_now ge) keys l')
           | Inr n \<Rightarrow> (Answer n, successLimiterKeys keys l')))"

section \<open>Who gets through\<close>

lemma Session_Some:
  "Session sha now token d = (Some s, d') \<Longrightarrow> d' = d \<and>
     (\<exists>row u. row_with ssr_hash (sessionTokenHash sha token) (db_sessions d) = Some row \<and>
        row_with ur_id (ssr_user row) (db_users d) = Some u \<and> now < unix_time (ssr_expires row) \<and>
        s = \<lparr> ses_id = token, ses_user = ssr_user row, ses_username = ur_username u, ses_expires = unix_time (ssr_expires row) \<rparr>)"
  by (auto simp: Session_def split: option.splits if_splits)

lemma withAuth_Answer:
  "withAuth ge wc r d = (Answer s, d') \<longleftrightarrow>
     (stateChangingMethod (rq_method r) \<longrightarrow> requireSameOrigin ge wc r d) \<and>
     (\<exists>token. map_of (rq_cookies r) sessionCookieName = Some token \<and>
        Session (gd_sha256 ge) (gd_now ge) token d = (Some s, d'))"
  by (auto simp: withAuth_def cross_origin_def unauthenticated_def split: option.splits prod.splits)

text \<open>C21: a handler of the administration runs only for a live session of an existing user, found by the hash of the
  cookie's token, and, if the method changes state, only for a request that the browser did not mark
  as coming from another site and whose Origin or Referer, if it has one, is the controller's own; the
  check itself changes nothing then.\<close>

theorem admin_guarded:
  assumes "withAuth ge wc r d = (Answer s, d')"
  shows "d' = d \<and>
    (\<exists>token row u. map_of (rq_cookies r) sessionCookieName = Some token \<and> row \<in> set (db_sessions d) \<and>
       ssr_hash row = sessionTokenHash (gd_sha256 ge) token \<and> gd_now ge < unix_time (ssr_expires row) \<and>
       u \<in> set (db_users d) \<and> ur_id u = ssr_user row \<and> ses_user s = ur_id u \<and> ses_username s = ur_username u) \<and>
    (rq_method r \<in> {''POST'', ''PUT'', ''PATCH'', ''DELETE''} \<longrightarrow>
       \<not> equal_fold (trim_space (header r ''Sec-Fetch-Site'')) ''cross-site'' \<and>
       (request_origin r \<noteq> [] \<longrightarrow> (\<exists>x. originFromURL (gd_net ge) (request_origin r) = Some x \<and>
          equal_fold x (expectedOrigin ge wc r d))))"
proof -
  obtain token where t: "map_of (rq_cookies r) sessionCookieName = Some token"
    "Session (gd_sha256 ge) (gd_now ge) token d = (Some s, d')"
    "stateChangingMethod (rq_method r) \<longrightarrow> requireSameOrigin ge wc r d"
    using assms by (auto simp: withAuth_Answer)
  have "\<exists>token row u. map_of (rq_cookies r) sessionCookieName = Some token \<and> row \<in> set (db_sessions d) \<and>
       ssr_hash row = sessionTokenHash (gd_sha256 ge) token \<and> gd_now ge < unix_time (ssr_expires row) \<and>
       u \<in> set (db_users d) \<and> ur_id u = ssr_user row \<and> ses_user s = ur_id u \<and> ses_username s = ur_username u"
    using Session_Some [OF t(2)] t(1) by (force dest: row_with_Some)
  moreover have "d' = d" using Session_Some [OF t(2)] by simp
  moreover have "\<not> equal_fold (trim_space (header r ''Sec-Fetch-Site'')) ''cross-site'' \<and>
      (request_origin r \<noteq> [] \<longrightarrow> (\<exists>x. originFromURL (gd_net ge) (request_origin r) = Some x \<and>
          equal_fold x (expectedOrigin ge wc r d)))"
    if "rq_method r \<in> {''POST'', ''PUT'', ''PATCH'', ''DELETE''}"
    using t(3) that by (auto simp: stateChangingMethod_def requireSameOrigin_def split: if_splits option.splits)
  ultimately show ?thesis by blast
qed

text \<open>C23: a client cannot choose the address it is limited by: unless the peer of the connection is one of the configured
  proxies, the keys of the limiters are the same whatever headers it sends.\<close>

theorem limit_keys_unforgeable:
  assumes "\<And>peer raw. nt_parse_ip (gd_net ge) (requestClientIP (gd_net ge) r) = Some peer \<Longrightarrow>
      raw \<in> set (split_on (CHR '','') (wc_proxies wc)) \<Longrightarrow> \<not> proxy_entry ge peer (trim_space raw)"
  shows "loginLimitKeys ge wc (r\<lparr> rq_headers := headers \<rparr>) name = loginLimitKeys ge wc r name \<and>
    nodeAuthLimitKeys ge wc (r\<lparr> rq_headers := headers \<rparr>) i = nodeAuthLimitKeys ge wc r i \<and>
    loginIPLimitKey ge wc r = requestClientIP (gd_net ge) r"
proof -
  have "requestClientIP (gd_net ge) (r\<lparr> rq_headers := headers \<rparr>) = requestClientIP (gd_net ge) r"
    by (simp add: requestClientIP_def)
  moreover from this have "\<not> proxyHeadersTrusted ge wc (r\<lparr> rq_headers := headers \<rparr>)" "\<not> proxyHeadersTrusted ge wc r"
    using assms by (auto simp: proxyHeadersTrusted_def list_ex_iff split: option.splits)
  ultimately show ?thesis
    by (simp add: loginLimitKeys_def nodeAuthLimitKeys_def loginIPLimitKey_def requestClientIPForProxy_def Let_def)
qed

lemma AuthenticateNode_Inr:
  "AuthenticateNode va sha i token d = Inr n \<Longrightarrow> nd_approved n \<and> \<not> nd_revoked n \<and>
     (\<exists>stored. GetNodeWithToken va i d = Inr (n, stored) \<and> sha stored = sha token)"
  by (auto simp: AuthenticateNode_def err_simps split: if_splits)

lemma map_of_Success: "k \<in> set ks \<or> map_of l k = None \<Longrightarrow> map_of (successLimiterKeys ks l) k = None"
  by (induction ks arbitrary: l) (auto simp: successLimiterKeys_def Success_def map_simps)

text \<open>C22: a request acts for a node only with that node's token, while the node is approved and not revoked, and
  clears the failures of its address; every other request is refused, one with wrong credentials
  counting as a failure for its address and for the pair of node and address.\<close>

theorem node_admitted:
  assumes "withNode ge wc r d l = (reply, l')"
  shows "(\<forall>n. reply = Answer n \<longrightarrow> nd_approved n \<and> \<not> nd_revoked n \<and>
      (\<exists>stored. GetNodeWithToken (gd_vault ge) (header r ''X-NyaRelay-Node-ID'') d = Inr (n, stored) \<and>
         gd_sha256 ge stored = gd_sha256 ge (header r ''X-NyaRelay-Node-Token'')) \<and>
      (\<forall>k\<in>set (nodeAuthLimitKeys ge wc r (header r ''X-NyaRelay-Node-ID'')). map_of l' k = None)) \<and>
    (\<forall>e. reply = Refused StatusUnauthorized e \<longrightarrow>
      l' = failLimiterKeys (gd_now ge) (nodeAuthLimitKeys ge wc r (header r ''X-NyaRelay-Node-ID''))
        (snd (allowLimiterKeys (gd_now ge) (nodeAuthLimitKeys ge wc r (header r ''X-NyaRelay-Node-ID'')) l))) \<and>
    (\<forall>c e. reply = Refused c e \<longrightarrow> c = StatusUnauthorized \<or> c = StatusTooManyRequests \<and>
      \<not> fst (allowLimiterKeys (gd_now ge) (nodeAuthLimitKeys ge wc r (header r ''X-NyaRelay-Node-ID'')) l))"
proof -
  let ?i = "header r ''X-NyaRelay-Node-ID''"
  let ?keys = "nodeAuthLimitKeys ge wc r ?i"
  obtain ok l1 where a: "allowLimiterKeys (gd_now ge) ?keys l = (ok, l1)" by fastforce
  show ?thesis
  proof (cases reply)
    case (Answer n)
    then have "ok" "AuthenticateNode (gd_vault ge) (gd_sha256 ge) ?i (header r ''X-NyaRelay-Node-Token'') d = Inr n"
      "l' = successLimiterKeys ?keys l1"
      using assms a by (auto simp: withNode_def bad_node_def Let_def split: bool.splits if_splits sum.splits)
    then show ?thesis using Answer AuthenticateNode_Inr map_of_Success by auto
  next
    case (Refused c e)
    then show ?thesis
      using assms a
      by (auto simp: withNode_def bad_node_def Let_def status_defs split: bool.splits if_splits sum.splits)
  qed
qed

section \<open>Examples\<close>

definition ex_guard :: guard_env where
  "ex_guard = \<lparr> gd_net = \<lparr> nt_parse_url = (\<lambda>s. Some \<lparr> url_scheme = take 5 s, url_opaque = [], url_user = False, url_host = drop 8 s,
       url_hostname = drop 8 s, url_path = [], url_raw_path = [], url_query = [], url_fragment = [] \<rparr>),
       nt_url_string = (\<lambda>u. url_scheme u @ ''://'' @ url_host u), nt_parse_ip = (\<lambda>s. if s = [] then None else Some s),
       nt_loopback = (\<lambda>s. False) \<rparr>,
     gd_in_cidr = (\<lambda>raw ip. False), gd_sha256 = (\<lambda>s. s), gd_vault = ex_vault, gd_now = unix_time 900 \<rparr>"

definition ex_web :: web_config where
  "ex_web = \<lparr> wc_public_url = ''https://relay'', wc_trust_proxy = True, wc_proxies = ''10.0.0.1,10.0.0.2'' \<rparr>"

definition ex_request :: http_request where
  "ex_request = \<lparr> rq_method = ''POST'', rq_remote = ''9.9.9.9:1234'', rq_host = ''relay'', rq_tls = True,
     rq_headers = [(''Origin'', ''https://relay''), (''X-NyaRelay-Node-ID'', ''n1''), (''X-NyaRelay-Node-Token'', ''tok'')],
     rq_cookies = [(sessionCookieName, ''cookie'')], rq_query = [] \<rparr>"

definition ex_web_db :: db where
  "ex_web_db = ex_db\<lparr> db_sessions := [\<lparr> ssr_hash = b64_encode ''cookie'', ssr_user = 1, ssr_expires = 1000 \<rparr>],
     db_nodes := [\<lparr> ndr_node = ex_stored_node, ndr_token = ''tok'', ndr_encrypted = [] \<rparr>] \<rparr>"

lemma ex_trims: "trim_space ''https://relay'' = ''https://relay''" "trim_space ''9.9.9.9:1234'' = ''9.9.9.9:1234''"
  "trim_space ''9.9.9.9'' = ''9.9.9.9''" "split_host_port ''9.9.9.9:1234'' = Some (''9.9.9.9'', ''1234'')"
  "trimEnclosingBrackets ''9.9.9.9'' = ''9.9.9.9''" "\<not> equal_fold [] ''cross-site''"
  "split_on (CHR '','') ''10.0.0.1,10.0.0.2'' = [''10.0.0.1'', ''10.0.0.2'']" "trim_space ''10.0.0.1'' = ''10.0.0.1''"
  "trim_space ''10.0.0.2'' = ''10.0.0.2''"
  "trim_right_slash ''https://relay'' = ''https://relay''"
  by code_simp+

lemma ex_client: "requestClientIP (gd_net ex_guard) ex_request = ''9.9.9.9''"
  by (simp add: requestClientIP_def remoteAddrHost_def normalizedIP_def ex_request_def ex_guard_def ex_trims maxProxyHeaderBytes_def)

lemma ex_origin: "originFromURL (gd_net ex_guard) ''https://relay'' = Some ''https://relay''"
  by (simp add: originFromURL_def ex_guard_def ex_trims)

lemma ex_public_url: "controllerPublicURL ex_guard ex_web ex_web_db = ''https://relay''"
proof -
  have "GetSetting (gd_vault ex_guard) controllerPublicURLSetting ex_web_db = Inr ([], False)"
    by (simp add: GetSetting_def ex_web_db_def ex_db_def insert_user_def empty_db_def)
  moreover have "normalizeControllerURL (gd_net ex_guard) ''https://relay'' = Inr ''https://relay''"
    by (simp add: normalizeControllerURL_def ex_guard_def ex_trims Let_def)
  ultimately show ?thesis by (simp add: controllerPublicURL_def controllerBaseURL_def ex_web_def)
qed

lemma ex_same_origin: "requireSameOrigin ex_guard ex_web ex_request ex_web_db"
  by (simp add: requireSameOrigin_def expectedOrigin_def ex_public_url ex_origin request_origin_def header_def ex_request_def
      ex_trims equal_fold_def [of "''https://relay''"])

theorem admin_guarded_witness:
  "\<exists>s. withAuth ex_guard ex_web ex_request ex_web_db = (Answer s, ex_web_db) \<and> ses_user s = 1"
proof -
  have "\<exists>s. Session (gd_sha256 ex_guard) (gd_now ex_guard) ''cookie'' ex_web_db = (Some s, ex_web_db) \<and> ses_user s = 1"
    by (simp add: Session_def sessionTokenHash_def ex_guard_def ex_web_db_def ex_db_def insert_user_def empty_db_def unix_time_def)
  then obtain s where s: "withAuth ex_guard ex_web ex_request ex_web_db = (Answer s, ex_web_db)" "ses_user s = 1"
    using ex_same_origin by (auto simp: withAuth_Answer ex_request_def)
  from admin_guarded [OF s(1)] s show ?thesis by blast
qed

theorem limit_keys_unforgeable_witness:
  "loginIPLimitKey ex_guard ex_web ex_request = ''9.9.9.9'' \<and>
   loginLimitKeys ex_guard ex_web (ex_request\<lparr> rq_headers := [(''X-Forwarded-For'', ''1.2.3.4'')] \<rparr>) ''admin'' =
     loginLimitKeys ex_guard ex_web ex_request ''admin''"
proof -
  have out: "\<not> proxy_entry ex_guard ''9.9.9.9'' ''10.0.0.1''" "\<not> proxy_entry ex_guard ''9.9.9.9'' ''10.0.0.2''"
    by (simp_all add: proxy_entry_def ex_guard_def)
  have listed: "trim_space raw \<in> {''10.0.0.1'', ''10.0.0.2''}"
    if "raw \<in> set (split_on (CHR '','') (wc_proxies ex_web))" for raw
    using that by (auto simp only: ex_web_def web_config.simps ex_trims list.set)
  have "\<not> proxy_entry ex_guard peer (trim_space raw)"
    if "nt_parse_ip (gd_net ex_guard) (requestClientIP (gd_net ex_guard) ex_request) = Some peer"
      "raw \<in> set (split_on (CHR '','') (wc_proxies ex_web))" for peer raw
  proof -
    have "peer = ''9.9.9.9''" using that(1) unfolding ex_client by (simp add: ex_guard_def)
    then show ?thesis using listed [OF that(2)] out by (metis insertE singletonD)
  qed
  from limit_keys_unforgeable [of ex_guard ex_request ex_web, OF this] show ?thesis by (simp add: ex_client)
qed

theorem node_admitted_witness:
  "\<exists>n l'. withNode ex_guard ex_web ex_request ex_web_db [] = (Answer n, l') \<and> nd_id n = ''n1'' \<and> nd_approved n"
proof -
  have allow: "allowLimiterKeys now ks [] = (True, [])" for now ks
    by (induction ks) (simp_all add: Allow_def limiter_prune_def open_attempt_def attempt_of_def zero_attempt_def)
  have valid: "validateText ''node id'' ''n1'' MaxIDBytes False = None" by code_simp
  have "AuthenticateNode ex_vault (\<lambda>s. s) ''n1'' ''tok'' ex_web_db = Inr ex_stored_node" by code_simp
  then have "AuthenticateNode (gd_vault ex_guard) (gd_sha256 ex_guard) ''n1'' ''tok'' ex_web_db = Inr ex_stored_node"
    by (simp add: ex_guard_def)
  moreover have "header ex_request ''X-NyaRelay-Node-ID'' = ''n1''" "header ex_request ''X-NyaRelay-Node-Token'' = ''tok''"
    by (simp_all add: header_def ex_request_def)
  ultimately obtain l' where "withNode ex_guard ex_web ex_request ex_web_db [] = (Answer ex_stored_node, l')"
    using valid by (simp add: withNode_def allow maxNodeCredentialBytes_def MaxIDBytes_def Let_def)
  from node_admitted [OF this] this show ?thesis by (auto simp: ex_stored_node_def)
qed

end
