(* ===== verification/Hub.thy ===== *)
theory Hub
  imports Prelude
begin

text \<open>
  internal/controller/nodehub/hub.go: the meeting point of the requests that change the
  configuration and the nodes that wait for a newer one.

  A channel is a number with a buffer of one value and a closed flag; a connection is a number.
  \<open>Wait\<close> blocks, so it is three steps: the check that answers at once or registers a channel,
  the wake-up that receives from it, and the end by timer or context.  Everything else happens under
  the mutex and is one step.  The step relation interleaves any number of waiters with the rest.
\<close>

section \<open>State\<close>

definition maxWatchersPerNode :: nat where "maxWatchersPerNode = 4"

record channel =
  ch_buffer :: "int option"
  ch_closed :: bool

record socket =
  so_conn :: nat
  so_long_lease :: bool

record hub =
  hb_revision :: int
  hb_watchers :: "(string \<times> nat list) list"
  hb_channels :: "(nat \<times> channel) list"
  hb_next :: nat
  hb_sockets :: "(string \<times> socket) list"

definition new_hub :: hub where
  "new_hub = \<lparr> hb_revision = 0, hb_watchers = [], hb_channels = [], hb_next = 0, hb_sockets = [] \<rparr>"

definition watchers_of :: "hub \<Rightarrow> string \<Rightarrow> nat list" where
  "watchers_of h node = (case map_of (hb_watchers h) node of None \<Rightarrow> [] | Some cs \<Rightarrow> cs)"

section \<open>Watching the revision\<close>

text \<open>The \<open>select\<close> with a default case sends if the buffer is free; then the channel is closed.\<close>

definition notify_channel :: "int \<Rightarrow> channel \<Rightarrow> channel" where
  "notify_channel revision c =
     c\<lparr> ch_buffer := (if ch_buffer c = None then Some revision else ch_buffer c), ch_closed := True \<rparr>"

definition notify_channels :: "int \<Rightarrow> nat list \<Rightarrow> (nat \<times> channel) list \<Rightarrow> (nat \<times> channel) list" where
  "notify_channels revision cs chs =
     map (\<lambda>(i, c). (i, if i \<in> set cs then notify_channel revision c else c)) chs"

definition SetRevision :: "int \<Rightarrow> hub \<Rightarrow> hub" where
  "SetRevision revision h =
     h\<lparr> hb_revision := revision,
        hb_channels := notify_channels revision (concat (map snd (hb_watchers h))) (hb_channels h),
        hb_watchers := [] \<rparr>"

datatype wait_begin = AnswerAt int | Waiting nat

definition Wait_begin :: "string \<Rightarrow> int \<Rightarrow> hub \<Rightarrow> wait_begin \<times> hub" where
  "Wait_begin node known h =
    (if hb_revision h > known then (AnswerAt (hb_revision h), h)
     else if length (watchers_of h node) \<ge> maxWatchersPerNode then (AnswerAt (hb_revision h), h)
     else (let c = hb_next h in
       (Waiting c,
        h\<lparr> hb_next := c + 1,
           hb_channels := AList.update c \<lparr> ch_buffer = None, ch_closed = False \<rparr> (hb_channels h),
           hb_watchers := AList.update node (c # watchers_of h node) (hb_watchers h) \<rparr>)))"

definition removeWatcher :: "string \<Rightarrow> nat \<Rightarrow> hub \<Rightarrow> hub" where
  "removeWatcher node c h =
    (case map_of (hb_watchers h) node of
       None \<Rightarrow> h
     | Some cs \<Rightarrow>
         (let cs' = filter (\<lambda>x. x \<noteq> c) cs in
          if cs' = [] then h\<lparr> hb_watchers := AList.delete node (hb_watchers h) \<rparr>
          else h\<lparr> hb_watchers := AList.update node cs' (hb_watchers h) \<rparr>))"

text \<open>The receive: the buffered value, or the zero value of a closed channel; None while it blocks.\<close>

definition receive :: "nat \<Rightarrow> hub \<Rightarrow> int option" where
  "receive c h = (case map_of (hb_channels h) c of None \<Rightarrow> None
     | Some ch \<Rightarrow> (case ch_buffer ch of Some v \<Rightarrow> Some v
         | None \<Rightarrow> if ch_closed ch then Some 0 else None))"

definition Wait_wake :: "string \<Rightarrow> nat \<Rightarrow> hub \<Rightarrow> (int \<times> hub) option" where
  "Wait_wake node c h = (case receive c h of None \<Rightarrow> None | Some v \<Rightarrow> Some (v, removeWatcher node c h))"

definition Wait_timeout :: "string \<Rightarrow> nat \<Rightarrow> hub \<Rightarrow> int \<times> hub" where
  "Wait_timeout node c h = (let h' = removeWatcher node c h in (hb_revision h', h'))"

section \<open>Sockets\<close>

text \<open>Registering gives the connection to close, the one that was replaced.\<close>

definition RegisterSocket :: "string \<Rightarrow> nat \<Rightarrow> bool \<Rightarrow> hub \<Rightarrow> nat option \<times> hub" where
  "RegisterSocket node conn long h =
    (map_option so_conn (map_of (hb_sockets h) node),
     h\<lparr> hb_sockets := AList.update node \<lparr> so_conn = conn, so_long_lease = long \<rparr> (hb_sockets h) \<rparr>)"

definition UnregisterSocket :: "string \<Rightarrow> nat \<Rightarrow> hub \<Rightarrow> bool \<times> hub" where
  "UnregisterSocket node conn h =
    (case map_of (hb_sockets h) node of
       Some so \<Rightarrow> if so_conn so = conn
                  then (True, h\<lparr> hb_sockets := AList.delete node (hb_sockets h) \<rparr>) else (False, h)
     | None \<Rightarrow> (False, h))"

definition hub_Close :: "string \<Rightarrow> hub \<Rightarrow> nat option" where
  "hub_Close node h = map_option so_conn (map_of (hb_sockets h) node)"

definition NodeIDs :: "hub \<Rightarrow> string list" where
  "NodeIDs h = map fst (hb_sockets h)"

definition SupportsLongConfigLease :: "hub \<Rightarrow> string \<Rightarrow> bool" where
  "SupportsLongConfigLease h node =
    (case map_of (hb_sockets h) node of None \<Rightarrow> False | Some so \<Rightarrow> so_long_lease so)"

text \<open>\<open>Send\<close> writes to the socket or says that the node is not connected; \<open>write\<close> is the
  outcome of wsjson.Write on a connection.\<close>

datatype 'e send_error = ErrNotConnected | WriteFailed 'e

definition SendContext :: "(nat \<Rightarrow> 'e option) \<Rightarrow> string \<Rightarrow> hub \<Rightarrow> 'e send_error option" where
  "SendContext write node h =
    (case map_of (hb_sockets h) node of None \<Rightarrow> Some ErrNotConnected
     | Some so \<Rightarrow> map_option WriteFailed (write (so_conn so)))"

section \<open>Waiters\<close>

text \<open>A waiter inside \<open>Wait\<close>: its channel, its node and the revision it came with.\<close>

record waiter =
  wt_chan :: nat
  wt_node :: string
  wt_known :: int

type_synonym hub_state = "hub \<times> waiter list"

inductive hub_step :: "hub_state \<Rightarrow> hub_state \<Rightarrow> bool" where
  set_revision: "hub_step (h, ws) (SetRevision r h, ws)"
| wait_answer: "Wait_begin node known h = (AnswerAt r, h') \<Longrightarrow> hub_step (h, ws) (h', ws)"
| wait_register: "Wait_begin node known h = (Waiting c, h') \<Longrightarrow>
    hub_step (h, ws) (h', \<lparr> wt_chan = c, wt_node = node, wt_known = known \<rparr> # ws)"
| wait_wake: "w \<in> set ws \<Longrightarrow> Wait_wake (wt_node w) (wt_chan w) h = Some (v, h') \<Longrightarrow>
    hub_step (h, ws) (h', remove1 w ws)"
| wait_timeout: "w \<in> set ws \<Longrightarrow> Wait_timeout (wt_node w) (wt_chan w) h = (v, h') \<Longrightarrow>
    hub_step (h, ws) (h', remove1 w ws)"
| register: "RegisterSocket node conn long h = (old, h') \<Longrightarrow> hub_step (h, ws) (h', ws)"
| unregister: "UnregisterSocket node conn h = (b, h') \<Longrightarrow> hub_step (h, ws) (h', ws)"

inductive hub_reach :: "hub_state \<Rightarrow> bool" where
  init: "hub_reach (new_hub, [])"
| step: "hub_reach s \<Longrightarrow> hub_step s s' \<Longrightarrow> hub_reach s'"

inductive_cases hub_stepE: "hub_step (h, ws) s'"

text \<open>The invariant: a registered channel is open and empty and its waiter has nothing new to learn;
  a waiter whose channel is registered no more has a value to receive.\<close>

definition registered :: "hub \<Rightarrow> string \<Rightarrow> nat \<Rightarrow> bool" where
  "registered h node c \<longleftrightarrow> c \<in> set (watchers_of h node)"

definition waiter_ok :: "hub \<Rightarrow> waiter \<Rightarrow> bool" where
  "waiter_ok h w \<longleftrightarrow> wt_chan w < hb_next h \<and>
     (if registered h (wt_node w) (wt_chan w)
      then hb_revision h \<le> wt_known w \<and>
        map_of (hb_channels h) (wt_chan w) = Some \<lparr> ch_buffer = None, ch_closed = False \<rparr>
      else \<exists>ch v. map_of (hb_channels h) (wt_chan w) = Some ch \<and> ch_buffer ch = Some v)"

definition hub_inv :: "hub_state \<Rightarrow> bool" where
  "hub_inv s \<longleftrightarrow> (case s of (h, ws) \<Rightarrow>
     (\<forall>node. length (watchers_of h node) \<le> maxWatchersPerNode) \<and>
     distinct (map wt_chan ws) \<and> (\<forall>w\<in>set ws. waiter_ok h w) \<and>
     (\<forall>node c. registered h node c \<longrightarrow> (\<exists>w\<in>set ws. wt_chan w = c \<and> wt_node w = node)))"

lemma watchers_SetRevision [simp]: "watchers_of (SetRevision r h) node = []"
  by (simp add: watchers_of_def SetRevision_def)

lemma watchers_removeWatcher [simp]:
  "watchers_of (removeWatcher n c h) m =
     (if m = n then filter (\<lambda>x. x \<noteq> c) (watchers_of h n) else watchers_of h m)"
  by (auto simp: watchers_of_def removeWatcher_def Let_def map_simps split: option.splits)

lemma removeWatcher_rest [simp]:
  "hb_channels (removeWatcher n c h) = hb_channels h" "hb_next (removeWatcher n c h) = hb_next h"
  "hb_revision (removeWatcher n c h) = hb_revision h"
  by (auto simp: removeWatcher_def Let_def split: option.splits)

lemma registered_removeWatcher [simp]:
  "registered (removeWatcher n c h) m d \<longleftrightarrow> registered h m d \<and> \<not> (m = n \<and> d = c)"
  by (auto simp: registered_def)

lemma map_of_notify:
  "map_of (notify_channels r cs chs) i =
     map_option (\<lambda>c. if i \<in> set cs then notify_channel r c else c) (map_of chs i)"
  by (induction chs) (auto simp: notify_channels_def)

lemma registered_all: "registered h n c \<Longrightarrow> c \<in> set (concat (map snd (hb_watchers h)))"
  by (cases "map_of (hb_watchers h) n")
    (auto simp: registered_def watchers_of_def dest!: map_of_SomeD intro: rev_bexI)

lemma waiter_ok_SetRevision: "waiter_ok h w \<Longrightarrow> waiter_ok (SetRevision r h) w"
proof -
  have n: "\<not> registered (SetRevision r h) n c" for n c by (simp add: registered_def)
  have ch: "map_of (hb_channels (SetRevision r h)) i = map_option
      (\<lambda>c. if i \<in> set (concat (map snd (hb_watchers h))) then notify_channel r c else c)
      (map_of (hb_channels h) i)" for i
    by (simp add: SetRevision_def map_of_notify del: set_concat)
  have nx: "hb_next (SetRevision r h) = hb_next h" by (simp add: SetRevision_def)
  assume ok: "waiter_ok h w"
  show ?thesis
  proof (cases "registered h (wt_node w) (wt_chan w)")
    case True
    then have "map_of (hb_channels h) (wt_chan w) = Some \<lparr> ch_buffer = None, ch_closed = False \<rparr>"
      using ok by (simp add: waiter_ok_def)
    then have "map_of (hb_channels (SetRevision r h)) (wt_chan w) =
        Some \<lparr> ch_buffer = Some r, ch_closed = True \<rparr>"
      using registered_all [OF True] unfolding ch by (simp add: notify_channel_def del: set_concat)
    then show ?thesis using ok by (simp add: waiter_ok_def n nx)
  next
    case False
    then obtain x v where "map_of (hb_channels h) (wt_chan w) = Some x" "ch_buffer x = Some v"
      using ok by (auto simp: waiter_ok_def)
    then have "\<exists>x' v. map_of (hb_channels (SetRevision r h)) (wt_chan w) = Some x' \<and> ch_buffer x' = Some v"
      unfolding ch by (simp add: notify_channel_def del: set_concat)
    then show ?thesis using ok by (simp add: waiter_ok_def n nx)
  qed
qed

lemma Wait_begin_Waiting:
  assumes "Wait_begin node known h = (Waiting c, h')"
  shows "c = hb_next h" and "hb_revision h \<le> known" and "hb_next h' = c + 1" and "hb_revision h' = hb_revision h"
    and "\<And>n. watchers_of h' n = (if n = node then c # watchers_of h node else watchers_of h n)"
    and "length (watchers_of h node) < maxWatchersPerNode"
    and "\<And>i. map_of (hb_channels h') i =
      (if i = c then Some \<lparr> ch_buffer = None, ch_closed = False \<rparr> else map_of (hb_channels h) i)"
  using assms
  by (auto simp: Wait_begin_def Let_def watchers_of_def map_simps split: if_splits option.splits)

lemma Wait_begin_AnswerAt: "Wait_begin node known h = (AnswerAt r, h') \<Longrightarrow> h' = h \<and> r = hb_revision h"
  by (auto simp: Wait_begin_def Let_def split: if_splits)

lemma set_remove1_waiter:
  "distinct (map wt_chan ws) \<Longrightarrow> w \<in> set ws \<Longrightarrow> x \<in> set (remove1 w ws) \<longleftrightarrow> x \<in> set ws \<and> x \<noteq> w"
  by (auto simp: distinct_map)

lemma distinct_remove1_waiter: "distinct (map wt_chan ws) \<Longrightarrow> distinct (map wt_chan (remove1 w ws))"
  by (simp add: distinct_map inj_on_diff)

lemma hub_inv_leave:
  assumes inv: "hub_inv (h, ws)" and w: "w \<in> set ws"
  shows "hub_inv (removeWatcher (wt_node w) (wt_chan w) h, remove1 w ws)"
proof -
  let ?h = "removeWatcher (wt_node w) (wt_chan w) h"
  have d: "distinct (map wt_chan ws)" using inv by (simp add: hub_inv_def)
  have ne: "wt_chan x \<noteq> wt_chan w" if "x \<in> set ws" "x \<noteq> w" for x
    using d w that by (auto simp: distinct_map dest: inj_onD)
  have "waiter_ok ?h x" if "x \<in> set (remove1 w ws)" for x
  proof -
    have "waiter_ok h x" "wt_chan x \<noteq> wt_chan w"
      using that inv ne set_remove1_waiter [OF d w] by (auto simp: hub_inv_def)
    then show ?thesis by (auto simp: waiter_ok_def split: if_splits)
  qed
  moreover have "\<exists>x\<in>set (remove1 w ws). wt_chan x = c \<and> wt_node x = n"
    if reg: "registered ?h n c" for n c
  proof -
    obtain x where "x \<in> set ws" "wt_chan x = c" "wt_node x = n"
      using inv reg unfolding hub_inv_def registered_removeWatcher prod.case by blast
    moreover from this reg have "x \<noteq> w" by auto
    ultimately show ?thesis using set_remove1_waiter [OF d w] by blast
  qed
  moreover have "length (watchers_of ?h n) \<le> maxWatchersPerNode" for n
  proof -
    have "length (watchers_of h n) \<le> maxWatchersPerNode" using inv by (simp add: hub_inv_def)
    then show ?thesis by (auto intro: order_trans [OF length_filter_le])
  qed
  ultimately show ?thesis using d by (simp add: hub_inv_def distinct_remove1_waiter)
qed

lemma hub_inv_begin:
  assumes inv: "hub_inv (h, ws)" and b: "Wait_begin node known h = (Waiting c, h')"
  shows "hub_inv (h', \<lparr> wt_chan = c, wt_node = node, wt_known = known \<rparr> # ws)"
proof -
  note facts = Wait_begin_Waiting [OF b]
  have old: "wt_chan w < c" "waiter_ok h w" if "w \<in> set ws" for w
    using inv that facts(1) by (auto simp: hub_inv_def waiter_ok_def)
  have "waiter_ok h' w" if "w \<in> set ws" for w
    using old [OF that] facts by (auto simp: waiter_ok_def registered_def)
  moreover have "waiter_ok h' \<lparr> wt_chan = c, wt_node = node, wt_known = known \<rparr>"
    using facts by (simp add: waiter_ok_def registered_def)
  moreover have "c \<notin> wt_chan ` set ws" using old(1) by force
  moreover have "length (watchers_of h' n) \<le> maxWatchersPerNode" for n
    using inv facts by (auto simp: hub_inv_def)
  moreover have "registered h' n d \<Longrightarrow> n = node \<and> d = c \<or> registered h n d" for n d
    using facts by (auto simp: registered_def split: if_splits)
  ultimately show ?thesis using inv by (auto simp: hub_inv_def) blast+
qed

lemma hub_inv_socket:
  assumes "hub_inv (h, ws)"
  shows "hub_inv (h\<lparr> hb_sockets := so \<rparr>, ws)"
proof -
  have w: "watchers_of (h\<lparr> hb_sockets := so \<rparr>) n = watchers_of h n" for n
    by (simp add: watchers_of_def)
  from w have "registered (h\<lparr> hb_sockets := so \<rparr>) = registered h" by (intro ext) (simp add: registered_def)
  with w have "waiter_ok (h\<lparr> hb_sockets := so \<rparr>) = waiter_ok h"
    by (intro ext) (simp add: waiter_ok_def)
  with w \<open>registered (h\<lparr> hb_sockets := so \<rparr>) = registered h\<close> assms show ?thesis
    by (simp add: hub_inv_def)
qed

lemma hub_inv_step: "hub_step s s' \<Longrightarrow> hub_inv s \<Longrightarrow> hub_inv s'"
proof (induction rule: hub_step.induct)
  case (set_revision h ws r)
  then show ?case by (auto simp: hub_inv_def waiter_ok_SetRevision registered_def)
next
  case (wait_answer node known h r h' ws)
  then show ?case using Wait_begin_AnswerAt by blast
next
  case (wait_register node known h c h' ws)
  then show ?case by (intro hub_inv_begin)
next
  case (wait_wake w ws h v h')
  then show ?case using hub_inv_leave [of h ws w] by (auto simp: Wait_wake_def split: option.splits)
next
  case (wait_timeout w ws h v h')
  then show ?case using hub_inv_leave [of h ws w] by (auto simp: Wait_timeout_def Let_def)
next
  case (register node conn long h old h' ws)
  then show ?case using hub_inv_socket by (auto simp: RegisterSocket_def)
next
  case (unregister node conn h b h' ws)
  then show ?case using hub_inv_socket by (auto simp: UnregisterSocket_def split: option.splits if_splits)
qed

lemma hub_reach_inv: "hub_reach s \<Longrightarrow> hub_inv s"
proof (induction rule: hub_reach.induct)
  case init
  then show ?case by (simp add: hub_inv_def new_hub_def watchers_of_def registered_def)
next
  case (step s s')
  then show ?case using hub_inv_step by blast
qed

text \<open>C37: no wake-up is lost and waiters are bounded: in every reachable state a waiter that still
  blocks came with a revision at least the current one, and no node has more than four channels
  registered.\<close>

theorem hub_no_lost_wakeup:
  assumes "hub_reach (h, ws)" and "w \<in> set ws" and "receive (wt_chan w) h = None"
  shows "hb_revision h \<le> wt_known w \<and> (\<forall>node. length (watchers_of h node) \<le> 4)"
proof -
  have inv: "hub_inv (h, ws)" using assms(1) by (rule hub_reach_inv)
  then have "waiter_ok h w" using assms(2) by (simp add: hub_inv_def)
  then have "hb_revision h \<le> wt_known w"
    using assms(3) by (auto simp: waiter_ok_def receive_def split: if_splits)
  with inv show ?thesis by (simp add: hub_inv_def maxWatchersPerNode_def)
qed

theorem hub_no_lost_wakeup_witness:
  "let h = snd (Wait_begin ''n1'' 7 (SetRevision 7 new_hub)) in
     hb_revision h \<le> 7 \<and> (\<forall>node. length (watchers_of h node) \<le> 4)"
proof -
  let ?h1 = "SetRevision 7 new_hub"
  let ?h2 = "snd (Wait_begin ''n1'' 7 ?h1)"
  have b: "Wait_begin ''n1'' 7 ?h1 = (Waiting 0, ?h2)"
    by (simp add: Wait_begin_def SetRevision_def new_hub_def watchers_of_def maxWatchersPerNode_def)
  have "hub_reach (?h1, [])" by (rule hub_reach.step [OF hub_reach.init hub_step.set_revision])
  from hub_reach.step [OF this hub_step.wait_register [OF b]]
  have r: "hub_reach (?h2, [\<lparr> wt_chan = 0, wt_node = ''n1'', wt_known = 7 \<rparr>])" .
  have "receive 0 ?h2 = None"
    by (simp add: Wait_begin_def SetRevision_def new_hub_def watchers_of_def maxWatchersPerNode_def
        receive_def notify_channels_def)
  with hub_no_lost_wakeup [OF r, of "\<lparr> wt_chan = 0, wt_node = ''n1'', wt_known = 7 \<rparr>"]
  show ?thesis by (simp add: Let_def)
qed

text \<open>A connection that was replaced does not unregister its successor, and the last connection
  registered is the one messages go to.\<close>

lemma replaced_unregister:
  "old \<noteq> new \<Longrightarrow> UnregisterSocket node old (snd (RegisterSocket node new long h)) =
     (False, snd (RegisterSocket node new long h))"
  by (simp add: UnregisterSocket_def RegisterSocket_def map_simps)

text \<open>The revision of the hub is what was set last, not the greatest one: two requests that bump the
  revision of the store and then set it here in the other order leave the older one.\<close>

lemma hub_revision_last: "hb_revision (SetRevision 5 (SetRevision 6 h)) = 5"
  by (simp add: SetRevision_def)

end

