(* ===== verification/StoreHistory.thy ===== *)
theory StoreHistory
  imports StoreBase Complex_Main
begin

text \<open>
  internal/controller/store/store.go, the two tables that only grow and are pruned: metrics reported by
  nodes, with the sums shown for them, and the audit log.

  SQLite's total() adds in floating point.  It is a parameter of the sums, a function of the list of
  values whose result, a finite float, is a rational number; the code relies on nothing else of it.  Where
  ORDER BY leaves ties open, the groups come in the order of their keys.
\<close>

section \<open>Metrics\<close>

definition metric_of :: "string \<Rightarrow> time \<Rightarrow> string \<Rightarrow> int \<Rightarrow> traffic_stat \<Rightarrow> metric_row" where
  "metric_of node observed kind i st = \<lparr> mtr_id = i, mtr_node = node, mtr_stat = tst_id st, mtr_kind = kind,
     mtr_in = tst_bytes_in st, mtr_out = tst_bytes_out st, mtr_connections = tst_connections st,
     mtr_observed = observed \<rparr>"

definition insert_metric :: "string \<Rightarrow> time \<Rightarrow> string \<Rightarrow> traffic_stat \<Rightarrow> db \<Rightarrow> db" where
  "insert_metric node observed kind st d =
    (let i = db_metric_seq d + 1
     in d\<lparr> db_metrics := db_metrics d @ [metric_of node observed kind i st], db_metric_seq := i \<rparr>)"

definition InsertMetrics :: "time \<Rightarrow> metrics_report \<Rightarrow> db \<Rightarrow> db" where
  "InsertMetrics now r d =
    (let observed = (if mrp_observed_at r = zero_time then now else mrp_observed_at r);
         d1 = fold (insert_metric (mrp_node_id r) observed ''forward'') (mrp_forward_stats r) d
     in fold (insert_metric (mrp_node_id r) observed ''tunnel'') (mrp_tunnel_stats r) d1)"

section \<open>The audit log\<close>

text \<open>\<open>detail\<close> is what json.Marshal answers for the detail.\<close>

definition AddAudit :: "time \<Rightarrow> string \<Rightarrow> string \<Rightarrow> string \<Rightarrow> string option \<Rightarrow> db \<Rightarrow> store_error + db" where
  "AddAudit now actor action target detail d =
    (case detail of
       None \<Rightarrow> Inl ErrDetailJSON
     | Some text \<Rightarrow>
         (let i = db_audit_seq d + 1 in
          Inr (d\<lparr> db_audit := db_audit d @ [\<lparr> aud_id = i, aud_actor = actor, aud_action = action,
                    aud_target = target, aud_detail = text, aud_created_at = now \<rparr>], db_audit_seq := i \<rparr>)))"

definition list_limit :: "int \<Rightarrow> nat" where
  "list_limit limit = (if limit \<le> 0 \<or> limit > 500 then 100 else nat limit)"

definition ListAudit :: "int \<Rightarrow> db \<Rightarrow> audit_event list" where
  "ListAudit limit d = take (list_limit limit) (order_desc aud_id (db_audit d))"

section \<open>Pruning\<close>

definition PruneHistory :: "time \<Rightarrow> time \<Rightarrow> db \<Rightarrow> (nat \<times> nat) \<times> db" where
  "PruneHistory metricsBefore auditBefore d =
    (let old_metric = (\<lambda>r. metricsBefore \<noteq> zero_time \<and> rfc3339nano (mtr_observed r) < rfc3339nano metricsBefore);
         old_audit = (\<lambda>r. auditBefore \<noteq> zero_time \<and> rfc3339nano (aud_created_at r) < rfc3339nano auditBefore)
     in ((affected old_metric (db_metrics d), affected old_audit (db_audit d)),
         d\<lparr> db_metrics := delete_where old_metric (db_metrics d),
            db_audit := delete_where old_audit (db_audit d) \<rparr>))"

section \<open>Sums\<close>

datatype go_float = FNaN | FInf bool | FFin rat

definition saturatingMetricTotal :: "go_float \<Rightarrow> int" where
  "saturatingMetricTotal v =
    (case v of
       FNaN \<Rightarrow> 0
     | FInf positive \<Rightarrow> if positive then 2 ^ 63 - 1 else 0
     | FFin x \<Rightarrow> if x \<le> 0 then 0 else if x \<ge> 2 ^ 63 then 2 ^ 63 - 1 else \<lfloor>x\<rfloor>)"

record metric_sum =
  ms_in :: int
  ms_out :: int
  ms_connections :: int

type_synonym sql_total = "int list \<Rightarrow> rat"

definition sum_rows :: "sql_total \<Rightarrow> metric_row list \<Rightarrow> metric_sum" where
  "sum_rows tot rows = \<lparr> ms_in = saturatingMetricTotal (FFin (tot (map mtr_in rows))),
     ms_out = saturatingMetricTotal (FFin (tot (map mtr_out rows))),
     ms_connections = saturatingMetricTotal (FFin (tot (map mtr_connections rows))) \<rparr>"

definition traffic_total :: "sql_total \<Rightarrow> metric_row list \<Rightarrow> rat" where
  "traffic_total tot rows = tot (map mtr_in rows) + tot (map mtr_out rows)"

definition last_observed :: "metric_row list \<Rightarrow> string" where
  "last_observed rows = fold (\<lambda>r m. max m (rfc3339nano (mtr_observed r))) rows ''''"

text \<open>GROUP BY: the groups in the order of their keys.\<close>

definition groups_by :: "(metric_row \<Rightarrow> 'k) \<Rightarrow> ('k list \<Rightarrow> 'k list) \<Rightarrow> metric_row list \<Rightarrow> ('k \<times> metric_row list) list" where
  "groups_by key order rows = map (\<lambda>k. (k, filter (\<lambda>r. key r = k) rows)) (order (remdups (map key rows)))"

definition stat_key :: "metric_row \<Rightarrow> string \<times> string" where
  "stat_key r = (mtr_stat r, mtr_kind r)"

definition stat_groups :: "metric_row list \<Rightarrow> ((string \<times> string) \<times> metric_row list) list" where
  "stat_groups = groups_by stat_key (\<lambda>ks. order_asc fst (order_asc snd ks))"

record metric_summary =
  msu_stat :: string
  msu_kind :: string
  msu_sum :: metric_sum
  msu_last :: string

definition MetricSummary :: "sql_total \<Rightarrow> int \<Rightarrow> db \<Rightarrow> metric_summary list" where
  "MetricSummary tot limit d =
     map (\<lambda>((stat, kind), rows). \<lparr> msu_stat = stat, msu_kind = kind, msu_sum = sum_rows tot rows,
            msu_last = last_observed rows \<rparr>)
       (take (list_limit limit)
         (order_desc (\<lambda>g. traffic_total tot (snd g))
           (order_desc (\<lambda>g. last_observed (snd g)) (stat_groups (db_metrics d)))))"

record metric_kind_summary =
  mks_kind :: string
  mks_objects :: nat
  mks_sum :: metric_sum
  mks_last :: string

definition metricKindSummary :: "sql_total \<Rightarrow> db \<Rightarrow> metric_kind_summary list" where
  "metricKindSummary tot d =
     map (\<lambda>(kind, rows). \<lparr> mks_kind = kind, mks_objects = length (remdups (map mtr_stat rows)),
            mks_sum = sum_rows tot rows, mks_last = last_observed rows \<rparr>)
       (order_desc (\<lambda>g. traffic_total tot (snd g)) (groups_by mtr_kind (order_asc id) (db_metrics d)))"

text \<open>The trend: 24 hourly buckets that end with the current hour.\<close>

definition metricTrendBucketCount :: nat where "metricTrendBucketCount = 24"

record metric_trend_point =
  mtp_bucket :: string
  mtp_sum :: metric_sum

definition truncate_hour :: "time \<Rightarrow> time" where
  "truncate_hour t = t - t mod hour"

definition trend_bucket :: "time \<Rightarrow> nat \<Rightarrow> string" where
  "trend_bucket start i = rfc3339nano (start + int i * hour)"

fun trend_rows :: "sql_total \<Rightarrow> string list \<Rightarrow> (string \<times> metric_row list) list \<Rightarrow> metric_trend_point list \<Rightarrow> metric_trend_point list" where
  "trend_rows tot buckets [] points = points"
| "trend_rows tot buckets ((key, rows) # groups) points =
    (case map_of (zip buckets [0..<length buckets]) (key @ '':00:00Z'') of
       None \<Rightarrow> trend_rows tot buckets groups points
     | Some i \<Rightarrow> trend_rows tot buckets groups (points[i := (points ! i)\<lparr> mtp_sum := sum_rows tot rows \<rparr>]))"

definition metricTrend :: "sql_total \<Rightarrow> time \<Rightarrow> db \<Rightarrow> metric_trend_point list" where
  "metricTrend tot now d =
    (let end = truncate_hour now + hour; start = end - int metricTrendBucketCount * hour;
         buckets = map (trend_bucket start) [0..<metricTrendBucketCount];
         points = map (\<lambda>b. \<lparr> mtp_bucket = b, mtp_sum = \<lparr> ms_in = 0, ms_out = 0, ms_connections = 0 \<rparr> \<rparr>) buckets;
         rows = filter (\<lambda>r. rfc3339nano start \<le> rfc3339nano (mtr_observed r) \<and>
                            rfc3339nano (mtr_observed r) < rfc3339nano end) (db_metrics d)
     in trend_rows tot buckets (groups_by (\<lambda>r. take 13 (rfc3339nano (mtr_observed r))) (order_asc id) rows) points)"

record metric_overview =
  mov_totals :: metric_sum
  mov_objects :: nat
  mov_last :: string
  mov_kinds :: "metric_kind_summary list"
  mov_trend :: "metric_trend_point list"
  mov_items :: "metric_summary list"

definition MetricOverview :: "sql_total \<Rightarrow> time \<Rightarrow> int \<Rightarrow> db \<Rightarrow> metric_overview" where
  "MetricOverview tot now limit d = \<lparr> mov_totals = sum_rows tot (db_metrics d),
     mov_objects = length (stat_groups (db_metrics d)), mov_last = last_observed (db_metrics d),
     mov_kinds = metricKindSummary tot d, mov_trend = metricTrend tot now d,
     mov_items = MetricSummary tot limit d \<rparr>"

section \<open>What is kept\<close>

text \<open>A table pruned at an instant: the rows of earlier seconds are gone, those of later seconds kept, in
  their order, and the number reported is the number of rows gone.  Within the second of the cutoff the
  text decides, which is not the order of the instants (see rfc3339nano_not_monotone).\<close>

definition pruned_at :: "time \<Rightarrow> ('r \<Rightarrow> time) \<Rightarrow> 'r list \<Rightarrow> nat \<Rightarrow> 'r list \<Rightarrow> bool" where
  "pruned_at cutoff stamp before n after \<longleftrightarrow> n + length after = length before \<and>
     (\<exists>keep. after = filter keep before \<and> (\<forall>r\<in>set before.
        (cutoff = zero_time \<longrightarrow> keep r) \<and> (seconds_of cutoff < seconds_of (stamp r) \<longrightarrow> keep r) \<and>
        (cutoff \<noteq> zero_time \<and> seconds_of (stamp r) < seconds_of cutoff \<longrightarrow> \<not> keep r)))"

lemma pruned_at_delete:
  assumes "0 \<le> cutoff" "cutoff < time_limit" and "\<forall>r\<in>set rows. 0 \<le> stamp r \<and> stamp r < time_limit"
  defines "old \<equiv> \<lambda>r. cutoff \<noteq> zero_time \<and> rfc3339nano (stamp r) < rfc3339nano cutoff"
  shows "pruned_at cutoff stamp rows (affected old rows) (delete_where old rows)"
proof -
  have "\<not> old r" if "r \<in> set rows" "seconds_of cutoff < seconds_of (stamp r)" for r
    using rfc3339nano_less [of cutoff "stamp r"] assms that by auto
  moreover have "old r" if "r \<in> set rows" "cutoff \<noteq> zero_time" "seconds_of (stamp r) < seconds_of cutoff" for r
    using rfc3339nano_less [of "stamp r" cutoff] assms that by auto
  ultimately have keep: "\<forall>r\<in>set rows. (cutoff = zero_time \<longrightarrow> \<not> old r) \<and>
      (seconds_of cutoff < seconds_of (stamp r) \<longrightarrow> \<not> old r) \<and>
      (cutoff \<noteq> zero_time \<and> seconds_of (stamp r) < seconds_of cutoff \<longrightarrow> \<not> \<not> old r)"
    by (simp add: old_def)
  show ?thesis
    unfolding pruned_at_def affected_delete
    by (intro conjI refl exI [of _ "\<lambda>r. \<not> old r"] keep) (simp add: delete_where_def)
qed

definition history_dated :: "db \<Rightarrow> bool" where
  "history_dated d \<longleftrightarrow> (\<forall>r\<in>set (db_metrics d). 0 \<le> mtr_observed r \<and> mtr_observed r < time_limit) \<and>
     (\<forall>r\<in>set (db_audit d). 0 \<le> aud_created_at r \<and> aud_created_at r < time_limit)"

text \<open>pruning the history removes from the metrics and from the audit log exactly the rows of the
  seconds before the cutoff of each, apart from rows of the very second of the cutoff, keeps the
  order of the others, and reports the numbers removed; a zero cutoff removes nothing.\<close>

theorem history_pruned:
  assumes "history_dated d" and "0 \<le> mb" "mb < time_limit" and "0 \<le> ab" "ab < time_limit"
    and "PruneHistory mb ab d = ((m, a), d')"
  shows "pruned_at mb mtr_observed (db_metrics d) m (db_metrics d') \<and>
    pruned_at ab aud_created_at (db_audit d) a (db_audit d') \<and>
    db_users d' = db_users d \<and> db_tunnels d' = db_tunnels d \<and> db_forwards d' = db_forwards d"
proof -
  have d': "m = affected (\<lambda>r. mb \<noteq> zero_time \<and> rfc3339nano (mtr_observed r) < rfc3339nano mb) (db_metrics d)"
      "a = affected (\<lambda>r. ab \<noteq> zero_time \<and> rfc3339nano (aud_created_at r) < rfc3339nano ab) (db_audit d)"
      "db_metrics d' = delete_where (\<lambda>r. mb \<noteq> zero_time \<and> rfc3339nano (mtr_observed r) < rfc3339nano mb) (db_metrics d)"
      "db_audit d' = delete_where (\<lambda>r. ab \<noteq> zero_time \<and> rfc3339nano (aud_created_at r) < rfc3339nano ab) (db_audit d)"
      "db_users d' = db_users d" "db_tunnels d' = db_tunnels d" "db_forwards d' = db_forwards d"
    using assms(6) by (auto simp: PruneHistory_def Let_def)
  show ?thesis
    unfolding d' using assms(1-5) by (intro conjI refl pruned_at_delete) (auto simp: history_dated_def)
qed

text \<open>What a report adds: a row per statistic, in order, under the node and the instant of the report.\<close>

lemma insert_metric_fields [simp]:
  "db_metrics (insert_metric node observed kind st d) = db_metrics d @ [metric_of node observed kind (db_metric_seq d + 1) st]"
  "db_metric_seq (insert_metric node observed kind st d) = db_metric_seq d + 1"
  "db_audit (insert_metric node observed kind st d) = db_audit d"
  by (simp_all add: insert_metric_def Let_def)

lemma fold_insert_metric:
  "\<exists>ids. db_metrics (fold (insert_metric node observed kind) sts d) =
     db_metrics d @ map2 (metric_of node observed kind) ids sts \<and> length ids = length sts \<and>
     db_metric_seq (fold (insert_metric node observed kind) sts d) = db_metric_seq d + int (length sts) \<and>
     db_audit (fold (insert_metric node observed kind) sts d) = db_audit d"
proof (induction sts arbitrary: d)
  case (Cons st sts)
  from Cons.IH [of "insert_metric node observed kind st d"] obtain ids where
    "db_metrics (fold (insert_metric node observed kind) sts (insert_metric node observed kind st d)) =
       db_metrics (insert_metric node observed kind st d) @ map2 (metric_of node observed kind) ids sts"
    "length ids = length sts"
    "db_metric_seq (fold (insert_metric node observed kind) sts (insert_metric node observed kind st d)) =
       db_metric_seq (insert_metric node observed kind st d) + int (length sts)"
    "db_audit (fold (insert_metric node observed kind) sts (insert_metric node observed kind st d)) =
       db_audit (insert_metric node observed kind st d)" by blast
  then show ?case
    by (intro exI [of _ "(db_metric_seq d + 1) # ids"]) simp
qed simp

lemma InsertMetrics_rows:
  "map (\<lambda>r. (mtr_stat r, mtr_kind r, mtr_in r, mtr_out r)) (db_metrics (InsertMetrics now r d)) =
     map (\<lambda>r. (mtr_stat r, mtr_kind r, mtr_in r, mtr_out r)) (db_metrics d) @
     map (\<lambda>st. (tst_id st, ''forward'', tst_bytes_in st, tst_bytes_out st)) (mrp_forward_stats r) @
     map (\<lambda>st. (tst_id st, ''tunnel'', tst_bytes_in st, tst_bytes_out st)) (mrp_tunnel_stats r)"
proof -
  have rows: "map (\<lambda>r. (mtr_stat r, mtr_kind r, mtr_in r, mtr_out r)) (map2 (metric_of node observed kind) ids sts) =
      map (\<lambda>st. (tst_id st, kind, tst_bytes_in st, tst_bytes_out st)) sts" if "length ids = length sts" for node observed kind ids sts
    using that by (induction ids sts rule: list_induct2) (simp_all add: metric_of_def)
  let ?o = "if mrp_observed_at r = zero_time then now else mrp_observed_at r"
  let ?d1 = "fold (insert_metric (mrp_node_id r) ?o ''forward'') (mrp_forward_stats r) d"
  obtain ids1 where i1: "db_metrics ?d1 = db_metrics d @ map2 (metric_of (mrp_node_id r) ?o ''forward'') ids1 (mrp_forward_stats r)"
      "length ids1 = length (mrp_forward_stats r)" using fold_insert_metric by blast
  obtain ids2 where i2: "db_metrics (fold (insert_metric (mrp_node_id r) ?o ''tunnel'') (mrp_tunnel_stats r) ?d1) =
      db_metrics ?d1 @ map2 (metric_of (mrp_node_id r) ?o ''tunnel'') ids2 (mrp_tunnel_stats r)"
      "length ids2 = length (mrp_tunnel_stats r)" using fold_insert_metric by blast
  show ?thesis
    unfolding InsertMetrics_def Let_def i2(1) map_append rows [OF i2(2)]
    by (simp only: i1(1) map_append rows [OF i1(2)] append_assoc)
qed

text \<open>Sums stay in the range of a 64-bit integer, whatever the float.\<close>

lemma saturatingMetricTotal_range: "0 \<le> saturatingMetricTotal v \<and> saturatingMetricTotal v < 2 ^ 63"
  by (auto simp: saturatingMetricTotal_def floor_less_iff split: go_float.split)

lemma ListAudit_bounded: "length (ListAudit limit d) \<le> 500 \<and> set (ListAudit limit d) \<subseteq> set (db_audit d)"
  by (auto simp: ListAudit_def list_limit_def dest: in_set_takeD)

definition ex_history :: db where
  "ex_history = empty_db\<lparr>
     db_audit := [\<lparr> aud_id = 1, aud_actor = ''admin'', aud_action = ''login'', aud_target = '''', aud_detail = ''null'',
                    aud_created_at = 63000000000000000000 \<rparr>,
                  \<lparr> aud_id = 2, aud_actor = ''admin'', aud_action = ''login'', aud_target = '''', aud_detail = ''null'',
                    aud_created_at = 63000000100000000000 \<rparr>] \<rparr>"

theorem history_pruned_witness:
  "map aud_id (db_audit (snd (PruneHistory 0 63000000050000000000 ex_history))) = [2]"
proof -
  let ?p = "PruneHistory 0 63000000050000000000 ex_history"
  have "history_dated ex_history" by (simp add: history_dated_def ex_history_def empty_db_def time_limit_def)
  from history_pruned [OF this, of 0 63000000050000000000 "fst (fst ?p)" "snd (fst ?p)" "snd ?p"]
  have "pruned_at 63000000050000000000 aud_created_at (db_audit ex_history) (snd (fst ?p)) (db_audit (snd ?p))"
    by (simp add: time_limit_def)
  then show ?thesis
    by (auto simp: pruned_at_def ex_history_def empty_db_def seconds_of_def zero_time_def)
qed

end
