(* ===== verification/NodeApi.thy ===== *)
theory NodeApi
  imports Guard Hub StoreHistory
begin

text \<open>
  What nodes send to the controller, internal/controller/server.go: the checks of what the administration says of
  a node (validateNodeInput, validateNodePortRange) and of what a node says of itself (hello, heartbeat,
  update report, metrics), the requests heartbeat and metrics, and the rate at which metrics are taken.

  Every check answers the message of its error.  The maps of literal fields the code ranges over have no
  order; here they are checked in the order they are written.
\<close>

section \<open>Texts\<close>

definition maxNodeNameBytes :: nat where "maxNodeNameBytes = 256"
definition maxNodeLabelEntries :: nat where "maxNodeLabelEntries = 64"
definition maxNodeLabelKeyBytes :: nat where "maxNodeLabelKeyBytes = 128"
definition maxNodeLabelValueBytes :: nat where "maxNodeLabelValueBytes = 1024"
definition maxNodeMetadataBytes :: nat where "maxNodeMetadataBytes = 256"
definition maxNodeVersionBytes :: nat where "maxNodeVersionBytes = 128"
definition maxNodeUpdateErrorBytes :: nat where "maxNodeUpdateErrorBytes = 2048"

definition validateNodeText :: "string \<Rightarrow> string \<Rightarrow> nat \<Rightarrow> bool \<Rightarrow> string option" where
  "validateNodeText field value maxBytes allowEmpty = first_err [
     fail_if (\<not> allowEmpty \<and> trim_space value = []) (field @ '' is required''),
     fail_if (\<not> valid_utf8 value) (field @ '' is invalid UTF-8''),
     fail_if (length value > maxBytes) (field @ '' is too long''),
     fail_if (has_control value) (field @ '' contains a control character'')]"

text \<open>Line feed, carriage return and tab are the controls an error may contain; they are single bytes, so
  what is left when they are dropped has the other controls.\<close>

definition bad_control :: "string \<Rightarrow> bool" where
  "bad_control value = has_control (filter (\<lambda>c. c \<notin> {CHR 0x0A, CHR 0x0D, CHR 0x09}) value)"

definition validateNodeError :: "string \<Rightarrow> string \<Rightarrow> nat \<Rightarrow> bool \<Rightarrow> string option" where
  "validateNodeError field value maxBytes allowEmpty = first_err [
     fail_if (\<not> allowEmpty \<and> trim_space value = []) (field @ '' is required''),
     fail_if (\<not> valid_utf8 value) (field @ '' is invalid UTF-8''),
     fail_if (length value > maxBytes) (field @ '' is too long''),
     fail_if (bad_control value) (field @ '' contains an invalid control character'')]"

section \<open>What the administration says of a node\<close>

fun validate_labels :: "(string \<times> string) list \<Rightarrow> string option" where
  "validate_labels [] = None"
| "validate_labels ((key, value) # rest) = first_err [
     validateNodeText ''node label key'' key maxNodeLabelKeyBytes False,
     validateNodeText ''node label value'' value maxNodeLabelValueBytes True,
     validate_labels rest]"

definition has_space :: "string \<Rightarrow> bool" where
  "has_space s = list_ex (\<lambda>t. find_prefix space_seqs t \<noteq> None) (suffixes s)"

definition validateNodeInput :: "net_env \<Rightarrow> string \<Rightarrow> settings \<Rightarrow> string \<Rightarrow> string option" where
  "validateNodeInput nt name labels publicHost = first_err [
     validateNodeText ''node name'' name maxNodeNameBytes False,
     fail_if (mlen labels > maxNodeLabelEntries) (''node has too many labels (maximum 64)''),
     validate_labels (mentries labels),
     validateNodeText ''node public host'' publicHost maxNodeMetadataBytes True,
     (let trimmed = trim_space publicHost; host = trimEnclosingBrackets trimmed
      in if trimmed = [] \<or> nt_parse_ip nt host \<noteq> None then None
         else fail_if (list_ex (\<lambda>c. c \<in> set ''/?#@:'' \<or> c = CHR 0x5C) host \<or> has_space host)
                ''node public host must be an IP address or hostname'')]"

definition validateNodePortRange :: "int \<Rightarrow> int \<Rightarrow> string option" where
  "validateNodePortRange portMin portMax =
    (if portMin = 0 \<and> portMax = 0 then None
     else if portMin = 0 \<or> portMax = 0 then Some ''port_min and port_max must be set together''
     else if portMin < 1 \<or> portMax > 65535 then Some ''port range must be within 1-65535''
     else if portMin > portMax then Some ''port_min must be less than or equal to port_max''
     else None)"

section \<open>What a node says of itself\<close>

text \<open>\<open>ControlMessage\<close> of internal/shared/protocol/control.go.\<close>

record control_message =
  cm_type :: string
  cm_node_id :: string
  cm_version :: string
  cm_long_lease :: bool
  cm_system :: node_system
  cm_revision :: int
  cm_config :: "signed_config option"
  cm_update :: "update_command option"
  cm_report :: "update_report option"
  cm_error :: string

definition no_system :: node_system where
  "no_system = \<lparr> sys_hostname = [], sys_os = [], sys_arch = [], sys_ip = [] \<rparr>"

definition control :: "string \<Rightarrow> control_message" where
  "control kind = \<lparr> cm_type = kind, cm_node_id = [], cm_version = [], cm_long_lease = False, cm_system = no_system,
     cm_revision = 0, cm_config = None, cm_update = None, cm_report = None, cm_error = [] \<rparr>"

definition validateNodeIdentity :: "string \<Rightarrow> string \<Rightarrow> string option" where
  "validateNodeIdentity expected claimed =
    (if claimed = [] then None
     else first_err [validateNodeText ''node id'' claimed MaxIDBytes False,
       fail_if (claimed \<noteq> expected) ''node id does not match authenticated node''])"

definition validateNodeVersion :: "string \<Rightarrow> string option" where
  "validateNodeVersion version = validateNodeText ''node version'' version maxNodeVersionBytes True"

definition validateNodeSystem :: "net_env \<Rightarrow> node_system \<Rightarrow> string option" where
  "validateNodeSystem nt sys = first_err [
     validateNodeText ''node hostname'' (sys_hostname sys) maxNodeMetadataBytes True,
     validateNodeText ''node operating system'' (sys_os sys) maxNodeMetadataBytes True,
     validateNodeText ''node architecture'' (sys_arch sys) maxNodeMetadataBytes True,
     validateNodeText ''node IP'' (sys_ip sys) maxNodeMetadataBytes True,
     fail_if (sys_ip sys \<noteq> [] \<and> nt_parse_ip nt (trimEnclosingBrackets (trim_space (sys_ip sys))) = None)
       ''node IP is invalid'']"

definition validateNodeHeartbeat :: "net_env \<Rightarrow> string \<Rightarrow> node_system \<Rightarrow> string option" where
  "validateNodeHeartbeat nt version sys = first_err [validateNodeVersion version, validateNodeSystem nt sys]"

definition validateNodeHello :: "net_env \<Rightarrow> string \<Rightarrow> control_message \<Rightarrow> string option" where
  "validateNodeHello nt i hello = first_err [validateNodeIdentity i (cm_node_id hello),
     validateNodeHeartbeat nt (cm_version hello) (cm_system hello)]"

definition validateNodeUpdateReport :: "update_report \<Rightarrow> string option" where
  "validateNodeUpdateReport r = first_err [
     fail_if (rpt_status r \<notin> {UpdateIdle, UpdateRequested, UpdateRunning, UpdateSucceeded, UpdateFailed})
       ''unsupported node update status'',
     validateNodeVersion (rpt_version r),
     validateNodeError ''node update error'' (rpt_error r) maxNodeUpdateErrorBytes True]"

definition validateNodeControlMessage :: "net_env \<Rightarrow> string \<Rightarrow> control_message \<Rightarrow> string option" where
  "validateNodeControlMessage nt i msg = first_err [validateNodeIdentity i (cm_node_id msg),
     (if cm_type msg = ''heartbeat'' then
        first_err [validateNodeHeartbeat nt (cm_version msg) (cm_system msg),
          (case cm_report msg of None \<Rightarrow> None | Some r \<Rightarrow> validateNodeUpdateReport r)]
      else if cm_type msg = ''pull_config'' then None
      else if cm_type msg = ''update_status'' then
        (case cm_report msg of None \<Rightarrow> Some ''update status report is required'' | Some r \<Rightarrow> validateNodeUpdateReport r)
      else Some ''unsupported node message type'')]"

section \<open>Heartbeats and metrics\<close>

text \<open>\<open>body\<close> is what readJSON makes of the request.\<close>

definition handleNodeHeartbeat ::
  "net_env \<Rightarrow> time \<Rightarrow> hub \<Rightarrow> node \<Rightarrow> string + (string \<times> node_system) \<Rightarrow> db \<Rightarrow> int reply \<times> db" where
  "handleNodeHeartbeat nt now h n body d =
    (case body of Inl e \<Rightarrow> (Refused StatusBadRequest e, d)
     | Inr (version, sys) \<Rightarrow>
       (case validateNodeHeartbeat nt version sys of
          Some e \<Rightarrow> (Refused StatusBadRequest e, d)
        | None \<Rightarrow> (Answer (hb_revision h), MarkNodeSeen now (nd_id n) sys version d)))"

definition maxMetricStats :: nat where "maxMetricStats = 512"
definition maxMetricIDBytes :: nat where "maxMetricIDBytes = 256"
definition maxAgentErrors :: nat where "maxAgentErrors = 64"
definition maxAgentErrorScopeBytes :: nat where "maxAgentErrorScopeBytes = 128"
definition maxAgentErrorMessageBytes :: nat where "maxAgentErrorMessageBytes = 2048"
definition maxMetricValue :: int where "maxMetricValue = 2 ^ 60"
definition maxMetricGoroutines :: int where "maxMetricGoroutines = 2 ^ 20"
definition maxMetricTimeSkew :: duration where "maxMetricTimeSkew = 24 * hour"
definition minNodeMetricsInterval :: duration where "minNodeMetricsInterval = 5 * second"
definition maxNodeMetricsRateEntries :: nat where "maxNodeMetricsRateEntries = 10000"
definition nodeMetricsRateEntryTTL :: duration where "nodeMetricsRateEntryTTL = 15 * minute"

definition out_of_range :: "int \<Rightarrow> bool" where
  "out_of_range v \<longleftrightarrow> v < 0 \<or> v > maxMetricValue"

definition validate_stat :: "string \<Rightarrow> traffic_stat \<Rightarrow> string option" where
  "validate_stat kind st = first_err [
     validateNodeText (kind @ '' metric id'') (tst_id st) maxMetricIDBytes False,
     fail_if (out_of_range (tst_bytes_in st)) (kind @ '' bytes_in is outside the permitted range''),
     fail_if (out_of_range (tst_bytes_out st)) (kind @ '' bytes_out is outside the permitted range''),
     fail_if (out_of_range (tst_connections st)) (kind @ '' connections is outside the permitted range'')]"

definition validate_agent_error :: "agent_error \<Rightarrow> string option" where
  "validate_agent_error e = first_err [
     validateNodeText ''agent error scope'' (aer_scope e) maxAgentErrorScopeBytes True,
     validateNodeError ''agent error message'' (aer_message e) maxAgentErrorMessageBytes True]"

definition validateMetricsReport :: "time \<Rightarrow> metrics_report \<Rightarrow> string option" where
  "validateMetricsReport now r = first_err ([
     (if mrp_node_id r = [] then None else validateNodeText ''metrics node id'' (mrp_node_id r) MaxIDBytes True),
     fail_if (length (mrp_forward_stats r) > maxMetricStats \<or> length (mrp_tunnel_stats r) > maxMetricStats)
       ''metrics report has too many statistics (maximum 512 per kind)'',
     fail_if (length (mrp_forward_stats r) + length (mrp_tunnel_stats r) > maxMetricStats * 2)
       ''metrics report has too many statistics'']
     @ map (validate_stat ''forward'') (mrp_forward_stats r) @ map (validate_stat ''tunnel'') (mrp_tunnel_stats r)
     @ [fail_if (out_of_range (rts_uptime (mrp_runtime r))) ''metrics uptime is outside the permitted range'',
     fail_if (rts_goroutines (mrp_runtime r) < 0 \<or> rts_goroutines (mrp_runtime r) > maxMetricGoroutines)
       ''metrics goroutine count is outside the permitted range'',
     fail_if (mrp_observed_at r \<noteq> zero_time \<and> (mrp_observed_at r < now - maxMetricTimeSkew \<or>
         mrp_observed_at r > now + maxMetricTimeSkew)) ''metrics timestamp is outside the permitted range'',
     fail_if (length (mrp_agent_errors r) > maxAgentErrors) ''metrics report has too many agent errors (maximum 64)'']
     @ map validate_agent_error (mrp_agent_errors r))"

text \<open>When each node's last report was taken.  A report that comes too early leaves the table alone; the
  others first forget old entries and, if the table is full, the oldest one.\<close>

type_synonym metrics_rate = "(string \<times> time) list"

definition drop_stale :: "time \<Rightarrow> metrics_rate \<Rightarrow> metrics_rate" where
  "drop_stale now m = filter (\<lambda>(k, seen). \<not> time_sub now seen > nodeMetricsRateEntryTTL) m"

definition too_early :: "time \<Rightarrow> time option \<Rightarrow> bool" where
  "too_early now seen = (case seen of None \<Rightarrow> False | Some t \<Rightarrow> time_sub now t < minNodeMetricsInterval)"

definition allowNodeMetrics :: "time \<Rightarrow> string \<Rightarrow> metrics_rate \<Rightarrow> bool \<times> metrics_rate" where
  "allowNodeMetrics now i m =
    (if too_early now (map_of m i) then (False, m)
     else let m1 = drop_stale now m;
              m2 = (if map_of m1 i = None \<and> length m1 \<ge> maxNodeMetricsRateEntries then evict_oldest (\<lambda>t. t) m1 else m1)
          in (True, AList.update i now m2))"

definition handleNodeMetrics ::
  "time \<Rightarrow> time \<Rightarrow> node \<Rightarrow> string + metrics_report \<Rightarrow> db \<Rightarrow> metrics_rate \<Rightarrow> unit reply \<times> db \<times> metrics_rate" where
  "handleNodeMetrics now later n body d m =
    (case allowNodeMetrics now (nd_id n) m of
       (False, m') \<Rightarrow> (Refused StatusTooManyRequests ''metrics reports are too frequent'', d, m')
     | (True, m') \<Rightarrow>
       (case body of Inl e \<Rightarrow> (Refused StatusBadRequest e, d, m')
        | Inr raw \<Rightarrow>
          (let r = raw\<lparr> mrp_node_id := nd_id n,
                        mrp_observed_at := (if mrp_observed_at raw = zero_time then now else mrp_observed_at raw) \<rparr>
           in case validateMetricsReport later r of
                Some e \<Rightarrow> (Refused StatusBadRequest e, d, m')
              | None \<Rightarrow> (Answer (), InsertMetrics later r d, m'))))"

section \<open>The rate of metrics\<close>

fun metrics_run :: "(time \<times> string) list \<Rightarrow> metrics_rate \<Rightarrow> bool list \<times> metrics_rate" where
  "metrics_run [] m = ([], m)"
| "metrics_run ((now, i) # evs) m =
    (case allowNodeMetrics now i m of (ok, m1) \<Rightarrow> case metrics_run evs m1 of (oks, m2) \<Rightarrow> (ok # oks, m2))"

text \<open>What the table stands for: a report is taken five seconds after the last one taken from its node.\<close>

fun rate_reference :: "(time \<times> string) list \<Rightarrow> (string \<Rightarrow> time option) \<Rightarrow> bool list" where
  "rate_reference [] taken = []"
| "rate_reference ((now, i) # evs) taken =
    (let ok = (case taken i of None \<Rightarrow> True | Some t \<Rightarrow> t + 5 * second \<le> now)
     in ok # rate_reference evs (if ok then taken(i \<mapsto> now) else taken))"

lemma too_early_iff: "too_early now seen \<longleftrightarrow> (\<exists>t. seen = Some t \<and> now < t + 5 * second)"
  by (simp add: too_early_def minNodeMetricsInterval_def time_sub_lt duration_defs split: option.split)

lemma map_of_drop_stale:
  "keys_ok m \<Longrightarrow> map_of (drop_stale now m) k =
    (case map_of m k of None \<Rightarrow> None | Some t \<Rightarrow> if t + 15 * minute < now then None else Some t)"
  by (simp add: drop_stale_def map_simps nodeMetricsRateEntryTTL_def time_sub_gt duration_defs split: option.split)

lemma drop_stale_facts:
  "keys_ok m \<Longrightarrow> keys_ok (drop_stale now m)" "length (drop_stale now m) \<le> length m"
  "fst ` set (drop_stale now m) \<subseteq> fst ` set m"
  by (auto simp: drop_stale_def map_simps)

lemma keys_length: "keys_ok m \<Longrightarrow> fst ` set m \<subseteq> ids \<Longrightarrow> finite ids \<Longrightarrow> length m \<le> card ids"
  by (metis card_mono distinct_card length_map list.set_map)

definition rate_rel :: "time \<Rightarrow> string set \<Rightarrow> metrics_rate \<Rightarrow> (string \<Rightarrow> time option) \<Rightarrow> bool" where
  "rate_rel now ids m taken \<longleftrightarrow> keys_ok m \<and> fst ` set m \<subseteq> ids \<and>
     (\<forall>k t. map_of m k = Some t \<longrightarrow> taken k = Some t) \<and>
     (\<forall>k t. taken k = Some t \<longrightarrow> map_of m k = None \<longrightarrow> t + 15 * minute < now)"

lemma rate_step:
  assumes r: "rate_rel before ids m taken" and "before \<le> now" and "i \<in> ids" and "finite ids"
    and "card ids \<le> maxNodeMetricsRateEntries"
  defines "ok \<equiv> (case taken i of None \<Rightarrow> True | Some t \<Rightarrow> t + 5 * second \<le> now)"
  shows "fst (allowNodeMetrics now i m) = ok \<and>
    rate_rel now ids (snd (allowNodeMetrics now i m)) (if ok then taken(i \<mapsto> now) else taken)"
proof (cases "too_early now (map_of m i)")
  case True
  then obtain t where "map_of m i = Some t" "now < t + 5 * second" by (auto simp: too_early_iff)
  then have "\<not> ok" using r by (auto simp: ok_def rate_rel_def)
  moreover have "rate_rel now ids m taken" using r assms(2) by (fastforce simp: rate_rel_def)
  ultimately show ?thesis using True by (simp add: allowNodeMetrics_def)
next
  case False
  have ok: "ok"
  proof (cases "taken i")
    case (Some t)
    show ?thesis
    proof (cases "map_of m i")
      case None
      then have "t + 15 * minute < now" using r Some assms(2) by (fastforce simp: rate_rel_def)
      then show ?thesis by (simp add: ok_def Some duration_defs)
    next
      case (Some u)
      then have "taken i = Some u" using r by (simp add: rate_rel_def)
      with False Some show ?thesis by (simp add: ok_def too_early_iff)
    qed
  qed (simp add: ok_def)
  let ?m1 = "drop_stale now m"
  have k: "keys_ok m" "fst ` set m \<subseteq> ids" using r by (auto simp: rate_rel_def)
  have "\<not> (map_of ?m1 i = None \<and> length ?m1 \<ge> maxNodeMetricsRateEntries)"
  proof
    assume full: "map_of ?m1 i = None \<and> length ?m1 \<ge> maxNodeMetricsRateEntries"
    then have "fst ` set ?m1 \<subseteq> ids - {i}"
      using drop_stale_facts(3) [of now m] k(2) by (auto simp: map_of_eq_None_iff)
    then have "length ?m1 \<le> card (ids - {i})" by (intro keys_length drop_stale_facts k(1)) (use assms(4) in simp_all)
    also have "\<dots> < card ids" by (rule card_Diff1_less [OF assms(4,3)])
    finally show False using full assms(5) by simp
  qed
  then have a: "allowNodeMetrics now i m = (True, AList.update i now ?m1)"
    using False unfolding allowNodeMetrics_def Let_def by (simp only: if_False)
  have "rate_rel now ids (AList.update i now ?m1) (taken(i \<mapsto> now))"
    unfolding rate_rel_def
  proof (intro conjI allI impI)
    show "keys_ok (AList.update i now ?m1)" by (intro keys_ok_update drop_stale_facts k)
    show "fst ` set (AList.update i now ?m1) \<subseteq> ids"
      using drop_stale_facts(3) [of now m] k(2) assms(3) by (auto simp: dom_update)
    fix j t
    show "map_of (AList.update i now ?m1) j = Some t \<Longrightarrow> (taken(i \<mapsto> now)) j = Some t"
      using r by (auto simp: map_simps map_of_drop_stale k(1) rate_rel_def split: if_splits option.splits)
    show "(taken(i \<mapsto> now)) j = Some t \<Longrightarrow> map_of (AList.update i now ?m1) j = None \<Longrightarrow> t + 15 * minute < now"
      using r assms(2) by (fastforce simp: map_simps map_of_drop_stale k(1) rate_rel_def split: if_splits option.splits)
  qed
  then show ?thesis using a ok by simp
qed

text \<open>C16: as long as no more than 10000 nodes report, metrics are taken from a node exactly when five seconds have
  passed since the last report taken from it, although entries are forgotten after fifteen minutes.\<close>

theorem metrics_rate_refines:
  assumes "sorted (map fst evs)" and "card (snd ` set evs) \<le> maxNodeMetricsRateEntries"
  shows "fst (metrics_run evs []) = rate_reference evs (\<lambda>_. None)"
proof -
  have "fst (metrics_run es m) = rate_reference es taken"
    if "rate_rel before (snd ` set evs) m taken" "sorted (before # map fst es)" "snd ` set es \<subseteq> snd ` set evs"
    for es m taken before
    using that
  proof (induction es arbitrary: before m taken)
    case (Cons e es)
    obtain now i where e: "e = (now, i)" by (cases e)
    have "before \<le> now" "i \<in> snd ` set evs" using Cons.prems(2,3) e by auto
    note step = rate_step [OF Cons.prems(1) this _ assms(2)]
    obtain ok m1 where a: "allowNodeMetrics now i m = (ok, m1)" by fastforce
    have ok: "(case taken i of None \<Rightarrow> True | Some t \<Rightarrow> t + 5 * second \<le> now) = ok" using step a by simp
    have s: "rate_rel now (snd ` set evs) m1 (if ok then taken(i \<mapsto> now) else taken)" using step unfolding ok a by simp
    have "sorted (now # map fst es)" "snd ` set es \<subseteq> snd ` set evs" using Cons.prems(2,3) e by auto
    from Cons.IH [OF s this] show ?case
      unfolding e metrics_run.simps rate_reference.simps Let_def ok a by (cases "metrics_run es m1"; cases ok) (simp_all add: fun_upd_def)
  qed simp
  from this [of "Min (insert 0 (fst ` set evs))" "[]" "\<lambda>_. None" evs] assms(1) show ?thesis
    by (simp add: rate_rel_def)
qed

text \<open>The table never holds more than 10000 entries.\<close>

lemma metrics_rate_bounded:
  assumes "keys_ok m" and "'''' \<notin> fst ` set m" and "length m \<le> maxNodeMetricsRateEntries"
  shows "length (snd (allowNodeMetrics now i m)) \<le> maxNodeMetricsRateEntries"
proof (cases "too_early now (map_of m i)")
  case False
  let ?m1 = "drop_stale now m"
  have k: "keys_ok ?m1" "length ?m1 \<le> maxNodeMetricsRateEntries" "'''' \<notin> fst ` set ?m1"
    using assms drop_stale_facts [where m = m and now = now] by auto
  let ?m2 = "if map_of ?m1 i = None \<and> length ?m1 \<ge> maxNodeMetricsRateEntries then evict_oldest (\<lambda>t. t) ?m1 else ?m1"
  have "length (AList.update i now ?m2) \<le> maxNodeMetricsRateEntries"
  proof (cases "map_of ?m1 i")
    case (Some t)
    then have "i \<in> fst ` set ?m1" by (metis map_of_SomeD fst_conv imageI)
    then show ?thesis using k Some by (simp add: length_update_in)
  next
    case None
    have "length (AList.update i now l) \<le> Suc (length l)" for l :: metrics_rate
      by (cases "i \<in> fst ` set l") (simp_all add: length_update_in length_update_notin)
    moreover have "length ?m2 < maxNodeMetricsRateEntries"
    proof (cases "length ?m1 \<ge> maxNodeMetricsRateEntries")
      case True
      then have "?m1 \<noteq> []" by (auto simp: maxNodeMetricsRateEntries_def)
      from length_evict [OF k(1,3) this, of "\<lambda>t. t"] k(2) True None show ?thesis by simp
    qed simp
    ultimately show ?thesis by (meson Suc_leI order_trans)
  qed
  with False show ?thesis by (simp add: allowNodeMetrics_def Let_def)
qed (use assms in \<open>simp add: allowNodeMetrics_def\<close>)

theorem metrics_rate_refines_witness:
  "fst (metrics_run [(unix_time 0, ''a''), (unix_time 3, ''b''), (unix_time 4, ''a''), (unix_time 5, ''a'')] []) =
     [True, True, False, True]"
  using metrics_rate_refines
    [of "[(unix_time 0, ''a''), (unix_time 3, ''b''), (unix_time 4, ''a''), (unix_time 5, ''a'')]"]
  by (simp add: maxNodeMetricsRateEntries_def card_insert_if unix_time_def duration_defs)

end
