(* ===== verification/Scope.thy ===== *)
theory Scope
  imports Types
begin

text \<open>
  What of the controller's tunnels and forwards a node is told: the scope functions of
  internal/controller/server.go (lines 2304-2529).  The map of active nodes is the list of its keys,
  all of them mapped to true; \<open>None\<close> is the nil map, with which nothing is filtered.
\<close>

section \<open>Roles\<close>

definition stage_has :: "string \<Rightarrow> tunnel_stage \<Rightarrow> bool" where
  "stage_has i s = list_ex (\<lambda>n. sn_node_id n = i) (stg_nodes s)"

definition nodeTunnelRole :: "string \<Rightarrow> tunnel \<Rightarrow> stage_role option" where
  "nodeTunnelRole i t = map_option stg_role (List.find (stage_has i) (tun_stages t))"

definition nodeParticipatesInTunnel :: "string \<Rightarrow> tunnel \<Rightarrow> bool" where
  "nodeParticipatesInTunnel i t = (nodeTunnelRole i t \<noteq> None)"

definition tunnelStageNodeForNode :: "tunnel \<Rightarrow> string \<Rightarrow> stage_node option" where
  "tunnelStageNodeForNode t i =
     List.find (\<lambda>n. sn_node_id n = i) (concat (map stg_nodes (tun_stages t)))"

definition previousStageNodeHasNode :: "tunnel \<Rightarrow> nat \<Rightarrow> string \<Rightarrow> bool" where
  "previousStageNodeHasNode t k i =
    (if k = 0 \<or> k \<ge> length (tun_stages t) then False else stage_has i (tun_stages t ! (k - 1)))"

section \<open>Settings\<close>

definition copySetting :: "settings \<Rightarrow> string \<Rightarrow> (string \<times> string) list \<Rightarrow> (string \<times> string) list" where
  "copySetting src k dst = (if src \<noteq> None \<and> mget src k \<noteq> [] then AList.update k (mget src k) dst else dst)"

definition carries_certs :: "transport \<Rightarrow> bool" where
  "carries_certs tr = (tr = TransportTLS \<or> tr = TransportMTLS \<or> tr = TransportWSTLS)"

definition listenerSettings :: "transport \<Rightarrow> settings \<Rightarrow> settings" where
  "listenerSettings tr s =
    (let out = copySetting s ''secret'' [];
         out = (if carries_certs tr
                then copySetting s ''server_key'' (copySetting s ''server_cert'' out) else out);
         out = (if tr = TransportMTLS then copySetting s ''ca_cert'' out else out)
     in Some out)"

definition dialerSettings :: "transport \<Rightarrow> settings \<Rightarrow> settings" where
  "dialerSettings tr s =
    (let out = copySetting s ''skip_verify'' (copySetting s ''server_name'' (copySetting s ''secret'' []));
         out = (if carries_certs tr then copySetting s ''ca_cert'' out else out);
         out = (if tr = TransportMTLS
                then copySetting s ''client_key'' (copySetting s ''client_cert'' out) else out)
     in Some out)"

section \<open>Protocols and targets\<close>

definition candidateSupportsProtocol :: "protocol list \<Rightarrow> protocol \<Rightarrow> bool" where
  "candidateSupportsProtocol ps p =
    (if ps = [] then p = ProtoTCP \<or> p = ProtoUDP else List.member ps p)"

definition filterForwardProtocols :: "protocol list \<Rightarrow> protocol list \<Rightarrow> protocol list" where
  "filterForwardProtocols ps cs = filter (candidateSupportsProtocol cs) ps"

definition copyForwardTargets :: "forward_target list \<Rightarrow> string \<Rightarrow> forward_target list" where
  "copyForwardTargets ts legacy =
    (let ts = (if ts = [] \<and> trim_space legacy \<noteq> [] then [legacy_target legacy] else ts)
     in map (\<lambda>(i, x). x\<lparr> tgt_position := int i \<rparr>) (enumerate 0 ts))"

section \<open>One tunnel, one forward\<close>

definition scope_node :: "string \<Rightarrow> tunnel \<Rightarrow> nat \<Rightarrow> stage_node \<Rightarrow> runtime_node" where
  "scope_node i t k n = \<lparr> rn_node_id = sn_node_id n, rn_protocols = sn_protocols n,
     rn_listen = sn_listen n, rn_public = sn_public n, rn_connect = sn_connect n, rn_weight = sn_weight n,
     rn_settings =
       (if sn_node_id n = i then listenerSettings (tun_transport t) (sn_settings n)
        else if k > 0 \<and> previousStageNodeHasNode t k i then dialerSettings (tun_transport t) (sn_settings n)
        else None) \<rparr>"

definition scope_stage :: "string \<Rightarrow> tunnel \<Rightarrow> nat \<Rightarrow> tunnel_stage \<Rightarrow> runtime_stage" where
  "scope_stage i t k s = \<lparr> rst_index = stg_index s, rst_role = stg_role s, rst_strategy = stg_strategy s,
     rst_tcp_strategy = stg_tcp_strategy s, rst_udp_strategy = stg_udp_strategy s,
     rst_nodes = map (scope_node i t k) (stg_nodes s) \<rparr>"

definition scopeTunnelRuntime :: "string \<Rightarrow> tunnel \<Rightarrow> tunnel_runtime" where
  "scopeTunnelRuntime i t = \<lparr> trt_id = tun_id t, trt_name = tun_name t, trt_type = tun_type t,
     trt_transport = tun_transport t,
     trt_stages = map (\<lambda>(k, s). scope_stage i t k s) (enumerate 0 (tun_stages t)),
     trt_settings = None \<rparr>"

definition forward_protocols_for :: "string \<Rightarrow> forward \<Rightarrow> tunnel \<Rightarrow> protocol list" where
  "forward_protocols_for i f t = (case tunnelStageNodeForNode t i of
     Some c \<Rightarrow> filterForwardProtocols (fwd_protocols f) (sn_protocols c) | None \<Rightarrow> fwd_protocols f)"

definition scopeForwardRuntime :: "string \<Rightarrow> forward \<Rightarrow> tunnel \<Rightarrow> stage_role \<Rightarrow> forward_runtime option" where
  "scopeForwardRuntime i f t role =
    (let ps = forward_protocols_for i f t in
     if ps = [] then None
     else (let r0 = \<lparr> frt_id = fwd_id f, frt_name = fwd_name f, frt_tunnel_id = fwd_tunnel_id f,
                      frt_protocols = ps, frt_listen = [], frt_target = [], frt_targets = [],
                      frt_strategy = fwd_strategy f, frt_tcp_strategy = fwd_tcp_strategy f,
                      frt_udp_strategy = fwd_udp_strategy f, frt_enabled = fwd_enabled f \<rparr>;
               with_targets = (\<lambda>r. r\<lparr> frt_target := fwd_target f,
                                      frt_targets := copyForwardTargets (fwd_targets f) (fwd_target f) \<rparr>);
               r1 = (if role = StageEntry
                     then (if tun_type t = TunnelDirect then with_targets (r0\<lparr> frt_listen := fwd_listen f \<rparr>)
                           else r0\<lparr> frt_listen := fwd_listen f \<rparr>)
                     else r0);
               r2 = (if role = StageExit then with_targets r1 else r1)
           in Some r2))"

section \<open>The scope of a node\<close>

definition keep_active :: "string list \<Rightarrow> tunnel_stage \<Rightarrow> tunnel_stage" where
  "keep_active act s = s\<lparr> stg_nodes := filter (\<lambda>n. List.member act (sn_node_id n)) (stg_nodes s) \<rparr>"

fun filter_active_stages :: "string list \<Rightarrow> tunnel_stage list \<Rightarrow> tunnel_stage list option" where
  "filter_active_stages act [] = Some []"
| "filter_active_stages act (s # ss) =
    (if stg_nodes (keep_active act s) = [] then None
     else map_option ((#) (keep_active act s)) (filter_active_stages act ss))"

definition filterActiveTunnelNodes :: "tunnel \<Rightarrow> string list \<Rightarrow> tunnel option" where
  "filterActiveTunnelNodes t act = (case filter_active_stages act (tun_stages t) of
     None \<Rightarrow> None | Some ss \<Rightarrow> if ss = [] then None else Some (t\<lparr> tun_stages := ss \<rparr>))"

fun group_forwards :: "forward list \<Rightarrow> (string \<times> forward list) list \<Rightarrow> (string \<times> forward list) list" where
  "group_forwards [] m = m"
| "group_forwards (f # fs) m = group_forwards fs
     (AList.update (fwd_tunnel_id f)
       ((case map_of m (fwd_tunnel_id f) of None \<Rightarrow> [] | Some l \<Rightarrow> l) @ [f]) m)"

definition scope_one ::
  "string \<Rightarrow> string list option \<Rightarrow> (string \<times> forward list) list \<Rightarrow> tunnel \<Rightarrow>
     tunnel_runtime list \<times> forward_runtime list" where
  "scope_one i active by_tunnel t0 =
    (case (case active of None \<Rightarrow> Some t0 | Some act \<Rightarrow> filterActiveTunnelNodes t0 act) of
       None \<Rightarrow> ([], [])
     | Some t \<Rightarrow>
         if \<not> tun_enabled t \<or> \<not> nodeParticipatesInTunnel i t then ([], [])
         else ([scopeTunnelRuntime i t],
               (case nodeTunnelRole i t of
                  None \<Rightarrow> []
                | Some role \<Rightarrow> List.map_filter (\<lambda>f. scopeForwardRuntime i f t role)
                    (case map_of by_tunnel (tun_id t) of None \<Rightarrow> [] | Some fs \<Rightarrow> fs))))"

definition scopeConfigForNodeWithActiveNodes ::
  "string \<Rightarrow> string list option \<Rightarrow> tunnel list \<Rightarrow> forward list \<Rightarrow> tunnel_runtime list \<times> forward_runtime list" where
  "scopeConfigForNodeWithActiveNodes i active ts fs =
    (let scoped = map (scope_one i active (group_forwards fs [])) ts
     in (concat (map fst scoped), concat (map snd scoped)))"

definition scopeConfigForNode :: "string \<Rightarrow> tunnel list \<Rightarrow> forward list \<Rightarrow> tunnel_runtime list \<times> forward_runtime list" where
  "scopeConfigForNode i ts fs = scopeConfigForNodeWithActiveNodes i None ts fs"

definition activeNodes :: "node list \<Rightarrow> node list" where
  "activeNodes ns = filter (\<lambda>n. \<not> nd_revoked n) ns"

section \<open>Which settings are copied\<close>

lemma mget_copySetting [simp]:
  "mget (Some (copySetting s k d)) k' =
     (if k' = k \<and> mget s k \<noteq> [] then mget s k else mget (Some d) k')"
  by (auto simp: copySetting_def)

definition listener_key :: "transport \<Rightarrow> string \<Rightarrow> bool" where
  "listener_key tr k \<longleftrightarrow> k = ''secret'' \<or> carries_certs tr \<and> k \<in> {''server_cert'', ''server_key''} \<or>
     tr = TransportMTLS \<and> k = ''ca_cert''"

definition dialer_key :: "transport \<Rightarrow> string \<Rightarrow> bool" where
  "dialer_key tr k \<longleftrightarrow> k \<in> {''secret'', ''server_name'', ''skip_verify''} \<or> carries_certs tr \<and> k = ''ca_cert'' \<or>
     tr = TransportMTLS \<and> k \<in> {''client_cert'', ''client_key''}"

lemma listenerSettings_get:
  "mget (listenerSettings tr s) k = (if listener_key tr k then mget s k else [])"
  by (auto simp: listenerSettings_def listener_key_def Let_def)

lemma mget_copied: "mget (Some (foldr (copySetting s) ks [])) k = (if k \<in> set ks then mget s k else [])"
  by (induction ks) auto

lemma chosen_keys: "k \<in> set ((if m then [a, b] else []) @ (if c then [d] else []) @ [e, f, g]) \<longleftrightarrow>
    k \<in> {g, f, e} \<or> c \<and> k = d \<or> m \<and> k \<in> {b, a}"
  by auto

lemma dialerSettings_get:
  "mget (dialerSettings tr s) k = (if dialer_key tr k then mget s k else [])"
proof -
  let ?ks = "(if tr = TransportMTLS then [''client_key'', ''client_cert''] else []) @
    (if carries_certs tr then [''ca_cert''] else []) @ [''skip_verify'', ''server_name'', ''secret'']"
  have "dialerSettings tr s = Some (foldr (copySetting s) ?ks [])" unfolding dialerSettings_def Let_def by (simp split: if_split)
  then show ?thesis unfolding dialer_key_def chosen_keys [symmetric] by (simp only: mget_copied)
qed

lemma listener_key_facts: "\<not> listener_key tr ''client_key''" "listener_key tr ''secret''"
  by (auto simp: listener_key_def)

lemma dialer_key_facts: "\<not> dialer_key tr ''server_key''" "dialer_key tr ''secret''"
  by (auto simp: dialer_key_def)

section \<open>What is in scope\<close>

lemma group_forwards_map:
  "map_of (group_forwards fs m) k =
     (if filter (\<lambda>f. fwd_tunnel_id f = k) fs = [] then map_of m k
      else Some ((case map_of m k of None \<Rightarrow> [] | Some l \<Rightarrow> l) @ filter (\<lambda>f. fwd_tunnel_id f = k) fs))"
  by (induction fs m rule: group_forwards.induct) (auto simp: map_simps split: option.splits)

lemma group_forwards_get:
  "(case map_of (group_forwards fs []) k of None \<Rightarrow> [] | Some l \<Rightarrow> l) = filter (\<lambda>f. fwd_tunnel_id f = k) fs"
  by (auto simp: group_forwards_map)

text \<open>The tunnel as node \<open>i\<close> sees it: without the nodes that are not active, if it is enabled, has a
  node left on every stage, and \<open>i\<close> on one of them.\<close>

definition seen_tunnel :: "string \<Rightarrow> string list option \<Rightarrow> tunnel \<Rightarrow> tunnel option" where
  "seen_tunnel i active t0 = (case (case active of None \<Rightarrow> Some t0 | Some act \<Rightarrow> filterActiveTunnelNodes t0 act) of
     None \<Rightarrow> None
   | Some t \<Rightarrow> if tun_enabled t \<and> nodeParticipatesInTunnel i t then Some t else None)"

definition seen_forwards :: "string \<Rightarrow> forward list \<Rightarrow> tunnel \<Rightarrow> forward_runtime list" where
  "seen_forwards i fs t = List.map_filter (\<lambda>f. scopeForwardRuntime i f t (the (nodeTunnelRole i t)))
     (filter (\<lambda>f. fwd_tunnel_id f = tun_id t) fs)"

lemma scope_one_eq:
  "scope_one i active (group_forwards fs []) t0 = (case seen_tunnel i active t0 of
     None \<Rightarrow> ([], []) | Some t \<Rightarrow> ([scopeTunnelRuntime i t], seen_forwards i fs t))"
  unfolding scope_one_def seen_tunnel_def seen_forwards_def group_forwards_get
  by (auto simp: nodeParticipatesInTunnel_def split: option.splits)

lemma scope_tunnel_mem:
  "tr \<in> set (fst (scopeConfigForNodeWithActiveNodes i active ts fs)) \<longleftrightarrow>
     (\<exists>t0\<in>set ts. \<exists>t. seen_tunnel i active t0 = Some t \<and> tr = scopeTunnelRuntime i t)"
  unfolding scopeConfigForNodeWithActiveNodes_def Let_def scope_one_eq
  by (force split: option.splits)

lemma map_filter_mem: "y \<in> set (List.map_filter f xs) \<longleftrightarrow> (\<exists>x\<in>set xs. f x = Some y)"
  by (induction xs) (auto simp: List.map_filter_simps split: option.splits)

lemma scope_forward_mem:
  "fr \<in> set (snd (scopeConfigForNodeWithActiveNodes i active ts fs)) \<longleftrightarrow>
     (\<exists>t0\<in>set ts. \<exists>t. seen_tunnel i active t0 = Some t \<and> fr \<in> set (seen_forwards i fs t))"
  unfolding scopeConfigForNodeWithActiveNodes_def Let_def scope_one_eq
  by (force split: option.splits)

lemma filter_active_stages_nth:
  assumes "filter_active_stages act ss = Some ss'"
  shows "length ss' = length ss"
    and "k < length ss \<Longrightarrow> ss' ! k = keep_active act (ss ! k) \<and> stg_nodes (ss' ! k) \<noteq> []"
proof -
  have "length ss' = length ss \<and>
      (\<forall>k<length ss. ss' ! k = keep_active act (ss ! k) \<and> stg_nodes (ss' ! k) \<noteq> [])"
    using assms
  proof (induction ss arbitrary: ss')
    case Nil
    then show ?case by simp
  next
    case (Cons s ss)
    then obtain r where "filter_active_stages act ss = Some r" "ss' = keep_active act s # r"
      "stg_nodes (keep_active act s) \<noteq> []" by (auto split: if_splits)
    with Cons.IH show ?case by (auto simp: nth_Cons split: nat.splits)
  qed
  then show "length ss' = length ss"
    "k < length ss \<Longrightarrow> ss' ! k = keep_active act (ss ! k) \<and> stg_nodes (ss' ! k) \<noteq> []"
    by auto
qed

lemma filterActive_facts:
  assumes "filterActiveTunnelNodes t0 act = Some t"
  shows "t = t0\<lparr> tun_stages := tun_stages t \<rparr>" and "length (tun_stages t) = length (tun_stages t0)"
    and "tun_stages t \<noteq> []"
    and "k < length (tun_stages t) \<Longrightarrow> tun_stages t ! k = keep_active act (tun_stages t0 ! k) \<and>
           stg_nodes (tun_stages t ! k) \<noteq> []"
proof -
  obtain ss where ss: "filter_active_stages act (tun_stages t0) = Some ss" "ss \<noteq> []" "t = t0\<lparr> tun_stages := ss \<rparr>"
    using assms by (auto simp: filterActiveTunnelNodes_def split: option.splits if_splits)
  note n = filter_active_stages_nth [OF ss(1)]
  show "t = t0\<lparr> tun_stages := tun_stages t \<rparr>" "length (tun_stages t) = length (tun_stages t0)"
    "tun_stages t \<noteq> []"
    using ss n(1) by simp_all
  show "tun_stages t ! k = keep_active act (tun_stages t0 ! k) \<and> stg_nodes (tun_stages t ! k) \<noteq> []"
    if "k < length (tun_stages t)"
    using that ss(3) n(1) n(2) [of k] by auto
qed

lemma keep_active_simps [simp]:
  "stg_id (keep_active act s) = stg_id s" "stg_index (keep_active act s) = stg_index s"
  "stg_role (keep_active act s) = stg_role s"
  "set (stg_nodes (keep_active act s)) = {n \<in> set (stg_nodes s). sn_node_id n \<in> set act}"
  by (auto simp: keep_active_def)

lemma scope_stage_nth:
  "length (trt_stages (scopeTunnelRuntime i t)) = length (tun_stages t)"
  "k < length (tun_stages t) \<Longrightarrow>
     trt_stages (scopeTunnelRuntime i t) ! k = scope_stage i t k (tun_stages t ! k)"
  by (auto simp: scopeTunnelRuntime_def nth_enumerate_eq)

lemma stage_has_iff: "stage_has i s \<longleftrightarrow> i \<in> sn_node_id ` set (stg_nodes s)"
  by (auto simp: stage_has_def list_ex_iff)

lemma participates_iff:
  "nodeParticipatesInTunnel i t \<longleftrightarrow> (\<exists>s\<in>set (tun_stages t). i \<in> sn_node_id ` set (stg_nodes s))"
  unfolding nodeParticipatesInTunnel_def nodeTunnelRole_def
  by (auto simp: find_None_iff stage_has_iff)

section \<open>Confidentiality\<close>

definition runtime_stage_has :: "string \<Rightarrow> runtime_stage \<Rightarrow> bool" where
  "runtime_stage_has i s \<longleftrightarrow> i \<in> rn_node_id ` set (rst_nodes s)"

lemma runtime_stage_has_scope [simp]: "runtime_stage_has i (scope_stage j t k s) \<longleftrightarrow> stage_has i s"
  by (force simp: runtime_stage_has_def scope_stage_def scope_node_def stage_has_iff image_iff)

lemma scope_node_settings:
  assumes "k < length (tun_stages t)" and "n \<in> set (rst_nodes (scope_stage i t k (tun_stages t ! k)))"
  shows "\<exists>x. rn_settings n = (if rn_node_id n = i then listenerSettings (tun_transport t) x
    else if k > 0 \<and> stage_has i (tun_stages t ! (k - 1)) then dialerSettings (tun_transport t) x else None)"
  using assms by (auto simp: scope_stage_def scope_node_def previousStageNodeHasNode_def)

text \<open>C9: the secrets of a tunnel reach only the nodes that use them: of the nodes in its
  configuration, a node is given the TLS server key of itself only, and a client key or the secret of
  a link only of itself or of the nodes of the stage right behind its own, which it dials; of all other
  nodes it is given no settings at all, nor the settings of the tunnel.\<close>

theorem scope_secrets:
  assumes "tr \<in> set (fst (scopeConfigForNodeWithActiveNodes i active ts fs))"
    and "k < length (trt_stages tr)" and "n \<in> set (rst_nodes (trt_stages tr ! k))"
  shows "trt_settings tr = None \<and>
    (mget (rn_settings n) ''server_key'' \<noteq> [] \<longrightarrow> rn_node_id n = i) \<and>
    (mget (rn_settings n) ''client_key'' \<noteq> [] \<longrightarrow>
       rn_node_id n \<noteq> i \<and> 0 < k \<and> runtime_stage_has i (trt_stages tr ! (k - 1))) \<and>
    (rn_settings n \<noteq> None \<longrightarrow>
       rn_node_id n = i \<or> 0 < k \<and> runtime_stage_has i (trt_stages tr ! (k - 1)))"
proof -
  from assms(1) obtain t where tr: "tr = scopeTunnelRuntime i t" by (auto simp: scope_tunnel_mem)
  with assms(2) have k: "k < length (tun_stages t)" by (simp add: scope_stage_nth)
  have st: "trt_stages tr ! k = scope_stage i t k (tun_stages t ! k)"
    "0 < k \<Longrightarrow> runtime_stage_has i (trt_stages tr ! (k - 1)) \<longleftrightarrow> stage_has i (tun_stages t ! (k - 1))"
    using k by (auto simp: tr scope_stage_nth)
  obtain x where x: "rn_settings n = (if rn_node_id n = i then listenerSettings (tun_transport t) x
    else if k > 0 \<and> stage_has i (tun_stages t ! (k - 1)) then dialerSettings (tun_transport t) x else None)"
    using scope_node_settings [OF k, of n i] assms(3) st(1) by auto
  have "trt_settings tr = None" by (simp add: tr scopeTunnelRuntime_def)
  moreover have "mget (rn_settings n) ''server_key'' \<noteq> [] \<longrightarrow> rn_node_id n = i"
    by (simp add: x dialerSettings_get dialer_key_facts)
  moreover have "mget (rn_settings n) ''client_key'' \<noteq> [] \<longrightarrow>
      rn_node_id n \<noteq> i \<and> 0 < k \<and> runtime_stage_has i (trt_stages tr ! (k - 1))"
    using st(2) by (simp add: x listenerSettings_get listener_key_facts)
  moreover have "rn_settings n \<noteq> None \<longrightarrow>
      rn_node_id n = i \<or> 0 < k \<and> runtime_stage_has i (trt_stages tr ! (k - 1))"
    using st(2) by (simp add: x)
  ultimately show ?thesis by blast
qed

lemma scope_forward_fields:
  assumes "scopeForwardRuntime i f t role = Some fr"
  shows "frt_id fr = fwd_id f" and "frt_tunnel_id fr = fwd_tunnel_id f" and "frt_enabled fr = fwd_enabled f"
    and "frt_protocols fr = forward_protocols_for i f t"
    and "role \<noteq> StageEntry \<Longrightarrow> frt_listen fr = []"
    and "role \<noteq> StageExit \<Longrightarrow> role \<noteq> StageEntry \<or> tun_type t \<noteq> TunnelDirect \<Longrightarrow>
           frt_target fr = [] \<and> frt_targets fr = []"
    and "role = StageExit \<or> role = StageEntry \<and> tun_type t = TunnelDirect \<Longrightarrow>
           frt_target fr = fwd_target f \<and> frt_targets fr = copyForwardTargets (fwd_targets f) (fwd_target f)"
  using assms by (auto simp: scopeForwardRuntime_def Let_def enum_defs split: if_splits)

lemma role_stage:
  assumes "nodeTunnelRole i t = Some role"
  obtains k where "k < length (tun_stages t)" "stage_has i (tun_stages t ! k)" "stg_role (tun_stages t ! k) = role"
  using assms by (auto simp: nodeTunnelRole_def find_Some_iff)

text \<open>the forwards a node is given belong to tunnels it is given, the address to listen on is given
  only to a node of an entry stage, and the targets only to a node of an exit stage or to the entry of
  a direct tunnel; relays in between learn neither.\<close>

theorem scope_targets:
  assumes "fr \<in> set (snd (scopeConfigForNodeWithActiveNodes i active ts fs))"
  shows "\<exists>tr\<in>set (fst (scopeConfigForNodeWithActiveNodes i active ts fs)). trt_id tr = frt_tunnel_id fr \<and>
    (\<exists>s\<in>set (trt_stages tr). runtime_stage_has i s \<and>
      (frt_listen fr \<noteq> [] \<longrightarrow> rst_role s = StageEntry) \<and>
      (frt_target fr \<noteq> [] \<or> frt_targets fr \<noteq> [] \<longrightarrow>
         rst_role s = StageExit \<or> rst_role s = StageEntry \<and> trt_type tr = TunnelDirect))"
proof -
  from assms obtain t0 t where t: "t0 \<in> set ts" "seen_tunnel i active t0 = Some t"
    and fr: "fr \<in> set (seen_forwards i fs t)" by (auto simp: scope_forward_mem)
  from t(2) have "nodeParticipatesInTunnel i t" by (auto simp: seen_tunnel_def split: option.splits if_splits)
  then obtain role where role: "nodeTunnelRole i t = Some role" by (auto simp: nodeParticipatesInTunnel_def)
  with fr obtain f where f: "scopeForwardRuntime i f t role = Some fr" "fwd_tunnel_id f = tun_id t"
    by (auto simp: seen_forwards_def map_filter_mem)
  from role obtain k where k: "k < length (tun_stages t)" "stage_has i (tun_stages t ! k)"
    "stg_role (tun_stages t ! k) = role" by (rule role_stage)
  let ?tr = "scopeTunnelRuntime i t"
  let ?s = "trt_stages ?tr ! k"
  have s: "?s \<in> set (trt_stages ?tr)" "runtime_stage_has i ?s" "rst_role ?s = role"
    using k nth_mem [of k "trt_stages ?tr"] by (simp_all add: scope_stage_nth) (simp_all add: scope_stage_def)
  have "?tr \<in> set (fst (scopeConfigForNodeWithActiveNodes i active ts fs))"
    using t by (auto simp: scope_tunnel_mem)
  moreover have "trt_id ?tr = frt_tunnel_id fr" "trt_type ?tr = tun_type t"
    using f scope_forward_fields(2) [OF f(1)] by (simp_all add: scopeTunnelRuntime_def)
  moreover have "frt_listen fr \<noteq> [] \<longrightarrow> role = StageEntry" using scope_forward_fields(5) [OF f(1)] by blast
  moreover have "frt_target fr \<noteq> [] \<or> frt_targets fr \<noteq> [] \<longrightarrow>
      role = StageExit \<or> role = StageEntry \<and> tun_type t = TunnelDirect"
    using scope_forward_fields(6) [OF f(1)] by blast
  ultimately show ?thesis using s by metis
qed

lemma seen_active_stage:
  assumes "seen_tunnel i (Some act) t0 = Some t" and "s \<in> set (tun_stages t)"
  shows "stg_nodes s \<noteq> [] \<and> sn_node_id ` set (stg_nodes s) \<subseteq> set act"
proof -
  from assms(1) have "filterActiveTunnelNodes t0 act = Some t"
    by (auto simp: seen_tunnel_def split: option.splits if_splits)
  moreover from assms(2) obtain k where "k < length (tun_stages t)" "s = tun_stages t ! k"
    by (auto simp: in_set_conv_nth)
  ultimately show ?thesis using filterActive_facts(4) [of t0 act t k] by auto
qed

lemma scope_inactive:
  assumes "i \<notin> set act" shows "scopeConfigForNodeWithActiveNodes i (Some act) ts fs = ([], [])"
proof -
  have "seen_tunnel i (Some act) t0 = None" for t0
  proof (rule ccontr)
    assume "seen_tunnel i (Some act) t0 \<noteq> None"
    then obtain t where t: "seen_tunnel i (Some act) t0 = Some t" by auto
    then have "nodeParticipatesInTunnel i t" by (auto simp: seen_tunnel_def split: option.splits if_splits)
    with seen_active_stage [OF t] assms show False by (auto simp: participates_iff)
  qed
  then show ?thesis by (simp add: scopeConfigForNodeWithActiveNodes_def Let_def scope_one_eq)
qed

text \<open>a node that is not active is told nothing, and appears in nobody's configuration; a tunnel
  that lost all nodes of a stage is withheld from everyone.\<close>

theorem scope_active:
  "(i \<notin> set act \<longrightarrow> scopeConfigForNodeWithActiveNodes i (Some act) ts fs = ([], [])) \<and>
   (\<forall>tr\<in>set (fst (scopeConfigForNodeWithActiveNodes i (Some act) ts fs)). \<forall>s\<in>set (trt_stages tr).
      rst_nodes s \<noteq> [] \<and> rn_node_id ` set (rst_nodes s) \<subseteq> set act)"
proof -
  let ?r = "scopeConfigForNodeWithActiveNodes i (Some act) ts fs"
  have "rst_nodes s \<noteq> [] \<and> rn_node_id ` set (rst_nodes s) \<subseteq> set act"
    if "tr \<in> set (fst ?r)" "s \<in> set (trt_stages tr)" for tr s
  proof -
    from that(1) obtain t0 t where t: "seen_tunnel i (Some act) t0 = Some t" "tr = scopeTunnelRuntime i t"
      by (auto simp: scope_tunnel_mem)
    with that(2) obtain k where "k < length (tun_stages t)" "s = scope_stage i t k (tun_stages t ! k)"
      by (auto simp: in_set_conv_nth scope_stage_nth)
    with seen_active_stage [OF t(1), of "tun_stages t ! k"] show ?thesis
      by (auto simp: scope_stage_def scope_node_def)
  qed
  then show ?thesis using scope_inactive by blast
qed

section \<open>Witnesses\<close>

definition ex_stage_node :: "string \<Rightarrow> stage_node" where
  "ex_stage_node i = zero_stage_node\<lparr> sn_node_id := i, sn_weight := 1, sn_listen := '':7000'',
     sn_public := ''10.0.0.1:7000'', sn_settings := Some [(''secret'', ''x''), (''server_key'', ''k'')] \<rparr>"

definition ex_stages :: "tunnel_stage list" where
  "ex_stages =
    [zero_stage\<lparr> stg_index := 0, stg_role := StageEntry, stg_nodes := [ex_stage_node ''a''] \<rparr>,
     zero_stage\<lparr> stg_index := 1, stg_role := StageExit, stg_nodes := [ex_stage_node ''b'', ex_stage_node ''c''] \<rparr>]"

definition ex_chain :: tunnel where
  "ex_chain = zero_tunnel\<lparr> tun_id := ''t'', tun_type := TunnelChain, tun_transport := TransportTLS,
     tun_enabled := True, tun_stages := ex_stages \<rparr>"

definition ex_chain_forward :: forward where
  "ex_chain_forward = \<lparr> fwd_id = ''f'', fwd_name = ''f'', fwd_tunnel_id = ''t'', fwd_protocols = [ProtoTCP],
     fwd_listen = '':8080'', fwd_target = ''10.0.0.9:80'', fwd_targets = [], fwd_strategy = ''single'',
     fwd_tcp_strategy = [], fwd_udp_strategy = [], fwd_enabled = True, fwd_created_at = 0,
     fwd_updated_at = 0 \<rparr>"

theorem scope_secrets_witness:
  "\<exists>tr n. tr \<in> set (fst (scopeConfigForNodeWithActiveNodes ''b'' (Some [''a'', ''b'', ''c'']) [ex_chain] [])) \<and>
     n \<in> set (rst_nodes (trt_stages tr ! 1)) \<and> rn_node_id n = ''c'' \<and> mget (rn_settings n) ''server_key'' = []"
proof -
  let ?r = "fst (scopeConfigForNodeWithActiveNodes ''b'' (Some [''a'', ''b'', ''c'']) [ex_chain] [])"
  have l: "length ?r = 1" and s: "length (trt_stages (?r ! 0)) = 2"
    and n: "length (rst_nodes (trt_stages (?r ! 0) ! 1)) = 2"
    and c: "rn_node_id (rst_nodes (trt_stages (?r ! 0) ! 1) ! 1) = ''c''" by code_simp+
  have "?r ! 0 \<in> set ?r" using l by (intro nth_mem) simp
  moreover have "rst_nodes (trt_stages (?r ! 0) ! 1) ! 1 \<in> set (rst_nodes (trt_stages (?r ! 0) ! 1))"
    using n by (intro nth_mem) simp
  ultimately show ?thesis
    using scope_secrets [of "?r ! 0" "''b''" _ _ _ 1 "rst_nodes (trt_stages (?r ! 0) ! 1) ! 1"] s c by force
qed

theorem scope_targets_witness:
  "\<exists>tr\<in>set (fst (scopeConfigForNodeWithActiveNodes ''c'' None [ex_chain] [ex_chain_forward])).
     trt_id tr = ''t'' \<and> (\<exists>s\<in>set (trt_stages tr). runtime_stage_has ''c'' s \<and>
       (rst_role s = StageExit \<or> trt_type tr = TunnelDirect))"
proof -
  let ?r = "snd (scopeConfigForNodeWithActiveNodes ''c'' None [ex_chain] [ex_chain_forward])"
  have l: "length ?r = 1" and t: "frt_targets (?r ! 0) \<noteq> []" "frt_tunnel_id (?r ! 0) = ''t''" by code_simp+
  have m: "?r ! 0 \<in> set ?r" using l by (intro nth_mem) simp
  from scope_targets [OF m] t show ?thesis by auto
qed

theorem scope_active_witness:
  "scopeConfigForNodeWithActiveNodes ''c'' (Some [''a'', ''b'']) [ex_chain] [ex_chain_forward] = ([], [])"
  using scope_active [of "''c''" "[''a'', ''b'']" "[ex_chain]" "[ex_chain_forward]"] by simp

end
