(* ===== verification/Compile.thy ===== *)
theory Compile
  imports Scope Sign Hub
begin

text \<open>
  Compiling the signed configuration of a node: compileConfigWithLease of
  internal/controller/server.go and what it reads, the lease it is given and the failure cooldown.
  What the store returns is an argument (\<open>config_source\<close>), each read with its own error.
\<close>

section \<open>Failure cooldown and lease\<close>

definition defaultFailureCooldown :: duration where "defaultFailureCooldown = 5 * second"

definition currentFailureCooldown :: "duration \<Rightarrow> duration" where
  "currentFailureCooldown stored = (if stored \<le> 0 then defaultFailureCooldown else stored)"

definition setFailureCooldown :: "duration \<Rightarrow> duration" where
  "setFailureCooldown next = (if next \<le> 0 then defaultFailureCooldown else next)"

definition configLeaseForNode :: "hub \<Rightarrow> string \<Rightarrow> duration" where
  "configLeaseForNode h node =
    (if SupportsLongConfigLease h node then relay_config_lease else legacy_relay_config_lease)"

text \<open>The argument is the value of the request's header.\<close>

definition configLeaseForRequest :: "string \<Rightarrow> duration" where
  "configLeaseForRequest header =
    (if equal_fold (trim_space header) ''true'' then relay_config_lease else legacy_relay_config_lease)"

section \<open>Compiling\<close>

definition signingKeySetting :: string where "signingKeySetting = ''config_signing_private_key''"
definition signingPubSetting :: string where "signingPubSetting = ''config_signing_public_key''"

record 'e config_source =
  src_nodes :: "'e + node list"
  src_tunnels :: "'e + tunnel list"
  src_forwards :: "'e + forward list"
  src_revision :: "'e + int"
  src_setting :: "string \<Rightarrow> 'e + string option"

datatype 'e compile_error = StoreFailed 'e | SignFailed sign_error

definition readE :: "'e + 'a \<Rightarrow> 'e compile_error + 'a" where
  "readE r = (case r of Inl e \<Rightarrow> Inl (StoreFailed e) | Inr x \<Rightarrow> Inr x)"

definition signE :: "sign_error + 'a \<Rightarrow> 'e compile_error + 'a" where
  "signE r = (case r of Inl e \<Rightarrow> Inl (SignFailed e) | Inr x \<Rightarrow> Inr x)"

definition setting_value :: "string option \<Rightarrow> string" where
  "setting_value v = (case v of None \<Rightarrow> [] | Some s \<Rightarrow> s)"

definition activeNodeIDs :: "node list \<Rightarrow> string list" where
  "activeNodeIDs ns = map nd_id (filter (\<lambda>n. \<not> nd_revoked n) ns)"

definition unsigned_config ::
  "string \<Rightarrow> string list \<Rightarrow> tunnel list \<Rightarrow> forward list \<Rightarrow> int \<Rightarrow> time \<Rightarrow> duration \<Rightarrow> duration \<Rightarrow> relay_config" where
  "unsigned_config node act ts fs rv now cooldown lease =
    (let scoped = scopeConfigForNodeWithActiveNodes node (Some act) ts fs in
     \<lparr> rc_revision = rv, rc_issued_at = now, rc_node_id = node, rc_nodes = [],
       rc_tunnels = fst scoped, rc_forwards = snd scoped,
       rc_cooldown_seconds = cooldown div second, rc_expires_at = now + lease \<rparr>)"

definition compileConfigWithLease ::
  "ed_sign \<Rightarrow> (relay_config \<Rightarrow> string option) \<Rightarrow> 'e config_source \<Rightarrow> duration \<Rightarrow> time \<Rightarrow> string \<Rightarrow> duration \<Rightarrow>
     'e compile_error + signed_config" where
  "compileConfigWithLease sign json src cooldown now node lease =
     bindE (readE (src_nodes src)) (\<lambda>nodes.
     bindE (readE (src_tunnels src)) (\<lambda>tunnels.
     bindE (readE (src_forwards src)) (\<lambda>forwards.
     bindE (readE (src_revision src)) (\<lambda>rv.
       let cfg = unsigned_config node (activeNodeIDs nodes) tunnels forwards rv now
                   (currentFailureCooldown cooldown) lease in
       bindE (readE (src_setting src signingKeySetting)) (\<lambda>priv.
       bindE (readE (src_setting src signingPubSetting)) (\<lambda>pub.
       bindE (signE (SignJSON sign json (setting_value priv) cfg)) (\<lambda>sig.
         Inr \<lparr> sc_config = cfg, sc_signature = sig, sc_key_id = setting_value pub \<rparr>)))))))"

definition compileConfig ::
  "ed_sign \<Rightarrow> (relay_config \<Rightarrow> string option) \<Rightarrow> 'e config_source \<Rightarrow> duration \<Rightarrow> time \<Rightarrow> string \<Rightarrow>
     'e compile_error + signed_config" where
  "compileConfig sign json src cooldown now node =
     compileConfigWithLease sign json src cooldown now node relay_config_lease"

section \<open>What a compiled configuration is\<close>

lemma readE_Inr [err_simps]: "readE r = Inr x \<longleftrightarrow> r = Inr x"
  by (auto simp: readE_def split: sum.splits)

lemma signE_Inr [err_simps]: "signE r = Inr x \<longleftrightarrow> r = Inr x"
  by (auto simp: signE_def split: sum.splits)

lemma compile_Inr:
  assumes "compileConfigWithLease sign json src cooldown now node lease = Inr sc"
  obtains nodes tunnels forwards rv priv where
    "src_nodes src = Inr nodes" "src_tunnels src = Inr tunnels" "src_forwards src = Inr forwards"
    "src_revision src = Inr rv" "src_setting src signingKeySetting = Inr priv"
    "sc_config sc = unsigned_config node (activeNodeIDs nodes) tunnels forwards rv now
       (currentFailureCooldown cooldown) lease"
    "SignJSON sign json (setting_value priv) (sc_config sc) = Inr (sc_signature sc)"
  using assms unfolding compileConfigWithLease_def Let_def
  by (auto simp: err_simps)

lemma lease_cases: "configLeaseForNode h n \<in> {relay_config_lease, legacy_relay_config_lease}"
  "configLeaseForRequest header \<in> {relay_config_lease, legacy_relay_config_lease}"
  by (simp_all add: configLeaseForNode_def configLeaseForRequest_def)

lemma activeNodeIDs_mem: "i \<in> set (activeNodeIDs ns) \<longleftrightarrow> (\<exists>n\<in>set ns. nd_id n = i \<and> \<not> nd_revoked n)"
  by (auto simp: activeNodeIDs_def)

end
