(* ===== verification/StoreTunnels.thy ===== *)
theory StoreTunnels
  imports StoreNodes
begin

text \<open>
  internal/controller/store/store.go, tunnels with their stages and stage nodes, forwards with their
  targets, and the port allocations both own: SaveTunnel, GetTunnel, ListTunnels, DeleteTunnel,
  SetTunnelEnabled, SaveForward, GetForward, ListForwards, DeleteForward, SetForwardEnabled.  Every
  operation that changes a configuration runs in one transaction that ends with bumpRevisionTx and
  returns the new revision.
\<close>

section \<open>Port allocations\<close>

definition alloc_slot :: "port_allocation \<Rightarrow> string \<times> string \<times> int" where
  "alloc_slot a = (pa_node_id a, pa_protocol a, pa_port a)"

fun insertAllocations :: "time \<Rightarrow> port_allocation list \<Rightarrow> db \<Rightarrow> store_error + db" where
  "insertAllocations now [] d = Inr d"
| "insertAllocations now (a # as) d =
    (let a' = a\<lparr> pa_created_at := (if pa_created_at a = zero_time then now else pa_created_at a), pa_updated_at := now \<rparr>
     in if key_used pa_id (pa_id a') (db_allocs d) then Inl (ErrUnique ''port_allocations.id'')
        else if key_used alloc_slot (alloc_slot a') (db_allocs d) then Inl (ErrUnique ''port_allocations.node_id, protocol, port'')
        else insertAllocations now as (d\<lparr> db_allocs := db_allocs d @ [a'] \<rparr>))"

definition ListPortAllocations :: "db \<Rightarrow> port_allocation list" where
  "ListPortAllocations d = order_asc pa_node_id (order_asc pa_protocol (order_asc pa_port (db_allocs d)))"

definition owned_by :: "string \<Rightarrow> string list \<Rightarrow> port_allocation \<Rightarrow> bool" where
  "owned_by kind ids a \<longleftrightarrow> pa_owner_kind a = kind \<and> pa_owner_id a \<in> set ids"

section \<open>Saving a tunnel\<close>

definition stage_slot :: "tunnel_stage \<Rightarrow> string \<times> int" where
  "stage_slot s = (stg_tunnel_id s, stg_index s)"

definition stage_node_row :: "time \<Rightarrow> string \<Rightarrow> string \<Rightarrow> stage_node \<Rightarrow> stage_node" where
  "stage_node_row now tid sid n =
    n\<lparr> sn_tunnel_id := tid, sn_stage_id := sid, sn_weight := (if sn_weight n \<le> 0 then 1 else sn_weight n),
       sn_created_at := (if sn_created_at n = zero_time then now else sn_created_at n), sn_updated_at := now \<rparr>"

definition stage_row :: "time \<Rightarrow> string \<Rightarrow> tunnel_stage \<Rightarrow> tunnel_stage" where
  "stage_row now tid s =
    s\<lparr> stg_tunnel_id := tid, stg_strategy := (if stg_strategy s = [] then ''single'' else stg_strategy s), stg_nodes := [],
       stg_created_at := (if stg_created_at s = zero_time then now else stg_created_at s), stg_updated_at := now \<rparr>"

type_synonym nonces = "string \<Rightarrow> string \<Rightarrow> string option"

fun insert_stage_nodes :: "vault \<Rightarrow> nonces \<Rightarrow> time \<Rightarrow> string \<Rightarrow> string \<Rightarrow> stage_node list \<Rightarrow> db \<Rightarrow> store_error + db" where
  "insert_stage_nodes va rand now tid sid [] d = Inr d"
| "insert_stage_nodes va rand now tid sid (n # ns) d =
    (let aad = ''stage-node:'' @ sn_id n in
     bindE (secretE (protectSettings (va_seal va) (va_open va) (va_secret_key va) (rand aad) (emptyMap (sn_settings n)) aad))
       (\<lambda>(p, _).
         if key_used sn_id (sn_id n) (db_stage_nodes d) then Inl (ErrUnique ''tunnel_stage_nodes.id'')
         else insert_stage_nodes va rand now tid sid ns
           (d\<lparr> db_stage_nodes := db_stage_nodes d @ [(stage_node_row now tid sid n)\<lparr> sn_settings := p \<rparr>] \<rparr>)))"

fun insert_stages :: "vault \<Rightarrow> nonces \<Rightarrow> time \<Rightarrow> string \<Rightarrow> tunnel_stage list \<Rightarrow> db \<Rightarrow> store_error + db" where
  "insert_stages va rand now tid [] d = Inr d"
| "insert_stages va rand now tid (s # ss) d =
    (let r = stage_row now tid s in
     if key_used stg_id (stg_id r) (db_stages d) then Inl (ErrUnique ''tunnel_stages.id'')
     else if key_used stage_slot (stage_slot r) (db_stages d) then Inl (ErrUnique ''tunnel_stages.tunnel_id, stage_index'')
     else bindE (insert_stage_nodes va rand now tid (stg_id s) (stg_nodes s) (d\<lparr> db_stages := db_stages d @ [r] \<rparr>))
       (insert_stages va rand now tid ss))"

definition tunnel_node_ids :: "string \<Rightarrow> db \<Rightarrow> string list" where
  "tunnel_node_ids tid d = map sn_id (filter (\<lambda>n. sn_tunnel_id n = tid) (db_stage_nodes d))"

definition clear_tunnel_stages :: "string \<Rightarrow> db \<Rightarrow> db" where
  "clear_tunnel_stages tid d =
    d\<lparr> db_allocs := delete_where (owned_by ''tunnel_stage_node'' (tunnel_node_ids tid d)) (db_allocs d),
       db_stage_nodes := delete_where (\<lambda>n. sn_tunnel_id n = tid) (db_stage_nodes d),
       db_stages := delete_where (\<lambda>s. stg_tunnel_id s = tid) (db_stages d) \<rparr>"

definition SaveTunnel ::
    "vault \<Rightarrow> nonces \<Rightarrow> time \<Rightarrow> tunnel \<Rightarrow> port_allocation list \<Rightarrow> db \<Rightarrow> store_error + (int \<times> db)" where
  "SaveTunnel va rand now t as d =
    (let aad = ''tunnel:'' @ tun_id t;
         created = (if tun_created_at t = zero_time then now else tun_created_at t)
     in bindE (secretE (protectSettings (va_seal va) (va_open va) (va_secret_key va) (rand aad) (emptyMap (tun_settings t)) aad)) (\<lambda>(p, _).
     let r = t\<lparr> tun_settings := p, tun_stages := [], tun_created_at := created, tun_updated_at := now \<rparr>;
         d1 = d\<lparr> db_tunnels := upsert tun_id (\<lambda>old. r\<lparr> tun_created_at := tun_created_at old \<rparr>) r (db_tunnels d) \<rparr>
     in bindE (insert_stages va rand now (tun_id t) (tun_stages t) (clear_tunnel_stages (tun_id t) d1)) (\<lambda>d2.
        bindE (insertAllocations now as d2) (\<lambda>d3. Inr (bumpRevisionTx d3)))))"

section \<open>Reading tunnels\<close>

definition scanTunnel :: "vault \<Rightarrow> tunnel \<Rightarrow> store_error + tunnel" where
  "scanTunnel va r =
    bindE (secretE (unprotectSettings (va_open va) (va_secret_key va) (tun_settings r) (''tunnel:'' @ tun_id r)))
      (\<lambda>m. Inr (r\<lparr> tun_settings := m \<rparr>))"

definition scanTunnelStageNode :: "vault \<Rightarrow> stage_node \<Rightarrow> store_error + stage_node" where
  "scanTunnelStageNode va r =
    bindE (secretE (unprotectSettings (va_open va) (va_secret_key va) (sn_settings r) (''stage-node:'' @ sn_id r)))
      (\<lambda>m. Inr (r\<lparr> sn_settings := m \<rparr>))"

definition listStageNodes :: "vault \<Rightarrow> string \<Rightarrow> db \<Rightarrow> store_error + stage_node list" where
  "listStageNodes va sid d = scan_rows (scanTunnelStageNode va) (filter (\<lambda>n. sn_stage_id n = sid) (db_stage_nodes d))"

definition loadTunnelStages :: "vault \<Rightarrow> db \<Rightarrow> tunnel \<Rightarrow> store_error + tunnel" where
  "loadTunnelStages va d t =
    bindE (scan_rows (\<lambda>s. bindE (listStageNodes va (stg_id s) d) (\<lambda>ns. Inr (s\<lparr> stg_nodes := ns \<rparr>)))
        (order_asc stg_index (filter (\<lambda>s. stg_tunnel_id s = tun_id t) (db_stages d))))
      (\<lambda>ss. Inr (t\<lparr> tun_stages := ss \<rparr>))"

definition GetTunnel :: "vault \<Rightarrow> string \<Rightarrow> db \<Rightarrow> store_error + tunnel" where
  "GetTunnel va tid d =
    (case row_with tun_id tid (db_tunnels d) of
       None \<Rightarrow> Inl ErrNoRows
     | Some r \<Rightarrow> bindE (scanTunnel va r) (loadTunnelStages va d))"

definition ListTunnels :: "vault \<Rightarrow> db \<Rightarrow> store_error + tunnel list" where
  "ListTunnels va d =
    bindE (scan_rows (scanTunnel va) (order_desc (\<lambda>t. rfc3339nano (tun_created_at t)) (db_tunnels d)))
      (scan_rows (loadTunnelStages va d))"

section \<open>Deleting and switching tunnels\<close>

definition forward_ids_of :: "string \<Rightarrow> db \<Rightarrow> string list" where
  "forward_ids_of tid d = map fwd_id (filter (\<lambda>f. fwd_tunnel_id f = tid) (db_forwards d))"

definition DeleteTunnel :: "string \<Rightarrow> bool \<Rightarrow> db \<Rightarrow> store_error + (int \<times> db)" where
  "DeleteTunnel tid force d =
    (let fids = forward_ids_of tid d in
     if fids \<noteq> [] \<and> \<not> force then Inl ErrTunnelHasForwards
     else
       let d1 = d\<lparr> db_allocs := delete_where (owned_by ''forward'' fids) (db_allocs d),
                   db_targets := delete_where (\<lambda>t. tgt_forward_id t \<in> set fids) (db_targets d) \<rparr>;
           d2 = (clear_tunnel_stages tid d1)\<lparr>
                  db_forwards := (if force then delete_where (\<lambda>f. fwd_tunnel_id f = tid) (db_forwards d) else db_forwards d) \<rparr>
       in if affected (\<lambda>t. tun_id t = tid) (db_tunnels d) = 0 then Inl ErrTunnelNotFound
          else Inr (bumpRevisionTx (d2\<lparr> db_tunnels := delete_where (\<lambda>t. tun_id t = tid) (db_tunnels d) \<rparr>)))"

definition SetTunnelEnabled :: "time \<Rightarrow> string \<Rightarrow> bool \<Rightarrow> db \<Rightarrow> store_error + (int \<times> db)" where
  "SetTunnelEnabled now tid enabled d =
    (if affected (\<lambda>t. tun_id t = tid) (db_tunnels d) = 0 then Inl ErrTunnelNotFound
     else Inr (bumpRevisionTx (d\<lparr> db_tunnels := update_where (\<lambda>t. tun_id t = tid)
       (\<lambda>t. t\<lparr> tun_enabled := enabled, tun_updated_at := now \<rparr>) (db_tunnels d) \<rparr>)))"

section \<open>Forwards\<close>

definition target_row :: "string \<Rightarrow> nat \<Rightarrow> forward_target \<Rightarrow> forward_target" where
  "target_row fid i t =
    t\<lparr> tgt_id := (if tgt_id t = [] then fid @ '':'' @ nat_str i else tgt_id t), tgt_forward_id := fid,
       tgt_weight := (if tgt_weight t \<le> 0 then 1 else tgt_weight t), tgt_position := int i \<rparr>"

fun insert_targets :: "string \<Rightarrow> nat \<Rightarrow> forward_target list \<Rightarrow> db \<Rightarrow> store_error + db" where
  "insert_targets fid i [] d = Inr d"
| "insert_targets fid i (t # ts) d =
    (let r = target_row fid i t in
     if key_used tgt_id (tgt_id r) (db_targets d) then Inl (ErrUnique ''forward_targets.id'')
     else insert_targets fid (i + 1) ts (d\<lparr> db_targets := db_targets d @ [r] \<rparr>))"

definition SaveForward :: "time \<Rightarrow> forward \<Rightarrow> port_allocation list \<Rightarrow> db \<Rightarrow> store_error + (int \<times> db)" where
  "SaveForward now f as d =
    (let created = (if fwd_created_at f = zero_time then now else fwd_created_at f);
         legacy = (case fwd_targets f of [] \<Rightarrow> trim_space (fwd_target f) | t # _ \<Rightarrow> trim_space (tgt_address t));
         r = f\<lparr> fwd_target := legacy, fwd_targets := [], fwd_created_at := created, fwd_updated_at := now \<rparr>;
         d1 = d\<lparr> db_forwards := upsert fwd_id (\<lambda>old. r\<lparr> fwd_created_at := fwd_created_at old \<rparr>) r (db_forwards d),
                 db_allocs := delete_where (owned_by ''forward'' [fwd_id f]) (db_allocs d),
                 db_targets := delete_where (\<lambda>t. tgt_forward_id t = fwd_id f) (db_targets d) \<rparr>
     in bindE (insert_targets (fwd_id f) 0 (fwd_targets f) d1) (\<lambda>d2.
        bindE (insertAllocations now as d2) (\<lambda>d3. Inr (bumpRevisionTx d3))))"

fun renumber :: "nat \<Rightarrow> forward_target list \<Rightarrow> forward_target list" where
  "renumber i [] = []"
| "renumber i (t # ts) = t\<lparr> tgt_position := int i \<rparr> # renumber (i + 1) ts"

definition loadForwardTargets :: "db \<Rightarrow> forward \<Rightarrow> forward" where
  "loadForwardTargets d f =
    (let ts = order_asc tgt_position (filter (\<lambda>t. tgt_forward_id t = fwd_id f) (db_targets d));
         ts' = (if ts = [] \<and> trim_space (fwd_target f) \<noteq> []
                then [\<lparr> tgt_id = ''legacy:'' @ fwd_id f, tgt_forward_id = fwd_id f, tgt_address = fwd_target f,
                        tgt_protocols = [], tgt_weight = 0, tgt_enabled = True, tgt_position = 0 \<rparr>]
                else ts)
     in f\<lparr> fwd_targets := renumber 0 ts' \<rparr>)"

definition GetForward :: "string \<Rightarrow> db \<Rightarrow> store_error + forward" where
  "GetForward fid d =
    (case row_with fwd_id fid (db_forwards d) of None \<Rightarrow> Inl ErrNoRows | Some r \<Rightarrow> Inr (loadForwardTargets d r))"

definition ListForwards :: "db \<Rightarrow> forward list" where
  "ListForwards d = map (loadForwardTargets d) (order_desc (\<lambda>f. rfc3339nano (fwd_created_at f)) (db_forwards d))"

definition ListForwardsByTunnel :: "string \<Rightarrow> db \<Rightarrow> forward list" where
  "ListForwardsByTunnel tid d =
    map (loadForwardTargets d) (order_desc (\<lambda>f. rfc3339nano (fwd_created_at f))
      (filter (\<lambda>f. fwd_tunnel_id f = tid) (db_forwards d)))"

definition DeleteForward :: "string \<Rightarrow> db \<Rightarrow> store_error + (int \<times> db)" where
  "DeleteForward fid d =
    (if affected (\<lambda>f. fwd_id f = fid) (db_forwards d) = 0 then Inl ErrForwardNotFound
     else Inr (bumpRevisionTx (d\<lparr> db_allocs := delete_where (owned_by ''forward'' [fid]) (db_allocs d),
       db_targets := delete_where (\<lambda>t. tgt_forward_id t = fid) (db_targets d),
       db_forwards := delete_where (\<lambda>f. fwd_id f = fid) (db_forwards d) \<rparr>)))"

definition SetForwardEnabled :: "time \<Rightarrow> string \<Rightarrow> bool \<Rightarrow> db \<Rightarrow> store_error + (int \<times> db)" where
  "SetForwardEnabled now fid enabled d =
    (if affected (\<lambda>f. fwd_id f = fid) (db_forwards d) = 0 then Inl ErrForwardNotFound
     else Inr (bumpRevisionTx (d\<lparr> db_forwards := update_where (\<lambda>f. fwd_id f = fid)
       (\<lambda>f. f\<lparr> fwd_enabled := enabled, fwd_updated_at := now \<rparr>) (db_forwards d) \<rparr>)))"

section \<open>What the loops insert\<close>

lemma bump_tables [simp]:
  "db_tunnels (snd (bumpRevisionTx d)) = db_tunnels d" "db_stages (snd (bumpRevisionTx d)) = db_stages d"
  "db_stage_nodes (snd (bumpRevisionTx d)) = db_stage_nodes d" "db_forwards (snd (bumpRevisionTx d)) = db_forwards d"
  "db_targets (snd (bumpRevisionTx d)) = db_targets d" "db_allocs (snd (bumpRevisionTx d)) = db_allocs d"
  "db_nodes (snd (bumpRevisionTx d)) = db_nodes d"
  by (simp_all add: bumpRevisionTx_def put_setting_def Let_def)

definition alloc_row :: "time \<Rightarrow> port_allocation \<Rightarrow> port_allocation" where
  "alloc_row now a = a\<lparr> pa_created_at := (if pa_created_at a = zero_time then now else pa_created_at a), pa_updated_at := now \<rparr>"

lemma alloc_row_simps [simp]:
  "pa_id (alloc_row now a) = pa_id a" "alloc_slot (alloc_row now a) = alloc_slot a"
  "pa_owner_kind (alloc_row now a) = pa_owner_kind a" "pa_owner_id (alloc_row now a) = pa_owner_id a"
  by (simp_all add: alloc_row_def alloc_slot_def)

lemma owned_by_alloc_row [simp]: "owned_by k ids (alloc_row now a) = owned_by k ids a"
  by (simp add: owned_by_def)

lemma insertAllocations_Inr:
  "insertAllocations now as d = Inr d' \<Longrightarrow> unique_by pa_id (db_allocs d) \<Longrightarrow> unique_by alloc_slot (db_allocs d) \<Longrightarrow>
     d' = d\<lparr> db_allocs := db_allocs d @ map (alloc_row now) as \<rparr> \<and> unique_by pa_id (db_allocs d') \<and> unique_by alloc_slot (db_allocs d')"
proof (induction as arbitrary: d)
  case (Cons a as)
  from Cons.prems(1) have step: "\<not> key_used pa_id (pa_id a) (db_allocs d)" "\<not> key_used alloc_slot (alloc_slot a) (db_allocs d)"
    "insertAllocations now as (d\<lparr> db_allocs := db_allocs d @ [alloc_row now a] \<rparr>) = Inr d'"
    by (auto simp: Let_def alloc_row_def alloc_slot_def split: if_splits)
  have "unique_by pa_id (db_allocs (d\<lparr> db_allocs := db_allocs d @ [alloc_row now a] \<rparr>))"
    "unique_by alloc_slot (db_allocs (d\<lparr> db_allocs := db_allocs d @ [alloc_row now a] \<rparr>))"
    using Cons.prems(2,3) step(1,2) by (auto simp: key_used_iff)
  from Cons.IH [OF step(3) this] show ?case
    by (elim conjE, intro conjI) (simp, assumption, assumption)
qed simp

definition stage_node_saved :: "vault \<Rightarrow> nonces \<Rightarrow> time \<Rightarrow> string \<Rightarrow> string \<Rightarrow> stage_node \<Rightarrow> stage_node \<Rightarrow> bool" where
  "stage_node_saved va rand now tid sid n r \<longleftrightarrow> (\<exists>p changed.
     protectSettings (va_seal va) (va_open va) (va_secret_key va) (rand (''stage-node:'' @ sn_id n)) (emptyMap (sn_settings n))
       (''stage-node:'' @ sn_id n) = Inr (p, changed) \<and>
     r = (stage_node_row now tid sid n)\<lparr> sn_settings := p \<rparr>)"

lemma stage_node_row_simps [simp]:
  "sn_id (stage_node_row now tid sid n) = sn_id n" "sn_tunnel_id (stage_node_row now tid sid n) = tid"
  "sn_stage_id (stage_node_row now tid sid n) = sid"
  by (simp_all add: stage_node_row_def)

lemma stage_node_saved_simps:
  "stage_node_saved va rand now tid sid n r \<Longrightarrow> sn_id r = sn_id n \<and> sn_tunnel_id r = tid \<and> sn_stage_id r = sid"
  by (auto simp: stage_node_saved_def)

lemma insert_stage_nodes_Inr:
  "insert_stage_nodes va rand now tid sid ns d = Inr d' \<Longrightarrow> unique_by sn_id (db_stage_nodes d) \<Longrightarrow>
     \<exists>rows. d' = d\<lparr> db_stage_nodes := db_stage_nodes d @ rows \<rparr> \<and> unique_by sn_id (db_stage_nodes d') \<and>
       list_all2 (stage_node_saved va rand now tid sid) ns rows"
proof (induction ns arbitrary: d)
  case (Cons n ns)
  from Cons.prems(1) obtain p ch where p:
      "protectSettings (va_seal va) (va_open va) (va_secret_key va) (rand (''stage-node:'' @ sn_id n)) (emptyMap (sn_settings n))
         (''stage-node:'' @ sn_id n) = Inr (p, ch)"
    and new: "\<not> key_used sn_id (sn_id n) (db_stage_nodes d)"
    and rest: "insert_stage_nodes va rand now tid sid ns
       (d\<lparr> db_stage_nodes := db_stage_nodes d @ [(stage_node_row now tid sid n)\<lparr> sn_settings := p \<rparr>] \<rparr>) = Inr d'"
    unfolding insert_stage_nodes.simps Let_def by (auto simp: err_simps split: if_splits)
  have "unique_by sn_id (db_stage_nodes (d\<lparr> db_stage_nodes := db_stage_nodes d @ [(stage_node_row now tid sid n)\<lparr> sn_settings := p \<rparr>] \<rparr>))"
    using Cons.prems(2) new by (auto simp: key_used_iff)
  from Cons.IH [OF rest this] p show ?case
    by (auto simp: stage_node_saved_def)
qed simp

definition stage_saved :: "vault \<Rightarrow> nonces \<Rightarrow> time \<Rightarrow> string \<Rightarrow> tunnel_stage \<Rightarrow> stage_node list \<Rightarrow> bool" where
  "stage_saved va rand now tid s rows \<longleftrightarrow> list_all2 (stage_node_saved va rand now tid (stg_id s)) (stg_nodes s) rows"

lemma stage_row_simps [simp]:
  "stg_id (stage_row now tid s) = stg_id s" "stg_tunnel_id (stage_row now tid s) = tid"
  "stg_index (stage_row now tid s) = stg_index s" "stg_nodes (stage_row now tid s) = []"
  "stage_slot (stage_row now tid s) = (tid, stg_index s)"
  by (simp_all add: stage_row_def stage_slot_def)

lemma insert_stages_Inr:
  "insert_stages va rand now tid ss d = Inr d' \<Longrightarrow> unique_by sn_id (db_stage_nodes d) \<Longrightarrow>
   unique_by stg_id (db_stages d) \<Longrightarrow> unique_by stage_slot (db_stages d) \<Longrightarrow>
     \<exists>nss. d' = d\<lparr> db_stages := db_stages d @ map (stage_row now tid) ss, db_stage_nodes := db_stage_nodes d @ concat nss \<rparr> \<and>
       list_all2 (stage_saved va rand now tid) ss nss \<and>
       unique_by sn_id (db_stage_nodes d') \<and> unique_by stg_id (db_stages d') \<and> unique_by stage_slot (db_stages d')"
proof (induction ss arbitrary: d)
  case Nil
  then show ?case by (intro exI [of _ "[]"]) simp
next
  case (Cons s ss)
  let ?d = "d\<lparr> db_stages := db_stages d @ [stage_row now tid s] \<rparr>"
  from Cons.prems(1) obtain d1 where new: "\<not> key_used stg_id (stg_id s) (db_stages d)"
      "\<not> key_used stage_slot (tid, stg_index s) (db_stages d)"
    and nodes: "insert_stage_nodes va rand now tid (stg_id s) (stg_nodes s) ?d = Inr d1"
    and rest: "insert_stages va rand now tid ss d1 = Inr d'"
    by (auto simp: Let_def err_simps split: if_splits)
  from insert_stage_nodes_Inr [OF nodes] Cons.prems(2) obtain rows where
    d1: "d1 = ?d\<lparr> db_stage_nodes := db_stage_nodes d @ rows \<rparr>" and u1: "unique_by sn_id (db_stage_nodes d1)"
    and rows: "stage_saved va rand now tid s rows"
    by (auto simp: stage_saved_def)
  have "unique_by stg_id (db_stages d1)" "unique_by stage_slot (db_stages d1)"
    using Cons.prems(3,4) new by (auto simp: d1 key_used_iff)
  from Cons.IH [OF rest u1 this] obtain nss where
    "d' = d1\<lparr> db_stages := db_stages d1 @ map (stage_row now tid) ss, db_stage_nodes := db_stage_nodes d1 @ concat nss \<rparr>"
    "list_all2 (stage_saved va rand now tid) ss nss"
    "unique_by sn_id (db_stage_nodes d')" "unique_by stg_id (db_stages d')" "unique_by stage_slot (db_stages d')" by blast
  with rows show ?case
    by (intro exI [of _ "rows # nss"]) (simp add: d1)
qed

lemma insert_targets_Inr:
  "insert_targets fid i ts d = Inr d' \<Longrightarrow> unique_by tgt_id (db_targets d) \<Longrightarrow>
     d' = d\<lparr> db_targets := db_targets d @ map (\<lambda>(k, t). target_row fid k t) (enumerate i ts) \<rparr> \<and>
     unique_by tgt_id (db_targets d')"
proof (induction ts arbitrary: i d)
  case (Cons t ts)
  from Cons.prems(1) have step: "\<not> key_used tgt_id (tgt_id (target_row fid i t)) (db_targets d)"
    "insert_targets fid (Suc i) ts (d\<lparr> db_targets := db_targets d @ [target_row fid i t] \<rparr>) = Inr d'"
    by (auto simp: Let_def split: if_splits)
  have "unique_by tgt_id (db_targets (d\<lparr> db_targets := db_targets d @ [target_row fid i t] \<rparr>))"
    using Cons.prems(2) step(1) by (auto simp: key_used_iff)
  from Cons.IH [OF step(2) this] show ?case
    by (elim conjE, intro conjI) (simp, assumption)
qed simp

end
