(* ===== verification/Control.thy ===== *)
theory Control
  imports NodeApi Compile StoreTunnels
begin

text \<open>
  The control connections of the nodes, internal/controller/server.go: what is pushed over them (pushConfig, pushConfigs,
  pushNodeUpdate), the life of one (handleNodeWS), and the part of handleRevokeNode that excludes them.

  The state \<open>ctl\<close> is the database, the hub, the failure cooldown, the messages written so far and the
  connections the server has closed.  A request reads the clock once.  In the step relation the stages
  of every connection interleave with each other and with the requests of the administration; what
  runs under nodeSocketMu (the check and the registration of a hello, and a revocation) is one step.
\<close>

section \<open>Pushing\<close>

record control_env =
  ce_net :: net_env
  ce_vault :: vault
  ce_now :: time
  ce_sign :: ed_sign
  ce_json :: "relay_config \<Rightarrow> string option"
  ce_write :: "nat \<Rightarrow> bool"
  ce_release :: signed_release
  ce_bump :: "bump_fault option"

record ctl =
  ct_db :: db
  ct_hub :: hub
  ct_cooldown :: duration
  ct_sent :: "(nat \<times> control_message) list"
  ct_closed :: "nat list"

definition db_source :: "vault \<Rightarrow> db \<Rightarrow> store_error config_source" where
  "db_source va d = \<lparr> src_nodes = ListNodes va d, src_tunnels = ListTunnels va d, src_forwards = Inr (ListForwards d),
     src_revision = CurrentRevision va d,
     src_setting = (\<lambda>k. bindE (GetSetting va k d) (\<lambda>(v, ok). Inr (if ok then Some v else None))) \<rparr>"

definition compile_for :: "control_env \<Rightarrow> string \<Rightarrow> duration \<Rightarrow> ctl \<Rightarrow> store_error compile_error + signed_config" where
  "compile_for env i lease s =
     compileConfigWithLease (ce_sign env) (ce_json env) (db_source (ce_vault env) (ct_db s)) (ct_cooldown s) (ce_now env) i lease"

datatype push_error = NotCompiled "store_error compile_error" | NotSent "string send_error"

definition hub_send :: "control_env \<Rightarrow> string \<Rightarrow> control_message \<Rightarrow> ctl \<Rightarrow> push_error option \<times> ctl" where
  "hub_send env i msg s =
    (case SendContext (\<lambda>c. if ce_write env c then None else Some ''write failed'') i (ct_hub s) of
       Some e \<Rightarrow> (Some (NotSent e), s)
     | None \<Rightarrow>
         (case map_of (hb_sockets (ct_hub s)) i of
            None \<Rightarrow> (None, s)
          | Some so \<Rightarrow> (None, s\<lparr> ct_sent := ct_sent s @ [(so_conn so, msg)] \<rparr>)))"

definition pushConfig :: "control_env \<Rightarrow> string \<Rightarrow> ctl \<Rightarrow> push_error option \<times> ctl" where
  "pushConfig env i s =
    (case compile_for env i (configLeaseForNode (ct_hub s) i) s of
       Inl e \<Rightarrow> (Some (NotCompiled e), s)
     | Inr signed \<Rightarrow> hub_send env i ((control ''config'')\<lparr> cm_config := Some signed \<rparr>) s)"

text \<open>The errors are logged.\<close>

definition pushConfigs :: "control_env \<Rightarrow> ctl \<Rightarrow> ctl" where
  "pushConfigs env s = fold (\<lambda>i s. snd (pushConfig env i s)) (NodeIDs (ct_hub s)) s"

definition pushNodeUpdate :: "control_env \<Rightarrow> string \<Rightarrow> ctl \<Rightarrow> ctl" where
  "pushNodeUpdate env i s =
    (case sendNodeUpdateIfNeeded (ce_vault env) (ce_release env) i (ct_db s) of
       (_, _, Some cmd) \<Rightarrow> snd (hub_send env i ((control ''update'')\<lparr> cm_update := Some cmd \<rparr>) s)
     | _ \<Rightarrow> s)"

section \<open>One connection\<close>

datatype phase = Greeting | Welcoming | Serving | Leaving | Marking | Gone

definition greet :: "control_env \<Rightarrow> nat \<Rightarrow> string \<Rightarrow> control_message \<Rightarrow> ctl \<Rightarrow> phase \<times> ctl" where
  "greet env c i hello s =
    (if cm_type hello \<noteq> ''hello'' \<or> validateNodeHello (ce_net env) i hello \<noteq> None then (Gone, s)
     else case GetNode (ce_vault env) i (ct_db s) of
       Inl _ \<Rightarrow> (Gone, s)
     | Inr n \<Rightarrow>
         if nd_revoked n \<or> \<not> nd_approved n then (Gone, s)
         else (case RegisterSocket i c (cm_long_lease hello) (ct_hub s) of
           (replaced, h) \<Rightarrow>
             (Welcoming, s\<lparr> ct_db := MarkNodeSeen (ce_now env) i (cm_system hello) (cm_version hello) (ct_db s),
                            ct_hub := h, ct_closed := ct_closed s @ (case replaced of None \<Rightarrow> [] | Some c \<Rightarrow> [c]) \<rparr>)))"

definition provision :: "control_env \<Rightarrow> string \<Rightarrow> ctl \<Rightarrow> phase \<times> ctl" where
  "provision env i s =
    (case pushConfig env i s of
       (Some _, s1) \<Rightarrow> (Leaving, s1)
     | (None, s1) \<Rightarrow> (Serving, pushNodeUpdate env i s1))"

definition take_report :: "control_env \<Rightarrow> string \<Rightarrow> control_message \<Rightarrow> ctl \<Rightarrow> ctl" where
  "take_report env i msg s =
    (case cm_report msg of None \<Rightarrow> s
     | Some r \<Rightarrow> s\<lparr> ct_db := UpdateNodeReport (ce_now env) i r (ct_db s) \<rparr>)"

definition serve :: "control_env \<Rightarrow> string \<Rightarrow> control_message \<Rightarrow> ctl \<Rightarrow> phase \<times> ctl" where
  "serve env i msg s =
    (if validateNodeControlMessage (ce_net env) i msg \<noteq> None then (Leaving, s)
     else if cm_type msg = ''heartbeat'' then
       (Serving, pushNodeUpdate env i (take_report env i msg
          (s\<lparr> ct_db := MarkNodeSeen (ce_now env) i (cm_system msg) (cm_version msg) (ct_db s) \<rparr>)))
     else if cm_type msg = ''pull_config'' then (Serving, snd (pushConfig env i s))
     else if cm_type msg = ''update_status'' then (Serving, take_report env i msg s)
     else (Serving, s))"

definition leave :: "nat \<Rightarrow> string \<Rightarrow> ctl \<Rightarrow> phase \<times> ctl" where
  "leave c i s =
    (case UnregisterSocket i c (ct_hub s) of
       (True, h) \<Rightarrow> (Marking, s\<lparr> ct_hub := h \<rparr>)
     | (False, h) \<Rightarrow> (Gone, s\<lparr> ct_hub := h \<rparr>))"

definition mark_offline :: "control_env \<Rightarrow> string \<Rightarrow> ctl \<Rightarrow> phase \<times> ctl" where
  "mark_offline env i s = (Gone, s\<lparr> ct_db := MarkNodeOffline (ce_now env) i (ct_db s) \<rparr>)"

section \<open>Revoking\<close>

definition close_node :: "string \<Rightarrow> ctl \<Rightarrow> ctl" where
  "close_node i s = s\<lparr> ct_closed := ct_closed s @ (case hub_Close i (ct_hub s) of None \<Rightarrow> [] | Some c \<Rightarrow> [c]) \<rparr>"

text \<open>The part under nodeSocketMu, with \<open>revokeErr\<close> and \<open>revisionErr\<close>: a node whose revision cannot be
  bumped is revoked and disconnected all the same.\<close>

definition revoke :: "control_env \<Rightarrow> string \<Rightarrow> ctl \<Rightarrow> (store_error option \<times> store_error option) \<times> ctl" where
  "revoke env i s =
    (case RevokeNode (ce_now env) i (ct_db s) of
       Inl e \<Rightarrow> ((Some e, None), s)
     | Inr d \<Rightarrow>
         (case BumpRevision (ce_bump env) d of
            ((r, None), d1) \<Rightarrow>
              ((None, None), close_node i (snd (pushConfig env i (s\<lparr> ct_db := d1, ct_hub := SetRevision r (ct_hub s) \<rparr>))))
          | ((r, Some e), d1) \<Rightarrow> ((None, Some e), close_node i (s\<lparr> ct_db := d1 \<rparr>))))"

lemma revoke_Inl: "RevokeNode (ce_now env) i (ct_db s) = Inl e \<Longrightarrow> revoke env i s = ((Some e, None), s)"
  by (simp add: revoke_def)

lemma revoke_stored:
  "RevokeNode (ce_now env) i (ct_db s) = Inr d \<Longrightarrow> ce_bump env = None \<Longrightarrow> revoke env i s =
     ((None, None), close_node i (snd (pushConfig env i
        (s\<lparr> ct_db := snd (bumpRevisionTx d), ct_hub := SetRevision (fst (bumpRevisionTx d)) (ct_hub s) \<rparr>))))"
  by (simp add: revoke_def BumpRevision_stored)

lemma revoke_failed:
  assumes "RevokeNode (ce_now env) i (ct_db s) = Inr d" and "ce_bump env \<noteq> None"
  obtains e where "revoke env i s = ((None, Some e), close_node i (s\<lparr> ct_db := d \<rparr>))"
  using BumpRevision_failed [OF assms(2), of d] that by (auto simp: revoke_def assms(1))

section \<open>All connections\<close>

record control_state =
  cs_ctl :: ctl
  cs_conns :: "nat \<Rightarrow> (string \<times> phase) option"

definition revoked_row :: "string \<Rightarrow> db \<Rightarrow> bool" where
  "revoked_row i d \<longleftrightarrow> (\<exists>r\<in>set (db_nodes d). ndr_id r = i \<and> nd_revoked (ndr_node r))"

text \<open>Any other request: it registers no connection and revokes nobody.\<close>

definition elsewhere :: "ctl \<Rightarrow> ctl \<Rightarrow> bool" where
  "elsewhere s s' \<longleftrightarrow> hb_sockets (ct_hub s') = hb_sockets (ct_hub s) \<and> set (ct_closed s) \<subseteq> set (ct_closed s') \<and>
     (\<forall>i. revoked_row i (ct_db s') \<longrightarrow> revoked_row i (ct_db s)) \<and>
     (unique_by ndr_id (db_nodes (ct_db s)) \<longrightarrow> unique_by ndr_id (db_nodes (ct_db s')))"

abbreviation moved :: "control_state \<Rightarrow> nat \<Rightarrow> string \<Rightarrow> phase \<times> ctl \<Rightarrow> control_state" where
  "moved s c i r \<equiv> \<lparr> cs_ctl = snd r, cs_conns = (cs_conns s)(c \<mapsto> (i, fst r)) \<rparr>"

inductive control_step :: "control_state \<Rightarrow> control_state \<Rightarrow> bool" where
  accept: "cs_conns s c = None \<Longrightarrow> control_step s (s\<lparr> cs_conns := (cs_conns s)(c \<mapsto> (i, Greeting)) \<rparr>)"
| no_hello: "cs_conns s c = Some (i, Greeting) \<Longrightarrow> control_step s (moved s c i (Gone, cs_ctl s))"
| hello: "cs_conns s c = Some (i, Greeting) \<Longrightarrow> control_step s (moved s c i (greet env c i msg (cs_ctl s)))"
| provision: "cs_conns s c = Some (i, Welcoming) \<Longrightarrow> control_step s (moved s c i (provision env i (cs_ctl s)))"
| message: "cs_conns s c = Some (i, Serving) \<Longrightarrow> control_step s (moved s c i (serve env i msg (cs_ctl s)))"
| broken: "cs_conns s c = Some (i, Serving) \<Longrightarrow> control_step s (moved s c i (Leaving, cs_ctl s))"
| leave: "cs_conns s c = Some (i, Leaving) \<Longrightarrow> control_step s (moved s c i (leave c i (cs_ctl s)))"
| offline: "cs_conns s c = Some (i, Marking) \<Longrightarrow> control_step s (moved s c i (mark_offline env i (cs_ctl s)))"
| revoke: "control_step s (s\<lparr> cs_ctl := snd (revoke env i (cs_ctl s)) \<rparr>)"
| other: "elsewhere (cs_ctl s) s' \<Longrightarrow> control_step s (s\<lparr> cs_ctl := s' \<rparr>)"

definition control_start :: "db \<Rightarrow> duration \<Rightarrow> control_state" where
  "control_start d wait = \<lparr> cs_ctl = \<lparr> ct_db = d, ct_hub = new_hub, ct_cooldown = wait, ct_sent = [], ct_closed = [] \<rparr>,
     cs_conns = (\<lambda>_. None) \<rparr>"

inductive control_reach :: "db \<Rightarrow> control_state \<Rightarrow> bool" for d where
  start: "control_reach d (control_start d wait)"
| step: "control_reach d s \<Longrightarrow> control_step s s' \<Longrightarrow> control_reach d s'"

section \<open>What a push leaves alone\<close>

lemma hub_send_keeps [simp]:
  "ct_db (snd (hub_send env i msg s)) = ct_db s" "ct_hub (snd (hub_send env i msg s)) = ct_hub s"
  "ct_cooldown (snd (hub_send env i msg s)) = ct_cooldown s" "ct_closed (snd (hub_send env i msg s)) = ct_closed s"
  by (simp_all add: hub_send_def split: option.split)

lemma pushConfig_keeps [simp]:
  "ct_db (snd (pushConfig env i s)) = ct_db s" "ct_hub (snd (pushConfig env i s)) = ct_hub s"
  "ct_cooldown (snd (pushConfig env i s)) = ct_cooldown s" "ct_closed (snd (pushConfig env i s)) = ct_closed s"
  by (simp_all add: pushConfig_def split: sum.split)

lemma pushNodeUpdate_keeps [simp]:
  "ct_db (pushNodeUpdate env i s) = ct_db s" "ct_hub (pushNodeUpdate env i s) = ct_hub s"
  "ct_cooldown (pushNodeUpdate env i s) = ct_cooldown s" "ct_closed (pushNodeUpdate env i s) = ct_closed s"
  by (simp_all add: pushNodeUpdate_def split: prod.split option.split)

lemma pushConfigs_keeps [simp]:
  "ct_db (pushConfigs env s) = ct_db s" "ct_hub (pushConfigs env s) = ct_hub s"
  "ct_cooldown (pushConfigs env s) = ct_cooldown s" "ct_closed (pushConfigs env s) = ct_closed s"
proof -
  have "ct_db (fold (\<lambda>i s. snd (pushConfig env i s)) is s) = ct_db s \<and> ct_hub (fold (\<lambda>i s. snd (pushConfig env i s)) is s) = ct_hub s \<and>
    ct_cooldown (fold (\<lambda>i s. snd (pushConfig env i s)) is s) = ct_cooldown s \<and>
    ct_closed (fold (\<lambda>i s. snd (pushConfig env i s)) is s) = ct_closed s" for "is" s
    by (induction "is" arbitrary: s) simp_all
  then show "ct_db (pushConfigs env s) = ct_db s" "ct_hub (pushConfigs env s) = ct_hub s"
    "ct_cooldown (pushConfigs env s) = ct_cooldown s" "ct_closed (pushConfigs env s) = ct_closed s"
    by (simp_all add: pushConfigs_def)
qed

section \<open>Revoked nodes have no open connection\<close>

lemma revoked_row_update:
  assumes "\<And>n. nd_id (f n) = nd_id n" "\<And>n. nd_revoked (f n) = nd_revoked n"
  shows "revoked_row i (update_node P f d) \<longleftrightarrow> revoked_row i d"
proof -
  let ?key = "\<lambda>r. (ndr_id r, nd_revoked (ndr_node r))"
  have k: "revoked_row i d \<longleftrightarrow> (i, True) \<in> ?key ` set (db_nodes d)" for d by (auto simp: revoked_row_def)
  have "map ?key (db_nodes (update_node P f d)) = map ?key (db_nodes d)"
    using assms by (simp add: update_where_def ndr_id_def)
  then have "set (map ?key (db_nodes (update_node P f d))) = set (map ?key (db_nodes d))" by simp
  then show ?thesis unfolding k by (simp only: set_map)
qed

lemma nd_revoked_mark_seen [simp]: "nd_revoked (mark_seen now sys v b n) = nd_revoked n"
  by (simp add: mark_seen_def)

lemma revoked_row_ops [simp]:
  "revoked_row i (MarkNodeSeen now j sys v d) \<longleftrightarrow> revoked_row i d"
  "revoked_row i (UpdateNodeReport now j rep d) \<longleftrightarrow> revoked_row i d"
  "revoked_row i (MarkNodeOffline now j d) \<longleftrightarrow> revoked_row i d"
proof -
  show "revoked_row i (MarkNodeSeen now j sys v d) \<longleftrightarrow> revoked_row i d"
    unfolding MarkNodeSeen_def Let_def by (auto simp: revoked_row_update split: option.split)
  show "revoked_row i (UpdateNodeReport now j rep d) \<longleftrightarrow> revoked_row i d"
    unfolding UpdateNodeReport_def Let_def by (rule revoked_row_update) simp_all
  show "revoked_row i (MarkNodeOffline now j d) \<longleftrightarrow> revoked_row i d"
    unfolding MarkNodeOffline_def by (rule revoked_row_update) simp_all
qed

lemma unique_ops [simp]:
  "unique_by ndr_id (db_nodes d) \<Longrightarrow> unique_by ndr_id (db_nodes (UpdateNodeReport now j rep d))"
  "unique_by ndr_id (db_nodes d) \<Longrightarrow> unique_by ndr_id (db_nodes (MarkNodeOffline now j d))"
  unfolding UpdateNodeReport_def MarkNodeOffline_def Let_def by (rule unique_update_node; simp)+

definition control_inv :: "control_state \<Rightarrow> bool" where
  "control_inv s \<longleftrightarrow> (let x = cs_ctl s in unique_by ndr_id (db_nodes (ct_db x)) \<and>
     (\<forall>i so. map_of (hb_sockets (ct_hub x)) i = Some so \<longrightarrow> revoked_row i (ct_db x) \<longrightarrow> so_conn so \<in> set (ct_closed x)))"

lemma GetNode_live:
  assumes "GetNode va i d = Inr n" and "\<not> nd_revoked n" and "unique_by ndr_id (db_nodes d)"
  shows "\<not> revoked_row i d"
proof
  assume "revoked_row i d"
  then obtain r where r: "r \<in> set (db_nodes d)" "ndr_id r = i" "nd_revoked (ndr_node r)" by (auto simp: revoked_row_def)
  then have "row_with ndr_id i (db_nodes d) = Some r" using row_with_unique [OF assms(3)] by blast
  then have "n = ndr_node r"
    using assms(1) by (auto simp: GetNode_def GetNodeWithToken_def scanNode_def err_simps)
  with r assms(2) show False by simp
qed

lemma greet_inv:
  assumes "control_inv s" shows "control_inv (moved s c i (greet env c i msg (cs_ctl s)))"
proof (cases "cm_type msg \<noteq> ''hello'' \<or> validateNodeHello (ce_net env) i msg \<noteq> None")
  case False
  show ?thesis
  proof (cases "GetNode (ce_vault env) i (ct_db (cs_ctl s))")
    case (Inr n)
    show ?thesis
    proof (cases "nd_revoked n \<or> \<not> nd_approved n")
      case live: False
      then have "\<not> revoked_row i (ct_db (cs_ctl s))"
        using GetNode_live [OF Inr] assms by (simp add: control_inv_def Let_def)
      with assms False Inr live show ?thesis
        by (auto simp: greet_def control_inv_def RegisterSocket_def Let_def map_simps unique_MarkNodeSeen split: if_splits)
    qed (use assms False Inr in \<open>auto simp: greet_def control_inv_def Let_def\<close>)
  qed (use assms False in \<open>auto simp: greet_def control_inv_def Let_def\<close>)
qed (use assms in \<open>auto simp: greet_def control_inv_def Let_def\<close>)

lemma revoke_rows:
  assumes "RevokeNode (ce_now env) i (ct_db s) = Inr d"
  shows "db_nodes (ct_db (snd (revoke env i s))) = db_nodes d"
    and "hb_sockets (ct_hub (snd (revoke env i s))) = hb_sockets (ct_hub s)"
    and "set (ct_closed (snd (revoke env i s))) = set (ct_closed s) \<union>
       (case map_of (hb_sockets (ct_hub s)) i of None \<Rightarrow> {} | Some so \<Rightarrow> {so_conn so})"
  using assms BumpRevision_failed [of "ce_bump env" d]
  by (cases "ce_bump env";
      auto simp: revoke_def BumpRevision_stored close_node_def hub_Close_def SetRevision_def bumpRevisionTx_def put_setting_def Let_def
        split: option.split)+

lemma revoke_inv:
  assumes "control_inv s" shows "control_inv (s\<lparr> cs_ctl := snd (revoke env i (cs_ctl s)) \<rparr>)"
proof (cases "RevokeNode (ce_now env) i (ct_db (cs_ctl s))")
  case (Inr d)
  have only: "revoked_row j d \<Longrightarrow> j = i \<or> revoked_row j (ct_db (cs_ctl s))" for j
    using Inr by (auto simp: RevokeNode_def revoked_row_def update_where_def ndr_id_def split: if_splits)
  have uniq: "unique_by ndr_id (db_nodes d)"
    using assms Inr by (auto simp: RevokeNode_def control_inv_def Let_def intro!: unique_update_node split: if_splits)
  let ?x = "snd (revoke env i (cs_ctl s))"
  have x: "db_nodes (ct_db ?x) = db_nodes d" "hb_sockets (ct_hub ?x) = hb_sockets (ct_hub (cs_ctl s))"
    "set (ct_closed ?x) = set (ct_closed (cs_ctl s)) \<union>
       (case map_of (hb_sockets (ct_hub (cs_ctl s))) i of None \<Rightarrow> {} | Some so \<Rightarrow> {so_conn so})"
    by (rule revoke_rows [OF Inr])+
  have same: "revoked_row j (ct_db ?x) \<longleftrightarrow> revoked_row j d" for j by (simp add: revoked_row_def x(1))
  have "so_conn so \<in> set (ct_closed ?x)"
    if "map_of (hb_sockets (ct_hub (cs_ctl s))) j = Some so" "revoked_row j d" for j so
    using only [OF that(2)] that(1) assms by (auto simp: x control_inv_def Let_def)
  with uniq show ?thesis by (simp add: control_inv_def Let_def x(1,2) same)
qed (use assms in \<open>simp add: revoke_def control_inv_def Let_def\<close>)

lemma control_step_inv: "control_step s s' \<Longrightarrow> control_inv s \<Longrightarrow> control_inv s'"
proof (induction rule: control_step.induct)
  case (hello s c i env msg)
  then show ?case by (intro greet_inv)
next
  case (provision s c i env)
  obtain e s1 where p: "pushConfig env i (cs_ctl s) = (e, s1)" by fastforce
  with pushConfig_keeps [of env i "cs_ctl s"] provision show ?case
    by (auto simp: provision_def control_inv_def Let_def split: option.splits)
next
  case (message s c i env msg)
  then show ?case
    by (auto simp: serve_def take_report_def control_inv_def Let_def unique_MarkNodeSeen split: option.splits)
next
  case (leave s c i)
  then show ?case
    by (auto simp: leave_def UnregisterSocket_def control_inv_def Let_def map_simps split: option.splits if_splits)
next
  case (revoke s env i)
  then show ?case by (intro revoke_inv)
next
  case (other s s')
  then show ?case by (auto simp: elsewhere_def control_inv_def Let_def)
qed (auto simp: control_inv_def mark_offline_def Let_def)

lemma control_reach_inv: "control_reach d s \<Longrightarrow> unique_by ndr_id (db_nodes d) \<Longrightarrow> control_inv s"
proof (induction rule: control_reach.induct)
  case (start wait)
  then show ?case by (simp add: control_inv_def control_start_def new_hub_def)
qed (rule control_step_inv)

text \<open>C11: however the connections of the nodes, their messages, their ends, and the requests of the administration
  interleave, the connection registered for a node that is revoked has been closed by the server: nodeSocketMu makes the
  check of a hello and its registration one step against a revocation, which closes what is registered.\<close>

theorem revoked_disconnected:
  assumes "control_reach d s" and "unique_by ndr_id (db_nodes d)"
    and "map_of (hb_sockets (ct_hub (cs_ctl s))) i = Some so" and "revoked_row i (ct_db (cs_ctl s))"
  shows "so_conn so \<in> set (ct_closed (cs_ctl s))"
  using control_reach_inv [OF assms(1,2)] assms(3,4) by (auto simp: control_inv_def Let_def)

text \<open>What is compiled for a revoked node carries no tunnel and no forward.\<close>

theorem revoked_config_empty:
  assumes "compile_for env i lease s = Inr sc" and "revoked_row i (ct_db s)" and "unique_by ndr_id (db_nodes (ct_db s))"
  shows "rc_tunnels (sc_config sc) = [] \<and> rc_forwards (sc_config sc) = []"
proof -
  obtain nodes tunnels forwards rv cooldown where
    n: "ListNodes (ce_vault env) (ct_db s) = Inr nodes" and
    c: "sc_config sc = unsigned_config i (activeNodeIDs nodes) tunnels forwards rv (ce_now env) cooldown lease"
    using assms(1) unfolding compile_for_def by (elim compile_Inr) (auto simp: db_source_def)
  have "i \<notin> set (activeNodeIDs nodes)"
    using revoked_not_listed [OF n assms(3)] assms(2) by (auto simp: activeNodeIDs_def revoked_row_def)
  then show ?thesis by (simp add: c unsigned_config_def Let_def scope_inactive)
qed

section \<open>A node that reconnects\<close>

definition ex_control_net :: net_env where
  "ex_control_net = \<lparr> nt_parse_url = (\<lambda>s. None), nt_url_string = url_path, nt_parse_ip = (\<lambda>s. None), nt_loopback = (\<lambda>s. False) \<rparr>"

definition ex_control_env :: control_env where
  "ex_control_env = \<lparr> ce_net = ex_control_net, ce_vault = ex_vault, ce_now = 20, ce_sign = (\<lambda>k m. m), ce_json = (\<lambda>c. None),
     ce_write = (\<lambda>c. True),
     ce_release = \<lparr> srl_manifest = \<lparr> man_version = [], man_commit = [], man_build_date = [], man_artifacts = [] \<rparr>, srl_signature = [], srl_key_id = [],
       srl_enabled = False, srl_reason = [] \<rparr>, ce_bump = None \<rparr>"

definition ex_hello :: control_message where "ex_hello = (control ''hello'')\<lparr> cm_node_id := ''n1'', cm_version := ''v1'' \<rparr>"

lemma ex_hello_valid: "cm_type ex_hello = ''hello''" "validateNodeHello nt ''n1'' ex_hello = None"
proof -
  have "validateNodeHello nt ''n1'' ex_hello = validateNodeHello ex_control_net ''n1'' ex_hello"
    by (simp add: validateNodeHello_def validateNodeHeartbeat_def validateNodeSystem_def ex_hello_def control_def no_system_def)
  also have "\<dots> = None" by code_simp
  finally show "validateNodeHello nt ''n1'' ex_hello = None" .
qed (simp add: ex_hello_def control_def)

lemma ex_node_live: "GetNode ex_vault ''n1'' ex_node_db = Inr ex_stored_node" "ndr_id r = nd_id (ndr_node r)"
proof -
  show "GetNode ex_vault ''n1'' ex_node_db = Inr ex_stored_node" by code_simp
qed (simp add: ndr_id_def)

definition ex_seen :: db where
  "ex_seen = MarkNodeSeen 20 ''n1'' no_system ''v1'' ex_node_db"

lemma ex_seen_live: "\<exists>n. GetNode ex_vault ''n1'' ex_seen = Inr n \<and> \<not> nd_revoked n \<and> nd_approved n"
proof -
  have "(case GetNode ex_vault ''n1'' ex_seen of Inl _ \<Rightarrow> False | Inr n \<Rightarrow> \<not> nd_revoked n \<and> nd_approved n)" by code_simp
  then show ?thesis by (auto split: sum.splits)
qed

lemma ex_greet:
  assumes "ct_db s \<in> {ex_node_db, ex_seen}"
  shows "greet ex_control_env c ''n1'' ex_hello s =
    (Welcoming, s\<lparr> ct_db := MarkNodeSeen 20 ''n1'' no_system ''v1'' (ct_db s),
       ct_hub := snd (RegisterSocket ''n1'' c False (ct_hub s)),
       ct_closed := ct_closed s @ (case fst (RegisterSocket ''n1'' c False (ct_hub s)) of None \<Rightarrow> [] | Some c \<Rightarrow> [c]) \<rparr>)"
proof -
  obtain n where "GetNode ex_vault ''n1'' (ct_db s) = Inr n" "\<not> nd_revoked n" "nd_approved n"
    using assms ex_node_live ex_seen_live by (auto simp: ex_stored_node_def)
  then show ?thesis
    by (simp add: greet_def ex_hello_valid) (simp add: ex_control_env_def ex_hello_def control_def split: prod.split)
qed

text \<open>The first connection is gone, the second one is registered, and then the handler of the first one
  marks the node.\<close>

lemma ex_marked:
  "\<exists>s. control_reach ex_node_db s \<and> ct_db (cs_ctl s) = ex_seen \<and> hb_sockets (ct_hub (cs_ctl s)) = [] \<and> ct_closed (cs_ctl s) = [] \<and>
     cs_conns s 2 = Some (''n1'', Marking) \<and> cs_conns s 3 = None"
proof -
  let ?env = ex_control_env
  let ?s0 = "control_start ex_node_db 0"
  let ?s1 = "?s0\<lparr> cs_conns := (cs_conns ?s0)(2 \<mapsto> (''n1'', Greeting)) \<rparr>"
  let ?s2 = "moved ?s1 2 ''n1'' (greet ?env 2 ''n1'' ex_hello (cs_ctl ?s1))"
  let ?s3 = "moved ?s2 2 ''n1'' (provision ?env ''n1'' (cs_ctl ?s2))"
  let ?s4 = "moved ?s3 2 ''n1'' (leave 2 ''n1'' (cs_ctl ?s3))"
  have r1: "control_reach ex_node_db ?s1"
    by (rule control_reach.step [OF control_reach.start control_step.accept]) (simp add: control_start_def)
  have r2: "control_reach ex_node_db ?s2" by (rule control_reach.step [OF r1 control_step.hello]) simp
  have c0: "cs_ctl ?s0 = \<lparr> ct_db = ex_node_db, ct_hub = new_hub, ct_cooldown = 0, ct_sent = [], ct_closed = [] \<rparr>"
    by (simp add: control_start_def)
  have w: "greet ?env 2 ''n1'' ex_hello (cs_ctl ?s0) = (Welcoming, \<lparr> ct_db = ex_seen,
      ct_hub = new_hub\<lparr> hb_sockets := [(''n1'', \<lparr> so_conn = 2, so_long_lease = False \<rparr>)] \<rparr>, ct_cooldown = 0, ct_sent = [], ct_closed = [] \<rparr>)"
    unfolding c0 by (subst ex_greet) (simp_all add: ex_seen_def new_hub_def RegisterSocket_def)
  have r3: "control_reach ex_node_db ?s3" by (rule control_reach.step [OF r2 control_step.provision]) (simp add: w)
  have none: "ce_json ?env = (\<lambda>c. None)" by (simp add: ex_control_env_def)
  have "compile_for ?env i lease s \<noteq> Inr sc" for i lease s sc
    by (auto simp: compile_for_def none SignJSON_def marshalE_def err_simps elim!: compile_Inr)
  then have p: "pushConfig ?env i s = (e, s') \<Longrightarrow> e \<noteq> None \<and> s' = s" for i s e s'
    by (auto simp: pushConfig_def split: sum.splits)
  then have q: "provision ?env i s = (Leaving, s)" for i s
    using p [of i s "fst (pushConfig ?env i s)" "snd (pushConfig ?env i s)"] by (auto simp: provision_def split: option.split prod.split)
  have "control_reach ex_node_db ?s4" by (rule control_reach.step [OF r3 control_step.leave]) (simp add: q)
  moreover have "leave 2 ''n1'' (cs_ctl ?s3) = (Marking, \<lparr> ct_db = ex_seen, ct_hub = new_hub, ct_cooldown = 0, ct_sent = [], ct_closed = [] \<rparr>)"
    by (simp add: q w leave_def UnregisterSocket_def new_hub_def)
  ultimately show ?thesis by (intro exI [of _ ?s4]) (simp add: new_hub_def control_start_def)
qed

text \<open>UnregisterSocket and MarkNodeOffline of an old connection are two steps; between them the node may have
  connected again, and then it is marked offline while its new connection is open and registered.\<close>

theorem reconnected_marked_offline:
  "\<exists>s so. control_reach ex_node_db s \<and> map_of (hb_sockets (ct_hub (cs_ctl s))) ''n1'' = Some so \<and>
     so_conn so \<notin> set (ct_closed (cs_ctl s)) \<and> cs_conns s (so_conn so) = Some (''n1'', Welcoming) \<and>
     (\<exists>r\<in>set (db_nodes (ct_db (cs_ctl s))). ndr_id r = ''n1'' \<and> nd_status (ndr_node r) = NodeOffline)"
proof -
  let ?env = ex_control_env
  obtain s where s: "control_reach ex_node_db s" "ct_db (cs_ctl s) = ex_seen" "hb_sockets (ct_hub (cs_ctl s)) = []"
    "ct_closed (cs_ctl s) = []" "cs_conns s 2 = Some (''n1'', Marking)" "cs_conns s 3 = None"
    using ex_marked by blast
  let ?s1 = "s\<lparr> cs_conns := (cs_conns s)(3 \<mapsto> (''n1'', Greeting)) \<rparr>"
  let ?s2 = "moved ?s1 3 ''n1'' (greet ?env 3 ''n1'' ex_hello (cs_ctl ?s1))"
  let ?s3 = "moved ?s2 2 ''n1'' (mark_offline ?env ''n1'' (cs_ctl ?s2))"
  have r1: "control_reach ex_node_db ?s1" by (rule control_reach.step [OF s(1) control_step.accept [OF s(6)]])
  have r2: "control_reach ex_node_db ?s2" by (rule control_reach.step [OF r1 control_step.hello]) simp
  have r3: "control_reach ex_node_db ?s3" by (rule control_reach.step [OF r2 control_step.offline]) (simp add: s(5))
  have "list_ex (\<lambda>r. ndr_id r = ''n1'' \<and> nd_status (ndr_node r) = NodeOffline)
      (db_nodes (MarkNodeOffline 20 ''n1'' (MarkNodeSeen 20 ''n1'' no_system ''v1'' ex_seen)))" by code_simp
  with r3 show ?thesis
    by (intro exI [of _ ?s3] exI [of _ "\<lparr> so_conn = 3, so_long_lease = False \<rparr>"])
       (simp add: s ex_greet mark_offline_def RegisterSocket_def ex_control_env_def [THEN arg_cong [where f=ce_now]] list_ex_iff)
qed

section \<open>Witnesses\<close>

lemma ex_revoked: "\<exists>d. RevokeNode 20 ''n1'' ex_seen = Inr d \<and> revoked_row ''n1'' d"
proof -
  have "(case RevokeNode 20 ''n1'' ex_seen of Inl _ \<Rightarrow> False
    | Inr d \<Rightarrow> list_ex (\<lambda>r. ndr_id r = ''n1'' \<and> nd_revoked (ndr_node r)) (db_nodes d))" by code_simp
  then show ?thesis by (auto simp: revoked_row_def list_ex_iff split: sum.splits)
qed

lemma ex_revoked_reach:
  "\<exists>s so. control_reach ex_node_db s \<and> map_of (hb_sockets (ct_hub (cs_ctl s))) ''n1'' = Some so \<and> revoked_row ''n1'' (ct_db (cs_ctl s))"
proof -
  let ?env = ex_control_env
  let ?s0 = "control_start ex_node_db 0"
  let ?s1 = "?s0\<lparr> cs_conns := (cs_conns ?s0)(2 \<mapsto> (''n1'', Greeting)) \<rparr>"
  let ?s2 = "moved ?s1 2 ''n1'' (greet ?env 2 ''n1'' ex_hello (cs_ctl ?s1))"
  let ?s3 = "?s2\<lparr> cs_ctl := snd (revoke ?env ''n1'' (cs_ctl ?s2)) \<rparr>"
  have r1: "control_reach ex_node_db ?s1"
    by (rule control_reach.step [OF control_reach.start control_step.accept]) (simp add: control_start_def)
  have r2: "control_reach ex_node_db ?s2" by (rule control_reach.step [OF r1 control_step.hello]) simp
  have r3: "control_reach ex_node_db ?s3" by (rule control_reach.step [OF r2 control_step.revoke])
  obtain d where d: "RevokeNode 20 ''n1'' ex_seen = Inr d" "revoked_row ''n1'' d" using ex_revoked by blast
  have c: "ct_db (cs_ctl ?s2) = ex_seen"
    "map_of (hb_sockets (ct_hub (cs_ctl ?s2))) ''n1'' = Some \<lparr> so_conn = 2, so_long_lease = False \<rparr>"
    by (simp_all add: control_start_def ex_greet ex_seen_def new_hub_def RegisterSocket_def)
  have now: "ce_now ?env = 20" by (simp add: ex_control_env_def)
  have so: "map_of (hb_sockets (ct_hub (cs_ctl ?s3))) ''n1'' = Some \<lparr> so_conn = 2, so_long_lease = False \<rparr>"
    and rev: "revoked_row ''n1'' (ct_db (cs_ctl ?s3))"
    using c d(2) now revoke_rows(1,2) [of ?env "''n1''" "cs_ctl ?s2" d] d(1) by (simp_all add: revoked_row_def)
  from r3 so rev show ?thesis by (intro exI [of _ ?s3] exI [of _ "\<lparr> so_conn = 2, so_long_lease = False \<rparr>"] conjI)
qed

theorem revoked_disconnected_witness:
  "\<exists>s so. control_reach ex_node_db s \<and> map_of (hb_sockets (ct_hub (cs_ctl s))) ''n1'' = Some so \<and> revoked_row ''n1'' (ct_db (cs_ctl s)) \<and>
     so_conn so \<in> set (ct_closed (cs_ctl s))"
proof -
  obtain s so where s: "control_reach ex_node_db s" "map_of (hb_sockets (ct_hub (cs_ctl s))) ''n1'' = Some so"
    "revoked_row ''n1'' (ct_db (cs_ctl s))"
    using ex_revoked_reach by blast
  have "unique_by ndr_id (db_nodes ex_node_db)" by (simp add: ex_node_db_def)
  from revoked_disconnected [OF s(1) this s(2,3)] s show ?thesis by blast
qed

end
