(* ===== verification/Install.thy ===== *)
theory Install
  imports Guard Compile
begin

text \<open>
  internal/controller/install.go without the text of the installation script: the links and the shell command a
  new node is installed with, and the update key they carry; and ensureSigningKey of server.go, which makes the
  keys that the configurations are signed with.

  The command is pasted into a shell.  \<open>sh_tokens\<close> is what the POSIX shell language says of the part of it that
  the command uses: blanks separate words, single quotes keep everything up to the next single quote, double
  quotes keep what is not special in them, and a bar separates commands.
\<close>

section \<open>Links and quoting\<close>

definition installScriptURL :: "string \<Rightarrow> string" where
  "installScriptURL controllerURL =
    (let u = trim_right_slash controllerURL in if u = [] then ''/install.sh'' else u @ ''/install.sh'')"

definition nodeBinaryURL :: "string \<Rightarrow> string" where
  "nodeBinaryURL controllerURL =
    (let u = trim_right_slash controllerURL in
     if u = [] then ''/downloads/nyarelay-node'' else u @ ''/downloads/nyarelay-node'')"

definition quote_char :: "char \<Rightarrow> string" where
  "quote_char c = (if c = CHR 0x27 then [CHR 0x27, CHR 0x22, CHR 0x27, CHR 0x22, CHR 0x27] else [c])"

definition shellQuote :: "string \<Rightarrow> string" where
  "shellQuote value =
    (if value = [] then [CHR 0x27, CHR 0x27] else [CHR 0x27] @ concat (map quote_char value) @ [CHR 0x27])"

definition installCommand :: "string \<Rightarrow> string \<Rightarrow> string \<Rightarrow> string \<Rightarrow> string \<Rightarrow> string" where
  "installCommand controllerURL nodeID token signingKey updateSigningKey =
    (let u = trim_right_slash controllerURL in
     if u = [] then []
     else ''curl -fsS '' @ shellQuote (installScriptURL u) @ '' | sudo sh -s -- --controller '' @ shellQuote u @
       '' --id '' @ shellQuote nodeID @ '' --token '' @ shellQuote token @ '' --signing-key '' @ shellQuote signingKey @
       '' --update-signing-key '' @ shellQuote updateSigningKey)"

record node_install_info =
  nii_node :: node
  nii_token :: string
  nii_script_url :: string
  nii_binary_url :: string
  nii_command :: string

definition buildNodeInstallInfo :: "string \<Rightarrow> string \<Rightarrow> string \<Rightarrow> node \<Rightarrow> string \<Rightarrow> node_install_info" where
  "buildNodeInstallInfo controllerURL signingKey updateSigningKey n token =
    \<lparr> nii_node = n, nii_token = token, nii_script_url = installScriptURL controllerURL,
      nii_binary_url = nodeBinaryURL controllerURL,
      nii_command = installCommand controllerURL (nd_id n) token signingKey updateSigningKey \<rparr>"

section \<open>The update key\<close>

text \<open>\<open>strings.Join(strings.Fields(s), "")\<close> leaves what is not white space.\<close>

function without_spaces :: "string \<Rightarrow> string" where
  "without_spaces s = (case find_prefix space_seqs s of
     Some p \<Rightarrow> without_spaces (drop (length p) s)
   | None \<Rightarrow> (case s of [] \<Rightarrow> [] | c # t \<Rightarrow> c # without_spaces t))"
  by pat_completeness auto
termination
proof (relation "measure length")
  fix s p assume "find_prefix space_seqs s = Some p"
  then have "p \<noteq> []" "length p \<le> length s" by (auto dest!: find_prefix_Some intro: prefix_length_le)
  then show "(drop (length p) s, s) \<in> measure length" by (cases p) auto
qed auto

declare without_spaces.simps [simp del]

definition loopbackControllerURL :: "net_env \<Rightarrow> string \<Rightarrow> bool" where
  "loopbackControllerURL nt value =
    (case nt_parse_url nt value of None \<Rightarrow> False
     | Some u \<Rightarrow> \<not> url_user u \<and> url_hostname u \<noteq> [] \<and> url_scheme u \<in> {''http'', ''https''} \<and>
         isLoopbackURLHost nt (url_hostname u))"

text \<open>\<open>pem key\<close> is the key as base64 of a PEM block with the PKIX encoding (crypto/x509, encoding/pem).\<close>

definition installUpdateSigningKey :: "net_env \<Rightarrow> (string \<Rightarrow> string option) \<Rightarrow> string \<Rightarrow> string \<Rightarrow> string + string" where
  "installUpdateSigningKey nt pem built_in controllerURL =
    (let encoded = without_spaces built_in in
     if encoded = [] then
       (if controllerURL = [] \<or> loopbackControllerURL nt controllerURL then Inr []
        else Inl ''node installation requires a configured update public key'')
     else case DecodePublicKey encoded of
       Inl _ \<Rightarrow> Inl ''invalid update public key''
     | Inr key \<Rightarrow> (case pem key of None \<Rightarrow> Inl ''marshal update public key'' | Some out \<Rightarrow> Inr out))"

section \<open>The signing key\<close>

datatype key_error = KeyStore store_error | KeyInvalid sign_error | KeyIncomplete | KeyMismatch | NoEntropy

definition keyE :: "store_error + 'a \<Rightarrow> key_error + 'a" where
  "keyE r = (case r of Inl e \<Rightarrow> Inl (KeyStore e) | Inr x \<Rightarrow> Inr x)"

definition decodedE :: "sign_error + 'a \<Rightarrow> key_error + 'a" where
  "decodedE r = (case r of Inl e \<Rightarrow> Inl (KeyInvalid e) | Inr x \<Rightarrow> Inr x)"

text \<open>\<open>PrivateKey.Public\<close> of crypto/ed25519: the second half of the private key.\<close>

definition ed_public :: "string \<Rightarrow> string" where "ed_public priv = drop 32 priv"

definition ensureSigningKey ::
  "vault \<Rightarrow> (string \<Rightarrow> string option) \<Rightarrow> (string \<times> string) option \<Rightarrow> db \<Rightarrow> key_error + db" where
  "ensureSigningKey va rand generated d =
     bindE (keyE (GetSetting va signingKeySetting d)) (\<lambda>(private, has_private).
     bindE (keyE (GetSetting va signingPubSetting d)) (\<lambda>(public, has_public).
     if has_private \<and> \<not> has_public then
       bindE (decodedE (DecodePrivateKey private)) (\<lambda>key.
         keyE (SetSetting va (rand signingPubSetting) signingPubSetting (EncodeKey (ed_public key)) d))
     else if \<not> has_private \<and> has_public then Inl KeyIncomplete
     else if has_private \<and> has_public then
       bindE (decodedE (DecodePrivateKey private)) (\<lambda>key.
       bindE (decodedE (DecodePublicKey public)) (\<lambda>pub.
         if ed_public key \<noteq> pub then Inl KeyMismatch else Inr d))
     else case GenerateSigningKey generated of
       None \<Rightarrow> Inl NoEntropy
     | Some (pub, priv) \<Rightarrow> keyE (SetSettings va rand [(signingKeySetting, priv), (signingPubSetting, pub)] d)))"

section \<open>What the shell reads\<close>

datatype sh_token = Sh_word string | Sh_bar

datatype sh_mode = Bare | Single | Double

definition sh_plain :: "char \<Rightarrow> bool" where
  "sh_plain c \<longleftrightarrow> c \<in> set ''ABCDEFGHIJKLMNOPQRSTUVWXYZabcdefghijklmnopqrstuvwxyz0123456789-_./:''"

definition sh_end :: "string option \<Rightarrow> sh_token list" where
  "sh_end w = (case w of None \<Rightarrow> [] | Some s \<Rightarrow> [Sh_word s])"

definition sh_word :: "string option \<Rightarrow> string" where
  "sh_word w = (case w of None \<Rightarrow> [] | Some s \<Rightarrow> s)"

fun sh_tokens :: "sh_mode \<Rightarrow> string option \<Rightarrow> string \<Rightarrow> sh_token list option" where
  "sh_tokens Bare w [] = Some (sh_end w)"
| "sh_tokens Single w [] = None"
| "sh_tokens Double w [] = None"
| "sh_tokens Bare w (c # s) =
    (if c = CHR '' '' then map_option (\<lambda>ts. sh_end w @ ts) (sh_tokens Bare None s)
     else if c = CHR ''|'' then map_option (\<lambda>ts. sh_end w @ Sh_bar # ts) (sh_tokens Bare None s)
     else if c = CHR 0x27 then sh_tokens Single (Some (sh_word w)) s
     else if c = CHR 0x22 then sh_tokens Double (Some (sh_word w)) s
     else if sh_plain c then sh_tokens Bare (Some (sh_word w @ [c])) s
     else None)"
| "sh_tokens Single w (c # s) =
    (if c = CHR 0x27 then sh_tokens Bare w s else sh_tokens Single (Some (sh_word w @ [c])) s)"
| "sh_tokens Double w (c # s) =
    (if c = CHR 0x22 then sh_tokens Bare w s
     else if c \<in> {CHR ''$'', CHR 0x60, CHR 0x5C} then None
     else sh_tokens Double (Some (sh_word w @ [c])) s)"

lemma sh_word_simps [simp]: "sh_word None = []" "sh_word (Some s) = s" "sh_end None = []" "sh_end (Some s) = [Sh_word s]"
  by (simp_all add: sh_word_def sh_end_def)

lemma sh_quoted_chars:
  "sh_tokens Single (Some w) (concat (map quote_char v) @ CHR 0x27 # s) = sh_tokens Bare (Some (w @ v)) s"
  by (induction v arbitrary: w) (auto simp: quote_char_def)

lemma sh_quoted: "sh_tokens Bare w (shellQuote v @ s) = sh_tokens Bare (Some (sh_word w @ v)) s"
  using sh_quoted_chars [of "sh_word w" v s] by (simp add: shellQuote_def)

lemma sh_quoted_end: "sh_tokens Bare w (shellQuote v) = Some [Sh_word (sh_word w @ v)]"
  using sh_quoted [of w v "[]"] by simp

text \<open>C12: the installation command is safe to paste: the shell reads it as fetching the script and piping it to
  \<open>sh\<close> with exactly the controller, node id, token and keys as arguments, one word each, whatever characters
  (quotes, blanks, dollars, line feeds) they contain; without a controller URL there is no command.\<close>

theorem install_command_words:
  "(let u = trim_right_slash controllerURL; cmd = installCommand controllerURL i token key update_key in
    if u = [] then cmd = []
    else sh_tokens Bare None cmd = Some
      [Sh_word ''curl'', Sh_word ''-fsS'', Sh_word (installScriptURL u), Sh_bar, Sh_word ''sudo'', Sh_word ''sh'', Sh_word ''-s'',
       Sh_word ''--'', Sh_word ''--controller'', Sh_word u, Sh_word ''--id'', Sh_word i, Sh_word ''--token'', Sh_word token,
       Sh_word ''--signing-key'', Sh_word key, Sh_word ''--update-signing-key'', Sh_word update_key])"
  by (simp add: installCommand_def Let_def sh_quoted sh_quoted_end sh_plain_def)

section \<open>The signing key at rest\<close>

lemma keyE_Inr [err_simps]: "keyE r = Inr x \<longleftrightarrow> r = Inr x"
  by (cases r) (simp_all add: keyE_def)

lemma decodedE_Inr [err_simps]: "decodedE r = Inr x \<longleftrightarrow> r = Inr x"
  by (cases r) (simp_all add: decodedE_def)

lemma setting_names [simp]: "signingKeySetting \<noteq> signingPubSetting" "signingPubSetting \<noteq> signingKeySetting"
  "encryptSettingValue seal aopen key nonce signingPubSetting v = Inr v"
  "decryptSettingValue aopen key signingPubSetting v = Inr v"
  by (simp_all add: signingKeySetting_def signingPubSetting_def encryptSettingValue_def decryptSettingValue_def)

definition keys_ready :: "vault \<Rightarrow> db \<Rightarrow> bool" where
  "keys_ready va d \<longleftrightarrow> (case (GetSetting va signingKeySetting d, GetSetting va signingPubSetting d) of
     (Inr (private, True), Inr (public, True)) \<Rightarrow>
       (case DecodePrivateKey private of Inl _ \<Rightarrow> False | Inr key \<Rightarrow> DecodePublicKey public = Inr (ed_public key))
   | _ \<Rightarrow> False)"

lemma ready_kept: "keys_ready va d \<Longrightarrow> ensureSigningKey va rand generated d = Inr d"
  by (auto simp: keys_ready_def ensureSigningKey_def keyE_def decodedE_def split: sum.splits bool.splits)

text \<open>crypto/ed25519.GenerateKey: a public key of 32 bytes, and a private key of 64 bytes that ends with it.\<close>

definition ed_generated :: "(string \<times> string) option \<Rightarrow> bool" where
  "ed_generated g \<longleftrightarrow> (\<forall>pub priv. g = Some (pub, priv) \<longrightarrow> length priv = 64 \<and> pub = ed_public priv)"

lemma decoded_public: "DecodePrivateKey private = Inr key \<Longrightarrow> DecodePublicKey (EncodeKey (ed_public key)) = Inr (ed_public key)"
  by (rule Decode_EncodeKey) (auto simp: DecodePrivateKey_def ed_public_def err_simps split: if_splits)

lemma stored_pair:
  assumes "SetSettings va rand [(signingKeySetting, priv), (signingPubSetting, pub)] d = Inr d'"
    and "secret_fits (va_seal va) (va_open va) (va_secret_key va) rand priv"
  shows "GetSetting va signingKeySetting d' = Inr (priv, True)" "GetSetting va signingPubSetting d' = Inr (pub, True)"
proof -
  obtain c where c: "encryptSettingValue (va_seal va) (va_open va) (va_secret_key va) (rand signingKeySetting) signingKeySetting priv = Inr c"
    "decryptSettingValue (va_open va) (va_secret_key va) signingKeySetting c = Inr priv"
    using secret_value_roundtrip [OF assms(2), of signingKeySetting "''setting:'' @ signingKeySetting"]
    by (auto simp: encryptSettingValue_def decryptSettingValue_def signingKeySetting_def)
  have "d' = put_setting signingPubSetting pub (put_setting signingKeySetting c d)"
    using assms(1) by (auto simp: SetSettings_def c err_simps)
  then show "GetSetting va signingKeySetting d' = Inr (priv, True)" "GetSetting va signingPubSetting d' = Inr (pub, True)"
    by (simp_all add: GetSetting_def put_setting_def c map_simps)
qed

text \<open>C13: when the controller has started, its two key settings are a pair: they decode, and the public key, which
  the nodes are installed with, is the one of the private key that the configurations are signed with.
  A private key that was there is kept, no other setting changes, and starting again, with whatever fresh
  key is drawn, changes nothing.\<close>

theorem signing_key_ready:
  assumes "ed_generated generated"
    and "\<And>pub priv. generated = Some (pub, priv) \<Longrightarrow>
      secret_fits (va_seal va) (va_open va) (va_secret_key va) rand (EncodeKey priv)"
    and "ensureSigningKey va rand generated d = Inr d'"
  shows "keys_ready va d' \<and> ensureSigningKey va rand' generated' d' = Inr d' \<and>
    (\<forall>k. k \<notin> {signingKeySetting, signingPubSetting} \<longrightarrow> GetSetting va k d' = GetSetting va k d) \<and>
    (\<forall>p. GetSetting va signingKeySetting d = Inr (p, True) \<longrightarrow> GetSetting va signingKeySetting d' = Inr (p, True))"
proof -
  obtain sec has_sec shown has_shown where
    p: "GetSetting va signingKeySetting d = Inr (sec, has_sec)" and
    q: "GetSetting va signingPubSetting d = Inr (shown, has_shown)"
    using assms(3) by (auto simp: ensureSigningKey_def err_simps)
  consider (derive) "has_sec" "\<not> has_shown" | (check) "has_sec" "has_shown" | (make) "\<not> has_sec" "\<not> has_shown"
    using assms(3) p q by (cases has_sec; cases has_shown) (auto simp: ensureSigningKey_def keyE_def)
  then have "keys_ready va d' \<and> (\<forall>k. k \<notin> {signingKeySetting, signingPubSetting} \<longrightarrow> GetSetting va k d' = GetSetting va k d) \<and>
    (\<forall>p. GetSetting va signingKeySetting d = Inr (p, True) \<longrightarrow> GetSetting va signingKeySetting d' = Inr (p, True))"
  proof cases
    case derive
    with assms(3) p q obtain key where k: "DecodePrivateKey sec = Inr key"
      and d': "d' = put_setting signingPubSetting (EncodeKey (ed_public key)) d"
      by (auto simp: ensureSigningKey_def SetSetting_def err_simps)
    have "GetSetting va k d' = GetSetting va k d" if "k \<noteq> signingPubSetting" for k
      using that by (simp add: d' GetSetting_def put_setting_def map_simps)
    moreover have "GetSetting va signingPubSetting d' = Inr (EncodeKey (ed_public key), True)"
      by (simp add: d' GetSetting_def put_setting_def map_simps)
    ultimately show ?thesis using p derive k decoded_public [OF k] by (simp add: keys_ready_def)
  next
    case check
    with assms(3) p q have "d' = d" "keys_ready va d"
      by (auto simp: ensureSigningKey_def keys_ready_def err_simps split: if_splits)
    then show ?thesis by simp
  next
    case make
    with assms(3) p q obtain pub priv where g: "generated = Some (pub, priv)"
      and s: "SetSettings va rand [(signingKeySetting, EncodeKey priv), (signingPubSetting, EncodeKey pub)] d = Inr d'"
      by (cases generated) (auto simp: ensureSigningKey_def GenerateSigningKey_def err_simps)
    have len: "length priv = 64" "pub = ed_public priv" using assms(1) g by (auto simp: ed_generated_def)
    have "GetSetting va k d' = GetSetting va k d" if "k \<notin> {signingKeySetting, signingPubSetting}" for k
      using that s by (auto simp: SetSettings_def GetSetting_def put_setting_def map_simps err_simps)
    with stored_pair [OF s assms(2) [OF g]] len p make show ?thesis
      by (simp add: keys_ready_def Decode_EncodeKey ed_public_def)
  qed
  with ready_kept show ?thesis by blast
qed

section \<open>Witnesses\<close>

definition ex_pair :: "(string \<times> string) option" where "ex_pair = Some (ex_pub, ex_seed @ ex_pub)"

lemma ex_pair_stores: "\<exists>d'. ensureSigningKey ex_vault (\<lambda>k. Some ex_nonce) ex_pair empty_db = Inr d'"
proof -
  have "(case ensureSigningKey ex_vault (\<lambda>k. Some ex_nonce) ex_pair empty_db of Inl _ \<Rightarrow> False | Inr _ \<Rightarrow> True)" by code_simp
  then show ?thesis by (auto split: sum.splits)
qed

lemma ex_pair_fits: "secret_fits (va_seal ex_vault) (va_open ex_vault) (va_secret_key ex_vault) (\<lambda>k. Some ex_nonce)
    (EncodeKey (ex_seed @ ex_pub))"
proof -
  have "\<not> prefix secretCipherPrefix (EncodeKey (ex_seed @ ex_pub)) \<and> length (EncodeKey (ex_seed @ ex_pub)) \<le> 100" by code_simp
  then show ?thesis
    using secret_cipher_size_small [of "length (EncodeKey (ex_seed @ ex_pub))"]
    by (simp add: secret_fits_def ex_vault_def toy_aead gcm_nonce_def secretKeyBytes_def maxSecretCipherBytes_def)
qed

theorem signing_key_ready_witness:
  "\<exists>d'. ensureSigningKey ex_vault (\<lambda>k. Some ex_nonce) ex_pair empty_db = Inr d' \<and> keys_ready ex_vault d'"
proof -
  obtain d' where d': "ensureSigningKey ex_vault (\<lambda>k. Some ex_nonce) ex_pair empty_db = Inr d'" using ex_pair_stores by blast
  have "ed_generated ex_pair" by (simp add: ed_generated_def ex_pair_def ed_public_def ex_seed_def ex_pub_def)
  from signing_key_ready [OF this _ d'] ex_pair_fits d' show ?thesis by (auto simp: ex_pair_def)
qed

end
