(* ===== verification/Ports.thy ===== *)
theory Ports
  imports Scope
begin

text \<open>
  Port bookkeeping of internal/controller/server.go (lines 1692-1914): the map of used ports built from
  the allocations in the store, the search for a free port, and the candidates of a forward's entry.
  \<open>usedPorts\<close> is a map of maps of sets and is updated in place by the code; here every function that
  marks a port returns the map it leaves.
\<close>

section \<open>Used ports\<close>

type_synonym used_ports = "(string \<times> (string \<times> int list) list) list"

definition node_ports :: "used_ports \<Rightarrow> string \<Rightarrow> (string \<times> int list) list" where
  "node_ports used i = (case map_of used i of None \<Rightarrow> [] | Some m \<Rightarrow> m)"

definition proto_ports :: "(string \<times> int list) list \<Rightarrow> string \<Rightarrow> int list" where
  "proto_ports m p = (case map_of m p of None \<Rightarrow> [] | Some ports \<Rightarrow> ports)"

definition isPortUsed :: "used_ports \<Rightarrow> string \<Rightarrow> string \<Rightarrow> int \<Rightarrow> bool" where
  "isPortUsed used i p port = List.member (proto_ports (node_ports used i) p) port"

definition markPortUsed :: "string \<Rightarrow> string \<Rightarrow> int \<Rightarrow> used_ports \<Rightarrow> used_ports" where
  "markPortUsed i p port used =
    (let m = node_ports used i in
     AList.update i (AList.update p (List.insert port (proto_ports m p)) m) used)"

fun usedPortSet_from :: "used_ports \<Rightarrow> port_allocation list \<Rightarrow> string list \<Rightarrow> used_ports" where
  "usedPortSet_from used [] excluded = used"
| "usedPortSet_from used (a # as) excluded =
    (if List.member excluded (pa_owner_id a) then usedPortSet_from used as excluded
     else usedPortSet_from (markPortUsed (pa_node_id a) (pa_protocol a) (pa_port a) used) as excluded)"

definition usedPortSet :: "port_allocation list \<Rightarrow> string list \<Rightarrow> used_ports" where
  "usedPortSet as excluded = usedPortSet_from [] as excluded"

section \<open>Ranges\<close>

datatype prepare_error =
    PTooManyStages
  | PTooManyNodes int
  | PStageEmpty nat
  | PNodeIDRequired nat
  | PNodeRepeated string
  | PNodeNotFound string
  | PUnsupportedProtocol string
  | PPortOutside int string int int
  | PPortUsed int string string
  | PNoFreePort string string
  | PNoCommonPort
  | PNoEntryNodes
  | PInvalidAddress string
  | PInvalidPort string
  | PNoAddress string
  | PNoEntryNode
  | PNoEntryForProtocols
  | PEntryNodeNotFound
  | PStageNoCandidate int string
  | PTunnelNotFound
  | PTunnelDisabled
  | PProtocolRequired
  | PTargetRequired
  | PTargetAmbiguous
  | PTooManyTargets
  | PDuplicateTarget string
  | PStoreFailed
  | PRandomFailed
  | PCertificatesFailed
  | PNilMapPanic

definition normalizedPortRange :: "node \<Rightarrow> int \<times> int" where
  "normalizedPortRange n =
    (if nd_port_min n \<le> 0 then 10000 else nd_port_min n, if nd_port_max n \<le> 0 then 65535 else nd_port_max n)"

definition ensurePortInRange :: "node \<Rightarrow> int \<Rightarrow> prepare_error option" where
  "ensurePortInRange n port = (let (lo, hi) = normalizedPortRange n in
     if port < lo \<or> port > hi then Some (PPortOutside port (nd_id n) lo hi) else None)"

definition portFromAddr :: "string \<Rightarrow> prepare_error + int" where
  "portFromAddr addr = (case split_host_port addr of
     None \<Rightarrow> Inl (PInvalidAddress addr)
   | Some (h, t) \<Rightarrow> (case atoi t of (port, ok) \<Rightarrow>
       if \<not> ok \<or> port \<le> 0 \<or> port > 65535 then Inl (PInvalidPort t) else Inr port))"

text \<open>The loops that try the ports of a range in order.\<close>

function find_port :: "(int \<Rightarrow> bool) \<Rightarrow> int \<Rightarrow> int \<Rightarrow> int option" where
  "find_port free port hi =
    (if port > hi then None else if free port then Some port else find_port free (port + 1) hi)"
  by pat_completeness auto
termination by (relation "measure (\<lambda>(free, port, hi). nat (hi + 1 - port))") auto

declare find_port.simps [simp del]

definition allocatePort :: "node \<Rightarrow> string \<Rightarrow> used_ports \<Rightarrow> prepare_error + (int \<times> used_ports)" where
  "allocatePort n p used = (let (lo, hi) = normalizedPortRange n in
     case find_port (\<lambda>port. \<not> isPortUsed used (nd_id n) p port) lo hi of
       None \<Rightarrow> Inl (PNoFreePort p (nd_id n))
     | Some port \<Rightarrow> Inr (port, markPortUsed (nd_id n) p port used))"

section \<open>The candidates of an entry\<close>

record entry_candidate =
  ec_node_id :: string
  ec_node :: node
  ec_protocols :: "protocol list"

fun portAvailableAcrossEntryCandidates :: "entry_candidate list \<Rightarrow> int \<Rightarrow> used_ports \<Rightarrow> bool" where
  "portAvailableAcrossEntryCandidates [] port used = True"
| "portAvailableAcrossEntryCandidates (c # cs) port used =
    (if ensurePortInRange (ec_node c) port \<noteq> None then False
     else if list_ex (\<lambda>p. isPortUsed used (nd_id (ec_node c)) p port) (ec_protocols c) then False
     else portAvailableAcrossEntryCandidates cs port used)"

definition mark_candidates :: "entry_candidate list \<Rightarrow> int \<Rightarrow> used_ports \<Rightarrow> used_ports" where
  "mark_candidates cs port used = fold (\<lambda>c u. fold (\<lambda>p u. markPortUsed (nd_id (ec_node c)) p port u) (ec_protocols c) u) cs used"

fun common_range :: "int \<times> int \<Rightarrow> entry_candidate list \<Rightarrow> int \<times> int" where
  "common_range (lo, hi) [] = (lo, hi)"
| "common_range (lo, hi) (c # cs) = (let (l, h) = normalizedPortRange (ec_node c) in
     common_range (if l > lo then l else lo, if h < hi then h else hi) cs)"

definition allocateSharedProtocolPortAcrossEntryCandidates ::
  "entry_candidate list \<Rightarrow> used_ports \<Rightarrow> prepare_error + (int \<times> used_ports)" where
  "allocateSharedProtocolPortAcrossEntryCandidates cs used =
    (case cs of
       [] \<Rightarrow> Inl PNoEntryNodes
     | c # cs' \<Rightarrow> (let (lo, hi) = common_range (normalizedPortRange (ec_node c)) cs' in
         case find_port (\<lambda>port. portAvailableAcrossEntryCandidates cs port used) lo hi of
           None \<Rightarrow> Inl PNoCommonPort
         | Some port \<Rightarrow> Inr (port, mark_candidates cs port used)))"

definition candidate_port_error :: "int \<Rightarrow> used_ports \<Rightarrow> entry_candidate \<Rightarrow> prepare_error option" where
  "candidate_port_error port used c = first_err
    (ensurePortInRange (ec_node c) port #
     map (\<lambda>p. fail_if (isPortUsed used (nd_id (ec_node c)) p port) (PPortUsed port p (nd_id (ec_node c))))
       (ec_protocols c))"

definition ensurePortAvailableAcrossEntryCandidates ::
  "entry_candidate list \<Rightarrow> int \<Rightarrow> used_ports \<Rightarrow> prepare_error + used_ports" where
  "ensurePortAvailableAcrossEntryCandidates cs port used =
    (if cs = [] then Inl PNoEntryNodes
     else (case first_err (map (candidate_port_error port used) cs) of
         Some e \<Rightarrow> Inl e
       | None \<Rightarrow> Inr (mark_candidates cs port used)))"

text \<open>\<open>get_node\<close> is the store's GetNode, \<open>None\<close> for an error.\<close>

fun entry_candidates_loop ::
  "(string \<Rightarrow> node option) \<Rightarrow> protocol list \<Rightarrow> stage_node list \<Rightarrow> prepare_error + entry_candidate list" where
  "entry_candidates_loop get_node ps [] = Inr []"
| "entry_candidates_loop get_node ps (n # ns) =
    (let i = trim_space (sn_node_id n); cps = filterForwardProtocols ps (sn_protocols n) in
     if i = [] \<or> cps = [] then entry_candidates_loop get_node ps ns
     else (case get_node i of
         None \<Rightarrow> Inl PEntryNodeNotFound
       | Some nd \<Rightarrow> if nd_revoked nd then Inl PEntryNodeNotFound
           else bindE (entry_candidates_loop get_node ps ns)
             (\<lambda>cs. Inr (\<lparr> ec_node_id = i, ec_node = nd, ec_protocols = cps \<rparr> # cs))))"

definition forwardEntryCandidates ::
  "(string \<Rightarrow> node option) \<Rightarrow> tunnel \<Rightarrow> protocol list \<Rightarrow> prepare_error + entry_candidate list" where
  "forwardEntryCandidates get_node t ps =
    (case tun_stages t of
       [] \<Rightarrow> Inl PNoEntryNode
     | s # ss \<Rightarrow> if stg_nodes s = [] then Inl PNoEntryNode
         else bindE (entry_candidates_loop get_node ps (stg_nodes s))
           (\<lambda>cs. if cs = [] then Inl PNoEntryForProtocols else Inr cs))"

section \<open>Facts\<close>

lemma isPortUsed_mark [simp]:
  "isPortUsed (markPortUsed i p port used) j q x \<longleftrightarrow> (i = j \<and> p = q \<and> port = x) \<or> isPortUsed used j q x"
  by (auto simp: isPortUsed_def markPortUsed_def node_ports_def proto_ports_def Let_def map_simps
      split: option.splits)

lemma usedPortSet_from_iff:
  "isPortUsed (usedPortSet_from used as excluded) i p x \<longleftrightarrow> isPortUsed used i p x \<or>
     (\<exists>a\<in>set as. pa_owner_id a \<notin> set excluded \<and> pa_node_id a = i \<and> pa_protocol a = p \<and> pa_port a = x)"
  by (induction used as excluded rule: usedPortSet_from.induct) auto

lemma usedPortSet_iff:
  "isPortUsed (usedPortSet as excluded) i p x \<longleftrightarrow>
     (\<exists>a\<in>set as. pa_owner_id a \<notin> set excluded \<and> pa_node_id a = i \<and> pa_protocol a = p \<and> pa_port a = x)"
  by (simp add: usedPortSet_def usedPortSet_from_iff) (simp add: isPortUsed_def node_ports_def proto_ports_def)

lemma find_port_Some:
  "find_port free lo hi = Some p \<longleftrightarrow> lo \<le> p \<and> p \<le> hi \<and> free p \<and> (\<forall>q. lo \<le> q \<and> q < p \<longrightarrow> \<not> free q)"
proof (induction free lo hi rule: find_port.induct)
  case (1 free lo hi)
  consider "lo > hi" | "lo \<le> hi" "free lo" | "lo \<le> hi" "\<not> free lo" by linarith
  then show ?case
  proof cases
    case 1
    then show ?thesis by (simp add: find_port.simps [of free lo hi])
  next
    case 2
    then show ?thesis
      by (auto simp: find_port.simps [of free lo hi] intro: antisym not_less_iff_gr_or_eq [THEN iffD1])
  next
    case 3
    have "find_port free lo hi = find_port free (lo + 1) hi" using 3 by (simp add: find_port.simps [of free lo hi])
    moreover have "(lo + 1 \<le> p \<and> p \<le> hi \<and> free p \<and> (\<forall>q. lo + 1 \<le> q \<and> q < p \<longrightarrow> \<not> free q)) \<longleftrightarrow>
        (lo \<le> p \<and> p \<le> hi \<and> free p \<and> (\<forall>q. lo \<le> q \<and> q < p \<longrightarrow> \<not> free q))"
      using 3 by (metis add1_zle_eq order_le_less)
    ultimately show ?thesis using 1 3 by simp
  qed
qed

lemma find_port_None: "find_port free lo hi = None \<longleftrightarrow> (\<forall>q. lo \<le> q \<and> q \<le> hi \<longrightarrow> \<not> free q)"
proof (induction free lo hi rule: find_port.induct)
  case (1 free lo hi)
  then show ?case
    by (subst find_port.simps) (auto, metis add1_zle_eq order_le_less)
qed

lemma ensurePortInRange_None:
  "ensurePortInRange n port = None \<longleftrightarrow> fst (normalizedPortRange n) \<le> port \<and> port \<le> snd (normalizedPortRange n)"
  by (auto simp: ensurePortInRange_def Let_def split: prod.splits)

lemma portAvailable_iff:
  "portAvailableAcrossEntryCandidates cs port used \<longleftrightarrow> (\<forall>c\<in>set cs. ensurePortInRange (ec_node c) port = None \<and>
     (\<forall>p\<in>set (ec_protocols c). \<not> isPortUsed used (nd_id (ec_node c)) p port))"
  by (induction cs port used rule: portAvailableAcrossEntryCandidates.induct) (auto simp: list_ex_iff)

lemma candidate_port_errors_None:
  "first_err (map (candidate_port_error port used) cs) = None \<longleftrightarrow> portAvailableAcrossEntryCandidates cs port used"
  unfolding portAvailable_iff first_err_None
  by (auto simp: candidate_port_error_def first_err_None err_simps)

lemma ensureAvailable_Inr:
  "(\<exists>u. ensurePortAvailableAcrossEntryCandidates cs port used = Inr u) \<longleftrightarrow>
     cs \<noteq> [] \<and> portAvailableAcrossEntryCandidates cs port used"
  unfolding ensurePortAvailableAcrossEntryCandidates_def candidate_port_errors_None [symmetric]
  by (auto split: option.splits)

lemma common_range_inside:
  assumes "common_range (lo, hi) cs = (l, h)"
  shows "lo \<le> l" and "h \<le> hi" and "c \<in> set cs \<Longrightarrow> fst (normalizedPortRange (ec_node c)) \<le> l \<and> h \<le> snd (normalizedPortRange (ec_node c))"
  using assms
  by (induction cs arbitrary: lo hi)
    (auto simp: Let_def split: prod.splits if_splits, fastforce+)
end
