(* ===== verification/Prepare.thy ===== *)
theory Prepare
  imports Ports Dial Validate
begin

text \<open>
  Turning a request into a tunnel or a forward: prepareTunnel, prepareForward and the functions they
  call in internal/controller/server.go (lines 1075-1700, 1916-1933).  The store is read only
  (\<open>prep_env\<close>); identifiers, secrets and certificates come from the environment, numbered by the tick
  of the draw.  Writing to a nil map panics: that is the error \<open>PNilMapPanic\<close>.
\<close>

section \<open>Requests and environment\<close>

record tunnel_request =
  trq_id :: string
  trq_name :: string
  trq_type :: tunnel_type
  trq_transport :: transport
  trq_entry_address :: "string option"
  trq_enabled :: "bool option"
  trq_settings :: settings
  trq_entry_node :: string
  trq_middle_nodes :: "string list"
  trq_exit_node :: string
  trq_stages :: "tunnel_stage list"

record forward_request =
  frq_id :: string
  frq_name :: string
  frq_tunnel_id :: string
  frq_protocols :: "protocol list"
  frq_listen :: string
  frq_target :: string
  frq_targets :: "forward_target list option"
  frq_strategy :: string
  frq_tcp_strategy :: string
  frq_udp_strategy :: string
  frq_enabled :: "bool option"

record tunnel_certificates =
  tc_ca_cert :: string
  tc_server_cert :: string
  tc_server_key :: string
  tc_client_cert :: string
  tc_client_key :: string

record prep_env =
  pe_id :: "nat \<Rightarrow> string \<Rightarrow> string"
  pe_token :: "nat \<Rightarrow> string option"
  pe_certs :: "nat \<Rightarrow> string \<Rightarrow> string \<Rightarrow> tunnel_certificates option"
  pe_parse_ip :: "string \<Rightarrow> string option"
  pe_nodes :: "node list option"
  pe_allocations :: "port_allocation list option"
  pe_get_node :: "string \<Rightarrow> node option"
  pe_get_tunnel :: "string \<Rightarrow> tunnel option"
  pe_get_forward :: "string \<Rightarrow> forward option"

section \<open>Normalising\<close>

definition known_protocol :: "protocol \<Rightarrow> bool" where
  "known_protocol p = (p = ProtoTCP \<or> p = ProtoUDP)"

definition ordered_protocols :: "protocol list \<Rightarrow> protocol list" where
  "ordered_protocols ps = (if List.member ps ProtoTCP then [ProtoTCP] else []) @
     (if List.member ps ProtoUDP then [ProtoUDP] else [])"

definition normalizeForwardProtocols :: "protocol list \<Rightarrow> prepare_error + protocol list" where
  "normalizeForwardProtocols ps = (case List.find (\<lambda>p. \<not> known_protocol p) ps of
     Some p \<Rightarrow> Inl (PUnsupportedProtocol p)
   | None \<Rightarrow> if ordered_protocols ps = [] then Inl PProtocolRequired else Inr (ordered_protocols ps))"

definition normalizeStageNodeProtocols :: "protocol list \<Rightarrow> prepare_error + protocol list" where
  "normalizeStageNodeProtocols ps =
    (if ps = [] then Inr []
     else (case List.find (\<lambda>p. \<not> known_protocol p) ps of
         Some p \<Rightarrow> Inl (PUnsupportedProtocol p) | None \<Rightarrow> Inr (ordered_protocols ps)))"

definition normalizeStageStrategyValue :: "string \<Rightarrow> string" where
  "normalizeStageStrategyValue s =
    (let k = to_lower (trim_space s) in
     if k = [] then [] else if k = ''single'' then ''single'' else if k = ''round_robin'' then ''round_robin''
     else if k = ''random'' then ''random'' else if k = ''failover'' then ''failover'' else trim_space s)"

definition normalize_target :: "prep_env \<Rightarrow> nat \<Rightarrow> string \<Rightarrow> nat \<Rightarrow> forward_target \<Rightarrow> forward_target \<times> nat" where
  "normalize_target env k fid index x =
    (let i = trim_space (tgt_id x);
         x1 = x\<lparr> tgt_forward_id := trim_space fid, tgt_id := (if i = [] then pe_id env k ''target'' else i),
                tgt_address := trim_space (tgt_address x), tgt_position := int index,
                tgt_weight := (if tgt_weight x \<le> 0 then 1 else tgt_weight x) \<rparr>
     in (x1, if i = [] then k + 1 else k))"

fun normalize_targets_loop ::
  "prep_env \<Rightarrow> nat \<Rightarrow> string \<Rightarrow> nat \<Rightarrow> string list \<Rightarrow> forward_target list \<Rightarrow>
     prepare_error + (forward_target list \<times> nat)" where
  "normalize_targets_loop env k fid index seen [] = Inr ([], k)"
| "normalize_targets_loop env k fid index seen (x # xs) =
    (let (x1, k1) = normalize_target env k fid index x in
     if List.member seen (tgt_id x1) then Inl (PDuplicateTarget (tgt_id x1))
     else bindE (normalizeStageNodeProtocols (tgt_protocols x)) (\<lambda>ps.
       bindE (normalize_targets_loop env k1 fid (index + 1) (tgt_id x1 # seen) xs) (\<lambda>(ys, k2).
         Inr (x1\<lparr> tgt_protocols := ps \<rparr> # ys, k2))))"

definition normalizeForwardTargets ::
  "prep_env \<Rightarrow> nat \<Rightarrow> string \<Rightarrow> string \<Rightarrow> forward_target list option \<Rightarrow> prepare_error + (forward_target list \<times> nat)" where
  "normalizeForwardTargets env k fid legacy requested =
    (if requested \<noteq> None \<and> trim_space legacy \<noteq> [] then Inl PTargetAmbiguous
     else (case requested of
         None \<Rightarrow>
           if trim_space legacy = [] then Inl PTargetRequired
           else normalize_targets_loop env k fid 0 []
             [(legacy_target legacy)\<lparr> tgt_id := ''legacy:'' @ trim_space fid \<rparr>]
       | Some ts \<Rightarrow>
           if ts = [] then Inl PTargetRequired
           else if length ts > MaxForwardTargets then Inl PTooManyTargets
           else normalize_targets_loop env k fid 0 [] ts))"

definition stageNodeSupportsProtocol :: "stage_node \<Rightarrow> protocol \<Rightarrow> bool" where
  "stageNodeSupportsProtocol n p =
    (if sn_protocols n = [] then p = ProtoTCP \<or> p = ProtoUDP else List.member (sn_protocols n) p)"

definition stageHasEffectiveCandidate :: "tunnel_stage \<Rightarrow> protocol \<Rightarrow> bool" where
  "stageHasEffectiveCandidate s p =
     list_ex (\<lambda>n. trim_space (sn_node_id n) \<noteq> [] \<and> stageNodeSupportsProtocol n p) (stg_nodes s)"

definition validateTunnelEffectiveCandidates :: "tunnel \<Rightarrow> protocol list \<Rightarrow> prepare_error option" where
  "validateTunnelEffectiveCandidates t ps = first_err (concat (map (\<lambda>s. map (\<lambda>p.
     fail_if (\<not> stageHasEffectiveCandidate s p) (PStageNoCandidate (stg_index s) p)) ps) (tun_stages t)))"

section \<open>Settings\<close>

definition emptyStringMap :: "settings \<Rightarrow> settings" where
  "emptyStringMap m = m"

text \<open>\<open>None\<close> when the code writes to a nil map.\<close>

definition mergeSettings :: "settings \<Rightarrow> settings \<Rightarrow> settings option" where
  "mergeSettings base override =
    (case emptyStringMap base of
       None \<Rightarrow> if mentries override = [] then Some None else None
     | Some b \<Rightarrow> Some (Some (fold (\<lambda>(k, v) m. AList.update k v m) (mentries override) b)))"

definition set_setting :: "string \<Rightarrow> string \<Rightarrow> settings \<Rightarrow> settings" where
  "set_setting k v m = map_option (AList.update k v) m"

definition redactSettings :: "settings \<Rightarrow> settings" where
  "redactSettings m =
    (if mentries m = [] then m
     else Some (map (\<lambda>(k, v). (k, if k \<in> {''secret'', ''server_key'', ''client_key'', ''server_cert'', ''client_cert'', ''ca_cert''}
                                   then [] else v)) (mentries m)))"

definition redactTunnel :: "tunnel \<Rightarrow> tunnel" where
  "redactTunnel t = t\<lparr> tun_settings := redactSettings (tun_settings t),
     tun_stages := map (\<lambda>s. s\<lparr> stg_nodes := map (\<lambda>n. n\<lparr> sn_settings := redactSettings (sn_settings n) \<rparr>)
       (stg_nodes s) \<rparr>) (tun_stages t) \<rparr>"

fun firstHost :: "(string \<Rightarrow> string option) \<Rightarrow> string list \<Rightarrow> string" where
  "firstHost ip [] = []"
| "firstHost ip (a # as) = (if hostOnly ip a \<noteq> [] then hostOnly ip a else firstHost ip as)"

definition ensureTunnelCertificates ::
  "prep_env \<Rightarrow> nat \<Rightarrow> tunnel \<Rightarrow> stage_node \<Rightarrow> prepare_error + (stage_node \<times> nat)" where
  "ensureTunnelCertificates env k t n =
    (if \<not> carries_certs (tun_transport t) then Inr (n, k)
     else if mget (sn_settings n) ''ca_cert'' \<noteq> [] \<and> mget (sn_settings n) ''server_cert'' \<noteq> [] \<and>
             mget (sn_settings n) ''server_key'' \<noteq> [] then Inr (n, k)
     else (let name = mget (sn_settings n) ''server_name'';
               server_name = (if name = [] then firstHost (pe_parse_ip env) [sn_public n, sn_connect n] else name)
       in case pe_certs env k (sn_id n) server_name of
            None \<Rightarrow> Inl PCertificatesFailed
          | Some c \<Rightarrow> Inr (n\<lparr> sn_settings :=
              set_setting ''client_key'' (tc_client_key c) (set_setting ''client_cert'' (tc_client_cert c)
              (set_setting ''server_key'' (tc_server_key c) (set_setting ''server_cert'' (tc_server_cert c)
              (set_setting ''ca_cert'' (tc_ca_cert c) (sn_settings n))))) \<rparr>, k + 1)))"

section \<open>Stages of a request\<close>

definition roleForStage :: "tunnel_type \<Rightarrow> nat \<Rightarrow> nat \<Rightarrow> stage_role" where
  "roleForStage ty index cnt =
    (if ty = TunnelDirect \<or> index = 0 then StageEntry
     else if int index = int cnt - 1 then StageExit else StageMiddle)"

definition findExistingStage :: "tunnel \<Rightarrow> nat \<Rightarrow> tunnel_stage" where
  "findExistingStage t index = (case List.find (\<lambda>s. stg_index s = int index) (tun_stages t) of
     Some s \<Rightarrow> s | None \<Rightarrow> zero_stage)"

definition findExistingStageNode :: "tunnel \<Rightarrow> nat \<Rightarrow> string \<Rightarrow> stage_node" where
  "findExistingStageNode t index i =
    (case List.find (\<lambda>n. sn_node_id n = i) (stg_nodes (findExistingStage t index)) of
       Some n \<Rightarrow> n | None \<Rightarrow> zero_stage_node)"

fun build_stages_loop ::
  "prep_env \<Rightarrow> nat \<Rightarrow> string \<Rightarrow> tunnel_type \<Rightarrow> nat \<Rightarrow> nat \<Rightarrow> string list \<Rightarrow> tunnel_stage list \<times> nat" where
  "build_stages_loop env k tid ty index cnt [] = ([], k)"
| "build_stages_loop env k tid ty index cnt (i # is) =
    (if trim_space i = [] then build_stages_loop env k tid ty (index + 1) cnt is
     else (let sid = pe_id env k ''stage'';
               n = zero_stage_node\<lparr> sn_id := pe_id env (k + 1) ''stage_node'', sn_tunnel_id := tid,
                     sn_stage_id := sid, sn_node_id := trim_space i, sn_weight := 1 \<rparr>;
               s = zero_stage\<lparr> stg_id := sid, stg_tunnel_id := tid, stg_index := int index,
                     stg_role := roleForStage ty index cnt, stg_strategy := ''single'', stg_nodes := [n] \<rparr>;
               (ss, k') = build_stages_loop env (k + 2) tid ty (index + 1) cnt is
           in (s # ss, k')))"

definition buildRequestStages :: "prep_env \<Rightarrow> nat \<Rightarrow> string \<Rightarrow> tunnel_request \<Rightarrow> tunnel_stage list \<times> nat" where
  "buildRequestStages env k tid req =
    (let ids = trim_space (trq_entry_node req) #
           (if trq_type req = TunnelChain then trq_middle_nodes req @ [trim_space (trq_exit_node req)] else [])
     in build_stages_loop env k tid (trq_type req) 0 (length ids) ids)"

definition defaultNodePublicHost :: "prep_env \<Rightarrow> node \<Rightarrow> string" where
  "defaultNodePublicHost env n =
    (let h = hostOnly (pe_parse_ip env) (nd_public_host n)
     in if h \<noteq> [] then h else hostOnly (pe_parse_ip env) (sys_ip (nd_system n)))"

definition defaultTunnelEntryAddress :: "prep_env \<Rightarrow> node \<Rightarrow> string" where
  "defaultTunnelEntryAddress env n = defaultNodePublicHost env n"

definition tunnelEntryNodeIDs :: "tunnel \<Rightarrow> prepare_error + string list" where
  "tunnelEntryNodeIDs t = (case tun_stages t of
     [] \<Rightarrow> Inl PNoEntryNode
   | s # ss \<Rightarrow> if stg_nodes s = [] then Inl PNoEntryNode
       else (let ids = map sn_node_id (filter (\<lambda>n. trim_space (sn_node_id n) \<noteq> []) (stg_nodes s))
             in if ids = [] then Inl PNoEntryNode else Inr ids))"

definition tunnelEntryNodeID :: "tunnel \<Rightarrow> prepare_error + string" where
  "tunnelEntryNodeID t = bindE (tunnelEntryNodeIDs t) (\<lambda>ids. Inr (hd ids))"

section \<open>Preparing a tunnel\<close>

text \<open>What the loops over stages and nodes carry along.\<close>

record prep =
  pp_tick :: nat
  pp_used :: used_ports
  pp_seen_nodes :: "string list"
  pp_stage_ids :: "string list"
  pp_node_ids :: "string list"
  pp_allocations :: "port_allocation list"

definition stage_id_for ::
  "prep_env \<Rightarrow> tunnel \<Rightarrow> string list \<Rightarrow> nat \<Rightarrow> string \<Rightarrow> prep \<Rightarrow> string \<times> prep" where
  "stage_id_for env existing requested i given st =
    (let old = stg_id (findExistingStage existing i);
         (sid, k) =
           (if given = [] \<or> List.member (pp_stage_ids st) given then
              (if old \<noteq> [] \<and> \<not> List.member (pp_stage_ids st) old \<and> \<not> List.member requested old
               then (old, pp_tick st) else (pe_id env (pp_tick st) ''stage'', pp_tick st + 1))
            else (given, pp_tick st))
     in (sid, st\<lparr> pp_tick := k, pp_stage_ids := sid # pp_stage_ids st \<rparr>))"

definition stage_header ::
  "prep_env \<Rightarrow> tunnel \<Rightarrow> string list \<Rightarrow> tunnel \<Rightarrow> nat \<Rightarrow> nat \<Rightarrow> tunnel_stage \<Rightarrow> prep \<Rightarrow> tunnel_stage \<times> prep" where
  "stage_header env existing requested t cnt i s st =
    (let (sid, st1) = stage_id_for env existing requested i (trim_space (stg_id s)) st in
     (s\<lparr> stg_tunnel_id := tun_id t, stg_index := int i, stg_role := roleForStage (tun_type t) i cnt,
         stg_id := sid,
         stg_strategy := (if stg_strategy s = [] then (if length (stg_nodes s) > 1 then ''failover'' else ''single'')
                          else normalizeStageStrategyValue (stg_strategy s)),
         stg_tcp_strategy := normalizeStageStrategyValue (stg_tcp_strategy s),
         stg_udp_strategy := normalizeStageStrategyValue (stg_udp_strategy s) \<rparr>, st1))"

definition stage_node_id_for :: "prep_env \<Rightarrow> string \<Rightarrow> string \<Rightarrow> prep \<Rightarrow> string \<times> prep" where
  "stage_node_id_for env old given st =
    (let (nid, k) =
       (if given = [] \<or> List.member (pp_node_ids st) given then
          (if old \<noteq> [] \<and> \<not> List.member (pp_node_ids st) old then (old, pp_tick st)
           else (pe_id env (pp_tick st) ''stage_node'', pp_tick st + 1))
        else (given, pp_tick st))
     in (nid, st\<lparr> pp_tick := k, pp_node_ids := nid # pp_node_ids st \<rparr>))"

text \<open>The port of a listening node: searched if no address is given, else read from the address, checked
  against the range and marked, but not checked against the ports in use.\<close>

definition stage_node_port :: "node \<Rightarrow> string \<Rightarrow> used_ports \<Rightarrow> prepare_error + (int \<times> string \<times> used_ports)" where
  "stage_node_port real listen used =
    (if listen = [] then bindE (allocatePort real ''tcp'' used)
       (\<lambda>(port, used'). Inr (port, join_host_port [] (itoa port), used'))
     else bindE (portFromAddr listen) (\<lambda>port. case ensurePortInRange real port of
         Some e \<Rightarrow> Inl e
       | None \<Rightarrow> Inr (port, listen, markPortUsed (nd_id real) ''tcp'' port used)))"

definition stage_node_secret :: "prep_env \<Rightarrow> nat \<Rightarrow> settings \<Rightarrow> prepare_error + (settings \<times> nat)" where
  "stage_node_secret env k s =
    (let s1 = (case s of None \<Rightarrow> Some [] | Some m \<Rightarrow> Some m) in
     if mget s1 ''secret'' = [] then
       (case pe_token env k of None \<Rightarrow> Inl PRandomFailed | Some tok \<Rightarrow> Inr (set_setting ''secret'' tok s1, k + 1))
     else Inr (s1, k))"

definition link_node ::
  "prep_env \<Rightarrow> tunnel \<Rightarrow> node \<Rightarrow> stage_node \<Rightarrow> stage_node \<Rightarrow> prep \<Rightarrow> prepare_error + (stage_node \<times> prep)" where
  "link_node env t real old n st =
    (let n1 = n\<lparr> sn_listen := (if sn_listen n = [] then sn_listen old else sn_listen n),
                sn_public := (if sn_public n = [] then sn_public old else sn_public n),
                sn_connect := (if sn_connect n = [] then sn_connect old else sn_connect n) \<rparr> in
     bindE (stage_node_port real (sn_listen n1) (pp_used st)) (\<lambda>(port, listen, used).
       let host = defaultNodePublicHost env real;
           pub = (if sn_public n1 = [] \<and> host \<noteq> [] then join_host_port host (itoa port) else sn_public n1);
           n2 = n1\<lparr> sn_listen := listen, sn_public := pub \<rparr>
       in if pub = [] \<and> sn_connect n2 = [] then Inl (PNoAddress (nd_id real))
          else bindE (stage_node_secret env (pp_tick st) (sn_settings n2)) (\<lambda>(settings, k).
            bindE (ensureTunnelCertificates env k t (n2\<lparr> sn_settings := settings \<rparr>)) (\<lambda>(n3, k1).
              Inr (n3, st\<lparr> pp_tick := k1 + 1, pp_used := used,
                pp_allocations := pp_allocations st @
                  [\<lparr> pa_id = pe_id env k1 ''alloc'', pa_node_id = nd_id real, pa_owner_kind = ''tunnel_stage_node'',
                     pa_owner_id = sn_id n3, pa_protocol = ''tcp'', pa_port = port, pa_bind = sn_listen n3,
                     pa_created_at = 0, pa_updated_at = 0 \<rparr>] \<rparr>)))))"

definition prepare_node ::
  "prep_env \<Rightarrow> node list \<Rightarrow> tunnel \<Rightarrow> tunnel \<Rightarrow> nat \<Rightarrow> tunnel_stage \<Rightarrow> stage_node \<Rightarrow> prep \<Rightarrow>
     prepare_error + (stage_node \<times> prep)" where
  "prepare_node env nodes existing t i s n st =
    (let node_id = trim_space (sn_node_id n) in
     if node_id = [] then Inl (PNodeIDRequired i)
     else if List.member (pp_seen_nodes st) node_id then Inl (PNodeRepeated node_id)
     else (case map_of (rev (map (\<lambda>x. (nd_id x, x)) nodes)) node_id of
         None \<Rightarrow> Inl (PNodeNotFound node_id)
       | Some real \<Rightarrow>
           if nd_revoked real then Inl (PNodeNotFound node_id)
           else (let old = findExistingStageNode existing i node_id;
                     (nid, st1) = stage_node_id_for env (sn_id old) (trim_space (sn_id n))
                       (st\<lparr> pp_seen_nodes := node_id # pp_seen_nodes st \<rparr>);
                     n1 = n\<lparr> sn_tunnel_id := tun_id t, sn_stage_id := stg_id s, sn_node_id := node_id, sn_id := nid,
                            sn_weight := (if sn_weight n \<le> 0 then 1 else sn_weight n) \<rparr>
             in bindE (normalizeStageNodeProtocols (sn_protocols n1)) (\<lambda>ps.
                  case mergeSettings (sn_settings old) (sn_settings n1) of
                    None \<Rightarrow> Inl PNilMapPanic
                  | Some settings \<Rightarrow>
                      (let n2 = n1\<lparr> sn_protocols := ps, sn_settings := settings \<rparr> in
                       if tun_type t = TunnelDirect \<or> stg_role s = StageEntry then
                         Inr (n2\<lparr> sn_listen := [], sn_public := [], sn_connect := trim_space (sn_connect n2),
                                 sn_settings := Some [] \<rparr>, st1)
                       else link_node env t real old n2 st1)))))"

fun prepare_nodes ::
  "prep_env \<Rightarrow> node list \<Rightarrow> tunnel \<Rightarrow> tunnel \<Rightarrow> nat \<Rightarrow> tunnel_stage \<Rightarrow> stage_node list \<Rightarrow> prep \<Rightarrow>
     prepare_error + (stage_node list \<times> prep)" where
  "prepare_nodes env nodes existing t i s [] st = Inr ([], st)"
| "prepare_nodes env nodes existing t i s (n # ns) st =
    bindE (prepare_node env nodes existing t i s n st) (\<lambda>(n', st1).
      bindE (prepare_nodes env nodes existing t i s ns st1) (\<lambda>(ns', st2). Inr (n' # ns', st2)))"

fun prepare_stages ::
  "prep_env \<Rightarrow> node list \<Rightarrow> tunnel \<Rightarrow> string list \<Rightarrow> tunnel \<Rightarrow> nat \<Rightarrow> nat \<Rightarrow> tunnel_stage list \<Rightarrow> prep \<Rightarrow>
     prepare_error + (tunnel_stage list \<times> prep)" where
  "prepare_stages env nodes existing requested t cnt i [] st = Inr ([], st)"
| "prepare_stages env nodes existing requested t cnt i (s # ss) st =
    (let (s1, st1) = stage_header env existing requested t cnt i s st in
     if stg_nodes s1 = [] then Inl (PStageEmpty i)
     else bindE (prepare_nodes env nodes existing t i s1 (stg_nodes s1) st1) (\<lambda>(ns, st2).
       bindE (prepare_stages env nodes existing requested t cnt (i + 1) ss st2) (\<lambda>(ss', st3).
         Inr (s1\<lparr> stg_nodes := ns \<rparr> # ss', st3))))"

definition request_limits :: "tunnel_request \<Rightarrow> prepare_error option" where
  "request_limits req = first_err
    ([fail_if (length (trq_stages req) > MaxTunnelStages) PTooManyStages,
      fail_if (trq_type req = TunnelChain \<and> length (trq_middle_nodes req) + 2 > MaxTunnelStages) PTooManyStages] @
     map (\<lambda>(i, s). fail_if (length (stg_nodes s) > MaxStageNodes) (PTooManyNodes (int i)))
       (enumerate 0 (trq_stages req)))"

definition request_defaults :: "prep_env \<Rightarrow> tunnel_request \<Rightarrow> tunnel_request \<times> nat" where
  "request_defaults env req =
    (let blank = trim_space (trq_id req) = [];
         ty = (if trq_type req = [] then TunnelDirect else trq_type req)
     in (req\<lparr> trq_id := (if blank then pe_id env 0 ''tun'' else trq_id req), trq_type := ty,
             trq_transport := (if ty = TunnelDirect \<or> trq_transport req = [] then TransportDirect
                               else trq_transport req) \<rparr>, if blank then 1 else 0))"

definition request_tunnel :: "prep_env \<Rightarrow> tunnel_request \<Rightarrow> tunnel \<Rightarrow> bool \<Rightarrow> tunnel" where
  "request_tunnel env req existing found =
    \<lparr> tun_id = trim_space (trq_id req), tun_name = trim_space (trq_name req), tun_type = trq_type req,
      tun_transport = trq_transport req,
      tun_entry_address = (case trq_entry_address req of None \<Rightarrow> tun_entry_address existing
                           | Some a \<Rightarrow> hostOnly (pe_parse_ip env) a),
      tun_enabled = (case trq_enabled req of Some b \<Rightarrow> b | None \<Rightarrow> if found then tun_enabled existing else True),
      tun_settings = (case emptyStringMap (trq_settings req) of None \<Rightarrow> emptyStringMap (tun_settings existing)
                      | Some m \<Rightarrow> Some m),
      tun_stages = trq_stages req, tun_created_at = 0, tun_updated_at = 0 \<rparr>"

definition finish_tunnel ::
  "prep_env \<Rightarrow> node list \<Rightarrow> tunnel \<Rightarrow> prep \<Rightarrow> prepare_error + (tunnel \<times> port_allocation list)" where
  "finish_tunnel env nodes t st =
    (if tun_entry_address t = [] then
       bindE (tunnelEntryNodeID t) (\<lambda>i. Inr (t\<lparr> tun_entry_address :=
         (case map_of (rev (map (\<lambda>x. (nd_id x, x)) nodes)) i of
            Some nd \<Rightarrow> defaultTunnelEntryAddress env nd | None \<Rightarrow> []) \<rparr>, pp_allocations st))
     else Inr (t, pp_allocations st))"

definition request_base :: "prep_env \<Rightarrow> tunnel_request \<Rightarrow> tunnel \<times> tunnel \<times> nat" where
  "request_base env req0 =
    (let (req, k) = request_defaults env req0;
         found = pe_get_tunnel env (trq_id req);
         existing = (case found of None \<Rightarrow> zero_tunnel | Some x \<Rightarrow> x);
         t0 = request_tunnel env req existing (found \<noteq> None);
         (stages, k1) = (if tun_stages t0 = [] then buildRequestStages env k (tun_id t0) req else (tun_stages t0, k))
     in (t0\<lparr> tun_stages := stages \<rparr>, existing, k1))"

definition prepare_from ::
  "prep_env \<Rightarrow> node list \<Rightarrow> port_allocation list \<Rightarrow> tunnel \<Rightarrow> tunnel \<Rightarrow> nat \<Rightarrow>
     prepare_error + (tunnel \<times> port_allocation list)" where
  "prepare_from env nodes as t existing k =
    (let excluded = concat (map (\<lambda>s. map sn_id (stg_nodes s)) (tun_stages existing));
         requested = filter (\<lambda>i. i \<noteq> []) (map (\<lambda>s. trim_space (stg_id s)) (tun_stages t));
         st = \<lparr> pp_tick = k, pp_used = usedPortSet as excluded, pp_seen_nodes = [],
                pp_stage_ids = [], pp_node_ids = [], pp_allocations = [] \<rparr>
     in bindE (prepare_stages env nodes existing requested t (length (tun_stages t)) 0 (tun_stages t) st)
          (\<lambda>(stages', st'). finish_tunnel env nodes (t\<lparr> tun_stages := stages' \<rparr>) st'))"

definition prepareTunnel :: "prep_env \<Rightarrow> tunnel_request \<Rightarrow> prepare_error + (tunnel \<times> port_allocation list)" where
  "prepareTunnel env req =
    (case request_limits req of
       Some e \<Rightarrow> Inl e
     | None \<Rightarrow> (case request_base env req of (t, existing, k) \<Rightarrow>
         (case pe_nodes env of
            None \<Rightarrow> Inl PStoreFailed
          | Some nodes \<Rightarrow> (case pe_allocations env of
              None \<Rightarrow> Inl PStoreFailed
            | Some as \<Rightarrow> prepare_from env nodes as t existing k))))"

section \<open>Preparing a forward\<close>

text \<open>The request completed from the forward that is there.  The slice of targets of a stored forward is
  nil exactly when it is empty.\<close>

definition stored_targets :: "forward \<Rightarrow> forward_target list option" where
  "stored_targets f = (if fwd_targets f = [] then None else Some (fwd_targets f))"

definition complete_request :: "forward_request \<Rightarrow> forward \<Rightarrow> forward_request" where
  "complete_request req f =
    (let keep_targets = frq_targets req = None \<and> frq_target req = [] in
     req\<lparr> frq_name := (if frq_name req = [] then fwd_name f else frq_name req),
          frq_tunnel_id := (if frq_tunnel_id req = [] then fwd_tunnel_id f else frq_tunnel_id req),
          frq_protocols := (if frq_protocols req = [] then fwd_protocols f else frq_protocols req),
          frq_listen := (if frq_listen req = [] then fwd_listen f else frq_listen req),
          frq_targets := (if keep_targets then stored_targets f else frq_targets req),
          frq_target := (if keep_targets \<and> stored_targets f = None then fwd_target f else frq_target req),
          frq_strategy := (if frq_strategy req = [] then fwd_strategy f else frq_strategy req),
          frq_tcp_strategy := (if frq_tcp_strategy req = [] then fwd_tcp_strategy f else frq_tcp_strategy req),
          frq_udp_strategy := (if frq_udp_strategy req = [] then fwd_udp_strategy f else frq_udp_strategy req) \<rparr>)"

definition forward_defaults :: "prep_env \<Rightarrow> forward_request \<Rightarrow> forward_request \<times> bool \<times> nat" where
  "forward_defaults env req0 =
    (let blank = trim_space (frq_id req0) = [];
         req1 = req0\<lparr> frq_id := (if blank then pe_id env 0 ''fwd'' else frq_id req0) \<rparr>;
         k = (if blank then 1 else 0);
         (req, was) = (case pe_get_forward env (frq_id req1) of
             None \<Rightarrow> (req1, True) | Some f \<Rightarrow> (complete_request req1 f, fwd_enabled f))
     in (req, (case frq_enabled req of Some b \<Rightarrow> b | None \<Rightarrow> was), k))"

definition request_forward :: "forward_request \<Rightarrow> bool \<Rightarrow> protocol list \<Rightarrow> forward_target list \<Rightarrow> forward" where
  "request_forward req enabled ps ts =
    (let strategy = normalizeStageStrategyValue (frq_strategy req) in
     \<lparr> fwd_id = trim_space (frq_id req), fwd_name = trim_space (frq_name req),
       fwd_tunnel_id = trim_space (frq_tunnel_id req), fwd_protocols = ps, fwd_listen = trim_space (frq_listen req),
       fwd_target = tgt_address (hd ts), fwd_targets = ts,
       fwd_strategy = (if strategy = [] then (if length ts > 1 then ''failover'' else ''single'') else strategy),
       fwd_tcp_strategy = normalizeStageStrategyValue (frq_tcp_strategy req),
       fwd_udp_strategy = normalizeStageStrategyValue (frq_udp_strategy req), fwd_enabled = enabled,
       fwd_created_at = 0, fwd_updated_at = 0 \<rparr>)"

definition forward_port :: "string \<Rightarrow> entry_candidate list \<Rightarrow> used_ports \<Rightarrow> prepare_error + (int \<times> string)" where
  "forward_port listen cs used =
    (if listen = [] then bindE (allocateSharedProtocolPortAcrossEntryCandidates cs used)
       (\<lambda>(port, used'). Inr (port, join_host_port [] (itoa port)))
     else bindE (portFromAddr listen) (\<lambda>port.
       bindE (ensurePortAvailableAcrossEntryCandidates cs port used) (\<lambda>used'. Inr (port, listen))))"

fun forward_allocations ::
  "prep_env \<Rightarrow> nat \<Rightarrow> forward \<Rightarrow> int \<Rightarrow> (node \<times> protocol) list \<Rightarrow> port_allocation list" where
  "forward_allocations env k f port [] = []"
| "forward_allocations env k f port ((nd, p) # rest) =
    \<lparr> pa_id = pe_id env k ''alloc'', pa_node_id = nd_id nd, pa_owner_kind = ''forward'', pa_owner_id = fwd_id f,
      pa_protocol = p, pa_port = port, pa_bind = fwd_listen f, pa_created_at = 0, pa_updated_at = 0 \<rparr> #
    forward_allocations env (k + 1) f port rest"

definition candidate_pairs :: "entry_candidate list \<Rightarrow> (node \<times> protocol) list" where
  "candidate_pairs cs = concat (map (\<lambda>c. map (\<lambda>p. (ec_node c, p)) (ec_protocols c)) cs)"

definition prepareForward :: "prep_env \<Rightarrow> forward_request \<Rightarrow> prepare_error + (forward \<times> port_allocation list)" where
  "prepareForward env req0 =
    (let (req, enabled, k) = forward_defaults env req0 in
     bindE (normalizeForwardProtocols (frq_protocols req)) (\<lambda>ps.
     case pe_get_tunnel env (frq_tunnel_id req) of
       None \<Rightarrow> Inl PTunnelNotFound
     | Some t \<Rightarrow>
         if \<not> tun_enabled t then Inl PTunnelDisabled
         else (case validateTunnelEffectiveCandidates t ps of
             Some e \<Rightarrow> Inl e
           | None \<Rightarrow>
               bindE (normalizeForwardTargets env k (frq_id req) (frq_target req) (frq_targets req)) (\<lambda>(ts, k1).
               bindE (forwardEntryCandidates (pe_get_node env) t ps) (\<lambda>cs.
               (let f = request_forward req enabled ps ts in
                case pe_allocations env of
                  None \<Rightarrow> Inl PStoreFailed
                | Some as \<Rightarrow>
                    bindE (forward_port (fwd_listen f) cs (usedPortSet as [fwd_id f])) (\<lambda>(port, listen).
                      (let f1 = f\<lparr> fwd_listen := listen \<rparr>
                       in Inr (f1, forward_allocations env k1 f1 port (candidate_pairs cs))))))))))"

section \<open>What a prepared forward is\<close>

lemma find_None_all: "List.find P xs = None \<longleftrightarrow> (\<forall>x\<in>set xs. \<not> P x)"
  by (auto simp: find_None_iff)

lemma ordered_protocols_set: "set (ordered_protocols ps) = set ps \<inter> {ProtoTCP, ProtoUDP}"
  "distinct (ordered_protocols ps)"
  by (auto simp: ordered_protocols_def enum_defs)

lemma normalizeForwardProtocols_Inr:
  assumes "normalizeForwardProtocols ps = Inr qs"
  shows "set qs = set ps" and "set qs \<subseteq> {ProtoTCP, ProtoUDP}" and "qs \<noteq> []" and "distinct qs"
  using assms ordered_protocols_set [of ps]
  by (auto simp: normalizeForwardProtocols_def find_None_all known_protocol_def split: option.splits if_splits)

lemma normalizeStageNodeProtocols_Inr:
  assumes "normalizeStageNodeProtocols ps = Inr qs"
  shows "set qs \<subseteq> {ProtoTCP, ProtoUDP}" and "set qs = set ps" and "distinct qs"
  using assms ordered_protocols_set [of ps]
  by (auto simp: normalizeStageNodeProtocols_def find_None_all known_protocol_def split: option.splits if_splits)

lemma normalize_targets_loop_Inr:
  assumes "normalize_targets_loop env k fid index seen xs = Inr (ys, k')"
  shows "length ys = length xs \<and> distinct (map tgt_id ys) \<and> set (map tgt_id ys) \<inter> set seen = {} \<and>
    (\<forall>j<length ys. tgt_position (ys ! j) = int (index + j) \<and> tgt_forward_id (ys ! j) = trim_space fid \<and>
       0 < tgt_weight (ys ! j) \<and> set (tgt_protocols (ys ! j)) \<subseteq> {ProtoTCP, ProtoUDP} \<and>
       tgt_address (ys ! j) = trim_space (tgt_address (xs ! j)) \<and> tgt_enabled (ys ! j) = tgt_enabled (xs ! j))"
  using assms
proof (induction env k fid index seen xs arbitrary: ys k' rule: normalize_targets_loop.induct)
  case (1 env k fid index seen)
  then show ?case by simp
next
  case (2 env k fid index seen x xs)
  obtain x1 k1 where x1: "normalize_target env k fid index x = (x1, k1)" by force
  from 2(2) x1 obtain ps zs where ps: "normalizeStageNodeProtocols (tgt_protocols x) = Inr ps"
    and zs: "normalize_targets_loop env k1 fid (index + 1) (tgt_id x1 # seen) xs = Inr (zs, k')"
    and ys: "ys = x1\<lparr> tgt_protocols := ps \<rparr> # zs" and new: "tgt_id x1 \<notin> set seen"
    by (auto simp: err_simps split: if_splits prod.splits)
  have new': "\<not> List.member seen (tgt_id x1)" using new by simp
  note IH = 2(1) [OF refl x1 [symmetric] new' zs]
  have f: "tgt_position x1 = int index" "tgt_forward_id x1 = trim_space fid" "0 < tgt_weight x1"
    "tgt_address x1 = trim_space (tgt_address x)" "tgt_enabled x1 = tgt_enabled x"
    using x1 by (auto simp: normalize_target_def Let_def)
  show ?case
    using IH new f normalizeStageNodeProtocols_Inr(1) [OF ps]
    by (auto simp: ys nth_Cons split: nat.splits)
qed

lemma validateEffective_None:
  "validateTunnelEffectiveCandidates t ps = None \<longleftrightarrow>
     (\<forall>s\<in>set (tun_stages t). \<forall>p\<in>set ps. stageHasEffectiveCandidate s p)"
  by (auto simp: validateTunnelEffectiveCandidates_def first_err_None err_simps)

lemma entry_candidates_loop_Inr:
  assumes "entry_candidates_loop get_node ps ns = Inr cs"
  shows "c \<in> set cs \<Longrightarrow> \<exists>n\<in>set ns. get_node (trim_space (sn_node_id n)) = Some (ec_node c) \<and>
      \<not> nd_revoked (ec_node c) \<and> ec_protocols c = filterForwardProtocols ps (sn_protocols n)"
    and "n \<in> set ns \<Longrightarrow> trim_space (sn_node_id n) \<noteq> [] \<Longrightarrow> p \<in> set (filterForwardProtocols ps (sn_protocols n)) \<Longrightarrow>
      \<exists>c\<in>set cs. p \<in> set (ec_protocols c)"
proof -
  have "(\<forall>c\<in>set cs. \<exists>n\<in>set ns. get_node (trim_space (sn_node_id n)) = Some (ec_node c) \<and>
      \<not> nd_revoked (ec_node c) \<and> ec_protocols c = filterForwardProtocols ps (sn_protocols n)) \<and>
    (\<forall>n\<in>set ns. trim_space (sn_node_id n) \<noteq> [] \<longrightarrow> (\<forall>p\<in>set (filterForwardProtocols ps (sn_protocols n)).
      \<exists>c\<in>set cs. p \<in> set (ec_protocols c)))"
    using assms
  proof (induction ns arbitrary: cs)
    case Nil
    then show ?case by simp
  next
    case (Cons n ns)
    show ?case
    proof (cases "trim_space (sn_node_id n) = [] \<or> filterForwardProtocols ps (sn_protocols n) = []")
      case True
      with Cons.prems have "entry_candidates_loop get_node ps ns = Inr cs" by (auto simp: Let_def)
      from Cons.IH [OF this] True show ?thesis by auto
    next
      case False
      with Cons.prems obtain nd ds where nd: "get_node (trim_space (sn_node_id n)) = Some nd" "\<not> nd_revoked nd"
        and ds: "entry_candidates_loop get_node ps ns = Inr ds"
        and cs: "cs = \<lparr> ec_node_id = trim_space (sn_node_id n), ec_node = nd,
                     ec_protocols = filterForwardProtocols ps (sn_protocols n) \<rparr> # ds"
        by (auto simp: Let_def err_simps split: option.splits if_splits)
      from Cons.IH [OF ds] nd show ?thesis by (auto simp: cs)
    qed
  qed
  then show "c \<in> set cs \<Longrightarrow> \<exists>n\<in>set ns. get_node (trim_space (sn_node_id n)) = Some (ec_node c) \<and>
      \<not> nd_revoked (ec_node c) \<and> ec_protocols c = filterForwardProtocols ps (sn_protocols n)"
    and "n \<in> set ns \<Longrightarrow> trim_space (sn_node_id n) \<noteq> [] \<Longrightarrow> p \<in> set (filterForwardProtocols ps (sn_protocols n)) \<Longrightarrow>
      \<exists>c\<in>set cs. p \<in> set (ec_protocols c)"
    by blast+
qed

lemma forwardEntryCandidates_Inr:
  assumes "forwardEntryCandidates get_node t ps = Inr cs"
  obtains s ss where "tun_stages t = s # ss" "entry_candidates_loop get_node ps (stg_nodes s) = Inr cs" "cs \<noteq> []"
  using assms by (auto simp: forwardEntryCandidates_def err_simps split: list.splits if_splits)

lemma supports_same: "stageNodeSupportsProtocol n p \<longleftrightarrow> candidateSupportsProtocol (sn_protocols n) p"
  by (simp add: stageNodeSupportsProtocol_def candidateSupportsProtocol_def)

lemma forward_port_Inr:
  assumes "forward_port listen cs used = Inr (port, addr)"
  shows "portAvailableAcrossEntryCandidates cs port used"
    and "addr = (if listen = [] then join_host_port [] (itoa port) else listen)"
    and "listen \<noteq> [] \<Longrightarrow> portFromAddr listen = Inr port"
  using assms ensureAvailable_Inr [of cs port used]
  by (auto simp: forward_port_def allocateSharedProtocolPortAcrossEntryCandidates_def err_simps find_port_Some Let_def
      split: if_splits list.splits prod.splits option.splits)

lemma forward_allocations_mem:
  "a \<in> set (forward_allocations env k f port ps) \<Longrightarrow>
     (\<exists>(nd, p)\<in>set ps. pa_node_id a = nd_id nd \<and> pa_protocol a = p) \<and> pa_port a = port \<and>
     pa_owner_kind a = ''forward'' \<and> pa_owner_id a = fwd_id f \<and> pa_bind a = fwd_listen f"
  "(nd, p) \<in> set ps \<Longrightarrow> \<exists>a\<in>set (forward_allocations env k f port ps). pa_node_id a = nd_id nd \<and> pa_protocol a = p"
  by (induction env k f port ps rule: forward_allocations.induct) auto

lemma prepareForward_Inr:
  assumes "prepareForward env req0 = Inr (f, as)"
  obtains req enabled k ps t ts k1 cs stored port listen where
    "forward_defaults env req0 = (req, enabled, k)"
    "normalizeForwardProtocols (frq_protocols req) = Inr ps"
    "pe_get_tunnel env (frq_tunnel_id req) = Some t" "tun_enabled t"
    "validateTunnelEffectiveCandidates t ps = None"
    "normalizeForwardTargets env k (frq_id req) (frq_target req) (frq_targets req) = Inr (ts, k1)"
    "forwardEntryCandidates (pe_get_node env) t ps = Inr cs"
    "pe_allocations env = Some stored"
    "forward_port (fwd_listen (request_forward req enabled ps ts)) cs
       (usedPortSet stored [fwd_id (request_forward req enabled ps ts)]) = Inr (port, listen)"
    "f = (request_forward req enabled ps ts)\<lparr> fwd_listen := listen \<rparr>"
    "as = forward_allocations env k1 f port (candidate_pairs cs)"
proof -
  obtain req enabled k where d: "forward_defaults env req0 = (req, enabled, k)" by (metis prod_cases3)
  from assms obtain ps where ps: "normalizeForwardProtocols (frq_protocols req) = Inr ps"
    unfolding prepareForward_def d by (auto simp: err_simps)
  with assms obtain t where t: "pe_get_tunnel env (frq_tunnel_id req) = Some t" "tun_enabled t"
    "validateTunnelEffectiveCandidates t ps = None"
    unfolding prepareForward_def d by (auto simp: err_simps split: option.splits if_splits)
  with assms ps obtain ts k1 cs where ts: "normalizeForwardTargets env k (frq_id req) (frq_target req) (frq_targets req) = Inr (ts, k1)"
    and cs: "forwardEntryCandidates (pe_get_node env) t ps = Inr cs"
    unfolding prepareForward_def d by (auto simp: err_simps)
  define f0 where "f0 = request_forward req enabled ps ts"
  from assms ps t ts cs obtain stored where st: "pe_allocations env = Some stored"
    unfolding prepareForward_def d Let_def by (auto split: option.splits)
  with assms ps t ts cs obtain port listen where
    "forward_port (fwd_listen f0) cs (usedPortSet stored [fwd_id f0]) = Inr (port, listen)"
    "f = f0\<lparr> fwd_listen := listen \<rparr>" "as = forward_allocations env k1 f port (candidate_pairs cs)"
    unfolding prepareForward_def d Let_def f0_def by (auto simp: err_simps)
  then show ?thesis using that [OF d ps t ts cs st] unfolding f0_def by blast
qed

lemma normalizeForwardTargets_Inr:
  assumes "normalizeForwardTargets env k fid legacy requested = Inr (ts, k1)"
  shows "\<exists>xs. normalize_targets_loop env k fid 0 [] xs = Inr (ts, k1) \<and> xs \<noteq> []"
  using assms
  by (auto simp: normalizeForwardTargets_def simp del: normalize_targets_loop.simps split: if_splits option.splits)

text \<open>C3: a forward that was prepared has a free port: every allocation it asks for is in the range of a
  node that is not revoked and clashes with nothing that another owner has allocated, all of them share
  one port and one address to listen on, and together they cover every protocol of the forward; its
  protocols are the known ones without repetition, its targets numbered in order with distinct ids and
  positive weights.\<close>

theorem prepared_forward:
  assumes "prepareForward env req = Inr (f, as)" and "pe_allocations env = Some stored"
  shows "(\<forall>a\<in>set as. pa_owner_kind a = ''forward'' \<and> pa_owner_id a = fwd_id f \<and> pa_bind a = fwd_listen f \<and>
      (\<forall>b\<in>set as. pa_port b = pa_port a) \<and>
      (\<exists>i nd. pe_get_node env i = Some nd \<and> \<not> nd_revoked nd \<and> nd_id nd = pa_node_id a \<and>
         ensurePortInRange nd (pa_port a) = None) \<and>
      (\<forall>b\<in>set stored. pa_owner_id b \<noteq> fwd_id f \<longrightarrow>
         (pa_node_id b, pa_protocol b, pa_port b) \<noteq> (pa_node_id a, pa_protocol a, pa_port a))) \<and>
    (\<forall>p\<in>set (fwd_protocols f). \<exists>a\<in>set as. pa_protocol a = p) \<and>
    fwd_protocols f \<noteq> [] \<and> distinct (fwd_protocols f) \<and> set (fwd_protocols f) \<subseteq> {ProtoTCP, ProtoUDP} \<and>
    distinct (map tgt_id (fwd_targets f)) \<and> (\<forall>j<length (fwd_targets f). tgt_position (fwd_targets f ! j) = int j \<and>
      0 < tgt_weight (fwd_targets f ! j))"
proof -
  obtain rq enabled k ps t ts k1 cs port listen where
    ps: "normalizeForwardProtocols (frq_protocols rq) = Inr ps"
    and eff: "validateTunnelEffectiveCandidates t ps = None"
    and ts: "normalizeForwardTargets env k (frq_id rq) (frq_target rq) (frq_targets rq) = Inr (ts, k1)"
    and cs: "forwardEntryCandidates (pe_get_node env) t ps = Inr cs"
    and port: "forward_port (fwd_listen (request_forward rq enabled ps ts)) cs
       (usedPortSet stored [fwd_id (request_forward rq enabled ps ts)]) = Inr (port, listen)"
    and f: "f = (request_forward rq enabled ps ts)\<lparr> fwd_listen := listen \<rparr>"
    and as: "as = forward_allocations env k1 f port (candidate_pairs cs)"
    using prepareForward_Inr [OF assms(1)] assms(2) by (metis option.inject)
  have id: "fwd_id f = fwd_id (request_forward rq enabled ps ts)" and fps: "fwd_protocols f = ps"
    and fts: "fwd_targets f = ts" by (simp_all add: f request_forward_def Let_def)
  from forwardEntryCandidates_Inr [OF cs] obtain s ss where s: "tun_stages t = s # ss"
    and loop: "entry_candidates_loop (pe_get_node env) ps (stg_nodes s) = Inr cs" by metis
  note avail = forward_port_Inr(1) [OF port, unfolded portAvailable_iff usedPortSet_iff]
  have A: "pa_owner_kind a = ''forward'' \<and> pa_owner_id a = fwd_id f \<and> pa_bind a = fwd_listen f \<and>
      (\<forall>b\<in>set as. pa_port b = pa_port a) \<and>
      (\<exists>i nd. pe_get_node env i = Some nd \<and> \<not> nd_revoked nd \<and> nd_id nd = pa_node_id a \<and>
         ensurePortInRange nd (pa_port a) = None) \<and>
      (\<forall>b\<in>set stored. pa_owner_id b \<noteq> fwd_id f \<longrightarrow>
         (pa_node_id b, pa_protocol b, pa_port b) \<noteq> (pa_node_id a, pa_protocol a, pa_port a))" if a: "a \<in> set as" for a
  proof -
    note m = forward_allocations_mem(1) [OF a [unfolded as]]
    then obtain c where c: "c \<in> set cs" "pa_node_id a = nd_id (ec_node c)" "pa_protocol a \<in> set (ec_protocols c)"
      by (auto simp: candidate_pairs_def)
    with avail have rng: "ensurePortInRange (ec_node c) port = None"
      and free: "\<not> (\<exists>b\<in>set stored. pa_owner_id b \<noteq> fwd_id f \<and> pa_node_id b = nd_id (ec_node c) \<and>
        pa_protocol b = pa_protocol a \<and> pa_port b = port)" by (auto simp: id)
    have "\<forall>b\<in>set as. pa_port b = pa_port a"
      using forward_allocations_mem(1) [of _ env k1 f port "candidate_pairs cs"] m unfolding as by metis
    then show ?thesis
      using m c rng free entry_candidates_loop_Inr(1) [OF loop c(1)] by auto
  qed
  have B: "\<exists>a\<in>set as. pa_protocol a = p" if p: "p \<in> set ps" for p
  proof -
    from eff p s have "stageHasEffectiveCandidate s p" by (simp add: validateEffective_None)
    then obtain n where n: "n \<in> set (stg_nodes s)" "trim_space (sn_node_id n) \<noteq> []"
      "p \<in> set (filterForwardProtocols ps (sn_protocols n))"
      using p by (auto simp: stageHasEffectiveCandidate_def list_ex_iff supports_same filterForwardProtocols_def)
    from entry_candidates_loop_Inr(2) [OF loop this] obtain c where "c \<in> set cs" "p \<in> set (ec_protocols c)" by blast
    then have "(ec_node c, p) \<in> set (candidate_pairs cs)" by (auto simp: candidate_pairs_def)
    from forward_allocations_mem(2) [OF this] show ?thesis unfolding as by blast
  qed
  from normalizeForwardTargets_Inr [OF ts] obtain xs where
    "normalize_targets_loop env k (frq_id rq) 0 [] xs = Inr (ts, k1)" by blast
  from normalize_targets_loop_Inr [OF this] have C: "distinct (map tgt_id ts)"
    "\<forall>j<length ts. tgt_position (ts ! j) = int j \<and> 0 < tgt_weight (ts ! j)" by auto
  note np = normalizeForwardProtocols_Inr [OF ps]
  show ?thesis
    unfolding fps fts by (intro conjI ballI B np(2-4) C; use A in blast)
qed

section \<open>What a prepared tunnel is\<close>

definition link_role :: "tunnel \<Rightarrow> stage_role \<Rightarrow> bool" where
  "link_role t role \<longleftrightarrow> tun_type t \<noteq> TunnelDirect \<and> role \<noteq> StageEntry"

definition node_prepared :: "node list \<Rightarrow> tunnel \<Rightarrow> stage_role \<Rightarrow> stage_node \<Rightarrow> bool" where
  "node_prepared nodes t role n \<longleftrightarrow>
     sn_node_id n \<noteq> [] \<and> (\<exists>real\<in>set nodes. nd_id real = sn_node_id n \<and> \<not> nd_revoked real) \<and>
     0 < sn_weight n \<and> set (sn_protocols n) \<subseteq> {ProtoTCP, ProtoUDP} \<and>
     (if link_role t role then
        sn_listen n \<noteq> [] \<and> (sn_public n \<noteq> [] \<or> sn_connect n \<noteq> []) \<and> mget (sn_settings n) ''secret'' \<noteq> [] \<and>
        (carries_certs (tun_transport t) \<longrightarrow> mget (sn_settings n) ''ca_cert'' \<noteq> [] \<and>
           mget (sn_settings n) ''server_cert'' \<noteq> [] \<and> mget (sn_settings n) ''server_key'' \<noteq> [])
      else sn_settings n = Some [] \<and> sn_listen n = [] \<and> sn_public n = [])"

definition link_alloc :: "node list \<Rightarrow> stage_node \<Rightarrow> port_allocation \<Rightarrow> bool" where
  "link_alloc nodes n a \<longleftrightarrow> pa_owner_kind a = ''tunnel_stage_node'' \<and> pa_owner_id a = sn_id n \<and>
     pa_node_id a = sn_node_id n \<and> pa_protocol a = ''tcp'' \<and> pa_bind a = sn_listen n \<and>
     (\<exists>real\<in>set nodes. nd_id real = sn_node_id n \<and> ensurePortInRange real (pa_port a) = None)"

text \<open>What is needed of the sources of secrets and certificates: that they are not empty.\<close>

definition prep_env_ok :: "prep_env \<Rightarrow> bool" where
  "prep_env_ok env \<longleftrightarrow> (\<forall>k tok. pe_token env k = Some tok \<longrightarrow> tok \<noteq> []) \<and>
     (\<forall>k i h c. pe_certs env k i h = Some c \<longrightarrow> tc_ca_cert c \<noteq> [] \<and> tc_server_cert c \<noteq> [] \<and> tc_server_key c \<noteq> [])"

lemma mget_set_setting [simp]:
  "m \<noteq> None \<Longrightarrow> mget (set_setting k v m) k' = (if k' = k then v else mget m k')"
  "set_setting k v m = None \<longleftrightarrow> m = None"
  by (auto simp: set_setting_def)

lemma join_host_port_not_Nil [simp]: "join_host_port h p \<noteq> []"
  by (auto simp: join_host_port_def)

lemma stage_node_port_Inr:
  assumes "stage_node_port real listen used = Inr (port, addr, used')"
  shows "ensurePortInRange real port = None" and "addr \<noteq> []"
  using assms
  by (auto simp: stage_node_port_def allocatePort_def err_simps Let_def find_port_Some ensurePortInRange_None
      split: if_splits prod.splits option.splits)

lemma stage_node_secret_Inr:
  assumes "stage_node_secret env k s = Inr (s', k')" and "prep_env_ok env"
  shows "s' \<noteq> None" and "mget s' ''secret'' \<noteq> []"
  using assms
  by (auto simp: stage_node_secret_def Let_def prep_env_ok_def set_setting_def mget_def map_simps split: option.splits if_splits)

lemma ensureTunnelCertificates_cases:
  assumes "ensureTunnelCertificates env k t n = Inr (n', k')"
  obtains (kept) "n' = n" "\<not> carries_certs (tun_transport t) \<or> mget (sn_settings n) ''ca_cert'' \<noteq> [] \<and>
      mget (sn_settings n) ''server_cert'' \<noteq> [] \<and> mget (sn_settings n) ''server_key'' \<noteq> []"
  | (made) h c where "pe_certs env k (sn_id n) h = Some c"
      "n' = n\<lparr> sn_settings := set_setting ''client_key'' (tc_client_key c) (set_setting ''client_cert'' (tc_client_cert c)
              (set_setting ''server_key'' (tc_server_key c) (set_setting ''server_cert'' (tc_server_cert c)
              (set_setting ''ca_cert'' (tc_ca_cert c) (sn_settings n))))) \<rparr>"
proof -
  consider "\<not> carries_certs (tun_transport t) \<or> mget (sn_settings n) ''ca_cert'' \<noteq> [] \<and>
      mget (sn_settings n) ''server_cert'' \<noteq> [] \<and> mget (sn_settings n) ''server_key'' \<noteq> []"
    | "carries_certs (tun_transport t)" "\<not> (mget (sn_settings n) ''ca_cert'' \<noteq> [] \<and>
      mget (sn_settings n) ''server_cert'' \<noteq> [] \<and> mget (sn_settings n) ''server_key'' \<noteq> [])" by blast
  then show ?thesis
  proof cases
    case 1
    from 1 have "n' = n"
      by (rule disjE) (use assms in \<open>simp_all add: ensureTunnelCertificates_def split: if_splits\<close>)
    with 1 show ?thesis by (rule kept [rotated])
  next
    case 2
    let ?name = "mget (sn_settings n) ''server_name''"
    let ?h = "if ?name = [] then firstHost (pe_parse_ip env) [sn_public n, sn_connect n] else ?name"
    note e = assms [unfolded ensureTunnelCertificates_def Let_def if_not_P [OF 2(2)] not_not if_P [OF 2(1)]]
    show ?thesis
    proof (cases "pe_certs env k (sn_id n) ?h")
      case (Some c)
      from made [OF this] show ?thesis using e 2(1) unfolding Some by simp
    qed (use e 2(1) in simp)
  qed
qed

lemma ensureTunnelCertificates_Inr:
  assumes "ensureTunnelCertificates env k t n = Inr (n', k')" and "prep_env_ok env" and "sn_settings n \<noteq> None"
  shows "\<exists>x. n' = n\<lparr> sn_settings := x \<rparr>"
    and "mget (sn_settings n') ''secret'' = mget (sn_settings n) ''secret''"
    and "carries_certs (tun_transport t) \<longrightarrow> mget (sn_settings n') ''ca_cert'' \<noteq> [] \<and>
      mget (sn_settings n') ''server_cert'' \<noteq> [] \<and> mget (sn_settings n') ''server_key'' \<noteq> []"
proof -
  from assms(1) have "(\<exists>x. n' = n\<lparr> sn_settings := x \<rparr>) \<and> mget (sn_settings n') ''secret'' = mget (sn_settings n) ''secret'' \<and>
    (carries_certs (tun_transport t) \<longrightarrow> mget (sn_settings n') ''ca_cert'' \<noteq> [] \<and>
      mget (sn_settings n') ''server_cert'' \<noteq> [] \<and> mget (sn_settings n') ''server_key'' \<noteq> [])"
  proof (cases rule: ensureTunnelCertificates_cases)
    case kept
    then have "n' = n\<lparr> sn_settings := sn_settings n \<rparr>" by simp
    with kept show ?thesis by blast
  next
    case (made h c)
    with assms(2) have "tc_ca_cert c \<noteq> []" "tc_server_cert c \<noteq> []" "tc_server_key c \<noteq> []"
      unfolding prep_env_ok_def by blast+
    with made assms(3) show ?thesis by auto
  qed
  then show "\<exists>x. n' = n\<lparr> sn_settings := x \<rparr>"
    and "mget (sn_settings n') ''secret'' = mget (sn_settings n) ''secret''"
    and "carries_certs (tun_transport t) \<longrightarrow> mget (sn_settings n') ''ca_cert'' \<noteq> [] \<and>
      mget (sn_settings n') ''server_cert'' \<noteq> [] \<and> mget (sn_settings n') ''server_key'' \<noteq> []"
    by blast+
qed

lemma link_node_Inr:
  assumes "link_node env t real old n st = Inr (n', st')" and "prep_env_ok env"
  shows "\<exists>a. pp_allocations st' = pp_allocations st @ [a] \<and> pp_seen_nodes st' = pp_seen_nodes st \<and>
    sn_node_id n' = sn_node_id n \<and> sn_weight n' = sn_weight n \<and> sn_protocols n' = sn_protocols n \<and>
    sn_listen n' \<noteq> [] \<and> (sn_public n' \<noteq> [] \<or> sn_connect n' \<noteq> []) \<and> mget (sn_settings n') ''secret'' \<noteq> [] \<and>
    (carries_certs (tun_transport t) \<longrightarrow> mget (sn_settings n') ''ca_cert'' \<noteq> [] \<and>
       mget (sn_settings n') ''server_cert'' \<noteq> [] \<and> mget (sn_settings n') ''server_key'' \<noteq> []) \<and>
    pa_owner_kind a = ''tunnel_stage_node'' \<and> pa_owner_id a = sn_id n' \<and> pa_node_id a = nd_id real \<and>
    pa_protocol a = ''tcp'' \<and> pa_bind a = sn_listen n' \<and> ensurePortInRange real (pa_port a) = None"
proof -
  define n1 where "n1 = n\<lparr> sn_listen := (if sn_listen n = [] then sn_listen old else sn_listen n),
    sn_public := (if sn_public n = [] then sn_public old else sn_public n),
    sn_connect := (if sn_connect n = [] then sn_connect old else sn_connect n) \<rparr>"
  from assms(1) obtain port listen used where p: "stage_node_port real (sn_listen n1) (pp_used st) = Inr (port, listen, used)"
    unfolding link_node_def Let_def n1_def [symmetric] by (auto simp: err_simps)
  define pub where "pub = (if sn_public n1 = [] \<and> defaultNodePublicHost env real \<noteq> []
    then join_host_port (defaultNodePublicHost env real) (itoa port) else sn_public n1)"
  define n2 where "n2 = n1\<lparr> sn_listen := listen, sn_public := pub \<rparr>"
  from assms(1) p have ok: "pub \<noteq> [] \<or> sn_connect n2 \<noteq> []"
    unfolding link_node_def Let_def n1_def [symmetric] pub_def [symmetric] n2_def
    by (auto simp: pub_def [symmetric] split: if_splits)
  with assms(1) p obtain s k where s: "stage_node_secret env (pp_tick st) (sn_settings n2) = Inr (s, k)"
    unfolding link_node_def Let_def n1_def [symmetric] n2_def
    by (auto simp: err_simps pub_def [symmetric] split: if_splits)
  with assms(1) p ok obtain k1 where c: "ensureTunnelCertificates env k t (n2\<lparr> sn_settings := s \<rparr>) = Inr (n', k1)"
    and st: "st' = st\<lparr> pp_tick := k1 + 1, pp_used := used, pp_allocations := pp_allocations st @
       [\<lparr> pa_id = pe_id env k1 ''alloc'', pa_node_id = nd_id real, pa_owner_kind = ''tunnel_stage_node'',
          pa_owner_id = sn_id n', pa_protocol = ''tcp'', pa_port = port, pa_bind = sn_listen n',
          pa_created_at = 0, pa_updated_at = 0 \<rparr>] \<rparr>"
    unfolding link_node_def Let_def n1_def [symmetric] n2_def
    by (auto simp: err_simps pub_def [symmetric] split: if_splits)
  note sec = stage_node_secret_Inr [OF s assms(2)]
  note cert = ensureTunnelCertificates_Inr [OF c assms(2)]
  obtain x where "n' = n2\<lparr> sn_settings := x \<rparr>" using cert(1) sec(1) by auto
  then have "sn_node_id n' = sn_node_id n" "sn_weight n' = sn_weight n" "sn_protocols n' = sn_protocols n"
    "sn_listen n' = listen" "sn_public n' = pub" "sn_connect n' = sn_connect n2"
    by (simp_all add: n2_def n1_def)
  then show ?thesis
    using st ok sec cert(2,3) stage_node_port_Inr [OF p] by simp
qed

lemma map_of_nodes: "map_of (rev (map (\<lambda>x. (nd_id x, x)) nodes)) i = Some nd \<Longrightarrow> nd \<in> set nodes \<and> nd_id nd = i"
  by (drule map_of_SomeD) auto

lemma stage_node_id_simps: "stage_node_id_for env old given st = (nid, st') \<Longrightarrow>
  pp_allocations st' = pp_allocations st \<and> pp_seen_nodes st' = pp_seen_nodes st"
  by (auto simp: stage_node_id_for_def Let_def split: if_splits)

lemma prepare_node_Inr:
  assumes "prepare_node env nodes existing t i s n st = Inr (n', st')" and "prep_env_ok env"
  shows "node_prepared nodes t (stg_role s) n' \<and> sn_node_id n' \<notin> set (pp_seen_nodes st) \<and>
    pp_seen_nodes st' = sn_node_id n' # pp_seen_nodes st \<and>
    (if link_role t (stg_role s) then \<exists>a. pp_allocations st' = pp_allocations st @ [a] \<and> link_alloc nodes n' a
     else pp_allocations st' = pp_allocations st)"
proof -
  define i0 where "i0 = trim_space (sn_node_id n)"
  from assms(1) obtain real where i0: "i0 \<noteq> []" "i0 \<notin> set (pp_seen_nodes st)"
    and real: "map_of (rev (map (\<lambda>x. (nd_id x, x)) nodes)) i0 = Some real" "\<not> nd_revoked real"
    unfolding prepare_node_def Let_def i0_def by (auto split: if_splits option.splits)
  note rl = map_of_nodes [OF real(1)]
  define old where "old = findExistingStageNode existing i i0"
  obtain nid st1 where id: "stage_node_id_for env (sn_id old) (trim_space (sn_id n))
      (st\<lparr> pp_seen_nodes := i0 # pp_seen_nodes st \<rparr>) = (nid, st1)" by force
  have st1: "pp_allocations st1 = pp_allocations st" "pp_seen_nodes st1 = i0 # pp_seen_nodes st"
    using stage_node_id_simps [OF id] by simp_all
  define n1 where "n1 = n\<lparr> sn_tunnel_id := tun_id t, sn_stage_id := stg_id s, sn_node_id := i0, sn_id := nid,
    sn_weight := (if sn_weight n \<le> 0 then 1 else sn_weight n) \<rparr>"
  from assms(1) i0 real id obtain ps where ps: "normalizeStageNodeProtocols (sn_protocols n1) = Inr ps"
    unfolding prepare_node_def Let_def i0_def [symmetric] old_def [symmetric] n1_def by (auto simp: err_simps)
  from assms(1) i0 real id ps obtain settings where m: "mergeSettings (sn_settings old) (sn_settings n1) = Some settings"
    unfolding prepare_node_def Let_def i0_def [symmetric] old_def [symmetric] n1_def
    by (auto split: option.splits)
  define n2 where "n2 = n1\<lparr> sn_protocols := ps, sn_settings := settings \<rparr>"
  have res: "(if tun_type t = TunnelDirect \<or> stg_role s = StageEntry then
      Inr (n2\<lparr> sn_listen := [], sn_public := [], sn_connect := trim_space (sn_connect n2), sn_settings := Some [] \<rparr>, st1)
    else link_node env t real old n2 st1) = Inr (n', st')"
    using assms(1) i0 real id ps m unfolding prepare_node_def Let_def i0_def [symmetric] old_def [symmetric] n2_def n1_def
    by auto
  have n2: "sn_node_id n2 = i0" "0 < sn_weight n2" "sn_protocols n2 = ps" by (simp_all add: n2_def n1_def)
  show ?thesis
  proof (cases "link_role t (stg_role s)")
    case True
    with res have "link_node env t real old n2 st1 = Inr (n', st')" by (auto simp: link_role_def)
    from link_node_Inr [OF this assms(2)] show ?thesis
      using True i0 real rl st1 n2 normalizeStageNodeProtocols_Inr(1) [OF ps]
      by (auto simp: node_prepared_def link_alloc_def)
  next
    case False
    with res have "n' = n2\<lparr> sn_listen := [], sn_public := [], sn_connect := trim_space (sn_connect n2), sn_settings := Some [] \<rparr>"
      "st' = st1" by (auto simp: link_role_def split: if_splits)
    then show ?thesis
      using False i0 real rl st1 n2 normalizeStageNodeProtocols_Inr(1) [OF ps]
      by (auto simp: node_prepared_def)
  qed
qed

definition link_nodes :: "tunnel \<Rightarrow> tunnel_stage list \<Rightarrow> stage_node list" where
  "link_nodes t ss = concat (map (\<lambda>s. if link_role t (stg_role s) then stg_nodes s else []) ss)"

lemma prepare_nodes_Inr:
  assumes "prepare_nodes env nodes existing t i s ns st = Inr (ns', st')" and "prep_env_ok env"
  shows "length ns' = length ns \<and> (\<forall>n\<in>set ns'. node_prepared nodes t (stg_role s) n) \<and>
    pp_seen_nodes st' = rev (map sn_node_id ns') @ pp_seen_nodes st \<and>
    (distinct (pp_seen_nodes st) \<longrightarrow> distinct (pp_seen_nodes st')) \<and>
    (\<exists>as. pp_allocations st' = pp_allocations st @ as \<and>
       list_all2 (link_alloc nodes) (if link_role t (stg_role s) then ns' else []) as)"
  using assms(1)
proof (induction ns arbitrary: ns' st)
  case Nil
  then show ?case by auto
next
  case (Cons n ns)
  from Cons.prems obtain m st1 ms where m: "prepare_node env nodes existing t i s n st = Inr (m, st1)"
    and ms: "prepare_nodes env nodes existing t i s ns st1 = Inr (ms, st')" and ns': "ns' = m # ms"
    by (auto simp: err_simps)
  from Cons.IH [OF ms] prepare_node_Inr [OF m assms(2)] show ?case
    by (auto simp: ns' list_all2_Cons1 split: if_splits) blast+
qed

lemma stage_header_facts:
  assumes "stage_header env existing requested t cnt i s st = (s1, st1)"
  shows "stg_index s1 = int i" and "stg_role s1 = roleForStage (tun_type t) i cnt"
    and "stg_tunnel_id s1 = tun_id t" and "stg_nodes s1 = stg_nodes s"
    and "pp_allocations st1 = pp_allocations st" and "pp_seen_nodes st1 = pp_seen_nodes st"
proof -
  obtain sid st2 where sid: "stage_id_for env existing requested i (trim_space (stg_id s)) st = (sid, st2)" by force
  then have "pp_allocations st2 = pp_allocations st" "pp_seen_nodes st2 = pp_seen_nodes st"
    by (auto simp: stage_id_for_def Let_def split: if_splits)
  moreover have "st1 = st2" "stg_index s1 = int i" "stg_role s1 = roleForStage (tun_type t) i cnt"
    "stg_tunnel_id s1 = tun_id t" "stg_nodes s1 = stg_nodes s"
    using assms by (auto simp: stage_header_def sid)
  ultimately show "stg_index s1 = int i" and "stg_role s1 = roleForStage (tun_type t) i cnt"
    and "stg_tunnel_id s1 = tun_id t" and "stg_nodes s1 = stg_nodes s"
    and "pp_allocations st1 = pp_allocations st" and "pp_seen_nodes st1 = pp_seen_nodes st" by simp_all
qed

lemma prepare_stages_Inr:
  assumes "prepare_stages env nodes existing requested t cnt i ss st = Inr (ss', st')" and "prep_env_ok env"
  shows "length ss' = length ss \<and>
    (\<forall>j<length ss'. stg_index (ss' ! j) = int (i + j) \<and> stg_role (ss' ! j) = roleForStage (tun_type t) (i + j) cnt \<and>
       stg_tunnel_id (ss' ! j) = tun_id t \<and> stg_nodes (ss' ! j) \<noteq> [] \<and>
       (\<forall>n\<in>set (stg_nodes (ss' ! j)). node_prepared nodes t (stg_role (ss' ! j)) n)) \<and>
    set (pp_seen_nodes st') = set (tunnel_node_ids ss') \<union> set (pp_seen_nodes st) \<and>
    (distinct (pp_seen_nodes st) \<longrightarrow> distinct (tunnel_node_ids ss') \<and> distinct (pp_seen_nodes st') \<and>
       set (tunnel_node_ids ss') \<inter> set (pp_seen_nodes st) = {}) \<and>
    (\<exists>as. pp_allocations st' = pp_allocations st @ as \<and> list_all2 (link_alloc nodes) (link_nodes t ss') as)"
  using assms(1)
proof (induction ss arbitrary: i ss' st)
  case Nil
  then show ?case by (auto simp: tunnel_node_ids_def link_nodes_def)
next
  case (Cons s ss)
  obtain s1 st1 where h: "stage_header env existing requested t cnt i s st = (s1, st1)" by force
  with Cons.prems obtain ns st2 rs where ne: "stg_nodes s1 \<noteq> []"
    and ns: "prepare_nodes env nodes existing t i s1 (stg_nodes s1) st1 = Inr (ns, st2)"
    and rs: "prepare_stages env nodes existing requested t cnt (i + 1) ss st2 = Inr (rs, st')"
    and ss': "ss' = s1\<lparr> stg_nodes := ns \<rparr> # rs"
    by (auto simp: err_simps split: if_splits)
  note f = stage_header_facts [OF h]
  note N = prepare_nodes_Inr [OF ns assms(2)]
  note R = Cons.IH [OF rs]
  from N have ns_ne: "ns \<noteq> []" using ne by (metis length_0_conv)
  have split: "set (tunnel_node_ids ss') = sn_node_id ` set ns \<union> set (tunnel_node_ids rs)"
    "distinct (tunnel_node_ids ss') \<longleftrightarrow> distinct (map sn_node_id ns) \<and> distinct (tunnel_node_ids rs) \<and>
       sn_node_id ` set ns \<inter> set (tunnel_node_ids rs) = {}"
    by (auto simp: ss' tunnel_node_ids_def)
  from N obtain as where as: "pp_allocations st2 = pp_allocations st @ as"
      "list_all2 (link_alloc nodes) (if link_role t (stg_role s1) then ns else []) as"
    unfolding f(5) by blast
  from R obtain bs where bs: "pp_allocations st' = pp_allocations st2 @ bs"
      "list_all2 (link_alloc nodes) (link_nodes t rs) bs"
    by blast
  have A: "\<exists>as. pp_allocations st' = pp_allocations st @ as \<and> list_all2 (link_alloc nodes) (link_nodes t ss') as"
    using as bs by (intro exI [of _ "as @ bs"]) (auto simp: link_nodes_def ss' intro!: list_all2_appendI)
  have S: "\<forall>j<length ss'. stg_index (ss' ! j) = int (i + j) \<and>
      stg_role (ss' ! j) = roleForStage (tun_type t) (i + j) cnt \<and>
      stg_tunnel_id (ss' ! j) = tun_id t \<and> stg_nodes (ss' ! j) \<noteq> [] \<and>
      (\<forall>n\<in>set (stg_nodes (ss' ! j)). node_prepared nodes t (stg_role (ss' ! j)) n)"
    using N R f ns_ne by (auto simp: ss' nth_Cons split: nat.splits)
  have seen: "set (pp_seen_nodes st2) = sn_node_id ` set ns \<union> set (pp_seen_nodes st)"
    using N f by simp
  have dist: "distinct (pp_seen_nodes st) \<longrightarrow> distinct (pp_seen_nodes st2) \<and> distinct (map sn_node_id ns) \<and>
      sn_node_id ` set ns \<inter> set (pp_seen_nodes st) = {}"
    using N f by (auto simp: distinct_map) blast
  have R': "set (pp_seen_nodes st') = set (tunnel_node_ids rs) \<union> set (pp_seen_nodes st2)"
    "distinct (pp_seen_nodes st2) \<longrightarrow> distinct (tunnel_node_ids rs) \<and> distinct (pp_seen_nodes st') \<and>
       set (tunnel_node_ids rs) \<inter> set (pp_seen_nodes st2) = {}" "length rs = length ss"
    using R by blast+
  show ?case
  proof (intro conjI impI)
    show "length ss' = length (s # ss)" using R'(3) by (simp add: ss')
    show "set (pp_seen_nodes st') = set (tunnel_node_ids ss') \<union> set (pp_seen_nodes st)"
      unfolding R'(1) split(1) seen by blast
    assume d: "distinct (pp_seen_nodes st)"
    note D = mp [OF dist d] mp [OF R'(2) conjunct1 [OF mp [OF dist d]]]
    show "distinct (tunnel_node_ids ss')" unfolding split(2) using D seen by blast
    show "distinct (pp_seen_nodes st')" using D by blast
    show "set (tunnel_node_ids ss') \<inter> set (pp_seen_nodes st) = {}" unfolding split(1) using D seen by blast
  qed (fact S A)+
qed

lemma prepareTunnel_Inr:
  assumes "prepareTunnel env req = Inr (t, as)"
  obtains t0 nodes existing requested st ss st' where "pe_nodes env = Some nodes"
    "pp_seen_nodes st = []" "pp_allocations st = []"
    "prepare_stages env nodes existing requested t0 (length (tun_stages t0)) 0 (tun_stages t0) st = Inr (ss, st')"
    "finish_tunnel env nodes (t0\<lparr> tun_stages := ss \<rparr>) st' = Inr (t, as)"
proof -
  obtain t0 existing k where b: "request_base env req = (t0, existing, k)" by (metis prod_cases3)
  from assms obtain nodes allocs where n: "pe_nodes env = Some nodes"
    and p: "prepare_from env nodes allocs t0 existing k = Inr (t, as)"
    by (auto simp: prepareTunnel_def b split: option.splits)
  from p show ?thesis
    unfolding prepare_from_def Let_def
    by (auto simp: err_simps intro!: that [OF n])
qed

lemma finish_tunnel_Inr:
  assumes "finish_tunnel env nodes t st = Inr (t', as)"
  shows "tun_stages t' = tun_stages t" and "tun_type t' = tun_type t" and "tun_transport t' = tun_transport t"
    and "tun_id t' = tun_id t" and "as = pp_allocations st"
  using assms by (auto simp: finish_tunnel_def err_simps split: if_splits)

lemma prepared_cong:
  "tun_type t = tun_type t' \<Longrightarrow> tun_transport t = tun_transport t' \<Longrightarrow> node_prepared nodes t role n = node_prepared nodes t' role n"
  "tun_type t = tun_type t' \<Longrightarrow> link_nodes t ss = link_nodes t' ss"
  by (simp_all add: node_prepared_def link_nodes_def link_role_def)

lemma prepared_allocs:
  assumes "prepareTunnel env req = Inr (t, as)" and "prep_env_ok env"
  obtains nodes where "pe_nodes env = Some nodes" "list_all2 (link_alloc nodes) (link_nodes t (tun_stages t)) as"
proof -
  obtain t0 nodes existing requested st ss st' where
    n: "pe_nodes env = Some nodes" and st: "pp_allocations st = []"
    and ps: "prepare_stages env nodes existing requested t0 (length (tun_stages t0)) 0 (tun_stages t0) st = Inr (ss, st')"
    and fin: "finish_tunnel env nodes (t0\<lparr> tun_stages := ss \<rparr>) st' = Inr (t, as)"
    by (rule prepareTunnel_Inr [OF assms(1)])
  note f = finish_tunnel_Inr [OF fin, simplified]
  from prepare_stages_Inr [OF ps assms(2)] obtain bs where "pp_allocations st' = pp_allocations st @ bs"
    "list_all2 (link_alloc nodes) (link_nodes t0 ss) bs" by (elim conjE exE)
  with f(1,5) st prepared_cong(2) [OF f(2)] n that show thesis by simp
qed

lemma prepared_owner:
  assumes "prepareTunnel env req = Inr (t, as)" and "prep_env_ok env" and "a \<in> set as"
  shows "pa_owner_kind a = ''tunnel_stage_node'' \<and> pa_owner_id a \<in> sn_id ` set (concat (map stg_nodes (tun_stages t)))"
proof -
  obtain nodes where "list_all2 (link_alloc nodes) (link_nodes t (tun_stages t)) as"
    using prepared_allocs [OF assms(1,2)] by blast
  with assms(3) obtain n where "n \<in> set (link_nodes t (tun_stages t))" "link_alloc nodes n a"
    by (metis in_set_conv_nth list_all2_conv_all_nth)
  then show ?thesis by (auto simp: link_nodes_def link_alloc_def split: if_splits)
qed

lemma prepared_forward_owner:
  "prepareForward env req = Inr (f, as) \<Longrightarrow> a \<in> set as \<Longrightarrow> pa_owner_kind a = ''forward'' \<and> pa_owner_id a = fwd_id f"
  by (erule prepareForward_Inr) (use forward_allocations_mem(1) in blast)

text \<open>C2: a tunnel that was prepared has its stages numbered in order with the roles of their positions,
  none of them empty; no node appears twice and all of them are nodes of the controller that are not
  revoked; every node that other relays connect to has an address to listen on and one to be reached
  at, a secret and, on TLS, its certificates, and exactly one port allocation in its range; the others
  have no settings and no allocation.\<close>

theorem prepared_tunnel:
  assumes "prepareTunnel env req = Inr (t, as)" and "prep_env_ok env"
  shows "\<exists>nodes. pe_nodes env = Some nodes \<and>
    (\<forall>j<length (tun_stages t). stg_index (tun_stages t ! j) = int j \<and>
       stg_role (tun_stages t ! j) = roleForStage (tun_type t) j (length (tun_stages t)) \<and>
       stg_nodes (tun_stages t ! j) \<noteq> [] \<and>
       (\<forall>n\<in>set (stg_nodes (tun_stages t ! j)). node_prepared nodes t (stg_role (tun_stages t ! j)) n)) \<and>
    distinct (tunnel_node_ids (tun_stages t)) \<and>
    list_all2 (link_alloc nodes) (link_nodes t (tun_stages t)) as"
proof -
  obtain t0 nodes existing requested st ss st' where
    n: "pe_nodes env = Some nodes" and st: "pp_seen_nodes st = []"
    and ps: "prepare_stages env nodes existing requested t0 (length (tun_stages t0)) 0 (tun_stages t0) st = Inr (ss, st')"
    and fin: "finish_tunnel env nodes (t0\<lparr> tun_stages := ss \<rparr>) st' = Inr (t, as)"
    by (rule prepareTunnel_Inr [OF assms(1)])
  note f = finish_tunnel_Inr [OF fin, simplified]
  note P = prepare_stages_Inr [OF ps assms(2)]
  have l: "length (tun_stages t) = length (tun_stages t0)" using P f(1) by (elim conjE) simp
  have d: "distinct (tunnel_node_ids (tun_stages t))" using P st(1) f(1) by (elim conjE) simp
  have al: "list_all2 (link_alloc nodes) (link_nodes t (tun_stages t)) as"
    using prepared_allocs [OF assms] n by auto
  have "\<forall>j<length ss. stg_index (ss ! j) = int (0 + j) \<and>
      stg_role (ss ! j) = roleForStage (tun_type t0) (0 + j) (length (tun_stages t0)) \<and>
      stg_tunnel_id (ss ! j) = tun_id t0 \<and> stg_nodes (ss ! j) \<noteq> [] \<and>
      (\<forall>n\<in>set (stg_nodes (ss ! j)). node_prepared nodes t0 (stg_role (ss ! j)) n)"
    using P by (elim conjE)
  then have "\<forall>j<length (tun_stages t). stg_index (tun_stages t ! j) = int j \<and>
      stg_role (tun_stages t ! j) = roleForStage (tun_type t) j (length (tun_stages t)) \<and>
      stg_nodes (tun_stages t ! j) \<noteq> [] \<and>
      (\<forall>n\<in>set (stg_nodes (tun_stages t ! j)). node_prepared nodes t (stg_role (tun_stages t ! j)) n)"
    unfolding l unfolding f(1,2) prepared_cong(1) [OF f(2,3)] by (simp only: l [unfolded f(1)] add_0) blast
  with n d al show ?thesis by (intro exI [of _ nodes] conjI)
qed

section \<open>Witnesses\<close>

definition ex_real_node :: "string \<Rightarrow> node" where
  "ex_real_node i = \<lparr> nd_id = i, nd_name = i, nd_status = NodeOnline, nd_version = [], nd_desired = [],
     nd_update = [], nd_update_error = [], nd_requested_at = 0, nd_finished_at = 0, nd_labels = Some [],
     nd_public_host = ''10.0.0.1'', nd_port_min = 80, nd_port_max = 89, nd_approved = True,
     nd_revoked = False, nd_last_seen = 0, nd_created_at = 0, nd_updated_at = 0,
     nd_system = \<lparr> sys_hostname = [], sys_os = [], sys_arch = [], sys_ip = [] \<rparr> \<rparr>"

definition ex_tunnel_request :: tunnel_request where
  "ex_tunnel_request = \<lparr> trq_id = [], trq_name = ''chain'', trq_type = TunnelChain, trq_transport = [],
     trq_entry_address = None, trq_enabled = None, trq_settings = None, trq_entry_node = ''a'',
     trq_middle_nodes = [], trq_exit_node = ''b'', trq_stages = [] \<rparr>"

definition ex_other_allocation :: port_allocation where
  "ex_other_allocation = \<lparr> pa_id = ''x'', pa_node_id = ''a'', pa_owner_kind = ''forward'', pa_owner_id = ''other'',
     pa_protocol = ''tcp'', pa_port = 80, pa_bind = '':80'', pa_created_at = 0, pa_updated_at = 0 \<rparr>"

definition ex_prep_env :: prep_env where
  "ex_prep_env = \<lparr> pe_id = (\<lambda>k p. p @ nat_str k), pe_token = (\<lambda>k. Some ''token''), pe_certs = (\<lambda>k i h. None),
     pe_parse_ip = (\<lambda>a. None), pe_nodes = Some [ex_real_node ''a'', ex_real_node ''b''],
     pe_allocations = Some [ex_other_allocation], pe_get_node = (\<lambda>i. Some (ex_real_node i)),
     pe_get_tunnel = (\<lambda>i. if i = ''t'' then Some ex_chain else None), pe_get_forward = (\<lambda>i. None) \<rparr>"

definition ex_forward_request :: forward_request where
  "ex_forward_request = \<lparr> frq_id = ''f'', frq_name = ''web'', frq_tunnel_id = ''t'', frq_protocols = [ProtoTCP],
     frq_listen = [], frq_target = ''10.0.0.9:80'', frq_targets = None, frq_strategy = [], frq_tcp_strategy = [],
     frq_udp_strategy = [], frq_enabled = None \<rparr>"

lemma ex_prepared: "case prepareForward ex_prep_env ex_forward_request of Inl e \<Rightarrow> False
  | Inr (f, as) \<Rightarrow> as \<noteq> [] \<and> fwd_id f = ''f'' \<and> fwd_protocols f = [ProtoTCP]"
  by code_simp

theorem prepared_forward_witness:
  "\<exists>f as. prepareForward ex_prep_env ex_forward_request = Inr (f, as) \<and>
     (\<exists>a\<in>set as. pa_protocol a = ProtoTCP \<and> (pa_node_id a, pa_protocol a, pa_port a) \<noteq> (''a'', ''tcp'', 80))"
proof -
  obtain f as where r: "prepareForward ex_prep_env ex_forward_request = Inr (f, as)" and f: "fwd_id f = ''f''"
    "fwd_protocols f = [ProtoTCP]" using ex_prepared by (auto split: sum.splits)
  have st: "pe_allocations ex_prep_env = Some [ex_other_allocation]" by (simp add: ex_prep_env_def)
  note p = prepared_forward [OF r st]
  from p f(2) obtain a where a: "a \<in> set as" "pa_protocol a = ProtoTCP" by auto
  with p have "\<forall>b\<in>set [ex_other_allocation]. pa_owner_id b \<noteq> fwd_id f \<longrightarrow>
      (pa_node_id b, pa_protocol b, pa_port b) \<noteq> (pa_node_id a, pa_protocol a, pa_port a)" by blast
  then have "(pa_node_id a, pa_protocol a, pa_port a) \<noteq> (''a'', ''tcp'', 80)"
    by (auto simp: ex_other_allocation_def f(1))
  with r a show ?thesis by blast
qed

lemma ex_prepared_tunnel: "case prepareTunnel ex_prep_env ex_tunnel_request of Inl e \<Rightarrow> False
  | Inr (t, as) \<Rightarrow> length (tun_stages t) = 2"
  by code_simp

theorem prepared_tunnel_witness:
  "\<exists>t as. prepareTunnel ex_prep_env ex_tunnel_request = Inr (t, as) \<and> distinct (tunnel_node_ids (tun_stages t)) \<and>
     (\<forall>n\<in>set (stg_nodes (tun_stages t ! 1)). sn_node_id n \<in> {''a'', ''b''})"
proof -
  obtain t as where r: "prepareTunnel ex_prep_env ex_tunnel_request = Inr (t, as)" and l: "length (tun_stages t) = 2"
    using ex_prepared_tunnel by (auto split: sum.splits)
  have ok: "prep_env_ok ex_prep_env" by (auto simp: prep_env_ok_def ex_prep_env_def)
  obtain nodes where nodes: "pe_nodes ex_prep_env = Some nodes" and d: "distinct (tunnel_node_ids (tun_stages t))"
    and j: "\<forall>j<length (tun_stages t). stg_index (tun_stages t ! j) = int j \<and>
       stg_role (tun_stages t ! j) = roleForStage (tun_type t) j (length (tun_stages t)) \<and>
       stg_nodes (tun_stages t ! j) \<noteq> [] \<and>
       (\<forall>n\<in>set (stg_nodes (tun_stages t ! j)). node_prepared nodes t (stg_role (tun_stages t ! j)) n)"
    using prepared_tunnel [OF r ok] by blast
  have n: "nodes = [ex_real_node ''a'', ex_real_node ''b'']" using nodes by (simp add: ex_prep_env_def)
  have "1 < length (tun_stages t)" by (simp add: l)
  then have "\<forall>n\<in>set (stg_nodes (tun_stages t ! 1)). node_prepared nodes t (stg_role (tun_stages t ! 1)) n"
    using j by blast
  then have "\<forall>n\<in>set (stg_nodes (tun_stages t ! 1)). sn_node_id n \<in> {''a'', ''b''}"
    by (auto simp: node_prepared_def n ex_real_node_def)
  with r d show ?thesis by blast
qed

text \<open>A new node of a stage that comes with settings of its own makes the code write to a nil map.\<close>

lemma new_node_settings_panic:
  "prepareTunnel ex_prep_env (ex_tunnel_request\<lparr> trq_stages :=
     [zero_stage\<lparr> stg_nodes := [zero_stage_node\<lparr> sn_node_id := ''a'', sn_settings := Some [(''note'', ''x'')] \<rparr>] \<rparr>] \<rparr>)
   = Inl PNilMapPanic"
  by code_simp

end
