(* ===== verification/StoreConfig.thy ===== *)
theory StoreConfig
  imports StoreTunnels
begin

text \<open>
  The configuration in the store as a whole: the consistency of its tables (unique keys, stages and stage
  nodes that belong to their tunnel, port allocations that belong to something that exists) and its
  preservation by every operation of StoreTunnels, and what is read back after it was saved.
\<close>

section \<open>Consistency\<close>

definition tables_unique :: "db \<Rightarrow> bool" where
  "tables_unique d \<longleftrightarrow> unique_by tun_id (db_tunnels d) \<and> unique_by stg_id (db_stages d) \<and>
     unique_by stage_slot (db_stages d) \<and> unique_by sn_id (db_stage_nodes d) \<and> unique_by fwd_id (db_forwards d) \<and>
     unique_by tgt_id (db_targets d) \<and> unique_by pa_id (db_allocs d) \<and> unique_by alloc_slot (db_allocs d)"

definition stages_owned :: "db \<Rightarrow> bool" where
  "stages_owned d \<longleftrightarrow> (\<forall>s\<in>set (db_stages d). stg_nodes s = [] \<and> stg_tunnel_id s \<in> tun_id ` set (db_tunnels d)) \<and>
     (\<forall>n\<in>set (db_stage_nodes d). \<exists>s\<in>set (db_stages d). stg_id s = sn_stage_id n \<and> stg_tunnel_id s = sn_tunnel_id n)"

definition targets_owned :: "db \<Rightarrow> bool" where
  "targets_owned d \<longleftrightarrow> (\<forall>t\<in>set (db_targets d). tgt_forward_id t \<in> fwd_id ` set (db_forwards d))"

definition ports_owned :: "db \<Rightarrow> bool" where
  "ports_owned d \<longleftrightarrow> (\<forall>a\<in>set (db_allocs d).
     owned_by ''tunnel_stage_node'' (map sn_id (db_stage_nodes d)) a \<or> owned_by ''forward'' (map fwd_id (db_forwards d)) a)"

definition config_inv :: "db \<Rightarrow> bool" where
  "config_inv d \<longleftrightarrow> tables_unique d \<and> stages_owned d \<and> targets_owned d \<and> ports_owned d"

lemmas config_inv_defs = config_inv_def tables_unique_def stages_owned_def targets_owned_def ports_owned_def

text \<open>What the server passes as allocations: those of the tunnel's own stage nodes, and of the forward itself.\<close>

definition tunnel_allocs :: "tunnel \<Rightarrow> port_allocation list \<Rightarrow> bool" where
  "tunnel_allocs t as \<longleftrightarrow> (\<forall>a\<in>set as. owned_by ''tunnel_stage_node'' (map sn_id (concat (map stg_nodes (tun_stages t)))) a)"

definition forward_allocs :: "forward \<Rightarrow> port_allocation list \<Rightarrow> bool" where
  "forward_allocs f as \<longleftrightarrow> (\<forall>a\<in>set as. owned_by ''forward'' [fwd_id f] a)"

inductive config_step :: "vault \<Rightarrow> db \<Rightarrow> int \<Rightarrow> db \<Rightarrow> bool" for va where
  save_tunnel: "SaveTunnel va rand now t as d = Inr (r, d') \<Longrightarrow> tunnel_allocs t as \<Longrightarrow> config_step va d r d'"
| delete_tunnel: "DeleteTunnel tid force d = Inr (r, d') \<Longrightarrow> config_step va d r d'"
| enable_tunnel: "SetTunnelEnabled now tid b d = Inr (r, d') \<Longrightarrow> config_step va d r d'"
| save_forward: "SaveForward now f as d = Inr (r, d') \<Longrightarrow> forward_allocs f as \<Longrightarrow> config_step va d r d'"
| delete_forward: "DeleteForward fid d = Inr (r, d') \<Longrightarrow> config_step va d r d'"
| enable_forward: "SetForwardEnabled now fid b d = Inr (r, d') \<Longrightarrow> config_step va d r d'"

section \<open>The operations on the tables\<close>

lemma bindE_Inr_cases [consumes 1, case_names Inr]:
  assumes "bindE r f = Inr y" obtains x where "r = Inr x" "f x = Inr y"
  using assms by (cases r) auto

text \<open>SaveTunnel: what the four tables it writes hold afterwards.\<close>

lemma clear_tunnel_simps [simp]:
  "db_tunnels (clear_tunnel_stages tid d) = db_tunnels d" "db_forwards (clear_tunnel_stages tid d) = db_forwards d"
  "db_targets (clear_tunnel_stages tid d) = db_targets d" "db_nodes (clear_tunnel_stages tid d) = db_nodes d"
  "db_settings (clear_tunnel_stages tid d) = db_settings d"
  "db_stages (clear_tunnel_stages tid d) = delete_where (\<lambda>s. stg_tunnel_id s = tid) (db_stages d)"
  "db_stage_nodes (clear_tunnel_stages tid d) = delete_where (\<lambda>n. sn_tunnel_id n = tid) (db_stage_nodes d)"
  "db_allocs (clear_tunnel_stages tid d) = delete_where (owned_by ''tunnel_stage_node'' (tunnel_node_ids tid d)) (db_allocs d)"
  by (simp_all add: clear_tunnel_stages_def)

definition tunnel_row :: "time \<Rightarrow> tunnel \<Rightarrow> settings \<Rightarrow> tunnel" where
  "tunnel_row now t p = t\<lparr> tun_settings := p, tun_stages := [],
     tun_created_at := (if tun_created_at t = zero_time then now else tun_created_at t), tun_updated_at := now \<rparr>"

lemma tunnel_row_simps [simp]: "tun_id (tunnel_row now t p) = tun_id t" "tun_settings (tunnel_row now t p) = p"
  by (simp_all add: tunnel_row_def)

lemma SaveTunnel_Inr:
  assumes "SaveTunnel va rand now t as d = Inr (r, d')" and "tables_unique d"
  obtains p ch nss d3 where
    "protectSettings (va_seal va) (va_open va) (va_secret_key va) (rand (''tunnel:'' @ tun_id t)) (emptyMap (tun_settings t))
       (''tunnel:'' @ tun_id t) = Inr (p, ch)"
    "db_tunnels d' = upsert tun_id (\<lambda>old. (tunnel_row now t p)\<lparr> tun_created_at := tun_created_at old \<rparr>) (tunnel_row now t p) (db_tunnels d)"
    "db_stages d' = delete_where (\<lambda>s. stg_tunnel_id s = tun_id t) (db_stages d) @ map (stage_row now (tun_id t)) (tun_stages t)"
    "db_stage_nodes d' = delete_where (\<lambda>n. sn_tunnel_id n = tun_id t) (db_stage_nodes d) @ concat nss"
    "list_all2 (stage_saved va rand now (tun_id t)) (tun_stages t) nss"
    "db_allocs d' = delete_where (owned_by ''tunnel_stage_node'' (tunnel_node_ids (tun_id t) d)) (db_allocs d) @ map (alloc_row now) as"
    "db_forwards d' = db_forwards d" "db_targets d' = db_targets d" "tables_unique d'"
    "(r, d') = bumpRevisionTx d3" "db_settings d3 = db_settings d"
proof -
  let ?aad = "''tunnel:'' @ tun_id t"
  from assms(1) obtain p ch where
    p: "protectSettings (va_seal va) (va_open va) (va_secret_key va) (rand ?aad) (emptyMap (tun_settings t)) ?aad = Inr (p, ch)"
    unfolding SaveTunnel_def Let_def by (auto simp: err_simps simp del: append_Cons)
  define d1 where "d1 = d\<lparr> db_tunnels := upsert tun_id (\<lambda>old. (tunnel_row now t p)\<lparr> tun_created_at := tun_created_at old \<rparr>) (tunnel_row now t p) (db_tunnels d) \<rparr>"
  have "bindE (insert_stages va rand now (tun_id t) (tun_stages t) (clear_tunnel_stages (tun_id t) d1)) (\<lambda>d2.
        bindE (insertAllocations now as d2) (\<lambda>d3. Inr (bumpRevisionTx d3))) = Inr (r, d')"
    using assms(1) p unfolding SaveTunnel_def Let_def d1_def tunnel_row_def by (simp del: append_Cons)
  then obtain d2 d3 where st: "insert_stages va rand now (tun_id t) (tun_stages t) (clear_tunnel_stages (tun_id t) d1) = Inr d2"
    and al: "insertAllocations now as d2 = Inr d3" and bump: "bumpRevisionTx d3 = (r, d')"
    by (auto simp: err_simps)
  have d': "d' = snd (bumpRevisionTx d3)" using bump by simp
  from assms(2) have "unique_by sn_id (db_stage_nodes (clear_tunnel_stages (tun_id t) d1))"
    "unique_by stg_id (db_stages (clear_tunnel_stages (tun_id t) d1))" "unique_by stage_slot (db_stages (clear_tunnel_stages (tun_id t) d1))"
    by (auto simp: tables_unique_def d1_def)
  from insert_stages_Inr [OF st this] obtain nss where
    d2: "d2 = (clear_tunnel_stages (tun_id t) d1)\<lparr> db_stages := db_stages (clear_tunnel_stages (tun_id t) d1) @ map (stage_row now (tun_id t)) (tun_stages t),
      db_stage_nodes := db_stage_nodes (clear_tunnel_stages (tun_id t) d1) @ concat nss \<rparr>"
    and nss: "list_all2 (stage_saved va rand now (tun_id t)) (tun_stages t) nss"
    and u2: "unique_by sn_id (db_stage_nodes d2)" "unique_by stg_id (db_stages d2)" "unique_by stage_slot (db_stages d2)"
    by blast
  have "unique_by pa_id (db_allocs d2)" "unique_by alloc_slot (db_allocs d2)"
    using assms(2) by (auto simp: tables_unique_def d2 d1_def)
  from insertAllocations_Inr [OF al this]
  have d3: "d3 = d2\<lparr> db_allocs := db_allocs d2 @ map (alloc_row now) as \<rparr>"
    and u3: "unique_by pa_id (db_allocs d3)" "unique_by alloc_slot (db_allocs d3)" by blast+
  have u1: "unique_by tun_id (db_tunnels d1)"
    unfolding d1_def using assms(2) by (auto simp: tables_unique_def)
  have ids: "tunnel_node_ids (tun_id t) d1 = tunnel_node_ids (tun_id t) d" by (simp add: tunnel_node_ids_def d1_def)
  have sel: "db_tunnels d' = db_tunnels d1" "db_stages d' = db_stages d2" "db_stage_nodes d' = db_stage_nodes d2"
    "db_allocs d' = db_allocs d3" "db_forwards d' = db_forwards d" "db_targets d' = db_targets d"
    by (simp_all add: d' d3 d2 d1_def)
  have "tables_unique d'"
    unfolding tables_unique_def sel using u1 u2 u3 assms(2) by (simp add: tables_unique_def)
  moreover have "db_stages d2 = delete_where (\<lambda>s. stg_tunnel_id s = tun_id t) (db_stages d) @ map (stage_row now (tun_id t)) (tun_stages t)"
    "db_stage_nodes d2 = delete_where (\<lambda>n. sn_tunnel_id n = tun_id t) (db_stage_nodes d) @ concat nss"
    "db_allocs d3 = delete_where (owned_by ''tunnel_stage_node'' (tunnel_node_ids (tun_id t) d)) (db_allocs d) @ map (alloc_row now) as"
    "db_settings d3 = db_settings d"
    by (simp_all add: d3 d2 ids) (simp_all add: d1_def)
  ultimately show thesis
    using p nss bump sel by (intro that [of p ch nss d3]) (simp_all add: d1_def)
qed


lemma SaveForward_Inr:
  assumes "SaveForward now f as d = Inr (r, d')" and "tables_unique d"
  obtains row d3 where "fwd_id row = fwd_id f" "fwd_targets row = []" "fwd_name row = fwd_name f"
    "row = f\<lparr> fwd_target := (case fwd_targets f of [] \<Rightarrow> trim_space (fwd_target f) | t # _ \<Rightarrow> trim_space (tgt_address t)),
       fwd_targets := [], fwd_created_at := (if fwd_created_at f = zero_time then now else fwd_created_at f), fwd_updated_at := now \<rparr>"
    "db_forwards d' = upsert fwd_id (\<lambda>old. row\<lparr> fwd_created_at := fwd_created_at old \<rparr>) row (db_forwards d)"
    "db_targets d' = delete_where (\<lambda>t. tgt_forward_id t = fwd_id f) (db_targets d) @
       map (\<lambda>(k, t). target_row (fwd_id f) k t) (enumerate 0 (fwd_targets f))"
    "db_allocs d' = delete_where (owned_by ''forward'' [fwd_id f]) (db_allocs d) @ map (alloc_row now) as"
    "db_tunnels d' = db_tunnels d" "db_stages d' = db_stages d" "db_stage_nodes d' = db_stage_nodes d"
    "tables_unique d'" "(r, d') = bumpRevisionTx d3" "db_settings d3 = db_settings d"
proof -
  define row where "row = f\<lparr> fwd_target := (case fwd_targets f of [] \<Rightarrow> trim_space (fwd_target f) | t # _ \<Rightarrow> trim_space (tgt_address t)),
       fwd_targets := [], fwd_created_at := (if fwd_created_at f = zero_time then now else fwd_created_at f), fwd_updated_at := now \<rparr>"
  define d1 where "d1 = d\<lparr> db_forwards := upsert fwd_id (\<lambda>old. row\<lparr> fwd_created_at := fwd_created_at old \<rparr>) row (db_forwards d),
     db_allocs := delete_where (owned_by ''forward'' [fwd_id f]) (db_allocs d),
     db_targets := delete_where (\<lambda>t. tgt_forward_id t = fwd_id f) (db_targets d) \<rparr>"
  have "bindE (insert_targets (fwd_id f) 0 (fwd_targets f) d1) (\<lambda>d2. bindE (insertAllocations now as d2) (\<lambda>d3. Inr (bumpRevisionTx d3))) = Inr (r, d')"
    using assms(1) unfolding SaveForward_def Let_def d1_def row_def .
  then obtain d2 d3 where tg: "insert_targets (fwd_id f) 0 (fwd_targets f) d1 = Inr d2"
    and al: "insertAllocations now as d2 = Inr d3" and bump: "bumpRevisionTx d3 = (r, d')"
    by (auto simp: err_simps)
  have d': "d' = snd (bumpRevisionTx d3)" using bump by simp
  have "unique_by tgt_id (db_targets d1)" using assms(2) by (auto simp: tables_unique_def d1_def)
  from insert_targets_Inr [OF tg this]
  have d2: "d2 = d1\<lparr> db_targets := db_targets d1 @ map (\<lambda>(k, t). target_row (fwd_id f) k t) (enumerate 0 (fwd_targets f)) \<rparr>"
    and u2: "unique_by tgt_id (db_targets d2)" by blast+
  have "unique_by pa_id (db_allocs d2)" "unique_by alloc_slot (db_allocs d2)"
    using assms(2) by (auto simp: tables_unique_def d2 d1_def)
  from insertAllocations_Inr [OF al this]
  have d3: "d3 = d2\<lparr> db_allocs := db_allocs d2 @ map (alloc_row now) as \<rparr>"
    and u3: "unique_by pa_id (db_allocs d3)" "unique_by alloc_slot (db_allocs d3)" by blast+
  have id: "fwd_id row = fwd_id f" by (simp add: row_def)
  have u1: "unique_by fwd_id (db_forwards d1)"
    unfolding d1_def using assms(2) by (auto simp: tables_unique_def)
  have sel: "db_forwards d' = db_forwards d1" "db_targets d' = db_targets d2" "db_allocs d' = db_allocs d3"
    "db_tunnels d' = db_tunnels d" "db_stages d' = db_stages d" "db_stage_nodes d' = db_stage_nodes d"
    by (simp_all add: d' d3 d2 d1_def)
  have "tables_unique d'"
    unfolding tables_unique_def sel using u1 u2 u3 assms(2) by (simp add: tables_unique_def)
  moreover have "db_targets d2 = delete_where (\<lambda>t. tgt_forward_id t = fwd_id f) (db_targets d) @
       map (\<lambda>(k, t). target_row (fwd_id f) k t) (enumerate 0 (fwd_targets f))"
    "db_allocs d3 = delete_where (owned_by ''forward'' [fwd_id f]) (db_allocs d) @ map (alloc_row now) as"
    "db_settings d3 = db_settings d"
    by (simp_all add: d3 d2) (simp_all add: d1_def)
  moreover have "db_forwards d1 = upsert fwd_id (\<lambda>old. row\<lparr> fwd_created_at := fwd_created_at old \<rparr>) row (db_forwards d)"
    by (simp add: d1_def)
  ultimately show thesis
    using bump sel by (intro that [of row d3]) (simp_all add: row_def)
qed

lemma DeleteTunnel_Inr:
  assumes "DeleteTunnel tid force d = Inr (r, d')"
  obtains d3 where "forward_ids_of tid d = [] \<or> force"
    "db_tunnels d' = delete_where (\<lambda>t. tun_id t = tid) (db_tunnels d)"
    "db_stages d' = delete_where (\<lambda>s. stg_tunnel_id s = tid) (db_stages d)"
    "db_stage_nodes d' = delete_where (\<lambda>n. sn_tunnel_id n = tid) (db_stage_nodes d)"
    "db_forwards d' = delete_where (\<lambda>f. fwd_tunnel_id f = tid) (db_forwards d)"
    "db_targets d' = delete_where (\<lambda>t. tgt_forward_id t \<in> set (forward_ids_of tid d)) (db_targets d)"
    "db_allocs d' = delete_where (owned_by ''tunnel_stage_node'' (tunnel_node_ids tid d)) (delete_where (owned_by ''forward'' (forward_ids_of tid d)) (db_allocs d))"
    "tid \<in> tun_id ` set (db_tunnels d)" "(r, d') = bumpRevisionTx d3" "db_settings d3 = db_settings d"
proof -
  let ?fids = "forward_ids_of tid d"
  define d1 where "d1 = d\<lparr> db_allocs := delete_where (owned_by ''forward'' ?fids) (db_allocs d),
    db_targets := delete_where (\<lambda>t. tgt_forward_id t \<in> set ?fids) (db_targets d) \<rparr>"
  define d2 where "d2 = (clear_tunnel_stages tid d1)\<lparr>
    db_forwards := (if force then delete_where (\<lambda>f. fwd_tunnel_id f = tid) (db_forwards d) else db_forwards d) \<rparr>"
  define d3 where "d3 = d2\<lparr> db_tunnels := delete_where (\<lambda>t. tun_id t = tid) (db_tunnels d) \<rparr>"
  have guard: "?fids = [] \<or> force" and found: "affected (\<lambda>t. tun_id t = tid) (db_tunnels d) \<noteq> 0"
    and bump: "bumpRevisionTx d3 = (r, d')"
    using assms by (auto simp: DeleteTunnel_def Let_def d3_def d2_def d1_def split: if_splits)
  have d': "d' = snd (bumpRevisionTx d3)" using bump by simp
  have "delete_where (\<lambda>f. fwd_tunnel_id f = tid) (db_forwards d) = db_forwards d" if "?fids = []"
    using that by (auto simp: forward_ids_of_def delete_where_def filter_empty_conv intro!: filter_True)
  then have fw: "db_forwards d2 = delete_where (\<lambda>f. fwd_tunnel_id f = tid) (db_forwards d)"
    using guard by (auto simp: d2_def)
  have "tunnel_node_ids tid d1 = tunnel_node_ids tid d" by (simp add: tunnel_node_ids_def d1_def)
  then have sel: "db_tunnels d' = delete_where (\<lambda>t. tun_id t = tid) (db_tunnels d)"
    "db_stages d' = delete_where (\<lambda>s. stg_tunnel_id s = tid) (db_stages d)"
    "db_stage_nodes d' = delete_where (\<lambda>n. sn_tunnel_id n = tid) (db_stage_nodes d)"
    "db_forwards d' = delete_where (\<lambda>f. fwd_tunnel_id f = tid) (db_forwards d)"
    "db_targets d' = delete_where (\<lambda>t. tgt_forward_id t \<in> set ?fids) (db_targets d)"
    "db_allocs d' = delete_where (owned_by ''tunnel_stage_node'' (tunnel_node_ids tid d)) (delete_where (owned_by ''forward'' ?fids) (db_allocs d))"
    by (simp_all add: d' d3_def fw) (simp_all add: d2_def d1_def)
  have "tid \<in> tun_id ` set (db_tunnels d)" using found by (auto simp: affected_0)
  moreover have "db_settings d3 = db_settings d" by (simp add: d3_def d2_def d1_def)
  ultimately show thesis using guard sel bump by (intro that [of d3]) simp_all
qed

section \<open>Preservation\<close>

lemma owned_delete:
  "owned_by k (map f rows) a \<Longrightarrow> \<not> owned_by k (map f (filter P rows)) a \<Longrightarrow> owned_by k (map f (delete_where P rows)) a"
  by (auto simp: owned_by_def delete_where_def)

lemma image_update_where: "(\<And>r. key (f r) = key r) \<Longrightarrow> key ` set (update_where P f rows) = key ` set rows"
  by (metis key_image_update_where list.set_map)

lemma key_image_upsert:
  assumes "\<And>x. key x = key r \<Longrightarrow> key (merge x) = key r"
  shows "key ` set (upsert key merge r rows) = insert (key r) (key ` set rows)"
proof (cases "key_used key (key r) rows")
  case True
  have "map key (map (\<lambda>x. if key x = key r then merge x else x) rows) = map key rows" using assms by simp
  then have "set (map key (map (\<lambda>x. if key x = key r then merge x else x) rows)) = set (map key rows)" by simp
  then have "key ` set (upsert key merge r rows) = key ` set rows"
    using True by (simp only: upsert_def if_True set_map)
  with True show ?thesis by (auto simp: key_used_iff)
next
  case False
  then show ?thesis by (simp add: upsert_def)
qed

lemma saved_nodes_mem:
  "list_all2 (stage_saved va rand now tid) ss nss \<Longrightarrow> n \<in> set (concat nss) \<Longrightarrow>
     \<exists>s\<in>set ss. \<exists>m\<in>set (stg_nodes s). stage_node_saved va rand now tid (stg_id s) m n"
proof (induction ss nss rule: list_all2_induct)
  case (Cons s ss ns nss)
  show ?case
  proof (cases "n \<in> set ns")
    case True
    with Cons(1) have "\<exists>m\<in>set (stg_nodes s). stage_node_saved va rand now tid (stg_id s) m n"
      unfolding stage_saved_def by (metis in_set_conv_nth list_all2_conv_all_nth)
    then show ?thesis by simp
  next
    case False
    with Cons show ?thesis by simp
  qed
qed simp

lemma saved_stage_ids:
  "list_all2 (stage_node_saved va rand now tid sid) ns rows \<Longrightarrow> map sn_id rows = map sn_id ns"
  by (induction rule: list_all2_induct) (auto dest: stage_node_saved_simps)

lemma saved_node_ids:
  "list_all2 (stage_saved va rand now tid) ss nss \<Longrightarrow> map sn_id (concat nss) = map sn_id (concat (map stg_nodes ss))"
  by (induction rule: list_all2_induct) (auto simp: stage_saved_def saved_stage_ids)

lemma SaveTunnel_inv:
  assumes "SaveTunnel va rand now t as d = Inr (r, d')" "tunnel_allocs t as" "config_inv d"
  shows "config_inv d'"
proof -
  have u: "tables_unique d" using assms(3) by (simp add: config_inv_def)
  show ?thesis
  proof (rule SaveTunnel_Inr [OF assms(1) u])
    fix p nss
    let ?tid = "tun_id t"
    assume tun: "db_tunnels d' = upsert tun_id (\<lambda>old. (tunnel_row now t p)\<lparr> tun_created_at := tun_created_at old \<rparr>) (tunnel_row now t p) (db_tunnels d)"
      and st: "db_stages d' = delete_where (\<lambda>s. stg_tunnel_id s = ?tid) (db_stages d) @ map (stage_row now ?tid) (tun_stages t)"
      and sn: "db_stage_nodes d' = delete_where (\<lambda>n. sn_tunnel_id n = ?tid) (db_stage_nodes d) @ concat nss"
      and nss: "list_all2 (stage_saved va rand now ?tid) (tun_stages t) nss"
      and al: "db_allocs d' = delete_where (owned_by ''tunnel_stage_node'' (tunnel_node_ids ?tid d)) (db_allocs d) @ map (alloc_row now) as"
      and fw: "db_forwards d' = db_forwards d" "db_targets d' = db_targets d" and u': "tables_unique d'"
    have ids: "tun_id ` set (db_tunnels d') = insert ?tid (tun_id ` set (db_tunnels d))"
      unfolding tun by (subst key_image_upsert) simp_all
    have "stages_owned d'"
      unfolding stages_owned_def ids
    proof (intro conjI ballI)
      fix s assume "s \<in> set (db_stages d')"
      then show "stg_nodes s = []" "stg_tunnel_id s \<in> insert ?tid (tun_id ` set (db_tunnels d))"
        using assms(3) by (auto simp: st sql_simps config_inv_defs)
    next
      fix n assume "n \<in> set (db_stage_nodes d')"
      then consider (old) "n \<in> set (db_stage_nodes d)" "sn_tunnel_id n \<noteq> ?tid" | (new) "n \<in> set (concat nss)"
        by (auto simp: sn sql_simps)
      then show "\<exists>s\<in>set (db_stages d'). stg_id s = sn_stage_id n \<and> stg_tunnel_id s = sn_tunnel_id n"
      proof cases
        case old
        with assms(3) obtain s where "s \<in> set (db_stages d)" "stg_id s = sn_stage_id n" "stg_tunnel_id s = sn_tunnel_id n"
          by (auto simp: config_inv_def stages_owned_def)
        with old show ?thesis by (auto simp: st sql_simps)
      next
        case new
        from saved_nodes_mem [OF nss this] obtain s m where "s \<in> set (tun_stages t)" "stage_node_saved va rand now ?tid (stg_id s) m n" by blast
        then show ?thesis by (intro bexI [of _ "stage_row now ?tid s"]) (auto simp: st dest: stage_node_saved_simps)
      qed
    qed
    moreover have "targets_owned d'" using assms(3) by (simp add: config_inv_defs fw)
    moreover have "ports_owned d'"
      unfolding ports_owned_def
    proof
      fix a assume "a \<in> set (db_allocs d')"
      then consider (old) "a \<in> set (db_allocs d)" "\<not> owned_by ''tunnel_stage_node'' (tunnel_node_ids ?tid d) a"
        | (new) b where "b \<in> set as" "a = alloc_row now b"
        by (auto simp: al sql_simps)
      then show "owned_by ''tunnel_stage_node'' (map sn_id (db_stage_nodes d')) a \<or> owned_by ''forward'' (map fwd_id (db_forwards d')) a"
      proof cases
        case old
        moreover from old assms(3) have "owned_by ''tunnel_stage_node'' (map sn_id (db_stage_nodes d)) a \<or> owned_by ''forward'' (map fwd_id (db_forwards d)) a"
          by (simp add: config_inv_def ports_owned_def)
        ultimately have "owned_by ''tunnel_stage_node'' (map sn_id (delete_where (\<lambda>n. sn_tunnel_id n = ?tid) (db_stage_nodes d))) a \<or>
            owned_by ''forward'' (map fwd_id (db_forwards d)) a"
          unfolding tunnel_node_ids_def by (metis owned_delete)
        then show ?thesis by (auto simp: fw sn owned_by_def)
      next
        case new
        then have "owned_by ''tunnel_stage_node'' (map sn_id (concat nss)) a"
          using assms(2) unfolding saved_node_ids [OF nss] tunnel_allocs_def by simp
        then show ?thesis unfolding sn map_append by (auto simp: owned_by_def)
      qed
    qed
    ultimately show ?thesis using u' by (simp add: config_inv_def)
  qed
qed

lemma SaveForward_inv:
  assumes "SaveForward now f as d = Inr (r, d')" "forward_allocs f as" "config_inv d"
  shows "config_inv d'"
proof -
  have u: "tables_unique d" using assms(3) by (simp add: config_inv_def)
  show ?thesis
  proof (rule SaveForward_Inr [OF assms(1) u])
    fix row
    assume id: "fwd_id row = fwd_id f"
      and fw: "db_forwards d' = upsert fwd_id (\<lambda>old. row\<lparr> fwd_created_at := fwd_created_at old \<rparr>) row (db_forwards d)"
      and tg: "db_targets d' = delete_where (\<lambda>t. tgt_forward_id t = fwd_id f) (db_targets d) @
         map (\<lambda>(k, t). target_row (fwd_id f) k t) (enumerate 0 (fwd_targets f))"
      and al: "db_allocs d' = delete_where (owned_by ''forward'' [fwd_id f]) (db_allocs d) @ map (alloc_row now) as"
      and tun: "db_tunnels d' = db_tunnels d" "db_stages d' = db_stages d" "db_stage_nodes d' = db_stage_nodes d"
      and u': "tables_unique d'"
    have ids: "fwd_id ` set (db_forwards d') = insert (fwd_id f) (fwd_id ` set (db_forwards d))"
      unfolding fw by (subst key_image_upsert) (simp_all add: id)
    have "stages_owned d'" using assms(3) by (simp add: config_inv_defs tun)
    moreover have "targets_owned d'"
      using assms(3) by (auto simp: config_inv_def targets_owned_def ids tg sql_simps target_row_def)
    moreover have "ports_owned d'"
      using assms(2,3) by (auto simp: config_inv_def ports_owned_def forward_allocs_def owned_by_def ids al tun sql_simps)
    ultimately show ?thesis using u' by (simp add: config_inv_def)
  qed
qed

lemma DeleteTunnel_inv:
  assumes "DeleteTunnel tid force d = Inr (r, d')" "config_inv d"
  shows "config_inv d'"
proof (rule DeleteTunnel_Inr [OF assms(1)])
  assume sel: "db_tunnels d' = delete_where (\<lambda>t. tun_id t = tid) (db_tunnels d)"
    "db_stages d' = delete_where (\<lambda>s. stg_tunnel_id s = tid) (db_stages d)"
    "db_stage_nodes d' = delete_where (\<lambda>n. sn_tunnel_id n = tid) (db_stage_nodes d)"
    "db_forwards d' = delete_where (\<lambda>f. fwd_tunnel_id f = tid) (db_forwards d)"
    "db_targets d' = delete_where (\<lambda>t. tgt_forward_id t \<in> set (forward_ids_of tid d)) (db_targets d)"
    "db_allocs d' = delete_where (owned_by ''tunnel_stage_node'' (tunnel_node_ids tid d)) (delete_where (owned_by ''forward'' (forward_ids_of tid d)) (db_allocs d))"
  have "tables_unique d'"
    using assms(2) by (auto simp: config_inv_def tables_unique_def sel)
  moreover have "stages_owned d'"
    using assms(2) by (fastforce simp: config_inv_def stages_owned_def sel sql_simps)
  moreover have "targets_owned d'"
    using assms(2) by (auto simp: config_inv_def targets_owned_def sel sql_simps forward_ids_of_def image_iff)
  moreover have "ports_owned d'"
    unfolding ports_owned_def
  proof
    fix a assume "a \<in> set (db_allocs d')"
    then have a: "a \<in> set (db_allocs d)" "\<not> owned_by ''tunnel_stage_node'' (tunnel_node_ids tid d) a" "\<not> owned_by ''forward'' (forward_ids_of tid d) a"
      by (auto simp: sel sql_simps)
    then have "owned_by ''tunnel_stage_node'' (map sn_id (db_stage_nodes d)) a \<or> owned_by ''forward'' (map fwd_id (db_forwards d)) a"
      using assms(2) by (simp add: config_inv_def ports_owned_def)
    then show "owned_by ''tunnel_stage_node'' (map sn_id (db_stage_nodes d')) a \<or> owned_by ''forward'' (map fwd_id (db_forwards d')) a"
      unfolding sel using a(2,3) [unfolded tunnel_node_ids_def forward_ids_of_def]
      by (metis owned_delete)
  qed
  ultimately show ?thesis by (simp add: config_inv_def)
qed

lemma DeleteForward_inv:
  assumes "DeleteForward fid d = Inr (r, d')" "config_inv d"
  shows "config_inv d'"
proof -
  have d': "d' = snd (bumpRevisionTx (d\<lparr> db_allocs := delete_where (owned_by ''forward'' [fid]) (db_allocs d),
       db_targets := delete_where (\<lambda>t. tgt_forward_id t = fid) (db_targets d),
       db_forwards := delete_where (\<lambda>f. fwd_id f = fid) (db_forwards d) \<rparr>))"
    using assms(1) by (auto simp: DeleteForward_def split: if_splits)
  have "tables_unique d'" using assms(2) by (auto simp: config_inv_def tables_unique_def d')
  moreover have "targets_owned d'" using assms(2) by (auto simp: config_inv_def targets_owned_def d' sql_simps image_iff)
  moreover have "ports_owned d'" using assms(2) by (auto simp: config_inv_def ports_owned_def owned_by_def d' sql_simps)
  ultimately show ?thesis using assms(2) by (simp add: config_inv_def stages_owned_def d')
qed

lemma config_inv_cong:
  assumes "db_stages d' = db_stages d" "db_stage_nodes d' = db_stage_nodes d" "db_targets d' = db_targets d"
    and "db_allocs d' = db_allocs d" "map tun_id (db_tunnels d') = map tun_id (db_tunnels d)"
    and "map fwd_id (db_forwards d') = map fwd_id (db_forwards d)"
  shows "config_inv d' = config_inv d"
proof -
  have "tun_id ` set (db_tunnels d') = tun_id ` set (db_tunnels d)" "fwd_id ` set (db_forwards d') = fwd_id ` set (db_forwards d)"
    by (metis assms(5) list.set_map, metis assms(6) list.set_map)
  with assms show ?thesis by (simp add: config_inv_defs)
qed

lemma bump_shape:
  assumes "bumpRevisionTx d = (r, d')" obtains s where "d' = d\<lparr> db_settings := s \<rparr>"
  using assms by (auto simp: bumpRevisionTx_def put_setting_def Let_def)

lemma enable_inv:
  "SetTunnelEnabled now tid b d = Inr (r, d') \<Longrightarrow> config_inv d \<Longrightarrow> config_inv d'"
  "SetForwardEnabled now fid b d = Inr (r, d') \<Longrightarrow> config_inv d \<Longrightarrow> config_inv d'"
proof -
  assume "SetTunnelEnabled now tid b d = Inr (r, d')" "config_inv d"
  moreover from this(1) have "config_inv d' = config_inv d"
    by (intro config_inv_cong) (auto simp: SetTunnelEnabled_def update_where_def split: if_splits elim!: bump_shape)
  ultimately show "config_inv d'" by simp
next
  assume "SetForwardEnabled now fid b d = Inr (r, d')" "config_inv d"
  moreover from this(1) have "config_inv d' = config_inv d"
    by (intro config_inv_cong) (auto simp: SetForwardEnabled_def update_where_def split: if_splits elim!: bump_shape)
  ultimately show "config_inv d'" by simp
qed

lemma config_step_inv: "config_step va d r d' \<Longrightarrow> config_inv d \<Longrightarrow> config_inv d'"
  by (induction rule: config_step.induct)
    (auto intro: SaveTunnel_inv SaveForward_inv DeleteTunnel_inv DeleteForward_inv enable_inv)

section \<open>Reading back\<close>

lemma insort_key_map: "insort_key f (g x) (map g xs) = map g (insort_key (\<lambda>y. f (g y)) x xs)"
  by (induction xs) auto

lemma order_asc_map: "order_asc f (map g xs) = map g (order_asc (\<lambda>x. f (g x)) xs)"
  by (induction xs) (simp_all add: order_asc_def insort_key_map)

lemma scan_rows_map: "(\<And>r. r \<in> set rs \<Longrightarrow> f (h r) = Inr (g r)) \<Longrightarrow> scan_rows f (map h rs) = Inr (map g rs)"
  by (induction rs) auto

lemma scan_rows_all2: "list_all2 (\<lambda>n r. f r = Inr (g n)) ns rows \<Longrightarrow> scan_rows f rows = Inr (map g ns)"
  by (induction rule: list_all2_induct) auto

lemma protect_unprotect_same:
  assumes "settings_fit seal aopen key rand m" "protectSettings seal aopen key rand m aad = Inr (p, ch)"
  shows "unprotectSettings aopen key p aad = Inr m"
  using protect_unprotect [OF assms(1), of aad] assms(2) by auto

definition stored_stage_node :: "time \<Rightarrow> string \<Rightarrow> string \<Rightarrow> stage_node \<Rightarrow> stage_node" where
  "stored_stage_node now tid sid n = (stage_node_row now tid sid n)\<lparr> sn_settings := emptyMap (sn_settings n) \<rparr>"

definition stored_stage :: "time \<Rightarrow> string \<Rightarrow> tunnel_stage \<Rightarrow> tunnel_stage" where
  "stored_stage now tid s = (stage_row now tid s)\<lparr> stg_nodes := map (stored_stage_node now tid (stg_id s)) (stg_nodes s) \<rparr>"

definition stored_tunnel :: "time \<Rightarrow> time \<Rightarrow> tunnel \<Rightarrow> tunnel" where
  "stored_tunnel now created t = t\<lparr> tun_settings := emptyMap (tun_settings t),
     tun_stages := map (stored_stage now (tun_id t)) (order_asc stg_index (tun_stages t)),
     tun_created_at := created, tun_updated_at := now \<rparr>"

definition tunnel_fits :: "vault \<Rightarrow> nonces \<Rightarrow> tunnel \<Rightarrow> bool" where
  "tunnel_fits va rand t \<longleftrightarrow>
     settings_fit (va_seal va) (va_open va) (va_secret_key va) (rand (''tunnel:'' @ tun_id t)) (emptyMap (tun_settings t)) \<and>
     (\<forall>s\<in>set (tun_stages t). \<forall>n\<in>set (stg_nodes s).
        settings_fit (va_seal va) (va_open va) (va_secret_key va) (rand (''stage-node:'' @ sn_id n)) (emptyMap (sn_settings n)))"

lemma filter_saved_stage:
  "list_all2 (stage_saved va rand now tid) ss nss \<Longrightarrow> distinct (map stg_id ss) \<Longrightarrow> s \<in> set ss \<Longrightarrow>
     stage_saved va rand now tid s (filter (\<lambda>n. sn_stage_id n = stg_id s) (concat nss))"
proof (induction ss nss rule: list_all2_induct)
  case (Cons s' ss ns nss)
  have ns: "sn_stage_id n = stg_id s'" if "n \<in> set ns" for n
    using Cons(1) that unfolding stage_saved_def list_all2_conv_all_nth in_set_conv_nth
    by (auto dest: stage_node_saved_simps)
  have nss: "sn_stage_id n \<noteq> stg_id s'" if "n \<in> set (concat nss)" for n
    using saved_nodes_mem [OF Cons(2) that] Cons.prems(1) by (auto dest!: stage_node_saved_simps)
  show ?case
  proof (cases "s = s'")
    case True
    have "filter (\<lambda>n. sn_stage_id n = stg_id s) ns = ns" using ns True by simp
    moreover have "filter (\<lambda>n. sn_stage_id n = stg_id s) (concat nss) = []"
      using nss True by (simp add: filter_empty_conv)
    ultimately show ?thesis using Cons(1) True by simp
  next
    case False
    with Cons.prems have "s \<in> set ss" "stg_id s \<noteq> stg_id s'" by (auto, metis imageI)
    moreover from this(2) have "filter (\<lambda>n. sn_stage_id n = stg_id s) ns = []"
      using ns by (auto simp: filter_empty_conv)
    ultimately show ?thesis using Cons by simp
  qed
qed simp

lemma scan_saved_nodes:
  assumes "stage_saved va rand now tid s rows"
    and "\<And>n. n \<in> set (stg_nodes s) \<Longrightarrow>
      settings_fit (va_seal va) (va_open va) (va_secret_key va) (rand (''stage-node:'' @ sn_id n)) (emptyMap (sn_settings n))"
  shows "scan_rows (scanTunnelStageNode va) rows = Inr (map (stored_stage_node now tid (stg_id s)) (stg_nodes s))"
proof (rule scan_rows_all2)
  have "scanTunnelStageNode va r = Inr (stored_stage_node now tid (stg_id s) n)"
    if "n \<in> set (stg_nodes s)" "stage_node_saved va rand now tid (stg_id s) n r" for n r
  proof -
    from that(2) obtain p ch where
      p: "protectSettings (va_seal va) (va_open va) (va_secret_key va) (rand (''stage-node:'' @ sn_id n)) (emptyMap (sn_settings n)) (''stage-node:'' @ sn_id n) = Inr (p, ch)"
      and r: "r = (stage_node_row now tid (stg_id s) n)\<lparr> sn_settings := p \<rparr>"
      unfolding stage_node_saved_def by blast
    have "unprotectSettings (va_open va) (va_secret_key va) p (''stage-node:'' @ sn_id n) = Inr (emptyMap (sn_settings n))"
      by (rule protect_unprotect_same [OF assms(2) [OF that(1)] p])
    then show ?thesis by (simp add: scanTunnelStageNode_def r stored_stage_node_def)
  qed
  with assms(1) show "list_all2 (\<lambda>n r. scanTunnelStageNode va r = Inr (stored_stage_node now tid (stg_id s) n)) (stg_nodes s) rows"
    unfolding stage_saved_def by (auto simp: list_all2_conv_all_nth)
qed

lemma Get_SaveTunnel:
  assumes "config_inv d" "tunnel_fits va rand t" "SaveTunnel va rand now t as d = Inr (r, d')"
  shows "\<exists>created. GetTunnel va (tun_id t) d' = Inr (stored_tunnel now created t)"
proof (rule SaveTunnel_Inr [OF assms(3)])
  show u: "tables_unique d" using assms(1) by (simp add: config_inv_def)
  let ?tid = "tun_id t"
  fix p ch nss
  assume p: "protectSettings (va_seal va) (va_open va) (va_secret_key va) (rand (''tunnel:'' @ ?tid)) (emptyMap (tun_settings t)) (''tunnel:'' @ ?tid) = Inr (p, ch)"
    and tun: "db_tunnels d' = upsert tun_id (\<lambda>old. (tunnel_row now t p)\<lparr> tun_created_at := tun_created_at old \<rparr>) (tunnel_row now t p) (db_tunnels d)"
    and st: "db_stages d' = delete_where (\<lambda>s. stg_tunnel_id s = ?tid) (db_stages d) @ map (stage_row now ?tid) (tun_stages t)"
    and sn: "db_stage_nodes d' = delete_where (\<lambda>n. sn_tunnel_id n = ?tid) (db_stage_nodes d) @ concat nss"
    and nss: "list_all2 (stage_saved va rand now ?tid) (tun_stages t) nss" and u': "tables_unique d'"
  obtain created where row: "row_with tun_id ?tid (db_tunnels d') = Some ((tunnel_row now t p)\<lparr> tun_created_at := created \<rparr>)"
  proof (cases "row_with tun_id ?tid (db_tunnels d)")
    case None
    then have "row_with tun_id ?tid (db_tunnels d') = Some ((tunnel_row now t p)\<lparr> tun_created_at := tun_created_at (tunnel_row now t p) \<rparr>)"
      unfolding tun by (subst row_with_upsert) simp_all
    then show ?thesis by (rule that)
  next
    case (Some old)
    then have "row_with tun_id ?tid (db_tunnels d') = Some ((tunnel_row now t p)\<lparr> tun_created_at := tun_created_at old \<rparr>)"
      unfolding tun by (subst row_with_upsert) simp_all
    then show ?thesis by (rule that)
  qed
  have "unprotectSettings (va_open va) (va_secret_key va) p (''tunnel:'' @ ?tid) = Inr (emptyMap (tun_settings t))"
    using assms(2) by (intro protect_unprotect_same [OF _ p]) (simp add: tunnel_fits_def)
  then have scan: "scanTunnel va ((tunnel_row now t p)\<lparr> tun_created_at := created \<rparr>) =
      Inr ((tunnel_row now t (emptyMap (tun_settings t)))\<lparr> tun_created_at := created \<rparr>)"
    by (simp add: scanTunnel_def tunnel_row_def)
  have "filter (\<lambda>s. stg_tunnel_id s = ?tid) (db_stages d') = map (stage_row now ?tid) (tun_stages t)"
    by (simp add: st delete_where_def filter_empty_conv)
  then have stages: "order_asc stg_index (filter (\<lambda>s. stg_tunnel_id s = ?tid) (db_stages d')) =
      map (stage_row now ?tid) (order_asc stg_index (tun_stages t))"
    by (simp add: order_asc_map)
  have dist: "distinct (map stg_id (delete_where (\<lambda>s. stg_tunnel_id s = ?tid) (db_stages d)) @ map stg_id (tun_stages t))"
  proof -
    have "map stg_id (map (stage_row now ?tid) (tun_stages t)) = map stg_id (tun_stages t)" by simp
    then show ?thesis using u' unfolding tables_unique_def st map_append by (simp only:)
  qed
  have nodes: "listStageNodes va (stg_id s) d' = Inr (map (stored_stage_node now ?tid (stg_id s)) (stg_nodes s))"
    if s: "s \<in> set (tun_stages t)" for s
  proof -
    have "sn_stage_id n \<noteq> stg_id s" if n: "n \<in> set (db_stage_nodes d)" "sn_tunnel_id n \<noteq> ?tid" for n
    proof -
      from n assms(1) obtain s0 where "s0 \<in> set (db_stages d)" "stg_id s0 = sn_stage_id n" "stg_tunnel_id s0 = sn_tunnel_id n"
        by (auto simp: config_inv_def stages_owned_def)
      with n(2) have "sn_stage_id n \<in> stg_id ` set (delete_where (\<lambda>s. stg_tunnel_id s = ?tid) (db_stages d))"
        by (auto simp: sql_simps image_iff intro!: bexI [of _ s0])
      with dist s show ?thesis by auto
    qed
    then have "filter (\<lambda>n. sn_stage_id n = stg_id s) (db_stage_nodes d') = filter (\<lambda>n. sn_stage_id n = stg_id s) (concat nss)"
      by (auto simp: sn delete_where_def filter_empty_conv)
    moreover have "stage_saved va rand now ?tid s (filter (\<lambda>n. sn_stage_id n = stg_id s) (concat nss))"
      using dist by (intro filter_saved_stage [OF nss _ s]) simp
    ultimately show ?thesis
      using assms(2) s unfolding listStageNodes_def tunnel_fits_def by (metis scan_saved_nodes)
  qed
  have "scan_rows (\<lambda>s. bindE (listStageNodes va (stg_id s) d') (\<lambda>ns. Inr (s\<lparr> stg_nodes := ns \<rparr>)))
      (map (stage_row now ?tid) (order_asc stg_index (tun_stages t))) = Inr (map (stored_stage now ?tid) (order_asc stg_index (tun_stages t)))"
    by (rule scan_rows_map) (simp add: nodes stored_stage_def)
  moreover have "GetTunnel va ?tid d' = loadTunnelStages va d' ((tunnel_row now t (emptyMap (tun_settings t)))\<lparr> tun_created_at := created \<rparr>)"
    by (simp add: GetTunnel_def row scan)
  ultimately show ?thesis
    using stages by (intro exI [of _ created]) (simp add: loadTunnelStages_def tunnel_row_def stored_tunnel_def)
qed

lemma renumber_targets: "renumber i (map (\<lambda>(k, t). target_row fid k t) (enumerate i ts)) = map (\<lambda>(k, t). target_row fid k t) (enumerate i ts)"
  by (induction ts arbitrary: i) (simp_all add: target_row_def)

lemma enumerate_empty: "enumerate i ts = [] \<longleftrightarrow> ts = []"
  by (cases ts) simp_all

lemma target_positions: "map tgt_position (map (\<lambda>(k, t). target_row fid k t) (enumerate i ts)) = map int [i..<i + length ts]"
  by (induction ts arbitrary: i) (simp_all add: target_row_def upt_conv_Cons del: upt_Suc)

definition stored_forward :: "time \<Rightarrow> time \<Rightarrow> forward \<Rightarrow> forward" where
  "stored_forward now created f =
    f\<lparr> fwd_target := (case fwd_targets f of [] \<Rightarrow> trim_space (fwd_target f) | t # _ \<Rightarrow> trim_space (tgt_address t)),
       fwd_targets := (if fwd_targets f = [] \<and> trim_space (fwd_target f) \<noteq> []
         then [\<lparr> tgt_id = ''legacy:'' @ fwd_id f, tgt_forward_id = fwd_id f, tgt_address = trim_space (fwd_target f),
                 tgt_protocols = [], tgt_weight = 0, tgt_enabled = True, tgt_position = 0 \<rparr>]
         else map (\<lambda>(k, t). target_row (fwd_id f) k t) (enumerate 0 (fwd_targets f))),
       fwd_created_at := created, fwd_updated_at := now \<rparr>"

lemma Get_SaveForward:
  assumes "tables_unique d" "SaveForward now f as d = Inr (r, d')"
  shows "\<exists>created. GetForward (fwd_id f) d' = Inr (stored_forward now created f)"
proof (rule SaveForward_Inr [OF assms(2,1)])
  fix row
  let ?ts = "map (\<lambda>(k, t). target_row (fwd_id f) k t) (enumerate 0 (fwd_targets f))"
  assume id: "fwd_id row = fwd_id f"
    and row: "row = f\<lparr> fwd_target := (case fwd_targets f of [] \<Rightarrow> trim_space (fwd_target f) | t # _ \<Rightarrow> trim_space (tgt_address t)),
       fwd_targets := [], fwd_created_at := (if fwd_created_at f = zero_time then now else fwd_created_at f), fwd_updated_at := now \<rparr>"
    and fw: "db_forwards d' = upsert fwd_id (\<lambda>old. row\<lparr> fwd_created_at := fwd_created_at old \<rparr>) row (db_forwards d)"
    and tg: "db_targets d' = delete_where (\<lambda>t. tgt_forward_id t = fwd_id f) (db_targets d) @ ?ts"
  have "\<exists>created. row_with fwd_id (fwd_id f) (db_forwards d') = Some (row\<lparr> fwd_created_at := created \<rparr>)"
    unfolding fw
    by (subst row_with_upsert; cases "row_with fwd_id (fwd_id f) (db_forwards d)")
      (auto simp: id intro: exI [of _ "fwd_created_at row"])
  then obtain created where c: "row_with fwd_id (fwd_id f) (db_forwards d') = Some (row\<lparr> fwd_created_at := created \<rparr>)" by blast
  have "filter (\<lambda>t. tgt_forward_id t = fwd_id f) (db_targets d') = ?ts"
  proof -
    have "filter (\<lambda>t. tgt_forward_id t = fwd_id f) ?ts = ?ts"
      by (intro filter_True) (auto simp: target_row_def)
    then show ?thesis by (simp add: tg delete_where_def filter_empty_conv)
  qed
  moreover have "order_asc tgt_position ?ts = ?ts"
    by (rule order_asc_sorted, subst target_positions) (simp add: sorted_map sorted_wrt_map)
  ultimately have "loadForwardTargets d' (row\<lparr> fwd_created_at := created \<rparr>) = stored_forward now created f"
    by (intro forward.equality; cases "fwd_targets f")
      (simp_all add: loadForwardTargets_def row stored_forward_def Let_def renumber_targets enumerate_empty del: enumerate_simps)
  with c show ?thesis by (auto simp: GetForward_def)
qed

section \<open>Properties\<close>

text \<open>C5: A tunnel that is saved reads back as it was saved: when the secrets in its settings and in those of its
  stage nodes fit, GetTunnel after a successful SaveTunnel returns the tunnel with its stages in the order of
  their indices, every stage with its own nodes in their order, the settings decrypted, the strategy
  defaulting to single and the weight to 1, and the times the database sets.\<close>

theorem tunnel_saved:
  assumes "config_inv d" "tunnel_fits va rand t" "SaveTunnel va rand now t as d = Inr (r, d')"
  shows "\<exists>created. GetTunnel va (tun_id t) d' = Inr (stored_tunnel now created t)"
  by (rule Get_SaveTunnel [OF assms])

text \<open>A forward that is saved reads back as it was saved: its targets in their order with consecutive
  positions, ids of the form forward:position where they had none and weights of at least 1; a forward with
  only the legacy target field reads back with that address as its single target.\<close>

theorem forward_saved:
  assumes "config_inv d" "SaveForward now f as d = Inr (r, d')"
  shows "\<exists>created. GetForward (fwd_id f) d' = Inr (stored_forward now created f)"
  using assms by (intro Get_SaveForward) (simp_all add: config_inv_def)

lemma stored_revision_cong: "db_settings d = db_settings d' \<Longrightarrow> stored_revision d = stored_revision d'"
  by (simp add: stored_revision_def)

lemma bump_from:
  "bumpRevisionTx d3 = (r, d') \<Longrightarrow> db_settings d3 = db_settings d \<Longrightarrow>
     \<exists>d3. (r, d') = bumpRevisionTx d3 \<and> db_settings d3 = db_settings d"
  by (intro exI [of _ d3]) simp

lemma config_step_revision:
  assumes "config_step va d r d'" "config_inv d" "0 \<le> stored_revision d" "stored_revision d < 2 ^ 63 - 1"
  shows "r = stored_revision d + 1 \<and> stored_revision d' = r"
proof -
  have "\<exists>d3. (r, d') = bumpRevisionTx d3 \<and> db_settings d3 = db_settings d"
    using assms(1)
  proof cases
    case (save_tunnel rand now t as)
    then show ?thesis using assms(2) by (metis SaveTunnel_Inr config_inv_def)
  next
    case (delete_tunnel tid force)
    then show ?thesis by (metis DeleteTunnel_Inr)
  next
    case (enable_tunnel now tid b)
    then show ?thesis by (auto simp: SetTunnelEnabled_def split: if_splits intro!: bump_from)
  next
    case (save_forward now f as)
    then show ?thesis using assms(2) by (metis SaveForward_Inr config_inv_def)
  next
    case (delete_forward fid)
    then show ?thesis by (auto simp: DeleteForward_def split: if_splits intro!: bump_from)
  next
    case (enable_forward now fid b)
    then show ?thesis by (auto simp: SetForwardEnabled_def split: if_splits intro!: bump_from)
  qed
  then obtain d3 where d3: "(r, d') = bumpRevisionTx d3" "stored_revision d3 = stored_revision d"
    using stored_revision_cong by metis
  with bump_revision [of d3] assms(3,4) show ?thesis by (metis fst_conv snd_conv)
qed

inductive config_reach :: "vault \<Rightarrow> db \<Rightarrow> nat \<Rightarrow> bool" for va where
  fresh: "config_reach va empty_db 0"
| change: "config_reach va d n \<Longrightarrow> config_step va d r d' \<Longrightarrow> config_reach va d' (Suc n)"

lemma config_inv_empty: "config_inv empty_db"
  by (simp add: config_inv_defs empty_db_def)

text \<open>C4: In every database that any sequence of successful changes of tunnels and forwards leaves, starting from
  the empty one, the tables are consistent: ids are unique, no tunnel has two stages with one index, no two
  allocations of a node hold the same port of the same protocol, every stage and stage node belongs to a
  tunnel and stage that exist, every target to a forward, and every allocated port to a stage node or forward
  that exists (so no deletion or update leaks a port).  The revision counts the changes, and each change
  returns it.\<close>

theorem config_consistent:
  assumes "config_reach va d n" "int n < 2 ^ 63"
  shows "config_inv d \<and> stored_revision d = int n \<and>
    (\<forall>r d'. int n < 2 ^ 63 - 1 \<and> config_step va d r d' \<longrightarrow> r = int n + 1 \<and> config_inv d')"
  using assms
proof (induction rule: config_reach.induct)
  case fresh
  have "stored_revision empty_db = 0" by (simp add: stored_revision_def empty_db_def)
  then show ?case using config_inv_empty config_step_inv config_step_revision [of va empty_db] by auto
next
  case (change d n r d')
  then have IH: "config_inv d" "stored_revision d = int n" by simp_all
  have inv: "config_inv d'" by (rule config_step_inv [OF change.hyps(2) IH(1)])
  have "r = int n + 1 \<and> stored_revision d' = r"
    using config_step_revision [OF change.hyps(2) IH(1)] IH(2) change.prems by simp
  then show ?case using inv config_step_inv config_step_revision [OF _ inv] by auto
qed

section \<open>Other tunnels\<close>

lemma scan_rows_cong: "(\<And>r. r \<in> set rs \<Longrightarrow> f r = g r) \<Longrightarrow> scan_rows f rs = scan_rows g rs"
  by (induction rs) auto

lemma GetTunnel_frame:
  assumes "row_with tun_id j (db_tunnels d') = row_with tun_id j (db_tunnels d)"
    and "filter (\<lambda>s. stg_tunnel_id s = j) (db_stages d') = filter (\<lambda>s. stg_tunnel_id s = j) (db_stages d)"
    and "\<And>s. s \<in> set (db_stages d) \<Longrightarrow> stg_tunnel_id s = j \<Longrightarrow>
      filter (\<lambda>n. sn_stage_id n = stg_id s) (db_stage_nodes d') = filter (\<lambda>n. sn_stage_id n = stg_id s) (db_stage_nodes d)"
  shows "GetTunnel va j d' = GetTunnel va j d"
proof -
  have "loadTunnelStages va d' t = loadTunnelStages va d t" if "tun_id t = j" for t
  proof -
    have "scan_rows (\<lambda>s. bindE (listStageNodes va (stg_id s) d') (\<lambda>ns. Inr (s\<lparr> stg_nodes := ns \<rparr>))) (order_asc stg_index (filter (\<lambda>s. stg_tunnel_id s = j) (db_stages d)))
        = scan_rows (\<lambda>s. bindE (listStageNodes va (stg_id s) d) (\<lambda>ns. Inr (s\<lparr> stg_nodes := ns \<rparr>))) (order_asc stg_index (filter (\<lambda>s. stg_tunnel_id s = j) (db_stages d)))"
      by (rule scan_rows_cong) (simp add: listStageNodes_def assms(3))
    with that assms(2) show ?thesis by (simp add: loadTunnelStages_def)
  qed
  note load = this
  have "tun_id t = j" if "row_with tun_id j (db_tunnels d) = Some r" "scanTunnel va r = Inr t" for r t
    using that by (auto simp: scanTunnel_def err_simps dest: row_with_Some)
  note same = load [OF this]
  show ?thesis
  proof (cases "row_with tun_id j (db_tunnels d)")
    case None
    then show ?thesis by (simp add: GetTunnel_def assms(1))
  next
    case (Some r)
    then show ?thesis
      using same [OF Some] by (cases "scanTunnel va r") (simp_all add: GetTunnel_def assms(1))
  qed
qed

lemma stage_nodes_of_other:
  assumes "config_inv d" "s \<in> set (db_stages d)" "stg_tunnel_id s \<noteq> tid" "n \<in> set (db_stage_nodes d)" "sn_stage_id n = stg_id s"
  shows "sn_tunnel_id n \<noteq> tid"
proof -
  from assms(1,4) obtain s0 where s0: "s0 \<in> set (db_stages d)" "stg_id s0 = sn_stage_id n" "stg_tunnel_id s0 = sn_tunnel_id n"
    by (auto simp: config_inv_def stages_owned_def)
  have "inj_on stg_id (set (db_stages d))" using assms(1) by (simp add: config_inv_def tables_unique_def distinct_map)
  with s0 assms(2,5) have "s0 = s" by (metis inj_onD)
  with s0 assms(3) show ?thesis by simp
qed

lemma filter_delete_where: "(\<And>x. x \<in> set xs \<Longrightarrow> Q x \<Longrightarrow> \<not> P x) \<Longrightarrow> filter Q (delete_where P xs) = filter Q xs"
  unfolding delete_where_def filter_filter by (rule filter_cong) auto

lemma DeleteTunnel_other:
  assumes "config_inv d" "DeleteTunnel tid force d = Inr (r, d')" "j \<noteq> tid"
  shows "GetTunnel va j d' = GetTunnel va j d"
proof (rule DeleteTunnel_Inr [OF assms(2)])
  assume sel: "db_tunnels d' = delete_where (\<lambda>t. tun_id t = tid) (db_tunnels d)"
    "db_stages d' = delete_where (\<lambda>s. stg_tunnel_id s = tid) (db_stages d)"
    "db_stage_nodes d' = delete_where (\<lambda>n. sn_tunnel_id n = tid) (db_stage_nodes d)"
  show ?thesis
  proof (rule GetTunnel_frame)
    show "row_with tun_id j (db_tunnels d') = row_with tun_id j (db_tunnels d)"
      unfolding sel using assms(3) by (intro row_with_delete_where) simp
    show "filter (\<lambda>s. stg_tunnel_id s = j) (db_stages d') = filter (\<lambda>s. stg_tunnel_id s = j) (db_stages d)"
      unfolding sel using assms(3) by (intro filter_delete_where) simp
    show "filter (\<lambda>n. sn_stage_id n = stg_id s) (db_stage_nodes d') = filter (\<lambda>n. sn_stage_id n = stg_id s) (db_stage_nodes d)"
      if "s \<in> set (db_stages d)" "stg_tunnel_id s = j" for s
      unfolding sel using that assms(3) stage_nodes_of_other [OF assms(1) that(1)]
      by (intro filter_delete_where) simp
  qed
qed

text \<open>Deleting a tunnel is complete and touches nothing else: it succeeds only without forwards or when
  forced, and then the tunnel, its stages, stage nodes, forwards and targets are gone, the ports that are
  free again are exactly those its stage nodes and forwards held, every other tunnel reads as before, and
  the tables stay consistent.\<close>

theorem tunnel_deleted:
  assumes "config_inv d" "DeleteTunnel tid force d = Inr (r, d')"
  shows "(forward_ids_of tid d = [] \<or> force) \<and> GetTunnel va tid d' = Inl ErrNoRows \<and>
    (\<forall>j. j \<noteq> tid \<longrightarrow> GetTunnel va j d' = GetTunnel va j d) \<and>
    tid \<notin> stg_tunnel_id ` set (db_stages d') \<and> tid \<notin> sn_tunnel_id ` set (db_stage_nodes d') \<and>
    tid \<notin> fwd_tunnel_id ` set (db_forwards d') \<and>
    db_allocs d' = filter (\<lambda>a. \<not> owned_by ''forward'' (forward_ids_of tid d) a \<and>
      \<not> owned_by ''tunnel_stage_node'' (tunnel_node_ids tid d) a) (db_allocs d) \<and> config_inv d'"
proof -
  have inv: "config_inv d'" by (rule DeleteTunnel_inv [OF assms(2,1)])
  show ?thesis
  proof (rule DeleteTunnel_Inr [OF assms(2)])
    assume sel: "forward_ids_of tid d = [] \<or> force" "db_tunnels d' = delete_where (\<lambda>t. tun_id t = tid) (db_tunnels d)"
      "db_stages d' = delete_where (\<lambda>s. stg_tunnel_id s = tid) (db_stages d)"
      "db_stage_nodes d' = delete_where (\<lambda>n. sn_tunnel_id n = tid) (db_stage_nodes d)"
      "db_forwards d' = delete_where (\<lambda>f. fwd_tunnel_id f = tid) (db_forwards d)"
      "db_allocs d' = delete_where (owned_by ''tunnel_stage_node'' (tunnel_node_ids tid d)) (delete_where (owned_by ''forward'' (forward_ids_of tid d)) (db_allocs d))"
    have "GetTunnel va tid d' = Inl ErrNoRows"
      by (simp add: GetTunnel_def sel(2) sql_simps)
    moreover have "\<forall>j. j \<noteq> tid \<longrightarrow> GetTunnel va j d' = GetTunnel va j d"
      using DeleteTunnel_other [OF assms] by blast
    moreover have "db_allocs d' = filter (\<lambda>a. \<not> owned_by ''forward'' (forward_ids_of tid d) a \<and>
        \<not> owned_by ''tunnel_stage_node'' (tunnel_node_ids tid d) a) (db_allocs d)"
      by (simp add: sel(6) delete_where_def conj_commute)
    moreover have "tid \<notin> stg_tunnel_id ` set (db_stages d')" "tid \<notin> sn_tunnel_id ` set (db_stage_nodes d')"
      "tid \<notin> fwd_tunnel_id ` set (db_forwards d')"
      unfolding sel(3-5) set_delete_where by auto
    ultimately show ?thesis using inv sel(1) by (intro conjI)
  qed
qed


section \<open>Witnesses\<close>

definition ex_row_node :: "string \<Rightarrow> string \<Rightarrow> stage_node" where
  "ex_row_node i node = zero_stage_node\<lparr> sn_id := i, sn_node_id := node, sn_settings := Some [(''secret'', ''s3'')] \<rparr>"

definition ex_row_tunnel :: tunnel where
  "ex_row_tunnel = zero_tunnel\<lparr> tun_id := ''t'', tun_name := ''chain'', tun_stages :=
     [zero_stage\<lparr> stg_id := ''s1'', stg_index := 1, stg_nodes := [ex_row_node ''b'' ''n2''] \<rparr>,
      zero_stage\<lparr> stg_id := ''s0'', stg_index := 0, stg_nodes := [ex_row_node ''a'' ''n1''] \<rparr>] \<rparr>"

definition ex_row_forward :: forward where
  "ex_row_forward = \<lparr> fwd_id = ''f'', fwd_name = ''web'', fwd_tunnel_id = ''t'', fwd_protocols = [ProtoTCP], fwd_listen = '':80'',
     fwd_target = '' 10.0.0.1:80 '', fwd_targets = [], fwd_strategy = [], fwd_tcp_strategy = [], fwd_udp_strategy = [],
     fwd_enabled = True, fwd_created_at = 0, fwd_updated_at = 0 \<rparr>"

definition ex_row_alloc :: port_allocation where
  "ex_row_alloc = \<lparr> pa_id = ''p'', pa_node_id = ''n1'', pa_owner_kind = ''tunnel_stage_node'', pa_owner_id = ''a'',
     pa_protocol = ''tcp'', pa_port = 9, pa_bind = [], pa_created_at = 0, pa_updated_at = 0 \<rparr>"

definition ex_nonces :: nonces where "ex_nonces aad k = Some ex_nonce"

definition ex_saved :: "store_error + (int \<times> db)" where
  "ex_saved = SaveTunnel ex_vault ex_nonces 7 ex_row_tunnel [ex_row_alloc] empty_db"

lemma ex_saved_ok: "\<exists>r d'. ex_saved = Inr (r, d')"
proof -
  have "isl ex_saved = False" by code_simp
  then show ?thesis by (metis obj_sumE surj_pair sum.disc(1))
qed

lemma ex_row_fits: "tunnel_fits ex_vault ex_nonces ex_row_tunnel"
proof -
  have "secret_fits toy_seal toy_open ex_key (ex_nonces aad) ''s3''" for aad
    using ex_secret_fits [of "''s3''"] by (simp add: secret_fits_def ex_nonces_def ex_rand_def secretCipherPrefix_def)
  then show ?thesis
    by (simp add: tunnel_fits_def ex_vault_def ex_row_tunnel_def ex_row_node_def zero_tunnel_def zero_stage_def
        zero_stage_node_def settings_fit_def emptyMap_def mentries_def)
qed

lemma ex_row_allocs: "tunnel_allocs ex_row_tunnel [ex_row_alloc]"
  by (simp add: tunnel_allocs_def owned_by_def ex_row_alloc_def ex_row_tunnel_def ex_row_node_def zero_tunnel_def
      zero_stage_def zero_stage_node_def)

theorem tunnel_saved_witness:
  "\<exists>r d' created. ex_saved = Inr (r, d') \<and>
     GetTunnel ex_vault ''t'' d' = Inr (stored_tunnel 7 created ex_row_tunnel)"
proof -
  obtain r d' where s: "ex_saved = Inr (r, d')" using ex_saved_ok by blast
  have "tun_id ex_row_tunnel = ''t''" by (simp add: ex_row_tunnel_def zero_tunnel_def)
  with tunnel_saved [OF config_inv_empty ex_row_fits s [unfolded ex_saved_def]] s show ?thesis by auto
qed

theorem forward_saved_witness:
  "\<exists>r d' created. SaveForward 7 ex_row_forward [] empty_db = Inr (r, d') \<and>
     GetForward ''f'' d' = Inr (stored_forward 7 created ex_row_forward)"
proof -
  obtain r d' where s: "SaveForward 7 ex_row_forward [] empty_db = Inr (r, d')"
    by (cases "bumpRevisionTx (empty_db\<lparr> db_forwards := [stored_forward 7 7 ex_row_forward\<lparr> fwd_targets := [] \<rparr>] \<rparr>)")
      (auto simp: SaveForward_def ex_row_forward_def Let_def bumpRevisionTx_def)
  have "fwd_id ex_row_forward = ''f''" by (simp add: ex_row_forward_def)
  with forward_saved [OF config_inv_empty s] s show ?thesis by auto
qed

theorem config_consistent_witness:
  "\<exists>r d'. ex_saved = Inr (r, d') \<and> config_inv d' \<and> stored_revision d' = 1"
proof -
  obtain r d' where s: "ex_saved = Inr (r, d')" using ex_saved_ok by blast
  have "config_reach ex_vault d' (Suc 0)"
    by (rule config_reach.change [OF config_reach.fresh config_step.save_tunnel [OF s [unfolded ex_saved_def] ex_row_allocs]])
  from config_consistent [OF this] s show ?thesis by auto
qed

theorem tunnel_deleted_witness:
  "\<exists>r d' r2 d2. ex_saved = Inr (r, d') \<and> DeleteTunnel ''t'' False d' = Inr (r2, d2) \<and> db_allocs d' \<noteq> [] \<and> db_allocs d2 = []"
proof -
  obtain r d' where s: "ex_saved = Inr (r, d')" using ex_saved_ok by blast
  have inv: "config_inv d'"
    by (rule SaveTunnel_inv [OF s [unfolded ex_saved_def] ex_row_allocs config_inv_empty])
  have "(case ex_saved of Inr (r, d) \<Rightarrow> db_allocs d \<noteq> [] \<and> forward_ids_of ''t'' d = [] \<and>
      list_all (owned_by ''tunnel_stage_node'' (tunnel_node_ids ''t'' d)) (db_allocs d) \<and>
      \<not> isl (DeleteTunnel ''t'' False d) | _ \<Rightarrow> False)"
    by code_simp
  then have f: "db_allocs d' \<noteq> []" "forward_ids_of ''t'' d' = []"
    "list_all (owned_by ''tunnel_stage_node'' (tunnel_node_ids ''t'' d')) (db_allocs d')" "\<not> isl (DeleteTunnel ''t'' False d')"
    by (simp_all add: s)
  from f(4) obtain r2 d2 where del: "DeleteTunnel ''t'' False d' = Inr (r2, d2)"
    by (cases "DeleteTunnel ''t'' False d'") auto
  from tunnel_deleted [OF inv del] f(3) have "db_allocs d2 = []"
    by (auto simp: filter_empty_conv list_all_iff)
  with s del f(1) show ?thesis by auto
qed

end
