(* ===== verification/Admin.thy ===== *)
theory Admin
  imports Control Install Prepare StoreConfig
begin

text \<open>
  The requests of the administration on nodes, tunnels and forwards, internal/controller/server.go, as steps
  of the state of the control connections: what they read, check and write, what they publish to the
  connected nodes, and their audit event.

  Their session has been checked by withAuth.  \<open>body\<close> is what readJSON makes of a request; the encoded detail
  of the audit event, fresh ids and random values, and the texts of structured errors are arguments.
\<close>

record admin_env =
  ae_control :: control_env
  ae_guard :: guard_env
  ae_web :: web_config
  ae_actor :: string
  ae_detail :: "string option"
  ae_text :: "store_error \<Rightarrow> string"
  ae_prepare_text :: "prepare_error \<Rightarrow> string"
  ae_invalid_text :: "verr \<Rightarrow> string"
  ae_pem :: "string \<Rightarrow> string option"
  ae_update_key :: string
  ae_token :: "string option"
  ae_nonce :: "string option"
  ae_nonces :: nonces
  ae_node_id :: string
  ae_fresh :: prep_env

definition StatusServiceUnavailable :: nat where "StatusServiceUnavailable = 503"

abbreviation ae_now :: "admin_env \<Rightarrow> time" where "ae_now ae \<equiv> ce_now (ae_control ae)"
abbreviation ae_vault :: "admin_env \<Rightarrow> vault" where "ae_vault ae \<equiv> ce_vault (ae_control ae)"
abbreviation ae_net :: "admin_env \<Rightarrow> net_env" where "ae_net ae \<equiv> ce_net (ae_control ae)"

section \<open>Publishing\<close>

definition publish :: "control_env \<Rightarrow> int \<Rightarrow> ctl \<Rightarrow> ctl" where
  "publish env r s = pushConfigs env (s\<lparr> ct_hub := SetRevision r (ct_hub s) \<rparr>)"

text \<open>The error of AddAudit is ignored.\<close>

definition log_event :: "admin_env \<Rightarrow> string \<Rightarrow> string \<Rightarrow> ctl \<Rightarrow> ctl" where
  "log_event ae action target s =
    (case AddAudit (ae_now ae) (ae_actor ae) action target (ae_detail ae) (ct_db s) of
       Inl _ \<Rightarrow> s | Inr d \<Rightarrow> s\<lparr> ct_db := d \<rparr>)"

text \<open>What a change of the store answered with is published and noted.\<close>

definition committed :: "admin_env \<Rightarrow> string \<Rightarrow> string \<Rightarrow> int \<times> db \<Rightarrow> ctl \<Rightarrow> ctl" where
  "committed ae action target result s =
    (case result of (r, d) \<Rightarrow> log_event ae action target (publish (ae_control ae) r (s\<lparr> ct_db := d \<rparr>)))"

text \<open>\<open>rev, _ := BumpRevision\<close>: the error is ignored, and with it whether the value was stored.\<close>

definition bumped :: "admin_env \<Rightarrow> db \<Rightarrow> int \<times> db" where
  "bumped ae d = (case BumpRevision (ce_bump (ae_control ae)) d of ((r, _), d1) \<Rightarrow> (r, d1))"

section \<open>Nodes\<close>

record node_request =
  nrq_name :: string
  nrq_labels :: settings
  nrq_public_host :: string
  nrq_port_min :: int
  nrq_port_max :: int

definition node_not_found :: "'a reply" where "node_not_found = Refused StatusNotFound ''node not found''"

definition handleListNodes :: "admin_env \<Rightarrow> db \<Rightarrow> node list reply" where
  "handleListNodes ae d =
    (case ListNodes (ae_vault ae) d of
       Inl e \<Rightarrow> Refused StatusInternalServerError (ae_text ae e) | Inr ns \<Rightarrow> Answer (activeNodes ns))"

definition handleGetNode :: "admin_env \<Rightarrow> string \<Rightarrow> db \<Rightarrow> node reply" where
  "handleGetNode ae i d =
    (case GetNode (ae_vault ae) i d of
       Inl _ \<Rightarrow> node_not_found | Inr n \<Rightarrow> if nd_revoked n then node_not_found else Answer n)"

text \<open>What both requests that answer installation info need: the URL, the public key, the update key.\<close>

definition install_context :: "admin_env \<Rightarrow> db \<Rightarrow> (nat \<times> string) + (string \<times> string \<times> string)" where
  "install_context ae d =
    (let url = controllerBaseURL (ae_net ae) (controllerPublicURL (ae_guard ae) (ae_web ae) d) in
     case GetSetting (ae_vault ae) signingPubSetting d of
       Inl e \<Rightarrow> Inl (StatusInternalServerError, ae_text ae e)
     | Inr (pub, _) \<Rightarrow>
         (case installUpdateSigningKey (ae_net ae) (ae_pem ae) (ae_update_key ae) url of
            Inl e \<Rightarrow> Inl (StatusServiceUnavailable, e)
          | Inr key \<Rightarrow> Inr (url, pub, key)))"

definition handleGetNodeInstall :: "admin_env \<Rightarrow> string \<Rightarrow> db \<Rightarrow> node_install_info reply" where
  "handleGetNodeInstall ae i d =
    (case GetNodeWithToken (ae_vault ae) i d of
       Inl _ \<Rightarrow> node_not_found
     | Inr (n, token) \<Rightarrow>
         if nd_revoked n then node_not_found
         else case install_context ae d of
           Inl (code, e) \<Rightarrow> Refused code e
         | Inr (url, pub, key) \<Rightarrow> Answer (buildNodeInstallInfo url pub key n token))"

definition validate_node_request :: "admin_env \<Rightarrow> node_request \<Rightarrow> string option" where
  "validate_node_request ae q = first_err [
     validateNodeInput (ae_net ae) (nrq_name q) (nrq_labels q) (nrq_public_host q),
     validateNodePortRange (nrq_port_min q) (nrq_port_max q)]"

definition created_node :: "admin_env \<Rightarrow> node_request \<Rightarrow> node" where
  "created_node ae q =
    \<lparr> nd_id = ae_node_id ae, nd_name = trim_space (nrq_name q), nd_status = NodeOffline, nd_version = [], nd_desired = [],
      nd_update = [], nd_update_error = [], nd_requested_at = zero_time, nd_finished_at = zero_time,
      nd_labels = nrq_labels q, nd_public_host = trim_space (nrq_public_host q), nd_port_min = nrq_port_min q,
      nd_port_max = nrq_port_max q, nd_approved = True, nd_revoked = False, nd_last_seen = zero_time,
      nd_created_at = ae_now ae, nd_updated_at = zero_time, nd_system = no_system \<rparr>"

definition handleCreateNode :: "admin_env \<Rightarrow> string + node_request \<Rightarrow> ctl \<Rightarrow> node_install_info reply \<times> ctl" where
  "handleCreateNode ae body s =
    (case body of Inl e \<Rightarrow> (Refused StatusBadRequest e, s)
     | Inr q \<Rightarrow>
       (case validate_node_request ae q of Some e \<Rightarrow> (Refused StatusBadRequest e, s)
        | None \<Rightarrow>
          (case install_context ae (ct_db s) of Inl (code, e) \<Rightarrow> (Refused code e, s)
           | Inr (url, pub, key) \<Rightarrow>
             (case ae_token ae of None \<Rightarrow> (Refused StatusInternalServerError ''random source failed'', s)
              | Some token \<Rightarrow>
                (let n = created_node ae q in
                 case UpsertNode (ae_vault ae) (ae_now ae) (ae_nonce ae) n token (ct_db s) of
                   Inl e \<Rightarrow> (Refused StatusBadRequest (ae_text ae e), s)
                 | Inr d \<Rightarrow> (Answer (buildNodeInstallInfo url pub key n token),
                             committed ae ''node.create'' (nd_id n) (bumped ae d) s))))))"

definition edited_node :: "node_request \<Rightarrow> node \<Rightarrow> node" where
  "edited_node q n = n\<lparr> nd_name := trim_space (nrq_name q), nd_labels := nrq_labels q,
     nd_public_host := trim_space (nrq_public_host q), nd_port_min := nrq_port_min q, nd_port_max := nrq_port_max q \<rparr>"

definition handleUpdateNode :: "admin_env \<Rightarrow> string \<Rightarrow> string + node_request \<Rightarrow> ctl \<Rightarrow> node reply \<times> ctl" where
  "handleUpdateNode ae i body s =
    (case GetNode (ae_vault ae) i (ct_db s) of Inl _ \<Rightarrow> (node_not_found, s)
     | Inr n0 \<Rightarrow>
       if nd_revoked n0 then (node_not_found, s)
       else case body of Inl e \<Rightarrow> (Refused StatusBadRequest e, s)
       | Inr q \<Rightarrow>
         (case validate_node_request ae q of Some e \<Rightarrow> (Refused StatusBadRequest e, s)
          | None \<Rightarrow>
            (let n = edited_node q n0 in
             case UpdateNode (ae_now ae) n (ct_db s) of
               Inl e \<Rightarrow> (Refused StatusBadRequest (ae_text ae e), s)
             | Inr d \<Rightarrow> (Answer n, committed ae ''node.update'' (nd_id n) (bumped ae d) s))))"

definition handleRevokeNode :: "admin_env \<Rightarrow> string + string \<Rightarrow> ctl \<Rightarrow> unit reply \<times> ctl" where
  "handleRevokeNode ae body s =
    (case body of Inl e \<Rightarrow> (Refused StatusBadRequest e, s)
     | Inr i \<Rightarrow>
       (case validateNodeText ''node id'' i MaxIDBytes False of Some e \<Rightarrow> (Refused StatusBadRequest e, s)
        | None \<Rightarrow>
          (case revoke (ae_control ae) i s of
             ((Some e, _), s1) \<Rightarrow> (Refused StatusBadRequest (ae_text ae e), s1)
           | ((None, Some e), s1) \<Rightarrow> (Refused StatusInternalServerError (ae_text ae e), s1)
           | ((None, None), s1) \<Rightarrow> (Answer (), log_event ae ''node.revoke'' i (pushConfigs (ae_control ae) s1)))))"

section \<open>Updating nodes\<close>

definition set_db :: "'a \<times> db \<Rightarrow> ctl \<Rightarrow> 'a \<times> ctl" where
  "set_db r s = (fst r, s\<lparr> ct_db := snd r \<rparr>)"

definition handleUpdateNodeBinary :: "admin_env \<Rightarrow> string \<Rightarrow> ctl \<Rightarrow> node reply \<times> ctl" where
  "handleUpdateNodeBinary ae i s =
    (let release = ce_release (ae_control ae); wanted = man_version (srl_manifest release) in
     if \<not> srl_enabled release then (Refused StatusConflict (srl_reason release), s)
     else case GetNode (ae_vault ae) i (ct_db s) of Inl _ \<Rightarrow> (node_not_found, s)
     | Inr n \<Rightarrow>
       if nd_revoked n then (node_not_found, s)
       else if \<not> NeedsUpdate (nd_version n) wanted then (Answer n, s)
       else case set_db (RequestNodeUpdate (ae_vault ae) (ae_now ae) (nd_id n) wanted (ct_db s)) s of
         (Inl e, s1) \<Rightarrow> (Refused StatusBadRequest (ae_text ae e), s1)
       | (Inr updated, s1) \<Rightarrow>
           (Answer updated, pushNodeUpdate (ae_control ae) (nd_id n) (log_event ae ''node.update.request'' (nd_id n) s1)))"

text \<open>The nodes of the list in turn; an error ends the request with what has been requested so far.\<close>

fun request_all :: "admin_env \<Rightarrow> string \<Rightarrow> node list \<Rightarrow> nat \<Rightarrow> ctl \<Rightarrow> (string + nat) \<times> ctl" where
  "request_all ae wanted [] k s = (Inr k, s)"
| "request_all ae wanted (n # ns) k s =
    (if nd_revoked n \<or> \<not> NeedsUpdate (nd_version n) wanted then request_all ae wanted ns k s
     else case set_db (RequestNodeUpdate (ae_vault ae) (ae_now ae) (nd_id n) wanted (ct_db s)) s of
       (Inl e, s1) \<Rightarrow> (Inl (ae_text ae e), s1)
     | (Inr _, s1) \<Rightarrow> request_all ae wanted ns (k + 1) (pushNodeUpdate (ae_control ae) (nd_id n) s1))"

definition handleUpdateAllNodeBinaries :: "admin_env \<Rightarrow> ctl \<Rightarrow> (string \<times> nat) reply \<times> ctl" where
  "handleUpdateAllNodeBinaries ae s =
    (let release = ce_release (ae_control ae); wanted = man_version (srl_manifest release) in
     if \<not> srl_enabled release then (Refused StatusConflict (srl_reason release), s)
     else case ListNodes (ae_vault ae) (ct_db s) of
       Inl e \<Rightarrow> (Refused StatusInternalServerError (ae_text ae e), s)
     | Inr ns \<Rightarrow>
         (case request_all ae wanted ns 0 s of
            (Inl e, s1) \<Rightarrow> (Refused StatusBadRequest e, s1)
          | (Inr k, s1) \<Rightarrow> (Answer (wanted, k), log_event ae ''node.update.request_all'' ''nodes'' s1)))"

section \<open>Tunnels\<close>

text \<open>What prepareTunnel and prepareForward read of the store; the rest of their environment is fresh.\<close>

definition reads_of :: "admin_env \<Rightarrow> db \<Rightarrow> prep_env" where
  "reads_of ae d = (ae_fresh ae)\<lparr>
     pe_nodes := (case ListNodes (ae_vault ae) d of Inl _ \<Rightarrow> None | Inr ns \<Rightarrow> Some ns),
     pe_allocations := Some (ListPortAllocations d),
     pe_get_node := (\<lambda>i. case GetNode (ae_vault ae) i d of Inl _ \<Rightarrow> None | Inr n \<Rightarrow> Some n),
     pe_get_tunnel := (\<lambda>i. case GetTunnel (ae_vault ae) i d of Inl _ \<Rightarrow> None | Inr t \<Rightarrow> Some t),
     pe_get_forward := (\<lambda>i. case GetForward i d of Inl _ \<Rightarrow> None | Inr f \<Rightarrow> Some f) \<rparr>"

definition handleListTunnels :: "admin_env \<Rightarrow> db \<Rightarrow> tunnel list reply" where
  "handleListTunnels ae d =
    (case ListTunnels (ae_vault ae) d of
       Inl e \<Rightarrow> Refused StatusInternalServerError (ae_text ae e) | Inr ts \<Rightarrow> Answer (map redactTunnel ts))"

definition handleGetTunnel :: "admin_env \<Rightarrow> string \<Rightarrow> db \<Rightarrow> tunnel reply" where
  "handleGetTunnel ae i d =
    (case GetTunnel (ae_vault ae) i d of
       Inl e \<Rightarrow> Refused StatusNotFound (ae_text ae e) | Inr t \<Rightarrow> Answer (redactTunnel t))"

definition handleUpsertTunnel ::
  "admin_env \<Rightarrow> string \<Rightarrow> string + tunnel_request \<Rightarrow> ctl \<Rightarrow> tunnel reply \<times> ctl" where
  "handleUpsertTunnel ae pathID body s =
    (case body of Inl e \<Rightarrow> (Refused StatusBadRequest e, s)
     | Inr q0 \<Rightarrow>
       (let q = (if pathID = [] then q0 else q0\<lparr> trq_id := pathID \<rparr>) in
        case prepareTunnel (reads_of ae (ct_db s)) q of
          Inl e \<Rightarrow> (Refused StatusBadRequest (ae_prepare_text ae e), s)
        | Inr (t, allocs) \<Rightarrow>
          (case validate_Tunnel t of Some e \<Rightarrow> (Refused StatusBadRequest (ae_invalid_text ae e), s)
           | None \<Rightarrow>
             (case SaveTunnel (ae_vault ae) (ae_nonces ae) (ae_now ae) t allocs (ct_db s) of
                Inl e \<Rightarrow> (Refused StatusBadRequest (ae_text ae e), s)
              | Inr result \<Rightarrow>
                (let s1 = committed ae ''tunnel.upsert'' (tun_id t) result s in
                 (Answer (redactTunnel (case GetTunnel (ae_vault ae) (tun_id t) (ct_db s1) of Inl _ \<Rightarrow> t | Inr saved \<Rightarrow> saved)),
                  s1))))))"

definition handleDeleteTunnel :: "admin_env \<Rightarrow> string \<Rightarrow> bool \<Rightarrow> ctl \<Rightarrow> unit reply \<times> ctl" where
  "handleDeleteTunnel ae i force s =
    (case DeleteTunnel i force (ct_db s) of
       Inl e \<Rightarrow> (Refused StatusBadRequest (ae_text ae e), s)
     | Inr result \<Rightarrow> (Answer (), committed ae ''tunnel.delete'' i result s))"

definition setTunnelEnabled :: "admin_env \<Rightarrow> string \<Rightarrow> bool \<Rightarrow> ctl \<Rightarrow> unit reply \<times> ctl" where
  "setTunnelEnabled ae i enabled s =
    (case SetTunnelEnabled (ae_now ae) i enabled (ct_db s) of
       Inl e \<Rightarrow> (Refused StatusNotFound (ae_text ae e), s)
     | Inr result \<Rightarrow> (Answer (), committed ae (if enabled then ''tunnel.enable'' else ''tunnel.disable'') i result s))"

section \<open>Forwards\<close>

definition handleListForwards :: "db \<Rightarrow> forward list reply" where
  "handleListForwards d = Answer (ListForwards d)"

definition handleGetForward :: "admin_env \<Rightarrow> string \<Rightarrow> db \<Rightarrow> forward reply" where
  "handleGetForward ae i d =
    (case GetForward i d of Inl e \<Rightarrow> Refused StatusNotFound (ae_text ae e) | Inr f \<Rightarrow> Answer f)"

definition handleUpsertForward ::
  "admin_env \<Rightarrow> string \<Rightarrow> string + forward_request \<Rightarrow> ctl \<Rightarrow> forward reply \<times> ctl" where
  "handleUpsertForward ae pathID body s =
    (case body of Inl e \<Rightarrow> (Refused StatusBadRequest e, s)
     | Inr q0 \<Rightarrow>
       (let q = (if pathID = [] then q0 else q0\<lparr> frq_id := pathID \<rparr>) in
        case prepareForward (reads_of ae (ct_db s)) q of
          Inl e \<Rightarrow> (Refused StatusBadRequest (ae_prepare_text ae e), s)
        | Inr (f, allocs) \<Rightarrow>
          (case validate_Forward f of Some e \<Rightarrow> (Refused StatusBadRequest (ae_invalid_text ae e), s)
           | None \<Rightarrow>
             (case SaveForward (ae_now ae) f allocs (ct_db s) of
                Inl e \<Rightarrow> (Refused StatusBadRequest (ae_text ae e), s)
              | Inr result \<Rightarrow> (Answer f, committed ae ''forward.upsert'' (fwd_id f) result s)))))"

definition handleDeleteForward :: "admin_env \<Rightarrow> string \<Rightarrow> ctl \<Rightarrow> unit reply \<times> ctl" where
  "handleDeleteForward ae i s =
    (case DeleteForward i (ct_db s) of
       Inl e \<Rightarrow> (Refused StatusNotFound (ae_text ae e), s)
     | Inr result \<Rightarrow> (Answer (), committed ae ''forward.delete'' i result s))"

definition setForwardEnabled :: "admin_env \<Rightarrow> string \<Rightarrow> bool \<Rightarrow> ctl \<Rightarrow> unit reply \<times> ctl" where
  "setForwardEnabled ae i enabled s =
    (case SetForwardEnabled (ae_now ae) i enabled (ct_db s) of
       Inl e \<Rightarrow> (Refused StatusNotFound (ae_text ae e), s)
     | Inr result \<Rightarrow> (Answer (), committed ae (if enabled then ''forward.resume'' else ''forward.pause'') i result s))"

section \<open>Configurations on request\<close>

definition handleAudit :: "db \<Rightarrow> audit_event list reply" where "handleAudit d = Answer (ListAudit 100 d)"

definition handleTraffic :: "sql_total \<Rightarrow> time \<Rightarrow> db \<Rightarrow> metric_overview reply" where
  "handleTraffic tot now d = Answer (MetricOverview tot now 200 d)"

text \<open>\<open>supports\<close> is the header by which a node says that it keeps to long leases.\<close>

definition handleNodeConfig ::
  "control_env \<Rightarrow> (store_error compile_error \<Rightarrow> string) \<Rightarrow> string \<Rightarrow> node \<Rightarrow> ctl \<Rightarrow> signed_config reply" where
  "handleNodeConfig env render supports n s =
    (case compile_for env (nd_id n) (configLeaseForRequest supports) s of
       Inl e \<Rightarrow> Refused StatusInternalServerError (render e) | Inr signed \<Rightarrow> Answer signed)"

section \<open>The requests that change the configuration\<close>

text \<open>The routes of New in server.go that do; a request is answered or refused.\<close>

datatype admin_request =
    CreateNode "string + node_request"
  | EditNode string "string + node_request"
  | DropNode "string + string"
  | PutTunnel string "string + tunnel_request"
  | RemoveTunnel string bool
  | SwitchTunnel string bool
  | PutForward string "string + forward_request"
  | RemoveForward string
  | SwitchForward string bool

definition answered :: "'a reply \<times> ctl \<Rightarrow> bool \<times> ctl" where
  "answered r = (case fst r of Answer _ \<Rightarrow> True | Refused _ _ \<Rightarrow> False, snd r)"

fun handle_admin :: "admin_env \<Rightarrow> admin_request \<Rightarrow> ctl \<Rightarrow> bool \<times> ctl" where
  "handle_admin ae (CreateNode body) s = answered (handleCreateNode ae body s)"
| "handle_admin ae (EditNode i body) s = answered (handleUpdateNode ae i body s)"
| "handle_admin ae (DropNode body) s = answered (handleRevokeNode ae body s)"
| "handle_admin ae (PutTunnel i body) s = answered (handleUpsertTunnel ae i body s)"
| "handle_admin ae (RemoveTunnel i force) s = answered (handleDeleteTunnel ae i force s)"
| "handle_admin ae (SwitchTunnel i b) s = answered (setTunnelEnabled ae i b s)"
| "handle_admin ae (PutForward i body) s = answered (handleUpsertForward ae i body s)"
| "handle_admin ae (RemoveForward i) s = answered (handleDeleteForward ae i s)"
| "handle_admin ae (SwitchForward i b) s = answered (setForwardEnabled ae i b s)"



text \<open>The requests whose handlers ignore the error of BumpRevision.\<close>

fun ignores_bump :: "admin_request \<Rightarrow> bool" where
  "ignores_bump (CreateNode _) = True"
| "ignores_bump (EditNode _ _) = True"
| "ignores_bump _ = False"

section \<open>What a push sends\<close>

lemma sources_audit [simp]: "db_source va (d\<lparr> db_audit := a, db_audit_seq := k \<rparr>) = db_source va d"
proof -
  have "loadTunnelStages va (d\<lparr> db_audit := a, db_audit_seq := k \<rparr>) = loadTunnelStages va d"
    "loadForwardTargets (d\<lparr> db_audit := a, db_audit_seq := k \<rparr>) = loadForwardTargets d"
    by (simp_all add: fun_eq_iff loadTunnelStages_def listStageNodes_def loadForwardTargets_def)
  then show ?thesis
    by (simp add: db_source_def ListNodes_def ListTunnels_def ListForwards_def stored_revision_def GetSetting_def)
qed

lemma compile_for_cong:
  "db_source (ce_vault env) (ct_db s) = db_source (ce_vault env) (ct_db s') \<Longrightarrow> ct_cooldown s = ct_cooldown s' \<Longrightarrow>
     compile_for env i lease s = compile_for env i lease s'"
  by (simp add: compile_for_def)

lemma log_event_keeps [simp]:
  "ct_hub (log_event ae action target s) = ct_hub s" "ct_cooldown (log_event ae action target s) = ct_cooldown s"
  "ct_sent (log_event ae action target s) = ct_sent s" "ct_closed (log_event ae action target s) = ct_closed s"
  "db_source va (ct_db (log_event ae action target s)) = db_source va (ct_db s)"
  "db_settings (ct_db (log_event ae action target s)) = db_settings (ct_db s)"
  "db_nodes (ct_db (log_event ae action target s)) = db_nodes (ct_db s)"
  by (simp_all add: log_event_def AddAudit_def Let_def split: option.split)

lemma log_event_config [simp]: "config_inv (ct_db (log_event ae action target s)) = config_inv (ct_db s)"
  by (rule config_inv_cong) (simp_all add: log_event_def AddAudit_def Let_def split: option.split)

lemma hub_send_grows: "\<exists>xs. ct_sent (snd (hub_send env i msg s)) = ct_sent s @ xs"
  by (simp add: hub_send_def split: option.split)

lemma pushConfig_grows: "\<exists>xs. ct_sent (snd (pushConfig env i s)) = ct_sent s @ xs"
  by (simp add: pushConfig_def hub_send_grows split: sum.split)

abbreviation config_message :: "signed_config \<Rightarrow> control_message" where
  "config_message signed \<equiv> (control ''config'')\<lparr> cm_config := Some signed \<rparr>"

lemma pushConfig_sends:
  assumes "map_of (hb_sockets (ct_hub s)) i = Some so" and "ce_write env (so_conn so)"
    and "compile_for env i (configLeaseForNode (ct_hub s) i) s = Inr sc"
  shows "ct_sent (snd (pushConfig env i s)) = ct_sent s @ [(so_conn so, config_message sc)]"
  using assms by (simp add: pushConfig_def hub_send_def SendContext_def)

definition pushes :: "control_env \<Rightarrow> ctl \<Rightarrow> ctl \<Rightarrow> bool" where
  "pushes env s s' \<longleftrightarrow> (\<exists>xs. ct_sent s' = ct_sent s @ xs \<and>
     (\<forall>i so sc. map_of (hb_sockets (ct_hub s')) i = Some so \<longrightarrow> ce_write env (so_conn so) \<longrightarrow>
        compile_for env i (configLeaseForNode (ct_hub s') i) s' = Inr sc \<longrightarrow> (so_conn so, config_message sc) \<in> set xs))"

lemma pushConfigs_pushes: "pushes env s (pushConfigs env s)"
proof -
  let ?push = "\<lambda>is s. fold (\<lambda>i s. snd (pushConfig env i s)) is s"
  have k: "ct_db (?push is s) = ct_db s \<and> ct_hub (?push is s) = ct_hub s \<and> ct_cooldown (?push is s) = ct_cooldown s" for "is" s
    by (induction "is" arbitrary: s) simp_all
  have g: "\<exists>xs. ct_sent (?push is s) = ct_sent s @ xs \<and>
      (\<forall>i\<in>set is. \<forall>so sc. map_of (hb_sockets (ct_hub s)) i = Some so \<longrightarrow> ce_write env (so_conn so) \<longrightarrow>
        compile_for env i (configLeaseForNode (ct_hub s) i) s = Inr sc \<longrightarrow> (so_conn so, config_message sc) \<in> set xs)" for "is" s
  proof (induction "is" arbitrary: s)
    case (Cons i "is")
    let ?s = "snd (pushConfig env i s)"
    have c: "compile_for env j lease ?s = compile_for env j lease s" for j lease by (rule compile_for_cong) simp_all
    obtain ys where y: "ct_sent ?s = ct_sent s @ ys" using pushConfig_grows by blast
    obtain xs where x: "ct_sent (?push is ?s) = ct_sent ?s @ xs"
      "\<forall>j\<in>set is. \<forall>so sc. map_of (hb_sockets (ct_hub s)) j = Some so \<longrightarrow> ce_write env (so_conn so) \<longrightarrow>
        compile_for env j (configLeaseForNode (ct_hub s) j) s = Inr sc \<longrightarrow> (so_conn so, config_message sc) \<in> set xs"
      using Cons.IH [of ?s] by (auto simp: c)
    have "(so_conn so, config_message sc) \<in> set ys" if "map_of (hb_sockets (ct_hub s)) i = Some so" "ce_write env (so_conn so)"
      "compile_for env i (configLeaseForNode (ct_hub s) i) s = Inr sc" for so sc
      using pushConfig_sends [OF that] y by simp
    with x y show ?case by (intro exI [of _ "ys @ xs"]) auto
  qed simp
  have ids: "i \<in> set (NodeIDs (ct_hub s))" if "map_of (hb_sockets (ct_hub s)) i = Some so" for i so
    using that by (auto simp: NodeIDs_def dest: map_of_SomeD intro: rev_image_eqI)
  have c: "compile_for env i lease (pushConfigs env s) = compile_for env i lease s" for i lease by (rule compile_for_cong) simp_all
  obtain xs where x: "ct_sent (?push (NodeIDs (ct_hub s)) s) = ct_sent s @ xs"
    "\<forall>i\<in>set (NodeIDs (ct_hub s)). \<forall>so sc. map_of (hb_sockets (ct_hub s)) i = Some so \<longrightarrow> ce_write env (so_conn so) \<longrightarrow>
      compile_for env i (configLeaseForNode (ct_hub s) i) s = Inr sc \<longrightarrow> (so_conn so, config_message sc) \<in> set xs"
    using g by blast
  have "(so_conn so, config_message sc) \<in> set xs" if "map_of (hb_sockets (ct_hub s)) i = Some so" "ce_write env (so_conn so)"
    "compile_for env i (configLeaseForNode (ct_hub s) i) s = Inr sc" for i so sc
    using x(2) ids [OF that(1)] that by blast
  with x(1) show ?thesis unfolding pushes_def c by (intro exI [of _ xs]) (simp add: pushConfigs_def k)
qed

section \<open>Every change reaches the connected nodes\<close>

text \<open>The state at the final push of a change: the new database and revision, and nothing unsent.\<close>

definition changed :: "ctl \<Rightarrow> ctl \<Rightarrow> bool" where
  "changed s s1 \<longleftrightarrow> (let r = stored_revision (ct_db s) + 1 in
     config_inv (ct_db s1) \<and> stored_revision (ct_db s1) = r \<and> ct_hub s1 = SetRevision r (ct_hub s) \<and>
     (\<exists>xs. ct_sent s1 = ct_sent s @ xs))"

lemma changed_stored:
  assumes "stored_revision d = stored_revision (ct_db s) + 1" and "r = stored_revision d" and "config_inv d"
  shows "changed s (s\<lparr> ct_db := d, ct_hub := SetRevision r (ct_hub s) \<rparr>)"
  using assms by (simp add: changed_def Let_def)

lemma bumped_stored: "ce_bump (ae_control ae) = None \<Longrightarrow> bumped ae d = bumpRevisionTx d"
  by (simp add: bumped_def BumpRevision_stored)

lemma bumped_nodes [simp]: "db_nodes (snd (bumped ae d)) = db_nodes d"
  using BumpRevision_keeps(1) [of "ce_bump (ae_control ae)" d] by (simp add: bumped_def split_beta)

lemma bump_after_nodes:
  assumes "db_settings d = db_settings d0" and "config_inv d = config_inv d0"
    and "0 \<le> stored_revision d0" "stored_revision d0 < 2 ^ 63 - 1"
  obtains d1 where "bumpRevisionTx d = (stored_revision d0 + 1, d1)" "stored_revision d1 = stored_revision d0 + 1"
    "config_inv d1 = config_inv d0"
proof -
  have r: "stored_revision d = stored_revision d0" by (rule stored_revision_cong [OF assms(1)])
  then have b: "bumpRevisionTx d = (stored_revision d0 + 1, put_setting ''config_revision'' (itoa (stored_revision d0 + 1)) d)"
    "stored_revision (snd (bumpRevisionTx d)) = stored_revision d0 + 1"
    using bump_revision [of d] assms(3,4) by simp_all
  moreover have "config_inv (put_setting ''config_revision'' v d) = config_inv d" for v
    by (rule config_inv_cong) (simp_all add: put_setting_def)
  ultimately show thesis using assms(2) that by auto
qed

lemma node_tables:
  "UpsertNode va now nonce n token d0 = Inr d \<Longrightarrow> db_settings d = db_settings d0 \<and> config_inv d = config_inv d0"
  "UpdateNode now n d0 = Inr d \<Longrightarrow> db_settings d = db_settings d0 \<and> config_inv d = config_inv d0"
  "RevokeNode now i d0 = Inr d \<Longrightarrow> db_settings d = db_settings d0 \<and> config_inv d = config_inv d0"
proof -
  have k: "db_settings (d0\<lparr> db_nodes := ns \<rparr>) = db_settings d0 \<and> config_inv (d0\<lparr> db_nodes := ns \<rparr>) = config_inv d0" for ns
    using config_inv_cong [of "d0\<lparr> db_nodes := ns \<rparr>" d0] by simp
  show "UpsertNode va now nonce n token d0 = Inr d \<Longrightarrow> db_settings d = db_settings d0 \<and> config_inv d = config_inv d0"
    using k by (auto simp: UpsertNode_def Let_def err_simps)
  show "UpdateNode now n d0 = Inr d \<Longrightarrow> db_settings d = db_settings d0 \<and> config_inv d = config_inv d0"
    using k by (auto simp: UpdateNode_def Let_def split: if_splits)
  show "RevokeNode now i d0 = Inr d \<Longrightarrow> db_settings d = db_settings d0 \<and> config_inv d = config_inv d0"
    using k by (auto simp: RevokeNode_def split: if_splits)
qed

definition committing :: "admin_env \<Rightarrow> ctl \<Rightarrow> ctl \<Rightarrow> bool" where
  "committing ae s s' \<longleftrightarrow> (\<exists>act t s1. changed s s1 \<and> s' = log_event ae act t (pushConfigs (ae_control ae) s1))"

lemma committing_commit:
  assumes "stored_revision d = stored_revision (ct_db s) + 1" and "r = stored_revision d" and "config_inv d"
  shows "committing ae s (committed ae act t (r, d) s)"
  unfolding committing_def committed_def publish_def prod.case
  by (intro exI conjI) (rule changed_stored [OF assms], simp)

lemma committing_step:
  assumes "config_step va (ct_db s) r d" and "config_inv (ct_db s)"
    and "0 \<le> stored_revision (ct_db s)" "stored_revision (ct_db s) < 2 ^ 63 - 1"
  shows "committing ae s (committed ae act t (r, d) s)"
  using config_step_revision [OF assms] config_step_inv [OF assms(1,2)] by (intro committing_commit) auto

lemma committing_nodes:
  assumes "db_settings d = db_settings (ct_db s) \<and> config_inv d = config_inv (ct_db s)" and "config_inv (ct_db s)"
    and "0 \<le> stored_revision (ct_db s)" "stored_revision (ct_db s) < 2 ^ 63 - 1"
    and "ce_bump (ae_control ae) = None"
  shows "committing ae s (committed ae act t (bumped ae d) s)"
  unfolding bumped_stored [OF assms(5)]
  by (rule bump_after_nodes [of d "ct_db s"]) (use assms committing_commit in auto)

lemma revoke_changed:
  assumes "revoke env i s = ((None, None), s1)" and "config_inv (ct_db s)"
    and "0 \<le> stored_revision (ct_db s)" "stored_revision (ct_db s) < 2 ^ 63 - 1"
  shows "changed s s1"
proof -
  obtain d where d: "RevokeNode (ce_now env) i (ct_db s) = Inr d"
    using assms(1) revoke_Inl [of env i s] by (cases "RevokeNode (ce_now env) i (ct_db s)") auto
  have fine: "ce_bump env = None" using assms(1) revoke_failed [OF d] by (metis prod.inject option.distinct(1))
  obtain d1 where b: "bumpRevisionTx d = (stored_revision (ct_db s) + 1, d1)" "stored_revision d1 = stored_revision (ct_db s) + 1"
    "config_inv d1 = config_inv (ct_db s)"
    using node_tables(3) [OF d] assms(3,4) by (auto elim: bump_after_nodes [of d "ct_db s"])
  let ?s = "s\<lparr> ct_db := d1, ct_hub := SetRevision (stored_revision (ct_db s) + 1) (ct_hub s) \<rparr>"
  have "s1 = close_node i (snd (pushConfig env i ?s))" using assms(1) by (simp add: revoke_stored [OF d fine] b(1))
  with b assms(2) pushConfig_grows [of env i ?s] show ?thesis by (simp add: changed_def Let_def close_node_def)
qed

lemma answered_simps [simp]: "answered (Answer x, s) = (True, s)" "answered (Refused c e, s) = (False, s)"
  by (simp_all add: answered_def)

lemma reads_of_allocs:
  "prepareTunnel (reads_of ae d) q = Inr (t, as) \<Longrightarrow> prep_env_ok (ae_fresh ae) \<Longrightarrow> tunnel_allocs t as"
  "prepareForward (reads_of ae d) qf = Inr (f, as) \<Longrightarrow> forward_allocs f as"
proof -
  have "prep_env_ok (reads_of ae d) = prep_env_ok (ae_fresh ae)" by (simp add: prep_env_ok_def reads_of_def)
  then show "prepareTunnel (reads_of ae d) q = Inr (t, as) \<Longrightarrow> prep_env_ok (ae_fresh ae) \<Longrightarrow> tunnel_allocs t as"
    using prepared_owner [of "reads_of ae d" q t as] by (auto simp: tunnel_allocs_def owned_by_def)
  show "prepareForward (reads_of ae d) qf = Inr (f, as) \<Longrightarrow> forward_allocs f as"
    using prepared_forward_owner [of "reads_of ae d" qf f as] by (auto simp: forward_allocs_def owned_by_def)
qed

lemma admin_commits:
  assumes "handle_admin ae rq s = (True, s')" and "config_inv (ct_db s)"
    and "0 \<le> stored_revision (ct_db s)" "stored_revision (ct_db s) < 2 ^ 63 - 1" and "prep_env_ok (ae_fresh ae)"
    and "ignores_bump rq \<longrightarrow> ce_bump (ae_control ae) = None"
  shows "committing ae s s'"
proof (cases rq)
  case (CreateNode body)
  from assms(1,6) show ?thesis
    by (auto simp: CreateNode handleCreateNode_def Let_def node_tables intro!: committing_nodes [OF _ assms(2-4)] split: sum.splits option.splits)
next
  case (EditNode i body)
  from assms(1,6) show ?thesis
    by (auto simp: EditNode handleUpdateNode_def node_not_found_def Let_def node_tables intro!: committing_nodes [OF _ assms(2-4)]
        split: sum.splits option.splits if_splits)
next
  case (DropNode body)
  from assms(1) obtain i s1 where "revoke (ae_control ae) i s = ((None, None), s1)"
    "s' = log_event ae ''node.revoke'' i (pushConfigs (ae_control ae) s1)"
    by (auto simp: DropNode handleRevokeNode_def split: sum.splits option.splits prod.splits)
  then show ?thesis using revoke_changed [OF _ assms(2-4)] unfolding committing_def by blast
next
  case (PutTunnel i body)
  from assms(1) show ?thesis
    by (auto simp: PutTunnel handleUpsertTunnel_def Let_def reads_of_allocs assms(5)
        intro!: committing_step [OF _ assms(2-4)] config_step.save_tunnel split: sum.splits option.splits)
next
  case (RemoveTunnel i force)
  from assms(1) show ?thesis
    by (auto simp: RemoveTunnel handleDeleteTunnel_def intro!: committing_step [OF _ assms(2-4)] config_step.delete_tunnel split: sum.splits)
next
  case (SwitchTunnel i b)
  from assms(1) show ?thesis
    by (auto simp: SwitchTunnel setTunnelEnabled_def intro!: committing_step [OF _ assms(2-4)] config_step.enable_tunnel split: sum.splits)
next
  case (PutForward i body)
  from assms(1) show ?thesis
    by (auto simp: PutForward handleUpsertForward_def Let_def reads_of_allocs
        intro!: committing_step [OF _ assms(2-4)] config_step.save_forward split: sum.splits option.splits)
next
  case (RemoveForward i)
  from assms(1) show ?thesis
    by (auto simp: RemoveForward handleDeleteForward_def intro!: committing_step [OF _ assms(2-4)] config_step.delete_forward split: sum.splits)
next
  case (SwitchForward i b)
  from assms(1) show ?thesis
    by (auto simp: SwitchForward setForwardEnabled_def intro!: committing_step [OF _ assms(2-4)] config_step.enable_forward split: sum.splits)
qed

lemma pushes_final:
  assumes "changed s s1" and "s' = log_event ae act t (pushConfigs (ae_control ae) s1)"
  shows "stored_revision (ct_db s') = stored_revision (ct_db s) + 1" "hb_revision (ct_hub s') = stored_revision (ct_db s')"
    "hb_sockets (ct_hub s') = hb_sockets (ct_hub s)" "config_inv (ct_db s')" "pushes (ae_control ae) s s'"
proof -
  let ?r = "stored_revision (ct_db s) + 1"
  have c: "config_inv (ct_db s1)" "stored_revision (ct_db s1) = ?r" "ct_hub s1 = SetRevision ?r (ct_hub s)"
    using assms(1) by (simp_all add: changed_def Let_def)
  have "stored_revision (ct_db s') = stored_revision (ct_db s1)" by (rule stored_revision_cong) (simp add: assms(2))
  with c show "stored_revision (ct_db s') = ?r" "hb_revision (ct_hub s') = stored_revision (ct_db s')"
    "hb_sockets (ct_hub s') = hb_sockets (ct_hub s)" "config_inv (ct_db s')"
    by (simp_all add: assms(2) SetRevision_def)
  obtain xs where x: "ct_sent s1 = ct_sent s @ xs" using assms(1) by (auto simp: changed_def Let_def)
  obtain ys where y: "ct_sent (pushConfigs (ae_control ae) s1) = ct_sent s1 @ ys"
    "\<forall>i so sc. map_of (hb_sockets (ct_hub (pushConfigs (ae_control ae) s1))) i = Some so \<longrightarrow> ce_write (ae_control ae) (so_conn so) \<longrightarrow>
      compile_for (ae_control ae) i (configLeaseForNode (ct_hub (pushConfigs (ae_control ae) s1)) i) (pushConfigs (ae_control ae) s1) = Inr sc \<longrightarrow>
      (so_conn so, config_message sc) \<in> set ys" for sc
    using pushConfigs_pushes [of "ae_control ae" s1] unfolding pushes_def by blast
  have e: "compile_for (ae_control ae) i lease s' = compile_for (ae_control ae) i lease (pushConfigs (ae_control ae) s1)" for i lease
    by (rule compile_for_cong) (simp_all add: assms(2))
  show "pushes (ae_control ae) s s'"
    unfolding pushes_def e using x y by (intro exI [of _ "xs @ ys"]) (simp add: assms(2))
qed

lemma compiled_revision: "compile_for env i lease s = Inr sc \<Longrightarrow> rc_revision (sc_config sc) = stored_revision (ct_db s)"
  unfolding compile_for_def by (elim compile_Inr) (auto simp: db_source_def unsigned_config_def Let_def)

text \<open>C10: every change the administration makes reaches the nodes.  When a request on a node, a tunnel or a forward
  is answered, the configuration tables are still consistent, the revision has grown by one and is the
  one of the hub, and every connected node whose connection takes the message has been sent the
  configuration that the new database compiles to for it, under the new revision.  (For a node that is created or
  edited this is so if the bump of the revision succeeds: those two handlers ignore its error.)\<close>

theorem change_delivered:
  assumes "handle_admin ae rq s = (True, s')" and "ignores_bump rq \<longrightarrow> ce_bump (ae_control ae) = None" and "config_inv (ct_db s)" and "prep_env_ok (ae_fresh ae)"
    and "0 \<le> stored_revision (ct_db s)" and "stored_revision (ct_db s) < 2 ^ 63 - 1"
  shows "config_inv (ct_db s') \<and> stored_revision (ct_db s') = stored_revision (ct_db s) + 1 \<and>
    hb_revision (ct_hub s') = stored_revision (ct_db s') \<and>
    (\<exists>sent. ct_sent s' = ct_sent s @ sent \<and>
       (\<forall>i so sc. map_of (hb_sockets (ct_hub s)) i = Some so \<longrightarrow> ce_write (ae_control ae) (so_conn so) \<longrightarrow>
          compile_for (ae_control ae) i (configLeaseForNode (ct_hub s) i) s' = Inr sc \<longrightarrow>
          rc_revision (sc_config sc) = stored_revision (ct_db s') \<and> (so_conn so, config_message sc) \<in> set sent))"
proof -
  obtain act t s1 where c: "changed s s1" and s': "s' = log_event ae act t (pushConfigs (ae_control ae) s1)"
    using admin_commits [OF assms(1,3,5,6,4,2)] by (auto simp: committing_def)
  note f = pushes_final [OF c s']
  have "configLeaseForNode (ct_hub s') i = configLeaseForNode (ct_hub s) i" for i
    using f(3) by (simp add: configLeaseForNode_def SupportsLongConfigLease_def)
  with f compiled_revision show ?thesis unfolding pushes_def by auto
qed

text \<open>The bump of the revision that the creation of a node ignores: the node is stored, and the hub announces revision 0.\<close>

lemma ignored_bump:
  assumes "ce_bump (ae_control ae) = Some (BumpAborted e)"
  shows "hb_revision (ct_hub (committed ae act t (bumped ae d) s)) = 0 \<and>
    stored_revision (ct_db (committed ae act t (bumped ae d) s)) = stored_revision d"
proof -
  have "stored_revision (ct_db (committed ae act t (bumped ae d) s)) = stored_revision d"
    by (rule stored_revision_cong) (simp add: committed_def publish_def bumped_def BumpRevision_def assms split_beta)
  then show ?thesis by (simp add: committed_def publish_def bumped_def BumpRevision_def assms split_beta SetRevision_def)
qed

section \<open>Requests that are refused\<close>

text \<open>A revocation whose revision could not be bumped.\<close>

definition half_revoked :: "admin_env \<Rightarrow> string \<Rightarrow> ctl \<Rightarrow> ctl \<Rightarrow> bool" where
  "half_revoked ae i s s' \<longleftrightarrow> ce_bump (ae_control ae) \<noteq> None \<and>
     (\<exists>d. RevokeNode (ae_now ae) i (ct_db s) = Inr d \<and> s' = close_node i (s\<lparr> ct_db := d \<rparr>))"

lemma revoke_outcome:
  "revoke (ae_control ae) i s = ((Some e, x), s1) \<Longrightarrow> s1 = s"
  "revoke (ae_control ae) i s = ((None, Some e), s1) \<Longrightarrow> half_revoked ae i s s1"
proof -
  show "revoke (ae_control ae) i s = ((Some e, x), s1) \<Longrightarrow> s1 = s"
    by (auto simp: revoke_def split: sum.splits prod.splits option.splits)
  assume r: "revoke (ae_control ae) i s = ((None, Some e), s1)"
  then obtain d where d: "RevokeNode (ae_now ae) i (ct_db s) = Inr d"
    using revoke_Inl [of "ae_control ae" i s] by (cases "RevokeNode (ae_now ae) i (ct_db s)") auto
  show "half_revoked ae i s s1"
  proof (cases "ce_bump (ae_control ae)")
    case None
    with r revoke_stored [OF d] show ?thesis by simp
  next
    case (Some x)
    then show ?thesis using r d by (auto simp: half_revoked_def elim!: revoke_failed)
  qed
qed

lemma admin_refused:
  assumes "handle_admin ae rq s = (False, s')"
  shows "s' = s \<or> (\<exists>i. rq = DropNode (Inr i) \<and> half_revoked ae i s s')"
proof (cases rq)
  case (DropNode body)
  with assms show ?thesis
    by (auto simp: handleRevokeNode_def dest: revoke_outcome split: sum.splits option.splits prod.splits)
qed (use assms in \<open>auto simp: handleCreateNode_def handleUpdateNode_def node_not_found_def handleUpsertTunnel_def handleDeleteTunnel_def
  setTunnelEnabled_def handleUpsertForward_def handleDeleteForward_def setForwardEnabled_def Let_def
  split: sum.splits option.splits if_splits\<close>)








section \<open>The administration among the connections\<close>

lemma inserts_keep_nodes:
  "insertAllocations now as d = Inr d' \<Longrightarrow> db_nodes d' = db_nodes d"
  "insert_stage_nodes va rand now tid sid ns d = Inr d' \<Longrightarrow> db_nodes d' = db_nodes d"
  "insert_targets fid i ts d = Inr d' \<Longrightarrow> db_nodes d' = db_nodes d"
proof -
  show "insertAllocations now as d = Inr d' \<Longrightarrow> db_nodes d' = db_nodes d"
    by (induction as arbitrary: d) (auto simp: Let_def split: if_splits)
  show "insert_stage_nodes va rand now tid sid ns d = Inr d' \<Longrightarrow> db_nodes d' = db_nodes d"
    by (induction ns arbitrary: d) (auto simp: Let_def err_simps split: if_splits)
  show "insert_targets fid i ts d = Inr d' \<Longrightarrow> db_nodes d' = db_nodes d"
    by (induction ts arbitrary: i d) (auto simp: Let_def split: if_splits)
qed

lemma insert_stages_nodes: "insert_stages va rand now tid ss d = Inr d' \<Longrightarrow> db_nodes d' = db_nodes d"
  by (induction ss arbitrary: d) (auto simp: Let_def err_simps dest!: inserts_keep_nodes(2) split: if_splits)

lemma bump_keeps_nodes: "bumpRevisionTx d = (r, d') \<Longrightarrow> db_nodes d' = db_nodes d"
  by (auto simp: bumpRevisionTx_def put_setting_def Let_def)

lemma config_step_nodes: "config_step va d r d' \<Longrightarrow> db_nodes d' = db_nodes d"
proof (induction rule: config_step.induct)
  case (save_tunnel rand now t as d r d')
  then show ?case
    by (auto simp: SaveTunnel_def Let_def err_simps clear_tunnel_stages_def dest!: insert_stages_nodes inserts_keep_nodes bump_keeps_nodes)
next
  case (save_forward now f as d r d')
  then show ?case
    by (auto simp: SaveForward_def Let_def err_simps dest!: inserts_keep_nodes bump_keeps_nodes)
qed (auto simp: DeleteTunnel_def SetTunnelEnabled_def DeleteForward_def SetForwardEnabled_def clear_tunnel_stages_def Let_def
    dest!: bump_keeps_nodes split: if_splits)

definition nodes_kept :: "db \<Rightarrow> db \<Rightarrow> bool" where
  "nodes_kept d d' \<longleftrightarrow> (\<forall>i. revoked_row i d' \<longrightarrow> revoked_row i d) \<and>
     (unique_by ndr_id (db_nodes d) \<longrightarrow> unique_by ndr_id (db_nodes d'))"

lemma nodes_kept_same: "db_nodes d' = db_nodes d \<Longrightarrow> nodes_kept d d'"
  by (simp add: nodes_kept_def revoked_row_def)

lemma nodes_kept_edit:
  "UpdateNode now n d = Inr d' \<Longrightarrow> nodes_kept d d'"
  "UpsertNode va now nonce n token d = Inr d' \<Longrightarrow> \<not> nd_revoked n \<Longrightarrow> nodes_kept d d'"
proof -
  let ?m = "normalizeNodePorts n"
  let ?f = "\<lambda>x. x\<lparr> nd_name := nd_name ?m, nd_labels := emptyMap (nd_labels ?m), nd_public_host := nd_public_host ?m,
     nd_port_min := nd_port_min ?m, nd_port_max := nd_port_max ?m, nd_updated_at := now \<rparr>"
  assume "UpdateNode now n d = Inr d'"
  then have d': "d' = update_node (live_node (nd_id n)) ?f d" by (auto simp: UpdateNode_def Let_def split: if_splits)
  have "revoked_row i d' \<longleftrightarrow> revoked_row i d" for i unfolding d' by (rule revoked_row_update) simp_all
  moreover have "unique_by ndr_id (db_nodes d) \<Longrightarrow> unique_by ndr_id (db_nodes d')"
    unfolding d' by (rule unique_update_node) simp_all
  ultimately show "nodes_kept d d'" by (simp add: nodes_kept_def)
next
  let ?n = "(normalizeNodePorts n)\<lparr> nd_created_at := (if nd_created_at n = zero_time then now else nd_created_at n),
     nd_updated_at := now, nd_labels := emptyMap (nd_labels n) \<rparr>"
  assume u: "UpsertNode va now nonce n token d = Inr d'" "\<not> nd_revoked n"
  then obtain enc where d': "d' = d\<lparr> db_nodes := upsert ndr_id
      (\<lambda>old. \<lparr> ndr_node = ?n\<lparr> nd_created_at := nd_created_at (ndr_node old) \<rparr>, ndr_token = [], ndr_encrypted = enc \<rparr>)
      \<lparr> ndr_node = ?n, ndr_token = [], ndr_encrypted = enc \<rparr> (db_nodes d) \<rparr>"
    unfolding UpsertNode_def Let_def by (cases "encryptNodeToken (va_seal va) (va_token_key va) nonce (nd_id n) token") (simp_all, blast)
  have rows: "db_nodes d' = upsert ndr_id
      (\<lambda>old. \<lparr> ndr_node = ?n\<lparr> nd_created_at := nd_created_at (ndr_node old) \<rparr>, ndr_token = [], ndr_encrypted = enc \<rparr>)
      \<lparr> ndr_node = ?n, ndr_token = [], ndr_encrypted = enc \<rparr> (db_nodes d)" by (simp add: d')
  have "revoked_row i d' \<longrightarrow> revoked_row i d" for i
    using u(2) by (auto simp: d' revoked_row_def upsert_def split: if_splits)
  moreover have "unique_by ndr_id (db_nodes d')" if "unique_by ndr_id (db_nodes d)"
    unfolding rows by (rule unique_upsert) (simp_all add: ndr_id_def that)
  ultimately show "nodes_kept d d'" by (simp add: nodes_kept_def)
qed

lemma committed_elsewhere:
  assumes "db_nodes (snd rd) = db_nodes d" and "nodes_kept (ct_db s) d"
  shows "elsewhere s (committed ae act t rd s)"
proof -
  obtain r d1 where rd: "rd = (r, d1)" by (cases rd)
  have k: "db_nodes (ct_db (committed ae act t rd s)) = db_nodes d" using assms(1) by (simp add: committed_def publish_def rd)
  have "revoked_row i (ct_db (committed ae act t rd s)) \<longleftrightarrow> revoked_row i d" for i by (simp only: revoked_row_def k)
  then show ?thesis
    using assms(2) by (simp add: elsewhere_def nodes_kept_def k) (simp add: committed_def publish_def rd SetRevision_def)
qed

lemma committed_step_elsewhere: "config_step va (ct_db s) r d \<Longrightarrow> elsewhere s (committed ae act t (r, d) s)"
  by (rule committed_elsewhere [of _ "ct_db s"]) (auto simp: config_step_nodes nodes_kept_same)

lemma elsewhere_refl: "elsewhere s s"
  by (simp add: elsewhere_def)

text \<open>Every request of the administration is some steps of the state machine of the connections.\<close>

lemma admin_controls:
  assumes "handle_admin ae rq (cs_ctl st) = (b, s')" and "prep_env_ok (ae_fresh ae)"
  shows "control_step\<^sup>*\<^sup>* st (st\<lparr> cs_ctl := s' \<rparr>)"
proof (cases "\<exists>body. rq = DropNode body")
  case True
  then obtain body where rq: "rq = DropNode body" by blast
  show ?thesis
  proof (cases b)
    case False
    with assms(1) have "handle_admin ae rq (cs_ctl st) = (False, s')" by simp
    from admin_refused [OF this] show ?thesis
    proof
      assume "s' = cs_ctl st"
      then show ?thesis by simp
    next
      assume "\<exists>i. rq = DropNode (Inr i) \<and> half_revoked ae i (cs_ctl st) s'"
      then obtain i where "s' = snd (revoke (ae_control ae) i (cs_ctl st))"
        unfolding half_revoked_def by (metis revoke_failed snd_conv)
      then show ?thesis using control_step.revoke [of st "ae_control ae" i] by auto
    qed
  next
    case True
    with assms(1) obtain i s1 where r: "revoke (ae_control ae) i (cs_ctl st) = ((None, None), s1)"
      "s' = log_event ae ''node.revoke'' i (pushConfigs (ae_control ae) s1)"
      by (auto simp: rq handleRevokeNode_def split: sum.splits option.splits prod.splits)
    have "control_step st (st\<lparr> cs_ctl := s1 \<rparr>)" using control_step.revoke [of st "ae_control ae" i] by (simp add: r(1))
    moreover have "elsewhere s1 s'" by (simp add: r(2) elsewhere_def revoked_row_def)
    then have "control_step (st\<lparr> cs_ctl := s1 \<rparr>) (st\<lparr> cs_ctl := s' \<rparr>)"
      using control_step.other [of "st\<lparr> cs_ctl := s1 \<rparr>" s'] by simp
    ultimately show ?thesis by (meson converse_rtranclp_into_rtranclp r_into_rtranclp)
  qed
next
  case False
  have "elsewhere (cs_ctl st) s'"
  proof (cases b)
    case b: False
    with assms(1) have "handle_admin ae rq (cs_ctl st) = (False, s')" by simp
    from admin_refused [OF this] False show ?thesis by (auto simp: elsewhere_refl)
  next
    case True
    have new: "nodes_kept d d' \<Longrightarrow> d = ct_db (cs_ctl st) \<Longrightarrow> elsewhere (cs_ctl st) (committed ae act t (bumped ae d') (cs_ctl st))" for d d' act t
      by (rule committed_elsewhere [of _ d']) auto
    show ?thesis
    proof (cases rq)
      case (CreateNode body)
      with assms(1) True show ?thesis
        by (auto simp: handleCreateNode_def Let_def created_node_def intro!: new [OF nodes_kept_edit(2)] split: sum.splits option.splits)
    next
      case (EditNode i body)
      with assms(1) True show ?thesis
        by (auto simp: handleUpdateNode_def node_not_found_def Let_def intro!: new [OF nodes_kept_edit(1)]
            split: sum.splits option.splits if_splits)
    next
      case (PutTunnel i body)
      with assms True show ?thesis
        by (auto simp: handleUpsertTunnel_def Let_def reads_of_allocs intro!: committed_step_elsewhere config_step.save_tunnel
            split: sum.splits option.splits)
    next
      case (PutForward i body)
      with assms(1) True show ?thesis
        by (auto simp: handleUpsertForward_def Let_def reads_of_allocs intro!: committed_step_elsewhere config_step.save_forward
            split: sum.splits option.splits)
    next
      case (RemoveTunnel i force)
      with assms(1) True show ?thesis
        by (auto simp: handleDeleteTunnel_def intro!: committed_step_elsewhere config_step.delete_tunnel split: sum.splits)
    next
      case (SwitchTunnel i x)
      with assms(1) True show ?thesis
        by (auto simp: setTunnelEnabled_def intro!: committed_step_elsewhere config_step.enable_tunnel split: sum.splits)
    next
      case (RemoveForward i)
      with assms(1) True show ?thesis
        by (auto simp: handleDeleteForward_def intro!: committed_step_elsewhere config_step.delete_forward split: sum.splits)
    next
      case (SwitchForward i x)
      with assms(1) True show ?thesis
        by (auto simp: setForwardEnabled_def intro!: committed_step_elsewhere config_step.enable_forward split: sum.splits)
    qed (use False in auto)
  qed
  then show ?thesis by (intro r_into_rtranclp control_step.other)
qed

section \<open>The rows of nodes are well-typed\<close>

text \<open>What the Go types leave open: strings that stand for an enumeration, a flag that mirrors a status, ports and
  lengths.\<close>

definition well_typed_node :: "node \<Rightarrow> bool" where
  "well_typed_node n \<longleftrightarrow> nd_status n \<in> {NodeOffline, NodeOnline, NodeRevoked} \<and> (nd_revoked n \<longleftrightarrow> nd_status n = NodeRevoked) \<and>
     nd_update n \<in> {UpdateIdle, UpdateRequested, UpdateRunning, UpdateSucceeded, UpdateFailed} \<and>
     1 \<le> nd_port_min n \<and> nd_port_min n \<le> nd_port_max n \<and> nd_port_max n \<le> 65535 \<and> nd_name n \<noteq> [] \<and>
     length (nd_version n) \<le> maxNodeVersionBytes \<and> length (nd_update_error n) \<le> maxNodeUpdateErrorBytes"

lemma well_typed_ignores [simp]:
  "well_typed_node (n\<lparr> nd_created_at := t \<rparr>) = well_typed_node n" "well_typed_node (n\<lparr> nd_updated_at := t \<rparr>) = well_typed_node n"
  "well_typed_node (n\<lparr> nd_labels := l \<rparr>) = well_typed_node n"
  by (simp_all add: well_typed_node_def)

definition typed_nodes :: "db \<Rightarrow> bool" where
  "typed_nodes d \<longleftrightarrow> (\<forall>r\<in>set (db_nodes d). well_typed_node (ndr_node r))"

lemma typed_update:
  assumes "typed_nodes d" and "\<And>r. P r \<Longrightarrow> well_typed_node (ndr_node r) \<Longrightarrow> well_typed_node (f (ndr_node r))"
  shows "typed_nodes (update_node P f d)"
  using assms by (auto simp: typed_nodes_def update_where_def)

lemma status_names [simp]: "NodeOffline \<noteq> NodeRevoked" "NodeOnline \<noteq> NodeRevoked"
  by (simp_all add: enum_defs)

lemma typed_seen: "typed_nodes d \<Longrightarrow> length v \<le> maxNodeVersionBytes \<Longrightarrow> typed_nodes (MarkNodeSeen now i sys v d)"
  by (auto simp: MarkNodeSeen_def Let_def live_node_def well_typed_node_def mark_seen_def intro!: typed_update split: option.split)

lemma typed_report:
  "typed_nodes d \<Longrightarrow> validateNodeUpdateReport rep = None \<Longrightarrow> typed_nodes (UpdateNodeReport now i rep d)"
  by (auto simp: UpdateNodeReport_def Let_def live_node_def well_typed_node_def validateNodeUpdateReport_def validateNodeError_def
      err_simps intro!: typed_update)

lemma typed_offline: "typed_nodes d \<Longrightarrow> typed_nodes (MarkNodeOffline now i d)"
  by (auto simp: MarkNodeOffline_def live_node_def well_typed_node_def intro!: typed_update)

lemma typed_request: "typed_nodes d \<Longrightarrow> typed_nodes (snd (RequestNodeUpdate va now i v d))"
  by (auto simp: RequestNodeUpdate_def Let_def live_node_def well_typed_node_def intro!: typed_update)

lemma typed_revoke: "typed_nodes d \<Longrightarrow> RevokeNode now i d = Inr d' \<Longrightarrow> typed_nodes d'"
  by (auto simp: RevokeNode_def well_typed_node_def intro!: typed_update split: if_splits)

lemma typed_cong: "db_nodes d' = db_nodes d \<Longrightarrow> typed_nodes d' = typed_nodes d"
  by (simp add: typed_nodes_def)

lemma typed_requested:
  assumes "validate_node_request ae q = None"
  shows "trim_space (nrq_name q) \<noteq> []" and "nd_port_min n = nrq_port_min q \<Longrightarrow> nd_port_max n = nrq_port_max q \<Longrightarrow>
      1 \<le> nd_port_min (normalizeNodePorts n) \<and> nd_port_min (normalizeNodePorts n) \<le> nd_port_max (normalizeNodePorts n) \<and>
      nd_port_max (normalizeNodePorts n) \<le> 65535"
  using assms by (auto simp: validate_node_request_def validateNodeInput_def validateNodeText_def validateNodePortRange_def
      normalizeNodePorts_def err_simps split: if_splits)

lemma typed_edit:
  assumes "typed_nodes d" and "validate_node_request ae q = None" and "UpdateNode now (edited_node q n0) d = Inr d'"
  shows "typed_nodes d'"
proof -
  let ?m = "normalizeNodePorts (edited_node q n0)"
  let ?f = "\<lambda>x. x\<lparr> nd_name := nd_name ?m, nd_labels := emptyMap (nd_labels ?m), nd_public_host := nd_public_host ?m,
     nd_port_min := nd_port_min ?m, nd_port_max := nd_port_max ?m, nd_updated_at := now \<rparr>"
  have d': "d' = update_node (live_node (nd_id (edited_node q n0))) ?f d"
    using assms(3) by (auto simp: UpdateNode_def Let_def split: if_splits)
  have "nd_name ?m \<noteq> []" using typed_requested(1) [OF assms(2)] by (simp add: edited_node_def)
  moreover have "1 \<le> nd_port_min ?m \<and> nd_port_min ?m \<le> nd_port_max ?m \<and> nd_port_max ?m \<le> 65535"
    by (rule typed_requested(2) [OF assms(2)]) (simp_all add: edited_node_def)
  ultimately show ?thesis unfolding d' by (intro typed_update [OF assms(1)]) (simp add: well_typed_node_def)
qed

lemma typed_create:
  assumes "typed_nodes d" and "validate_node_request ae q = None" and "UpsertNode va now nonce (created_node ae q) token d = Inr d'"
  shows "typed_nodes d'"
proof -
  let ?c = "created_node ae q"
  have "nd_name ?c \<noteq> []" using typed_requested(1) [OF assms(2)] by (simp add: created_node_def)
  moreover have "1 \<le> nd_port_min (normalizeNodePorts ?c) \<and> nd_port_min (normalizeNodePorts ?c) \<le> nd_port_max (normalizeNodePorts ?c) \<and>
      nd_port_max (normalizeNodePorts ?c) \<le> 65535"
    by (rule typed_requested(2) [OF assms(2)]) (simp_all add: created_node_def)
  moreover have "nd_status (normalizeNodePorts n) = nd_status n" "nd_update (normalizeNodePorts n) = nd_update n"
    "nd_version (normalizeNodePorts n) = nd_version n" "nd_update_error (normalizeNodePorts n) = nd_update_error n" for n
    by (simp_all add: normalizeNodePorts_def)
  moreover have "nd_status ?c = NodeOffline" "\<not> nd_revoked ?c" "nd_update ?c = UpdateIdle" "nd_version ?c = []" "nd_update_error ?c = []"
    by (simp_all add: created_node_def UpdateIdle_def)
  ultimately have "well_typed_node (normalizeNodePorts ?c)"
    by (simp add: well_typed_node_def)
  then show ?thesis
    using assms(1,3) by (auto simp: UpsertNode_def Let_def typed_nodes_def err_simps dest!: set_upsert)
qed

lemma typed_committed: "typed_nodes (ct_db (committed ae act t rd s)) = typed_nodes (snd rd)"
  by (cases rd) (simp add: committed_def publish_def typed_nodes_def)

lemma typed_step: "config_step va d r d' \<Longrightarrow> typed_nodes d \<Longrightarrow> typed_nodes d'"
  by (simp add: typed_nodes_def config_step_nodes)

lemma typed_bump [simp]: "typed_nodes (snd (bumped ae d)) = typed_nodes d"
  by (simp add: typed_nodes_def)

lemma typed_half_revoked: "half_revoked ae i s s' \<Longrightarrow> typed_nodes (ct_db s) \<Longrightarrow> typed_nodes (ct_db s')"
  by (auto simp: half_revoked_def close_node_def dest: typed_revoke)

lemma typed_committed_step: "config_step va (ct_db s) r d \<Longrightarrow> typed_nodes (ct_db s) \<Longrightarrow> typed_nodes (ct_db (committed ae act t (r, d) s))"
  by (simp add: typed_committed typed_step)

lemma typed_admin:
  assumes "typed_nodes (ct_db s)" and "prep_env_ok (ae_fresh ae)"
  shows "typed_nodes (ct_db (snd (handle_admin ae rq s)))"
proof (cases "fst (handle_admin ae rq s)")
  case False
  then have "handle_admin ae rq s = (False, snd (handle_admin ae rq s))" by (cases "handle_admin ae rq s") simp
  from admin_refused [OF this] assms(1) show ?thesis by (auto dest: typed_half_revoked)
next
  case True
  then obtain s' where h: "handle_admin ae rq s = (True, s')" by (cases "handle_admin ae rq s") simp
  have "typed_nodes (ct_db s')"
  proof (cases rq)
    case (CreateNode body)
    from h obtain q token d' where c: "validate_node_request ae q = None"
      "UpsertNode (ae_vault ae) (ae_now ae) (ae_nonce ae) (created_node ae q) token (ct_db s) = Inr d'"
      "s' = committed ae ''node.create'' (nd_id (created_node ae q)) (bumped ae d') s"
      by (auto simp: CreateNode handleCreateNode_def Let_def split: sum.splits option.splits)
    from typed_create [OF assms(1) c(1,2)] show ?thesis by (simp add: c(3) typed_committed)
  next
    case (EditNode i body)
    from h obtain q n d' where c: "validate_node_request ae q = None" "UpdateNode (ae_now ae) (edited_node q n) (ct_db s) = Inr d'"
      "s' = committed ae ''node.update'' (nd_id (edited_node q n)) (bumped ae d') s"
      by (auto simp: EditNode handleUpdateNode_def node_not_found_def Let_def split: sum.splits option.splits if_splits)
    from typed_edit [OF assms(1) c(1,2)] show ?thesis by (simp add: c(3) typed_committed)
  next
    case (DropNode body)
    have "typed_nodes (ct_db s1)" if r: "revoke (ae_control ae) i s = (e, s1)" for i e s1
    proof (cases "RevokeNode (ae_now ae) i (ct_db s)")
      case (Inl x)
      then show ?thesis using r assms(1) by (auto simp: revoke_def)
    next
      case (Inr d)
      from revoke_rows(1) [OF this] r typed_revoke [OF assms(1) Inr] show ?thesis by (simp add: typed_nodes_def)
    qed
    with assms(1) h DropNode show ?thesis
      by (auto simp: handleRevokeNode_def  typed_nodes_def split: sum.splits option.splits prod.splits)
  next
    case (PutTunnel i body)
    with h show ?thesis
      by (auto simp: handleUpsertTunnel_def  Let_def reads_of_allocs assms(2) intro!: typed_committed_step [OF _ assms(1)] config_step.save_tunnel
          split: sum.splits option.splits)
  next
    case (RemoveTunnel i force)
    with h show ?thesis
      by (auto simp: handleDeleteTunnel_def intro!: typed_committed_step [OF _ assms(1)] config_step.delete_tunnel split: sum.splits)
  next
    case (SwitchTunnel i b)
    with h show ?thesis
      by (auto simp: setTunnelEnabled_def intro!: typed_committed_step [OF _ assms(1)] config_step.enable_tunnel split: sum.splits)
  next
    case (PutForward i body)
    with h show ?thesis
      by (auto simp: handleUpsertForward_def  Let_def reads_of_allocs assms(2) intro!: typed_committed_step [OF _ assms(1)] config_step.save_forward
          split: sum.splits option.splits)
  next
    case (RemoveForward i)
    with h show ?thesis
      by (auto simp: handleDeleteForward_def intro!: typed_committed_step [OF _ assms(1)] config_step.delete_forward split: sum.splits)
  next
    case (SwitchForward i b)
    with h show ?thesis
      by (auto simp: setForwardEnabled_def intro!: typed_committed_step [OF _ assms(1)] config_step.enable_forward split: sum.splits)
  qed
  with h show ?thesis by simp
qed

lemma typed_request_all:
  "typed_nodes (ct_db s) \<Longrightarrow> typed_nodes (ct_db (snd (request_all ae v ns k s)))"
proof (induction ns arbitrary: k s)
  case (Cons n ns)
  then show ?case
    using typed_request [of "ct_db s" "ae_vault ae" "ae_now ae" "nd_id n" v]
    by (auto simp: set_db_def split: sum.splits prod.splits)
qed simp

text \<open>C14: the rows of the nodes stay well-typed: the status and the update status are among their constants, the
  status says \<open>revoked\<close> exactly when the flag does, the ports are a range within 1 to 65535, the name is not empty
  and version and update error are bounded.  What a node says of itself, on its connection or by
  heartbeat, and every request of the administration keeps it so.\<close>

theorem nodes_well_typed:
  assumes "typed_nodes (ct_db s)" and "prep_env_ok (ae_fresh ae)"
  shows "typed_nodes (ct_db (snd (greet env c i msg s))) \<and> typed_nodes (ct_db (snd (serve env i msg s))) \<and>
    typed_nodes (ct_db (snd (mark_offline env i s))) \<and>
    typed_nodes (snd (handleNodeHeartbeat nt now h n body (ct_db s))) \<and>
    typed_nodes (ct_db (snd (handle_admin ae rq s))) \<and>
    typed_nodes (ct_db (snd (handleUpdateNodeBinary ae i s))) \<and> typed_nodes (ct_db (snd (handleUpdateAllNodeBinaries ae s)))"
proof (intro conjI)
  have v: "length (cm_version msg) \<le> maxNodeVersionBytes" if "validateNodeHeartbeat nt' (cm_version msg) y = None" for nt' y
    using that by (simp add: validateNodeHeartbeat_def validateNodeVersion_def validateNodeText_def err_simps)
  show "typed_nodes (ct_db (snd (greet env c i msg s)))"
    using assms(1) by (auto simp: greet_def validateNodeHello_def err_simps intro!: typed_seen v split: sum.splits prod.split)
  show "typed_nodes (ct_db (snd (serve env i msg s)))"
    using assms(1) by (auto simp: serve_def take_report_def validateNodeControlMessage_def err_simps intro!: typed_report typed_seen v
        split: option.splits if_splits)
  show "typed_nodes (ct_db (snd (mark_offline env i s)))" using assms(1) by (simp add: mark_offline_def typed_offline)
  show "typed_nodes (snd (handleNodeHeartbeat nt now h n body (ct_db s)))"
    using assms(1) by (auto simp: handleNodeHeartbeat_def validateNodeHeartbeat_def validateNodeVersion_def validateNodeText_def err_simps
        intro!: typed_seen split: sum.splits option.splits)
  show "typed_nodes (ct_db (snd (handle_admin ae rq s)))" by (rule typed_admin [OF assms])
  have request: "typed_nodes (ct_db s1)" if "set_db (RequestNodeUpdate va t j v (ct_db s)) s = (r, s1)" for va t j v r s1
    using that typed_request [OF assms(1), of va t j v] by (auto simp: set_db_def)
  have log: "typed_nodes (ct_db (log_event ae act t s1)) = typed_nodes (ct_db s1)" for act t s1 by (rule typed_cong) simp
  show "typed_nodes (ct_db (snd (handleUpdateNodeBinary ae i s)))"
    using assms(1) by (auto simp: handleUpdateNodeBinary_def node_not_found_def Let_def log dest: request split: sum.split prod.split)
  have all: "typed_nodes (ct_db s1)" if "request_all ae v ns 0 s = (r, s1)" for v ns r s1
    using typed_request_all [OF assms(1), of ae v ns 0] that by simp
  show "typed_nodes (ct_db (snd (handleUpdateAllNodeBinaries ae s)))"
    using assms(1) by (auto simp: handleUpdateAllNodeBinaries_def Let_def log dest: all split: sum.split prod.split)
qed

section \<open>Witnesses\<close>

definition ex_keyed_db :: db where
  "ex_keyed_db = ex_node_db\<lparr> db_settings := [(signingKeySetting, EncodeKey (ex_seed @ ex_pub)), (signingPubSetting, EncodeKey ex_pub)] \<rparr>"

definition ex_admin_env :: admin_env where
  "ex_admin_env = \<lparr> ae_control = ex_control_env\<lparr> ce_sign := toy_sign, ce_json := (\<lambda>c. Some ''{}'') \<rparr>,
     ae_guard = \<lparr> gd_net = ex_control_net, gd_in_cidr = (\<lambda>c i. False), gd_sha256 = (\<lambda>t. t), gd_vault = ex_vault, gd_now = 20 \<rparr>,
     ae_web = \<lparr> wc_public_url = [], wc_trust_proxy = False, wc_proxies = [] \<rparr>, ae_actor = ''admin'', ae_detail = Some ''{}'',
     ae_text = (\<lambda>e. ''store''), ae_prepare_text = (\<lambda>e. ''prepare''), ae_invalid_text = (\<lambda>e. ''invalid''),
     ae_pem = Some, ae_update_key = [], ae_token = Some ''token'', ae_nonce = Some ex_nonce, ae_nonces = ex_nonces,
     ae_node_id = ''n2'', ae_fresh = ex_prep_env \<rparr>"

definition ex_ctl :: ctl where
  "ex_ctl = \<lparr> ct_db = ex_keyed_db, ct_hub = new_hub\<lparr> hb_sockets := [(''n1'', \<lparr> so_conn = 2, so_long_lease = False \<rparr>)] \<rparr>,
     ct_cooldown = 0, ct_sent = [], ct_closed = [] \<rparr>"

definition ex_node_request :: node_request where
  "ex_node_request = \<lparr> nrq_name = ''one'', nrq_labels = None, nrq_public_host = ''h'', nrq_port_min = 80, nrq_port_max = 89 \<rparr>"

lemma ex_edit_checks: "GetNode ex_vault ''n1'' ex_keyed_db = Inr ex_stored_node"
  "validate_node_request ex_admin_env ex_node_request = None"
proof -
  show "GetNode ex_vault ''n1'' ex_keyed_db = Inr ex_stored_node"
    using ex_node_live(1) by (simp add: GetNode_def GetNodeWithToken_def ex_keyed_db_def)
  show "validate_node_request ex_admin_env ex_node_request = None" by code_simp
qed

lemma ex_edited: "\<exists>n. UpdateNode 20 (edited_node ex_node_request ex_stored_node) ex_keyed_db =
    Inr (ex_keyed_db\<lparr> db_nodes := [\<lparr> ndr_node = n, ndr_token = [], ndr_encrypted = [] \<rparr>] \<rparr>)"
  by (simp add: UpdateNode_def ex_keyed_db_def ex_node_db_def affected_def ndr_id_def live_node_def edited_node_def ex_stored_node_def
      update_where_def Let_def) (rule exI, rule refl)

definition ex_edited_db :: "node \<Rightarrow> db" where
  "ex_edited_db n = ex_keyed_db\<lparr> db_nodes := [\<lparr> ndr_node = n, ndr_token = [], ndr_encrypted = [] \<rparr>] \<rparr>"

lemma ex_edit_runs:
  "\<exists>n. handle_admin ex_admin_env (EditNode ''n1'' (Inr ex_node_request)) ex_ctl =
     (True, committed ex_admin_env ''node.update'' ''n1'' (bumped ex_admin_env (ex_edited_db n)) ex_ctl)"
proof -
  obtain n where r: "UpdateNode 20 (edited_node ex_node_request ex_stored_node) ex_keyed_db = Inr (ex_edited_db n)"
    using ex_edited by (auto simp: ex_edited_db_def)
  have e: "ce_vault (ae_control ex_admin_env) = ex_vault" "ce_now (ae_control ex_admin_env) = 20" "ct_db ex_ctl = ex_keyed_db"
    by (simp_all add: ex_admin_env_def ex_control_env_def ex_ctl_def)
  have "nd_id (edited_node ex_node_request ex_stored_node) = ''n1''" "\<not> nd_revoked ex_stored_node"
    by (simp_all add: edited_node_def ex_stored_node_def)
  with r ex_edit_checks show ?thesis by (intro exI [of _ n]) (simp add: handleUpdateNode_def e Let_def)
qed

lemma ex_edited_compiles:
  assumes "bumpRevisionTx (ex_edited_db n) = (r, d)" and "db_source ex_vault (ct_db s) = db_source ex_vault d"
  shows "\<exists>sc. compile_for (ae_control ex_admin_env) i lease s = Inr sc"
proof -
  have d: "d = put_setting ''config_revision'' (itoa r) (ex_edited_db n)"
    using assms(1) by (auto simp: bumpRevisionTx_def Let_def)
  have plain: "\<not> prefix secretCipherPrefix (EncodeKey (ex_seed @ ex_pub))" using ex_pair_fits by (simp add: secret_fits_def)
  have key: "GetSetting ex_vault signingKeySetting d = Inr (EncodeKey (ex_seed @ ex_pub), True)"
    using plain by (simp add: GetSetting_def d put_setting_def ex_edited_db_def ex_keyed_db_def decryptSettingValue_def
        decryptSecretValue_def signingKeySetting_def map_simps)
  have pub: "GetSetting ex_vault signingPubSetting d = Inr (EncodeKey ex_pub, True)"
    by (simp add: GetSetting_def d put_setting_def ex_edited_db_def ex_keyed_db_def signingPubSetting_def signingKeySetting_def
        decryptSettingValue_def map_simps)
  have rows: "ListNodes ex_vault d = Inr [n]" "ListTunnels ex_vault d = Inr []" "ListForwards d = []" if "\<not> nd_revoked n"
    using that by (simp_all add: ListNodes_def ListTunnels_def ListForwards_def d put_setting_def ex_edited_db_def ex_keyed_db_def
        ex_node_db_def empty_db_def order_desc_def scanNode_def resolveNodeToken_def)
  have rows': "ListNodes ex_vault d = Inr []" "ListTunnels ex_vault d = Inr []" "ListForwards d = []" if "nd_revoked n"
    using that by (simp_all add: ListNodes_def ListTunnels_def ListForwards_def d put_setting_def ex_edited_db_def ex_keyed_db_def
        ex_node_db_def empty_db_def order_desc_def)
  have e: "ce_vault (ae_control ex_admin_env) = ex_vault" "ce_sign (ae_control ex_admin_env) = toy_sign"
    "ce_json (ae_control ex_admin_env) = (\<lambda>c. Some ''{}'')" by (simp_all add: ex_admin_env_def ex_control_env_def)
  have "length (ex_seed @ ex_pub) = 64" by (simp add: ex_seed_def ex_pub_def)
  from Decode_EncodeKey(2) [OF this] rows rows' show ?thesis
    unfolding compile_for_def e assms(2)
    by (cases "nd_revoked n")
      (simp_all add: compileConfigWithLease_def db_source_def readE_def signE_def SignJSON_def marshalE_def setting_value_def key pub Let_def)
qed

theorem change_delivered_witness:
  "\<exists>s' sc. handle_admin ex_admin_env (EditNode ''n1'' (Inr ex_node_request)) ex_ctl = (True, s') \<and>
     hb_revision (ct_hub s') = 1 \<and> rc_revision (sc_config sc) = 1 \<and> (2, config_message sc) \<in> set (ct_sent s')"
proof -
  obtain n where n: "handle_admin ex_admin_env (EditNode ''n1'' (Inr ex_node_request)) ex_ctl =
      (True, committed ex_admin_env ''node.update'' ''n1'' (bumped ex_admin_env (ex_edited_db n)) ex_ctl)"
    using ex_edit_runs by blast
  have fine: "ce_bump (ae_control ex_admin_env) = None" by (simp add: ex_admin_env_def ex_control_env_def)
  obtain r d where b: "bumpRevisionTx (ex_edited_db n) = (r, d)" by fastforce
  let ?s' = "committed ex_admin_env ''node.update'' ''n1'' (bumped ex_admin_env (ex_edited_db n)) ex_ctl"
  have "db_source ex_vault (ct_db ?s') = db_source ex_vault d" by (simp add: b bumped_stored [OF fine] committed_def publish_def)
  from ex_edited_compiles [OF b this] obtain sc where
    sc: "compile_for (ae_control ex_admin_env) ''n1'' (configLeaseForNode (ct_hub ex_ctl) ''n1'') ?s' = Inr sc" by blast
  have rev: "stored_revision (ct_db ex_ctl) = 0"
    by (simp add: stored_revision_def ex_ctl_def ex_keyed_db_def signingKeySetting_def signingPubSetting_def)
  have inv: "config_inv (ct_db ex_ctl)"
    using config_inv_cong [of "ct_db ex_ctl" empty_db] config_inv_empty by (simp add: ex_ctl_def ex_keyed_db_def ex_node_db_def)
  have so: "map_of (hb_sockets (ct_hub ex_ctl)) ''n1'' = Some \<lparr> so_conn = 2, so_long_lease = False \<rparr>" "ct_sent ex_ctl = []"
    "ce_write (ae_control ex_admin_env) 2" by (simp_all add: ex_ctl_def ex_admin_env_def ex_control_env_def)
  have "prep_env_ok (ae_fresh ex_admin_env)" by (simp add: ex_admin_env_def prep_env_ok_def ex_prep_env_def)
  from change_delivered [OF n _ inv this] fine obtain sent where c: "stored_revision (ct_db ?s') = 1" "hb_revision (ct_hub ?s') = 1"
    "ct_sent ?s' = sent" and d: "\<forall>i so sc. map_of (hb_sockets (ct_hub ex_ctl)) i = Some so \<longrightarrow> ce_write (ae_control ex_admin_env) (so_conn so) \<longrightarrow>
       compile_for (ae_control ex_admin_env) i (configLeaseForNode (ct_hub ex_ctl) i) ?s' = Inr sc \<longrightarrow>
       rc_revision (sc_config sc) = stored_revision (ct_db ?s') \<and> (so_conn so, config_message sc) \<in> set sent"
    using rev so(2) by auto
  from d [rule_format, OF so(1) _ sc] so(3) c n show ?thesis by (intro exI [of _ ?s'] exI [of _ sc]) simp
qed




theorem nodes_well_typed_witness:
  "\<exists>s. typed_nodes (ct_db s) \<and> typed_nodes (ct_db (snd (handle_admin ex_admin_env (EditNode ''n1'' (Inr ex_node_request)) s))) \<and>
     typed_nodes (ct_db (snd (greet ex_control_env 3 ''n1'' ex_hello s)))"
proof -
  let ?s = "ex_ctl\<lparr> ct_db := ex_edited_db (ex_stored_node\<lparr> nd_port_min := 80, nd_port_max := 89 \<rparr>) \<rparr>"
  have t: "typed_nodes (ct_db ?s)"
    by (simp add: typed_nodes_def ex_edited_db_def well_typed_node_def ex_stored_node_def enum_defs)
  moreover have "prep_env_ok (ae_fresh ex_admin_env)" by (simp add: ex_admin_env_def prep_env_ok_def ex_prep_env_def)
  note n = nodes_well_typed [OF t this]
  have "typed_nodes (ct_db (snd (handle_admin ex_admin_env (EditNode ''n1'' (Inr ex_node_request)) ?s)))"
    by (rule n [THEN conjunct2, THEN conjunct2, THEN conjunct2, THEN conjunct2, THEN conjunct1])
  moreover have "typed_nodes (ct_db (snd (greet ex_control_env 3 ''n1'' ex_hello ?s)))" by (rule n [THEN conjunct1])
  ultimately show ?thesis using t by (intro exI [of _ ?s] conjI)
qed

end
