(* ===== verification/Updates.thy ===== *)
theory Updates
  imports Release
begin

text \<open>
  The node's side of an update: internal/node/update.go, with the controller URLs of client.go and the settings of
  config.go.  A command from the control connection (handleUpdateCommand) leaves a request and a status
  file; the update service, a separate process with more rights, takes the request (runUpdate), asks the
  controller for its release and the binary (performUpdate), and replaces its own program.

  The network, gzip, JSON, SHA-256, Ed25519 and the operating system are arguments, collected in \<open>updater\<close>.
  Errors are their texts, without the values that \<open>%q\<close>, a status line or the standard library add to them.
\<close>

section \<open>Configuration\<close>

record node_config =
  nc_controller :: string
  nc_node_id :: string
  nc_token :: string
  nc_signing_key :: string
  nc_data_dir :: string
  nc_cache :: string
  nc_request :: string
  nc_status :: string
  nc_log_level :: string
  nc_poll :: duration
  nc_metrics_every :: duration

definition env_or :: "(string \<Rightarrow> string) \<Rightarrow> string \<Rightarrow> string \<Rightarrow> string" where
  "env_or getenv key fallback = (let value = getenv key in if value \<noteq> [] then value else fallback)"

text \<open>\<open>flags\<close> are the options given on the command line; \<open>clean\<close> and \<open>join\<close> are those of path/filepath.\<close>

definition parseConfig ::
  "(string \<Rightarrow> string) \<Rightarrow> (string \<Rightarrow> string) \<Rightarrow> (string list \<Rightarrow> string) \<Rightarrow> (string \<times> string) list \<Rightarrow> node_config" where
  "parseConfig getenv clean join flags =
    (let opt = (\<lambda>name value. case map_of flags name of Some v \<Rightarrow> v | None \<Rightarrow> value);
         data = clean (opt ''data'' (env_or getenv ''NYARELAY_DATA'' ''./node-data''))
     in \<lparr> nc_controller = opt ''controller'' (env_or getenv ''NYARELAY_CONTROLLER'' ''http://127.0.0.1:8080''),
          nc_node_id = opt ''id'' (env_or getenv ''NYARELAY_NODE_ID'' ''''),
          nc_token = opt ''token'' (env_or getenv ''NYARELAY_NODE_TOKEN'' ''''),
          nc_signing_key = opt ''signing-key'' (env_or getenv ''NYARELAY_SIGNING_KEY'' ''''),
          nc_data_dir = data,
          nc_cache = join [data, ''last-config.json''],
          nc_request = join [data, ''update'', ''request.json''],
          nc_status = join [data, ''update'', ''status.json''],
          nc_log_level = opt ''log-level'' (env_or getenv ''NYARELAY_LOG_LEVEL'' ''info''),
          nc_poll = 25 * second, nc_metrics_every = 15 * second \<rparr>)"

record update_options =
  uo_request :: string
  uo_status :: string
  uo_binary :: string
  uo_skip_restart :: bool

definition parseUpdateOptions :: "(string \<times> string) list \<Rightarrow> bool \<Rightarrow> node_config \<Rightarrow> update_options" where
  "parseUpdateOptions flags skip cfg =
    (let opt = (\<lambda>name value. case map_of flags name of Some v \<Rightarrow> v | None \<Rightarrow> value)
     in \<lparr> uo_request = opt ''request'' (nc_request cfg), uo_status = opt ''status'' (nc_status cfg),
          uo_binary = opt ''binary'' ''/usr/local/bin/nyarelay-node'', uo_skip_restart = skip \<rparr>)"

section \<open>The controller's address\<close>

definition isLoopbackHost :: "net_env \<Rightarrow> string \<Rightarrow> bool" where
  "isLoopbackHost nt host \<longleftrightarrow> equal_fold host ''localhost'' \<or> nt_loopback nt host"

definition validateControllerURL :: "net_env \<Rightarrow> string \<Rightarrow> string + url" where
  "validateControllerURL nt raw =
    (case nt_parse_url nt (trim_space raw) of
       None \<Rightarrow> Inl ''invalid URL''
     | Some u \<Rightarrow>
         if url_scheme u \<noteq> ''http'' \<and> url_scheme u \<noteq> ''https'' then Inl ''unsupported controller scheme''
         else if url_host u = [] \<or> url_hostname u = [] \<or> url_user u \<or> url_query u \<noteq> [] \<or> url_fragment u \<noteq> [] then
           Inl ''invalid controller URL''
         else if url_path u \<noteq> [] \<and> url_path u \<noteq> ''/'' then Inl ''controller URL must not include a path''
         else if url_scheme u = ''http'' \<and> \<not> isLoopbackHost nt (url_hostname u) then
           Inl ''unencrypted controller HTTP is only allowed on loopback''
         else Inr (u\<lparr> url_path := [], url_raw_path := [] \<rparr>))"

text \<open>IsAbs is that there is a scheme.\<close>

definition controllerURLWithPath :: "net_env \<Rightarrow> string \<Rightarrow> string \<Rightarrow> string + string" where
  "controllerURLWithPath nt raw path =
    bindE (validateControllerURL nt raw) (\<lambda>base.
      case nt_parse_url nt path of
        None \<Rightarrow> Inl ''invalid controller request path''
      | Some p \<Rightarrow>
          if url_scheme p \<noteq> [] \<or> url_host p \<noteq> [] then Inl ''invalid controller request path''
          else Inr (nt_url_string nt
            (base\<lparr> url_path := url_path p, url_raw_path := url_raw_path p, url_query := url_query p \<rparr>)))"

definition sameControllerURL :: "net_env \<Rightarrow> string \<Rightarrow> string \<Rightarrow> bool" where
  "sameControllerURL nt left right =
    (case (validateControllerURL nt left, validateControllerURL nt right) of
       (Inr l, Inr r) \<Rightarrow> nt_url_string nt l = nt_url_string nt r
     | _ \<Rightarrow> False)"

definition controllerLogTarget :: "net_env \<Rightarrow> string \<Rightarrow> string" where
  "controllerLogTarget nt raw =
    (case validateControllerURL nt raw of Inl _ \<Rightarrow> ''invalid'' | Inr u \<Rightarrow> url_scheme u @ ''://'' @ url_host u)"

text \<open>The address of the control connection.\<close>

definition websocket_url :: "net_env \<Rightarrow> string \<Rightarrow> string + string" where
  "websocket_url nt base_url =
    bindE (validateControllerURL nt base_url) (\<lambda>u.
      if url_scheme u = ''http'' \<or> url_scheme u = ''https'' then
        Inr (nt_url_string nt (u\<lparr> url_scheme := (if url_scheme u = ''http'' then ''ws'' else ''wss''),
          url_path := ''/api/node/ws'', url_query := [], url_fragment := [] \<rparr>))
      else Inl ''unsupported controller scheme'')"

section \<open>The environment of an update\<close>

record outgoing =
  og_url :: string
  og_node_id :: string
  og_token :: string

record incoming =
  ic_status :: nat
  ic_length :: int
  ic_body :: string

text \<open>A gzip stream: the error of its header, or the bytes it holds and the error that ends them.\<close>

record updater =
  up_goos :: string
  up_goarch :: string
  up_version :: string
  up_trusted :: string
  up_net :: net_env
  up_new_request :: "string \<Rightarrow> string option"
  up_http :: "outgoing \<Rightarrow> string + incoming"
  up_parse_release :: "string \<Rightarrow> string + signed_release"
  up_gunzip :: "string \<Rightarrow> string + (string \<times> string option)"
  up_sha256 :: "string \<Rightarrow> string"
  up_verify :: ed_verify
  up_json :: "release_manifest \<Rightarrow> string option"
  up_sign_text :: "sign_error \<Rightarrow> string"
  up_unreadable :: "string \<Rightarrow> string option"
  up_requests :: "update_request codec"
  up_reports :: "update_report codec"
  up_mkdir :: "string option"
  up_write_status :: "string \<Rightarrow> write_env"
  up_write_request :: write_env
  up_write_binary :: write_env
  up_now :: time

definition maxNodeBinaryBytes :: nat where "maxNodeBinaryBytes = 128 * 2 ^ 20"
definition maxUpdateVersionBytes :: nat where "maxUpdateVersionBytes = 128"
definition maxUpdateURLBytes :: nat where "maxUpdateURLBytes = 2048"
definition maxControllerJSONBytes :: nat where "maxControllerJSONBytes = 4 * 2 ^ 20"

definition save_status :: "updater \<Rightarrow> string \<Rightarrow> update_status \<Rightarrow> string \<Rightarrow> string \<Rightarrow> files \<Rightarrow> string option \<times> files" where
  "save_status up path status version err =
     saveUpdateStatus (up_reports up) (up_now up) (up_mkdir up) (up_write_status up status) path
       \<lparr> rpt_status = status, rpt_version = version, rpt_error = err, rpt_completed_at = zero_time \<rparr>"

section \<open>The command\<close>

definition findUpdateArtifact :: "release_manifest \<Rightarrow> string \<Rightarrow> string \<Rightarrow> release_artifact option" where
  "findUpdateArtifact m targetOS targetArch =
     List.find (\<lambda>a. art_os a = targetOS \<and> art_arch a = targetArch) (man_artifacts m)"

definition handleUpdateCommand :: "updater \<Rightarrow> node_config \<Rightarrow> update_command \<Rightarrow> files \<Rightarrow> string option \<times> files" where
  "handleUpdateCommand up cfg cmd fs =
    (if trim_space (up_trusted up) = [] then (Some ''update public key is not configured'', fs)
     else if trim_space (cmd_version cmd) = [] \<or> man_version (cmd_manifest cmd) \<noteq> cmd_version cmd then
       (Some ''update command version does not match its signed manifest'', fs)
     else if cmd_key_id cmd \<noteq> up_trusted up then (Some ''update signing key does not match trusted key'', fs)
     else case VerifyJSON (up_verify up) (up_json up) (up_trusted up) (cmd_manifest cmd) (cmd_signature cmd) of
       Some e \<Rightarrow> (Some (''verify update manifest: '' @ up_sign_text up e), fs)
     | None \<Rightarrow>
       (case findUpdateArtifact (cmd_manifest cmd) (up_goos up) (up_goarch up) of
          None \<Rightarrow> (Some (''no update artifact for '' @ up_goos up @ ''/'' @ up_goarch up), fs)
        | Some art \<Rightarrow>
            if \<not> NeedsUpdate (up_version up) (cmd_version cmd) then (None, fs)
            else case save_status up (nc_status cfg) UpdateRequested (cmd_version cmd) [] fs of
              (Some e, fs1) \<Rightarrow> (Some e, fs1)
            | (None, fs1) \<Rightarrow>
                writeUpdateRequest (up_requests up) (up_mkdir up) (up_write_request up) (nc_request cfg)
                  \<lparr> urq_controller = nc_controller cfg, urq_node_id = nc_node_id cfg, urq_token = nc_token cfg,
                    urq_version = cmd_version cmd, urq_os = up_goos up, urq_arch = up_goarch up,
                    urq_sha256 = art_sha256 art, urq_requested_at = up_now up \<rparr> fs1))"

section \<open>The update\<close>

definition validateUpdateRequest :: "updater \<Rightarrow> node_config \<Rightarrow> update_request \<Rightarrow> string option" where
  "validateUpdateRequest up cfg req = first_err [
     fail_if (trim_space (urq_version req) = [] \<or> length (urq_version req) > maxUpdateVersionBytes)
       ''update target version is invalid'',
     fail_if (\<not> NeedsUpdate (up_version up) (urq_version req))
       ''update target version is not newer than the installed version'',
     fail_if (length (urq_controller req) > maxUpdateURLBytes \<or>
         \<not> sameControllerURL (up_net up) (urq_controller req) (nc_controller cfg))
       ''update controller does not match node configuration'',
     fail_if (urq_node_id req = [] \<or> urq_node_id req \<noteq> nc_node_id cfg)
       ''update node id does not match node configuration'',
     fail_if (urq_token req = [] \<or> urq_token req \<noteq> nc_token cfg)
       ''update node token does not match node configuration'',
     fail_if (urq_os req \<noteq> up_goos up \<or> urq_arch req \<noteq> up_goarch up)
       (''update target platform '' @ urq_os req @ ''/'' @ urq_arch req @ '' does not match local platform '' @
          up_goos up @ ''/'' @ up_goarch up),
     fail_if (length (urq_sha256 req) \<noteq> 64) ''update artifact digest is invalid'',
     fail_if (\<not> hex_decodable (urq_sha256 req)) ''update artifact digest is invalid'']"

definition newUpdateRequest :: "updater \<Rightarrow> update_request \<Rightarrow> string \<Rightarrow> string + outgoing" where
  "newUpdateRequest up req path =
    bindE (controllerURLWithPath (up_net up) (urq_controller req) path) (\<lambda>u.
      case up_new_request up u of
        Some e \<Rightarrow> Inl e
      | None \<Rightarrow> Inr \<lparr> og_url = u, og_node_id = urq_node_id req, og_token = urq_token req \<rparr>)"

definition fetchNodeRelease :: "updater \<Rightarrow> update_request \<Rightarrow> string + signed_release" where
  "fetchNodeRelease up req =
    bindE (newUpdateRequest up req ''/downloads/nyarelay-node/manifest'') (\<lambda>og.
    bindE (up_http up og) (\<lambda>resp.
      if ic_status resp \<ge> 300 then Inl ''controller request failed''
      else up_parse_release up (take maxControllerJSONBytes (ic_body resp))))"

definition downloadUpdateBinary :: "updater \<Rightarrow> update_request \<Rightarrow> string + string" where
  "downloadUpdateBinary up req =
    bindE (newUpdateRequest up req (''/downloads/nyarelay-node?os='' @ query_escape (urq_os req) @ ''&arch='' @
        query_escape (urq_arch req) @ ''&compress=gzip'')) (\<lambda>og.
    bindE (up_http up og) (\<lambda>resp.
      if ic_status resp \<ge> 300 then Inl ''download node binary failed''
      else if ic_length resp > int maxNodeBinaryBytes then Inl ''compressed node binary is too large''
      else bindE (up_gunzip up (ic_body resp)) (\<lambda>(bytes, e).
        bindE (read_limited (maxNodeBinaryBytes + 1) \<lparr> op_stat = Inr (False, 0), op_data = bytes, op_error = e \<rparr>) (\<lambda>payload.
          if length payload > maxNodeBinaryBytes then Inl ''downloaded node binary is too large'' else Inr payload))))"

text \<open>The checks of performUpdate up to the download, and those of what was downloaded.\<close>

definition check_release :: "updater \<Rightarrow> update_request \<Rightarrow> signed_release \<Rightarrow> string + release_artifact" where
  "check_release up req release =
    (if \<not> srl_enabled release then Inl (''node update disabled: '' @ srl_reason release)
     else if srl_key_id release \<noteq> up_trusted up then Inl ''release signing key does not match trusted key''
     else if man_version (srl_manifest release) \<noteq> urq_version req then
       Inl (''release version '' @ man_version (srl_manifest release) @ '' does not match requested '' @ urq_version req)
     else case VerifyJSON (up_verify up) (up_json up) (up_trusted up) (srl_manifest release) (srl_signature release) of
       Some e \<Rightarrow> Inl (''verify release manifest: '' @ up_sign_text up e)
     | None \<Rightarrow>
       (case findUpdateArtifact (srl_manifest release) (urq_os req) (urq_arch req) of
          None \<Rightarrow> Inl (''no artifact for '' @ urq_os req @ ''/'' @ urq_arch req)
        | Some art \<Rightarrow>
            if urq_sha256 req \<noteq> [] \<and> \<not> equal_fold (urq_sha256 req) (art_sha256 art) then
              Inl ''requested artifact digest does not match release manifest''
            else if art_size art \<le> 0 \<or> art_size art > int maxNodeBinaryBytes then
              Inl ''node release artifact size is invalid''
            else Inr art))"

definition check_payload :: "updater \<Rightarrow> release_artifact \<Rightarrow> string \<Rightarrow> string option" where
  "check_payload up art payload = first_err [
     fail_if (\<not> equal_fold (hex_encode (up_sha256 up payload)) (art_sha256 art)) ''downloaded node binary sha256 mismatch'',
     fail_if (int (length payload) \<noteq> art_size art) ''downloaded node binary size does not match manifest size'']"

definition performUpdate :: "updater \<Rightarrow> update_request \<Rightarrow> string \<Rightarrow> files \<Rightarrow> string option \<times> files" where
  "performUpdate up req binary fs =
    (case bindE (fetchNodeRelease up req) (check_release up req) of
       Inl e \<Rightarrow> (Some e, fs)
     | Inr art \<Rightarrow>
       (case downloadUpdateBinary up req of
          Inl e \<Rightarrow> (Some e, fs)
        | Inr payload \<Rightarrow>
            (case check_payload up art payload of
               Some e \<Rightarrow> (Some e, fs)
             | None \<Rightarrow> replaceBinary (up_write_binary up) binary payload fs)))"

definition default_request :: "updater \<Rightarrow> node_config \<Rightarrow> update_request \<Rightarrow> update_request" where
  "default_request up cfg req =
    (let or = (\<lambda>v d. if v = [] then d else v)
     in req\<lparr> urq_controller := or (urq_controller req) (nc_controller cfg),
             urq_node_id := or (urq_node_id req) (nc_node_id cfg),
             urq_token := or (urq_token req) (nc_token cfg),
             urq_os := or (urq_os req) (up_goos up), urq_arch := or (urq_arch req) (up_goarch up) \<rparr>)"

text \<open>The middle of runUpdate, from the first status on.\<close>

definition update_steps :: "updater \<Rightarrow> update_request \<Rightarrow> string \<Rightarrow> string \<Rightarrow> files \<Rightarrow> string option \<times> files" where
  "update_steps up req status binary fs =
    (case save_status up status UpdateRunning (urq_version req) [] fs of
       (Some e, fs1) \<Rightarrow> (Some e, fs1)
     | (None, fs1) \<Rightarrow>
       (case performUpdate up req binary fs1 of
          (Some e, fs2) \<Rightarrow> (Some e, snd (save_status up status UpdateFailed (urq_version req) e fs2))
        | (None, fs2) \<Rightarrow> save_status up status UpdateSucceeded (urq_version req) [] fs2))"

text \<open>Once the request could be read it is removed, whatever comes of it.\<close>

definition runUpdate ::
  "updater \<Rightarrow> node_config \<Rightarrow> string \<Rightarrow> string \<Rightarrow> string \<Rightarrow> files \<Rightarrow> string option \<times> files" where
  "runUpdate up cfg request status binary fs =
    (case loadUpdateRequest (up_requests up) (up_unreadable up) request fs of
       Inl e \<Rightarrow> (Some e, fs)
     | Inr raw \<Rightarrow>
       (let req = default_request up cfg raw;
            (e, fs') = (case validateUpdateRequest up cfg req of Some e \<Rightarrow> (Some e, fs)
              | None \<Rightarrow> update_steps up req status binary fs)
        in (e, AList.delete request fs')))"

section \<open>What an update installs\<close>

text \<open>A program the trusted key vouches for: the payload an artifact of a verified manifest describes, for this
  platform and of a version the node is to move to.\<close>

definition vouched :: "updater \<Rightarrow> string \<Rightarrow> string \<Rightarrow> bool" where
  "vouched up version payload \<longleftrightarrow> NeedsUpdate (up_version up) version \<and>
     (\<exists>m sig art. VerifyJSON (up_verify up) (up_json up) (up_trusted up) m sig = None \<and>
        man_version m = version \<and> art \<in> set (man_artifacts m) \<and>
        art_os art = up_goos up \<and> art_arch art = up_goarch up \<and>
        equal_fold (hex_encode (up_sha256 up payload)) (art_sha256 art) \<and>
        int (length payload) = art_size art \<and> 0 < art_size art \<and> art_size art \<le> int maxNodeBinaryBytes)"

lemma findUpdateArtifact_Some:
  "findUpdateArtifact m os arch = Some art \<Longrightarrow>
     art \<in> set (man_artifacts m) \<and> art_os art = os \<and> art_arch art = arch"
  by (auto simp: findUpdateArtifact_def find_Some_iff)

lemma check_release_sound:
  assumes "check_release up req release = Inr art"
  shows "VerifyJSON (up_verify up) (up_json up) (up_trusted up) (srl_manifest release) (srl_signature release) = None \<and>
    man_version (srl_manifest release) = urq_version req \<and> art \<in> set (man_artifacts (srl_manifest release)) \<and>
    art_os art = urq_os req \<and> art_arch art = urq_arch req \<and> 0 < art_size art \<and>
    art_size art \<le> int maxNodeBinaryBytes"
  using assms
  by (auto simp: check_release_def dest: findUpdateArtifact_Some split: if_splits option.splits)

lemma check_payload_sound:
  "check_payload up art payload = None \<longleftrightarrow>
     equal_fold (hex_encode (up_sha256 up payload)) (art_sha256 art) \<and> int (length payload) = art_size art"
  by (simp add: check_payload_def err_simps)

lemma validateUpdateRequest_None:
  "validateUpdateRequest up cfg req = None \<longleftrightarrow>
     trim_space (urq_version req) \<noteq> [] \<and> length (urq_version req) \<le> maxUpdateVersionBytes \<and>
     NeedsUpdate (up_version up) (urq_version req) \<and> length (urq_controller req) \<le> maxUpdateURLBytes \<and>
     sameControllerURL (up_net up) (urq_controller req) (nc_controller cfg) \<and>
     urq_node_id req \<noteq> [] \<and> urq_node_id req = nc_node_id cfg \<and> urq_token req \<noteq> [] \<and> urq_token req = nc_token cfg \<and>
     urq_os req = up_goos up \<and> urq_arch req = up_goarch up \<and>
     length (urq_sha256 req) = 64 \<and> hex_decodable (urq_sha256 req)"
  by (auto simp: validateUpdateRequest_def err_simps)

text \<open>The program is now the one that was downloaded for the request, which is vouched for in the version the
  request asks for.\<close>

definition replaced_by :: "updater \<Rightarrow> update_request \<Rightarrow> string \<Rightarrow> files \<Rightarrow> bool" where
  "replaced_by up req binary fs \<longleftrightarrow> (\<exists>payload. downloadUpdateBinary up req = Inr payload \<and>
     vouched up (urq_version req) payload \<and>
     map_of fs binary = Some \<lparr> fl_mode = executable_mode, fl_data = payload \<rparr>)"

lemma replaced_by_same:
  "map_of fs' binary = map_of fs binary \<Longrightarrow> replaced_by up req binary fs' \<longleftrightarrow> replaced_by up req binary fs"
  by (simp add: replaced_by_def)

text \<open>performUpdate writes at most the binary, and only a program that is vouched for.\<close>

lemma performUpdate_binary:
  assumes v: "validateUpdateRequest up cfg req = None"
    and fresh: "fresh_temp (up_write_binary up) binary fs" and os: "we_goos (up_write_binary up) \<noteq> ''windows''"
    and run: "performUpdate up req binary fs = (e, fs')"
  shows "e \<noteq> None \<and> map_of fs' = map_of fs \<or>
    e = None \<and> replaced_by up req binary fs' \<and> (\<forall>q. q \<noteq> binary \<longrightarrow> map_of fs' q = map_of fs q)"
proof (cases "bindE (fetchNodeRelease up req) (check_release up req)")
  case (Inr art)
  then obtain release where rel: "check_release up req release = Inr art"
    by (auto simp: bindE_eq_Inr)
  show ?thesis
  proof (cases "downloadUpdateBinary up req")
    case dl: (Inr payload)
    show ?thesis
    proof (cases "check_payload up art payload")
      case None
      have good: "vouched up (urq_version req) payload"
        using check_release_sound [OF rel] None v
        by (auto simp: vouched_def check_payload_sound validateUpdateRequest_None)
      show ?thesis
        using run Inr dl None good binary_write.written [OF fresh] binary_write.not_written [OF fresh os]
        by (cases e) (auto simp: performUpdate_def replaced_by_def)
    qed (use run Inr dl in \<open>auto simp: performUpdate_def\<close>)
  qed (use run Inr in \<open>auto simp: performUpdate_def\<close>)
qed (use run in \<open>auto simp: performUpdate_def\<close>)

text \<open>The temporary files are new and none of them is one of the files the update is about.\<close>

definition update_places :: "updater \<Rightarrow> string list \<Rightarrow> bool" where
  "update_places up paths \<longleftrightarrow> distinct paths \<and>
     (\<forall>we\<in>{up_write_binary up, up_write_request up} \<union> range (up_write_status up).
        we_goos we \<noteq> ''windows'' \<and> (\<forall>tmp. we_temp we = Inr tmp \<longrightarrow> tmp \<notin> set paths))"

definition new_temps :: "updater \<Rightarrow> files \<Rightarrow> bool" where
  "new_temps up fs \<longleftrightarrow> (\<forall>we\<in>{up_write_binary up, up_write_request up} \<union> range (up_write_status up).
     case we_temp we of Inl _ \<Rightarrow> True | Inr tmp \<Rightarrow> map_of fs tmp = None)"

lemma update_places_fresh:
  assumes "update_places up paths" and "new_temps up fs" and "p \<in> set paths"
  shows "fresh_temp (up_write_binary up) p fs" "fresh_temp (up_write_status up st) p fs"
    "fresh_temp (up_write_request up) p fs" "we_goos (up_write_binary up) \<noteq> ''windows''"
    "we_goos (up_write_status up st) \<noteq> ''windows''"
  using assms by (auto simp: update_places_def new_temps_def fresh_temp_def map_of_eq_None_iff split: sum.splits)

lemma new_temps_kept:
  assumes "update_places up paths" and "new_temps up fs"
    and "\<And>q. q \<notin> set paths \<Longrightarrow> map_of fs' q = map_of fs q"
  shows "new_temps up fs'"
  using assms unfolding new_temps_def update_places_def by (auto split: sum.splits)

lemma save_status_elsewhere:
  assumes "update_places up paths" and "new_temps up fs" and "status \<in> set paths" and "q \<noteq> status"
  shows "map_of (snd (save_status up status st v er fs)) q = map_of fs q"
  unfolding save_status_def by (rule status_elsewhere [OF update_places_fresh(2) [OF assms(1-3)] assms(4)])

lemma save_status_temps:
  assumes "update_places up paths" and "new_temps up fs" and "status \<in> set paths"
  shows "new_temps up (snd (save_status up status st v er fs))"
proof (rule new_temps_kept [OF assms(1,2)])
  fix q
  assume "q \<notin> set paths"
  then have "q \<noteq> status" using assms(3) by blast
  then show "map_of (snd (save_status up status st v er fs)) q = map_of fs q"
    by (rule save_status_elsewhere [OF assms])
qed

lemma default_request_version [simp]: "urq_version (default_request up cfg raw) = urq_version raw"
  by (simp add: default_request_def Let_def)

text \<open>The binary and the status after these steps.\<close>

lemma update_steps_binary:
  assumes pl: "update_places up paths" and nt: "new_temps up fs" and "status \<in> set paths" "binary \<in> set paths"
    and ne: "status \<noteq> binary" and v: "validateUpdateRequest up cfg req = None"
    and run: "update_steps up req status binary fs = (e, fs')"
  shows "map_of fs' binary = map_of fs binary \<or> replaced_by up req binary fs'"
    and "e = None \<Longrightarrow> replaced_by up req binary fs'"
proof -
  define fs1 where "fs1 = snd (save_status up status UpdateRunning (urq_version req) [] fs)"
  have nt1: "new_temps up fs1"
    unfolding fs1_def by (rule save_status_temps [OF pl nt assms(3)])
  have b1: "map_of fs1 binary = map_of fs binary"
    unfolding fs1_def by (rule save_status_elsewhere [OF pl nt assms(3)]) (use ne in simp)
  obtain e2 fs2 where p: "performUpdate up req binary fs1 = (e2, fs2)" by fastforce
  note pb = performUpdate_binary [OF v update_places_fresh(1,4) [OF pl nt1 assms(4)] p]
  have nt2: "new_temps up fs2"
    by (rule new_temps_kept [OF pl nt1]) (use pb assms(4) in auto)
  have b3: "map_of (snd (save_status up status st w er fs2)) binary = map_of fs2 binary" for st w er
    by (rule save_status_elsewhere [OF pl nt2 assms(3)]) (use ne in simp)
  obtain e1 where s: "save_status up status UpdateRunning (urq_version req) [] fs = (e1, fs1)"
    unfolding fs1_def by (cases "save_status up status UpdateRunning (urq_version req) [] fs") simp
  have "e1 \<noteq> None \<and> e = e1 \<and> fs' = fs1 \<or>
      e1 = None \<and> e2 \<noteq> None \<and> e = e2 \<and> map_of fs' binary = map_of fs2 binary \<or>
      e1 = None \<and> e2 = None \<and> map_of fs' binary = map_of fs2 binary"
    using run s p b3 [of UpdateFailed] b3 [of UpdateSucceeded "urq_version req" "[]"]
    by (cases e1; cases e2) (auto simp: update_steps_def)
  then show "map_of fs' binary = map_of fs binary \<or> replaced_by up req binary fs'"
    and "e = None \<Longrightarrow> replaced_by up req binary fs'"
    using pb b1 by (auto simp: replaced_by_def)
qed

text \<open>C17: a node runs only programs the trusted key vouches for: whatever the request file, the controller's
  answers and the downloaded bytes are, the update service leaves the program as it was or replaces
  it by the executable it downloaded, whose SHA-256 digest and size an artifact of a verified
  manifest names, for this platform and of the newer version the request asks for; when it reports no
  error it has replaced it.  A request that is not for this node as it is configured leaves the program
  as it was; a request that could be read is gone afterwards, also when the update failed; one that
  could not be read is reported and nothing is touched.  (The paths of the three files differ, and the temporary
  files are new ones.)\<close>

theorem update_installs_vouched:
  assumes "update_places up [request, status, binary]" and "new_temps up fs"
    and run: "runUpdate up cfg request status binary fs = (e, fs')"
  shows "case loadUpdateRequest (up_requests up) (up_unreadable up) request fs of
      Inl x \<Rightarrow> e = Some x \<and> fs' = fs
    | Inr raw \<Rightarrow> map_of fs' request = None \<and>
        (case validateUpdateRequest up cfg (default_request up cfg raw) of
           Some x \<Rightarrow> e = Some x \<and> map_of fs' binary = map_of fs binary
         | None \<Rightarrow> (map_of fs' binary = map_of fs binary \<or>
               replaced_by up (default_request up cfg raw) binary fs') \<and>
             (e = None \<longrightarrow> replaced_by up (default_request up cfg raw) binary fs'))"
proof (cases "loadUpdateRequest (up_requests up) (up_unreadable up) request fs")
  case (Inl x)
  then show ?thesis using run by (auto simp: runUpdate_def)
next
  case (Inr raw)
  let ?req = "default_request up cfg raw"
  have ne: "status \<noteq> binary" "binary \<noteq> request" "status \<in> set [request, status, binary]" "binary \<in> set [request, status, binary]"
    using assms(1) by (auto simp: update_places_def)
  show ?thesis
  proof (cases "validateUpdateRequest up cfg ?req")
    case (Some x)
    then have "e = Some x" "fs' = AList.delete request fs" using run Inr by (simp_all add: runUpdate_def)
    then show ?thesis using Inr Some ne(2) by (simp add: map_simps)
  next
    case None
    obtain e' fs1 where s: "update_steps up ?req status binary fs = (e', fs1)" by fastforce
    have e: "e = e'" "fs' = AList.delete request fs1"
      using run Inr None s by (auto simp: runUpdate_def)
    then have b: "map_of fs' binary = map_of fs1 binary" using ne(2) by (simp add: map_simps)
    show ?thesis
      using update_steps_binary [OF assms(1,2) ne(3,4,1) None s] Inr None e(1) b replaced_by_same [OF b]
      by (auto simp: e(2) map_simps)
  qed
qed

section \<open>What is reported\<close>

definition outcome_report :: "time \<Rightarrow> string \<Rightarrow> string option \<Rightarrow> update_report" where
  "outcome_report now version e = completed_report now
     \<lparr> rpt_status = (if e = None then UpdateSucceeded else UpdateFailed), rpt_version = version,
       rpt_error = (case e of None \<Rightarrow> [] | Some t \<Rightarrow> t), rpt_completed_at = zero_time \<rparr>"

lemma save_status_read:
  assumes "fresh_temp (up_write_status up st) status fs" and "fst (save_status up status st v er fs) = None"
    and "cd_encode (up_reports up) r = Inr p" and "length p \<le> 1048576" and "up_unreadable up status = None"
    and r: "r = completed_report (up_now up) \<lparr> rpt_status = st, rpt_version = v, rpt_error = er, rpt_completed_at = zero_time \<rparr>"
  shows "loadUpdateStatus (up_reports up) (up_unreadable up) status (snd (save_status up status st v er fs)) =
    cd_decode (up_reports up) p"
proof -
  have w: "save_status up status st v er fs = writePrivateFileAtomic (up_write_status up st) status p fs"
    using assms(2,3) r by (auto simp: save_status_def saveUpdateStatus_def split: option.splits)
  then have "writePrivateFileAtomic (up_write_status up st) status p fs =
      (None, snd (save_status up status st v er fs))"
    using assms(2) by (metis prod.collapse)
  from load_saved [where c = "up_reports up" and unreadable = "up_unreadable up", OF assms(1) this assms(4,5)] show ?thesis by (simp add: loadUpdateStatus_def)
qed

lemma load_status_delete:
  "q \<noteq> status \<Longrightarrow> loadUpdateStatus c unreadable status (AList.delete q fs) = loadUpdateStatus c unreadable status fs"
  by (simp add: loadUpdateStatus_def load_json_def readFileLimited_def map_simps)

text \<open>C20: the outcome of an update is what the controller is going to hear: if the status file can be written,
  an update of a request that passes the checks ends with a status file that reads succeeded, the
  program being replaced by the one that was downloaded and is vouched for, or failed with the
  error, the program being untouched.  (The report is one that is encoded and decoded without loss; the paths differ,
  and the temporary files are new ones.)\<close>

theorem update_outcome_reported:
  assumes places: "update_places up [request, status, binary]" and temps: "new_temps up fs"
    and load: "loadUpdateRequest (up_requests up) (up_unreadable up) request fs = Inr raw"
    and valid: "validateUpdateRequest up cfg (default_request up cfg raw) = None"
    and writable: "\<And>st v er fs. fst (save_status up status st v er fs) = None"
    and report: "cd_encode (up_reports up) (outcome_report (up_now up) (urq_version raw) e) = Inr p"
      "cd_decode (up_reports up) p = Inr (outcome_report (up_now up) (urq_version raw) e)"
      "length p \<le> 1048576" "up_unreadable up status = None"
    and run: "runUpdate up cfg request status binary fs = (e, fs')"
  shows "loadUpdateStatus (up_reports up) (up_unreadable up) status fs' =
      Inr (outcome_report (up_now up) (urq_version raw) e) \<and>
    (if e = None then replaced_by up (default_request up cfg raw) binary fs'
     else map_of fs' binary = map_of fs binary)"
proof -
  let ?req = "default_request up cfg raw" and ?v = "urq_version raw" and ?paths = "[request, status, binary]"
  have ne: "request \<noteq> status" "binary \<noteq> status" "binary \<noteq> request" "status \<in> set ?paths" "binary \<in> set ?paths"
    using places by (auto simp: update_places_def)
  define fs1 where "fs1 = snd (save_status up status UpdateRunning ?v [] fs)"
  have s1: "save_status up status UpdateRunning ?v [] fs = (None, fs1)"
    unfolding fs1_def using writable by (metis prod.collapse)
  have nt1: "new_temps up fs1"
    unfolding fs1_def by (rule save_status_temps [OF places temps ne(4)])
  have b1: "map_of fs1 binary = map_of fs binary"
    unfolding fs1_def by (rule save_status_elsewhere [OF places temps ne(4,2)])
  obtain e2 fs2 where p2: "performUpdate up ?req binary fs1 = (e2, fs2)" by fastforce
  note pb = performUpdate_binary [OF valid update_places_fresh(1,4) [OF places nt1 ne(5)] p2]
  have nt2: "new_temps up fs2"
    by (rule new_temps_kept [OF places nt1]) (use pb ne in auto)
  define st where "st = (if e2 = None then UpdateSucceeded else UpdateFailed)"
  define er where "er = (case e2 of None \<Rightarrow> [] | Some t \<Rightarrow> t)"
  have both: "e = e2" "fs' = AList.delete request (snd (save_status up status st ?v er fs2))"
    using run load valid s1 p2 writable [of UpdateSucceeded ?v "[]" fs2]
    by (auto simp: runUpdate_def update_steps_def st_def er_def Let_def split: option.splits prod.splits)
  have r: "outcome_report (up_now up) ?v e =
      completed_report (up_now up) \<lparr> rpt_status = st, rpt_version = ?v, rpt_error = er, rpt_completed_at = zero_time \<rparr>"
    by (simp add: outcome_report_def st_def er_def both(1))
  have "loadUpdateStatus (up_reports up) (up_unreadable up) status (snd (save_status up status st ?v er fs2)) =
      Inr (outcome_report (up_now up) ?v e)"
    using save_status_read [OF update_places_fresh(2) [OF places nt2 ne(4)] writable report(1,3,4) r] report(2) by simp
  moreover have b2: "map_of fs' binary = map_of fs2 binary"
    using both(2) ne save_status_elsewhere [OF places nt2 ne(4,2)] by (simp add: map_simps)
  ultimately show ?thesis
    using both pb b1 ne load_status_delete [OF ne(1)] replaced_by_same [OF b2] by auto
qed

section \<open>From the controller's release to the node's program\<close>






text \<open>The request the control connection leaves is one the update service accepts, if the node is configured
  with a controller, an identity and a token, and the digest in the manifest is a hexadecimal SHA-256.\<close>

lemma command_request_valid:
  assumes "handleUpdateCommand up cfg cmd fs = (None, fs')" and "NeedsUpdate (up_version up) (cmd_version cmd)"
    and "findUpdateArtifact (cmd_manifest cmd) (up_goos up) (up_goarch up) = Some art"
    and "length (cmd_version cmd) \<le> maxUpdateVersionBytes" "length (nc_controller cfg) \<le> maxUpdateURLBytes"
      "validateControllerURL (up_net up) (nc_controller cfg) = Inr u" "nc_node_id cfg \<noteq> []" "nc_token cfg \<noteq> []"
      "length (art_sha256 art) = 64" "hex_decodable (art_sha256 art)"
  shows "\<exists>req fs1. writeUpdateRequest (up_requests up) (up_mkdir up) (up_write_request up) (nc_request cfg) req fs1 = (None, fs') \<and>
    urq_version req = cmd_version cmd \<and> validateUpdateRequest up cfg (default_request up cfg req) = None"
proof -
  let ?req = "\<lparr> urq_controller = nc_controller cfg, urq_node_id = nc_node_id cfg, urq_token = nc_token cfg,
      urq_version = cmd_version cmd, urq_os = up_goos up, urq_arch = up_goarch up,
      urq_sha256 = art_sha256 art, urq_requested_at = up_now up \<rparr>"
  have "default_request up cfg ?req = ?req" by (simp add: default_request_def)
  then have "validateUpdateRequest up cfg (default_request up cfg ?req) = None"
    using assms(2,4-10) by (auto simp: validateUpdateRequest_None sameControllerURL_def NeedsUpdate_def split: if_splits)
  moreover obtain fs1 where
    "writeUpdateRequest (up_requests up) (up_mkdir up) (up_write_request up) (nc_request cfg) ?req fs1 = (None, fs')"
    using assms(1-3) by (auto simp: handleUpdateCommand_def split: if_splits option.splits prod.splits)
  ultimately show ?thesis by (intro exI [of _ ?req] exI [of _ fs1]) simp
qed

section \<open>A node that updates itself\<close>

definition ex_net :: net_env where
  "ex_net = \<lparr> nt_parse_url = (\<lambda>s. let p = \<lparr> url_scheme = [], url_opaque = [], url_user = False, url_host = [],
       url_hostname = [], url_path = s, url_raw_path = [], url_query = [], url_fragment = [] \<rparr>
       in Some (if s = ''https://c'' then p\<lparr> url_scheme := ''https'', url_host := ''c'', url_hostname := ''c'', url_path := [] \<rparr> else p)),
     nt_url_string = (\<lambda>u. url_scheme u @ ''://'' @ url_host u @ url_path u),
     nt_parse_ip = (\<lambda>s. None), nt_loopback = (\<lambda>s. False) \<rparr>"

definition ex_write :: write_env where
  "ex_write = \<lparr> we_goos = ''linux'', we_mkdir = None, we_temp = Inr ''t'', we_chmod = None, we_write = None, we_written = 0,
     we_sync = None, we_close = None, we_rename = None, we_remove = None, we_rename_again = None \<rparr>"

definition ex_update_request :: update_request where
  "ex_update_request = \<lparr> urq_controller = ''https://c'', urq_node_id = ''n'', urq_token = ''t'', urq_version = ''v0.2.0'',
     urq_os = ''linux'', urq_arch = ''amd64'', urq_sha256 = ''656c66'' @ replicate 58 CHR ''0'', urq_requested_at = 1 \<rparr>"

definition ex_manifest_url :: string where "ex_manifest_url = ''https://c/downloads/nyarelay-node/manifest''"

definition ex_updater :: updater where
  "ex_updater = \<lparr> up_goos = ''linux'', up_goarch = ''amd64'', up_version = ''v0.1.0'', up_trusted = EncodeKey ex_pub,
     up_net = ex_net, up_new_request = (\<lambda>u. None),
     up_http = (\<lambda>og. Inr \<lparr> ic_status = 200, ic_length = 3, ic_body = ''gz'' \<rparr>),
     up_parse_release = (\<lambda>b. Inr (public_release (nodeReleaseUncached ex_release_env))),
     up_gunzip = (\<lambda>b. Inr (''elf'', None)), up_sha256 = (\<lambda>b. take 32 (b @ replicate 32 CHR 0x00)),
     up_verify = toy_verify, up_json = (\<lambda>m. Some (man_version m)), up_sign_text = (\<lambda>e. ''signature''),
     up_unreadable = (\<lambda>p. None),
     up_requests = \<lparr> cd_encode = (\<lambda>r. Inr ''request''), cd_decode = (\<lambda>p. Inr ex_update_request) \<rparr>,
     up_reports = \<lparr> cd_encode = (\<lambda>r. Inr ''report''), cd_decode = (\<lambda>p. Inr (outcome_report 1 ''v0.2.0'' None)) \<rparr>,
     up_mkdir = None, up_write_status = (\<lambda>st. ex_write), up_write_request = ex_write, up_write_binary = ex_write,
     up_now = 1 \<rparr>"

definition ex_node_config :: node_config where
  "ex_node_config = parseConfig (\<lambda>k. []) (\<lambda>d. d) concat
     [(''controller'', ''https://c''), (''id'', ''n''), (''token'', ''t'')]"

definition ex_files :: files where
  "ex_files = [(''r'', \<lparr> fl_mode = private_mode, fl_data = ''request'' \<rparr>), (''b'', \<lparr> fl_mode = executable_mode, fl_data = ''old'' \<rparr>)]"

lemma ex_updater_places: "update_places ex_updater [''r'', ''s'', ''b'']" "new_temps ex_updater ex_files"
  by (auto simp: update_places_def new_temps_def ex_updater_def ex_write_def ex_files_def)

lemma ex_request_loads: "loadUpdateRequest (up_requests ex_updater) (up_unreadable ex_updater) ''r'' ex_files = Inr ex_update_request"
  by (simp add: loadUpdateRequest_def load_json_def readFileLimited_def ex_updater_def ex_files_def)

lemma ex_https: "trim_space ''https://c'' = ''https://c''" "NeedsUpdate ''v0.1.0'' ''v0.2.0''" "trim_space ''v0.2.0'' \<noteq> []"
  "hex_decodable (''656c66'' @ replicate 58 CHR ''0'')"
  by code_simp+

lemma ex_controller_url: "validateControllerURL ex_net ''https://c'' = Inr \<lparr> url_scheme = ''https'', url_opaque = [],
    url_user = False, url_host = ''c'', url_hostname = ''c'', url_path = [], url_raw_path = [], url_query = [], url_fragment = [] \<rparr>"
  by (simp add: validateControllerURL_def ex_net_def ex_https Let_def)

lemma ex_request_default: "default_request ex_updater ex_node_config ex_update_request = ex_update_request"
  by (simp add: default_request_def ex_update_request_def)

lemma ex_request_valid: "validateUpdateRequest ex_updater ex_node_config ex_update_request = None"
  using ex_https(2-4)
  by (simp add: validateUpdateRequest_None ex_update_request_def ex_updater_def ex_node_config_def parseConfig_def
      sameControllerURL_def ex_controller_url maxUpdateVersionBytes_def maxUpdateURLBytes_def Let_def)

lemma ex_asked: "newUpdateRequest ex_updater ex_update_request (CHR ''/'' # p) =
    Inr \<lparr> og_url = ''https://c/'' @ p, og_node_id = ''n'', og_token = ''t'' \<rparr>"
  by (simp add: newUpdateRequest_def controllerURLWithPath_def ex_update_request_def ex_updater_def ex_controller_url)
    (simp add: ex_net_def Let_def)

lemma ex_fetched: "fetchNodeRelease ex_updater ex_update_request = Inr (public_release (nodeReleaseUncached ex_release_env))"
  by (simp add: fetchNodeRelease_def ex_asked) (simp add: ex_updater_def)

lemma ex_artifact: "findUpdateArtifact ex_release_manifest ''linux'' ''amd64'' =
    Some \<lparr> art_os = ''linux'', art_arch = ''amd64'', art_sha256 = ''656c66'' @ replicate 58 CHR ''0'', art_size = 3 \<rparr>"
  by (simp add: findUpdateArtifact_def ex_release_manifest_def)


lemma ex_performed: "performUpdate ex_updater ex_update_request ''b'' fs = replaceBinary ex_write ''b'' ''elf'' fs"
proof -
  have m: "man_version ex_release_manifest = ''v0.2.0''" by (simp add: ex_release_manifest_def)
  have "check_release ex_updater ex_update_request (public_release (nodeReleaseUncached ex_release_env)) =
      Inr \<lparr> art_os = ''linux'', art_arch = ''amd64'', art_sha256 = ''656c66'' @ replicate 58 CHR ''0'', art_size = 3 \<rparr>"
    by (simp add: check_release_def ex_release public_release_def ex_release_signed m ex_artifact ex_update_request_def
        ex_updater_def equal_fold_def maxNodeBinaryBytes_def)
  moreover have "downloadUpdateBinary ex_updater ex_update_request = Inr ''elf''"
    by (simp add: downloadUpdateBinary_def ex_asked)
      (simp add: ex_updater_def read_limited_def maxNodeBinaryBytes_def)
  moreover have "check_payload ex_updater
      \<lparr> art_os = ''linux'', art_arch = ''amd64'', art_sha256 = ''656c66'' @ replicate 58 CHR ''0'', art_size = 3 \<rparr> ''elf'' = None"
    using ex_release_digest by (simp add: check_payload_sound ex_updater_def)
  ultimately show ?thesis by (simp add: performUpdate_def ex_fetched) (simp add: ex_updater_def)
qed

lemma ex_status_writable: "fst (save_status ex_updater s st v er fs) = None"
  by (simp add: save_status_def saveUpdateStatus_def ex_updater_def writePrivateFileAtomic_def ex_write_def)

lemma ex_update_run: "fst (runUpdate ex_updater ex_node_config ''r'' ''s'' ''b'' ex_files) = None"
proof -
  have f: "fst (replaceBinary ex_write ''b'' p fs) = None" for p fs by (simp add: replaceBinary_def ex_write_def Let_def)
  have "fst (update_steps ex_updater ex_update_request ''s'' ''b'' ex_files) = None"
    using ex_status_writable f
    by (auto simp: update_steps_def ex_performed split: prod.splits option.splits; metis fst_conv option.discI)
  then show ?thesis
    by (cases "update_steps ex_updater ex_update_request ''s'' ''b'' ex_files")
      (simp add: runUpdate_def ex_request_loads ex_request_default ex_request_valid)
qed

theorem update_installs_vouched_witness:
  "\<exists>payload. vouched ex_updater ''v0.2.0'' payload \<and>
     map_of (snd (runUpdate ex_updater ex_node_config ''r'' ''s'' ''b'' ex_files)) ''b'' =
       Some \<lparr> fl_mode = executable_mode, fl_data = payload \<rparr>"
proof -
  have "runUpdate ex_updater ex_node_config ''r'' ''s'' ''b'' ex_files =
      (None, snd (runUpdate ex_updater ex_node_config ''r'' ''s'' ''b'' ex_files))"
    using ex_update_run by (metis prod.collapse)
  from update_installs_vouched [OF ex_updater_places this]
  have "replaced_by ex_updater ex_update_request ''b'' (snd (runUpdate ex_updater ex_node_config ''r'' ''s'' ''b'' ex_files))"
    by (simp add: ex_request_loads ex_request_default ex_request_valid)
  then show ?thesis by (auto simp: replaced_by_def ex_update_request_def)
qed

theorem update_outcome_reported_witness:
  "loadUpdateStatus (up_reports ex_updater) (\<lambda>p. None) ''s'' (snd (runUpdate ex_updater ex_node_config ''r'' ''s'' ''b'' ex_files)) =
     Inr (outcome_report 1 ''v0.2.0'' None)"
proof -
  have run: "runUpdate ex_updater ex_node_config ''r'' ''s'' ''b'' ex_files =
      (None, snd (runUpdate ex_updater ex_node_config ''r'' ''s'' ''b'' ex_files))"
    using ex_update_run by (metis prod.collapse)
  have c: "cd_encode (up_reports ex_updater) (outcome_report (up_now ex_updater) (urq_version ex_update_request) None) = Inr ''report''"
    "cd_decode (up_reports ex_updater) ''report'' = Inr (outcome_report (up_now ex_updater) (urq_version ex_update_request) None)"
    "length ''report'' \<le> 1048576" "up_unreadable ex_updater ''s'' = None" "up_unreadable ex_updater = (\<lambda>p. None)"
    "up_now ex_updater = 1" "urq_version ex_update_request = ''v0.2.0''"
    by (simp_all add: ex_updater_def ex_update_request_def)
  have v: "validateUpdateRequest ex_updater ex_node_config (default_request ex_updater ex_node_config ex_update_request) = None"
    by (simp add: ex_request_default ex_request_valid)
  from update_outcome_reported [OF ex_updater_places ex_request_loads v ex_status_writable c(1-4) run] c(5-7)
  show ?thesis by simp
qed


end
