(* ===== verification/Passwords.thy ===== *)
theory Passwords
  imports Sign Http
begin


text \<open>
  internal/controller/auth/password.go: salted PBKDF2 hashes of passwords.  PBKDF2 is an argument: what is
  relied on is the length of the keys it derives.
\<close>

section \<open>Passwords\<close>

text \<open>\<open>kdf password salt iterations length\<close>, \<open>None\<close> for an error.\<close>

type_synonym kdf = "string \<Rightarrow> string \<Rightarrow> int \<Rightarrow> nat \<Rightarrow> string option"

definition pbkdf2Iterations :: int where "pbkdf2Iterations = 210000"
definition saltBytes :: nat where "saltBytes = 16"
definition keyBytes :: nat where "keyBytes = 32"
definition maxPasswordBytes :: nat where "maxPasswordBytes = 4096"
definition maxPBKDF2Iterations :: int where "maxPBKDF2Iterations = 1000000"

datatype password_error = PasswordTooShort | PasswordTooLong | NoRandom | KdfFailed

text \<open>\<open>salt\<close> is what the random source gives, 16 bytes.\<close>

definition HashPassword :: "kdf \<Rightarrow> string option \<Rightarrow> string \<Rightarrow> password_error + string" where
  "HashPassword kdf salt password =
    (if length password < 12 then Inl PasswordTooShort
     else if length password > maxPasswordBytes then Inl PasswordTooLong
     else case salt of None \<Rightarrow> Inl NoRandom | Some s \<Rightarrow>
       (case kdf password s pbkdf2Iterations keyBytes of
          None \<Rightarrow> Inl KdfFailed
        | Some key \<Rightarrow> Inr (''pbkdf2-sha256$'' @ itoa pbkdf2Iterations @ ''$'' @ b64_encode s @ ''$'' @ b64_encode key)))"

definition VerifyPassword :: "kdf \<Rightarrow> string \<Rightarrow> string \<Rightarrow> bool" where
  "VerifyPassword kdf encoded password =
    (if length password > maxPasswordBytes then False
     else let parts = split_on (CHR ''$'') encoded in
     if length parts \<noteq> 4 \<or> parts ! 0 \<noteq> ''pbkdf2-sha256'' then False
     else let (iterations, ok) = atoi (parts ! 1) in
     if \<not> ok \<or> iterations < 100000 \<or> iterations > maxPBKDF2Iterations then False
     else case b64_decode (parts ! 2) of None \<Rightarrow> False | Some salt \<Rightarrow>
     if length salt \<noteq> saltBytes then False
     else case b64_decode (parts ! 3) of None \<Rightarrow> False | Some want \<Rightarrow>
     if length want \<noteq> keyBytes then False
     else kdf password salt iterations (length want) = Some want)"

lemma split_on_append: "d \<notin> set a \<Longrightarrow> split_on d (a @ d # b) = a # split_on d b"
  by (induction a) auto

lemma b64_encode_no_dollar: "CHR ''$'' \<notin> set (b64_encode s)"
proof -
  have "list_all (\<lambda>n. b64_char n \<noteq> CHR ''$'') [0..<64]" by code_simp
  then have "b64_char (n mod 64) \<noteq> CHR ''$''" for n by (auto simp: list_all_iff)
  then have "b64_char n \<noteq> CHR ''$''" for n by (simp add: b64_char_def)
  then show ?thesis by (force simp: b64_encode_groups)
qed

lemma password_hash_accepts:
  assumes "HashPassword kdf (Some salt) password = Inr encoded" and "length salt = saltBytes"
    and "\<And>p n. kdf p salt pbkdf2Iterations n \<noteq> None \<Longrightarrow> length (the (kdf p salt pbkdf2Iterations n)) = n"
  shows "(VerifyPassword kdf encoded typed \<longleftrightarrow> length typed \<le> maxPasswordBytes \<and>
      kdf typed salt pbkdf2Iterations keyBytes = kdf password salt pbkdf2Iterations keyBytes) \<and>
    VerifyPassword kdf encoded password"
proof -
  obtain key where key: "kdf password salt pbkdf2Iterations keyBytes = Some key" and len: "length password \<le> maxPasswordBytes"
    and enc: "encoded = ''pbkdf2-sha256'' @ CHR ''$'' # itoa pbkdf2Iterations @ CHR ''$'' # b64_encode salt @ CHR ''$'' # b64_encode key"
    using assms(1) by (auto simp: HashPassword_def split: if_splits option.splits)
  have i: "itoa pbkdf2Iterations = nat_str 210000"
    using itoa_int [of 210000] by (simp add: pbkdf2Iterations_def)
  have n: "CHR ''$'' \<notin> set (itoa pbkdf2Iterations)" "atoi (itoa pbkdf2Iterations) = (210000, True)"
    "CHR ''$'' \<notin> set ''pbkdf2-sha256''"
    by (simp add: i nat_str_free, simp add: pbkdf2Iterations_def atoi_itoa, simp)
  have "split_on (CHR ''$'') encoded = [''pbkdf2-sha256'', itoa pbkdf2Iterations, b64_encode salt, b64_encode key]"
    unfolding enc split_on_append [OF n(3)] split_on_append [OF n(1)] split_on_append [OF b64_encode_no_dollar]
      split_on_no_sep [OF b64_encode_no_dollar] by (rule refl)
  moreover have "length key = keyBytes" using assms(3) [of password keyBytes] key by simp
  ultimately have "VerifyPassword kdf encoded p \<longleftrightarrow>
      length p \<le> maxPasswordBytes \<and> kdf p salt pbkdf2Iterations keyBytes = Some key" for p
    using assms(2) n(2) by (simp add: VerifyPassword_def b64_roundtrip maxPBKDF2Iterations_def pbkdf2Iterations_def Let_def)
  then show ?thesis using key len by simp
qed

text \<open>a stored password hash accepts exactly the passwords that derive the same key with the salt that was drawn
  for it, whatever else the user types, and always the password it was made from.\<close>

theorem password_accepted:
  assumes "HashPassword kdf (Some salt) password = Inr encoded" and "length salt = saltBytes"
    and "\<And>p n. kdf p salt pbkdf2Iterations n \<noteq> None \<Longrightarrow> length (the (kdf p salt pbkdf2Iterations n)) = n"
  shows "(VerifyPassword kdf encoded typed \<longleftrightarrow> length typed \<le> maxPasswordBytes \<and>
      kdf typed salt pbkdf2Iterations keyBytes = kdf password salt pbkdf2Iterations keyBytes) \<and>
    VerifyPassword kdf encoded password"
  using password_hash_accepts [OF assms] .

definition toy_kdf :: kdf where
  "toy_kdf p s n k = Some (take k (p @ s @ replicate k CHR ''x''))"

theorem password_accepted_witness:
  "\<exists>encoded. HashPassword toy_kdf (Some (replicate 16 CHR ''s'')) ''correct horse'' = Inr encoded \<and>
     VerifyPassword toy_kdf encoded ''correct horse'' \<and> \<not> VerifyPassword toy_kdf encoded ''correct house''"
proof -
  obtain encoded where e: "HashPassword toy_kdf (Some (replicate 16 CHR ''s'')) ''correct horse'' = Inr encoded"
    by (simp add: HashPassword_def toy_kdf_def maxPasswordBytes_def)
  have "length (the (toy_kdf p (replicate 16 CHR ''s'') pbkdf2Iterations n)) = n" for p n
    by (simp add: toy_kdf_def)
  from password_accepted [OF e _ this, where typed = "''correct house''"]
  have "VerifyPassword toy_kdf encoded ''correct horse''"
    "VerifyPassword toy_kdf encoded ''correct house'' \<longleftrightarrow> length ''correct house'' \<le> maxPasswordBytes \<and>
       toy_kdf ''correct house'' (replicate 16 CHR ''s'') pbkdf2Iterations keyBytes =
       toy_kdf ''correct horse'' (replicate 16 CHR ''s'') pbkdf2Iterations keyBytes"
    by (simp_all add: saltBytes_def)
  moreover have "toy_kdf ''correct house'' (replicate 16 CHR ''s'') pbkdf2Iterations keyBytes \<noteq>
      toy_kdf ''correct horse'' (replicate 16 CHR ''s'') pbkdf2Iterations keyBytes"
    by (simp add: toy_kdf_def keyBytes_def)
  ultimately show ?thesis using e by blast
qed

end
