(* ===== verification/Totp.thy ===== *)
theory Totp
  imports GoTime Http "HOL-Library.Signed_Division" "HOL-Library.Word"
begin

unbundle bit_operations_syntax

text \<open>
  internal/controller/auth/totp.go: one-time codes.  encoding/base32 is written out, with the padding rules of
  its decoder; HMAC-SHA1 is an argument that answers 20 bytes.

  The lemmas show that a secret is decoded to the bytes it was made from and that the codes accepted at an
  instant are those of RFC 6238 for its step of 30 seconds and the two steps beside it.
\<close>

section \<open>Base32\<close>

definition b32_alphabet :: string where "b32_alphabet = ''ABCDEFGHIJKLMNOPQRSTUVWXYZ234567''"

definition b32_char :: "nat \<Rightarrow> char" where "b32_char n = b32_alphabet ! (n mod 32)"

definition b32_val :: "char \<Rightarrow> nat option" where
  "b32_val c = map_option fst (List.find (\<lambda>(i, d). d = c) (enumerate 0 b32_alphabet))"

text \<open>The eight digits of five bytes, and back.\<close>

definition b32_digits :: "nat list \<Rightarrow> nat list" where
  "b32_digits bs = (let b = (\<lambda>i. if i < length bs then bs ! i else 0) in
     [b 0 div 8, b 0 mod 8 * 4 + b 1 div 64, b 1 div 2 mod 32, b 1 mod 2 * 16 + b 2 div 16,
      b 2 mod 16 * 2 + b 3 div 128, b 3 div 4 mod 32, b 3 mod 4 * 8 + b 4 div 32, b 4 mod 32])"

definition b32_bytes :: "nat list \<Rightarrow> nat list" where
  "b32_bytes ds = (let d = (\<lambda>i. if i < length ds then ds ! i else 0) in
     [d 0 * 8 + d 1 div 4, d 1 mod 4 * 64 + d 2 * 2 + d 3 div 16, d 3 mod 16 * 16 + d 4 div 2,
      d 4 mod 2 * 128 + d 5 * 4 + d 6 div 8, d 6 mod 8 * 32 + d 7])"

text \<open>How many digits carry that many bytes of a last group, and how many bytes that many digits carry.\<close>

definition b32_width :: "nat \<Rightarrow> nat" where "b32_width n = (n * 8 + 4) div 5"
definition b32_count :: "nat \<Rightarrow> nat" where "b32_count k = k * 5 div 8"

function b32_encode :: "string \<Rightarrow> string" where
  "b32_encode s = (if s = [] then []
     else let k = b32_width (min 5 (length s))
       in map b32_char (take k (b32_digits (map of_char (take 5 s)))) @ replicate (8 - k) (CHR ''='') @ b32_encode (drop 5 s))"
  by auto
termination by (relation "measure length") auto

declare b32_encode.simps [simp del]

text \<open>One quantum: the digits read, whether the padding was reached, and what is left.\<close>

fun b32_quantum :: "nat list \<Rightarrow> string \<Rightarrow> (nat list \<times> bool \<times> string) option" where
  "b32_quantum ds [] = (if length ds = 8 then Some (ds, False, []) else None)"
| "b32_quantum ds (c # r) =
    (if length ds = 8 then Some (ds, False, c # r)
     else if c = CHR ''='' \<and> 2 \<le> length ds \<and> length r < 8 then
       (if length r + length ds < 7 \<or> (\<exists>x\<in>set (take (7 - length ds) r). x \<noteq> CHR ''='') then None
        else if length ds = 3 \<or> length ds = 6 then None else Some (ds, True, r))
     else case b32_val c of None \<Rightarrow> None | Some v \<Rightarrow> b32_quantum (ds @ [v]) r)"

lemma b32_quantum_rest:
  "b32_quantum ds s = Some (ds', stop, r) \<Longrightarrow> length ds < 8 \<Longrightarrow> length r < length s"
proof (induction ds s rule: b32_quantum.induct)
  case (2 ds c s)
  show ?case
  proof (cases "length ds = 7")
    case True
    then show ?thesis using 2 by (cases s) (auto split: if_splits option.splits)
  next
    case False
    then show ?thesis using 2 by (fastforce split: if_splits option.splits)
  qed
qed auto

function b32_groups :: "string \<Rightarrow> nat list option" where
  "b32_groups s = (if s = [] then Some []
     else case b32_quantum [] s of
       None \<Rightarrow> None
     | Some (ds, stop, r) \<Rightarrow>
         let bytes = take (b32_count (length ds)) (b32_bytes ds)
         in if stop then Some bytes else map_option (\<lambda>bs. bytes @ bs) (b32_groups r))"
  by auto
termination
  by (relation "measure length") (auto dest: b32_quantum_rest)

declare b32_groups.simps [simp del]

definition b32_decode :: "string \<Rightarrow> string option" where
  "b32_decode s = map_option (map char_of) (b32_groups (filter (\<lambda>c. c \<noteq> CHR 0x0A \<and> c \<noteq> CHR 0x0D) s))"

section \<open>Codes\<close>

text \<open>strings.ToUpper, as far as base32 can tell: the two letters outside ASCII whose capital is in ASCII become
  it, the other bytes outside ASCII, which are in no base32 text, stay.\<close>

function to_upper :: "string \<Rightarrow> string" where
  "to_upper s = (case s of [] \<Rightarrow> []
     | c # r \<Rightarrow>
        if prefix [CHR 0xC4, CHR 0xB1] s then CHR ''I'' # to_upper (drop 2 s)
        else if prefix [CHR 0xC5, CHR 0xBF] s then CHR ''S'' # to_upper (drop 2 s)
        else (let b = (of_char c :: nat) in if 97 \<le> b \<and> b \<le> 122 then char_of (b - 32) else c) # to_upper r)"
  by pat_completeness auto
termination by (relation "measure length") auto

declare to_upper.simps [simp del]

type_synonym hmac = "string \<Rightarrow> string \<Rightarrow> string"

text \<open>binary.BigEndian.PutUint64.\<close>

definition big_endian :: "64 word \<Rightarrow> string" where
  "big_endian w = map (\<lambda>i. char_of (unat (drop_bit (8 * (7 - i)) w AND 0xFF))) [0..<8]"

text \<open>The four bytes at the offset the last byte names, without the sign, as six decimal digits.\<close>

definition truncate_mac :: "string \<Rightarrow> nat" where
  "truncate_mac mac =
    (let byte = (\<lambda>i. of_nat (of_char (mac ! i)) :: 32 word);
         off = unat (byte (length mac - 1) AND 0x0F);
         value = push_bit 24 (byte off AND 0x7F) OR push_bit 16 (byte (off + 1) AND 0xFF) OR
           push_bit 8 (byte (off + 2) AND 0xFF) OR (byte (off + 3) AND 0xFF)
     in unat value mod 1000000)"

definition GenerateTOTPCode :: "hmac \<Rightarrow> string \<Rightarrow> time \<Rightarrow> string" where
  "GenerateTOTPCode hmac secret now =
    (case b32_decode (to_upper secret @ replicate ((8 - length secret mod 8) mod 8) (CHR ''='')) of
       None \<Rightarrow> []
     | Some key \<Rightarrow> pad 6 (truncate_mac (hmac key (big_endian (of_int (time_unix now sdiv 30))))))"

definition is_digit :: "char \<Rightarrow> bool" where "is_digit c \<longleftrightarrow> c \<in> set ''0123456789''"

definition VerifyTOTP :: "hmac \<Rightarrow> string \<Rightarrow> string \<Rightarrow> time \<Rightarrow> bool" where
  "VerifyTOTP hmac secret typed now =
    (let code = trim_space typed in
     if length code \<noteq> 6 then False
     else if \<not> list_all is_digit code then False
     else list_ex (\<lambda>k. let generated = GenerateTOTPCode hmac secret (now + k * 30 * second)
       in generated \<noteq> [] \<and> generated = code) [-1, 0, 1])"

text \<open>\<open>raw\<close> is what the random source gives, 20 bytes.\<close>

definition GenerateTOTPSecret :: "string option \<Rightarrow> string option" where
  "GenerateTOTPSecret raw =
     map_option (\<lambda>b. List.rev (dropWhile (\<lambda>c. c = CHR ''='') (List.rev (b32_encode b)))) raw"

text \<open>url.Values.Encode writes the parameters in the order of their names.\<close>

definition TOTPURL :: "string \<Rightarrow> string \<Rightarrow> string \<Rightarrow> string" where
  "TOTPURL issuer account secret =
     ''otpauth://totp/'' @ path_escape (issuer @ '':'' @ account) @ ''?algorithm=SHA1&digits=6&issuer='' @ query_escape issuer @
       ''&period=30&secret='' @ query_escape secret"

section \<open>Secrets are decoded to their bytes\<close>

lemma pack_digit: "y < (k :: nat) \<Longrightarrow> (x * k + y) div k = x" "y < k \<Longrightarrow> (x * k + y) mod k = y"
  by simp_all

lemma three_parts: "b div (k * m) * (k * m) + b div k mod m * k + b mod k = (b :: nat)"
proof -
  have "b div k = b div k div m * m + b div k mod m" by simp
  then have "b div k * k = b div (k * m) * (k * m) + b div k mod m * k"
    by (metis add_mult_distrib div_mult2_eq mult.assoc mult.commute)
  then show ?thesis by (metis div_mult_mod_eq)
qed

lemma b32_digits_five: "b32_digits [a, b, c, d, e] =
    [a div 8, a mod 8 * 4 + b div 64, b div 2 mod 32, b mod 2 * 16 + c div 16, c mod 16 * 2 + d div 128, d div 4 mod 32,
     d mod 4 * 8 + e div 32, e mod 32]"
  by (simp add: b32_digits_def)

lemma b32_bytes_eight: "b32_bytes [p, q, r, s, t, u, v, w] =
    [p * 8 + q div 4, q mod 4 * 64 + r * 2 + s div 16, s mod 16 * 16 + t div 2, t mod 2 * 128 + u * 4 + v div 8,
     v mod 8 * 32 + w]"
  by (simp add: b32_bytes_def)

lemma b32_bytes_digits:
  assumes "a < 256" "b < 256" "c < 256" "d < 256" "e < (256 :: nat)"
  shows "b32_bytes (b32_digits [a, b, c, d, e]) = [a, b, c, d, e]"
proof -
  have small: "b div 64 < 4" "c div 16 < 16" "d div 128 < 2" "e div 32 < 8" using assms by auto
  have split: "b div 64 * 64 + b div 2 mod 32 * 2 + b mod 2 = b" "d div 128 * 128 + d div 4 mod 32 * 4 + d mod 4 = d"
    using three_parts [of b 2 32] three_parts [of d 4 32] by simp_all
  have "a div 8 * 8 + (a mod 8 * 4 + b div 64) div 4 = a" using small(1) by simp
  moreover have "(a mod 8 * 4 + b div 64) mod 4 * 64 + b div 2 mod 32 * 2 + (b mod 2 * 16 + c div 16) div 16 = b"
    using pack_digit [OF small(1)] pack_digit [OF small(2)] split(1) by simp
  moreover have "(b mod 2 * 16 + c div 16) mod 16 * 16 + (c mod 16 * 2 + d div 128) div 2 = c"
    using pack_digit [OF small(2)] pack_digit [OF small(3)] by simp
  moreover have "(c mod 16 * 2 + d div 128) mod 2 * 128 + d div 4 mod 32 * 4 + (d mod 4 * 8 + e div 32) div 8 = d"
    using pack_digit [OF small(3)] pack_digit [OF small(4)] split(2) by simp
  moreover have "(d mod 4 * 8 + e div 32) mod 8 * 32 + e mod 32 = e"
    using pack_digit [OF small(4)] by simp
  ultimately show ?thesis by (simp only: b32_digits_five b32_bytes_eight)
qed

lemma b32_char_props:
  assumes "n < 32"
  shows "b32_val (b32_char n) = Some n" "b32_char n \<noteq> CHR ''=''" "b32_char n \<noteq> CHR 0x0A" "b32_char n \<noteq> CHR 0x0D"
    "(of_char (b32_char n) :: nat) < 91"
proof -
  have "list_all (\<lambda>n. b32_val (b32_char n) = Some n \<and> b32_char n \<noteq> CHR ''='' \<and> b32_char n \<noteq> CHR 0x0A \<and>
      b32_char n \<noteq> CHR 0x0D \<and> (of_char (b32_char n) :: nat) < 91) [0..<32]"
    by code_simp
  then show "b32_val (b32_char n) = Some n" "b32_char n \<noteq> CHR ''=''" "b32_char n \<noteq> CHR 0x0A" "b32_char n \<noteq> CHR 0x0D"
    "(of_char (b32_char n) :: nat) < 91"
    using assms by (auto simp: list_all_iff)
qed

lemma b32_digits_small:
  assumes "a < 256" "b < 256" "c < 256" "d < 256" "e < (256 :: nat)"
  shows "list_all (\<lambda>d. d < 32) (b32_digits [a, b, c, d, e])"
proof -
  have d: "a div 8 < 32" "b div 64 < 4" "c div 16 < 16" "d div 128 < 2" "e div 32 < 8" using assms by auto
  have m: "x mod 8 < 8" "x mod 2 < 2" "x mod 16 < 16" "x mod 4 < 4" for x :: nat by simp_all
  have "a mod 8 * 4 + b div 64 < 32" using d(2) m(1) [of a] by linarith
  moreover have "b mod 2 * 16 + c div 16 < 32" using d(3) m(2) [of b] by linarith
  moreover have "c mod 16 * 2 + d div 128 < 32" using d(4) m(3) [of c] by linarith
  moreover have "d mod 4 * 8 + e div 32 < 32" using d(5) m(4) [of d] by linarith
  moreover have "x mod 32 < 32" for x :: nat by simp
  ultimately show ?thesis unfolding b32_digits_five using d(1) by (simp only: list.pred_inject simp_thms)
qed

lemma b32_quantum_digits:
  "list_all (\<lambda>d. d < 32) ds \<Longrightarrow> length acc + length ds = 8 \<Longrightarrow>
   b32_quantum acc (map b32_char ds @ r) = Some (acc @ ds, False, r)"
proof (induction ds arbitrary: acc)
  case Nil
  then show ?case by (cases r) auto
next
  case (Cons d ds)
  then show ?case by (simp add: b32_char_props)
qed

lemma b32_encode_five:
  "b32_encode (a # b # c # d # e # s) =
     map b32_char (b32_digits [of_char a, of_char b, of_char c, of_char d, of_char e]) @ b32_encode s"
proof -
  let ?l = "a # b # c # d # e # s"
  have parts: "take 5 ?l = [a, b, c, d, e]" "drop 5 ?l = s" "min 5 (length ?l) = 5" "b32_width 5 = 8" "?l \<noteq> []"
    by (simp_all add: b32_width_def)
  have "length (b32_digits [of_char a, of_char b, of_char c, of_char d, of_char e]) = 8" by (simp add: b32_digits_five)
  then show ?thesis
    by (subst b32_encode.simps, simp only: parts Let_def if_False list.map take_all order_refl) simp
qed

lemma of_char_totp_byte: "(of_char (c :: char) :: nat) < 256"
proof -
  have "(of_char c :: nat) \<in> range of_char" by simp
  then show ?thesis by (simp only: range_nat_of_char atLeastLessThan_iff)
qed

definition whole_groups :: "string \<Rightarrow> bool" where "whole_groups s \<longleftrightarrow> length s mod 5 = 0"

lemma whole_groups_induct [consumes 1, case_names Nil Group]:
  assumes "whole_groups s" and "P []"
    and "\<And>a b c d e s. whole_groups s \<Longrightarrow> P s \<Longrightarrow> P (a # b # c # d # e # s)"
  shows "P s"
  using assms(1)
proof (induction s rule: length_induct)
  case (1 s)
  show ?case
  proof (cases "s = []")
    case False
    then have "5 \<le> length s" using 1(2) by (cases "length s < 5") (auto simp: whole_groups_def)
    then obtain a b c d e r where s: "s = a # b # c # d # e # r"
      by (auto simp: Suc_le_length_iff numeral_eq_Suc)
    have "whole_groups r" using 1(2) s by (simp add: whole_groups_def)
    moreover have "P r" using 1(1) s calculation by simp
    ultimately show ?thesis using assms(3) s by blast
  qed (use assms(2) in simp)
qed

definition plain32 :: "char \<Rightarrow> bool" where
  "plain32 c \<longleftrightarrow> c \<noteq> CHR ''='' \<and> c \<noteq> CHR 0x0A \<and> c \<noteq> CHR 0x0D \<and> (of_char c :: nat) < 91"

lemma digits_plain: "list_all (\<lambda>d. d < 32) ds \<Longrightarrow> list_all plain32 (map b32_char ds)"
  by (induction ds) (simp_all add: plain32_def b32_char_props)

lemma b32_encode_whole:
  assumes "whole_groups s"
  shows "list_all plain32 (b32_encode s) \<and> length (b32_encode s) mod 8 = 0 \<and> b32_groups (b32_encode s) = Some (map of_char s)"
  using assms
proof (induction rule: whole_groups_induct)
  case Nil
  then show ?case by (simp add: b32_encode.simps b32_groups.simps)
next
  case (Group a b c d e s)
  let ?bs = "[of_char a, of_char b, of_char c, of_char d, of_char e] :: nat list"
  note small = b32_digits_small [OF of_char_totp_byte of_char_totp_byte of_char_totp_byte of_char_totp_byte of_char_totp_byte, of a b c d e]
  have len: "length (b32_digits ?bs) = 8" by (simp add: b32_digits_five)
  then have ne: "b32_digits ?bs \<noteq> []" by force
  have q: "b32_quantum [] (map b32_char (b32_digits ?bs) @ r) = Some (b32_digits ?bs, False, r)" for r
    using b32_quantum_digits [OF small, of "[]"] len by simp
  have "b32_groups (map b32_char (b32_digits ?bs) @ b32_encode s) = Some (?bs @ map of_char s)"
    using Group.IH len ne
    by (subst b32_groups.simps)
      (simp add: q b32_count_def b32_bytes_digits [OF of_char_totp_byte of_char_totp_byte of_char_totp_byte of_char_totp_byte of_char_totp_byte] Let_def)
  then show ?case using Group.IH digits_plain [OF small] len by (simp add: b32_encode_five)
qed

lemma to_upper_plain: "list_all plain32 s \<Longrightarrow> to_upper s = s"
proof (induction s)
  case Nil
  then show ?case by (simp add: to_upper.simps)
next
  case (Cons c s)
  then have "(of_char c :: nat) < 91" by (simp add: plain32_def)
  then have "c \<noteq> CHR 0xC4" "c \<noteq> CHR 0xC5" by auto
  then show ?case using Cons by (subst to_upper.simps) (simp add: plain32_def Let_def)
qed

lemma drop_no_padding: "list_all plain32 s \<Longrightarrow> dropWhile (\<lambda>c. c = CHR ''='') s = s"
  by (cases s) (auto simp: plain32_def)

lemma secret_key:
  assumes "whole_groups raw" and "GenerateTOTPSecret (Some raw) = Some secret"
  shows "b32_decode (to_upper secret @ replicate ((8 - length secret mod 8) mod 8) (CHR ''='')) = Some raw"
proof -
  note w = b32_encode_whole [OF assms(1)]
  have s: "secret = b32_encode raw"
    using assms(2) w drop_no_padding [of "List.rev (b32_encode raw)"] by (auto simp: GenerateTOTPSecret_def)
  have "filter (\<lambda>c. c \<noteq> CHR 0x0A \<and> c \<noteq> CHR 0x0D) (b32_encode raw) = b32_encode raw"
    using w by (auto simp: filter_id_conv list_all_iff plain32_def)
  then show ?thesis using w by (simp add: s to_upper_plain b32_decode_def comp_def)
qed

section \<open>Codes are those of RFC 6238\<close>

text \<open>The standard, in numbers: the step counter as eight bytes, the truncated authentication code as a number,
  and its last six digits.\<close>

definition rfc_counter :: "nat \<Rightarrow> string" where
  "rfc_counter step = map (\<lambda>i. char_of (step div 256 ^ (7 - i) mod 256)) [0..<8]"

definition rfc_truncate :: "string \<Rightarrow> nat" where
  "rfc_truncate mac =
    (let byte = (\<lambda>i. of_char (mac ! i) :: nat); off = byte (length mac - 1) mod 16
     in (byte off mod 128 * 2 ^ 24 + byte (off + 1) * 2 ^ 16 + byte (off + 2) * 2 ^ 8 + byte (off + 3)) mod 10 ^ 6)"

definition rfc_code :: "hmac \<Rightarrow> string \<Rightarrow> nat \<Rightarrow> string" where
  "rfc_code hmac key step = pad 6 (rfc_truncate (hmac key (rfc_counter step)))"

lemma or_shift_add:
  fixes a b :: "32 word"
  assumes "b = take_bit n b"
  shows "push_bit n a OR b = push_bit n a + b"
proof -
  have "push_bit n a AND take_bit n b = 0"
    by (rule bit_word_eqI) (auto simp: bit_simps)
  then show ?thesis using assms word_plus_and_or [of "push_bit n a" b] by simp
qed

lemma and_low: "w AND 0xFF = take_bit 8 w" "w AND 0x7F = take_bit 7 w" "w AND 0x0F = take_bit 4 (w :: 'a::len word)"
  by (simp_all add: take_bit_eq_mask mask_eq_exp_minus_1)

lemma big_endian_rfc:
  assumes "n < 2 ^ 64"
  shows "big_endian (of_int (int n)) = rfc_counter n"
proof -
  have "unat (of_nat n :: 64 word) = n" using assms by (simp add: unat_of_nat)
  then have "unat (drop_bit (8 * (7 - i)) (of_nat n :: 64 word) AND 0xFF) = n div 256 ^ (7 - i) mod 256" for i
    by (simp only: and_low unsigned_take_bit_eq unat_drop_bit_eq) (simp add: take_bit_eq_mod drop_bit_eq_div power_mult)
  then show ?thesis by (simp add: big_endian_def rfc_counter_def)
qed

lemma byte_word: "(a :: nat) < 256 \<Longrightarrow> (of_nat a :: 32 word) AND 0xFF = of_nat a"
  "(of_nat a :: 32 word) AND 0x7F = of_nat (a mod 128)" "a < 256 \<Longrightarrow> unat ((of_nat a :: 32 word) AND 0x0F) = a mod 16"
  by (simp_all only: and_low take_bit_of_nat, simp_all add: take_bit_eq_mod unat_of_nat)

lemma or_bytes:
  assumes "a < 128" "b < 256" "c < 256" "d < (256 :: nat)"
  shows "unat (push_bit 24 (of_nat a :: 32 word) OR push_bit 16 (of_nat b) OR push_bit 8 (of_nat c) OR of_nat d) =
    a * 2 ^ 24 + b * 2 ^ 16 + c * 2 ^ 8 + d"
proof -
  have below: "(of_nat n :: 32 word) = take_bit k (of_nat n)" if "n < 2 ^ k" for n k
    using that by (metis take_bit_of_nat take_bit_nat_eq_self)
  have shift: "push_bit k (of_nat n :: 32 word) = of_nat (n * 2 ^ k)" for n k
    by (simp add: push_bit_of_nat push_bit_eq_mult)
  have 1: "push_bit 8 (of_nat c :: 32 word) OR of_nat d = of_nat (c * 2 ^ 8 + d)"
    by (subst or_shift_add [OF below]) (use assms in \<open>simp_all add: shift\<close>)
  have 2: "push_bit 16 (of_nat b :: 32 word) OR of_nat (c * 2 ^ 8 + d) = of_nat (b * 2 ^ 16 + (c * 2 ^ 8 + d))"
    by (subst or_shift_add [OF below]) (use assms in \<open>simp_all add: shift\<close>)
  have 3: "push_bit 24 (of_nat a :: 32 word) OR of_nat (b * 2 ^ 16 + (c * 2 ^ 8 + d)) =
      of_nat (a * 2 ^ 24 + (b * 2 ^ 16 + (c * 2 ^ 8 + d)))"
    by (subst or_shift_add [OF below]) (use assms in \<open>simp_all add: shift\<close>)
  have "a * 2 ^ 24 + (b * 2 ^ 16 + (c * 2 ^ 8 + d)) < 2 ^ 32" using assms by simp
  then show ?thesis unfolding 1 2 3 unat_of_nat by simp
qed

lemma truncate_rfc: "truncate_mac mac = rfc_truncate mac"
  unfolding truncate_mac_def rfc_truncate_def Let_def byte_word(1) [OF of_char_totp_byte] byte_word(2)
    byte_word(3) [OF of_char_totp_byte]
  by (subst or_bytes) (simp_all add: of_char_totp_byte)

lemma code_rfc:
  assumes "b32_decode (to_upper secret @ replicate ((8 - length secret mod 8) mod 8) (CHR ''='')) = Some key"
    and "0 \<le> time_unix now" and "time_unix now < 2 ^ 64"
  shows "GenerateTOTPCode hmac secret now = rfc_code hmac key (nat (time_unix now div 30))"
proof -
  define q where "q = nat (time_unix now div 30)"
  have "time_unix now sdiv 30 = int q"
    using assms(2) by (cases "time_unix now = 0") (simp_all add: signed_divide_int_def q_def)
  moreover have "q < 2 ^ 64" using assms(2,3) by (simp add: nat_less_iff q_def)
  ultimately have "big_endian (of_int (time_unix now sdiv 30)) = rfc_counter q"
    by (simp only: big_endian_rfc)
  then show ?thesis using assms(1) by (simp add: GenerateTOTPCode_def rfc_code_def truncate_rfc q_def)
qed

lemma three_steps: "1 \<le> s \<Longrightarrow> {s - 1 .. s + 1} = {s - 1, s, s + (1 :: nat)}"
  by auto

lemma three_codes:
  assumes n: "nat (u + -1) = s - 1" "nat (u + 1) = s + 1" "nat u = s"
    and gen: "\<And>k. k \<in> {-1, 0, 1} \<Longrightarrow> G (now + k * 30 * second) = R (nat (u + k))" and ne: "\<And>j. R j \<noteq> []"
  shows "list_ex (\<lambda>k. let g = G (now + k * 30 * second) in g \<noteq> [] \<and> g = code) [-1, 0, 1] \<longleftrightarrow>
      code \<in> R ` {s - 1, s, s + 1}"
proof -
  have g: "G (now + -1 * 30 * second) = R (s - 1)" "G (now + 0 * 30 * second) = R s" "G (now + 1 * 30 * second) = R (s + 1)"
    using gen [of "-1"] gen [of 0] gen [of 1] n by simp_all
  show ?thesis unfolding list_ex_iff list.set Let_def using g ne by (simp add: g) metis
qed

lemma pad_digits: "list_all is_digit (pad w n)"
proof -
  have "list_all (\<lambda>m. is_digit (digit_char m)) [0..<10]" by code_simp
  then have "is_digit (digit_char (m mod 10))" for m by (auto simp: list_all_iff)
  then show ?thesis by (induction w arbitrary: n) simp_all
qed

lemma unix_step:
  "time_unix (now + k * 30 * second) = time_unix now + k * 30"
proof -
  have "(now + k * 30 * second) div 10 ^ 9 = now div 10 ^ 9 + k * 30"
    by (simp add: second_def)
  then show ?thesis by (simp add: time_unix_def seconds_of_def)
qed

text \<open>C26: what the user types is accepted exactly if it is, but for white space around it, the RFC 6238 code of the
  secret drawn for this user, for the 30-second step of the controller's clock or one of the two
  beside it.\<close>

theorem totp_is_rfc6238:
  assumes "GenerateTOTPSecret (Some raw) = Some secret" and "length raw = 20"
    and "30 \<le> time_unix now" and "time_unix now < 2 ^ 63"
  shows "VerifyTOTP hmac secret typed now \<longleftrightarrow>
    trim_space typed \<in> rfc_code hmac raw ` {nat (time_unix now div 30) - 1 .. nat (time_unix now div 30) + 1}"
proof -
  let ?s = "nat (time_unix now div 30)" and ?code = "trim_space typed"
  have key: "b32_decode (to_upper secret @ replicate ((8 - length secret mod 8) mod 8) (CHR ''='')) = Some raw"
    by (rule secret_key [OF _ assms(1)]) (simp add: whole_groups_def assms(2))
  have gen: "GenerateTOTPCode hmac secret (now + k * 30 * second) = rfc_code hmac raw (nat (time_unix now div 30 + k))"
    if "k \<in> {-1, 0, 1}" for k
  proof -
    have "0 \<le> time_unix (now + k * 30 * second)" "time_unix (now + k * 30 * second) < 2 ^ 64"
      using that assms(3,4) unfolding unix_step by auto
    from code_rfc [OF key this, of hmac] show ?thesis by (simp add: unix_step add.commute)
  qed
  have s: "1 \<le> time_unix now div 30" using assms(3) by linarith
  then have n: "nat (time_unix now div 30 + -1) = ?s - 1" "nat (time_unix now div 30 + 1) = ?s + 1" by linarith+
  have ne: "rfc_code hmac raw j \<noteq> []" "length (rfc_code hmac raw j) = 6" "list_all is_digit (rfc_code hmac raw j)" for j
    using pad_length [of 6] by (simp_all add: rfc_code_def pad_digits flip: length_0_conv)
  have iv: "{?s - 1 .. ?s + 1} = {?s - 1, ?s, ?s + 1}" by (rule three_steps) (use s in linarith)
  have "list_ex (\<lambda>k. let g = GenerateTOTPCode hmac secret (now + k * 30 * second) in g \<noteq> [] \<and> g = ?code) [-1, 0, 1] \<longleftrightarrow>
      ?code \<in> rfc_code hmac raw ` {?s - 1, ?s, ?s + 1}"
    by (rule three_codes [where u = "time_unix now div 30" and s = ?s and G = "GenerateTOTPCode hmac secret"
          and R = "rfc_code hmac raw" and now = now]) (fact n refl gen ne(1))+
  moreover have "c \<in> rfc_code hmac raw ` S \<Longrightarrow> length c = 6 \<and> list_all is_digit c" for c S using ne(2,3) by blast
  moreover have "VerifyTOTP hmac secret typed now \<longleftrightarrow> length ?code = 6 \<and> list_all is_digit ?code \<and>
      list_ex (\<lambda>k. let g = GenerateTOTPCode hmac secret (now + k * 30 * second) in g \<noteq> [] \<and> g = ?code) [-1, 0, 1]"
    unfolding VerifyTOTP_def by (simp only: Let_def split: if_split) blast
  ultimately show ?thesis unfolding iv by blast
qed

text \<open>A code that shows the counter.\<close>

definition toy_hmac :: hmac where
  "toy_hmac key m = drop 4 m @ replicate 16 (CHR 0x00)"

theorem totp_is_rfc6238_witness:
  "\<exists>secret. GenerateTOTPSecret (Some (replicate 20 CHR ''k'')) = Some secret \<and>
     VerifyTOTP toy_hmac secret '' 000003 '' (unix_time 65)"
proof -
  obtain secret where s: "GenerateTOTPSecret (Some (replicate 20 CHR ''k'')) = Some secret"
    by (simp add: GenerateTOTPSecret_def)
  have t: "time_unix (unix_time 65) = 65" by (simp add: time_unix_def unix_time_def seconds_of_def)
  have z: "char_of (0 :: nat) = CHR 0x00" "char_of (3 :: nat) = CHR 0x03" by code_simp+
  have "rfc_counter 3 = [CHR 0x00, CHR 0x00, CHR 0x00, CHR 0x00, CHR 0x00, CHR 0x00, CHR 0x00, CHR 0x03]"
    by (simp add: rfc_counter_def upt_rec z)
  then have "rfc_code toy_hmac (replicate 20 CHR ''k'') 3 = ''000003''"
    by (simp add: rfc_code_def rfc_truncate_def toy_hmac_def pad_numeral digit_chars)
  moreover have "trim_space '' 000003 '' = ''000003''" by code_simp
  ultimately have "trim_space '' 000003 '' \<in> rfc_code toy_hmac (replicate 20 CHR ''k'') ` {2 - 1 .. 2 + 1}"
    by (intro image_eqI [of _ _ 3]) simp_all
  with totp_is_rfc6238 [OF s, of "unix_time 65" toy_hmac "'' 000003 ''"] s show ?thesis
    unfolding t by simp
qed

end
