(* ===== verification/Login.thy ===== *)
theory Login
  imports Guard Passwords Totp StoreHistory
begin

text \<open>
  The requests by which people identify themselves, internal/controller/server.go: the set-up of the first account,
  logging in and out, and switching the one-time code on and off.

  The state is the database and the limiter.  What the random source, the JSON decoder and JSON encoder
  answer is part of the environment; \<open>le_detail\<close> is the encoded detail of the audit event.
\<close>

record login_env =
  le_guard :: guard_env
  le_web :: web_config
  le_kdf :: kdf
  le_hmac :: hmac
  le_lifetime :: duration
  le_salt :: "string option"
  le_session :: "string option"
  le_totp :: "string option"
  le_nonce :: "string option"
  le_detail :: "string option"
  le_text :: "store_error \<Rightarrow> string"

record web_state =
  ws_db :: db
  ws_limiter :: limiter

definition maxUsernameBytes :: nat where "maxUsernameBytes = 64"

definition dummyPasswordHash :: string where
  "dummyPasswordHash =
     ''pbkdf2-sha256$210000$AAAAAAAAAAAAAAAAAAAAAA$AAAAAAAAAAAAAAAAAAAAAAAAAAAAAAAAAAAAAAAAAAA''"

definition validateUsername :: "string \<Rightarrow> string option" where
  "validateUsername name = first_err [
     fail_if (name = []) ''username is required'',
     fail_if (\<not> valid_utf8 name \<or> length name > maxUsernameBytes) ''username is invalid'',
     fail_if (has_control name) ''username is invalid'']"

text \<open>The callers ignore the error of AddAudit.\<close>

definition audit :: "login_env \<Rightarrow> string \<Rightarrow> string \<Rightarrow> string \<Rightarrow> db \<Rightarrow> db" where
  "audit le actor action target d =
    (case AddAudit (gd_now (le_guard le)) actor action target (le_detail le) d of Inl _ \<Rightarrow> d | Inr d' \<Rightarrow> d')"

abbreviation le_now :: "login_env \<Rightarrow> time" where "le_now le \<equiv> gd_now (le_guard le)"
abbreviation le_sha :: "login_env \<Rightarrow> string \<Rightarrow> string" where "le_sha le \<equiv> gd_sha256 (le_guard le)"
abbreviation le_vault :: "login_env \<Rightarrow> vault" where "le_vault le \<equiv> gd_vault (le_guard le)"
abbreviation same_origin :: "login_env \<Rightarrow> http_request \<Rightarrow> db \<Rightarrow> bool" where
  "same_origin le r d \<equiv> requireSameOrigin (le_guard le) (le_web le) r d"

definition no_random :: "'a reply" where
  "no_random = Refused StatusInternalServerError ''random source failed''"

section \<open>Setting up\<close>

definition handleSetupStatus :: "login_env \<Rightarrow> db \<Rightarrow> bool \<times> string" where
  "handleSetupStatus le d = (UserCount d = 0, controllerPublicURL (le_guard le) (le_web le) d)"

definition password_text :: "password_error \<Rightarrow> string" where
  "password_text e = (case e of
     PasswordTooShort \<Rightarrow> ''password must be at least 12 characters'' | PasswordTooLong \<Rightarrow> ''password is too long''
   | NoRandom \<Rightarrow> ''random source failed'' | KdfFailed \<Rightarrow> ''key derivation failed'')"

text \<open>\<open>body\<close> is the user name and the password of the request, or the error of readJSON.\<close>

definition handleSetup ::
  "login_env \<Rightarrow> http_request \<Rightarrow> string + (string \<times> string) \<Rightarrow> web_state \<Rightarrow> (user \<times> cookie) reply \<times> web_state" where
  "handleSetup le r body s =
    (let d = ws_db s; key = ''setup:'' @ loginIPLimitKey (le_guard le) (le_web le) r in
     if \<not> same_origin le r d then (cross_origin, s)
     else if UserCount d > 0 then (Refused StatusConflict (le_text le ErrSetupComplete), s)
     else case Allow (le_now le) key (ws_limiter s) of
       (False, l) \<Rightarrow> (Refused StatusTooManyRequests ''too many setup attempts'', s\<lparr> ws_limiter := l \<rparr>)
     | (True, l) \<Rightarrow>
       (let s1 = s\<lparr> ws_limiter := Fail (le_now le) key l \<rparr> in
        case body of Inl e \<Rightarrow> (Refused StatusBadRequest e, s1)
        | Inr (raw, password) \<Rightarrow>
          (let name = trim_space raw in
           case validateUsername name of Some e \<Rightarrow> (Refused StatusBadRequest e, s1)
           | None \<Rightarrow>
             (case HashPassword (le_kdf le) (le_salt le) password of
                Inl e \<Rightarrow> (Refused StatusBadRequest (password_text e), s1)
              | Inr hash \<Rightarrow>
                (case CreateInitialUser (le_now le) name hash d of
                   Inl e \<Rightarrow> (Refused (if e = ErrSetupComplete then StatusConflict else StatusBadRequest) (le_text le e), s1)
                 | Inr (u, d1) \<Rightarrow>
                   (let s2 = \<lparr> ws_db = audit le (us_username u) ''setup.complete'' ''controller'' d1,
                              ws_limiter = Success key (ws_limiter s1) \<rparr> in
                    case NewSession (le_now le) (le_session le) (us_id u) (us_username u) (le_lifetime le) of
                      None \<Rightarrow> (no_random, s2)
                    | Some se \<Rightarrow>
                        (let d2 = SaveSession (le_sha le) (le_now le) se (ws_db s2)
                         in (Answer (u, setSessionCookie (le_guard le) (le_web le) r d2 se), s2\<lparr> ws_db := d2 \<rparr>))))))))"

section \<open>Logging in\<close>

definition bad_login :: "'a reply" where
  "bad_login = Refused StatusUnauthorized ''invalid username or password''"

text \<open>The checks of the password and the code; a user who does not exist is checked against the dummy hash.\<close>

definition check_credentials :: "login_env \<Rightarrow> string \<Rightarrow> string \<Rightarrow> string \<Rightarrow> db \<Rightarrow> user option" where
  "check_credentials le name password code d =
    (let found = FindUserByUsername name d;
         hash = (case found of Inl _ \<Rightarrow> dummyPasswordHash | Inr u \<Rightarrow> us_password_hash u);
         ok = VerifyPassword (le_kdf le) hash password
     in case found of Inl _ \<Rightarrow> None
        | Inr u \<Rightarrow>
            if \<not> ok then None
            else if us_totp_enabled u then
              (case TOTPSecret (le_vault le) (us_id u) d of
                 Inl _ \<Rightarrow> None
               | Inr (secret, _) \<Rightarrow> if VerifyTOTP (le_hmac le) secret code (le_now le) then Some u else None)
            else Some u)"

definition handleLogin ::
  "login_env \<Rightarrow> http_request \<Rightarrow> string + (string \<times> string \<times> string) \<Rightarrow> web_state \<Rightarrow> (user \<times> cookie) reply \<times> web_state" where
  "handleLogin le r body s =
    (let d = ws_db s in
     if \<not> same_origin le r d then (cross_origin, s)
     else case body of Inl e \<Rightarrow> (Refused StatusBadRequest e, s)
     | Inr (raw, password, code) \<Rightarrow>
       (let name = trim_space raw; keys = loginLimitKeys (le_guard le) (le_web le) r name in
        case allowLimiterKeys (le_now le) keys (ws_limiter s) of
          (False, l) \<Rightarrow> (Refused StatusTooManyRequests ''too many failed login attempts'', s\<lparr> ws_limiter := l \<rparr>)
        | (True, l) \<Rightarrow>
          (let failed = s\<lparr> ws_limiter := failLimiterKeys (le_now le) keys l \<rparr> in
           if validateUsername name \<noteq> None then (bad_login, failed)
           else case check_credentials le name password code d of
             None \<Rightarrow> (bad_login, failed)
           | Some u \<Rightarrow>
             (case NewSession (le_now le) (le_session le) (us_id u) (us_username u) (le_lifetime le) of
                None \<Rightarrow> (no_random, s\<lparr> ws_limiter := l \<rparr>)
              | Some se \<Rightarrow>
                  (let d1 = SaveSession (le_sha le) (le_now le) se d;
                       cookie = setSessionCookie (le_guard le) (le_web le) r d1 se
                   in (Answer (u, cookie),
                       \<lparr> ws_db = audit le (us_username u) ''auth.login'' ''controller'' d1,
                         ws_limiter = successLimiterKeys keys l \<rparr>))))))"

section \<open>One-time codes and logging out\<close>

text \<open>These handlers run behind withAuth, for its session.\<close>

definition handleTOTPSetup :: "login_env \<Rightarrow> session \<Rightarrow> db \<Rightarrow> (string \<times> string) reply \<times> db" where
  "handleTOTPSetup le se d =
    (case GenerateTOTPSecret (le_totp le) of
       None \<Rightarrow> (no_random, d)
     | Some secret \<Rightarrow>
       (case SetTOTPSecret (le_vault le) (le_nonce le) (ses_user se) secret False d of
          Inl e \<Rightarrow> (Refused StatusInternalServerError (le_text le e), d)
        | Inr d' \<Rightarrow> (Answer (secret, TOTPURL ''NyaRelay'' (ses_username se) secret), d')))"

definition handleTOTPEnable :: "login_env \<Rightarrow> session \<Rightarrow> string + string \<Rightarrow> db \<Rightarrow> unit reply \<times> db" where
  "handleTOTPEnable le se body d =
    (case body of Inl e \<Rightarrow> (Refused StatusBadRequest e, d)
     | Inr code \<Rightarrow>
       (case TOTPSecret (le_vault le) (ses_user se) d of
          Inl e \<Rightarrow> (Refused StatusInternalServerError (le_text le e), d)
        | Inr (secret, _) \<Rightarrow>
            if secret = [] \<or> \<not> VerifyTOTP (le_hmac le) secret code (le_now le) then
              (Refused StatusBadRequest ''invalid totp code'', d)
            else (case SetTOTPSecret (le_vault le) (le_nonce le) (ses_user se) secret True d of
                Inl e \<Rightarrow> (Refused StatusInternalServerError (le_text le e), d)
              | Inr d' \<Rightarrow> (Answer (), audit le (ses_username se) ''totp.enable'' ''user'' d'))))"

definition handleTOTPDisable :: "login_env \<Rightarrow> session \<Rightarrow> db \<Rightarrow> unit reply \<times> db" where
  "handleTOTPDisable le se d =
    (case SetTOTPSecret (le_vault le) (le_nonce le) (ses_user se) [] False d of
       Inl e \<Rightarrow> (Refused StatusInternalServerError (le_text le e), d)
     | Inr d' \<Rightarrow> (Answer (), audit le (ses_username se) ''totp.disable'' ''user'' d'))"

text \<open>The answer clears the cookie of that name, which is marked secure as the cookie of a login would be.\<close>

definition handleLogout :: "login_env \<Rightarrow> http_request \<Rightarrow> session \<Rightarrow> db \<Rightarrow> (string \<times> bool) reply \<times> db" where
  "handleLogout le r se d =
    (let d' = DeleteSession (le_sha le) (ses_id se) d
     in (Answer (sessionCookieName, sessionCookieSecure (le_guard le) (le_web le) r d'), d'))"

definition handleMe :: "session \<Rightarrow> int \<times> string" where
  "handleMe se = (ses_user se, ses_username se)"

section \<open>Lemmas\<close>

lemma audit_keeps [simp]:
  "db_users (audit le a b c d) = db_users d" "db_sessions (audit le a b c d) = db_sessions d"
  "db_settings (audit le a b c d) = db_settings d"
  by (simp_all add: audit_def AddAudit_def Let_def split: option.split)

lemma SaveSession_keeps [simp]: "db_users (SaveSession sha now se d) = db_users d"
  by (simp add: SaveSession_def Let_def)

lemma Session_audit [simp]: "fst (Session sha now t (audit le a b c d)) = fst (Session sha now t d)"
  by (simp add: Session_def split: option.splits)

lemma check_credentials_Some:
  "check_credentials le name password code d = Some u \<longleftrightarrow>
     FindUserByUsername name d = Inr u \<and> VerifyPassword (le_kdf le) (us_password_hash u) password \<and>
     (us_totp_enabled u \<longrightarrow> (\<exists>secret en. TOTPSecret (le_vault le) (us_id u) d = Inr (secret, en) \<and>
        VerifyTOTP (le_hmac le) secret code (le_now le)))"
  by (auto simp: check_credentials_def Let_def split: sum.splits if_splits prod.splits)

lemma FindUser_row:
  "FindUserByUsername name d = Inr u \<Longrightarrow> \<exists>r\<in>set (db_users d). row_with ur_username name (db_users d) = Some r \<and>
     us_id u = ur_id r \<and> us_username u = ur_username r \<and> ur_username r = name \<and> us_password_hash u = ur_password_hash r \<and>
     us_totp_enabled u = ur_totp_enabled r"
  by (auto simp: FindUserByUsername_def dest!: row_with_Some split: option.splits)

lemma handleLogin_Answer:
  assumes "handleLogin le r body s = (Answer (u, c), s')"
  obtains raw password code l se where "body = Inr (raw, password, code)" "same_origin le r (ws_db s)"
    "allowLimiterKeys (le_now le) (loginLimitKeys (le_guard le) (le_web le) r (trim_space raw)) (ws_limiter s) = (True, l)"
    "check_credentials le (trim_space raw) password code (ws_db s) = Some u"
    "NewSession (le_now le) (le_session le) (us_id u) (us_username u) (le_lifetime le) = Some se"
    "c = setSessionCookie (le_guard le) (le_web le) r (SaveSession (le_sha le) (le_now le) se (ws_db s)) se"
    "s' = \<lparr> ws_db = audit le (us_username u) ''auth.login'' ''controller'' (SaveSession (le_sha le) (le_now le) se (ws_db s)),
       ws_limiter = successLimiterKeys (loginLimitKeys (le_guard le) (le_web le) r (trim_space raw)) l \<rparr>"
proof (cases body)
  case (Inl e)
  then show ?thesis using assms by (simp add: handleLogin_def cross_origin_def Let_def split: if_splits)
next
  case (Inr b)
  obtain raw password code where b: "b = (raw, password, code)" by (cases b)
  let ?keys = "loginLimitKeys (le_guard le) (le_web le) r (trim_space raw)"
  obtain ok l where a: "allowLimiterKeys (le_now le) ?keys (ws_limiter s) = (ok, l)" by fastforce
  have so: "same_origin le r (ws_db s)" and ok: "ok"
    and v: "validateUsername (trim_space raw) = None"
    using assms Inr b a by (auto simp: handleLogin_def cross_origin_def bad_login_def Let_def split: if_splits bool.splits)
  obtain u' where cr: "check_credentials le (trim_space raw) password code (ws_db s) = Some u'"
    using assms Inr b a so ok v by (auto simp: handleLogin_def bad_login_def Let_def split: option.splits)
  obtain se where se: "NewSession (le_now le) (le_session le) (us_id u') (us_username u') (le_lifetime le) = Some se"
    using assms Inr b a so ok v cr by (auto simp: handleLogin_def no_random_def Let_def split: option.splits)
  have "u' = u" "c = setSessionCookie (le_guard le) (le_web le) r (SaveSession (le_sha le) (le_now le) se (ws_db s)) se"
    "s' = \<lparr> ws_db = audit le (us_username u) ''auth.login'' ''controller'' (SaveSession (le_sha le) (le_now le) se (ws_db s)),
       ws_limiter = successLimiterKeys ?keys l \<rparr>"
    using assms Inr b a so ok v cr se by (auto simp: handleLogin_def Let_def)
  then show ?thesis using that [of raw password code l se] Inr b a so ok cr se by simp
qed

section \<open>What a login is\<close>

text \<open>C24: a login that succeeds was made from the controller's own pages with the password of the account and, if the
  account has one-time codes, a valid code; its cookie opens a session of that user, and of nobody else,
  until the second the session expires in, and the failures counted for the client are forgotten.  (As long as
  there are fewer than 10000 sessions that have not expired: a full table drops one for the new one.)\<close>

theorem login_opens_session:
  assumes login: "handleLogin le r body s = (Answer (u, c), s')"
    and table: "unique_by ssr_hash (db_sessions (ws_db s))"
      "length (delete_where (\<lambda>x. ssr_expires x \<le> time_unix (le_now le)) (db_sessions (ws_db s))) < maxSessionEntries"
    and users: "unique_by ur_id (db_users (ws_db s))" and later: "le_now le \<le> now"
  shows "(\<exists>raw password code. body = Inr (raw, password, code) \<and> us_username u = trim_space raw \<and>
      FindUserByUsername (trim_space raw) (ws_db s) = Inr u \<and>
      VerifyPassword (le_kdf le) (us_password_hash u) password \<and>
      (us_totp_enabled u \<longrightarrow> (\<exists>secret en. TOTPSecret (le_vault le) (us_id u) (ws_db s) = Inr (secret, en) \<and>
         VerifyTOTP (le_hmac le) secret code (le_now le))) \<and>
      (\<forall>k\<in>set (loginLimitKeys (le_guard le) (le_web le) r (trim_space raw)). map_of (ws_limiter s') k = None)) \<and>
    same_origin le r (ws_db s) \<and>
    (let until = unix_time (time_unix (le_now le + le_lifetime le)) in
     fst (Session (le_sha le) now (ck_value c) (ws_db s')) =
      (if now < until then Some \<lparr> ses_id = ck_value c, ses_user = us_id u, ses_username = us_username u, ses_expires = until \<rparr>
       else None))"
proof -
  from login obtain raw password code l se where p: "body = Inr (raw, password, code)" "same_origin le r (ws_db s)"
    "check_credentials le (trim_space raw) password code (ws_db s) = Some u"
    "NewSession (le_now le) (le_session le) (us_id u) (us_username u) (le_lifetime le) = Some se"
    "c = setSessionCookie (le_guard le) (le_web le) r (SaveSession (le_sha le) (le_now le) se (ws_db s)) se"
    "s' = \<lparr> ws_db = audit le (us_username u) ''auth.login'' ''controller'' (SaveSession (le_sha le) (le_now le) se (ws_db s)),
       ws_limiter = successLimiterKeys (loginLimitKeys (le_guard le) (le_web le) r (trim_space raw)) l \<rparr>"
    by (rule handleLogin_Answer)
  have cr: "FindUserByUsername (trim_space raw) (ws_db s) = Inr u" "VerifyPassword (le_kdf le) (us_password_hash u) password"
    "us_totp_enabled u \<longrightarrow> (\<exists>secret en. TOTPSecret (le_vault le) (us_id u) (ws_db s) = Inr (secret, en) \<and>
         VerifyTOTP (le_hmac le) secret code (le_now le))"
    using p(3) by (auto simp: check_credentials_Some)
  obtain row where row: "row \<in> set (db_users (ws_db s))" "us_id u = ur_id row" "us_username u = ur_username row"
    "ur_username row = trim_space raw"
    using FindUser_row [OF cr(1)] by blast
  have ses: "ses_user se = us_id u" "ses_username se = us_username u" "ses_expires se = le_now le + le_lifetime le"
    "ck_value c = ses_id se"
    using p(4,5) by (auto simp: NewSession_def setSessionCookie_def)
  have "row_with ur_id (ses_user se) (db_users (ws_db s)) = Some row"
    using row ses(1) by (simp add: row_with_unique [OF users])
  from session_lookup [OF table _ this later, of "le_sha le" "ses_id se"] ses row
  have "fst (Session (le_sha le) now (ck_value c) (ws_db s')) =
      (if now < unix_time (time_unix (le_now le + le_lifetime le))
       then Some \<lparr> ses_id = ck_value c, ses_user = us_id u, ses_username = us_username u,
              ses_expires = unix_time (time_unix (le_now le + le_lifetime le)) \<rparr>
       else None)"
    by (cases se) (simp add: p(6))
  moreover have "us_username u = trim_space raw" using row by simp
  ultimately show ?thesis using p(1,2,6) cr map_of_Success by (simp add: Let_def)
qed

text \<open>a login that is refused changes nothing but the limiter: no session comes into being, and wrong credentials
  (whatever is wrong with them, the answer is the same) count once for the address and once for the
  pair of account and address.\<close>

theorem login_refused:
  assumes "handleLogin le r body s = (Refused code msg, s')"
  shows "ws_db s' = ws_db s \<and>
    (code = StatusUnauthorized \<longrightarrow> msg = ''invalid username or password'' \<and>
      (\<exists>raw password otp. body = Inr (raw, password, otp) \<and>
        (let keys = loginLimitKeys (le_guard le) (le_web le) r (trim_space raw)
         in ws_limiter s' = failLimiterKeys (le_now le) keys (snd (allowLimiterKeys (le_now le) keys (ws_limiter s))))))"
proof (cases body)
  case (Inl e)
  then show ?thesis
    using assms by (auto simp: handleLogin_def cross_origin_def status_defs Let_def split: if_splits)
next
  case (Inr b)
  obtain raw password otp where b: "b = (raw, password, otp)" by (cases b)
  obtain ok l where a: "allowLimiterKeys (le_now le)
      (loginLimitKeys (le_guard le) (le_web le) r (trim_space raw)) (ws_limiter s) = (ok, l)" by fastforce
  show ?thesis
    using assms Inr b a
    by (auto simp: handleLogin_def cross_origin_def bad_login_def no_random_def status_defs Let_def
        split: if_splits bool.splits option.splits)
qed

lemma handleSetup_Answer:
  assumes "handleSetup le r body s = (Answer (u, c), s')"
  obtains raw password hash d1 se where "body = Inr (raw, password)" "same_origin le r (ws_db s)" "db_users (ws_db s) = []"
    "validateUsername (trim_space raw) = None" "HashPassword (le_kdf le) (le_salt le) password = Inr hash"
    "CreateInitialUser (le_now le) (trim_space raw) hash (ws_db s) = Inr (u, d1)"
    "ws_db s' = SaveSession (le_sha le) (le_now le) se (audit le (us_username u) ''setup.complete'' ''controller'' d1)"
proof (cases body)
  case (Inl e)
  then show ?thesis
    using assms by (auto simp: handleSetup_def cross_origin_def Let_def split: if_splits bool.splits prod.splits)
next
  case (Inr b)
  obtain raw password where b: "b = (raw, password)" by (cases b)
  let ?key = "''setup:'' @ loginIPLimitKey (le_guard le) (le_web le) r"
  obtain ok l where a: "Allow (le_now le) ?key (ws_limiter s) = (ok, l)" by fastforce
  have 1: "same_origin le r (ws_db s)" "\<not> UserCount (ws_db s) > 0" "ok" "validateUsername (trim_space raw) = None"
    using assms Inr b a by (auto simp: handleSetup_def cross_origin_def Let_def split: if_splits bool.splits option.splits)
  obtain hash where h: "HashPassword (le_kdf le) (le_salt le) password = Inr hash"
    using assms Inr b a 1 by (auto simp: handleSetup_def Let_def split: sum.splits)
  obtain u' d1 where cu: "CreateInitialUser (le_now le) (trim_space raw) hash (ws_db s) = Inr (u', d1)"
    using assms Inr b a 1 h by (auto simp: handleSetup_def Let_def split: sum.splits)
  obtain se where se: "NewSession (le_now le) (le_session le) (us_id u') (us_username u') (le_lifetime le) = Some se"
    using assms Inr b a 1 h cu by (auto simp: handleSetup_def no_random_def Let_def split: option.splits)
  have "u' = u" "ws_db s' = SaveSession (le_sha le) (le_now le) se (audit le (us_username u) ''setup.complete'' ''controller'' d1)"
    using assms Inr b a 1 h cu se by (auto simp: handleSetup_def Let_def)
  then show ?thesis using that [of raw password hash d1 se] Inr b 1 h cu by (simp add: UserCount_def)
qed

text \<open>C25: the set-up works once: it makes the first and only account, with the name and password given, which then can
  log in from the controller's pages; and while any account exists every set-up request is refused and
  changes nothing.\<close>

theorem setup_once:
  assumes made: "handleSetup le r (Inr (raw, password)) s = (Answer (u, c), s')"
    and kdf: "le_salt le = Some salt" "length salt = saltBytes"
      "\<And>p n. le_kdf le p salt pbkdf2Iterations n \<noteq> None \<Longrightarrow> length (the (le_kdf le p salt pbkdf2Iterations n)) = n"
    and client: "le_kdf le2 = le_kdf le" "same_origin le2 r2 (ws_db s')" "le_session le2 = Some token"
      "fst (allowLimiterKeys (le_now le2) (loginLimitKeys (le_guard le2) (le_web le2) r2 (trim_space raw)) (ws_limiter s'))"
  shows "db_users (ws_db s) = [] \<and> map ur_username (db_users (ws_db s')) = [trim_space raw] \<and>
    (\<exists>c2 s2. handleLogin le2 r2 (Inr (raw, password, code)) s' = (Answer (u, c2), s2)) \<and>
    (\<forall>le3 r3 body3 s3. db_users (ws_db s3) \<noteq> [] \<longrightarrow> (\<exists>e msg. handleSetup le3 r3 body3 s3 = (Refused e msg, s3)))"
proof -
  from made obtain raw' password' hash d1 se where p: "Inr (raw, password) = (Inr (raw', password') :: string + _)"
    "db_users (ws_db s) = []" "validateUsername (trim_space raw') = None" "HashPassword (le_kdf le) (le_salt le) password' = Inr hash"
    "CreateInitialUser (le_now le) (trim_space raw') hash (ws_db s) = Inr (u, d1)"
    "ws_db s' = SaveSession (le_sha le) (le_now le) se (audit le (us_username u) ''setup.complete'' ''controller'' d1)"
    by (rule handleSetup_Answer)
  have d1: "u = new_user (db_user_seq (ws_db s) + 1) (trim_space raw) hash (le_now le)"
    "db_users (ws_db s') = [\<lparr> ur_id = db_user_seq (ws_db s) + 1, ur_username = trim_space raw, ur_password_hash = hash,
       ur_totp_secret = [], ur_totp_enabled = False, ur_created_at = le_now le \<rparr>]"
    using p(1,2,5) by (auto simp: p(6) CreateInitialUser_def insert_user_def Let_def)
  have "HashPassword (le_kdf le) (Some salt) password = Inr hash" using p(1,4) kdf(1) by simp
  note accepts = password_hash_accepts [where kdf = "le_kdf le" and salt = salt and typed = password, OF this kdf(2)]
  have "VerifyPassword (le_kdf le) hash password" by (rule conjunct2 [OF accepts]) (rule kdf(3))
  then have cr: "check_credentials le2 (trim_space raw) password code (ws_db s') = Some u"
    by (simp add: check_credentials_Some FindUserByUsername_def d1 new_user_def client(1))
  obtain l where "allowLimiterKeys (le_now le2) (loginLimitKeys (le_guard le2) (le_web le2) r2 (trim_space raw)) (ws_limiter s') = (True, l)"
    using client(4) by (metis (full_types) prod.collapse)
  then have "\<exists>c2 s2. handleLogin le2 r2 (Inr (raw, password, code)) s' = (Answer (u, c2), s2)"
    using client(2,3) cr p(1,3) by (simp add: handleLogin_def NewSession_def Let_def)
  moreover have "\<exists>e msg. handleSetup le3 r3 body3 s3 = (Refused e msg, s3)" if "db_users (ws_db s3) \<noteq> []" for le3 r3 body3 s3
    using that by (simp add: handleSetup_def cross_origin_def UserCount_def Let_def)
  ultimately show ?thesis using p(2) d1(2) by simp
qed

section \<open>Examples\<close>

definition ex_login :: login_env where
  "ex_login = \<lparr> le_guard = ex_guard, le_web = ex_web, le_kdf = toy_kdf, le_hmac = toy_hmac, le_lifetime = 24 * hour,
     le_salt = Some (replicate 16 CHR ''s''), le_session = Some ''token'', le_totp = Some (replicate 20 CHR ''k''),
     le_nonce = Some ex_nonce, le_detail = Some ''{}'', le_text = (\<lambda>e. ''error'') \<rparr>"

definition ex_blank :: web_state where
  "ex_blank = \<lparr> ws_db = empty_db, ws_limiter = [] \<rparr>"

lemma ex_login_origin: "same_origin ex_login ex_request d" if "db_settings d = []"
proof -
  have "controllerPublicURL ex_guard ex_web d = controllerPublicURL ex_guard ex_web ex_web_db"
    using that by (simp add: controllerPublicURL_def GetSetting_def ex_web_db_def ex_db_def insert_user_def empty_db_def)
  then have "requireSameOrigin ex_guard ex_web ex_request d = requireSameOrigin ex_guard ex_web ex_request ex_web_db"
    by (simp only: requireSameOrigin_def expectedOrigin_def)
  then show ?thesis using ex_same_origin by (simp add: ex_login_def)
qed

lemma ex_setup_origin: "same_origin ex_login ex_request empty_db"
  by (rule ex_login_origin) (simp add: empty_db_def)

lemma ex_names: "trim_space ''admin'' = ''admin''" "validateUsername ''admin'' = None"
  by code_simp+

lemma allow_fresh: "allowLimiterKeys now ks [] = (True, [])" "Allow now k [] = (True, [])"
proof -
  show "Allow now k [] = (True, [])" for k
    by (simp add: Allow_def limiter_prune_def open_attempt_def attempt_of_def zero_attempt_def)
  then show "allowLimiterKeys now ks [] = (True, [])" by (induction ks) simp_all
qed

lemma toy_kdf_length: "length (the (toy_kdf p s n k)) = k"
  by (simp add: toy_kdf_def)

lemma ex_setup:
  "\<exists>u c s' hash. handleSetup ex_login ex_request (Inr (''admin'', ''correct horse'')) ex_blank = (Answer (u, c), s') \<and>
     ws_limiter s' = [] \<and> HashPassword toy_kdf (Some (replicate 16 CHR ''s'')) ''correct horse'' = Inr hash \<and>
     ws_db s' = SaveSession (\<lambda>x. x) (unix_time 900) \<lparr> ses_id = b64_encode ''token'', ses_user = 1, ses_username = ''admin'',
         ses_expires = unix_time 900 + 24 * hour \<rparr>
       (audit ex_login ''admin'' ''setup.complete'' ''controller'' (snd (insert_user (unix_time 900) ''admin'' hash empty_db)))"
proof -
  obtain hash where h: "HashPassword toy_kdf (Some (replicate 16 CHR ''s'')) ''correct horse'' = Inr hash"
    by (simp add: HashPassword_def toy_kdf_def maxPasswordBytes_def)
  have e: "le_kdf ex_login = toy_kdf" "le_salt ex_login = Some (replicate 16 CHR ''s'')" "le_session ex_login = Some ''token''"
    "le_lifetime ex_login = 24 * hour" "le_now ex_login = unix_time 900" "le_sha ex_login = (\<lambda>x. x)"
    by (simp_all add: ex_login_def ex_guard_def)
  have u: "UserCount empty_db = 0" "CreateInitialUser (unix_time 900) ''admin'' hash empty_db =
      Inr (new_user 1 ''admin'' hash (unix_time 900), snd (insert_user (unix_time 900) ''admin'' hash empty_db))"
    by (simp_all add: UserCount_def empty_db_def CreateInitialUser_def insert_user_def)
  have l: "Success k (Fail now k []) = []" for k now
    by (simp add: Success_def Fail_def limiter_prune_def maxLoginEntries_def Let_def)
  show ?thesis
    using ex_setup_origin by (simp add: handleSetup_def ex_blank_def allow_fresh ex_names e h u l NewSession_def new_user_def Let_def)
qed

theorem setup_once_witness:
  "\<exists>u c s' c2 s2. handleSetup ex_login ex_request (Inr (''admin'', ''correct horse'')) ex_blank = (Answer (u, c), s') \<and>
     handleLogin ex_login ex_request (Inr (''admin'', ''correct horse'', '''')) s' = (Answer (u, c2), s2)"
proof -
  from ex_setup obtain u c s' hash where s: "handleSetup ex_login ex_request (Inr (''admin'', ''correct horse'')) ex_blank = (Answer (u, c), s')"
    "ws_limiter s' = []"
    "ws_db s' = SaveSession (\<lambda>x. x) (unix_time 900) \<lparr> ses_id = b64_encode ''token'', ses_user = 1, ses_username = ''admin'',
         ses_expires = unix_time 900 + 24 * hour \<rparr>
       (audit ex_login ''admin'' ''setup.complete'' ''controller'' (snd (insert_user (unix_time 900) ''admin'' hash empty_db)))"
    by blast
  have o: "same_origin ex_login ex_request (ws_db s')"
    unfolding s(3) by (rule ex_login_origin) (simp add: SaveSession_def insert_user_def empty_db_def Let_def)
  have e: "le_salt ex_login = Some (replicate 16 CHR ''s'')" "length (replicate 16 CHR ''s'') = saltBytes"
    "length (the (le_kdf ex_login p (replicate 16 CHR ''s'') pbkdf2Iterations n)) = n"
    "le_session ex_login = Some ''token''" "fst (allowLimiterKeys now ks (ws_limiter s'))" for p n now ks
    by (simp_all add: ex_login_def saltBytes_def toy_kdf_length s(2) allow_fresh)
  from setup_once [OF s(1) e(1,2) e(3) refl o e(4,5), where code = "''''"] s(1) show ?thesis by blast
qed

text \<open>The account that was set up, an hour after it logged in.\<close>

theorem login_opens_session_witness:
  "\<exists>s c s' u. handleLogin ex_login ex_request (Inr (''admin'', ''correct horse'', '''')) s = (Answer (u, c), s') \<and>
     fst (Session (\<lambda>x. x) (unix_time 900 + hour) (ck_value c) (ws_db s')) \<noteq> None"
proof -
  obtain hash where h: "HashPassword toy_kdf (Some (replicate 16 CHR ''s'')) ''correct horse'' = Inr hash"
    by (simp add: HashPassword_def toy_kdf_def maxPasswordBytes_def)
  obtain d where d: "d = snd (insert_user (unix_time 900) ''admin'' hash empty_db)" by blast
  obtain s where s: "s = \<lparr> ws_db = d, ws_limiter = [] \<rparr>" by blast
  have dd: "db_users d = [\<lparr> ur_id = 1, ur_username = ''admin'', ur_password_hash = hash, ur_totp_secret = [],
      ur_totp_enabled = False, ur_created_at = unix_time 900 \<rparr>]" "db_sessions d = []" "db_settings d = []"
    by (simp_all add: d insert_user_def empty_db_def)
  have "VerifyPassword toy_kdf hash ''correct horse''"
    by (rule conjunct2 [OF password_hash_accepts [OF h, where typed = "''x''"]]) (simp_all add: saltBytes_def toy_kdf_length)
  then have cr: "check_credentials ex_login ''admin'' ''correct horse'' '''' d = Some (new_user 1 ''admin'' hash (unix_time 900))"
    by (simp add: check_credentials_Some FindUserByUsername_def dd new_user_def ex_login_def)
  have o: "same_origin ex_login ex_request d" by (rule ex_login_origin) (rule dd(3))
  have "le_session ex_login = Some ''token''" by (simp add: ex_login_def)
  then obtain u c s' where l: "handleLogin ex_login ex_request (Inr (''admin'', ''correct horse'', '''')) s = (Answer (u, c), s')"
    using o cr by (simp add: handleLogin_def s allow_fresh ex_names NewSession_def Let_def)
  have e: "le_now ex_login = unix_time 900" "le_lifetime ex_login = 24 * hour" "le_sha ex_login = (\<lambda>x. x)"
    by (simp_all add: ex_login_def ex_guard_def)
  have "unix_time 900 + hour < unix_time (time_unix (unix_time 900 + 24 * hour))"
    by (simp add: unix_time_def time_unix_def seconds_of_def duration_defs)
  with login_opens_session [OF l, of "unix_time 900 + hour"]
  have "fst (Session (\<lambda>x. x) (unix_time 900 + hour) (ck_value c) (ws_db s')) \<noteq> None"
    by (simp add: e s dd delete_where_def maxSessionEntries_def duration_defs Let_def)
  with l show ?thesis by blast
qed

theorem login_refused_witness:
  "\<exists>s'. handleLogin ex_login ex_request (Inr (''admin'', ''wrong'', '''')) ex_blank = (bad_login, s') \<and> ws_db s' = empty_db \<and>
     ws_limiter s' \<noteq> []"
proof -
  have "check_credentials ex_login ''admin'' ''wrong'' '''' empty_db = None"
    by (simp add: check_credentials_def FindUserByUsername_def empty_db_def)
  then obtain s' where l: "handleLogin ex_login ex_request (Inr (''admin'', ''wrong'', '''')) ex_blank =
      (Refused StatusUnauthorized ''invalid username or password'', s')"
    using ex_setup_origin by (simp add: handleLogin_def ex_blank_def allow_fresh ex_names bad_login_def Let_def)
  have "failLimiterKeys now (loginLimitKeys ge wc r i) [] \<noteq> []" for now ge wc r i
    by (simp add: failLimiterKeys_def loginLimitKeys_def Fail_def Let_def)
  with login_refused [OF l] l show ?thesis by (auto simp: bad_login_def ex_blank_def allow_fresh Let_def)
qed

end
