(* ===== verification/Counters.thy ===== *)
theory Counters
  imports Prelude "HOL-Library.Word"
begin

text \<open>
  internal/node/metrics/counters.go: the traffic counters of a node agent.  A counter is three
  64-bit integers that wrap around.  Each method runs under the mutex or is one atomic addition,
  so a concurrent run is a sequence of these operations.

  The theorem on drained counters says that nothing is counted twice and nothing is lost between
  the reports and the counters.
\<close>

record traffic_counter =
  ctr_in :: "64 word"
  ctr_out :: "64 word"
  ctr_connections :: "64 word"

record counter_stat =
  cst_id :: string
  cst_in :: "64 word"
  cst_out :: "64 word"
  cst_connections :: "64 word"

type_synonym counters = "(string \<times> traffic_counter) list"

definition zero_counter :: traffic_counter where
  "zero_counter = \<lparr> ctr_in = 0, ctr_out = 0, ctr_connections = 0 \<rparr>"

text \<open>\<open>Get\<close> returns a pointer into the map, here the map with the entry present; the three
  additions of a \<open>Counter\<close> act through that pointer.\<close>

definition counters_Get :: "string \<Rightarrow> counters \<Rightarrow> counters" where
  "counters_Get i c = (case map_of c i of None \<Rightarrow> AList.update i zero_counter c | Some _ \<Rightarrow> c)"

definition counter_of :: "counters \<Rightarrow> string \<Rightarrow> traffic_counter" where
  "counter_of c i = (case map_of c i of None \<Rightarrow> zero_counter | Some x \<Rightarrow> x)"

definition AddIn :: "string \<Rightarrow> 64 word \<Rightarrow> counters \<Rightarrow> counters" where
  "AddIn i n c = (let c' = counters_Get i c; x = counter_of c' i
     in AList.update i (x\<lparr> ctr_in := ctr_in x + n \<rparr>) c')"

definition AddOut :: "string \<Rightarrow> 64 word \<Rightarrow> counters \<Rightarrow> counters" where
  "AddOut i n c = (let c' = counters_Get i c; x = counter_of c' i
     in AList.update i (x\<lparr> ctr_out := ctr_out x + n \<rparr>) c')"

definition AddConnection :: "string \<Rightarrow> counters \<Rightarrow> counters" where
  "AddConnection i c = (let c' = counters_Get i c; x = counter_of c' i
     in AList.update i (x\<lparr> ctr_connections := ctr_connections x + 1 \<rparr>) c')"

definition stat_of :: "string \<times> traffic_counter \<Rightarrow> counter_stat" where
  "stat_of e = \<lparr> cst_id = fst e, cst_in = ctr_in (snd e), cst_out = ctr_out (snd e),
     cst_connections = ctr_connections (snd e) \<rparr>"

definition Snapshot :: "counters \<Rightarrow> counter_stat list" where
  "Snapshot c = map stat_of c"

definition SnapshotAndReset :: "counters \<Rightarrow> counter_stat list \<times> counters" where
  "SnapshotAndReset c = (map stat_of c, map (\<lambda>e. (fst e, zero_counter)) c)"

section \<open>Runs\<close>

datatype counter_op = OpIn string "64 word" | OpOut string "64 word" | OpConnection string | OpDrain

text \<open>The counters after a run and the reports it has drained.\<close>

fun counters_run :: "counter_op list \<Rightarrow> counters \<Rightarrow> counter_stat list list \<times> counters" where
  "counters_run [] c = ([], c)"
| "counters_run (OpIn i n # ops) c = counters_run ops (AddIn i n c)"
| "counters_run (OpOut i n # ops) c = counters_run ops (AddOut i n c)"
| "counters_run (OpConnection i # ops) c = counters_run ops (AddConnection i c)"
| "counters_run (OpDrain # ops) c =
    (let (report, c1) = SnapshotAndReset c; (reports, c2) = counters_run ops c1
     in (report # reports, c2))"

definition reported :: "(counter_stat \<Rightarrow> 64 word) \<Rightarrow> string \<Rightarrow> counter_stat list \<Rightarrow> 64 word" where
  "reported f i report = sum_list (map f (filter (\<lambda>st. cst_id st = i) report))"

definition total_reported :: "(counter_stat \<Rightarrow> 64 word) \<Rightarrow> string \<Rightarrow> counter_stat list list \<Rightarrow> 64 word" where
  "total_reported f i reports = sum_list (map (reported f i) reports)"

fun op_in :: "string \<Rightarrow> counter_op \<Rightarrow> 64 word" where
  "op_in i (OpIn j n) = (if j = i then n else 0)"
| "op_in i _ = 0"

fun op_out :: "string \<Rightarrow> counter_op \<Rightarrow> 64 word" where
  "op_out i (OpOut j n) = (if j = i then n else 0)"
| "op_out i _ = 0"

fun op_connection :: "string \<Rightarrow> counter_op \<Rightarrow> 64 word" where
  "op_connection i (OpConnection j) = (if j = i then 1 else 0)"
| "op_connection i _ = 0"

lemma counter_of_update [simp]:
  "counter_of (AList.update i x c) j = (if j = i then x else counter_of c j)"
  by (simp add: counter_of_def map_simps)

lemma counter_of_Get [simp]: "counter_of (counters_Get i c) j = counter_of c j"
  by (simp add: counters_Get_def counter_of_def map_simps split: option.splits)

lemma keys_ok_Get [simp]: "keys_ok c \<Longrightarrow> keys_ok (counters_Get i c)"
  by (simp add: counters_Get_def keys_ok_update split: option.splits)

lemma keys_ok_ops [simp]:
  "keys_ok c \<Longrightarrow> keys_ok (AddIn i n c)" "keys_ok c \<Longrightarrow> keys_ok (AddOut i n c)"
  "keys_ok c \<Longrightarrow> keys_ok (AddConnection i c)" "keys_ok c \<Longrightarrow> keys_ok (snd (SnapshotAndReset c))"
  by (simp_all add: AddIn_def AddOut_def AddConnection_def SnapshotAndReset_def Let_def
      keys_ok_update comp_def)

lemma counter_of_ops [simp]:
  "counter_of (AddIn i n c) j = (let x = counter_of c j in if j = i then x\<lparr> ctr_in := ctr_in x + n \<rparr> else x)"
  "counter_of (AddOut i n c) j = (let x = counter_of c j in if j = i then x\<lparr> ctr_out := ctr_out x + n \<rparr> else x)"
  "counter_of (AddConnection i c) j =
     (let x = counter_of c j in if j = i then x\<lparr> ctr_connections := ctr_connections x + 1 \<rparr> else x)"
  by (simp_all add: AddIn_def AddOut_def AddConnection_def Let_def)

lemma counter_of_drained [simp]: "counter_of (snd (SnapshotAndReset c)) i = zero_counter"
  by (induction c) (auto simp: SnapshotAndReset_def counter_of_def)

lemma reported_notin: "i \<notin> fst ` set c \<Longrightarrow> filter (\<lambda>st. cst_id st = i) (map stat_of c) = []"
  by (induction c) (auto simp: stat_of_def)

lemma reported_drained:
  "keys_ok c \<Longrightarrow> reported f i (fst (SnapshotAndReset c)) =
     (case map_of c i of None \<Rightarrow> 0 | Some x \<Rightarrow> f (stat_of (i, x)))"
proof (induction c)
  case Nil
  then show ?case by (simp add: SnapshotAndReset_def reported_def)
next
  case (Cons e c)
  obtain j x where e: "e = (j, x)" by (cases e)
  show ?case
  proof (cases "j = i")
    case True
    with Cons.prems e have "i \<notin> fst ` set c" by auto
    from reported_notin [OF this] show ?thesis
      using True e by (simp add: SnapshotAndReset_def reported_def stat_of_def)
  next
    case False
    with Cons e show ?thesis by (simp add: SnapshotAndReset_def reported_def stat_of_def)
  qed
qed

text \<open>A counter stays in balance along a run: what was there and what was added is what was
  reported and what is there now.\<close>

lemma counters_balance:
  assumes "keys_ok c" and "\<And>x. f (stat_of (i, x)) = g x" and "g zero_counter = 0"
    and "\<And>j n x. g (if i = j then x\<lparr> ctr_in := ctr_in x + n \<rparr> else x) = g x + h (OpIn j n)"
    and "\<And>j n x. g (if i = j then x\<lparr> ctr_out := ctr_out x + n \<rparr> else x) = g x + h (OpOut j n)"
    and "\<And>j x. g (if i = j then x\<lparr> ctr_connections := ctr_connections x + 1 \<rparr> else x) = g x + h (OpConnection j)"
    and "h OpDrain = 0"
  shows "total_reported f i (fst (counters_run ops c)) + g (counter_of (snd (counters_run ops c)) i) =
    g (counter_of c i) + sum_list (map h ops)"
  using assms(1)
proof (induction ops c rule: counters_run.induct)
  case (1 c)
  then show ?case by (simp add: total_reported_def)
next
  case (2 i n ops c)
  then show ?case by (simp add: Let_def assms add.assoc)
next
  case (3 i n ops c)
  then show ?case by (simp add: Let_def assms add.assoc)
next
  case (4 i ops c)
  then show ?case by (simp add: Let_def assms add.assoc)
next
  case (5 ops c)
  obtain r c1 where r: "SnapshotAndReset c = (r, c1)" by (cases "SnapshotAndReset c")
  have c1: "keys_ok c1" "counter_of c1 i = zero_counter"
    using keys_ok_ops(4) [OF 5(2)] counter_of_drained [of c i] r by auto
  have "reported f i r = g (counter_of c i)"
    using reported_drained [OF 5(2), of f i] r assms(2,3)
    by (simp add: counter_of_def split: option.splits)
  with 5(1) [OF r [symmetric] refl c1(1)] show ?case
    by (simp add: r c1 split_beta total_reported_def assms add.assoc)
qed

text \<open>for every counter id, over any interleaving of additions and drains from a fresh set of
  counters, the drained reports and what is left add up to what was added, modulo 2 to the 64, for
  bytes in, bytes out and connections: no traffic is reported twice or lost.\<close>

theorem counters_conserve:
  "let (reports, c) = counters_run ops [] in
     total_reported cst_in i reports + ctr_in (counter_of c i) = sum_list (map (op_in i) ops) \<and>
     total_reported cst_out i reports + ctr_out (counter_of c i) = sum_list (map (op_out i) ops) \<and>
     total_reported cst_connections i reports + ctr_connections (counter_of c i) =
       sum_list (map (op_connection i) ops)"
proof -
  have z: "counter_of [] i = zero_counter" by (simp add: counter_of_def)
  have "total_reported cst_in i (fst (counters_run ops [])) +
      ctr_in (counter_of (snd (counters_run ops [])) i) = sum_list (map (op_in i) ops)"
    using counters_balance [of "[]" cst_in i ctr_in "op_in i" ops]
    by (simp add: z zero_counter_def stat_of_def)
  moreover have "total_reported cst_out i (fst (counters_run ops [])) +
      ctr_out (counter_of (snd (counters_run ops [])) i) = sum_list (map (op_out i) ops)"
    using counters_balance [of "[]" cst_out i ctr_out "op_out i" ops]
    by (simp add: z zero_counter_def stat_of_def)
  moreover have "total_reported cst_connections i (fst (counters_run ops [])) +
      ctr_connections (counter_of (snd (counters_run ops [])) i) = sum_list (map (op_connection i) ops)"
    using counters_balance [of "[]" cst_connections i ctr_connections "op_connection i" ops]
    by (simp add: z zero_counter_def stat_of_def)
  ultimately show ?thesis by (simp add: split_beta)
qed

end
