(* ===== verification/Relay.thy ===== *)
theory Relay
  imports Dial Validate
begin

text \<open>
  The service half of internal/node/relay/service.go: applying a configuration, rolling back to the
  previous one, the lease that ends a configuration, the connection slots, and the admission of a
  link from another relay.

  A listener is what it listens for; \<open>env_listen\<close> says whether the k-th attempt to open one
  succeeds (address free, TLS material valid).  The timer of a lease is a goroutine: it is the pair of
  the revision and the instant it was started with.  A timer that has fired but not yet taken the
  mutex can no longer be cancelled, so the step \<open>expireConfig\<close> may come from any timer that was
  ever armed.
\<close>

section \<open>Lookup\<close>

definition findTunnelInConfig :: "relay_config \<Rightarrow> string \<Rightarrow> tunnel_runtime option" where
  "findTunnelInConfig cfg i = List.find (\<lambda>t. trt_id t = i) (rc_tunnels cfg)"

definition findForward :: "relay_config \<Rightarrow> string \<Rightarrow> forward_runtime option" where
  "findForward cfg i = List.find (\<lambda>f. frt_id f = i) (rc_forwards cfg)"

definition stageNodeFor :: "runtime_stage \<Rightarrow> string \<Rightarrow> runtime_node option" where
  "stageNodeFor s node = List.find (\<lambda>n. rn_node_id n = node) (rst_nodes s)"

definition stageHasNode :: "runtime_stage \<Rightarrow> string \<Rightarrow> bool" where
  "stageHasNode s node = list_ex (\<lambda>n. rn_node_id n = node) (rst_nodes s)"

definition isEntryNode :: "string \<Rightarrow> tunnel_runtime \<Rightarrow> bool" where
  "isEntryNode node t =
    (if trt_stages t = [] \<or> rst_nodes (hd (trt_stages t)) = [] then False
     else stageHasNode (hd (trt_stages t)) node)"

definition forwardSupports :: "forward_runtime \<Rightarrow> protocol \<Rightarrow> bool" where
  "forwardSupports f p = List.member (frt_protocols f) p"

section \<open>Admission of a link\<close>

datatype hello_error =
    HIdentifierTooLarge
  | HSecretTooLarge
  | HInvalidStage
  | HTunnelMismatch
  | HToStageMismatch
  | HFromStageMismatch
  | HNetwork string
  | HSecretMissing
  | HSecretMismatch
  | HForwardNotFound
  | HForwardTunnelMismatch
  | HForwardProtocolMismatch
  | HNodeProtocolMismatch

text \<open>\<open>sha\<close> is sha256.Sum256; the comparison in constant time is equality.\<close>

definition validateHello ::
  "(string \<Rightarrow> string) \<Rightarrow> relay_config \<Rightarrow> tunnel_runtime \<Rightarrow> runtime_stage \<Rightarrow> runtime_node \<Rightarrow> relay_hello \<Rightarrow>
     hello_error option" where
  "validateHello sha cfg t s n h =
    (let secret = mget (rn_settings n) ''secret'' in first_err
      [fail_if (length (hl_tunnel h) > MaxIDBytes \<or> length (hl_forward h) > MaxIDBytes) HIdentifierTooLarge,
       fail_if (length (hl_secret h) > 256) HSecretTooLarge,
       fail_if (rst_index s \<le> 0 \<or> rst_role s = StageEntry) HInvalidStage,
       fail_if (hl_tunnel h \<noteq> trt_id t) HTunnelMismatch,
       fail_if (hl_to h \<noteq> rst_index s) HToStageMismatch,
       fail_if (hl_from h \<noteq> rst_index s - 1) HFromStageMismatch,
       fail_if (hl_network h \<noteq> ''tcp'' \<and> hl_network h \<noteq> ''udp'') (HNetwork (hl_network h)),
       fail_if (secret = '''') HSecretMissing,
       fail_if (sha secret \<noteq> sha (hl_secret h)) HSecretMismatch,
       (case findForward cfg (hl_forward h) of
          None \<Rightarrow> Some HForwardNotFound
        | Some f \<Rightarrow> first_err
            [fail_if (\<not> frt_enabled f) HForwardNotFound,
             fail_if (frt_tunnel_id f \<noteq> trt_id t) HForwardTunnelMismatch,
             fail_if (\<not> forwardSupports f (hl_network h)) HForwardProtocolMismatch,
             fail_if (\<not> runtimeNodeSupportsProtocol n (hl_network h)) HNodeProtocolMismatch])])"

text \<open>What \<open>handleStageConn\<close> does with a link after the hello was read.  The forward is looked up
  again, under the lock, and may be gone by then: \<open>cfg'\<close> is the configuration at that moment.\<close>

datatype stage_action =
    Rejected hello_error
  | ForwardGone
  | ExitUDP forward_runtime
  | ExitTCP forward_runtime
  | TransitUDP forward_runtime
  | NextStage forward_runtime int string

definition handleStageConn ::
  "(string \<Rightarrow> string) \<Rightarrow> relay_config \<Rightarrow> relay_config \<Rightarrow> tunnel_runtime \<Rightarrow> runtime_stage \<Rightarrow> runtime_node \<Rightarrow>
     relay_hello \<Rightarrow> stage_action" where
  "handleStageConn sha cfg cfg' t s n h =
    (case validateHello sha cfg t s n h of
       Some x \<Rightarrow> Rejected x
     | None \<Rightarrow> (case findForward cfg' (hl_forward h) of
         None \<Rightarrow> ForwardGone
       | Some f \<Rightarrow>
           if \<not> frt_enabled f then ForwardGone
           else if rst_role s = StageExit then
             (if hl_network h = ''udp'' then ExitUDP f else ExitTCP f)
           else if hl_network h = ''udp'' then TransitUDP f
           else NextStage f (rst_index s) (hl_network h)))"

lemma validateHello_accepts:
  "validateHello sha cfg t s n h = None \<longleftrightarrow>
     length (hl_tunnel h) \<le> MaxIDBytes \<and> length (hl_forward h) \<le> MaxIDBytes \<and> length (hl_secret h) \<le> 256 \<and>
     0 < rst_index s \<and> rst_role s \<noteq> StageEntry \<and> hl_tunnel h = trt_id t \<and>
     hl_to h = rst_index s \<and> hl_from h = rst_index s - 1 \<and> hl_network h \<in> {''tcp'', ''udp''} \<and>
     mget (rn_settings n) ''secret'' \<noteq> '''' \<and>
     sha (mget (rn_settings n) ''secret'') = sha (hl_secret h) \<and>
     (\<exists>f. findForward cfg (hl_forward h) = Some f \<and> frt_enabled f \<and> frt_tunnel_id f = trt_id t \<and>
        hl_network h \<in> set (frt_protocols f)) \<and>
     (rn_protocols n = [] \<or> hl_network h \<in> set (rn_protocols n))"
proof -
  have net: "runtimeNodeSupportsProtocol n ''tcp'' \<longleftrightarrow> rn_protocols n = [] \<or> ''tcp'' \<in> set (rn_protocols n)"
      "runtimeNodeSupportsProtocol n ''udp'' \<longleftrightarrow> rn_protocols n = [] \<or> ''udp'' \<in> set (rn_protocols n)"
    by (auto simp: runtimeNodeSupportsProtocol_def ProtoTCP_def ProtoUDP_def)
  show ?thesis
    unfolding validateHello_def Let_def
    by (cases "findForward cfg (hl_forward h)")
      (auto simp: err_simps linorder_not_less not_le forwardSupports_def net)
qed

text \<open>a relay admits a link exactly when it comes to a stage behind the entry, from the stage
  before it and for it, on a tunnel, forward and protocol that its current configuration carries, with
  the secret of its own node entry (up to collisions of the hash).\<close>

theorem validateHello_iff:
  "validateHello sha cfg t s n h = None \<longleftrightarrow>
     length (hl_tunnel h) \<le> MaxIDBytes \<and> length (hl_forward h) \<le> MaxIDBytes \<and> length (hl_secret h) \<le> 256 \<and>
     0 < rst_index s \<and> rst_role s \<noteq> StageEntry \<and> hl_tunnel h = trt_id t \<and>
     hl_to h = rst_index s \<and> hl_from h = rst_index s - 1 \<and> hl_network h \<in> {''tcp'', ''udp''} \<and>
     mget (rn_settings n) ''secret'' \<noteq> '''' \<and>
     sha (mget (rn_settings n) ''secret'') = sha (hl_secret h) \<and>
     (\<exists>f. findForward cfg (hl_forward h) = Some f \<and> frt_enabled f \<and> frt_tunnel_id f = trt_id t \<and>
        hl_network h \<in> set (frt_protocols f)) \<and>
     (rn_protocols n = [] \<or> hl_network h \<in> set (rn_protocols n))"
  by (rule validateHello_accepts)

section \<open>Slots\<close>

definition maxRelayConnections :: nat where "maxRelayConnections = 4096"
definition maxUDPPacketWorkers :: nat where "maxUDPPacketWorkers = 1024"

text \<open>A buffered channel used as a semaphore: the number of its tokens.\<close>

definition try_acquire :: "nat \<Rightarrow> nat \<Rightarrow> bool \<times> nat" where
  "try_acquire capacity used = (if used < capacity then (True, used + 1) else (False, used))"

definition release_slot :: "nat \<Rightarrow> nat" where
  "release_slot used = used - 1"

section \<open>Listeners\<close>

datatype listener =
    StageListener tunnel_runtime runtime_stage runtime_node
  | TCPForward forward_runtime tunnel_runtime
  | UDPForward forward_runtime tunnel_runtime

text \<open>The listeners \<open>startConfigLocked\<close> opens, in its order.\<close>

definition tunnel_listeners :: "string \<Rightarrow> tunnel_runtime \<Rightarrow> listener list" where
  "tunnel_listeners node t = concat (map (\<lambda>s.
     if rst_role s = StageEntry then []
     else (case stageNodeFor s node of None \<Rightarrow> [] | Some n \<Rightarrow> [StageListener t s n])) (trt_stages t))"

definition forward_listeners :: "string \<Rightarrow> relay_config \<Rightarrow> forward_runtime \<Rightarrow> listener list" where
  "forward_listeners node cfg f =
    (if \<not> frt_enabled f then []
     else (case findTunnelInConfig cfg (frt_tunnel_id f) of
         None \<Rightarrow> []
       | Some t \<Rightarrow>
           if \<not> isEntryNode node t then []
           else concat (map (\<lambda>p. if p = ProtoTCP then [TCPForward f t]
                                 else if p = ProtoUDP then [UDPForward f t] else [])
                  (frt_protocols f))))"

definition planned_listeners :: "string \<Rightarrow> relay_config \<Rightarrow> listener list" where
  "planned_listeners node cfg =
     concat (map (tunnel_listeners node) (rc_tunnels cfg)) @
     concat (map (forward_listeners node cfg) (rc_forwards cfg))"

section \<open>The service\<close>

text \<open>\<open>sv_live\<close>: whether \<open>cancel\<close> is not nil.  \<open>sv_armed\<close> holds every timer ever started.\<close>

record service =
  sv_node :: string
  sv_relay :: relay
  sv_live :: bool
  sv_timer :: "(int \<times> time) option"
  sv_armed :: "(int \<times> time) list"
  sv_revision :: int
  sv_config :: relay_config
  sv_servers :: "listener list"
  sv_attempts :: nat

datatype apply_error = ConfigExpired | ListenFailed listener

definition new_service :: "string \<Rightarrow> relay \<Rightarrow> service" where
  "new_service node r = \<lparr> sv_node = node, sv_relay = r, sv_live = False, sv_timer = None, sv_armed = [],
     sv_revision = 0, sv_config = zero_config, sv_servers = [], sv_attempts = 0 \<rparr>"

definition set_fail_timeouts :: "relay_config \<Rightarrow> relay \<Rightarrow> relay" where
  "set_fail_timeouts cfg r =
     r\<lparr> rl_selector := setFailTimeout (failureCooldownFromConfig cfg) (rl_selector r),
        rl_targets := setFailTimeout (failureCooldownFromConfig cfg) (rl_targets r) \<rparr>"

definition stopRuntimeLocked :: "service \<Rightarrow> service" where
  "stopRuntimeLocked s =
     s\<lparr> sv_timer := None, sv_live := False, sv_servers := [],
        sv_relay := (sv_relay s)\<lparr> rl_udp := sessions_clear (rl_udp (sv_relay s)),
                                  rl_udp_targets := sessions_clear (rl_udp_targets (sv_relay s)),
                                  rl_selector := reset_selector (rl_selector (sv_relay s)),
                                  rl_targets := reset_selector (rl_targets (sv_relay s)) \<rparr> \<rparr>"

definition arm_timer :: "relay_config \<Rightarrow> service \<Rightarrow> service" where
  "arm_timer cfg s =
    (if rc_expires_at cfg \<noteq> zero_time then
       s\<lparr> sv_timer := Some (rc_revision cfg, rc_expires_at cfg),
          sv_armed := (rc_revision cfg, rc_expires_at cfg) # sv_armed s \<rparr>
     else s)"

text \<open>Opening the listeners one by one until one fails.\<close>

fun open_listeners :: "(nat \<Rightarrow> listener \<Rightarrow> bool) \<Rightarrow> listener list \<Rightarrow> service \<Rightarrow> apply_error option \<times> service" where
  "open_listeners env_listen [] s = (None, s)"
| "open_listeners env_listen (l # ls) s =
    (if env_listen (sv_attempts s) l then
       open_listeners env_listen ls (s\<lparr> sv_attempts := sv_attempts s + 1, sv_servers := sv_servers s @ [l] \<rparr>)
     else (Some (ListenFailed l), s\<lparr> sv_attempts := sv_attempts s + 1 \<rparr>))"

definition startConfigLocked ::
  "(nat \<Rightarrow> listener \<Rightarrow> bool) \<Rightarrow> relay_config \<Rightarrow> service \<Rightarrow> apply_error option \<times> service" where
  "startConfigLocked env_listen cfg s =
     open_listeners env_listen (planned_listeners (sv_node s) cfg) (arm_timer cfg s)"

definition restorePreviousConfig ::
  "(nat \<Rightarrow> listener \<Rightarrow> bool) \<Rightarrow> relay_config \<Rightarrow> int \<Rightarrow> service \<Rightarrow> service" where
  "restorePreviousConfig env_listen cfg revision s =
    (let s1 = stopRuntimeLocked s;
         s2 = s1\<lparr> sv_relay := set_fail_timeouts cfg (sv_relay s1), sv_config := cfg, sv_revision := revision \<rparr>
     in if revision = 0 \<and> rc_forwards cfg = [] \<and> rc_tunnels cfg = [] then s2
        else (case startConfigLocked env_listen cfg (s2\<lparr> sv_live := True, sv_servers := [] \<rparr>) of
            (None, s3) \<Rightarrow> s3
          | (Some x, s3) \<Rightarrow> stopRuntimeLocked s3))"

definition Apply ::
  "(nat \<Rightarrow> listener \<Rightarrow> bool) \<Rightarrow> time \<Rightarrow> relay_config \<Rightarrow> service \<Rightarrow> apply_error option \<times> service" where
  "Apply env_listen now cfg s =
    (if rc_expires_at cfg \<noteq> zero_time \<and> \<not> now < rc_expires_at cfg then (Some ConfigExpired, s)
     else if rc_revision cfg \<noteq> 0 \<and> rc_revision cfg = sv_revision s \<and> sv_live s then
       (None, (arm_timer cfg (s\<lparr> sv_timer := None \<rparr>))\<lparr> sv_config := cfg \<rparr>)
     else (let s1 = stopRuntimeLocked s;
               s2 = s1\<lparr> sv_relay := set_fail_timeouts cfg (sv_relay s1), sv_live := True, sv_servers := [],
                        sv_config := cfg, sv_revision := rc_revision cfg \<rparr>
       in case startConfigLocked env_listen cfg s2 of
            (None, s3) \<Rightarrow> (None, s3)
          | (Some x, s3) \<Rightarrow> (Some x, restorePreviousConfig env_listen (sv_config s) (sv_revision s) s3)))"

text \<open>The end of a timer that was armed with a revision and an instant.\<close>

definition expireConfig :: "int \<Rightarrow> time \<Rightarrow> service \<Rightarrow> service" where
  "expireConfig revision expires s =
    (if sv_revision s \<noteq> revision \<or> \<not> sv_live s then s
     else (stopRuntimeLocked s)\<lparr> sv_config :=
       zero_config\<lparr> rc_revision := revision, rc_node_id := sv_node s, rc_expires_at := expires \<rparr> \<rparr>)"

section \<open>What Apply leaves\<close>

lemma arm_timer_simps [simp]:
  "sv_node (arm_timer cfg s) = sv_node s" "sv_live (arm_timer cfg s) = sv_live s"
  "sv_revision (arm_timer cfg s) = sv_revision s" "sv_config (arm_timer cfg s) = sv_config s"
  "sv_servers (arm_timer cfg s) = sv_servers s"
  "sv_timer (arm_timer cfg s) =
     (if rc_expires_at cfg \<noteq> zero_time then Some (rc_revision cfg, rc_expires_at cfg) else sv_timer s)"
  "set (sv_armed (arm_timer cfg s)) =
     (if rc_expires_at cfg \<noteq> zero_time then {(rc_revision cfg, rc_expires_at cfg)} else {}) \<union> set (sv_armed s)"
  by (auto simp: arm_timer_def)

lemma stop_simps [simp]:
  "sv_node (stopRuntimeLocked s) = sv_node s" "sv_live (stopRuntimeLocked s) = False"
  "sv_revision (stopRuntimeLocked s) = sv_revision s" "sv_config (stopRuntimeLocked s) = sv_config s"
  "sv_servers (stopRuntimeLocked s) = []" "sv_timer (stopRuntimeLocked s) = None"
  "sv_armed (stopRuntimeLocked s) = sv_armed s"
  by (simp_all add: stopRuntimeLocked_def)

lemma open_listeners_facts:
  assumes "open_listeners L ls s = (e, s')"
  shows "sv_node s' = sv_node s" and "sv_live s' = sv_live s" and "sv_revision s' = sv_revision s"
    and "sv_config s' = sv_config s" and "sv_timer s' = sv_timer s" and "sv_armed s' = sv_armed s"
    and "e = None \<Longrightarrow> sv_servers s' = sv_servers s @ ls"
    and "e \<noteq> Some ConfigExpired"
proof -
  have "sv_node s' = sv_node s \<and> sv_live s' = sv_live s \<and> sv_revision s' = sv_revision s \<and>
      sv_config s' = sv_config s \<and> sv_timer s' = sv_timer s \<and> sv_armed s' = sv_armed s \<and>
      (e = None \<longrightarrow> sv_servers s' = sv_servers s @ ls) \<and> e \<noteq> Some ConfigExpired"
    using assms
  proof (induction L ls s rule: open_listeners.induct)
    case (1 L s)
    then show ?case by auto
  next
    case (2 L l ls s)
    then show ?case by (cases "L (sv_attempts s) l") auto
  qed
  then show "sv_node s' = sv_node s" "sv_live s' = sv_live s" "sv_revision s' = sv_revision s"
    "sv_config s' = sv_config s" "sv_timer s' = sv_timer s" "sv_armed s' = sv_armed s"
    "e = None \<Longrightarrow> sv_servers s' = sv_servers s @ ls" "e \<noteq> Some ConfigExpired"
    by auto
qed

lemma apply_success_lemma:
  assumes "Apply L now cfg s = (None, s')"
  shows "sv_config s' = cfg \<and> sv_revision s' = rc_revision cfg \<and> sv_live s' \<and>
    (if rc_revision cfg \<noteq> 0 \<and> rc_revision cfg = sv_revision s \<and> sv_live s
     then sv_servers s' = sv_servers s else sv_servers s' = planned_listeners (sv_node s) cfg)"
proof (cases "rc_revision cfg \<noteq> 0 \<and> rc_revision cfg = sv_revision s \<and> sv_live s")
  case True
  with assms have "s' = (arm_timer cfg (s\<lparr> sv_timer := None \<rparr>))\<lparr> sv_config := cfg \<rparr>"
    by (auto simp: Apply_def split: if_splits)
  with True show ?thesis by simp
next
  case False
  define s2 where "s2 = (stopRuntimeLocked s)\<lparr>
    sv_relay := set_fail_timeouts cfg (sv_relay (stopRuntimeLocked s)), sv_live := True, sv_servers := [],
    sv_config := cfg, sv_revision := rc_revision cfg \<rparr>"
  from assms False have "startConfigLocked L cfg s2 = (None, s')"
    unfolding Apply_def Let_def s2_def [symmetric]
    by (auto split: if_splits prod.splits option.splits)
  then have o: "open_listeners L (planned_listeners (sv_node s) cfg) (arm_timer cfg s2) = (None, s')"
    by (simp add: startConfigLocked_def s2_def)
  show ?thesis
    using open_listeners_facts [OF o] False by (auto simp: s2_def)
qed

text \<open>C27: a configuration that is applied is the one in force, under its revision, and the listeners
  are exactly those it plans for this node, unless the same revision was already running, which keeps
  its listeners.\<close>

theorem apply_success:
  assumes "Apply L now cfg s = (None, s')"
  shows "sv_config s' = cfg \<and> sv_revision s' = rc_revision cfg \<and> sv_live s' \<and>
    (if rc_revision cfg \<noteq> 0 \<and> rc_revision cfg = sv_revision s \<and> sv_live s
     then sv_servers s' = sv_servers s else sv_servers s' = planned_listeners (sv_node s) cfg)"
  using assms by (rule apply_success_lemma)

text \<open>The listeners of a list all open when the first is attempt number k; the first to fail is the
  one at j.\<close>

definition all_open :: "(nat \<Rightarrow> listener \<Rightarrow> bool) \<Rightarrow> nat \<Rightarrow> listener list \<Rightarrow> bool" where
  "all_open L k ls \<longleftrightarrow> (\<forall>i<length ls. L (k + i) (ls ! i))"

definition first_fails :: "(nat \<Rightarrow> listener \<Rightarrow> bool) \<Rightarrow> nat \<Rightarrow> listener list \<Rightarrow> nat \<Rightarrow> bool" where
  "first_fails L k ls j \<longleftrightarrow> j < length ls \<and> (\<forall>i<j. L (k + i) (ls ! i)) \<and> \<not> L (k + j) (ls ! j)"

lemma first_fails_not_open: "first_fails L k ls j \<Longrightarrow> \<not> all_open L k ls"
  by (auto simp: first_fails_def all_open_def)

lemma all_open_Cons: "all_open L k (l # ls) \<longleftrightarrow> L k l \<and> all_open L (Suc k) ls"
  by (auto simp: all_open_def nth_Cons less_Suc_eq_0_disj split: nat.split)

lemma first_fails_Cons:
  "L k l \<Longrightarrow> first_fails L (Suc k) ls j \<Longrightarrow> first_fails L k (l # ls) (Suc j)"
  by (auto simp: first_fails_def nth_Cons split: nat.split)

lemma open_listeners_result:
  "open_listeners L ls s = (e, s') \<Longrightarrow>
     (case e of None \<Rightarrow> all_open L (sv_attempts s) ls
      | Some x \<Rightarrow> \<exists>j. first_fails L (sv_attempts s) ls j \<and> x = ListenFailed (ls ! j) \<and>
          sv_attempts s' = sv_attempts s + j + 1)"
proof (induction L ls s rule: open_listeners.induct)
  case (1 L s)
  then show ?case by (auto simp: all_open_def)
next
  case (2 L l ls s)
  show ?case
  proof (cases "L (sv_attempts s) l")
    case True
    then have o: "open_listeners L ls (s\<lparr> sv_attempts := sv_attempts s + 1, sv_servers := sv_servers s @ [l] \<rparr>) = (e, s')"
      using 2(2) by simp
    show ?thesis
    proof (cases e)
      case None
      then show ?thesis using 2(1) [OF True o] True by (simp add: all_open_Cons)
    next
      case (Some x)
      with 2(1) [OF True o] obtain j where j: "first_fails L (Suc (sv_attempts s)) ls j"
          "x = ListenFailed (ls ! j)" "sv_attempts s' = Suc (sv_attempts s) + j + 1" by auto
      then show ?thesis
        using first_fails_Cons [OF True j(1)] Some by (auto intro!: exI [of _ "Suc j"])
    qed
  next
    case False
    then show ?thesis using 2(2) by (auto simp: first_fails_def intro!: exI [of _ 0])
  qed
qed

lemma attempts_kept [simp]:
  "sv_attempts (arm_timer cfg s) = sv_attempts s" "sv_attempts (stopRuntimeLocked s) = sv_attempts s"
  by (simp_all add: arm_timer_def stopRuntimeLocked_def)

text \<open>The roll-back, from a service that has made k attempts.\<close>

definition rolled_back :: "(nat \<Rightarrow> listener \<Rightarrow> bool) \<Rightarrow> nat \<Rightarrow> service \<Rightarrow> service \<Rightarrow> bool" where
  "rolled_back L k s s' \<longleftrightarrow>
     sv_config s' = sv_config s \<and> sv_revision s' = sv_revision s \<and>
     (if (sv_revision s = 0 \<and> rc_forwards (sv_config s) = [] \<and> rc_tunnels (sv_config s) = []) \<or>
         \<not> all_open L k (planned_listeners (sv_node s) (sv_config s))
      then \<not> sv_live s' \<and> sv_servers s' = [] \<and> sv_timer s' = None
      else sv_live s' \<and> sv_servers s' = planned_listeners (sv_node s) (sv_config s) \<and>
        sv_timer s' = (if rc_expires_at (sv_config s) = zero_time then None
          else Some (rc_revision (sv_config s), rc_expires_at (sv_config s))))"

lemma restore_rolls_back:
  assumes "sv_node s3 = sv_node s"
  shows "rolled_back L (sv_attempts s3) s (restorePreviousConfig L (sv_config s) (sv_revision s) s3)"
proof -
  define r1 where "r1 = (stopRuntimeLocked s3)\<lparr>
    sv_relay := set_fail_timeouts (sv_config s) (sv_relay (stopRuntimeLocked s3)),
    sv_config := sv_config s, sv_revision := sv_revision s \<rparr>"
  have r1: "sv_node r1 = sv_node s" "sv_config r1 = sv_config s" "sv_revision r1 = sv_revision s"
    "\<not> sv_live r1" "sv_servers r1 = []" "sv_timer r1 = None" "sv_attempts r1 = sv_attempts s3"
    by (simp_all add: r1_def assms)
  obtain e4 s4 where s4: "startConfigLocked L (sv_config s) (r1\<lparr> sv_live := True, sv_servers := [] \<rparr>) = (e4, s4)"
    by force
  then have o4: "open_listeners L (planned_listeners (sv_node s) (sv_config s))
      (arm_timer (sv_config s) (r1\<lparr> sv_live := True, sv_servers := [] \<rparr>)) = (e4, s4)"
    by (simp add: startConfigLocked_def r1)
  have e4: "e4 = None \<longleftrightarrow> all_open L (sv_attempts s3) (planned_listeners (sv_node s) (sv_config s))"
    using open_listeners_result [OF o4] first_fails_not_open
    by (auto simp: r1 split: option.splits)
  have "restorePreviousConfig L (sv_config s) (sv_revision s) s3 =
      (if sv_revision s = 0 \<and> rc_forwards (sv_config s) = [] \<and> rc_tunnels (sv_config s) = [] then r1
       else case e4 of None \<Rightarrow> s4 | Some y \<Rightarrow> stopRuntimeLocked s4)"
    unfolding restorePreviousConfig_def Let_def r1_def [symmetric] by (simp add: s4)
  then show ?thesis
    using open_listeners_facts [OF o4] e4 r1
    by (auto simp: rolled_back_def r1 split: option.splits)
qed

lemma apply_failure_lemma:
  assumes "Apply L now cfg s = (Some x, s')"
  shows "if rc_expires_at cfg \<noteq> zero_time \<and> \<not> now < rc_expires_at cfg then x = ConfigExpired \<and> s' = s
    else \<exists>j. first_fails L (sv_attempts s) (planned_listeners (sv_node s) cfg) j \<and>
      x = ListenFailed (planned_listeners (sv_node s) cfg ! j) \<and>
      rolled_back L (sv_attempts s + j + 1) s s'"
proof (cases "rc_expires_at cfg \<noteq> zero_time \<and> \<not> now < rc_expires_at cfg")
  case True
  with assms show ?thesis by (simp add: Apply_def)
next
  case alive: False
  show ?thesis
  proof (cases "rc_revision cfg \<noteq> 0 \<and> rc_revision cfg = sv_revision s \<and> sv_live s")
    case True
    with assms alive show ?thesis by (simp add: Apply_def)
  next
    case False
    define s2 where "s2 = (stopRuntimeLocked s)\<lparr>
      sv_relay := set_fail_timeouts cfg (sv_relay (stopRuntimeLocked s)), sv_live := True, sv_servers := [],
      sv_config := cfg, sv_revision := rc_revision cfg \<rparr>"
    obtain e3 s3 where s3: "startConfigLocked L cfg s2 = (e3, s3)" by force
    with assms alive False have e3: "e3 = Some x"
      and s': "s' = restorePreviousConfig L (sv_config s) (sv_revision s) s3"
      unfolding Apply_def Let_def s2_def [symmetric] by (auto split: if_splits option.splits)
    have o: "open_listeners L (planned_listeners (sv_node s) cfg) (arm_timer cfg s2) = (e3, s3)"
      using s3 by (simp add: startConfigLocked_def s2_def)
    then obtain j where j: "first_fails L (sv_attempts s) (planned_listeners (sv_node s) cfg) j"
        "x = ListenFailed (planned_listeners (sv_node s) cfg ! j)" "sv_attempts s3 = sv_attempts s + j + 1"
      using open_listeners_result [OF o] e3 by (auto simp: s2_def)
    have "sv_node s3 = sv_node s" using open_listeners_facts(1) [OF o] by (simp add: s2_def)
    from restore_rolls_back [OF this, of L] j alive show ?thesis by (auto simp: s')
  qed
qed

lemma apply_failure_outcome:
  assumes "Apply L now cfg s = (Some x, s')"
  shows "s' = s \<or> sv_config s' = sv_config s \<and> sv_revision s' = sv_revision s \<and>
    (sv_servers s' = planned_listeners (sv_node s) (sv_config s) \<or> sv_servers s' = [])"
  using apply_failure_lemma [OF assms] by (auto simp: rolled_back_def split: if_splits)

text \<open>C28: a configuration that is refused changes nothing exactly if it had expired; otherwise one of
  its listeners, the first that could not be opened, is what is reported, and the previous
  configuration and revision are back: running, with all its listeners open and its own lease armed,
  if it had anything to run and its listeners open again; else stopped, with none open and no timer.\<close>

theorem apply_failure:
  assumes "Apply L now cfg s = (Some x, s')"
  shows "if rc_expires_at cfg \<noteq> zero_time \<and> \<not> now < rc_expires_at cfg then x = ConfigExpired \<and> s' = s
    else \<exists>j. first_fails L (sv_attempts s) (planned_listeners (sv_node s) cfg) j \<and>
      x = ListenFailed (planned_listeners (sv_node s) cfg ! j) \<and>
      rolled_back L (sv_attempts s + j + 1) s s'"
  using assms by (rule apply_failure_lemma)

section \<open>Leases\<close>

text \<open>The steps of a service: applying what arrives, and the end of any timer that was armed.\<close>

inductive service_step :: "service \<Rightarrow> service \<Rightarrow> bool" where
  applied: "Apply L now cfg s = (e, s') \<Longrightarrow> service_step s s'"
| expired: "(r, t) \<in> set (sv_armed s) \<Longrightarrow> service_step s (expireConfig r t s)"

inductive service_reach :: "string \<Rightarrow> relay \<Rightarrow> service \<Rightarrow> bool" for node r where
  start: "service_reach node r (new_service node r)"
| step: "service_reach node r s \<Longrightarrow> service_step s s' \<Longrightarrow> service_reach node r s'"

definition lease_guarded :: "service \<Rightarrow> bool" where
  "lease_guarded s \<longleftrightarrow>
     (sv_live s \<longrightarrow> sv_timer s = (if rc_expires_at (sv_config s) = zero_time then None
        else Some (sv_revision s, rc_expires_at (sv_config s)))) \<and>
     (\<not> sv_live s \<longrightarrow> sv_servers s = [] \<and> sv_timer s = None) \<and>
     (rc_revision (sv_config s) = sv_revision s)"

lemma lease_start:
  assumes "startConfigLocked L cfg s = (e, s')" and "sv_timer s = None" and "sv_live s"
    and "sv_config s = cfg" and "sv_revision s = rc_revision cfg"
  shows "lease_guarded s'" and "sv_node s' = sv_node s"
  using open_listeners_facts [OF assms(1) [unfolded startConfigLocked_def]] assms(2-5)
  by (auto simp: lease_guarded_def)

lemma lease_restore:
  assumes "rc_revision cfg = rv"
  shows "lease_guarded (restorePreviousConfig L cfg rv s)"
proof -
  define r1 where "r1 = (stopRuntimeLocked s)\<lparr>
    sv_relay := set_fail_timeouts cfg (sv_relay (stopRuntimeLocked s)), sv_config := cfg, sv_revision := rv \<rparr>"
  obtain e4 s4 where s4: "startConfigLocked L cfg (r1\<lparr> sv_live := True, sv_servers := [] \<rparr>) = (e4, s4)" by force
  have "lease_guarded s4" using lease_start(1) [OF s4] assms by (simp add: r1_def)
  moreover have "lease_guarded r1" using assms by (simp add: r1_def lease_guarded_def)
  moreover have "lease_guarded (stopRuntimeLocked s4)"
    using \<open>lease_guarded s4\<close> by (simp add: lease_guarded_def)
  ultimately show ?thesis
    unfolding restorePreviousConfig_def Let_def r1_def [symmetric]
    by (simp add: s4 split: option.splits)
qed

lemma lease_apply:
  assumes "Apply L now cfg s = (e, s')" and inv: "lease_guarded s"
  shows "lease_guarded s'"
proof -
  define s2 where "s2 = (stopRuntimeLocked s)\<lparr>
    sv_relay := set_fail_timeouts cfg (sv_relay (stopRuntimeLocked s)), sv_live := True, sv_servers := [],
    sv_config := cfg, sv_revision := rc_revision cfg \<rparr>"
  obtain e3 s3 where s3: "startConfigLocked L cfg s2 = (e3, s3)" by force
  have "lease_guarded s3" using lease_start(1) [OF s3] by (simp add: s2_def)
  moreover have "lease_guarded (restorePreviousConfig L (sv_config s) (sv_revision s) s3)"
    using inv by (intro lease_restore) (simp add: lease_guarded_def)
  moreover have "rc_revision cfg = sv_revision s \<Longrightarrow> sv_live s \<Longrightarrow>
      lease_guarded ((arm_timer cfg (s\<lparr> sv_timer := None \<rparr>))\<lparr> sv_config := cfg \<rparr>)"
    by (simp add: lease_guarded_def)
  ultimately show ?thesis
    using assms(1) inv unfolding Apply_def Let_def s2_def [symmetric]
    by (auto simp: s3 split: if_splits option.splits)
qed

text \<open>C29: no configuration outlives its lease unguarded: in every reachable state a running
  configuration with an end has the timer of its revision and end armed, and a service that is not
  running has no listener open.\<close>

theorem lease_always_guarded:
  assumes "service_reach node r s"
  shows "(sv_live s \<longrightarrow> rc_expires_at (sv_config s) \<noteq> zero_time \<longrightarrow>
      sv_timer s = Some (rc_revision (sv_config s), rc_expires_at (sv_config s))) \<and>
    (\<not> sv_live s \<longrightarrow> sv_servers s = [])"
proof -
  have "lease_guarded s"
    using assms
  proof (induction rule: service_reach.induct)
    case start
    then show ?case by (simp add: lease_guarded_def new_service_def zero_config_def)
  next
    case (step s s')
    from step.hyps(2) step.IH show ?case
    proof (cases rule: service_step.cases)
      case (applied L now cfg e)
      then show ?thesis using lease_apply step.IH by blast
    next
      case (expired r t)
      then show ?thesis
        using step.IH by (auto simp: expireConfig_def lease_guarded_def zero_config_def)
    qed
  qed
  then show ?thesis by (auto simp: lease_guarded_def)
qed

section \<open>Witnesses\<close>

definition ex_config :: "int \<Rightarrow> time \<Rightarrow> relay_config" where
  "ex_config rv expires = zero_config\<lparr> rc_revision := rv, rc_node_id := ''n2'',
     rc_tunnels := [ex_tunnel], rc_forwards := [ex_forward], rc_expires_at := expires \<rparr>"

definition ex_listen :: "nat \<Rightarrow> listener \<Rightarrow> bool" where
  "ex_listen k l = True"

definition ex_service :: service where
  "ex_service = snd (Apply ex_listen 50 (ex_config 7 100) (new_service ''n2'' ex_relay))"

lemma ex_apply: "Apply ex_listen 50 (ex_config 7 100) (new_service ''n2'' ex_relay) = (None, ex_service)"
proof -
  have "fst (Apply ex_listen 50 (ex_config 7 100) (new_service ''n2'' ex_relay)) = None" by code_simp
  then show ?thesis by (simp add: ex_service_def prod_eq_iff)
qed

theorem apply_success_witness:
  "sv_revision ex_service = 7 \<and> sv_servers ex_service = planned_listeners ''n2'' (ex_config 7 100)"
  using apply_success [OF ex_apply] by (simp add: new_service_def ex_config_def)

theorem apply_failure_witness:
  "sv_revision (snd (Apply (\<lambda>k l. k \<noteq> 1) 60 (ex_config 8 200) ex_service)) = 7 \<and>
   sv_live (snd (Apply (\<lambda>k l. k \<noteq> 1) 60 (ex_config 8 200) ex_service))"
proof -
  let ?L = "\<lambda>(k::nat) (l::listener). k \<noteq> 1"
  let ?b = "Apply ?L 60 (ex_config 8 200) ex_service"
  have c: "fst ?b \<noteq> None" by code_simp
  then obtain x where b: "?b = (Some x, snd ?b)" by (metis option.exhaust prod.collapse)
  have "sv_revision ex_service = 7" by code_simp
  moreover have "sv_attempts ex_service = 1" by code_simp
  moreover have "rc_expires_at (ex_config 8 200) = 200" by code_simp
  moreover have "all_open ?L (sv_attempts ex_service + j + 1) ls" for j ls
    using \<open>sv_attempts ex_service = 1\<close> by (simp add: all_open_def)
  ultimately show ?thesis using apply_failure [OF b] by (auto simp: rolled_back_def)
qed

theorem lease_always_guarded_witness:
  "sv_timer ex_service = Some (7, 100)"
proof -
  have "service_reach ''n2'' ex_relay ex_service"
    by (rule service_reach.step [OF service_reach.start service_step.applied [OF ex_apply]])
  moreover have "sv_live ex_service" "rc_expires_at (sv_config ex_service) = 100"
      "rc_revision (sv_config ex_service) = 7" by code_simp+
  ultimately show ?thesis using lease_always_guarded by (force simp: zero_time_def)
qed

text \<open>The timer of a revision does not see that the lease of the same revision was extended: if it has
  fired before it could be cancelled, it stops the runtime whose new lease is still running.\<close>

lemma extended_lease_lost:
  "let s = snd (Apply ex_listen 99 (ex_config 7 500) ex_service) in
     sv_live s \<and> rc_expires_at (sv_config s) = 500 \<and> (7, 100) \<in> set (sv_armed s) \<and>
     \<not> sv_live (expireConfig 7 100 s) \<and> sv_servers (expireConfig 7 100 s) = []"
  unfolding Let_def
  by (intro conjI) code_simp+

section \<open>The node a service runs for\<close>

lemma startConfig_node: "startConfigLocked L cfg s = (e, s') \<Longrightarrow> sv_node s' = sv_node s"
  unfolding startConfigLocked_def using open_listeners_facts(1) by fastforce

lemma restore_node [simp]: "sv_node (restorePreviousConfig L cfg rv s) = sv_node s"
  by (auto simp: restorePreviousConfig_def Let_def dest!: startConfig_node split: prod.splits option.splits)

lemma Apply_node [simp]: "sv_node (snd (Apply L now cfg s)) = sv_node s"
  by (auto simp: Apply_def Let_def dest!: startConfig_node split: prod.splits option.splits)

end
