(* ===== verification/Agent.thy ===== *)
theory Agent
  imports Sign Relay
begin

text \<open>
  The node agent of internal/node/node.go: checking a signed configuration, applying it, the cached
  copy, the start-up with a configuration pulled over HTTP and the cached one, and the messages of the
  control connection that carry a configuration.  Files are the value they hold; \<open>ev_listen\<close> says
  which listeners can be opened, \<open>ev_saved\<close> whether the cache could be written.
\<close>

section \<open>Checking a signed configuration\<close>

definition maxSignedConfigLifetime :: duration where "maxSignedConfigLifetime = relay_config_lease"
definition maxSignedConfigClockSkew :: duration where "maxSignedConfigClockSkew = 5 * minute"

datatype verify_error =
    NoSigningKey
  | BadConfigSignature sign_error
  | WrongNode string
  | NoIssueTime
  | NoExpiration
  | ExpiresBeforeIssue
  | LeaseTooLong
  | IssuedInFuture
  | ExpiresTooFar
  | SignedConfigExpired

definition verifySignedConfig ::
  "ed_verify \<Rightarrow> (relay_config \<Rightarrow> string option) \<Rightarrow> time \<Rightarrow> string \<Rightarrow> string \<Rightarrow> signed_config \<Rightarrow> verify_error option" where
  "verifySignedConfig verify json now node key sc =
    (let cfg = sc_config sc in first_err
      [fail_if (trim_space key = []) NoSigningKey,
       map_option BadConfigSignature (VerifyJSON verify json key cfg (sc_signature sc)),
       fail_if (rc_node_id cfg \<noteq> node) (WrongNode (rc_node_id cfg)),
       fail_if (rc_issued_at cfg = zero_time) NoIssueTime,
       fail_if (rc_expires_at cfg = zero_time) NoExpiration,
       fail_if (rc_expires_at cfg < rc_issued_at cfg) ExpiresBeforeIssue,
       fail_if (time_sub (rc_expires_at cfg) (rc_issued_at cfg) > maxSignedConfigLifetime) LeaseTooLong,
       fail_if (rc_issued_at cfg > now + maxSignedConfigClockSkew) IssuedInFuture,
       fail_if (rc_expires_at cfg > now + (maxSignedConfigLifetime + maxSignedConfigClockSkew)) ExpiresTooFar,
       fail_if (\<not> now < rc_expires_at cfg) SignedConfigExpired])"

lemma verifySignedConfig_accepts:
  "verifySignedConfig verify json now node key sc = None \<longleftrightarrow>
     trim_space key \<noteq> [] \<and> VerifyJSON verify json key (sc_config sc) (sc_signature sc) = None \<and>
     rc_node_id (sc_config sc) = node \<and> rc_issued_at (sc_config sc) \<noteq> 0 \<and> rc_expires_at (sc_config sc) \<noteq> 0 \<and>
     rc_issued_at (sc_config sc) \<le> now + 5 * minute \<and> now < rc_expires_at (sc_config sc) \<and>
     rc_issued_at (sc_config sc) \<le> rc_expires_at (sc_config sc) \<and>
     rc_expires_at (sc_config sc) \<le> rc_issued_at (sc_config sc) + relay_config_lease"
proof -
  have sub: "time_sub x y \<le> relay_config_lease \<longleftrightarrow> x \<le> y + relay_config_lease" for x y
    using time_sub_gt [of relay_config_lease x y]
    by (auto simp: relay_config_lease_def duration_defs linorder_not_less [symmetric])
  show ?thesis
    unfolding verifySignedConfig_def Let_def
    by (auto simp: err_simps sub linorder_not_less zero_time_def maxSignedConfigClockSkew_def
        maxSignedConfigLifetime_def)
qed

text \<open>a node accepts a configuration exactly when it is signed under the key it was installed with,
  for this node, issued no more than five minutes ahead of the node's clock, not expired, and with a
  lease of at most thirty days from a moment it accepts.\<close>

theorem verifySignedConfig_iff:
  "verifySignedConfig verify json now node key sc = None \<longleftrightarrow>
     trim_space key \<noteq> [] \<and> VerifyJSON verify json key (sc_config sc) (sc_signature sc) = None \<and>
     rc_node_id (sc_config sc) = node \<and> rc_issued_at (sc_config sc) \<noteq> 0 \<and> rc_expires_at (sc_config sc) \<noteq> 0 \<and>
     rc_issued_at (sc_config sc) \<le> now + 5 * minute \<and> now < rc_expires_at (sc_config sc) \<and>
     rc_issued_at (sc_config sc) \<le> rc_expires_at (sc_config sc) \<and>
     rc_expires_at (sc_config sc) \<le> rc_issued_at (sc_config sc) + relay_config_lease"
  by (rule verifySignedConfig_accepts)

section \<open>Applying it\<close>

record agent =
  ag_service :: service
  ag_revision :: int
  ag_cache :: "signed_config option"

record agent_env =
  ev_verify_at :: time
  ev_apply_at :: time
  ev_listen :: "nat \<Rightarrow> listener \<Rightarrow> bool"
  ev_saved :: bool

datatype agent_error = Unverified verify_error | NotApplied apply_error

definition applySignedConfig ::
  "ed_verify \<Rightarrow> (relay_config \<Rightarrow> string option) \<Rightarrow> string \<Rightarrow> string \<Rightarrow> agent_env \<Rightarrow> signed_config \<Rightarrow> agent \<Rightarrow>
     agent_error option \<times> agent" where
  "applySignedConfig verify json node key ev sc a =
    (case verifySignedConfig verify json (ev_verify_at ev) node key sc of
       Some x \<Rightarrow> (Some (Unverified x), a)
     | None \<Rightarrow>
         if rc_revision (sc_config sc) < ag_revision a then (None, a)
         else (case Apply (ev_listen ev) (ev_apply_at ev) (sc_config sc) (ag_service a) of
             (Some x, s) \<Rightarrow> (Some (NotApplied x), a\<lparr> ag_service := s \<rparr>)
           | (None, s) \<Rightarrow>
               (None, a\<lparr> ag_service := s,
                        ag_cache := (if ev_saved ev then Some sc else ag_cache a),
                        ag_revision := rc_revision (sc_config sc) \<rparr>)))"

text \<open>The environment of each of the two attempts at start-up; \<open>pulled\<close> is what the controller
  answered, if it did, and the cache file is read after the pulled configuration was applied.\<close>

definition bootstrapConfig ::
  "ed_verify \<Rightarrow> (relay_config \<Rightarrow> string option) \<Rightarrow> string \<Rightarrow> string \<Rightarrow> agent_env \<Rightarrow> agent_env \<Rightarrow>
     signed_config option \<Rightarrow> agent \<Rightarrow> agent" where
  "bootstrapConfig verify json node key ev1 ev2 pulled a0 =
    (let a = (case pulled of None \<Rightarrow> a0 | Some sc \<Rightarrow> snd (applySignedConfig verify json node key ev1 sc a0))
     in case ag_cache a of
          None \<Rightarrow> a
        | Some sc \<Rightarrow>
            (let newer = rc_revision (sc_config sc) > ag_revision a;
                 longer = (case pulled of None \<Rightarrow> False
                   | Some h \<Rightarrow> rc_revision (sc_config sc) = ag_revision a \<and>
                              rc_expires_at (sc_config sc) > rc_expires_at (sc_config h))
             in if newer \<or> longer then snd (applySignedConfig verify json node key ev2 sc a) else a))"

text \<open>The receiving half of the control connection: a message without a configuration changes nothing
  here.\<close>

definition handle_config_message ::
  "ed_verify \<Rightarrow> (relay_config \<Rightarrow> string option) \<Rightarrow> string \<Rightarrow> string \<Rightarrow> agent_env \<Rightarrow> string \<Rightarrow> signed_config option \<Rightarrow>
     agent \<Rightarrow> agent" where
  "handle_config_message verify json node key ev kind config a =
    (if kind = ''config'' then
       (case config of None \<Rightarrow> a | Some sc \<Rightarrow> snd (applySignedConfig verify json node key ev sc a))
     else a)"

section \<open>The agent as it runs\<close>

text \<open>Everything that can happen to the relay service: a configuration arrives from anywhere, the
  agent starts, or a lease that was armed ends.\<close>

inductive agent_reach ::
  "ed_verify \<Rightarrow> (relay_config \<Rightarrow> string option) \<Rightarrow> string \<Rightarrow> string \<Rightarrow> relay \<Rightarrow> agent \<Rightarrow> bool"
  for verify json node key r where
  begun: "agent_reach verify json node key r
    \<lparr> ag_service = new_service node r, ag_revision = 0, ag_cache = cache \<rparr>"
| boot: "agent_reach verify json node key r a \<Longrightarrow>
    agent_reach verify json node key r (bootstrapConfig verify json node key ev1 ev2 pulled a)"
| message: "agent_reach verify json node key r a \<Longrightarrow>
    agent_reach verify json node key r (handle_config_message verify json node key ev kind config a)"
| lease_end: "agent_reach verify json node key r a \<Longrightarrow> (rv, t) \<in> set (sv_armed (ag_service a)) \<Longrightarrow>
    agent_reach verify json node key r (a\<lparr> ag_service := expireConfig rv t (ag_service a) \<rparr>)"

section \<open>What the agent runs\<close>

definition trusted :: "ed_verify \<Rightarrow> (relay_config \<Rightarrow> string option) \<Rightarrow> string \<Rightarrow> string \<Rightarrow> relay_config \<Rightarrow> bool" where
  "trusted verify json node key cfg \<longleftrightarrow>
     rc_node_id cfg = node \<and> (\<exists>sig. VerifyJSON verify json key cfg sig = None)"

definition agent_inv :: "ed_verify \<Rightarrow> (relay_config \<Rightarrow> string option) \<Rightarrow> string \<Rightarrow> string \<Rightarrow> agent \<Rightarrow> bool" where
  "agent_inv verify json node key a \<longleftrightarrow> (let s = ag_service a in
     sv_node s = node \<and> sv_revision s = ag_revision a \<and>
     (rc_tunnels (sv_config s) = [] \<and> rc_forwards (sv_config s) = [] \<or> trusted verify json node key (sv_config s)) \<and>
     (\<forall>l\<in>set (sv_servers s). \<exists>cfg. trusted verify json node key cfg \<and> rc_revision cfg = sv_revision s \<and>
        l \<in> set (planned_listeners node cfg)) \<and>
     rc_revision (sv_config s) = sv_revision s)"

lemma planned_empty [simp]:
  "rc_tunnels cfg = [] \<Longrightarrow> rc_forwards cfg = [] \<Longrightarrow> planned_listeners node cfg = []"
  by (simp add: planned_listeners_def)

lemma agent_inv_apply:
  assumes "agent_inv verify json node key a"
  shows "agent_inv verify json node key (snd (applySignedConfig verify json node key ev sc a)) \<and>
    ag_revision a \<le> ag_revision (snd (applySignedConfig verify json node key ev sc a))"
proof (cases "verifySignedConfig verify json (ev_verify_at ev) node key sc = None \<and>
    \<not> rc_revision (sc_config sc) < ag_revision a")
  case False
  then show ?thesis using assms by (auto simp: applySignedConfig_def split: option.splits)
next
  case True
  then have tr: "trusted verify json node key (sc_config sc)"
    by (auto simp: trusted_def verifySignedConfig_def Let_def err_simps)
  obtain e s where ap: "Apply (ev_listen ev) (ev_apply_at ev) (sc_config sc) (ag_service a) = (e, s)" by force
  then have node: "sv_node s = sv_node (ag_service a)" by (metis Apply_node snd_conv)
  show ?thesis
  proof (cases e)
    case None
    note ok = apply_success_lemma [OF ap [unfolded None]]
    have "l \<in> set (sv_servers s) \<Longrightarrow> \<exists>cfg. trusted verify json node key cfg \<and>
        rc_revision cfg = sv_revision s \<and> l \<in> set (planned_listeners node cfg)" for l
      using ok tr assms unfolding agent_inv_def Let_def by (metis (no_types, lifting))
    then show ?thesis
      using True None ok tr assms node by (auto simp: applySignedConfig_def ap agent_inv_def Let_def)
  next
    case (Some x)
    note bad = apply_failure_outcome [OF ap [unfolded Some]]
    have "l \<in> set (sv_servers s) \<Longrightarrow> \<exists>cfg. trusted verify json node key cfg \<and>
        rc_revision cfg = sv_revision s \<and> l \<in> set (planned_listeners node cfg)" for l
      using bad assms unfolding agent_inv_def Let_def
      by (metis empty_iff list.set(1) planned_empty)
    then show ?thesis
      using True Some bad assms node by (auto simp: applySignedConfig_def ap agent_inv_def Let_def)
  qed
qed

lemma agent_inv_expire:
  assumes "agent_inv verify json node key a"
  shows "agent_inv verify json node key (a\<lparr> ag_service := expireConfig rv t (ag_service a) \<rparr>)"
  using assms by (auto simp: agent_inv_def Let_def expireConfig_def zero_config_def)

lemma agent_inv_reach:
  assumes "agent_reach verify json node key r a"
  shows "agent_inv verify json node key a"
  using assms
proof (induction rule: agent_reach.induct)
  case (begun cache)
  then show ?case by (simp add: agent_inv_def new_service_def zero_config_def)
next
  case (boot a ev1 ev2 pulled)
  then show ?case
    by (auto simp: bootstrapConfig_def Let_def agent_inv_apply split: option.splits)
next
  case (message a ev kind config)
  then show ?case by (auto simp: handle_config_message_def agent_inv_apply split: option.splits)
next
  case (lease_end a rv t)
  from lease_end.IH show ?case by (rule agent_inv_expire)
qed

text \<open>C8: whatever arrives and whatever fails, a relay only ever listens on what a configuration asks
  for that was signed under its key, is for this node, and has the revision the agent reports; and no
  message takes the agent back to an older revision.\<close>

theorem agent_serves_signed:
  assumes "agent_reach verify json node key r a"
  shows "(\<forall>l\<in>set (sv_servers (ag_service a)). \<exists>cfg sig. VerifyJSON verify json key cfg sig = None \<and>
      rc_node_id cfg = node \<and> rc_revision cfg = ag_revision a \<and> l \<in> set (planned_listeners node cfg)) \<and>
    sv_revision (ag_service a) = ag_revision a \<and>
    ag_revision a \<le> ag_revision (snd (applySignedConfig verify json node key ev sc a))"
proof -
  have inv: "agent_inv verify json node key a" by (rule agent_inv_reach [OF assms])
  then have eq: "sv_revision (ag_service a) = ag_revision a" by (simp add: agent_inv_def Let_def)
  from inv have srv: "\<forall>l\<in>set (sv_servers (ag_service a)). \<exists>cfg. trusted verify json node key cfg \<and>
      rc_revision cfg = ag_revision a \<and> l \<in> set (planned_listeners node cfg)"
    unfolding agent_inv_def Let_def eq by (elim conjE)
  show ?thesis
    using srv eq agent_inv_apply [OF inv, of ev sc] unfolding trusted_def by blast
qed

text \<open>after a restart with the controller unreachable, the agent runs its cached configuration
  again exactly when the cache holds one that it would still accept from the controller and its
  listeners can be opened; otherwise it runs nothing.\<close>

theorem offline_restart:
  fixes node r cache
  defines "a0 \<equiv> \<lparr> ag_service = new_service node r, ag_revision = 0, ag_cache = cache \<rparr>"
  shows "sv_live (ag_service (bootstrapConfig verify json node key ev1 ev2 None a0)) \<longleftrightarrow>
    (\<exists>sc. cache = Some sc \<and> 0 < rc_revision (sc_config sc) \<and>
       verifySignedConfig verify json (ev_verify_at ev2) node key sc = None \<and>
       fst (Apply (ev_listen ev2) (ev_apply_at ev2) (sc_config sc) (new_service node r)) = None)"
proof -
  have "sv_live s' \<longleftrightarrow> e = None" if "Apply L now cfg (new_service node r) = (e, s')" for L now cfg e s'
  proof (cases e)
    case None
    then show ?thesis using apply_success_lemma that by blast
  next
    case (Some x)
    then show ?thesis
      using apply_failure_outcome [of L now cfg "new_service node r" x s'] that
      by (auto simp: Apply_def restorePreviousConfig_def new_service_def zero_config_def Let_def
          split: if_splits prod.splits option.splits)
  qed
  then show ?thesis
    unfolding a0_def
    by (auto simp: bootstrapConfig_def applySignedConfig_def Let_def new_service_def
        split: option.splits prod.splits)
qed

section \<open>Witnesses\<close>

definition ex_json :: "relay_config \<Rightarrow> string option" where
  "ex_json c = Some (rc_node_id c)"

definition ex_signed :: signed_config where
  "ex_signed = \<lparr> sc_config = (ex_config 7 100)\<lparr> rc_issued_at := 10 \<rparr>,
     sc_signature = EncodeKey (toy_sign (ex_seed @ ex_pub) ''n2''), sc_key_id = EncodeKey ex_pub \<rparr>"

definition ex_agent_env :: agent_env where
  "ex_agent_env = \<lparr> ev_verify_at = 20, ev_apply_at = 21, ev_listen = ex_listen, ev_saved = True \<rparr>"

definition ex_agent :: agent where
  "ex_agent = bootstrapConfig toy_verify ex_json ''n2'' (EncodeKey ex_pub) ex_agent_env ex_agent_env
     (Some ex_signed) \<lparr> ag_service = new_service ''n2'' ex_relay, ag_revision = 0, ag_cache = None \<rparr>"

lemma ex_signed_config: "sc_config ex_signed = (ex_config 7 100)\<lparr> rc_issued_at := 10 \<rparr>"
  by (simp add: ex_signed_def)

lemma ex_signed_accepted: "verifySignedConfig toy_verify ex_json 20 ''n2'' (EncodeKey ex_pub) ex_signed = None"
proof -
  have c: "rc_node_id (sc_config ex_signed) = ''n2''" "rc_issued_at (sc_config ex_signed) = 10"
    "rc_expires_at (sc_config ex_signed) = 100"
    by (simp_all add: ex_signed_config ex_config_def)
  have "VerifyJSON toy_verify ex_json (EncodeKey ex_pub) (sc_config ex_signed) (sc_signature ex_signed) = None"
    by (rule toy_verified [where m = "''n2''"]) (simp_all add: c ex_json_def, simp add: ex_signed_def toy_sign_def ex_seed_def)
  then show ?thesis
    unfolding verifySignedConfig_accepts using c by (simp add: ex_pub_def duration_defs relay_config_lease_def)
qed

lemma ex_applied: "fst (Apply ex_listen 21 (sc_config ex_signed) (new_service ''n2'' ex_relay)) = None"
    "sv_servers (snd (Apply ex_listen 21 (sc_config ex_signed) (new_service ''n2'' ex_relay))) \<noteq> []"
  unfolding ex_signed_config by code_simp+

theorem agent_serves_signed_witness:
  "sv_revision (ag_service ex_agent) = 7 \<and>
   (\<exists>l\<in>set (sv_servers (ag_service ex_agent)). \<exists>cfg sig.
      VerifyJSON toy_verify ex_json (EncodeKey ex_pub) cfg sig = None \<and> rc_node_id cfg = ''n2'' \<and>
      rc_revision cfg = 7 \<and> l \<in> set (planned_listeners ''n2'' cfg))"
proof -
  have "agent_reach toy_verify ex_json ''n2'' (EncodeKey ex_pub) ex_relay ex_agent"
    unfolding ex_agent_def by (intro agent_reach.boot agent_reach.begun)
  note p = agent_serves_signed [OF this]
  have "sv_servers (ag_service ex_agent) \<noteq> [] \<and> ag_revision ex_agent = 7"
    using ex_applied
    by (cases "Apply ex_listen 21 (sc_config ex_signed) (new_service ''n2'' ex_relay)")
      (simp add: ex_agent_def bootstrapConfig_def applySignedConfig_def ex_agent_env_def ex_signed_accepted
        ex_signed_config ex_config_def)
  then obtain l ls where l: "sv_servers (ag_service ex_agent) = l # ls" and rv: "ag_revision ex_agent = 7"
    by (auto simp: neq_Nil_conv)
  have "sv_revision (ag_service ex_agent) = 7" using p rv by simp
  moreover have "l \<in> set (sv_servers (ag_service ex_agent))" using l by simp
  ultimately have "\<exists>cfg sig. VerifyJSON toy_verify ex_json (EncodeKey ex_pub) cfg sig = None \<and>
      rc_node_id cfg = ''n2'' \<and> rc_revision cfg = 7 \<and> l \<in> set (planned_listeners ''n2'' cfg)"
    using p [where ?ev = ex_agent_env and ?sc = ex_signed] by metis
  with \<open>sv_revision (ag_service ex_agent) = 7\<close> \<open>l \<in> set (sv_servers (ag_service ex_agent))\<close>
  show ?thesis by (intro conjI bexI [of _ l]) simp_all
qed

end
