(* ===== verification/Link.thy ===== *)
theory Link
  imports Agent Compile
begin

text \<open>
  Where the controller and the agents meet: what the controller compiles, the agents accept, and two
  agents that run configurations compiled from the same state agree on every link between them.
\<close>

section \<open>The lease\<close>

definition space_bytes :: string where "space_bytes = concat space_seqs"

lemma find_prefix_free:
  assumes "set s \<inter> \<Union> (set ` set ps) = {}"
  shows "find_prefix ps s = None"
  unfolding find_prefix_None
proof (intro ballI impI)
  fix p assume p: "p \<in> set ps" "p \<noteq> []"
  from p(2) obtain c q where "p = c # q" by (auto simp: neq_Nil_conv)
  with p(1) assms have "c \<notin> set s" by fastforce
  with \<open>p = c # q\<close> show "\<not> prefix p s" using set_mono_prefix [of p s] by auto
qed

lemma trim_space_free:
  assumes "set s \<inter> set space_bytes = {}"
  shows "trim_space s = s"
proof -
  have u: "\<Union> (set ` set (map rev space_seqs)) = \<Union> (set ` set space_seqs)" by auto
  have "find_prefix space_seqs s = None"
    using assms by (intro find_prefix_free) (simp add: space_bytes_def)
  moreover have "find_prefix (map rev space_seqs) (rev s) = None"
    using assms by (intro find_prefix_free) (simp only: u set_rev, simp add: space_bytes_def)
  ultimately have "find_prefix space_seqs s = None" "find_prefix (map rev space_seqs) (rev s) = None" .
  then show ?thesis by (simp add: trim_space_def strip_front_fixed)
qed

lemma key_not_blank:
  assumes "k \<noteq> []"
  shows "trim_space (EncodeKey k) \<noteq> []"
proof -
  have "list_all (\<lambda>c. c \<notin> set space_bytes) b64_alphabet" by code_simp
  moreover have "b64_char n \<in> set b64_alphabet" for n
    unfolding b64_char_def by (rule nth_mem) (simp add: b64_alphabet_def)
  ultimately have "set (EncodeKey k) \<inter> set space_bytes = {}"
    by (auto simp: EncodeKey_def b64_encode_groups list_all_iff)
  moreover have "EncodeKey k \<noteq> []"
    using assms by (cases k rule: b64_encode.cases) (auto simp: EncodeKey_def)
  ultimately show ?thesis by (simp add: trim_space_free)
qed

lemma lease_bounds: "0 < configLeaseForNode h node" "configLeaseForNode h node \<le> relay_config_lease"
  by (simp_all add: configLeaseForNode_def relay_config_lease_def legacy_relay_config_lease_def duration_defs)

text \<open>C7: a node that has the public key accepts what the controller compiles for it, on either lease, as
  long as the lease has not run out and the node's clock is at most five minutes behind the
  controller's.\<close>

theorem compiled_accepted:
  assumes "compileConfigWithLease sign json src cool now node (configLeaseForNode h node) = Inr sc"
    and "src_setting src signingKeySetting = Inr (Some (EncodeKey priv))"
    and "signs_for sign verify pub priv"
    and "0 < now" and "now \<le> here + 5 * minute" and "here < now + configLeaseForNode h node"
  shows "verifySignedConfig verify json here node (EncodeKey pub) sc = None"
proof -
  from assms(1) obtain nodes tunnels forwards rv priv' where
    cfg: "sc_config sc = unsigned_config node (activeNodeIDs nodes) tunnels forwards rv now
       (currentFailureCooldown cool) (configLeaseForNode h node)"
    and set: "src_setting src signingKeySetting = Inr priv'"
    and sig: "SignJSON sign json (setting_value priv') (sc_config sc) = Inr (sc_signature sc)"
    by (rule compile_Inr)
  have key: "setting_value priv' = EncodeKey priv" using set assms(2) by (auto simp: setting_value_def)
  have "json (sc_config sc) \<noteq> None"
    using sig by (auto simp: SignJSON_def marshalE_def key err_simps split: option.splits)
  from sign_verify(1) [where json = json and v = "sc_config sc", OF assms(3) this] sig
  have ver: "VerifyJSON verify json (EncodeKey pub) (sc_config sc) (sc_signature sc) = None"
    by (simp add: key)
  have pub: "pub \<noteq> []" using assms(3) by (auto simp: signs_for_def)
  have t: "rc_node_id (sc_config sc) = node" "rc_issued_at (sc_config sc) = now"
    "rc_expires_at (sc_config sc) = now + configLeaseForNode h node"
    by (simp_all add: cfg unsigned_config_def Let_def)
  show ?thesis
    unfolding verifySignedConfig_accepts t using ver key_not_blank [OF pub] assms(4-6) lease_bounds [of h node]
    by auto
qed

section \<open>One scope, two views\<close>

lemma seen_facts:
  assumes "seen_tunnel i (Some act) t0 = Some t"
  shows "filterActiveTunnelNodes t0 act = Some t" and "tun_enabled t" and "nodeParticipatesInTunnel i t"
    and "tun_id t = tun_id t0" and "tun_type t = tun_type t0" and "tun_transport t = tun_transport t0"
proof -
  show f: "filterActiveTunnelNodes t0 act = Some t" and "tun_enabled t" "nodeParticipatesInTunnel i t"
    using assms by (auto simp: seen_tunnel_def split: option.splits if_splits)
  from filterActive_facts(1) [OF f] obtain ss where "t = t0\<lparr> tun_stages := ss \<rparr>" by blast
  then show "tun_id t = tun_id t0" "tun_type t = tun_type t0" "tun_transport t = tun_transport t0" by simp_all
qed

lemma seen_other:
  assumes "seen_tunnel i (Some act) t0 = Some t" and "nodeParticipatesInTunnel j t"
  shows "seen_tunnel j (Some act) t0 = Some t"
  using seen_facts [OF assms(1)] assms(2) by (simp add: seen_tunnel_def)

lemma distinct_concat_nth:
  assumes "distinct (concat xss)" and "x \<in> set (xss ! i)" and "x \<in> set (xss ! j)"
    and "i < length xss" and "j < length xss"
  shows "i = j"
  using assms
proof (induction xss arbitrary: i j)
  case Nil
  then show ?case by simp
next
  case (Cons ys xss)
  have out: "x \<notin> set ys" if "x \<in> set (xss ! k)" "k < length xss" for k
    using Cons.prems(1) that nth_mem [OF that(2)] by fastforce
  show ?case
    using Cons out by (cases i; cases j) auto
qed

text \<open>The stage of a tunnel that a node is on, in a tunnel that passed validation.\<close>

lemma wf_stage:
  assumes "tunnel_wf t0" and "filterActiveTunnelNodes t0 act = Some t" and "k < length (tun_stages t)"
  shows "stg_index (tun_stages t ! k) = int k"
    and "stg_role (tun_stages t ! k) = (if k = 0 then StageEntry
           else if Suc k = length (tun_stages t) then StageExit else StageMiddle)"
    and "set (stg_nodes (tun_stages t ! k)) \<subseteq> set (stg_nodes (tun_stages t0 ! k))"
  using assms filterActive_facts [OF assms(2)]
  by (auto simp: tunnel_wf_def stages_wf_def)

lemma wf_node_unique:
  assumes "tunnel_wf t0" and "filterActiveTunnelNodes t0 act = Some t"
    and "k < length (tun_stages t)" and "n \<in> set (stg_nodes (tun_stages t ! k))"
    and "l < length (tun_stages t)" and "m \<in> set (stg_nodes (tun_stages t ! l))"
    and "sn_node_id n = sn_node_id m"
  shows "k = l" and "n = m"
proof -
  let ?ids = "map (\<lambda>s. map sn_node_id (stg_nodes s)) (tun_stages t0)"
  have len: "length (tun_stages t) = length (tun_stages t0)" by (rule filterActive_facts(2) [OF assms(2)])
  have n: "n \<in> set (stg_nodes (tun_stages t0 ! k))" and m: "m \<in> set (stg_nodes (tun_stages t0 ! l))"
    using wf_stage(3) [OF assms(1,2)] assms(3-6) by blast+
  have d: "distinct (concat ?ids)"
    using assms(1) by (simp add: tunnel_wf_def tunnel_node_ids_def map_concat comp_def)
  have "sn_node_id n \<in> set (?ids ! k)" "sn_node_id n \<in> set (?ids ! l)"
    using n m len assms(3,5,7) by (auto intro: rev_image_eqI)
  from distinct_concat_nth [OF d this] show kl: "k = l" using len assms(3,5) by simp
  have "?ids ! k \<in> set ?ids" using assms(3) len by (intro nth_mem) simp
  with d have "distinct (?ids ! k)" by (auto simp: distinct_concat_iff)
  then have "inj_on sn_node_id (set (stg_nodes (tun_stages t0 ! k)))"
    using assms(3) len by (simp add: distinct_map)
  with n m kl assms(7) show "n = m" by (auto dest: inj_onD)
qed

lemma find_unique:
  assumes "x \<in> set xs" and "P x" and "\<And>y. y \<in> set xs \<Longrightarrow> P y \<Longrightarrow> y = x"
  shows "List.find P xs = Some x"
proof (cases "List.find P xs")
  case None
  with assms(1,2) show ?thesis by (auto simp: find_None_iff)
next
  case (Some y)
  then have "y \<in> set xs" "P y" by (auto simp: find_Some_iff)
  with assms(3) Some show ?thesis by blast
qed

lemma concat_stage_nodes:
  "m \<in> set (concat (map stg_nodes (tun_stages t))) \<longleftrightarrow>
     (\<exists>l<length (tun_stages t). m \<in> set (stg_nodes (tun_stages t ! l)))"
proof -
  have "m \<in> set (concat (map stg_nodes (tun_stages t))) \<longleftrightarrow> (\<exists>s\<in>set (tun_stages t). m \<in> set (stg_nodes s))"
    by auto
  then show ?thesis by (metis in_set_conv_nth)
qed

lemma node_place:
  assumes "tunnel_wf t0" and "filterActiveTunnelNodes t0 act = Some t"
    and "k < length (tun_stages t)" and "n \<in> set (stg_nodes (tun_stages t ! k))"
  shows "tunnelStageNodeForNode t (sn_node_id n) = Some n"
    and "nodeTunnelRole (sn_node_id n) t = Some (stg_role (tun_stages t ! k))"
    and "stageNodeFor (scope_stage i t k (tun_stages t ! k)) (sn_node_id n) = Some (scope_node i t k n)"
    and "nodeParticipatesInTunnel (sn_node_id n) t"
proof -
  note uniq = wf_node_unique [OF assms]
  show "tunnelStageNodeForNode t (sn_node_id n) = Some n"
    unfolding tunnelStageNodeForNode_def
  proof (rule find_unique)
    show "n \<in> set (concat (map stg_nodes (tun_stages t)))"
      unfolding concat_stage_nodes using assms(3,4) by blast
    fix y assume "y \<in> set (concat (map stg_nodes (tun_stages t)))" "sn_node_id y = sn_node_id n"
    then show "y = n" unfolding concat_stage_nodes using uniq(2) by metis
  qed simp
  have "List.find (stage_has (sn_node_id n)) (tun_stages t) = Some (tun_stages t ! k)"
  proof (rule find_unique)
    show "tun_stages t ! k \<in> set (tun_stages t)" using assms(3) by simp
    show "stage_has (sn_node_id n) (tun_stages t ! k)" using assms(4) by (auto simp: stage_has_iff)
    fix s assume "s \<in> set (tun_stages t)" "stage_has (sn_node_id n) s"
    then obtain l m where "l < length (tun_stages t)" "s = tun_stages t ! l"
      "m \<in> set (stg_nodes s)" "sn_node_id n = sn_node_id m" by (auto simp: in_set_conv_nth stage_has_iff)
    with uniq(1) show "s = tun_stages t ! k" by auto
  qed
  then show r: "nodeTunnelRole (sn_node_id n) t = Some (stg_role (tun_stages t ! k))"
    by (simp add: nodeTunnelRole_def)
  then show "nodeParticipatesInTunnel (sn_node_id n) t" by (simp add: nodeParticipatesInTunnel_def)
  show "stageNodeFor (scope_stage i t k (tun_stages t ! k)) (sn_node_id n) = Some (scope_node i t k n)"
    unfolding stageNodeFor_def
  proof (rule find_unique)
    show "scope_node i t k n \<in> set (rst_nodes (scope_stage i t k (tun_stages t ! k)))"
      using assms(4) by (simp add: scope_stage_def)
    show "rn_node_id (scope_node i t k n) = sn_node_id n" by (simp add: scope_node_def)
    fix y assume y: "y \<in> set (rst_nodes (scope_stage i t k (tun_stages t ! k)))" "rn_node_id y = sn_node_id n"
    then obtain m where m: "m \<in> set (stg_nodes (tun_stages t ! k))" "y = scope_node i t k m"
      by (auto simp: scope_stage_def)
    with y(2) have "sn_node_id n = sn_node_id m" by (simp add: scope_node_def)
    with uniq(2) assms(3) m show "y = scope_node i t k n" by blast
  qed
qed

section \<open>The link\<close>

lemma unsigned_simps [simp]:
  "rc_tunnels (unsigned_config i act ts fs rv now cool lease) =
     fst (scopeConfigForNodeWithActiveNodes i (Some act) ts fs)"
  "rc_forwards (unsigned_config i act ts fs rv now cool lease) =
     snd (scopeConfigForNodeWithActiveNodes i (Some act) ts fs)"
  by (simp_all add: unsigned_config_def Let_def)

text \<open>A forward is found under its id with exactly the scope of the node.\<close>

lemma findForward_scoped:
  assumes "distinct (map tun_id ts)" and "distinct (map fwd_id fs)" and "t0 \<in> set ts" and "f \<in> set fs"
    and "seen_tunnel i (Some act) t0 = Some t" and "fwd_tunnel_id f = tun_id t"
    and "scopeForwardRuntime i f t (the (nodeTunnelRole i t)) = Some fr"
  shows "findForward (unsigned_config i act ts fs rv now cool lease) (fwd_id f) = Some fr"
  unfolding findForward_def unsigned_simps
proof (rule find_unique)
  have "fr \<in> set (seen_forwards i fs t)"
    using assms(4,6,7) by (auto simp: seen_forwards_def map_filter_mem)
  then show "fr \<in> set (snd (scopeConfigForNodeWithActiveNodes i (Some act) ts fs))"
    using assms(3,5) by (auto simp: scope_forward_mem)
  show "frt_id fr = fwd_id f" by (rule scope_forward_fields(1) [OF assms(7)])
  fix y assume "y \<in> set (snd (scopeConfigForNodeWithActiveNodes i (Some act) ts fs))" and id: "frt_id y = fwd_id f"
  then obtain u0 u g where u: "u0 \<in> set ts" "seen_tunnel i (Some act) u0 = Some u" and g: "g \<in> set fs"
    "fwd_tunnel_id g = tun_id u" "scopeForwardRuntime i g u (the (nodeTunnelRole i u)) = Some y"
    by (auto simp: scope_forward_mem seen_forwards_def map_filter_mem)
  have "fwd_id g = fwd_id f" using scope_forward_fields(1) [OF g(3)] id by simp
  with assms(2,4) g(1) have gf: "g = f" by (auto simp: distinct_map dest: inj_onD)
  with g(2) assms(6) have "tun_id u0 = tun_id t0" using seen_facts(4) [OF u(2)] seen_facts(4) [OF assms(5)] by simp
  with assms(1,3) u(1) have "u0 = t0" by (auto simp: distinct_map dest: inj_onD)
  with u(2) assms(5) have "u = t" by simp
  with g(3) gf assms(7) show "y = fr" by simp
qed

lemma stage_listener_planned:
  assumes "tr \<in> set (rc_tunnels cfg)" and "s \<in> set (trt_stages tr)" and "rst_role s \<noteq> StageEntry"
    and "stageNodeFor s i = Some m"
  shows "StageListener tr s m \<in> set (planned_listeners i cfg)"
proof -
  have "StageListener tr s m \<in> set (tunnel_listeners i tr)"
    using assms(2-4) by (force simp: tunnel_listeners_def)
  then show ?thesis using assms(1) by (force simp: planned_listeners_def)
qed

lemma scoped_protocol:
  assumes "p \<in> set (fwd_protocols f)" and "tunnelStageNodeForNode t i = Some n"
    and "sn_protocols n = [] \<and> p \<in> {ProtoTCP, ProtoUDP} \<or> p \<in> set (sn_protocols n)"
  shows "p \<in> set (forward_protocols_for i f t)"
  using assms
  by (auto simp: forward_protocols_for_def filterForwardProtocols_def candidateSupportsProtocol_def)

lemma scopeForwardRuntime_Some:
  "p \<in> set (forward_protocols_for i f t) \<Longrightarrow> \<exists>fr. scopeForwardRuntime i f t role = Some fr"
  by (auto simp: scopeForwardRuntime_def Let_def)

text \<open>C6: two relays whose configurations were compiled from the same valid tunnels and forwards, under
  distinct ids, agree on the links between them: whenever the configuration of one offers a candidate
  on the next stage for a forward and a protocol, the candidate's own configuration makes it listen
  there, at the listen address the first one is given for it and with the same link secret, and it
  accepts the hello the first one sends exactly if that secret is present and at most 256 bytes long
  (validation alone lets longer ones through).\<close>

theorem links_agree:
  assumes valid: "\<forall>t\<in>set ts. validate_Tunnel t = None" "distinct (map tun_id ts)"
    "\<forall>f\<in>set fs. validate_Forward f = None" "distinct (map fwd_id fs)"
    and dialler: "tr \<in> set (rc_tunnels (unsigned_config a act ts fs rv now cool lease))"
      "fr \<in> set (rc_forwards (unsigned_config a act ts fs rv now cool lease))"
      "frt_tunnel_id fr = trt_id tr" "frt_enabled fr" "runtime_stage_has a (trt_stages tr ! k)"
    and candidate: "Suc k < length (trt_stages tr)" "n \<in> set (rst_nodes (trt_stages tr ! Suc k))"
      "net \<in> set (frt_protocols fr)" "runtimeNodeSupportsProtocol n net"
  shows "\<exists>tr' s m. StageListener tr' s m \<in> set (planned_listeners (rn_node_id n)
        (unsigned_config (rn_node_id n) act ts fs rv now' cool lease')) \<and> rn_listen m = rn_listen n \<and>
      mget (rn_settings m) ''secret'' = mget (rn_settings n) ''secret'' \<and>
      (validateHello sha (unsigned_config (rn_node_id n) act ts fs rv now' cool lease') tr' s m
         (stage_hello tr fr (int k) (int (Suc k)) net n) = None \<longleftrightarrow>
       mget (rn_settings n) ''secret'' \<noteq> [] \<and> length (mget (rn_settings n) ''secret'') \<le> 256)"
proof -
  let ?b = "rn_node_id n" and ?cfg = "unsigned_config (rn_node_id n) act ts fs rv now' cool lease'"
  from dialler(1) obtain t0 t where t0: "t0 \<in> set ts" and t: "seen_tunnel a (Some act) t0 = Some t"
    and tr: "tr = scopeTunnelRuntime a t" by (auto simp: scope_tunnel_mem)
  note ft = seen_facts(1) [OF t]
  have wf: "tunnel_wf t0" using valid(1) t0 by (auto simp: validate_Tunnel_wf)
  have k: "Suc k < length (tun_stages t)" using candidate(1) by (simp add: tr scope_stage_nth)
  from candidate(2) k obtain sn where sn: "sn \<in> set (stg_nodes (tun_stages t ! Suc k))"
    and n: "n = scope_node a t (Suc k) sn" by (auto simp: tr scope_stage_nth) (auto simp: scope_stage_def)
  have b: "?b = sn_node_id sn" by (simp add: n scope_node_def)
  note place = node_place [OF wf ft k sn]
  have tb: "seen_tunnel ?b (Some act) t0 = Some t" using seen_other [OF t] place(4) b by simp
  have ak: "stage_has a (tun_stages t ! k)" using dialler(5) k by (simp add: tr scope_stage_nth)
  then obtain an where an: "an \<in> set (stg_nodes (tun_stages t ! k))" "sn_node_id an = a"
    by (auto simp: stage_has_iff)
  have ab: "sn_node_id sn \<noteq> a"
    using wf_node_unique(1) [OF wf ft k sn _ an(1)] an(2) k by auto
  define s where "s = scope_stage ?b t (Suc k) (tun_stages t ! Suc k)"
  define m where "m = scope_node ?b t (Suc k) sn"
  have role: "rst_role s \<noteq> StageEntry" "rst_index s = int (Suc k)"
    using wf_stage(1,2) [OF wf ft k] by (simp_all add: s_def scope_stage_def enum_defs)
  have "scopeTunnelRuntime ?b t \<in> set (rc_tunnels ?cfg)" using t0 tb by (auto simp: scope_tunnel_mem)
  moreover have "s \<in> set (trt_stages (scopeTunnelRuntime ?b t))"
    using k nth_mem [of "Suc k" "trt_stages (scopeTunnelRuntime ?b t)"] by (simp add: scope_stage_nth s_def)
  moreover have "stageNodeFor s ?b = Some m" using place(3) [of ?b] by (simp add: s_def m_def b)
  ultimately have listens: "StageListener (scopeTunnelRuntime ?b t) s m \<in> set (planned_listeners ?b ?cfg)"
    using role(1) by (intro stage_listener_planned)
  have secret: "mget (rn_settings m) ''secret'' = mget (sn_settings sn) ''secret''"
    "mget (rn_settings n) ''secret'' = mget (sn_settings sn) ''secret''"
    using ab ak k by (simp_all add: m_def n b scope_node_def previousStageNodeHasNode_def listenerSettings_get
        dialerSettings_get listener_key_facts dialer_key_facts)
  from dialler(2) obtain u0 u f where u: "u0 \<in> set ts" "seen_tunnel a (Some act) u0 = Some u"
    and f: "f \<in> set fs" "fwd_tunnel_id f = tun_id u" "scopeForwardRuntime a f u (the (nodeTunnelRole a u)) = Some fr"
    by (auto simp: scope_forward_mem seen_forwards_def map_filter_mem)
  note ff = scope_forward_fields [OF f(3)]
  have "tun_id u0 = tun_id t0"
    using dialler(3) ff(2) f(2) seen_facts(4) [OF u(2)] seen_facts(4) [OF t] by (simp add: tr scopeTunnelRuntime_def)
  with valid(2) t0 u(1) have "u0 = t0" by (auto simp: distinct_map dest: inj_onD)
  with u(2) t have ut: "u = t" by simp
  have net: "net \<in> {ProtoTCP, ProtoUDP}" "sn_protocols sn = [] \<or> net \<in> set (sn_protocols sn)"
    using candidate(4) by (auto simp: runtimeNodeSupportsProtocol_def n scope_node_def split: if_splits)
  have "net \<in> set (fwd_protocols f)"
    using candidate(3) by (auto simp: ff(4) forward_protocols_for_def filterForwardProtocols_def split: option.splits)
  then have pb: "net \<in> set (forward_protocols_for ?b f t)"
    using scoped_protocol [OF _ place(1)] net b by auto
  then obtain fb where fb: "scopeForwardRuntime ?b f t (the (nodeTunnelRole ?b t)) = Some fb"
    using scopeForwardRuntime_Some by blast
  have find: "findForward ?cfg (frt_id fr) = Some fb"
    using findForward_scoped [OF valid(2,4) t0 f(1) tb _ fb] f(2) ut ff(1) by simp
  note fbf = scope_forward_fields [OF fb]
  have tid: "length (tun_id t) \<le> MaxIDBytes"
    using wf seen_facts(4) [OF t] by (simp add: tunnel_wf_def text_ok_def)
  have fid: "length (fwd_id f) \<le> MaxIDBytes"
    using valid(3) f(1) by (auto simp: validate_Forward_wf forward_wf_def text_ok_def)
  have "validateHello sha ?cfg (scopeTunnelRuntime ?b t) s m (stage_hello tr fr (int k) (int (Suc k)) net n) = None \<longleftrightarrow>
      mget (rn_settings n) ''secret'' \<noteq> [] \<and> length (mget (rn_settings n) ''secret'') \<le> 256"
    unfolding validateHello_accepts
    using role tid fid secret find fbf pb net ff(1,3) dialler(4) f(2) ut
    by (auto simp: stage_hello_def tr scopeTunnelRuntime_def enum_defs m_def scope_node_def)
  moreover have "rn_listen m = rn_listen n" by (simp add: m_def n scope_node_def)
  moreover have "mget (rn_settings m) ''secret'' = mget (rn_settings n) ''secret''" using secret by simp
  ultimately show ?thesis
    using listens by (intro exI [of _ "scopeTunnelRuntime ?b t"] exI [of _ s] exI [of _ m]) (intro conjI)
qed

section \<open>Witnesses\<close>

definition ex_src :: "unit config_source" where
  "ex_src = \<lparr> src_nodes = Inr [], src_tunnels = Inr [], src_forwards = Inr [], src_revision = Inr 3,
     src_setting = (\<lambda>k. Inr (Some (EncodeKey (ex_seed @ ex_pub)))) \<rparr>"

theorem compiled_accepted_witness:
  "\<exists>sc. compileConfigWithLease toy_sign ex_json ex_src 0 100 ''n2'' legacy_relay_config_lease = Inr sc \<and>
     verifySignedConfig toy_verify ex_json 50 ''n2'' (EncodeKey ex_pub) sc = None"
proof -
  have lease: "configLeaseForNode new_hub ''n2'' = legacy_relay_config_lease"
    by (simp add: configLeaseForNode_def SupportsLongConfigLease_def new_hub_def)
  have len: "length (ex_seed @ ex_pub) = 64" by (simp add: ex_seed_def ex_pub_def)
  have "\<exists>sc. compileConfigWithLease toy_sign ex_json ex_src 0 100 ''n2'' legacy_relay_config_lease = Inr sc"
    by (simp add: compileConfigWithLease_def ex_src_def readE_def signE_def SignJSON_def Let_def marshalE_def
        setting_value_def Decode_EncodeKey(2) [OF len] ex_json_def)
  then obtain sc where sc: "compileConfigWithLease toy_sign ex_json ex_src 0 100 ''n2'' legacy_relay_config_lease = Inr sc"
    by blast
  have "verifySignedConfig toy_verify ex_json 50 ''n2'' (EncodeKey ex_pub) sc = None"
  proof (rule compiled_accepted [OF _ _ ex_signs])
    show "compileConfigWithLease toy_sign ex_json ex_src 0 100 ''n2'' (configLeaseForNode new_hub ''n2'') = Inr sc"
      using sc by (simp add: lease)
    show "src_setting ex_src signingKeySetting = Inr (Some (EncodeKey (ex_seed @ ex_pub)))"
      by (simp add: ex_src_def)
  qed (simp_all add: lease legacy_relay_config_lease_def duration_defs)
  with sc show ?thesis by blast
qed

definition ex_live :: tunnel where
  "ex_live = ex_chain\<lparr> tun_name := ''chain'' \<rparr>"

definition ex_live_forward :: forward where
  "ex_live_forward = ex_chain_forward\<lparr> fwd_targets := [legacy_target ''10.0.0.9:80''] \<rparr>"

definition ex_scope :: "string \<Rightarrow> relay_config" where
  "ex_scope i = unsigned_config i [''a'', ''b'', ''c''] [ex_live] [ex_live_forward] 3 100 (5 * second) hour"

theorem links_agree_witness:
  "\<exists>tr' s m. StageListener tr' s m \<in> set (planned_listeners ''b'' (ex_scope ''b'')) \<and>
     validateHello (\<lambda>x. x) (ex_scope ''b'') tr' s m
       (stage_hello (rc_tunnels (ex_scope ''a'') ! 0) (rc_forwards (ex_scope ''a'') ! 0) 0 1 ''tcp''
          (rst_nodes (trt_stages (rc_tunnels (ex_scope ''a'') ! 0) ! 1) ! 0)) = None"
proof -
  let ?tr = "rc_tunnels (ex_scope ''a'') ! 0" and ?fr = "rc_forwards (ex_scope ''a'') ! 0"
  let ?n = "rst_nodes (trt_stages ?tr ! 1) ! 0"
  have "validate_Tunnel ex_live = None" "validate_Forward ex_live_forward = None"
    by code_simp+
  moreover have "length (rc_tunnels (ex_scope ''a'')) = 1 \<and> length (rc_forwards (ex_scope ''a'')) = 1 \<and>
      frt_tunnel_id ?fr = trt_id ?tr \<and> frt_enabled ?fr \<and> length (trt_stages ?tr) = 2 \<and>
      length (rst_nodes (trt_stages ?tr ! 1)) = 2 \<and> frt_protocols ?fr = [''tcp''] \<and> rn_node_id ?n = ''b'' \<and>
      rn_node_id (rst_nodes (trt_stages ?tr ! 0) ! 0) = ''a'' \<and> length (rst_nodes (trt_stages ?tr ! 0)) = 1 \<and>
      runtimeNodeSupportsProtocol ?n ''tcp'' \<and> mget (rn_settings ?n) ''secret'' \<noteq> [] \<and>
      length (mget (rn_settings ?n) ''secret'') \<le> 256"
    by code_simp
  ultimately have v: "validate_Tunnel ex_live = None" "validate_Forward ex_live_forward = None"
    and c: "length (rc_tunnels (ex_scope ''a'')) = 1" "length (rc_forwards (ex_scope ''a'')) = 1"
      "frt_tunnel_id ?fr = trt_id ?tr" "frt_enabled ?fr" "length (trt_stages ?tr) = 2"
      "length (rst_nodes (trt_stages ?tr ! 1)) = 2" "frt_protocols ?fr = [''tcp'']" "rn_node_id ?n = ''b''"
      "rn_node_id (rst_nodes (trt_stages ?tr ! 0) ! 0) = ''a''" "length (rst_nodes (trt_stages ?tr ! 0)) = 1"
      "runtimeNodeSupportsProtocol ?n ''tcp''"
    and sec: "mget (rn_settings ?n) ''secret'' \<noteq> []" "length (mget (rn_settings ?n) ''secret'') \<le> 256"
    by blast+
  have "runtime_stage_has ''a'' (trt_stages ?tr ! 0)"
    unfolding runtime_stage_has_def using c(9,10) nth_mem [of 0 "rst_nodes (trt_stages ?tr ! 0)"]
    by (auto intro!: image_eqI [of _ rn_node_id "rst_nodes (trt_stages ?tr ! 0) ! 0"])
  moreover have "?tr \<in> set (rc_tunnels (ex_scope ''a''))" "?fr \<in> set (rc_forwards (ex_scope ''a''))"
    "?n \<in> set (rst_nodes (trt_stages ?tr ! Suc 0))"
    using c(1,2,6) by (auto intro!: nth_mem)
  ultimately show ?thesis
    using links_agree [of "[ex_live]" "[ex_live_forward]" ?tr "''a''" "[''a'', ''b'', ''c'']" 3 100 "5 * second" hour
        ?fr 0 ?n "''tcp''" 100 hour "\<lambda>x. x"] v c sec
    by (auto simp: ex_scope_def [symmetric])
qed

end
