(* ===== verification/UdpEntry.thy ===== *)
theory UdpEntry
  imports Dial Counters
begin

text \<open>
  The state of internal/node/relay/udp_runtime.go: the transport of a UDP session on the entry node,
  the session with its bounded queue, the registry of sessions, and the delivery of a packet to the
  session of its client.

  What the connection of a transport answers is a \<open>wire\<close>, a record of functions of a tick
  count, as in Dial.  A transport is read by its own goroutine, \<open>read_loop\<close>; the channel of
  events is a list whose first element is the buffered one and whose second, when there is one, is
  in the hands of the reader.  Whether the context of the service is done is an argument.
\<close>

section \<open>Transports\<close>

datatype udp_error =
    UEOF
  | UClosed
  | UMismatch
  | USessionEmpty
  | UShortWrite
  | UFrame frame_error
  | UNet nat

datatype transport_mode = ModeDatagram | ModeFrame

text \<open>What the failure callback of a transport does: it names the target of a direct tunnel, or
  the next stage.\<close>

datatype failure_target = TargetFailure string | StreamFailure

datatype reader = Reading | Ending | Ended

record transport =
  tp_conn :: conn
  tp_mode :: transport_mode
  tp_forward :: string
  tp_session :: string
  tp_stat :: string
  tp_failure :: failure_target
  tp_events :: "(udp_error + string) list"
  tp_reader :: reader
  tp_closed :: bool
  tp_failed :: bool
  tp_seen :: bool

definition newUDPSessionTransport ::
  "conn \<Rightarrow> transport_mode \<Rightarrow> string \<Rightarrow> string \<Rightarrow> string \<Rightarrow> failure_target \<Rightarrow> transport" where
  "newUDPSessionTransport c mode forwardID sessionID statID failure =
     \<lparr> tp_conn = c, tp_mode = mode, tp_forward = forwardID, tp_session = sessionID, tp_stat = statID,
        tp_failure = failure, tp_events = [], tp_reader = Reading, tp_closed = False,
        tp_failed = False, tp_seen = False \<rparr>"

definition transport_close :: "transport \<Rightarrow> transport" where
  "transport_close t = t\<lparr> tp_closed := True \<rparr>"

text \<open>\<open>w_send\<close> is a Write of a datagram connection, \<open>w_writer\<close> the answers of a stream
  connection and \<open>w_error\<close> the error such a connection fails with.\<close>

record wire =
  w_marshal :: "udp_frame \<Rightarrow> string option"
  w_writer :: "nat \<Rightarrow> writer"
  w_error :: "nat \<Rightarrow> udp_error"
  w_send :: "nat \<Rightarrow> string \<Rightarrow> nat \<times> udp_error option"

definition frame_failure :: "wire \<Rightarrow> nat \<Rightarrow> frame_error \<Rightarrow> udp_error" where
  "frame_failure w k e = (if e = FWriter then w_error w k else UFrame e)"

text \<open>\<open>send\<close>: whether any byte reached the connection, and the error.  The tracker of the frame
  mode has seen progress when the writer has taken a byte.\<close>

definition transport_send :: "wire \<Rightarrow> nat \<Rightarrow> transport \<Rightarrow> string \<Rightarrow> bool \<times> udp_error option" where
  "transport_send w k t payload =
    (if tp_closed t then (False, Some UClosed)
     else if tp_mode t = ModeFrame then
       (let (e, calls, out) = WriteUDPDatagramFrame (w_marshal w) (w_writer w k) 0 []
              \<lparr> uf_forward = tp_forward t, uf_session = tp_session t, uf_payload = payload \<rparr>
        in (out \<noteq> [], map_option (frame_failure w k) e))
     else (case w_send w k payload of
         (n, Some e) \<Rightarrow> (n > 0, Some e)
       | (n, None) \<Rightarrow> if n \<noteq> length payload then (n > 0, Some UShortWrite) else (True, None)))"

text \<open>One turn of the reader: what it got from the connection, checked against the session.\<close>

datatype wire_read = WFrame udp_frame | WData string | WError udp_error

fun read_payload :: "transport \<Rightarrow> wire_read \<Rightarrow> udp_error + string" where
  "read_payload t (WFrame f) =
     (if uf_forward f \<noteq> tp_forward t \<or> uf_session f \<noteq> tp_session t then Inl UMismatch
      else Inr (uf_payload f))"
| "read_payload t (WData buf) = Inr (take MaxUDPPacket buf)"
| "read_payload t (WError e) = Inl e"

text \<open>The reader goes on once its last event is in the channel.  A payload marks the transport as
  seen before it is handed over; an error is handed over unless the transport is closed.\<close>

definition read_loop :: "wire_read \<Rightarrow> transport \<Rightarrow> transport" where
  "read_loop r t =
    (if tp_reader t \<noteq> Reading \<or> length (tp_events t) > 1 then t
     else (case read_payload t r of
         Inl e \<Rightarrow> if tp_closed t then t\<lparr> tp_reader := Ending \<rparr>
                   else t\<lparr> tp_reader := Ending, tp_events := tp_events t @ [Inl e] \<rparr>
       | Inr p \<Rightarrow> t\<lparr> tp_seen := True, tp_events := tp_events t @ [Inr p] \<rparr>))"

text \<open>The reader returns: after its error is in the channel, or because the transport is closed, in
  which case an event in its hands may be dropped.\<close>

definition read_end :: "transport \<Rightarrow> transport" where
  "read_end t =
    (if tp_reader t = Ending \<and> length (tp_events t) \<le> 1
     then (transport_close t)\<lparr> tp_reader := Ended \<rparr>
     else if tp_closed t then t\<lparr> tp_reader := Ended, tp_events := take 1 (tp_events t) \<rparr>
     else t)"

section \<open>Failures of a transport\<close>

text \<open>strings.LastIndex: the greatest position at which a string occurs.\<close>

fun last_index :: "string \<Rightarrow> string \<Rightarrow> nat option" where
  "last_index m [] = (if m = [] then Some 0 else None)"
| "last_index m (c # s) =
    (case last_index m s of
       Some i \<Rightarrow> Some (Suc i)
     | None \<Rightarrow> if prefix m (c # s) then Some 0 else None)"

text \<open>A statistics id names the node of a candidate after its last marker.\<close>

definition candidateNodeIDFromStatID :: "string \<Rightarrow> string \<times> bool" where
  "candidateNodeIDFromStatID statID =
    (case last_index '':candidate:'' statID of
       None \<Rightarrow> ('''', False)
     | Some i \<Rightarrow> (let nodeID = drop (i + length '':candidate:'') statID in (nodeID, nodeID \<noteq> '''')))"

definition markUDPTargetFailure :: "env \<Rightarrow> string \<Rightarrow> string \<Rightarrow> string \<Rightarrow> relay \<Rightarrow> relay" where
  "markUDPTargetFailure e forwardID sessionID targetID r =
    (if targetID = '''' then r
     else (let r1 = fail_target e forwardID targetID ''udp'' r
       in if sessionID \<noteq> '''' then
            r1\<lparr> rl_udp_targets := sessions_delete (udpTargetSessionKey forwardID sessionID) (rl_udp_targets r1) \<rparr>
          else r1))"

definition markUDPStreamFailure ::
  "env \<Rightarrow> tunnel_runtime \<Rightarrow> forward_runtime \<Rightarrow> int \<Rightarrow> string \<Rightarrow> string \<Rightarrow> relay \<Rightarrow> relay" where
  "markUDPStreamFailure e t f fromStage statID sessionID r =
    (let next = fromStage + 1 in
     if next \<ge> int (length (trt_stages t)) then r
     else (case candidateNodeIDFromStatID statID of
         (_, False) \<Rightarrow> r
       | (nodeID, True) \<Rightarrow>
           (let r1 = fail_candidate e (trt_id t) next nodeID ''udp'' r
            in r1\<lparr> rl_udp := sessions_delete (udpSessionKey (trt_id t) (frt_id f) fromStage next sessionID)
                      (rl_udp r1) \<rparr>)))"

definition run_failure :: "env \<Rightarrow> tunnel_runtime \<Rightarrow> forward_runtime \<Rightarrow> transport \<Rightarrow> relay \<Rightarrow> relay" where
  "run_failure e t f tp r =
    (case tp_failure tp of
       TargetFailure targetID \<Rightarrow> markUDPTargetFailure e (frt_id f) (tp_session tp) targetID r
     | StreamFailure \<Rightarrow> markUDPStreamFailure e t f 0 (tp_stat tp) (tp_session tp) r)"

text \<open>\<open>failureOnce\<close>: only the first failure of a transport is reported.\<close>

definition failure_once ::
  "env \<Rightarrow> tunnel_runtime \<Rightarrow> forward_runtime \<Rightarrow> transport \<Rightarrow> relay \<Rightarrow> transport \<times> relay" where
  "failure_once e t f tp r =
    (if tp_failed tp then (tp, r) else (tp\<lparr> tp_failed := True \<rparr>, run_failure e t f tp r))"

definition markFailure ::
  "env \<Rightarrow> tunnel_runtime \<Rightarrow> forward_runtime \<Rightarrow> udp_error \<Rightarrow> transport \<Rightarrow> relay \<Rightarrow> transport \<times> relay" where
  "markFailure e t f err tp r = (if err = UClosed then (tp, r) else failure_once e t f tp r)"

definition markFailureForRetry ::
  "env \<Rightarrow> tunnel_runtime \<Rightarrow> forward_runtime \<Rightarrow> udp_error \<Rightarrow> transport \<Rightarrow> relay \<Rightarrow> transport \<times> relay" where
  "markFailureForRetry e t f err tp r =
    (if err = UClosed then (if \<not> tp_closed tp then (tp, r) else failure_once e t f tp r)
     else markFailure e t f err tp r)"

section \<open>Opening a transport\<close>

definition openUDPEntryTransport ::
  "env \<Rightarrow> forward_runtime \<Rightarrow> tunnel_runtime \<Rightarrow> string \<Rightarrow> relay \<Rightarrow> (dial_error + transport) \<times> relay" where
  "openUDPEntryTransport e f t sessionID r =
    (if trt_type t = TunnelDirect then
       (case dialForwardTarget e f ''udp'' sessionID r of
          (Inl (_, x), r1) \<Rightarrow> (Inl x, r1)
        | (Inr (c, statID, targetID), r1) \<Rightarrow>
            (Inr (newUDPSessionTransport c ModeDatagram (frt_id f) sessionID statID (TargetFailure targetID)), r1))
     else
       (case dialForwardNext e t f 0 ''udp'' sessionID r of
          (Inl (_, x), r1) \<Rightarrow> (Inl x, r1)
        | (Inr (c, statID), r1) \<Rightarrow>
            (Inr (newUDPSessionTransport c ModeFrame (frt_id f) sessionID statID StreamFailure), r1)))"

definition udpEntryAttemptLimit :: "forward_runtime \<Rightarrow> tunnel_runtime \<Rightarrow> nat" where
  "udpEntryAttemptLimit f t =
    (if trt_type t = TunnelDirect then
       (if length (frt_targets f) > 0 then length (frt_targets f) else 1)
     else if length (trt_stages t) \<le> 1 then 1
     else (let n = length (filter (\<lambda>n. runtimeNodeSupportsProtocol n ProtoUDP) (rst_nodes (trt_stages t ! 1)))
       in if n = 0 then 1 else n))"

lemma last_index_append_marker:
  assumes "CHR '':'' \<notin> set n"
  shows "last_index '':candidate:'' (s @ '':candidate:'' @ n) = Some (length s)"
proof -
  have tail: "last_index ('':'' @ x) u = None" if "CHR '':'' \<notin> set u" for x u
    using that by (induction u) auto
  have step: "last_index m (c # u) = None" if "last_index m u = None" "\<not> prefix m (c # u)" for m c u
    using that by simp
  have short: "\<not> prefix m u" if "length u < length m" for m u :: string
    using that prefix_length_le by force
  have n: "last_index '':candidate:'' n = None" using tail [of n "''candidate:''"] assms by simp
  have colon: "\<not> prefix '':candidate:'' (CHR '':'' # n)"
  proof
    assume "prefix '':candidate:'' (CHR '':'' # n)"
    then obtain v where "n = ''candidate:'' @ v" by (auto simp: prefix_def)
    with assms show False by simp
  qed
  have "last_index '':candidate:'' ('':candidate:'' @ n) = Some 0"
    using n colon by (simp add: prefix_def)
  then show ?thesis by (induction s) auto
qed

text \<open>The node a transport to the next stage is blamed on is the node it was opened to.\<close>

lemma candidateNodeID_append:
  assumes "CHR '':'' \<notin> set n" and "n \<noteq> ''''"
  shows "candidateNodeIDFromStatID (s @ '':candidate:'' @ n) = (n, True)"
proof -
  have "drop (length s + 11) (s @ '':candidate:'' @ n) = n" by simp
  then show ?thesis
    unfolding candidateNodeIDFromStatID_def last_index_append_marker [OF assms(1)]
    using assms(2) by (simp add: Let_def)
qed

lemma candidateNodeID_of_stat:
  assumes "CHR '':'' \<notin> set n" and "n \<noteq> ''''"
  shows "candidateNodeIDFromStatID (stageCandidateStatID t i n) = (n, True)"
  using candidateNodeID_append [OF assms, of "''tunnel:'' @ t @ '':stage:'' @ itoa i"]
  unfolding stageCandidateStatID_def append_assoc .

lemma attempt_limit_pos: "1 \<le> udpEntryAttemptLimit f t"
  by (auto simp: udpEntryAttemptLimit_def Let_def Suc_le_eq)

section \<open>Sessions\<close>

definition maxUDPActiveSessions :: int where "maxUDPActiveSessions = 4096"
definition maxUDPSessionQueueEntries :: nat where "maxUDPSessionQueueEntries = 64"
definition maxUDPSessionQueueBytes :: int where "maxUDPSessionQueueBytes = 256 * 1024"

record entry_session =
  es_key :: string
  es_forward :: forward_runtime
  es_tunnel :: tunnel_runtime
  es_client :: string
  es_session :: string
  es_queue :: "string list"
  es_queued :: int
  es_transport :: "transport option"
  es_closed :: bool

definition newUDPEntrySession ::
  "string \<Rightarrow> forward_runtime \<Rightarrow> tunnel_runtime \<Rightarrow> string \<Rightarrow> entry_session" where
  "newUDPEntrySession key f t client =
     \<lparr> es_key = key, es_forward = f, es_tunnel = t, es_client = client,
        es_session = frt_id f @ '':'' @ client, es_queue = [], es_queued = 0, es_transport = None,
        es_closed = False \<rparr>"

definition isUnavailable :: "bool \<Rightarrow> entry_session \<Rightarrow> bool" where
  "isUnavailable ctx_done s \<longleftrightarrow> es_closed s \<or> ctx_done \<or>
     (case es_transport s of Some t \<Rightarrow> tp_closed t | None \<Rightarrow> False)"

definition enqueue :: "bool \<Rightarrow> string \<Rightarrow> entry_session \<Rightarrow> bool \<times> entry_session" where
  "enqueue ctx_done payload s =
    (if length payload > MaxUDPPacket then (False, s)
     else if isUnavailable ctx_done s then (False, s)
     else if es_queued s + int (length payload) > maxUDPSessionQueueBytes then (False, s)
     else if length (es_queue s) < maxUDPSessionQueueEntries then
       (True, s\<lparr> es_queue := es_queue s @ [payload], es_queued := es_queued s + int (length payload) \<rparr>)
     else (False, s))"

definition dequeue :: "string \<Rightarrow> entry_session \<Rightarrow> entry_session" where
  "dequeue payload s =
    (let n = es_queued s - int (length payload)
     in s\<lparr> es_queued := (if n < 0 then 0 else n) \<rparr>)"

text \<open>A session that takes a transport closes the one before; one that is closed closes the new
  one.  The pair is the answer and the transport to close with it.\<close>

definition replaceTransport :: "bool \<Rightarrow> transport \<Rightarrow> entry_session \<Rightarrow> bool \<times> entry_session" where
  "replaceTransport ctx_done t s =
    (if es_closed s \<or> ctx_done then (False, s) else (True, s\<lparr> es_transport := Some t \<rparr>))"

definition session_close :: "entry_session \<Rightarrow> entry_session" where
  "session_close s =
    (if es_closed s then s
     else s\<lparr> es_closed := True, es_transport := map_option transport_close (es_transport s) \<rparr>)"

text \<open>The bounds of the queue; the bytes it counts are the bytes it holds.\<close>

definition queue_ok :: "entry_session \<Rightarrow> bool" where
  "queue_ok s \<longleftrightarrow> length (es_queue s) \<le> maxUDPSessionQueueEntries \<and>
     es_queued s = int (sum_list (map length (es_queue s))) \<and>
     es_queued s \<le> maxUDPSessionQueueBytes \<and> (\<forall>p\<in>set (es_queue s). length p \<le> MaxUDPPacket)"

lemma queue_ok_new [simp]: "queue_ok (newUDPEntrySession key f t client)"
  by (simp add: queue_ok_def newUDPEntrySession_def maxUDPSessionQueueBytes_def)

lemma queue_ok_enqueue: "queue_ok s \<Longrightarrow> queue_ok (snd (enqueue ctx p s))"
  by (auto simp: queue_ok_def enqueue_def)

lemma queue_ok_dequeue:
  "queue_ok s \<Longrightarrow> es_queue s = p # q \<Longrightarrow> queue_ok (dequeue p (s\<lparr> es_queue := q \<rparr>))"
  by (auto simp: queue_ok_def dequeue_def Let_def)

lemma queue_ok_other [simp]:
  "queue_ok (s\<lparr> es_transport := t \<rparr>) = queue_ok s" "queue_ok (s\<lparr> es_closed := b \<rparr>) = queue_ok s"
  by (simp_all add: queue_ok_def)

lemma queue_ok_close [simp]: "queue_ok s \<Longrightarrow> queue_ok (session_close s)"
  by (simp add: session_close_def queue_ok_def)

lemma enqueue_fields:
  "es_key (snd (enqueue ctx p s)) = es_key s" "es_closed (snd (enqueue ctx p s)) = es_closed s"
  "es_transport (snd (enqueue ctx p s)) = es_transport s"
  by (auto simp: enqueue_def)

lemma enqueue_True:
  "fst (enqueue ctx p s) \<Longrightarrow> es_queue (snd (enqueue ctx p s)) = es_queue s @ [p] \<and> \<not> es_closed s \<and> \<not> ctx"
  by (auto simp: enqueue_def isUnavailable_def split: if_splits)

lemma enqueue_False: "\<not> fst (enqueue ctx p s) \<Longrightarrow> snd (enqueue ctx p s) = s"
  by (auto simp: enqueue_def split: if_splits)

section \<open>The registry\<close>

text \<open>A session is an object: the registry holds its place in the list of those created.\<close>

record entry_sessions =
  en_max :: int
  en_generation :: "64 word"
  en_map :: "(string \<times> nat) list"
  en_heap :: "entry_session list"

definition newUDPEntrySessions :: entry_sessions where
  "newUDPEntrySessions =
     \<lparr> en_max = maxUDPActiveSessions, en_generation = 0, en_map = [], en_heap = [] \<rparr>"

definition en_limit :: "entry_sessions \<Rightarrow> int" where
  "en_limit m = (if en_max m \<le> 0 then maxUDPActiveSessions else en_max m)"

definition on_session :: "nat \<Rightarrow> (entry_session \<Rightarrow> entry_session) \<Rightarrow> entry_sessions \<Rightarrow> entry_sessions" where
  "on_session p g m = m\<lparr> en_heap := (en_heap m)[p := g (en_heap m ! p)] \<rparr>"

definition getOrCreate :: "string \<Rightarrow> entry_session \<Rightarrow> entry_sessions \<Rightarrow> (nat option \<times> bool) \<times> entry_sessions" where
  "getOrCreate key create m =
    (case map_of (en_map m) key of
       Some p \<Rightarrow> ((Some p, False), m)
     | None \<Rightarrow>
         if int (length (en_map m)) \<ge> en_limit m then ((None, False), m)
         else ((Some (length (en_heap m)), True),
               m\<lparr> en_map := AList.update key (length (en_heap m)) (en_map m),
                  en_heap := en_heap m @ [create] \<rparr>))"

definition entries_delete :: "string \<Rightarrow> nat \<Rightarrow> entry_sessions \<Rightarrow> entry_sessions" where
  "entries_delete key p m =
    (if map_of (en_map m) key = Some p then m\<lparr> en_map := AList.delete key (en_map m) \<rparr> else m)"

definition entries_closeAll :: "entry_sessions \<Rightarrow> entry_sessions" where
  "entries_closeAll m =
     fold (\<lambda>e. on_session (snd e) session_close) (en_map m) (m\<lparr> en_map := [] \<rparr>)"

text \<open>\<open>watch\<close> starts a goroutine that waits for the context and then closes its generation.\<close>

definition entries_watch :: "entry_sessions \<Rightarrow> 64 word \<times> entry_sessions" where
  "entries_watch m = (let g = en_generation m + 1 in (g, m\<lparr> en_generation := g \<rparr>))"

definition closeIfGeneration :: "64 word \<Rightarrow> entry_sessions \<Rightarrow> entry_sessions" where
  "closeIfGeneration g m =
    (if en_generation m \<noteq> g then m
     else fold (\<lambda>e. on_session (snd e) session_close) (en_map m) (m\<lparr> en_map := [] \<rparr>))"

text \<open>The delivery of one packet: at most two sessions are tried.  The answer of the second
  component are the sessions whose goroutine it started.\<close>

datatype submitted = Queued nat | SessionLimit | QueueFull nat | Dropped

fun submit_attempts ::
  "nat \<Rightarrow> bool \<Rightarrow> string \<Rightarrow> entry_session \<Rightarrow> string \<Rightarrow> entry_sessions \<Rightarrow> submitted \<times> nat list \<times> entry_sessions" where
  "submit_attempts 0 ctx_done key create payload m = (Dropped, [], m)"
| "submit_attempts (Suc n) ctx_done key create payload m =
    (case getOrCreate key create m of
       ((None, _), m1) \<Rightarrow> (SessionLimit, [], m1)
     | ((Some p, created), m1) \<Rightarrow>
         (let started = (if created then [p] else []);
              (ok, s) = enqueue ctx_done payload (en_heap m1 ! p);
              m2 = on_session p (\<lambda>_. s) m1
          in if ok then (Queued p, started, m2)
             else if \<not> isUnavailable ctx_done s then (QueueFull p, started, m2)
             else (let (res, more, m3) = submit_attempts n ctx_done key create payload
                         (on_session p session_close (entries_delete key p m2))
                   in (res, started @ more, m3))))"

definition submitUDPEntryPacket ::
  "bool \<Rightarrow> forward_runtime \<Rightarrow> tunnel_runtime \<Rightarrow> string \<Rightarrow> string \<Rightarrow> entry_sessions \<Rightarrow>
     submitted \<times> nat list \<times> entry_sessions" where
  "submitUDPEntryPacket ctx_done f t client payload m =
    (let key = frt_id f @ '':udp:'' @ client
     in submit_attempts 2 ctx_done key (newUDPEntrySession key f t client) payload m)"

text \<open>The registry is sound: its keys are distinct and within the limit, each names a session of
  its own, created under that key, and the queues are within their bounds.\<close>

definition entries_ok :: "entry_sessions \<Rightarrow> bool" where
  "entries_ok m \<longleftrightarrow> keys_ok (en_map m) \<and> int (length (en_map m)) \<le> en_limit m \<and>
     (\<forall>(k, p)\<in>set (en_map m). p < length (en_heap m) \<and> es_key (en_heap m ! p) = k) \<and>
     (\<forall>s\<in>set (en_heap m). queue_ok s)"

lemma entries_ok_new [simp]: "entries_ok newUDPEntrySessions"
  by (simp add: entries_ok_def newUDPEntrySessions_def en_limit_def maxUDPActiveSessions_def)

lemma en_limit_update [simp]:
  "en_limit (m\<lparr> en_map := x \<rparr>) = en_limit m" "en_limit (m\<lparr> en_heap := h \<rparr>) = en_limit m"
  by (simp_all add: en_limit_def)

lemma entries_ok_on_session:
  assumes "entries_ok m" and "\<And>s. queue_ok s \<Longrightarrow> queue_ok (g s)" and "\<And>s. es_key (g s) = es_key s"
  shows "entries_ok (on_session p g m)"
proof -
  have all: "\<forall>s\<in>set (en_heap m). queue_ok s" using assms(1) by (simp add: entries_ok_def)
  have q: "\<forall>s\<in>set ((en_heap m)[p := g (en_heap m ! p)]). queue_ok s"
  proof (cases "p < length (en_heap m)")
    case True
    then have "queue_ok (g (en_heap m ! p))" using all assms(2) nth_mem by blast
    then show ?thesis
      using all set_update_subset_insert [of "en_heap m" p "g (en_heap m ! p)"] by blast
  next
    case False
    then show ?thesis using all by (simp add: list_update_beyond)
  qed
  have k: "es_key ((en_heap m)[p := g (en_heap m ! p)] ! i) = es_key (en_heap m ! i)"
      if "i < length (en_heap m)" for i
    using that assms(3) by (cases "i = p") auto
  show ?thesis using assms(1) q k by (auto simp: entries_ok_def on_session_def)
qed

lemma es_key_close [simp]: "es_key (session_close s) = es_key s"
  by (simp add: session_close_def)

lemma keys_subset_delete: "set (AList.delete k m) \<subseteq> set m"
  by (induction m) auto

lemma keys_subset_update: "set (AList.update k v m) \<subseteq> insert (k, v) (set m)"
  by (induction m) auto

lemma entries_ok_delete: "entries_ok m \<Longrightarrow> entries_ok (entries_delete key p m)"
proof -
  assume a: "entries_ok m"
  have "keys_ok (AList.delete key (en_map m))"
    using a by (simp add: entries_ok_def keys_ok_delete)
  moreover have "int (length (AList.delete key (en_map m))) \<le> en_limit m"
    using a length_delete_le [of key "en_map m"] by (simp add: entries_ok_def)
  moreover have "\<forall>(k, p)\<in>set (AList.delete key (en_map m)). p < length (en_heap m) \<and> es_key (en_heap m ! p) = k"
    using a keys_subset_delete [of key "en_map m"] by (fastforce simp: entries_ok_def)
  ultimately have "entries_ok (m\<lparr> en_map := AList.delete key (en_map m) \<rparr>)"
    using a by (simp add: entries_ok_def)
  then show ?thesis using a by (simp add: entries_delete_def)
qed

lemma length_on_session [simp]: "length (en_heap (on_session p g m)) = length (en_heap m)"
  by (simp add: on_session_def)

lemma en_map_on_session [simp]: "en_map (on_session p g m) = en_map m" "en_limit (on_session p g m) = en_limit m"
  by (simp_all add: on_session_def)

lemma heap_on_session [simp]: "p < length (en_heap m) \<Longrightarrow> en_heap (on_session p g m) ! p = g (en_heap m ! p)"
  by (simp add: on_session_def)

text \<open>What \<open>getOrCreate\<close> answers is registered, and the registry stays sound.\<close>

lemma getOrCreate_Some:
  assumes "entries_ok m" and "getOrCreate key s m = ((Some p, created), m')" and "es_key s = key" and "queue_ok s"
  shows "entries_ok m' \<and> map_of (en_map m') key = Some p \<and> p < length (en_heap m') \<and>
    en_heap m' ! p = (if created then s else en_heap m ! p) \<and> en_limit m' = en_limit m"
proof (cases "map_of (en_map m) key")
  case (Some q)
  then have "(key, q) \<in> set (en_map m)" by (rule map_of_SomeD)
  with assms Some show ?thesis by (auto simp: getOrCreate_def entries_ok_def)
next
  case None
  have new: "\<not> en_limit m \<le> int (length (en_map m))" "p = length (en_heap m)" created
      "m' = m\<lparr> en_map := AList.update key (length (en_heap m)) (en_map m), en_heap := en_heap m @ [s] \<rparr>"
    using assms(2) None by (auto simp: getOrCreate_def split: if_splits)
  have "key \<notin> fst ` set (en_map m)" using None by (simp add: map_of_eq_None_iff)
  then have len: "length (AList.update key (length (en_heap m)) (en_map m)) = Suc (length (en_map m))"
    by (rule length_update_notin)
  show ?thesis
    using assms(1,3,4) new len keys_subset_update [of key "length (en_heap m)" "en_map m"]
    by (fastforce simp: entries_ok_def keys_ok_update nth_append map_simps)
qed

lemma getOrCreate_None:
  "getOrCreate key s m = ((None, created), m') \<Longrightarrow>
     m' = m \<and> map_of (en_map m) key = None \<and> en_limit m \<le> int (length (en_map m))"
  by (auto simp: getOrCreate_def split: option.splits if_splits)

lemma queue_ok_fst_enqueue: "queue_ok s \<Longrightarrow> enqueue ctx p s = (b, s') \<Longrightarrow> queue_ok s' \<and> es_key s' = es_key s"
  using queue_ok_enqueue [of s ctx p] enqueue_fields(1) [of ctx p s] by simp

lemma entries_ok_put:
  assumes "entries_ok m" and "p < length (en_heap m)" and "enqueue ctx x (en_heap m ! p) = (b, s)"
  shows "entries_ok (on_session p (\<lambda>_. s) m)"
proof -
  have "queue_ok (en_heap m ! p)" using assms(1,2) by (simp add: entries_ok_def)
  from queue_ok_fst_enqueue [OF this assms(3)] have s: "queue_ok s" "es_key s = es_key (en_heap m ! p)" by simp_all
  have "on_session p (\<lambda>_. s) m = on_session p (\<lambda>r. if es_key r = es_key s \<and> queue_ok r then s else r) m"
    using s \<open>queue_ok (en_heap m ! p)\<close> by (simp add: on_session_def)
  then show ?thesis
    using s by (simp only:) (rule entries_ok_on_session [OF assms(1)], auto)
qed

lemma submit_attempts_ok:
  assumes "entries_ok m" and "es_key create = key" and "queue_ok create"
  shows "entries_ok (snd (snd (submit_attempts n ctx key create payload m)))"
  using assms(1)
proof (induction n arbitrary: m)
  case 0
  then show ?case by simp
next
  case (Suc n)
  obtain r c m1 where g: "getOrCreate key create m = ((r, c), m1)" by (metis prod.collapse)
  show ?case
  proof (cases r)
    case None
    then show ?thesis using g Suc.prems getOrCreate_None [OF g [unfolded None]] by simp
  next
    case (Some p)
    from getOrCreate_Some [OF Suc.prems g [unfolded Some] assms(2,3)]
    have m1: "entries_ok m1" "p < length (en_heap m1)" by simp_all
    obtain ok s where q: "enqueue ctx payload (en_heap m1 ! p) = (ok, s)" by force
    note m2 = entries_ok_put [OF m1 q]
    have m3: "entries_ok (on_session p session_close (entries_delete key p (on_session p (\<lambda>_. s) m1)))"
      by (rule entries_ok_on_session [OF entries_ok_delete [OF m2]]) simp_all
    from Suc.IH [OF m3] m2 show ?thesis
      by (auto simp: g Some q Let_def split: prod.splits)
  qed
qed

text \<open>delivering a packet keeps the registry of UDP sessions sound, whatever state it is in: one
  session per client, never more sessions than the limit, and every queue within 64 datagrams and
  256 KiB, the bytes it counts being the bytes it holds.\<close>

theorem udp_registry_sound:
  assumes "entries_ok m"
  shows "entries_ok (snd (snd (submitUDPEntryPacket ctx f t client payload m)))"
  unfolding submitUDPEntryPacket_def Let_def
  by (rule submit_attempts_ok [OF assms]) (simp_all add: newUDPEntrySession_def
      queue_ok_def maxUDPSessionQueueBytes_def)

lemma enqueue_new:
  "length payload \<le> MaxUDPPacket \<Longrightarrow>
   enqueue False payload (newUDPEntrySession key f t c) =
     (True, (newUDPEntrySession key f t c)\<lparr> es_queue := [payload], es_queued := int (length payload) \<rparr>)"
  by (simp add: enqueue_def newUDPEntrySession_def isUnavailable_def MaxUDPPacket_def
      maxUDPSessionQueueBytes_def maxUDPSessionQueueEntries_def)

text \<open>What a packet of a client may meet.\<close>

definition delivered :: "string \<Rightarrow> string \<Rightarrow> submitted \<Rightarrow> entry_sessions \<Rightarrow> bool" where
  "delivered key payload res m \<longleftrightarrow>
    (case res of
       Queued p \<Rightarrow> map_of (en_map m) key = Some p \<and> \<not> es_closed (en_heap m ! p) \<and>
         (\<exists>q. es_queue (en_heap m ! p) = q @ [payload])
     | QueueFull p \<Rightarrow> map_of (en_map m) key = Some p \<and>
         (length (es_queue (en_heap m ! p)) = maxUDPSessionQueueEntries \<or>
          es_queued (en_heap m ! p) + int (length payload) > maxUDPSessionQueueBytes)
     | SessionLimit \<Rightarrow> map_of (en_map m) key = None \<and> int (length (en_map m)) = en_limit m
     | Dropped \<Rightarrow> False)"

lemma submit_attempts_fresh:
  assumes "entries_ok m" and "map_of (en_map m) key = None" and "int (length (en_map m)) < en_limit m"
    and "length payload \<le> MaxUDPPacket"
  shows "delivered key payload
    (fst (submit_attempts (Suc n) False key (newUDPEntrySession key f t c) payload m))
    (snd (snd (submit_attempts (Suc n) False key (newUDPEntrySession key f t c) payload m)))"
proof -
  have "getOrCreate key (newUDPEntrySession key f t c) m = ((Some (length (en_heap m)), True),
      m\<lparr> en_map := AList.update key (length (en_heap m)) (en_map m),
         en_heap := en_heap m @ [newUDPEntrySession key f t c] \<rparr>)"
    using assms by (simp add: getOrCreate_def)
  then show ?thesis
    by (simp add: Let_def enqueue_new [OF assms(4)] delivered_def on_session_def map_simps)
      (simp add: newUDPEntrySession_def)
qed

text \<open>What a failed \<open>enqueue\<close> of a session that is available means.\<close>

lemma enqueue_full:
  assumes "enqueue ctx x s = (False, s')" and "\<not> isUnavailable ctx s'" and "length x \<le> MaxUDPPacket" and "queue_ok s"
  shows "s' = s \<and> (length (es_queue s) = maxUDPSessionQueueEntries \<or>
    es_queued s + int (length x) > maxUDPSessionQueueBytes)"
proof -
  have s: "s' = s" using enqueue_False [of ctx x s] assms(1) by simp
  with assms show ?thesis
    by (auto simp: enqueue_def queue_ok_def split: if_splits)
qed

lemma delete_length_less:
  "keys_ok m \<Longrightarrow> map_of m k = Some v \<Longrightarrow> Suc (length (AList.delete k m)) = length m"
  using length_delete_in [of m k] by (force dest: map_of_SomeD)

lemma submit_attempts_delivered:
  assumes "entries_ok m" and "length payload \<le> MaxUDPPacket"
    and sub: "submit_attempts 2 False key (newUDPEntrySession key f t client) payload m = (res, started, m')"
  shows "delivered key payload res m'"
proof -
  let ?new = "newUDPEntrySession key f t client"
  obtain r c m1 where g: "getOrCreate key ?new m = ((r, c), m1)" by (metis prod.collapse)
  have new: "es_key ?new = key" "queue_ok ?new" by (simp_all) (simp add: newUDPEntrySession_def)
  show ?thesis
  proof (cases r)
    case None
    from getOrCreate_None [OF g [unfolded None]] assms(1) sub show ?thesis
      by (simp add: numeral_2_eq_2 g None delivered_def entries_ok_def)
  next
    case (Some p)
    note m1 = getOrCreate_Some [OF assms(1) g [unfolded Some] new]
    obtain ok s where q: "enqueue False payload (en_heap m1 ! p) = (ok, s)" by force
    let ?m2 = "on_session p (\<lambda>_. s) m1"
    have m2: "entries_ok ?m2" using entries_ok_put m1 q by blast
    have "p < length (en_heap m1)" and "\<forall>s\<in>set (en_heap m1). queue_ok s"
      using m1 unfolding entries_ok_def by blast+
    then have qk: "queue_ok (en_heap m1 ! p)" using nth_mem by blast
    consider (queued) ok | (full) "\<not> ok" "\<not> isUnavailable False s" | (again) "\<not> ok" "isUnavailable False s" by blast
    then show ?thesis
    proof cases
      case queued
      then have "es_queue s = es_queue (en_heap m1 ! p) @ [payload]" "\<not> es_closed s"
        using enqueue_True [of False payload "en_heap m1 ! p"] enqueue_fields(2) [of False payload "en_heap m1 ! p"] q
        by simp_all
      moreover have "res = Queued p" "m' = ?m2"
        using queued sub by (simp_all add: numeral_2_eq_2 g Some q Let_def)
      ultimately show ?thesis using m1 by (simp add: delivered_def)
    next
      case full
      then have "res = QueueFull p" "m' = ?m2"
        using sub by (simp_all add: numeral_2_eq_2 g Some q Let_def)
      with enqueue_full [OF q [simplified full(1) simp_thms] full(2) assms(2) qk] m1 show ?thesis
        by (simp add: delivered_def full(1))
    next
      case again
      let ?m3 = "on_session p session_close (entries_delete key p ?m2)"
      have m3: "entries_ok ?m3"
        by (rule entries_ok_on_session [OF entries_ok_delete [OF m2]]) simp_all
      have map3: "en_map ?m3 = AList.delete key (en_map m1)" "en_limit ?m3 = en_limit m1"
        using m1 by (simp_all add: entries_delete_def)
      have gone: "map_of (en_map ?m3) key = None" by (simp only: map3) (simp add: map_simps)
      have "Suc (length (AList.delete key (en_map m1))) = length (en_map m1)"
        by (rule delete_length_less) (use m1 in \<open>simp_all add: entries_ok_def\<close>)
      then have room: "int (length (en_map ?m3)) < en_limit ?m3"
        using m1 unfolding map3 entries_ok_def by linarith
      have eq: "fst (submit_attempts 1 False key ?new payload ?m3) = res"
          "snd (snd (submit_attempts 1 False key ?new payload ?m3)) = m'"
        using sub again by (simp_all add: numeral_2_eq_2 g Some q Let_def split: prod.splits)
      from submit_attempts_fresh [OF m3 gone room assms(2), of 0 f t client] show ?thesis
        by (simp only: eq One_nat_def [symmetric])
    qed
  qed
qed

text \<open>a packet of at most 65507 bytes that arrives while the service runs is never lost to a dead
  session: it ends up last in the queue of the session registered for its client, which is open;
  otherwise that session's queue is full, or the client has no session and the registry is at its
  limit.\<close>

theorem udp_packet_delivered:
  assumes "entries_ok m" and "length payload \<le> MaxUDPPacket"
    and "submitUDPEntryPacket False f t client payload m = (res, started, m')"
  shows "delivered (frt_id f @ '':udp:'' @ client) payload res m'"
  by (rule submit_attempts_delivered [OF assms(1,2) assms(3) [unfolded submitUDPEntryPacket_def Let_def]])

text \<open>The witnesses: a first packet, and the limit of the executable tests on packets.\<close>

lemma packet_limit [code_unfold]: "length p > MaxUDPPacket \<longleftrightarrow> int (length p) > 65507"
  by (simp add: MaxUDPPacket_def)

definition take_packet :: "string \<Rightarrow> string" where
  "take_packet p = take MaxUDPPacket p"

lemma take_packet_code [code]: "take_packet p = (if int (length p) \<le> 65507 then p else take (nat 65507) p)"
  by (simp add: take_packet_def MaxUDPPacket_def)

lemma take_packet_unfold [code_unfold]: "take MaxUDPPacket p = take_packet p"
  by (simp add: take_packet_def)

lemma ex_submit:
  "fst (submitUDPEntryPacket False ex_forward ex_tunnel ''1.2.3.4:5'' ''hi'' newUDPEntrySessions) = Queued 0"
  by code_simp

theorem udp_registry_sound_witness:
  "entries_ok (snd (snd (submitUDPEntryPacket False ex_forward ex_tunnel ''1.2.3.4:5'' ''hi'' newUDPEntrySessions)))"
  by (rule udp_registry_sound) simp

theorem udp_packet_delivered_witness:
  "delivered ''f:udp:1.2.3.4:5'' ''hi'' (Queued 0)
     (snd (snd (submitUDPEntryPacket False ex_forward ex_tunnel ''1.2.3.4:5'' ''hi'' newUDPEntrySessions)))"
proof -
  let ?s = "submitUDPEntryPacket False ex_forward ex_tunnel ''1.2.3.4:5'' ''hi'' newUDPEntrySessions"
  have s: "?s = (Queued 0, fst (snd ?s), snd (snd ?s))" by (simp add: prod_eq_iff ex_submit)
  have l: "length ''hi'' \<le> MaxUDPPacket" by (simp add: MaxUDPPacket_def)
  from udp_packet_delivered [OF entries_ok_new l s] show ?thesis by (simp add: ex_forward_def)
qed

end
