(* ===== verification/UdpRun.thy ===== *)
theory UdpRun
  imports UdpEntry
begin

text \<open>
  The life of one UDP session on the entry node: \<open>udpEntrySession.run\<close> of
  internal/node/relay/udp_runtime.go as a state machine.

  The goroutine of the session, the reader of its transport, the loop that hands it packets, and
  whoever closes it or cancels the service interleave.  A step of the goroutine goes from one
  operation another goroutine can observe to the next (an open, an install, a send), so the
  properties hold for every event list, that is for every interleaving.  The timer and the choice
  of the select statement are part of the event.  Each step answers what an observer outside sees.
\<close>

section \<open>State\<close>

datatype run_pc =
    PcOpen
  | PcInstall transport
  | PcSelect
  | PcRetry string bool
  | PcReplace transport string bool
  | PcResend string
  | PcExit
  | PcDone

record entry_run =
  er_session :: entry_session
  er_relay :: relay
  er_forwards :: counters
  er_tunnels :: counters
  er_attempts :: nat
  er_sent :: bool
  er_confirmed :: bool
  er_ctx :: bool
  er_pc :: run_pc

datatype run_choice = ChCtx | ChDone | ChIdle | ChQueue | ChEvent

datatype run_event =
    EvEnqueue string
  | EvClose
  | EvCtx
  | EvRead wire_read
  | EvReadEnd
  | EvRun run_choice

datatype run_output = Accepted string | Opened | Sent string | Replied string

definition run_transport :: "entry_run \<Rightarrow> transport" where
  "run_transport st = the (es_transport (er_session st))"

definition on_run_session :: "(entry_session \<Rightarrow> entry_session) \<Rightarrow> entry_run \<Rightarrow> entry_run" where
  "on_run_session g st = st\<lparr> er_session := g (er_session st) \<rparr>"

definition set_transport :: "transport \<Rightarrow> entry_run \<Rightarrow> entry_run" where
  "set_transport t = on_run_session (\<lambda>s. s\<lparr> es_transport := Some t \<rparr>)"

text \<open>The counters of a session: bytes and connections of the forward, and of the node or target.\<close>

definition forwardStatID :: "entry_run \<Rightarrow> string" where
  "forwardStatID st = ''forward:'' @ frt_id (es_forward (er_session st))"

definition recordSent :: "string \<Rightarrow> entry_run \<Rightarrow> entry_run" where
  "recordSent payload st =
    (let n = of_nat (length payload); stat = tp_stat (run_transport st)
     in st\<lparr> er_forwards := AddIn (forwardStatID st) n (er_forwards st),
           er_tunnels := (if stat \<noteq> '''' then AddIn stat n (er_tunnels st) else er_tunnels st) \<rparr>)"

definition recordResponse :: "string \<Rightarrow> entry_run \<Rightarrow> entry_run" where
  "recordResponse payload st =
    (let n = of_nat (length payload); stat = tp_stat (run_transport st)
     in st\<lparr> er_forwards := AddOut (forwardStatID st) n (er_forwards st),
           er_tunnels := (if stat \<noteq> '''' then AddOut stat n (er_tunnels st) else er_tunnels st) \<rparr>)"

section \<open>Steps of the goroutine\<close>

definition run_limit :: "entry_run \<Rightarrow> nat" where
  "run_limit st = udpEntryAttemptLimit (es_forward (er_session st)) (es_tunnel (er_session st))"

definition run_openTransport :: "env \<Rightarrow> entry_run \<Rightarrow> transport option \<times> entry_run" where
  "run_openTransport e st =
    (case openUDPEntryTransport e (es_forward (er_session st)) (es_tunnel (er_session st))
            (es_session (er_session st)) (er_relay st) of
       (Inl _, r) \<Rightarrow> (None, st\<lparr> er_relay := r \<rparr>)
     | (Inr t, r) \<Rightarrow> (Some t, st\<lparr> er_relay := r \<rparr>))"

definition run_open :: "env \<Rightarrow> entry_run \<Rightarrow> entry_run" where
  "run_open e st =
    (case run_openTransport e st of
       (None, st1) \<Rightarrow> st1\<lparr> er_pc := PcExit \<rparr> | (Some t, st1) \<Rightarrow> st1\<lparr> er_pc := PcInstall t \<rparr>)"

definition run_install :: "transport \<Rightarrow> entry_run \<Rightarrow> entry_run" where
  "run_install t st =
    (case replaceTransport (er_ctx st) t (er_session st) of
       (False, _) \<Rightarrow> st\<lparr> er_pc := PcExit \<rparr>
     | (True, s) \<Rightarrow> st\<lparr> er_session := s, er_forwards := AddConnection (forwardStatID st) (er_forwards st),
         er_attempts := 1, er_sent := False, er_confirmed := False, er_pc := PcSelect \<rparr>)"

text \<open>The send of a payload on the current transport; it takes a tick.\<close>

definition run_send :: "wire \<Rightarrow> string \<Rightarrow> entry_run \<Rightarrow> (bool \<times> udp_error option) \<times> entry_run" where
  "run_send w payload st =
     (transport_send w (rl_tick (er_relay st)) (run_transport st) payload,
      st\<lparr> er_relay := tick (er_relay st) \<rparr>)"

definition run_mark ::
  "(transport \<Rightarrow> relay \<Rightarrow> transport \<times> relay) \<Rightarrow> entry_run \<Rightarrow> entry_run" where
  "run_mark mark st =
    (let (t, r) = mark (run_transport st) (er_relay st)
     in set_transport t (st\<lparr> er_relay := r \<rparr>))"

text \<open>\<open>retryInitial\<close> up to its loop: after a response there is no retry.\<close>

definition retry_begin :: "env \<Rightarrow> udp_error \<Rightarrow> string \<Rightarrow> bool \<Rightarrow> entry_run \<Rightarrow> entry_run" where
  "retry_begin e failure pending retryPending st =
    (let f = es_forward (er_session st); t = es_tunnel (er_session st) in
     if er_confirmed st \<or> tp_seen (run_transport st) then
       (if failure \<noteq> UEOF then run_mark (markFailure e t f failure) st else st)\<lparr> er_pc := PcExit \<rparr>
     else (let st1 = (if \<not> er_ctx st then run_mark (markFailureForRetry e t f failure) st else st)
       in if er_attempts st1 \<ge> run_limit st1 then st1\<lparr> er_pc := PcExit \<rparr>
          else (set_transport (transport_close (run_transport st1)) st1)\<lparr> er_pc := PcRetry pending retryPending \<rparr>))"

text \<open>One turn of the loop, in three steps.\<close>

definition retry_open :: "env \<Rightarrow> string \<Rightarrow> bool \<Rightarrow> entry_run \<Rightarrow> entry_run \<times> run_output list" where
  "retry_open e pending retryPending st =
    (if er_attempts st \<ge> run_limit st then (st\<lparr> er_pc := PcExit \<rparr>, [])
     else (case run_openTransport e (st\<lparr> er_attempts := er_attempts st + 1 \<rparr>) of
         (None, st1) \<Rightarrow> (st1\<lparr> er_pc := PcRetry pending retryPending \<rparr>, [Opened])
       | (Some t, st1) \<Rightarrow> (st1\<lparr> er_pc := PcReplace t pending retryPending \<rparr>, [Opened])))"

definition retry_replace :: "transport \<Rightarrow> string \<Rightarrow> bool \<Rightarrow> entry_run \<Rightarrow> entry_run" where
  "retry_replace t pending retryPending st =
    (case replaceTransport (er_ctx st) t (er_session st) of
       (False, _) \<Rightarrow> st\<lparr> er_pc := PcExit \<rparr>
     | (True, s) \<Rightarrow> st\<lparr> er_session := s, er_pc := (if retryPending then PcResend pending else PcSelect) \<rparr>)"

definition retry_resend :: "env \<Rightarrow> wire \<Rightarrow> string \<Rightarrow> entry_run \<Rightarrow> entry_run \<times> run_output list" where
  "retry_resend e w pending st =
    (let f = es_forward (er_session st); t = es_tunnel (er_session st);
         ((_, err), st1) = run_send w pending st
     in case err of
          Some x \<Rightarrow>
            (let st2 = run_mark (markFailureForRetry e t f x) st1
             in ((set_transport (transport_close (run_transport st2)) st2)\<lparr> er_pc := PcRetry pending True \<rparr>, []))
        | None \<Rightarrow> ((recordSent pending (st1\<lparr> er_sent := True \<rparr>))\<lparr> er_pc := PcSelect \<rparr>, [Sent pending]))"

text \<open>The case of the queue.\<close>

definition run_queue :: "env \<Rightarrow> wire \<Rightarrow> entry_run \<Rightarrow> entry_run \<times> run_output list" where
  "run_queue e w st =
    (case es_queue (er_session st) of
       [] \<Rightarrow> (st, [])
     | payload # rest \<Rightarrow>
         (let st1 = on_run_session (\<lambda>s. dequeue payload (s\<lparr> es_queue := rest \<rparr>)) st;
              ((wrote, err), st2) = run_send w payload st1
          in case err of
               Some x \<Rightarrow> (retry_begin e x payload (\<not> wrote) st2, [])
             | None \<Rightarrow> (recordSent payload (st2\<lparr> er_sent := True \<rparr>), [Sent payload])))"

text \<open>The case of the events of the transport; a channel whose reader has ended is closed once it is
  empty.\<close>

definition run_transport_event :: "env \<Rightarrow> entry_run \<Rightarrow> entry_run \<times> run_output list" where
  "run_transport_event e st =
    (case tp_events (run_transport st) of
       [] \<Rightarrow> (if tp_reader (run_transport st) = Ended then retry_begin e UEOF [] (\<not> er_sent st) st else st, [])
     | event # rest \<Rightarrow>
         (let st1 = set_transport ((run_transport st)\<lparr> tp_events := rest \<rparr>) st
          in case event of
               Inl err \<Rightarrow> (retry_begin e err [] (\<not> er_sent st1) st1, [])
             | Inr payload \<Rightarrow> (recordResponse payload (st1\<lparr> er_confirmed := True \<rparr>), [Replied payload])))"

fun run_select :: "env \<Rightarrow> wire \<Rightarrow> run_choice \<Rightarrow> entry_run \<Rightarrow> entry_run \<times> run_output list" where
  "run_select e w ChCtx st = ((if er_ctx st then st\<lparr> er_pc := PcExit \<rparr> else st), [])"
| "run_select e w ChDone st = ((if es_closed (er_session st) then st\<lparr> er_pc := PcExit \<rparr> else st), [])"
| "run_select e w ChIdle st = (st\<lparr> er_pc := PcExit \<rparr>, [])"
| "run_select e w ChQueue st = run_queue e w st"
| "run_select e w ChEvent st = run_transport_event e st"

definition run_step :: "env \<Rightarrow> wire \<Rightarrow> run_choice \<Rightarrow> entry_run \<Rightarrow> entry_run \<times> run_output list" where
  "run_step e w ch st =
    (case er_pc st of
       PcOpen \<Rightarrow> (run_open e st, [Opened])
     | PcInstall t \<Rightarrow> (run_install t st, [])
     | PcSelect \<Rightarrow> run_select e w ch st
     | PcRetry p b \<Rightarrow> retry_open e p b st
     | PcReplace t p b \<Rightarrow> (retry_replace t p b st, [])
     | PcResend p \<Rightarrow> retry_resend e w p st
     | PcExit \<Rightarrow> ((on_run_session session_close st)\<lparr> er_pc := PcDone \<rparr>, [])
     | PcDone \<Rightarrow> (st, []))"

text \<open>The reader of the newest transport: the one being installed, else that of the session.\<close>

definition on_reader :: "(transport \<Rightarrow> transport) \<Rightarrow> entry_run \<Rightarrow> entry_run" where
  "on_reader g st =
    (case er_pc st of
       PcInstall t \<Rightarrow> st\<lparr> er_pc := PcInstall (g t) \<rparr>
     | PcReplace t p b \<Rightarrow> st\<lparr> er_pc := PcReplace (g t) p b \<rparr>
     | _ \<Rightarrow> on_run_session (\<lambda>s. s\<lparr> es_transport := map_option g (es_transport s) \<rparr>) st)"

fun entry_step :: "env \<Rightarrow> wire \<Rightarrow> run_event \<Rightarrow> entry_run \<Rightarrow> entry_run \<times> run_output list" where
  "entry_step e w (EvEnqueue p) st =
    (let (ok, s) = enqueue (er_ctx st) p (er_session st)
     in (st\<lparr> er_session := s \<rparr>, if ok then [Accepted p] else []))"
| "entry_step e w EvClose st = (on_run_session session_close st, [])"
| "entry_step e w EvCtx st = (st\<lparr> er_ctx := True \<rparr>, [])"
| "entry_step e w (EvRead r) st = (on_reader (read_loop r) st, [])"
| "entry_step e w EvReadEnd st = (on_reader read_end st, [])"
| "entry_step e w (EvRun ch) st = run_step e w ch st"

fun entry_trace :: "env \<Rightarrow> wire \<Rightarrow> run_event list \<Rightarrow> entry_run \<Rightarrow> entry_run \<times> run_output list" where
  "entry_trace e w [] st = (st, [])"
| "entry_trace e w (ev # evs) st =
    (let (st1, out) = entry_step e w ev st; (st2, outs) = entry_trace e w evs st1 in (st2, out @ outs))"

definition entry_start :: "entry_session \<Rightarrow> relay \<Rightarrow> counters \<Rightarrow> counters \<Rightarrow> entry_run" where
  "entry_start s r forwards tunnels =
     \<lparr> er_session = s, er_relay = r, er_forwards = forwards, er_tunnels = tunnels, er_attempts = 1,
        er_sent = False, er_confirmed = False, er_ctx = False, er_pc = PcOpen \<rparr>"

end
