(* ===== verification/UdpRunFacts.thy ===== *)
theory UdpRunFacts
  imports UdpRun
begin

text \<open>
  The properties of the life of a UDP session on the entry node, for every interleaving of its
  goroutine with its reader, the packets that arrive and its closing: the transports it opens, the
  datagrams it sends, what it counts, and the end of its retries.
\<close>

section \<open>What the steps leave alone\<close>

lemma set_transport_fields [simp]:
  "er_attempts (set_transport t st) = er_attempts st" "er_pc (set_transport t st) = er_pc st"
  "er_confirmed (set_transport t st) = er_confirmed st" "er_sent (set_transport t st) = er_sent st"
  "er_ctx (set_transport t st) = er_ctx st" "er_forwards (set_transport t st) = er_forwards st"
  "er_tunnels (set_transport t st) = er_tunnels st" "er_relay (set_transport t st) = er_relay st"
  "es_queue (er_session (set_transport t st)) = es_queue (er_session st)"
  "es_forward (er_session (set_transport t st)) = es_forward (er_session st)"
  "es_tunnel (er_session (set_transport t st)) = es_tunnel (er_session st)"
  "es_closed (er_session (set_transport t st)) = es_closed (er_session st)"
  "queue_ok (er_session (set_transport t st)) = queue_ok (er_session st)"
  by (simp_all add: set_transport_def on_run_session_def)

lemma run_mark_fields [simp]:
  "er_attempts (run_mark g st) = er_attempts st" "er_pc (run_mark g st) = er_pc st"
  "er_confirmed (run_mark g st) = er_confirmed st" "er_sent (run_mark g st) = er_sent st"
  "er_ctx (run_mark g st) = er_ctx st" "er_forwards (run_mark g st) = er_forwards st"
  "er_tunnels (run_mark g st) = er_tunnels st"
  "es_queue (er_session (run_mark g st)) = es_queue (er_session st)"
  "es_forward (er_session (run_mark g st)) = es_forward (er_session st)"
  "es_tunnel (er_session (run_mark g st)) = es_tunnel (er_session st)"
  "queue_ok (er_session (run_mark g st)) = queue_ok (er_session st)"
  by (simp_all add: run_mark_def split_beta)

lemma run_send_fields:
  "run_send w p st = (r, st1) \<Longrightarrow> er_attempts st1 = er_attempts st \<and> er_pc st1 = er_pc st \<and>
     er_confirmed st1 = er_confirmed st \<and> er_session st1 = er_session st \<and> er_ctx st1 = er_ctx st \<and>
     er_sent st1 = er_sent st \<and> er_forwards st1 = er_forwards st"
  by (auto simp: run_send_def)

lemma record_fields [simp]:
  "er_attempts (recordSent p st) = er_attempts st" "er_pc (recordSent p st) = er_pc st"
  "er_confirmed (recordSent p st) = er_confirmed st" "er_session (recordSent p st) = er_session st"
  "er_attempts (recordResponse p st) = er_attempts st" "er_pc (recordResponse p st) = er_pc st"
  "er_confirmed (recordResponse p st) = er_confirmed st" "er_session (recordResponse p st) = er_session st"
  by (simp_all add: recordSent_def recordResponse_def Let_def)

lemma openTransport_fields:
  "run_openTransport e st = (r, st1) \<Longrightarrow> er_attempts st1 = er_attempts st \<and> er_pc st1 = er_pc st \<and>
     er_confirmed st1 = er_confirmed st \<and> er_session st1 = er_session st \<and> er_forwards st1 = er_forwards st"
  by (auto simp: run_openTransport_def split: prod.splits sum.splits)

lemma replaceTransport_fields:
  "replaceTransport ctx t s = (b, s') \<Longrightarrow> es_queue s' = es_queue s \<and> es_forward s' = es_forward s \<and>
     es_tunnel s' = es_tunnel s \<and> queue_ok s' = queue_ok s"
  by (auto simp: replaceTransport_def split: if_splits)

lemma close_fields [simp]:
  "es_queue (session_close s) = es_queue s" "es_forward (session_close s) = es_forward s"
  "es_tunnel (session_close s) = es_tunnel s"
  by (simp_all add: session_close_def)

lemma dequeue_fields [simp]:
  "es_queue (dequeue p s) = es_queue s" "es_forward (dequeue p s) = es_forward s"
  "es_tunnel (dequeue p s) = es_tunnel s"
  by (simp_all add: dequeue_def Let_def)

lemma enqueue_other:
  "enqueue ctx p s = (b, s') \<Longrightarrow> es_forward s' = es_forward s \<and> es_tunnel s' = es_tunnel s \<and>
     es_queue s' = es_queue s @ (if b then [p] else [])"
  by (auto simp: enqueue_def split: if_splits)

text \<open>\<open>retry_begin\<close> ends the session or enters the loop, and the latter only while no response
  has come.\<close>

lemma retry_begin_fields [simp]:
  "er_attempts (retry_begin e x p b st) = er_attempts st"
  "er_confirmed (retry_begin e x p b st) = er_confirmed st"
  "er_sent (retry_begin e x p b st) = er_sent st"
  "er_forwards (retry_begin e x p b st) = er_forwards st"
  "es_queue (er_session (retry_begin e x p b st)) = es_queue (er_session st)"
  "es_forward (er_session (retry_begin e x p b st)) = es_forward (er_session st)"
  "es_tunnel (er_session (retry_begin e x p b st)) = es_tunnel (er_session st)"
  "queue_ok (er_session (retry_begin e x p b st)) = queue_ok (er_session st)"
  by (simp_all add: retry_begin_def Let_def)

lemma retry_begin_pc:
  "er_pc (retry_begin e x p b st) = PcExit \<or>
   er_pc (retry_begin e x p b st) = PcRetry p b \<and> \<not> er_confirmed st \<and> er_attempts st < run_limit st"
  by (simp add: retry_begin_def Let_def run_limit_def)

lemma run_limit_cong:
  "es_forward (er_session a) = es_forward (er_session b) \<Longrightarrow>
   es_tunnel (er_session a) = es_tunnel (er_session b) \<Longrightarrow> run_limit a = run_limit b"
  by (simp add: run_limit_def)

section \<open>One invariant of every interleaving\<close>

fun pending_of :: "run_pc \<Rightarrow> string list" where
  "pending_of (PcRetry p b) = (if b then [p] else [])"
| "pending_of (PcReplace t p b) = (if b then [p] else [])"
| "pending_of (PcResend p) = [p]"
| "pending_of _ = []"

fun settled :: "run_pc \<Rightarrow> bool" where
  "settled PcSelect = True" | "settled PcExit = True" | "settled PcDone = True" | "settled _ = False"

definition accepted :: "run_output list \<Rightarrow> string list" where
  "accepted tr = concat (map (\<lambda>x. case x of Accepted p \<Rightarrow> [p] | _ \<Rightarrow> []) tr)"

definition sent :: "run_output list \<Rightarrow> string list" where
  "sent tr = concat (map (\<lambda>x. case x of Sent p \<Rightarrow> [p] | _ \<Rightarrow> []) tr)"

definition replied :: "run_output list \<Rightarrow> string list" where
  "replied tr = concat (map (\<lambda>x. case x of Replied p \<Rightarrow> [p] | _ \<Rightarrow> []) tr)"

definition opened :: "run_output list \<Rightarrow> nat" where
  "opened tr = length (filter (\<lambda>x. x = Opened) tr)"

definition nonempty :: "string list \<Rightarrow> string list" where
  "nonempty ps = filter (\<lambda>p. p \<noteq> []) ps"

definition bytes_of :: "string list \<Rightarrow> 64 word" where
  "bytes_of ps = of_nat (sum_list (map length ps))"

lemma outputs_append [simp]:
  "accepted (a @ b) = accepted a @ accepted b" "sent (a @ b) = sent a @ sent b"
  "replied (a @ b) = replied a @ replied b" "opened (a @ b) = opened a + opened b"
  "nonempty (x @ y) = nonempty x @ nonempty y" "bytes_of (x @ y) = bytes_of x + bytes_of y"
  by (simp_all add: accepted_def sent_def replied_def opened_def nonempty_def bytes_of_def)

lemma outputs_simps [simp]:
  "accepted [] = []" "sent [] = []" "replied [] = []" "opened [] = 0" "nonempty [] = []" "bytes_of [] = 0"
  "accepted (Accepted p # tr) = p # accepted tr" "accepted (Opened # tr) = accepted tr"
  "accepted (Sent p # tr) = accepted tr" "accepted (Replied p # tr) = accepted tr"
  "sent (Accepted p # tr) = sent tr" "sent (Opened # tr) = sent tr" "sent (Sent p # tr) = p # sent tr"
  "sent (Replied p # tr) = sent tr" "replied (Accepted p # tr) = replied tr"
  "replied (Opened # tr) = replied tr" "replied (Sent p # tr) = replied tr"
  "replied (Replied p # tr) = p # replied tr" "opened (Accepted p # tr) = opened tr"
  "opened (Opened # tr) = Suc (opened tr)" "opened (Sent p # tr) = opened tr" "opened (Replied p # tr) = opened tr"
  "nonempty (p # ps) = (if p = [] then nonempty ps else p # nonempty ps)"
  "bytes_of (p # ps) = of_nat (length p) + bytes_of ps"
  by (simp_all add: accepted_def sent_def replied_def opened_def nonempty_def bytes_of_def)

definition fifo :: "run_output list \<Rightarrow> string list \<Rightarrow> entry_run \<Rightarrow> bool" where
  "fifo tr pending st \<longleftrightarrow> (\<exists>h. accepted tr = h @ es_queue (er_session st) \<and>
     subseq (nonempty (sent tr @ pending)) h)"

definition counted :: "counters \<Rightarrow> run_output list \<Rightarrow> entry_run \<Rightarrow> bool" where
  "counted base tr st \<longleftrightarrow>
     ctr_in (counter_of (er_forwards st) (forwardStatID st)) =
       ctr_in (counter_of base (forwardStatID st)) + bytes_of (sent tr) \<and>
     ctr_out (counter_of (er_forwards st) (forwardStatID st)) =
       ctr_out (counter_of base (forwardStatID st)) + bytes_of (replied tr)"

definition attempts_ok :: "run_output list \<Rightarrow> entry_run \<Rightarrow> bool" where
  "attempts_ok tr st \<longleftrightarrow> opened tr = (if er_pc st = PcOpen then 0 else er_attempts st) \<and>
     er_attempts st \<le> run_limit st \<and>
     (er_pc st = PcOpen \<or> (\<exists>t. er_pc st = PcInstall t) \<longrightarrow> er_attempts st = 1) \<and>
     (er_confirmed st \<longrightarrow> settled (er_pc st)) \<and>
     (replied tr \<noteq> [] \<longrightarrow> er_confirmed st \<and> settled (er_pc st))"

lemma on_reader_fields [simp]:
  "er_attempts (on_reader g st) = er_attempts st" "er_confirmed (on_reader g st) = er_confirmed st"
  "er_forwards (on_reader g st) = er_forwards st"
  "es_queue (er_session (on_reader g st)) = es_queue (er_session st)"
  "run_limit (on_reader g st) = run_limit st" "settled (er_pc (on_reader g st)) = settled (er_pc st)"
  "pending_of (er_pc (on_reader g st)) = pending_of (er_pc st)"
  "(er_pc (on_reader g st) = PcOpen) = (er_pc st = PcOpen)"
  "(\<exists>t. er_pc (on_reader g st) = PcInstall t) = (\<exists>t. er_pc st = PcInstall t)"
  "queue_ok (er_session (on_reader g st)) = queue_ok (er_session st)"
  "es_forward (er_session (on_reader g st)) = es_forward (er_session st)"
  by (cases "er_pc st"; simp add: on_reader_def on_run_session_def run_limit_def)+

text \<open>The whole: the number of opens, what was accepted, sent and counted, and the queue.  It
  depends on the state only through the fields listed.\<close>

definition run_inv :: "counters \<Rightarrow> run_output list \<Rightarrow> entry_run \<Rightarrow> bool" where
  "run_inv base tr st \<longleftrightarrow> attempts_ok tr st \<and> fifo tr (pending_of (er_pc st)) st \<and> counted base tr st \<and>
     queue_ok (er_session st)"

definition same_view :: "entry_run \<Rightarrow> entry_run \<Rightarrow> bool" where
  "same_view a b \<longleftrightarrow> er_attempts a = er_attempts b \<and> er_confirmed a = er_confirmed b \<and>
     es_queue (er_session a) = es_queue (er_session b) \<and> er_forwards a = er_forwards b \<and>
     es_forward (er_session a) = es_forward (er_session b) \<and>
     es_tunnel (er_session a) = es_tunnel (er_session b) \<and>
     queue_ok (er_session a) = queue_ok (er_session b)"

lemma same_viewD:
  assumes "same_view a b"
  shows "run_limit a = run_limit b" and "forwardStatID a = forwardStatID b"
    and "fifo tr ps a = fifo tr ps b" and "counted base tr a = counted base tr b"
  using assms by (simp_all add: same_view_def run_limit_def forwardStatID_def fifo_def counted_def)

lemma run_inv_view:
  assumes "run_inv base tr a" and "same_view b a" and "er_pc b = er_pc a"
  shows "run_inv base tr b"
  using assms(1,3) same_viewD [OF assms(2)] assms(2)
  unfolding run_inv_def attempts_ok_def by (simp add: same_view_def)

lemma subseq_append_left: "subseq (a @ b) h \<Longrightarrow> subseq a h"
  by (rule subseq_order.trans [OF prefix_imp_subseq [of a "a @ b"]]) simp_all

lemma fifo_drop: "fifo tr ps st \<Longrightarrow> fifo tr [] st"
  unfolding fifo_def by (auto dest: subseq_append_left)

text \<open>The steps, place by place.\<close>

lemma run_inv_exit:
  assumes "run_inv base tr st" and "er_pc st \<noteq> PcOpen"
  shows "run_inv base tr (st\<lparr> er_pc := PcExit \<rparr>)"
proof -
  have v: "same_view (st\<lparr> er_pc := PcExit \<rparr>) st" by (simp add: same_view_def)
  show ?thesis using assms same_viewD [OF v] fifo_drop
    by (auto simp: run_inv_def attempts_ok_def)
qed

lemma retry_begin_view: "same_view (retry_begin e x p b st) st"
  by (simp add: same_view_def)

lemma retry_begin_inv:
  assumes "attempts_ok tr st" and "er_pc st = PcSelect" and "fifo tr (if b then [p] else []) st"
    and "counted base tr st" and "queue_ok (er_session st)"
  shows "run_inv base tr (retry_begin e x p b st)"
proof -
  note v = same_viewD [OF retry_begin_view [of e x p b st]]
  have "fifo tr [] st" using fifo_drop [OF assms(3)] .
  then show ?thesis
    using assms retry_begin_pc [of e x p b st] unfolding run_inv_def attempts_ok_def v
    by (auto simp: v)
qed

lemma run_queue_inv:
  assumes "run_inv base tr st" and "er_pc st = PcSelect" and "run_queue e w st = (st', out)"
  shows "run_inv base (tr @ out) st'"
proof (cases "es_queue (er_session st)")
  case Nil
  then show ?thesis using assms by (simp add: run_queue_def)
next
  case (Cons p q)
  let ?st1 = "on_run_session (\<lambda>s. dequeue p (s\<lparr> es_queue := q \<rparr>)) st"
  obtain wrote err st2 where s: "run_send w p ?st1 = ((wrote, err), st2)" by (metis prod.collapse)
  note f = run_send_fields [OF s]
  have st2: "er_pc st2 = PcSelect" "er_attempts st2 = er_attempts st" "er_confirmed st2 = er_confirmed st"
      "run_limit st2 = run_limit st" "es_queue (er_session st2) = q" "er_forwards st2 = er_forwards st"
      "forwardStatID st2 = forwardStatID st"
    using f assms(2) by (simp_all add: on_run_session_def run_limit_def forwardStatID_def)
  have ok: "attempts_ok tr st2"
    using assms(1,2) st2 by (simp add: run_inv_def attempts_ok_def)
  have q: "queue_ok (er_session st2)"
    using assms(1) f queue_ok_dequeue [OF _ Cons] by (simp add: run_inv_def on_run_session_def)
  have c: "counted base tr st2" using assms(1) st2 by (simp add: run_inv_def counted_def)
  obtain h where h: "accepted tr = h @ p # q" "subseq (nonempty (sent tr)) h"
    using assms(1,2) Cons by (auto simp: run_inv_def fifo_def)
  have one: "subseq (nonempty (sent tr @ [p])) (h @ [p])"
    using h(2) list_emb_append_mono [OF h(2), of "nonempty [p]" "[p]"] by (simp split: if_splits)
  have fifo: "fifo tr [p] st2" using h(1) one st2 by (auto simp: fifo_def)
  show ?thesis
  proof (cases err)
    case None
    then have st': "st' = recordSent p (st2\<lparr> er_sent := True \<rparr>)" "out = [Sent p]"
      using assms(3) by (simp_all add: run_queue_def Cons s Let_def)
    have "attempts_ok (tr @ out) st'" using ok by (simp add: st' attempts_ok_def run_limit_def)
    moreover have "fifo (tr @ out) [] st'" using fifo by (simp add: st' fifo_def)
    moreover have "counted base (tr @ out) st'"
      using c by (simp add: st' counted_def recordSent_def forwardStatID_def Let_def algebra_simps)
    ultimately show ?thesis using q st2 by (simp add: run_inv_def st')
  next
    case (Some x)
    then have "st' = retry_begin e x p (\<not> wrote) st2" "out = []"
      using assms(3) by (simp_all add: run_queue_def Cons s Let_def)
    then show ?thesis
      using retry_begin_inv [OF ok st2(1) _ c q] fifo fifo_drop [OF fifo] by simp
  qed
qed

lemma run_transport_event_inv:
  assumes "run_inv base tr st" and "er_pc st = PcSelect" and "run_transport_event e st = (st', out)"
  shows "run_inv base (tr @ out) st'"
proof -
  have parts: "attempts_ok tr st" "fifo tr [] st" "counted base tr st" "queue_ok (er_session st)"
    using assms(1,2) by (simp_all add: run_inv_def)
  show ?thesis
  proof (cases "tp_events (run_transport st)")
    case Nil
    then have "out = []" "st' = st \<or> st' = retry_begin e UEOF [] (\<not> er_sent st) st"
      using assms(3) by (auto simp: run_transport_event_def split: if_splits)
    moreover have "run_inv base tr (retry_begin e UEOF [] (\<not> er_sent st) st)"
      using retry_begin_inv [OF parts(1) assms(2) _ parts(3,4)] parts(2) by (simp add: fifo_def)
    ultimately show ?thesis using assms(1) by auto
  next
    case (Cons x xs)
    let ?st1 = "set_transport ((run_transport st)\<lparr> tp_events := xs \<rparr>) st"
    have v: "same_view ?st1 st" by (simp add: same_view_def)
    have one: "run_inv base tr ?st1" by (rule run_inv_view [OF assms(1) v]) simp
    have p1: "attempts_ok tr ?st1" "fifo tr [] ?st1" "counted base tr ?st1" "queue_ok (er_session ?st1)"
        "er_pc ?st1 = PcSelect"
      using one assms(2) by (simp_all add: run_inv_def)
    show ?thesis
    proof (cases x)
      case (Inl err)
      then have "st' = retry_begin e err [] (\<not> er_sent ?st1) ?st1" "out = []"
        using assms(3) by (simp_all add: run_transport_event_def Cons Let_def)
      then show ?thesis
        using retry_begin_inv [OF p1(1,5) _ p1(3,4)] p1(2) by (simp add: fifo_def)
    next
      case (Inr p)
      define st2 where "st2 = ?st1\<lparr> er_confirmed := True \<rparr>"
      have st': "st' = recordResponse p st2" "out = [Replied p]"
        using assms(3) Inr by (simp_all add: run_transport_event_def Cons Let_def st2_def)
      have "attempts_ok (tr @ out) st'"
        using p1(1,5) by (simp add: st' st2_def attempts_ok_def run_limit_def)
      moreover have "fifo (tr @ out) [] st'" using p1(2) by (simp add: st' st2_def fifo_def)
      moreover have "counted base (tr @ out) st'"
        using p1(3) by (simp add: st' st2_def counted_def recordResponse_def forwardStatID_def Let_def
            algebra_simps)
      ultimately show ?thesis using p1(4,5) by (simp add: run_inv_def st' st2_def)
    qed
  qed
qed

lemma run_select_inv:
  assumes "run_inv base tr st" and "er_pc st = PcSelect" and "run_select e w ch st = (st', out)"
  shows "run_inv base (tr @ out) st'"
  using assms run_inv_exit [OF assms(1)] run_queue_inv [OF assms(1,2)] run_transport_event_inv [OF assms(1,2)]
  by (cases ch) (auto split: if_splits)

lemma on_reader_id [simp]: "forwardStatID (on_reader g st) = forwardStatID st"
  by (simp add: forwardStatID_def)

lemma on_reader_inv: "run_inv base tr st \<Longrightarrow> run_inv base tr (on_reader g st)"
  unfolding run_inv_def attempts_ok_def fifo_def counted_def by simp

lemma openTransport_view: "run_openTransport e st = (r, st1) \<Longrightarrow> same_view st1 st"
  using openTransport_fields [of e st r st1] by (simp add: same_view_def)

lemma run_open_inv:
  assumes "run_inv base tr st" and "er_pc st = PcOpen"
  shows "run_inv base (tr @ [Opened]) (run_open e st)"
proof -
  obtain r st1 where o: "run_openTransport e st = (r, st1)" by force
  note v = openTransport_view [OF o]
  show ?thesis
    using assms same_viewD [OF v] v
    by (cases r) (auto simp: run_inv_def run_open_def o attempts_ok_def fifo_def counted_def same_view_def
        run_limit_def forwardStatID_def)
qed

lemma run_install_inv:
  assumes "run_inv base tr st" and "er_pc st = PcInstall t"
  shows "run_inv base tr (run_install t st)"
proof -
  obtain b s where r: "replaceTransport (er_ctx st) t (er_session st) = (b, s)" by force
  note f = replaceTransport_fields [OF r]
  show ?thesis
  proof (cases b)
    case True
    have id: "forwardStatID (run_install t st) = forwardStatID st"
      using True f by (simp add: run_install_def r forwardStatID_def)
    have "counted base tr (run_install t st)"
      using assms(1) True unfolding counted_def id run_inv_def by (simp add: run_install_def r Let_def)
    then show ?thesis using assms f True
      by (auto simp: run_inv_def run_install_def r attempts_ok_def fifo_def run_limit_def)
  next
    case False
    then show ?thesis using run_inv_exit [OF assms(1)] assms(2) by (simp add: run_install_def r)
  qed
qed

lemma retry_open_inv:
  assumes "run_inv base tr st" and "er_pc st = PcRetry p b" and "retry_open e p b st = (st', out)"
  shows "run_inv base (tr @ out) st'"
proof (cases "run_limit st \<le> er_attempts st")
  case True
  then show ?thesis using assms run_inv_exit [OF assms(1)] by (simp add: retry_open_def)
next
  case False
  let ?st0 = "st\<lparr> er_attempts := er_attempts st + 1 \<rparr>"
  obtain r st1 where o: "run_openTransport e ?st0 = (r, st1)" by force
  note v = openTransport_view [OF o]
  have l: "run_limit st1 = run_limit st" "forwardStatID st1 = forwardStatID st"
    using v by (simp_all add: same_view_def run_limit_def forwardStatID_def)
  have st': "out = [Opened]" "st' = st1\<lparr> er_pc := (case r of None \<Rightarrow> PcRetry p b | Some t \<Rightarrow> PcReplace t p b) \<rparr>"
    using assms(3) False o by (auto simp: retry_open_def split: option.splits)
  have pend: "pending_of (er_pc st') = (if b then [p] else [])" "\<not> settled (er_pc st')" "er_pc st' \<noteq> PcOpen"
      "\<And>t. er_pc st' \<noteq> PcInstall t"
    by (cases r; simp add: st')+
  have fields: "run_limit st' = run_limit st" "forwardStatID st' = forwardStatID st"
      "er_attempts st' = er_attempts st + 1" "er_confirmed st' = er_confirmed st" "er_forwards st' = er_forwards st"
      "es_queue (er_session st') = es_queue (er_session st)"
      "queue_ok (er_session st') = queue_ok (er_session st)"
    using v l by (simp_all add: st'(2) same_view_def run_limit_def forwardStatID_def)
  have "attempts_ok (tr @ out) st'"
    using assms(1,2) False pend fields by (simp add: run_inv_def attempts_ok_def st'(1))
  moreover have "fifo (tr @ out) (pending_of (er_pc st')) st'" "counted base (tr @ out) st'"
    using assms(1,2) fields by (simp_all add: run_inv_def fifo_def counted_def st'(1) pend(1))
  ultimately show ?thesis using assms(1) fields by (simp add: run_inv_def)
qed

lemma retry_replace_inv:
  assumes "run_inv base tr st" and "er_pc st = PcReplace t p b"
  shows "run_inv base tr (retry_replace t p b st)"
proof -
  obtain ok s where r: "replaceTransport (er_ctx st) t (er_session st) = (ok, s)" by force
  note f = replaceTransport_fields [OF r]
  show ?thesis
  proof (cases ok)
    case True
    then show ?thesis using assms f
      by (cases b) (auto simp: run_inv_def retry_replace_def r attempts_ok_def fifo_def counted_def run_limit_def
          forwardStatID_def)
  next
    case False
    then show ?thesis using run_inv_exit [OF assms(1)] assms(2) by (simp add: retry_replace_def r)
  qed
qed

lemma retry_resend_inv:
  assumes "run_inv base tr st" and "er_pc st = PcResend p" and "retry_resend e w p st = (st', out)"
  shows "run_inv base (tr @ out) st'"
proof -
  obtain wrote err st1 where s: "run_send w p st = ((wrote, err), st1)" by (metis prod.collapse)
  note f = run_send_fields [OF s]
  have l: "run_limit st1 = run_limit st" "forwardStatID st1 = forwardStatID st"
    using f by (simp_all add: run_limit_def forwardStatID_def)
  show ?thesis
  proof (cases err)
    case None
    then have st': "st' = (recordSent p (st1\<lparr> er_sent := True \<rparr>))\<lparr> er_pc := PcSelect \<rparr>" "out = [Sent p]"
      using assms(3) by (simp_all add: retry_resend_def s Let_def)
    have id: "forwardStatID st' = forwardStatID st" "run_limit st' = run_limit st"
      using f by (simp_all add: st'(1) forwardStatID_def run_limit_def)
    have "attempts_ok (tr @ out) st'"
      using assms(1,2) f unfolding attempts_ok_def id run_inv_def by (simp add: st')
    moreover have "fifo (tr @ out) (pending_of (er_pc st')) st'"
      using assms(1,2) f by (simp add: st' fifo_def run_inv_def)
    moreover have "counted base (tr @ out) st'"
    proof -
      have "forwardStatID (st1\<lparr> er_sent := True \<rparr>) = forwardStatID st"
        using f by (simp add: forwardStatID_def)
      then show ?thesis
        using assms(1) f unfolding counted_def id run_inv_def
        by (simp add: st' recordSent_def Let_def algebra_simps)
    qed
    ultimately show ?thesis using assms(1) f by (simp add: run_inv_def st')
  next
    case (Some x)
    define st2 where "st2 = run_mark (markFailureForRetry e (es_tunnel (er_session st)) (es_forward (er_session st)) x) st1"
    have st': "st' = (set_transport (transport_close (run_transport st2)) st2)\<lparr> er_pc := PcRetry p True \<rparr>" "out = []"
      using assms(3) Some by (simp_all add: retry_resend_def s Let_def st2_def)
    have v: "same_view st' st" using f by (simp add: same_view_def st' st2_def)
    show ?thesis
      using assms(1,2) same_viewD [OF v] v unfolding run_inv_def attempts_ok_def
      by (simp add: st'(2)) (simp add: st'(1) same_view_def)
  qed
qed

lemma run_step_inv:
  assumes "run_inv base tr st" and "run_step e w ch st = (st', out)"
  shows "run_inv base (tr @ out) st'"
proof (cases "er_pc st")
  case PcOpen
  then show ?thesis using assms run_open_inv [OF assms(1)] by (auto simp: run_step_def)
next
  case (PcInstall t)
  then show ?thesis using assms run_install_inv [OF assms(1)] by (auto simp: run_step_def)
next
  case PcSelect
  then show ?thesis using assms run_select_inv [OF assms(1)] by (simp add: run_step_def)
next
  case (PcRetry p b)
  then show ?thesis using assms retry_open_inv [OF assms(1)] by (simp add: run_step_def)
next
  case (PcReplace t p b)
  then show ?thesis using assms retry_replace_inv [OF assms(1)] by (auto simp: run_step_def)
next
  case (PcResend p)
  then show ?thesis using assms retry_resend_inv [OF assms(1)] by (simp add: run_step_def)
next
  case PcDone
  then show ?thesis using assms by (simp add: run_step_def)
next
  case PcExit
  then have st': "st' = (on_run_session session_close st)\<lparr> er_pc := PcDone \<rparr>" "out = []"
    using assms(2) by (simp_all add: run_step_def)
  show ?thesis
    using assms(1) PcExit by (simp add: st' run_inv_def attempts_ok_def fifo_def counted_def on_run_session_def
        run_limit_def forwardStatID_def)
qed

lemma entry_step_inv:
  assumes "run_inv base tr st" and "entry_step e w ev st = (st', out)"
  shows "run_inv base (tr @ out) st'"
proof (cases ev)
  case (EvEnqueue p)
  obtain b s where q: "enqueue (er_ctx st) p (er_session st) = (b, s)" by force
  have st': "st' = st\<lparr> er_session := s \<rparr>" "out = (if b then [Accepted p] else [])"
    using assms(2) EvEnqueue q by simp_all
  have ok: "queue_ok s" using queue_ok_enqueue [of "er_session st" "er_ctx st" p] assms(1) q by (simp add: run_inv_def)
  note o = enqueue_other [OF q]
  show ?thesis
    using assms(1) ok o
    by (cases b) (simp_all add: st' run_inv_def attempts_ok_def fifo_def counted_def run_limit_def forwardStatID_def)
next
  case EvClose
  then have "st' = on_run_session session_close st" "out = []" using assms(2) by simp_all
  then show ?thesis using assms(1)
    by (simp add: run_inv_def attempts_ok_def fifo_def counted_def on_run_session_def run_limit_def forwardStatID_def)
next
  case EvCtx
  then have "st' = st\<lparr> er_ctx := True \<rparr>" "out = []" using assms(2) by simp_all
  then show ?thesis using assms(1)
    by (simp add: run_inv_def attempts_ok_def fifo_def counted_def run_limit_def forwardStatID_def)
next
  case (EvRead r)
  then show ?thesis using assms on_reader_inv [OF assms(1)] by auto
next
  case EvReadEnd
  then show ?thesis using assms on_reader_inv [OF assms(1)] by auto
next
  case (EvRun ch)
  then show ?thesis using run_step_inv assms by simp
qed

lemma entry_trace_inv:
  "run_inv base tr st \<Longrightarrow> entry_trace e w evs st = (st', out) \<Longrightarrow> run_inv base (tr @ out) st'"
proof (induction evs arbitrary: tr st out)
  case (Cons ev evs)
  obtain st1 o1 where s: "entry_step e w ev st = (st1, o1)" by force
  obtain o2 where t: "entry_trace e w evs st1 = (st', o2)" and out: "out = o1 @ o2"
    using Cons.prems(2) by (auto simp: s split: prod.splits)
  from Cons.IH [OF entry_step_inv [OF Cons.prems(1) s] t] show ?case by (simp add: out)
qed simp

lemma entry_start_inv:
  "es_queue s = [] \<Longrightarrow> queue_ok s \<Longrightarrow> run_inv forwards [] (entry_start s r forwards tunnels)"
  using attempt_limit_pos
  by (simp add: run_inv_def attempts_ok_def fifo_def counted_def entry_start_def run_limit_def)

lemma session_runs:
  assumes "entry_trace e w evs (entry_start (newUDPEntrySession key f t client) r forwards tunnels) = (st, tr)"
  shows "run_inv forwards tr st"
  using entry_trace_inv [OF entry_start_inv assms] by (simp add: newUDPEntrySession_def queue_ok_def maxUDPSessionQueueBytes_def)

section \<open>What every session does\<close>

lemma on_reader_session [simp]:
  "es_tunnel (er_session (on_reader g st)) = es_tunnel (er_session st)"
  by (cases "er_pc st") (simp_all add: on_reader_def on_run_session_def)

lemma run_send_same: "er_session (snd (run_send w p st)) = er_session st"
  by (simp add: run_send_def)

text \<open>A session keeps the forward and the tunnel it was created with.\<close>

definition same_route :: "entry_run \<Rightarrow> entry_run \<Rightarrow> bool" where
  "same_route a b \<longleftrightarrow> es_forward (er_session a) = es_forward (er_session b) \<and>
     es_tunnel (er_session a) = es_tunnel (er_session b)"

lemma run_step_route: "same_route (fst (run_step e w ch st)) st"
proof (cases "er_pc st")
  case PcOpen
  obtain r st1 where o: "run_openTransport e st = (r, st1)" by force
  show ?thesis using openTransport_fields [OF o]
    by (cases r) (simp_all add: run_step_def PcOpen run_open_def o same_route_def)
next
  case (PcInstall t)
  then show ?thesis
    by (auto simp: run_step_def run_install_def same_route_def split: prod.splits bool.splits
        dest: replaceTransport_fields)
next
  case PcSelect
  then show ?thesis
    by (cases ch) (auto simp: run_step_def same_route_def run_queue_def run_transport_event_def Let_def
        on_run_session_def run_send_def split: list.splits option.splits sum.splits prod.splits)
next
  case (PcRetry p b)
  obtain r st1 where o: "run_openTransport e (st\<lparr> er_attempts := er_attempts st + 1 \<rparr>) = (r, st1)" by force
  show ?thesis using openTransport_fields [OF o] o
    by (cases r) (simp_all add: run_step_def PcRetry retry_open_def same_route_def)
next
  case (PcReplace t p b)
  then show ?thesis
    by (auto simp: run_step_def retry_replace_def same_route_def split: prod.splits bool.splits
        dest: replaceTransport_fields)
next
  case (PcResend p)
  then show ?thesis
    by (simp add: run_step_def retry_resend_def same_route_def Let_def run_send_def split: option.splits prod.splits)
next
  case PcExit
  then show ?thesis by (simp add: run_step_def same_route_def on_run_session_def)
next
  case PcDone
  then show ?thesis by (simp add: run_step_def same_route_def)
qed

lemma same_route_refl [simp]: "same_route a a"
  by (simp add: same_route_def)

lemma same_route_trans: "same_route a b \<Longrightarrow> same_route b c \<Longrightarrow> same_route a c"
  by (simp add: same_route_def)

lemma enqueue_route: "es_forward (snd (enqueue ctx p s)) = es_forward s" "es_tunnel (snd (enqueue ctx p s)) = es_tunnel s"
  by (simp_all add: enqueue_def)

lemma entry_step_route: "same_route (fst (entry_step e w ev st)) st"
proof (cases ev)
  case (EvEnqueue p)
  then show ?thesis by (simp add: same_route_def split_beta enqueue_route)
next
  case (EvRun ch)
  then show ?thesis using run_step_route by simp
qed (simp_all add: same_route_def on_run_session_def)

lemma entry_trace_route: "same_route (fst (entry_trace e w evs st)) st"
proof (induction evs arbitrary: st)
  case (Cons ev evs)
  from same_route_trans [OF Cons.IH entry_step_route] show ?case by (simp add: split_beta)
qed simp

lemma session_route:
  assumes "entry_trace e w evs (entry_start (newUDPEntrySession key f t client) r forwards tunnels) = (st, tr)"
  shows "run_limit st = udpEntryAttemptLimit f t" and "forwardStatID st = ''forward:'' @ frt_id f"
  using entry_trace_route [of e w evs "entry_start (newUDPEntrySession key f t client) r forwards tunnels"] assms
  by (simp_all add: same_route_def run_limit_def forwardStatID_def entry_start_def newUDPEntrySession_def)

text \<open>Once a response has come, the session keeps its transport.\<close>

lemma retry_begin_settled: "er_confirmed st \<Longrightarrow> er_pc (retry_begin e x p b st) = PcExit"
  by (simp add: retry_begin_def Let_def)

lemma run_select_confirmed:
  assumes "er_confirmed st" and "er_pc st = PcSelect" and "run_select e w ch st = (st', out)"
  shows "er_confirmed st' \<and> settled (er_pc st') \<and> opened out = 0"
  using assms
  by (cases ch) (auto simp: run_queue_def run_transport_event_def on_run_session_def run_send_def Let_def
      retry_begin_settled split: list.splits option.splits sum.splits prod.splits if_splits)

lemma entry_step_confirmed:
  assumes "er_confirmed st" and "settled (er_pc st)" and "entry_step e w ev st = (st', out)"
  shows "er_confirmed st' \<and> settled (er_pc st') \<and> opened out = 0"
proof (cases ev)
  case (EvEnqueue p)
  then show ?thesis using assms by (auto simp: split: prod.splits if_splits)
next
  case (EvRun ch)
  with assms consider "er_pc st = PcSelect" | "er_pc st = PcExit" | "er_pc st = PcDone"
    by (cases "er_pc st") auto
  then show ?thesis
    by cases (use assms EvRun run_select_confirmed [OF assms(1)] in \<open>auto simp: run_step_def on_run_session_def\<close>)
next
  case (EvRead r)
  then show ?thesis using assms by auto
next
  case EvReadEnd
  then show ?thesis using assms by auto
qed (use assms in \<open>auto simp: on_run_session_def\<close>)

lemma entry_trace_confirmed:
  "er_confirmed st \<Longrightarrow> settled (er_pc st) \<Longrightarrow> entry_trace e w evs st = (st', out) \<Longrightarrow> opened out = 0"
proof (induction evs arbitrary: st out)
  case (Cons ev evs)
  obtain st1 o1 where s: "entry_step e w ev st = (st1, o1)" by force
  from entry_step_confirmed [OF Cons.prems(1,2) s] Cons.IH [of st1] Cons.prems(3) s
  show ?case by (auto split: prod.splits)
qed simp

lemma entry_step_out: "length (snd (entry_step e w ev st)) \<le> 1"
  by (cases ev; simp add: run_step_def retry_open_def retry_resend_def split_beta Let_def split: run_pc.splits option.splits)
    (rename_tac ch, case_tac ch; simp add: run_queue_def run_transport_event_def split_beta Let_def
      split: list.splits option.splits sum.splits)

lemma trace_after_reply:
  "run_inv base tr st \<Longrightarrow> entry_trace e w evs st = (st', a @ Replied p # b) \<Longrightarrow> opened b = 0"
proof (induction evs arbitrary: tr st a)
  case (Cons ev evs)
  obtain st1 o1 where s: "entry_step e w ev st = (st1, o1)" by force
  obtain o2 where t: "entry_trace e w evs st1 = (st', o2)" and out: "a @ Replied p # b = o1 @ o2"
    using Cons.prems(2) by (auto simp: s split: prod.splits)
  note inv = entry_step_inv [OF Cons.prems(1) s]
  have "length o1 \<le> 1" using entry_step_out [of e w ev st] s by simp
  then consider "o1 = []" | x where "o1 = [x]" by (cases o1) auto
  then show ?case
  proof cases
    case 1
    then have "o2 = a @ Replied p # b" using out by simp
    from Cons.IH [OF inv t [unfolded this]] show ?thesis .
  next
    case 2
    then consider "a = []" "x = Replied p" "b = o2" | a' where "a = x # a'" "o2 = a' @ Replied p # b"
      using out by (cases a) auto
    then show ?thesis
    proof cases
      case 1
      then have "er_confirmed st1" "settled (er_pc st1)"
        using inv 2 \<open>o1 = [x]\<close> by (simp_all add: run_inv_def attempts_ok_def)
      from entry_trace_confirmed [OF this t] show ?thesis by (simp add: 1)
    next
      case 2
      then show ?thesis using Cons.IH [OF inv] t by simp
    qed
  qed
qed simp

text \<open>whatever the packets, the network, the reader and the closing do to a session, the datagrams
  it sends are, in order, among those its queue accepted, each at most once (an empty datagram it may
  add on its own aside); the forward's counters grow by the bytes it sent and the bytes it handed
  back, and by no others.\<close>

theorem udp_session_sends:
  assumes "entry_trace e w evs (entry_start (newUDPEntrySession key f t client) r forwards tunnels) = (st, tr)"
  shows "subseq (nonempty (sent tr)) (accepted tr) \<and>
    ctr_in (counter_of (er_forwards st) (''forward:'' @ frt_id f)) =
      ctr_in (counter_of forwards (''forward:'' @ frt_id f)) + bytes_of (sent tr) \<and>
    ctr_out (counter_of (er_forwards st) (''forward:'' @ frt_id f)) =
      ctr_out (counter_of forwards (''forward:'' @ frt_id f)) + bytes_of (replied tr)"
proof -
  note inv = session_runs [OF assms]
  obtain h where h: "accepted tr = h @ es_queue (er_session st)"
      "subseq (nonempty (sent tr @ pending_of (er_pc st))) h"
    using inv by (auto simp: run_inv_def fifo_def)
  have "subseq (nonempty (sent tr)) h" using subseq_append_left h(2) by (metis outputs_append(5))
  then have "subseq (nonempty (sent tr)) (accepted tr)" unfolding h(1)
    by (rule subseq_order.trans) (rule prefix_imp_subseq, simp) 
  moreover have "counted forwards tr st" using inv by (simp add: run_inv_def)
  ultimately show ?thesis unfolding counted_def session_route(2) [OF assms] by blast
qed

text \<open>C35: a session opens at most as many transports as its forward has targets, or the next stage
  nodes that carry UDP (at least one), and none at all once a response has come back.\<close>

theorem udp_session_attempts:
  assumes "entry_trace e w evs (entry_start (newUDPEntrySession key f t client) r forwards tunnels) = (st, tr)"
  shows "opened tr \<le> udpEntryAttemptLimit f t \<and> (\<forall>a p b. tr = a @ Replied p # b \<longrightarrow> opened b = 0)"
proof -
  have "opened tr \<le> udpEntryAttemptLimit f t"
    using session_runs [OF assms] session_route(1) [OF assms] by (auto simp: run_inv_def attempts_ok_def split: if_splits)
  moreover have "run_inv forwards [] (entry_start (newUDPEntrySession key f t client) r forwards tunnels)"
    by (rule entry_start_inv) (simp_all add: newUDPEntrySession_def queue_ok_def maxUDPSessionQueueBytes_def)
  ultimately show ?thesis using trace_after_reply assms by blast
qed

section \<open>The retries end\<close>

fun retry_rank :: "nat \<Rightarrow> run_pc \<Rightarrow> nat" where
  "retry_rank left (PcRetry p b) = 3 * left + 1"
| "retry_rank left (PcReplace t p b) = 3 * left + 3"
| "retry_rank left (PcResend p) = 3 * left + 2"
| "retry_rank left PcOpen = 2"
| "retry_rank left (PcInstall t) = 1"
| "retry_rank left _ = 0"

definition run_rank :: "entry_run \<Rightarrow> nat" where
  "run_rank st = retry_rank (run_limit st - er_attempts st) (er_pc st)"

lemma run_rank_0: "run_rank st = 0 \<longleftrightarrow> settled (er_pc st)"
  by (cases "er_pc st") (simp_all add: run_rank_def)

lemma run_rank_le: "run_rank st \<le> 3 * run_limit st + 3"
  by (cases "er_pc st") (simp_all add: run_rank_def)

lemma same_route_limit: "same_route a b \<Longrightarrow> run_limit a = run_limit b"
  by (simp add: same_route_def run_limit_def)

lemma run_step_rank:
  assumes "\<not> settled (er_pc st)"
  shows "run_rank (fst (run_step e w ch st)) < run_rank st"
proof -
  note limit = same_route_limit [OF run_step_route [of e w ch st]]
  show ?thesis
  proof (cases "er_pc st")
    case PcOpen
    obtain r st1 where o: "run_openTransport e st = (r, st1)" by force
    then show ?thesis using openTransport_fields [OF o]
      by (cases r) (simp_all add: run_rank_def run_step_def PcOpen run_open_def o)
  next
    case (PcInstall t)
    then show ?thesis
      by (simp add: run_rank_def run_step_def run_install_def split: prod.splits bool.splits)
  next
    case (PcRetry p b)
    show ?thesis
    proof (cases "run_limit st \<le> er_attempts st")
      case False
      obtain r st1 where o: "run_openTransport e (st\<lparr> er_attempts := er_attempts st + 1 \<rparr>) = (r, st1)" by force
      show ?thesis using openTransport_fields [OF o] o False limit
        by (cases r) (auto simp: run_step_def PcRetry retry_open_def run_rank_def)
    qed (simp add: run_rank_def run_step_def PcRetry retry_open_def)
  next
    case (PcReplace t p b)
    then show ?thesis using limit
      by (auto simp: run_step_def retry_replace_def run_rank_def split: prod.splits bool.splits)
  next
    case (PcResend p)
    then show ?thesis using limit
      by (auto simp: run_step_def retry_resend_def run_rank_def Let_def run_send_def split: prod.splits option.splits)
  qed (use assms in simp_all)
qed

lemma entry_step_rank:
  assumes "\<not> settled (er_pc st)"
  shows "run_rank (fst (entry_step e w ev st)) \<le> run_rank st"
proof -
  note limit = same_route_limit [OF entry_step_route [of e w ev st]]
  show ?thesis
  proof (cases ev)
    case (EvEnqueue p)
    then show ?thesis using limit by (simp add: run_rank_def split_beta)
  next
    case (EvRead r)
    then show ?thesis using limit by (cases "er_pc st") (simp_all add: run_rank_def on_reader_def on_run_session_def)
  next
    case EvReadEnd
    then show ?thesis using limit by (cases "er_pc st") (simp_all add: run_rank_def on_reader_def on_run_session_def)
  next
    case (EvRun ch)
    then show ?thesis using run_step_rank [OF assms] by (simp add: less_imp_le)
  qed (use limit in \<open>simp_all add: run_rank_def on_run_session_def\<close>)
qed

fun own_steps :: "run_event list \<Rightarrow> nat" where
  "own_steps [] = 0"
| "own_steps (EvRun ch # evs) = Suc (own_steps evs)"
| "own_steps (ev # evs) = own_steps evs"

lemma own_steps_Cons: "own_steps (ev # evs) = (if \<exists>ch. ev = EvRun ch then 1 else 0) + own_steps evs"
  by (cases ev) simp_all

lemma rank_settles:
  "run_rank st \<le> own_steps evs \<Longrightarrow>
     \<exists>evs1 evs2. evs = evs1 @ evs2 \<and> settled (er_pc (fst (entry_trace e w evs1 st)))"
proof (induction evs arbitrary: st)
  case Nil
  then show ?case by (simp add: run_rank_0)
next
  case (Cons ev evs)
  show ?case
  proof (cases "settled (er_pc st)")
    case True
    then show ?thesis by (intro exI [of _ "[]"] exI [of _ "ev # evs"]) simp
  next
    case False
    let ?st1 = "fst (entry_step e w ev st)"
    have "run_rank ?st1 \<le> own_steps evs"
    proof (cases "\<exists>ch. ev = EvRun ch")
      case True
      then obtain ch where ev: "ev = EvRun ch" by blast
      have "run_rank ?st1 < run_rank st" using run_step_rank [OF False] by (simp add: ev)
      also have "\<dots> \<le> Suc (own_steps evs)" using Cons.prems by (simp add: ev)
      finally show ?thesis by simp
    next
      case other: False
      then have "run_rank st \<le> own_steps evs" using Cons.prems by (simp add: own_steps_Cons)
      with entry_step_rank [OF False] show ?thesis by (rule order_trans)
    qed
    from Cons.IH [OF this] obtain evs1 evs2 where
        "evs = evs1 @ evs2" "settled (er_pc (fst (entry_trace e w evs1 ?st1)))" by blast
    then show ?thesis by (intro exI [of _ "ev # evs1"] exI [of _ evs2]) (simp add: split_beta)
  qed
qed

text \<open>C40: opening, retrying and resending always come to an end: among any events that contain three
  steps of the goroutine per attempt, and three more, whatever the others do in between, there is a
  moment at which the session waits at its select statement or is leaving.\<close>

theorem udp_session_settles:
  assumes "3 * run_limit st + 3 \<le> own_steps evs"
  shows "\<exists>evs1 evs2. evs = evs1 @ evs2 \<and> settled (er_pc (fst (entry_trace e w evs1 st)))"
  by (rule rank_settles) (rule order_trans [OF run_rank_le assms])

section \<open>A session whose first transport fails\<close>

definition ex_wire :: wire where
  "ex_wire = \<lparr> w_marshal = (\<lambda>f. None), w_writer = (\<lambda>k j n. (n, False)), w_error = UNet,
     w_send = (\<lambda>k p. if k < 105 then (0, Some (UNet k)) else (length p, None)) \<rparr>"

definition up_env :: env where
  "up_env = ex_env\<lparr> env_dial := (\<lambda>k net addr. True) \<rparr>"

definition ex_direct :: tunnel_runtime where
  "ex_direct = ex_tunnel\<lparr> trt_type := TunnelDirect \<rparr>"

definition ex_events :: "run_event list" where
  "ex_events = [EvRun ChIdle, EvRun ChIdle, EvEnqueue ''hi'', EvRun ChQueue, EvRun ChIdle, EvRun ChIdle,
     EvRun ChIdle, EvRead (WData ''ok''), EvRun ChEvent, EvEnqueue ''more'', EvRun ChQueue]"

definition ex_start :: entry_run where
  "ex_start = entry_start (newUDPEntrySession ''k'' ex_forward ex_direct ''1.2.3.4:5'') ex_relay [] []"

lemma ex_session:
  "snd (entry_trace up_env ex_wire ex_events ex_start) =
     [Opened, Accepted ''hi'', Opened, Sent ''hi'', Replied ''ok'', Accepted ''more'', Sent ''more'']"
  by code_simp

lemma ex_run:
  "entry_trace up_env ex_wire ex_events
     (entry_start (newUDPEntrySession ''k'' ex_forward ex_direct ''1.2.3.4:5'') ex_relay [] []) =
   (fst (entry_trace up_env ex_wire ex_events ex_start),
    [Opened, Accepted ''hi'', Opened, Sent ''hi'', Replied ''ok'', Accepted ''more'', Sent ''more''])"
  using ex_session by (simp add: ex_start_def prod_eq_iff)

theorem udp_session_sends_witness:
  "ctr_in (counter_of (er_forwards (fst (entry_trace up_env ex_wire ex_events ex_start))) ''forward:f'') = 6"
proof -
  have "frt_id ex_forward = ''f''" by (simp add: ex_forward_def)
  moreover have "counter_of [] i = zero_counter" for i by (simp add: counter_of_def)
  ultimately show ?thesis
    using udp_session_sends [OF ex_run] by (simp add: zero_counter_def)
qed

theorem udp_session_attempts_witness: "2 \<le> udpEntryAttemptLimit ex_forward ex_direct"
  using udp_session_attempts [OF ex_run] by simp

theorem udp_session_settles_witness:
  "\<exists>evs1 evs2. replicate 9 (EvRun ChIdle) = evs1 @ evs2 \<and>
     settled (er_pc (fst (entry_trace up_env ex_wire evs1 ex_start)))"
proof (rule udp_session_settles)
  have "run_limit ex_start = 2"
    by (simp add: run_limit_def ex_start_def entry_start_def newUDPEntrySession_def udpEntryAttemptLimit_def
        ex_direct_def ex_tunnel_def ex_forward_def)
  then show "3 * run_limit ex_start + 3 \<le> own_steps (replicate 9 (EvRun ChIdle))"
    by (simp add: numeral_eq_Suc)
qed

end
