(* ===== verification/UdpStage.thy ===== *)
theory UdpStage
  imports UdpEntry
begin

text \<open>
  internal/node/relay/udp.go: UDP sessions on the transit and exit stages of a tunnel.  A stage takes
  the first datagram of a session, reaches the next stage or a target with it, and then pumps
  datagrams both ways until one pump ends, the session idles out or the service stops.

  A pump is a function of what its reads answer, in order; a list that runs out stands for a read
  that still blocks, and the pump has no result yet.  A write is answered by the wire of the
  connection written to, with a tick per write.  The two pumps of a session share only counters,
  which add up, so they are run one after the other.
\<close>

section \<open>First datagram\<close>

definition validateInitialUDPFrame :: "udp_frame \<Rightarrow> string \<Rightarrow> udp_error option" where
  "validateInitialUDPFrame frame forwardID =
    (if uf_forward frame \<noteq> forwardID then Some UMismatch
     else if uf_session frame = '''' then Some USessionEmpty else None)"

definition writeUDPFrameWithDeadline :: "wire \<Rightarrow> nat \<Rightarrow> udp_frame \<Rightarrow> udp_error option" where
  "writeUDPFrameWithDeadline w k frame =
    (case WriteUDPDatagramFrame (w_marshal w) (w_writer w k) 0 [] frame of
       (e, _) \<Rightarrow> map_option (frame_failure w k) e)"

definition writeUDPConnPayload :: "wire \<Rightarrow> nat \<Rightarrow> string \<Rightarrow> udp_error option" where
  "writeUDPConnPayload w k payload =
    (case w_send w k payload of
       (_, Some e) \<Rightarrow> Some e
     | (n, None) \<Rightarrow> if n \<noteq> length payload then Some UShortWrite else None)"

section \<open>Pumps\<close>

datatype pump_side = PumpUpstream | PumpDownstream

record pump_result =
  pr_side :: pump_side
  pr_err :: udp_error
  pr_write_failed :: bool

text \<open>What a pump changes: what it wrote, the counter of the forward, the counters of the tunnels,
  whether a response was seen, and how often it reported activity.\<close>

record 'a pump =
  pm_written :: "'a list"
  pm_counter :: traffic_counter
  pm_tunnels :: counters
  pm_seen :: bool
  pm_touched :: nat

definition count_in :: "string \<Rightarrow> nat \<Rightarrow> ('a, 'b) pump_scheme \<Rightarrow> ('a, 'b) pump_scheme" where
  "count_in statID n p =
     p\<lparr> pm_counter := (pm_counter p)\<lparr> ctr_in := ctr_in (pm_counter p) + of_nat n \<rparr>,
        pm_tunnels := (if statID \<noteq> '''' then AddIn statID (of_nat n) (pm_tunnels p) else pm_tunnels p) \<rparr>"

definition count_out :: "string \<Rightarrow> nat \<Rightarrow> ('a, 'b) pump_scheme \<Rightarrow> ('a, 'b) pump_scheme" where
  "count_out statID n p =
     p\<lparr> pm_counter := (pm_counter p)\<lparr> ctr_out := ctr_out (pm_counter p) + of_nat n \<rparr>,
        pm_tunnels := (if statID \<noteq> '''' then AddOut statID (of_nat n) (pm_tunnels p) else pm_tunnels p) \<rparr>"

definition wrote :: "'a \<Rightarrow> bool \<Rightarrow> ('a, 'b) pump_scheme \<Rightarrow> ('a, 'b) pump_scheme" where
  "wrote x seen p = p\<lparr> pm_written := pm_written p @ [x], pm_touched := pm_touched p + 1,
     pm_seen := (seen \<or> pm_seen p) \<rparr>"

text \<open>Between two stages.  The flag of responses is given to the downstream pump only.\<close>

fun relayUDPFramePump ::
  "wire \<Rightarrow> string \<Rightarrow> string \<Rightarrow> pump_side \<Rightarrow> string \<Rightarrow> nat \<Rightarrow> (udp_error + udp_frame) list \<Rightarrow>
     udp_frame pump \<Rightarrow> pump_result option \<times> udp_frame pump" where
  "relayUDPFramePump w forwardID sessionID side statID k [] p = (None, p)"
| "relayUDPFramePump w forwardID sessionID side statID k (Inl err # reads) p =
     (Some \<lparr> pr_side = side, pr_err = err, pr_write_failed = False \<rparr>, p)"
| "relayUDPFramePump w forwardID sessionID side statID k (Inr frame # reads) p =
    (if uf_forward frame \<noteq> forwardID \<or> uf_session frame \<noteq> sessionID then
       (Some \<lparr> pr_side = side, pr_err = UMismatch, pr_write_failed = False \<rparr>, p)
     else (case writeUDPFrameWithDeadline w k frame of
         Some err \<Rightarrow> (Some \<lparr> pr_side = side, pr_err = err, pr_write_failed = True \<rparr>, p)
       | None \<Rightarrow>
           (let p1 = wrote frame (side = PumpDownstream) p; n = length (uf_payload frame);
                p2 = (if side = PumpUpstream then count_in statID n p1 else count_out statID n p1)
            in relayUDPFramePump w forwardID sessionID side statID (Suc k) reads p2)))"

text \<open>At the exit: frames to the datagrams of the target, and back.\<close>

fun relayUDPFramesToTarget ::
  "wire \<Rightarrow> string \<Rightarrow> string \<Rightarrow> string \<Rightarrow> nat \<Rightarrow> (udp_error + udp_frame) list \<Rightarrow> string pump \<Rightarrow>
     pump_result option \<times> string pump" where
  "relayUDPFramesToTarget w forwardID sessionID statID k [] p = (None, p)"
| "relayUDPFramesToTarget w forwardID sessionID statID k (Inl err # reads) p =
     (Some \<lparr> pr_side = PumpUpstream, pr_err = err, pr_write_failed = False \<rparr>, p)"
| "relayUDPFramesToTarget w forwardID sessionID statID k (Inr frame # reads) p =
    (if uf_forward frame \<noteq> forwardID \<or> uf_session frame \<noteq> sessionID then
       (Some \<lparr> pr_side = PumpUpstream, pr_err = UMismatch, pr_write_failed = False \<rparr>, p)
     else (case writeUDPConnPayload w k (uf_payload frame) of
         Some err \<Rightarrow> (Some \<lparr> pr_side = PumpUpstream, pr_err = err, pr_write_failed = True \<rparr>, p)
       | None \<Rightarrow> relayUDPFramesToTarget w forwardID sessionID statID (Suc k) reads
           (count_in statID (length (uf_payload frame)) (wrote (uf_payload frame) False p))))"

fun relayUDPTargetToFrames ::
  "wire \<Rightarrow> string \<Rightarrow> string \<Rightarrow> string \<Rightarrow> nat \<Rightarrow> (udp_error + string) list \<Rightarrow> udp_frame pump \<Rightarrow>
     pump_result option \<times> udp_frame pump" where
  "relayUDPTargetToFrames w forwardID sessionID statID k [] p = (None, p)"
| "relayUDPTargetToFrames w forwardID sessionID statID k (Inl err # reads) p =
     (Some \<lparr> pr_side = PumpDownstream, pr_err = err, pr_write_failed = False \<rparr>, p)"
| "relayUDPTargetToFrames w forwardID sessionID statID k (Inr datagram # reads) p =
    (let payload = take MaxUDPPacket datagram;
         frame = \<lparr> uf_forward = forwardID, uf_session = sessionID, uf_payload = payload \<rparr>
     in case writeUDPFrameWithDeadline w k frame of
          Some err \<Rightarrow> (Some \<lparr> pr_side = PumpDownstream, pr_err = err, pr_write_failed = True \<rparr>, p)
        | None \<Rightarrow> relayUDPTargetToFrames w forwardID sessionID statID (Suc k) reads
            (count_out statID (length payload) (wrote frame True p)))"

section \<open>The end of a session\<close>

datatype session_event = PumpEnded pump_result | ContextDone | TimerChecked | Activity

datatype session_end = EndedByPump pump_result | EndedByContext | EndedByIdle

text \<open>The select loop of \<open>runUDPPersistentSession\<close> on events with their times: the timer has
  fired when its deadline has passed, and each report of activity sets it anew.\<close>

fun session_loop :: "duration \<Rightarrow> time \<Rightarrow> (time \<times> session_event) list \<Rightarrow> session_end option" where
  "session_loop idle deadline [] = None"
| "session_loop idle deadline ((now, event) # events) =
    (if deadline \<le> now then Some EndedByIdle
     else (case event of
         PumpEnded r \<Rightarrow> Some (EndedByPump r)
       | ContextDone \<Rightarrow> Some EndedByContext
       | TimerChecked \<Rightarrow> session_loop idle deadline events
       | Activity \<Rightarrow> session_loop idle (now + idle) events))"

definition runUDPPersistentSession ::
  "duration \<Rightarrow> time \<Rightarrow> (time \<times> session_event) list \<Rightarrow> session_end option" where
  "runUDPPersistentSession idleTimeout start events =
    (let idle = (if idleTimeout \<le> 0 then udpSessionIdleTimeout else idleTimeout)
     in session_loop idle (start + idle) events)"

text \<open>The result of the pump that ended first; none while that pump still blocks.\<close>

datatype ended_by = ByPump pump_side | ByContext | ByIdle

fun session_result :: "ended_by \<Rightarrow> pump_result option \<Rightarrow> pump_result option \<Rightarrow> session_end option" where
  "session_result (ByPump PumpUpstream) up down = map_option EndedByPump up"
| "session_result (ByPump PumpDownstream) up down = map_option EndedByPump down"
| "session_result ByContext up down = Some EndedByContext"
| "session_result ByIdle up down = Some EndedByIdle"

text \<open>Who is to blame: a response side that ended without a response or other than by the end of the
  stream, and a write to the next stage or target that failed.\<close>

definition blames :: "session_end option \<Rightarrow> bool \<Rightarrow> bool" where
  "blames ended responseSeen \<longleftrightarrow>
    (case ended of
       Some (EndedByPump r) \<Rightarrow>
         pr_side r = PumpDownstream \<and> \<not> pr_write_failed r \<and> (pr_err r \<noteq> UEOF \<or> \<not> responseSeen) \<or>
         pr_side r = PumpUpstream \<and> pr_write_failed r
     | _ \<Rightarrow> False)"

section \<open>Handlers\<close>

datatype stage_outcome =
    FirstReadFailed udp_error
  | FirstRejected udp_error
  | NotReached dial_error
  | NotOpened
  | FirstWriteFailed udp_error
  | SessionRan "session_end option"

definition new_pump :: "traffic_counter \<Rightarrow> counters \<Rightarrow> 'a pump" where
  "new_pump counter tunnels = \<lparr> pm_written = [], pm_counter = counter, pm_tunnels = tunnels,
     pm_seen = False, pm_touched = 0 \<rparr>"

definition next_pump :: "('a, 'c) pump_scheme \<Rightarrow> 'b pump" where
  "next_pump p = new_pump (pm_counter p) (pm_tunnels p)"

text \<open>The inputs of a session after its first datagram: the reads of both directions, the wires of
  both connections, and how the session ended.\<close>

record 'a traffic =
  tf_up :: "(udp_error + udp_frame) list"
  tf_down :: "(udp_error + 'a) list"
  tf_out :: wire
  tf_in :: wire
  tf_end :: ended_by

definition handleUDPStageTransit ::
  "env \<Rightarrow> tunnel_runtime \<Rightarrow> forward_runtime \<Rightarrow> int \<Rightarrow> udp_error + udp_frame \<Rightarrow> udp_frame traffic \<Rightarrow>
     traffic_counter \<Rightarrow> counters \<Rightarrow> relay \<Rightarrow>
     stage_outcome \<times> relay \<times> udp_frame list \<times> udp_frame pump" where
  "handleUDPStageTransit e t f stage first tf counter tunnels r =
    (let p0 = new_pump counter tunnels in
     case first of
       Inl err \<Rightarrow> (FirstReadFailed err, r, [], p0)
     | Inr frame \<Rightarrow> (case validateInitialUDPFrame frame (frt_id f) of
         Some err \<Rightarrow> (FirstRejected err, r, [], p0)
       | None \<Rightarrow>
           (let sid = uf_session frame in
            case dialForwardNext e t f stage ''udp'' sid r of
              (Inl (_, x), r1) \<Rightarrow> (NotReached x, r1, [], p0)
            | (Inr (c, statID), r1) \<Rightarrow>
                (case writeUDPFrameWithDeadline (tf_out tf) 0 frame of
                   Some err \<Rightarrow> (FirstWriteFailed err, markUDPStreamFailure e t f stage statID sid r1, [], p0)
                 | None \<Rightarrow>
                     (let p1 = count_in statID (length (uf_payload frame)) p0;
                          (up_res, up) = relayUDPFramePump (tf_out tf) (frt_id f) sid PumpUpstream statID 1 (tf_up tf) p1;
                          (down_res, down) = relayUDPFramePump (tf_in tf) (frt_id f) sid PumpDownstream statID 0
                             (tf_down tf) (next_pump up);
                          ended = session_result (tf_end tf) up_res down_res;
                          r2 = (if blames ended (pm_seen down)
                                then markUDPStreamFailure e t f stage statID sid r1 else r1)
                      in (SessionRan ended, r2, frame # pm_written up, down))))))"

text \<open>The exit tries its targets with the first datagram, which shows whether one takes datagrams.\<close>

fun stage_target_attempts ::
  "env \<Rightarrow> wire \<Rightarrow> forward_runtime \<Rightarrow> string \<Rightarrow> string \<Rightarrow> nat \<Rightarrow> relay \<Rightarrow> (conn \<times> string \<times> string) option \<times> relay" where
  "stage_target_attempts e w f sid payload 0 r = (None, r)"
| "stage_target_attempts e w f sid payload (Suc n) r =
    (case dialForwardTarget e f ''udp'' sid r of
       (Inl _, r1) \<Rightarrow> stage_target_attempts e w f sid payload n r1
     | (Inr (c, statID, targetID), r1) \<Rightarrow>
         (case writeUDPConnPayload w (rl_tick r1) payload of
            Some err \<Rightarrow> stage_target_attempts e w f sid payload n
                          (markUDPTargetFailure e (frt_id f) sid targetID (tick r1))
          | None \<Rightarrow> (Some (c, statID, targetID), tick r1)))"

definition openUDPStageTarget ::
  "env \<Rightarrow> wire \<Rightarrow> forward_runtime \<Rightarrow> string \<Rightarrow> string \<Rightarrow> relay \<Rightarrow> (conn \<times> string \<times> string) option \<times> relay" where
  "openUDPStageTarget e w f sid payload r =
    (let attempts = length (frt_targets f)
     in stage_target_attempts e w f sid payload (if attempts = 0 then 1 else attempts) r)"

definition handleUDPStageExit ::
  "env \<Rightarrow> forward_runtime \<Rightarrow> udp_error + udp_frame \<Rightarrow> string traffic \<Rightarrow>
     traffic_counter \<Rightarrow> counters \<Rightarrow> relay \<Rightarrow>
     stage_outcome \<times> relay \<times> string list \<times> udp_frame pump" where
  "handleUDPStageExit e f first tf counter tunnels r =
    (let p0 = new_pump counter tunnels in
     case first of
       Inl err \<Rightarrow> (FirstReadFailed err, r, [], p0)
     | Inr frame \<Rightarrow> (case validateInitialUDPFrame frame (frt_id f) of
         Some err \<Rightarrow> (FirstRejected err, r, [], p0)
       | None \<Rightarrow>
           (let sid = uf_session frame in
            case openUDPStageTarget e (tf_out tf) f sid (uf_payload frame) r of
              (None, r1) \<Rightarrow> (NotOpened, r1, [], p0)
            | (Some (c, statID, targetID), r1) \<Rightarrow>
                (let p1 = count_in statID (length (uf_payload frame)) (new_pump counter tunnels :: string pump);
                     (up_res, up) = relayUDPFramesToTarget (tf_out tf) (frt_id f) sid statID (rl_tick r1) (tf_up tf) p1;
                     (down_res, down) = relayUDPTargetToFrames (tf_in tf) (frt_id f) sid statID 0 (tf_down tf) (next_pump up);
                     ended = session_result (tf_end tf) up_res down_res;
                     r2 = (if blames ended (pm_seen down)
                           then markUDPTargetFailure e (frt_id f) sid targetID r1 else r1)
                 in (SessionRan ended, r2, uf_payload frame # pm_written up, down)))))"

section \<open>What the pumps deliver\<close>

text \<open>The datagrams of the session that come before the first read error or foreign datagram.\<close>

fun own_frames :: "string \<Rightarrow> string \<Rightarrow> (udp_error + udp_frame) list \<Rightarrow> udp_frame list" where
  "own_frames forwardID sessionID [] = []"
| "own_frames forwardID sessionID (Inl err # reads) = []"
| "own_frames forwardID sessionID (Inr frame # reads) =
    (if uf_forward frame = forwardID \<and> uf_session frame = sessionID
     then frame # own_frames forwardID sessionID reads else [])"

definition payload_bytes :: "udp_frame list \<Rightarrow> 64 word" where
  "payload_bytes fs = of_nat (sum_list (map (\<lambda>f. length (uf_payload f)) fs))"

lemma payload_bytes_simps [simp]:
  "payload_bytes [] = 0" "payload_bytes (f # fs) = of_nat (length (uf_payload f)) + payload_bytes fs"
  by (simp_all add: payload_bytes_def)

definition write_failed :: "pump_result option \<Rightarrow> bool" where
  "write_failed res \<longleftrightarrow> (case res of Some r \<Rightarrow> pr_write_failed r | None \<Rightarrow> False)"

lemma pump_steps [simp]:
  "pm_written (count_in s n p) = pm_written p" "pm_written (count_out s n p) = pm_written p"
  "pm_written (wrote x b p) = pm_written p @ [x]" "pm_counter (wrote x b p) = pm_counter p"
  "ctr_in (pm_counter (count_in s n p)) = ctr_in (pm_counter p) + of_nat n"
  "ctr_out (pm_counter (count_in s n p)) = ctr_out (pm_counter p)"
  "ctr_out (pm_counter (count_out s n p)) = ctr_out (pm_counter p) + of_nat n"
  "ctr_in (pm_counter (count_out s n p)) = ctr_in (pm_counter p)"
  "pm_seen (count_in s n p) = pm_seen p" "pm_seen (count_out s n p) = pm_seen p"
  "pm_seen (wrote x b p) = (b \<or> pm_seen p)"
  by (simp_all add: count_in_def count_out_def wrote_def)

text \<open>What a pump passed on: in order, everything of the session up to the first datagram that is
  not the session's, the end of the stream or a write that fails, and each byte counted once.\<close>

definition passed_on ::
  "pump_side \<Rightarrow> pump_result option \<Rightarrow> udp_frame list \<Rightarrow> udp_frame list \<Rightarrow> ('a, 'b) pump_scheme \<Rightarrow>
     ('a, 'b) pump_scheme \<Rightarrow> bool" where
  "passed_on side res own ws p p' \<longleftrightarrow> prefix ws own \<and> (\<not> write_failed res \<longrightarrow> ws = own) \<and>
     ctr_in (pm_counter p') = ctr_in (pm_counter p) + (if side = PumpUpstream then payload_bytes ws else 0) \<and>
     ctr_out (pm_counter p') = ctr_out (pm_counter p) + (if side = PumpUpstream then 0 else payload_bytes ws)"

lemma passed_on_step:
  assumes "passed_on side res own ws (if side = PumpUpstream then count_in stat (length (uf_payload f)) p
      else count_out stat (length (uf_payload f)) p) p'" and "pm_counter p = pm_counter q"
  shows "passed_on side res (f # own) (f # ws) q p'"
  using assms by (simp add: passed_on_def algebra_simps split: if_splits)

lemma frame_pump_passes:
  "relayUDPFramePump w fid sid side stat k reads p = (res, p') \<Longrightarrow>
     \<exists>ws. pm_written p' = pm_written p @ ws \<and> passed_on side res (own_frames fid sid reads) ws p p'"
proof (induction reads arbitrary: k p)
  case Nil
  then show ?case by (simp add: passed_on_def)
next
  case (Cons x reads)
  show ?case
  proof (cases x)
    case (Inl err)
    then show ?thesis using Cons.prems by (simp add: passed_on_def)
  next
    case (Inr frame)
    show ?thesis
    proof (cases "uf_forward frame \<noteq> fid \<or> uf_session frame \<noteq> sid")
      case True
      then show ?thesis using Cons.prems Inr by (auto simp: passed_on_def)
    next
      case own: False
      show ?thesis
      proof (cases "writeUDPFrameWithDeadline w k frame")
        case (Some err)
        then show ?thesis using Cons.prems own Inr by (auto simp: passed_on_def write_failed_def)
      next
        case None
        let ?p1 = "wrote frame (side = PumpDownstream) p"
        let ?p2 = "if side = PumpUpstream then count_in stat (length (uf_payload frame)) ?p1
          else count_out stat (length (uf_payload frame)) ?p1"
        have "relayUDPFramePump w fid sid side stat (Suc k) reads ?p2 = (res, p')"
          using Cons.prems own Inr None by (simp add: Let_def)
        from Cons.IH [OF this] obtain ws where ws: "pm_written p' = pm_written ?p2 @ ws"
            "passed_on side res (own_frames fid sid reads) ws ?p2 p'" by blast
        have "pm_written ?p2 = pm_written p @ [frame]" by simp
        with ws(1) passed_on_step [OF ws(2), of p] own Inr show ?thesis
          by (intro exI [of _ "frame # ws"]) simp
      qed
    qed
  qed
qed

lemma target_pump_passes:
  "relayUDPFramesToTarget w fid sid stat k reads p = (res, p') \<Longrightarrow>
     \<exists>ws. pm_written p' = pm_written p @ map uf_payload ws \<and>
       passed_on PumpUpstream res (own_frames fid sid reads) ws p p'"
proof (induction reads arbitrary: k p)
  case Nil
  then show ?case by (simp add: passed_on_def)
next
  case (Cons x reads)
  show ?case
  proof (cases x)
    case (Inl err)
    then show ?thesis using Cons.prems by (simp add: passed_on_def)
  next
    case (Inr frame)
    show ?thesis
    proof (cases "uf_forward frame \<noteq> fid \<or> uf_session frame \<noteq> sid")
      case True
      then show ?thesis using Cons.prems Inr by (auto simp: passed_on_def)
    next
      case own: False
      show ?thesis
      proof (cases "writeUDPConnPayload w k (uf_payload frame)")
        case (Some err)
        then show ?thesis using Cons.prems own Inr by (auto simp: passed_on_def write_failed_def)
      next
        case None
        let ?p1 = "wrote (uf_payload frame) False p"
        let ?p2 = "count_in stat (length (uf_payload frame)) ?p1"
        have "relayUDPFramesToTarget w fid sid stat (Suc k) reads ?p2 = (res, p')"
          using Cons.prems own Inr None by simp
        from Cons.IH [OF this] obtain ws where ws: "pm_written p' = pm_written ?p2 @ map uf_payload ws"
            "passed_on PumpUpstream res (own_frames fid sid reads) ws ?p2 p'" by blast
        have "passed_on PumpUpstream res (frame # own_frames fid sid reads) (frame # ws) p p'"
          by (rule passed_on_step [where p = ?p1 and stat = stat]) (simp_all add: ws(2))
        with ws(1) own Inr show ?thesis by (intro exI [of _ "frame # ws"]) simp
      qed
    qed
  qed
qed

section \<open>A chain of stages\<close>

text \<open>The frames that come out of transit stages, each with the wire of its outgoing link; a frame
  arrives as it was written, as the round trip of frames shows.\<close>

fun through_stages :: "wire list \<Rightarrow> string \<Rightarrow> string \<Rightarrow> string \<Rightarrow> udp_frame list \<Rightarrow> udp_frame list" where
  "through_stages [] fid sid stat fs = fs"
| "through_stages (w # wires) fid sid stat fs =
     through_stages wires fid sid stat
       (pm_written (snd (relayUDPFramePump w fid sid PumpUpstream stat 0 (map Inr fs) (new_pump zero_counter []))))"

definition exit_delivers :: "wire \<Rightarrow> string \<Rightarrow> string \<Rightarrow> string \<Rightarrow> udp_frame list \<Rightarrow> string list" where
  "exit_delivers w fid sid stat fs =
     pm_written (snd (relayUDPFramesToTarget w fid sid stat 0 (map Inr fs) (new_pump zero_counter [])))"

definition session_frames :: "string \<Rightarrow> string \<Rightarrow> string list \<Rightarrow> udp_frame list" where
  "session_frames fid sid = map (\<lambda>x. \<lparr> uf_forward = fid, uf_session = sid, uf_payload = x \<rparr>)"

text \<open>A link is up for frames when each of them can be written at any time.\<close>

definition link_up :: "udp_frame list \<Rightarrow> wire \<Rightarrow> bool" where
  "link_up fs w \<longleftrightarrow> (\<forall>k. \<forall>f\<in>set fs. writeUDPFrameWithDeadline w k f = None)"

lemma own_frames_all:
  "\<forall>f\<in>set fs. uf_forward f = fid \<and> uf_session f = sid \<Longrightarrow> own_frames fid sid (map Inr fs) = fs"
proof (induction fs)
  case (Cons f fs)
  then have "own_frames fid sid (map Inr fs) = fs" and "uf_forward f = fid" and "uf_session f = sid"
    by (simp_all only: list.set ball_simps insert_iff) blast+
  then show ?case by simp
qed simp

lemma pump_link_up:
  "\<forall>k. \<forall>f\<in>set fs. writeUDPFrameWithDeadline w k f = None \<Longrightarrow>
     \<not> write_failed (fst (relayUDPFramePump w fid sid side stat k (map Inr fs) p))"
proof (induction fs arbitrary: k p)
  case (Cons f fs)
  then have "writeUDPFrameWithDeadline w k f = None"
      "\<not> write_failed (fst (relayUDPFramePump w fid sid side stat k' (map Inr fs) q))" for k' q
    by simp_all
  then show ?case by (simp add: write_failed_def Let_def)
qed (simp add: write_failed_def)

lemma one_stage:
  fixes fs :: "udp_frame list" and w :: wire and fid sid stat :: string
  assumes "\<forall>f\<in>set fs. uf_forward f = fid \<and> uf_session f = sid"
  defines "out \<equiv> pm_written (snd (relayUDPFramePump w fid sid PumpUpstream stat 0 (map Inr fs) (new_pump zero_counter [])))"
  shows "prefix out fs" and "link_up fs w \<Longrightarrow> out = fs"
proof -
  obtain res p' where r: "relayUDPFramePump w fid sid PumpUpstream stat 0 (map Inr fs) (new_pump zero_counter []) = (res, p')"
    by force
  from frame_pump_passes [OF r] own_frames_all [OF assms(1)] obtain ws where
      ws: "pm_written p' = ws" "passed_on PumpUpstream res fs ws (new_pump zero_counter []) p'"
    by (auto simp: new_pump_def)
  show "prefix out fs" using ws by (simp add: out_def r passed_on_def)
  show "out = fs" if "link_up fs w"
    using ws pump_link_up [OF that [unfolded link_up_def], of fid sid PumpUpstream stat 0 "new_pump zero_counter []"]
    by (simp add: out_def r passed_on_def)
qed

lemma stages_deliver:
  "\<forall>f\<in>set fs. uf_forward f = fid \<and> uf_session f = sid \<Longrightarrow>
     prefix (through_stages wires fid sid stat fs) fs \<and>
     ((\<forall>w\<in>set wires. link_up fs w) \<longrightarrow> through_stages wires fid sid stat fs = fs)"
proof (induction wires arbitrary: fs)
  case (Cons w wires)
  let ?out = "pm_written (snd (relayUDPFramePump w fid sid PumpUpstream stat 0 (map Inr fs) (new_pump zero_counter [])))"
  have pre: "prefix ?out fs" by (rule one_stage(1) [OF Cons.prems])
  then have "\<forall>f\<in>set ?out. uf_forward f = fid \<and> uf_session f = sid"
    using Cons.prems set_mono_prefix by blast
  from Cons.IH [OF this] have IH: "prefix (through_stages wires fid sid stat ?out) ?out"
      "(\<forall>w\<in>set wires. link_up ?out w) \<longrightarrow> through_stages wires fid sid stat ?out = ?out" by blast+
  have "prefix (through_stages wires fid sid stat ?out) fs" using IH(1) pre prefix_order.trans by blast
  moreover have "through_stages wires fid sid stat ?out = fs" if "\<forall>v\<in>set (w # wires). link_up fs v"
  proof -
    have "?out = fs" using one_stage(2) [OF Cons.prems] that by simp
    then show ?thesis using IH(2) that by simp
  qed
  ultimately show ?case by simp
qed simp

text \<open>C39: relaying a UDP session over any number of transit stages is the same as handing its
  datagrams to the exit directly: over links that are up, the target receives exactly the datagrams
  the exit would deliver itself; and whatever the links do, it receives, in order, the first of
  those that entered the tunnel, none altered, repeated or out of order.\<close>

theorem udp_chain_transparent:
  "prefix (exit_delivers w fid sid stat (through_stages wires fid sid stat' (session_frames fid sid payloads))) payloads \<and>
   ((\<forall>v\<in>set wires. link_up (session_frames fid sid payloads) v) \<longrightarrow>
      exit_delivers w fid sid stat (through_stages wires fid sid stat' (session_frames fid sid payloads)) =
      exit_delivers w fid sid stat (session_frames fid sid payloads))"
proof -
  define fs where "fs = session_frames fid sid payloads"
  let ?out = "through_stages wires fid sid stat' fs"
  have own: "\<forall>f\<in>set fs. uf_forward f = fid \<and> uf_session f = sid" by (auto simp: fs_def session_frames_def)
  note d = stages_deliver [OF own, of wires stat']
  then have own': "\<forall>f\<in>set ?out. uf_forward f = fid \<and> uf_session f = sid"
    using own set_mono_prefix by blast
  obtain res p' where r: "relayUDPFramesToTarget w fid sid stat 0 (map Inr ?out) (new_pump zero_counter []) = (res, p')"
    by force
  from target_pump_passes [OF r] own_frames_all [OF own'] obtain ws where
      ws: "pm_written p' = map uf_payload ws" "prefix ws ?out" by (auto simp: new_pump_def passed_on_def)
  have "prefix ws fs" using ws(2) d prefix_order.trans by blast
  then have "prefix (map uf_payload ws) (map uf_payload fs)" by (rule map_mono_prefix)
  moreover have "map uf_payload fs = payloads" by (simp add: fs_def session_frames_def comp_def)
  ultimately have "prefix (exit_delivers w fid sid stat ?out) payloads"
    by (simp add: exit_delivers_def r ws(1))
  then show ?thesis using d by (simp add: fs_def [symmetric])
qed

section \<open>The exit and its targets\<close>

lemma stage_target_attempts_Some:
  "stage_target_attempts e w f sid payload n r = (Some res, r') \<Longrightarrow>
     \<exists>r0 r1. dialForwardTarget e f ''udp'' sid r0 = (Inr res, r1) \<and>
       writeUDPConnPayload w (rl_tick r1) payload = None \<and> r' = tick r1"
proof (induction n arbitrary: r)
  case (Suc n)
  obtain d r1 where d: "dialForwardTarget e f ''udp'' sid r = (d, r1)" by force
  show ?case
  proof (cases d)
    case (Inl x)
    then show ?thesis using Suc d by (cases x) simp
  next
    case (Inr x)
    obtain c stat tid where x: "x = (c, stat, tid)" by (cases x)
    show ?thesis
    proof (cases "writeUDPConnPayload w (rl_tick r1) payload")
      case None
      then have "res = x" "r' = tick r1" using Suc.prems d Inr x by simp_all
      then show ?thesis using d Inr None by blast
    next
      case (Some err)
      then show ?thesis using Suc d Inr x by simp
    qed
  qed
qed simp

text \<open>when the exit of a tunnel opens a UDP session, the connection goes to an enabled target of
  the forward that carries UDP, and that target has taken the session's first datagram whole.\<close>

theorem udp_exit_target_sound:
  assumes "openUDPStageTarget e w f sid payload r = (Some (c, statID, targetID), r')"
  shows "\<exists>i t. forwardTargetAt f i = Some t \<and> reached e f ''udp'' t (c, statID, targetID) \<and>
    w_send w (rl_tick r' - 1) payload = (length payload, None)"
proof -
  from stage_target_attempts_Some [OF assms [unfolded openUDPStageTarget_def Let_def]]
  obtain r0 r1 where d: "dialForwardTarget e f ''udp'' sid r0 = (Inr (c, statID, targetID), r1)"
      and w: "writeUDPConnPayload w (rl_tick r1) payload = None" and r': "r' = tick r1" by blast
  have "w_send w (rl_tick r1) payload = (length payload, None)"
    using w by (auto simp: writeUDPConnPayload_def split: prod.splits option.splits if_splits)
  then have "w_send w (rl_tick r' - 1) payload = (length payload, None)" by (simp add: r' tick_def)
  with dial_reached [OF d] show ?thesis by blast
qed

text \<open>A failed write is reported for the target that was written to, and the session forgets it.\<close>

lemma markUDPTargetFailure_fields:
  "targetID \<noteq> '''' \<Longrightarrow> rl_targets (markUDPTargetFailure e fid sid targetID r) =
     target_recordFailure (now_of e r) fid targetID ''udp'' (rl_targets r)"
  by (simp add: markUDPTargetFailure_def Let_def fail_target_def tick_def)

text \<open>What a transit stage does with a session it has established: it passes the first datagram and
  then those of the pump to the next stage, and blames the next stage exactly when \<open>blames\<close> says
  so.\<close>

lemma transit_established:
  assumes "handleUDPStageTransit e t f stage (Inr frame) tf counter tunnels r = (SessionRan ended, r2, out, down)"
  shows "\<exists>c statID r1 up_res up ws. uf_forward frame = frt_id f \<and> uf_session frame \<noteq> '''' \<and>
    dialForwardNext e t f stage ''udp'' (uf_session frame) r = (Inr (c, statID), r1) \<and>
    out = frame # ws \<and> prefix ws (own_frames (frt_id f) (uf_session frame) (tf_up tf)) \<and>
    r2 = (if blames ended (pm_seen down)
          then markUDPStreamFailure e t f stage statID (uf_session frame) r1 else r1) \<and>
    (\<not> write_failed up_res \<longrightarrow> ws = own_frames (frt_id f) (uf_session frame) (tf_up tf)) \<and>
    relayUDPFramePump (tf_out tf) (frt_id f) (uf_session frame) PumpUpstream statID 1 (tf_up tf)
      (count_in statID (length (uf_payload frame)) (new_pump counter tunnels)) = (up_res, up)"
proof -
  have v: "validateInitialUDPFrame frame (frt_id f) = None"
    using assms by (cases "validateInitialUDPFrame frame (frt_id f)") (auto simp: handleUDPStageTransit_def Let_def)
  obtain d r1 where d: "dialForwardNext e t f stage ''udp'' (uf_session frame) r = (d, r1)" by force
  obtain c statID where dr: "d = Inr (c, statID)"
    using assms v d by (cases d) (auto simp: handleUDPStageTransit_def Let_def)
  have w: "writeUDPFrameWithDeadline (tf_out tf) 0 frame = None"
    using assms v d dr by (cases "writeUDPFrameWithDeadline (tf_out tf) 0 frame") (auto simp: handleUDPStageTransit_def Let_def)
  obtain up_res up where u: "relayUDPFramePump (tf_out tf) (frt_id f) (uf_session frame) PumpUpstream statID 1 (tf_up tf)
      (count_in statID (length (uf_payload frame)) (new_pump counter tunnels)) = (up_res, up)" by force
  from frame_pump_passes [OF u] obtain ws where ws: "pm_written up = ws"
      "prefix ws (own_frames (frt_id f) (uf_session frame) (tf_up tf))"
      "\<not> write_failed up_res \<longrightarrow> ws = own_frames (frt_id f) (uf_session frame) (tf_up tf)"
    by (auto simp: new_pump_def passed_on_def)
  have "out = frame # pm_written up" and "r2 = (if blames ended (pm_seen down)
      then markUDPStreamFailure e t f stage statID (uf_session frame) r1 else r1)"
    using assms by (auto simp: handleUDPStageTransit_def Let_def v d dr w u [unfolded One_nat_def] split: prod.splits)
  then show ?thesis using v d dr u ws by (auto simp: validateInitialUDPFrame_def split: if_splits)
qed

text \<open>The witness: the exit reaches the second of two targets, which takes the datagram.\<close>

lemma ex_exit_open:
  "fst (openUDPStageTarget ex_env
      \<lparr> w_marshal = (\<lambda>f. None), w_writer = (\<lambda>k j n. (n, False)), w_error = UNet, w_send = (\<lambda>k p. (length p, None)) \<rparr>
      ex_forward ''s'' ''hi'' ex_relay) = Some ((104, ''10.0.0.2:80''), ''target:f:b'', ''b'')"
  by code_simp

theorem udp_exit_target_sound_witness:
  "\<exists>i t. forwardTargetAt ex_forward i = Some t \<and>
     reached ex_env ex_forward ''udp'' t ((104, ''10.0.0.2:80''), ''target:f:b'', ''b'')"
proof -
  let ?w = "\<lparr> w_marshal = (\<lambda>f. None), w_writer = (\<lambda>k j n. (n, False)), w_error = UNet, w_send = (\<lambda>k p. (length p, None)) \<rparr>"
  let ?d = "openUDPStageTarget ex_env ?w ex_forward ''s'' ''hi'' ex_relay"
  have "?d = (Some ((104, ''10.0.0.2:80''), ''target:f:b'', ''b''), snd ?d)"
    by (simp add: prod_eq_iff ex_exit_open)
  from udp_exit_target_sound [OF this] show ?thesis by blast
qed

definition ex_link :: wire where
  "ex_link = \<lparr> w_marshal = (\<lambda>f. Some ''doc''), w_writer = (\<lambda>k j n. (n, False)), w_error = UNet,
     w_send = (\<lambda>k p. (length p, None)) \<rparr>"

lemma ex_link_up: "link_up (session_frames ''f'' ''s'' [''a'', ''b'']) ex_link"
  by (simp add: link_up_def session_frames_def writeUDPFrameWithDeadline_def WriteUDPDatagramFrame_def
      ex_link_def MaxUDPIdentifierBytes_def MaxUDPPacket_def MaxUDPFrameBytes_def writeFull.simps
      be32_def Let_def)

theorem udp_chain_transparent_witness:
  "exit_delivers ex_link ''f'' ''s'' '''' (through_stages [ex_link, ex_link] ''f'' ''s'' ''''
     (session_frames ''f'' ''s'' [''a'', ''b''])) = [''a'', ''b'']"
proof -
  have "exit_delivers ex_link ''f'' ''s'' '''' (session_frames ''f'' ''s'' [''a'', ''b'']) = [''a'', ''b'']"
    by (simp add: exit_delivers_def session_frames_def new_pump_def count_in_def wrote_def
        writeUDPConnPayload_def ex_link_def zero_counter_def)
  then show ?thesis
    using udp_chain_transparent [of ex_link "''f''" "''s''" "''''" "[ex_link, ex_link]" "''''" "[''a'', ''b'']"] ex_link_up
    by simp
qed

end
