(* ===== verification/StoreMigrate.thy ===== *)
theory StoreMigrate
  imports StoreTunnels
begin

text \<open>
  internal/controller/store/store.go, what happens when the database is opened: the forward targets of
  old versions, the strategies of single candidates, and the two migrations that replace plaintext
  node tokens and secrets by ciphertexts.  The columns a migration adds are those of the records in
  StoreBase, so ALTER TABLE has no counterpart; VACUUM and the checkpoint change no row.
\<close>

section \<open>Collecting updates and running them\<close>

text \<open>The loop over a result set that collects an update for some of its rows, and the loop that runs
  the updates, each \<open>UPDATE ... WHERE key = ?\<close>.\<close>

fun collect_updates :: "('r \<Rightarrow> store_error + 'v option) \<Rightarrow> ('r \<Rightarrow> 'k) \<Rightarrow> 'r list \<Rightarrow> store_error + ('k \<times> 'v) list" where
  "collect_updates f key [] = Inr []"
| "collect_updates f key (r # rs) =
    bindE (f r) (\<lambda>u. bindE (collect_updates f key rs) (\<lambda>us.
      Inr (case u of None \<Rightarrow> us | Some v \<Rightarrow> (key r, v) # us)))"

definition run_updates :: "('r \<Rightarrow> 'k) \<Rightarrow> ('v \<Rightarrow> 'r \<Rightarrow> 'r) \<Rightarrow> ('k \<times> 'v) list \<Rightarrow> 'r list \<Rightarrow> 'r list" where
  "run_updates key wr us rows = fold (\<lambda>(k, v). update_where (\<lambda>r. key r = k) (wr v)) us rows"

section \<open>Node tokens\<close>

definition token_update :: "vault \<Rightarrow> (string \<Rightarrow> string option) \<Rightarrow> node_row \<Rightarrow> store_error + string option" where
  "token_update va rand r =
    bindE (if ndr_encrypted r \<noteq> '''' then
             secretE (decryptNodeToken (va_open va) (va_token_key va) (ndr_id r) (ndr_encrypted r)) else Inr '''')
      (\<lambda>_. if ndr_token r = '''' then Inr None
        else if ndr_encrypted r \<noteq> '''' then Inr (Some (ndr_encrypted r))
        else bindE (secretE (encryptNodeToken (va_seal va) (va_token_key va) (rand (ndr_id r)) (ndr_id r) (ndr_token r)))
               (\<lambda>enc. Inr (Some enc)))"

definition set_token :: "string \<Rightarrow> node_row \<Rightarrow> node_row" where
  "set_token enc r = r\<lparr> ndr_token := '''', ndr_encrypted := enc \<rparr>"

definition migrateNodeTokens :: "vault \<Rightarrow> (string \<Rightarrow> string option) \<Rightarrow> db \<Rightarrow> store_error + db" where
  "migrateNodeTokens va rand d =
    bindE (collect_updates (token_update va rand) ndr_id (db_nodes d))
      (\<lambda>us. Inr (d\<lparr> db_nodes := run_updates ndr_id set_token us (db_nodes d) \<rparr>))"

section \<open>Secrets\<close>

text \<open>The randomness a migration draws: for the user, the signing key, the settings of a tunnel and of a
  stage node.\<close>

record nonce_source =
  ns_user :: "int \<Rightarrow> string option"
  ns_setting :: "string option"
  ns_tunnel :: "string \<Rightarrow> string \<Rightarrow> string option"
  ns_node :: "string \<Rightarrow> string \<Rightarrow> string option"

definition totp_update :: "vault \<Rightarrow> nonce_source \<Rightarrow> user_row \<Rightarrow> store_error + string option" where
  "totp_update va ns r =
    (if ur_totp_secret r = '''' then Inr None
     else bindE (secretE (encryptSecretValue (va_seal va) (va_open va) (va_secret_key va) (ns_user ns (ur_id r))
            (ur_totp_secret r) (totp_aad (ur_id r))))
       (\<lambda>p. Inr (if p \<noteq> ur_totp_secret r then Some p else None)))"

definition signing_update :: "vault \<Rightarrow> nonce_source \<Rightarrow> string \<times> string \<Rightarrow> store_error + string option" where
  "signing_update va ns e =
    (if fst e \<noteq> ''config_signing_private_key'' then Inr None
     else bindE (secretE (encryptSettingValue (va_seal va) (va_open va) (va_secret_key va) (ns_setting ns) (fst e) (snd e)))
       (\<lambda>p. Inr (if p \<noteq> snd e then Some p else None)))"

definition migrateSettingsJSON :: "vault \<Rightarrow> (string \<Rightarrow> string option) \<Rightarrow> settings \<Rightarrow> string \<Rightarrow> store_error + settings option" where
  "migrateSettingsJSON va rand m aad =
    bindE (secretE (protectSettings (va_seal va) (va_open va) (va_secret_key va) rand m aad))
      (\<lambda>(p, changed). Inr (if changed then Some p else None))"

definition tunnel_update :: "vault \<Rightarrow> nonce_source \<Rightarrow> tunnel \<Rightarrow> store_error + settings option" where
  "tunnel_update va ns t = migrateSettingsJSON va (ns_tunnel ns (tun_id t)) (tun_settings t) (''tunnel:'' @ tun_id t)"

definition stage_node_update :: "vault \<Rightarrow> nonce_source \<Rightarrow> stage_node \<Rightarrow> store_error + settings option" where
  "stage_node_update va ns n = migrateSettingsJSON va (ns_node ns (sn_id n)) (sn_settings n) (''stage-node:'' @ sn_id n)"

text \<open>All four tables are read before the first row is written.\<close>

definition migrateSensitiveSecrets :: "vault \<Rightarrow> nonce_source \<Rightarrow> db \<Rightarrow> store_error + db" where
  "migrateSensitiveSecrets va ns d =
    bindE (collect_updates (totp_update va ns) ur_id (db_users d)) (\<lambda>us.
    bindE (collect_updates (signing_update va ns) fst (db_settings d)) (\<lambda>ks.
    bindE (collect_updates (tunnel_update va ns) tun_id (db_tunnels d)) (\<lambda>ts.
    bindE (collect_updates (stage_node_update va ns) sn_id (db_stage_nodes d)) (\<lambda>sns.
    Inr (d\<lparr> db_users := run_updates ur_id (\<lambda>v r. r\<lparr> ur_totp_secret := v \<rparr>) us (db_users d),
            db_settings := run_updates fst (\<lambda>v e. (fst e, v)) ks (db_settings d),
            db_tunnels := run_updates tun_id (\<lambda>v r. r\<lparr> tun_settings := v \<rparr>) ts (db_tunnels d),
            db_stage_nodes := run_updates sn_id (\<lambda>v r. r\<lparr> sn_settings := v \<rparr>) sns (db_stage_nodes d) \<rparr>)))))"

section \<open>Targets and strategies of old databases\<close>

text \<open>SQLite's TRIM removes spaces only.\<close>

definition sql_blank :: "string \<Rightarrow> bool" where
  "sql_blank s \<longleftrightarrow> list_all (\<lambda>c. c = CHR '' '') s"

definition legacy_target :: "forward \<Rightarrow> forward_target" where
  "legacy_target f = \<lparr> tgt_id = ''legacy:'' @ fwd_id f, tgt_forward_id = fwd_id f, tgt_address = fwd_target f,
     tgt_protocols = [], tgt_weight = 1, tgt_enabled = fwd_enabled f, tgt_position = 0 \<rparr>"

definition needs_target :: "db \<Rightarrow> forward \<Rightarrow> bool" where
  "needs_target d f \<longleftrightarrow> \<not> sql_blank (fwd_target f) \<and> \<not> list_ex (\<lambda>t. tgt_forward_id t = fwd_id f) (db_targets d)"

text \<open>INSERT ... SELECT: one statement, so a target id in use makes it insert nothing.\<close>

definition migrateLegacyTargets :: "db \<Rightarrow> store_error + db" where
  "migrateLegacyTargets d =
    (let new = map legacy_target (filter (needs_target d) (db_forwards d)) in
     if list_ex (\<lambda>t. key_used tgt_id (tgt_id t) (db_targets d)) new then Inl (ErrUnique ''forward_targets.id'')
     else Inr (d\<lparr> db_targets := db_targets d @ new \<rparr>))"

definition singleCandidateStrategyMigrationSetting :: string where
  "singleCandidateStrategyMigrationSetting = ''migration_single_candidate_strategies_v1''"

definition single_target :: "db \<Rightarrow> forward \<Rightarrow> bool" where
  "single_target d f \<longleftrightarrow> length (filter (\<lambda>t. tgt_forward_id t = fwd_id f \<and> tgt_enabled t \<and>
     \<not> sql_blank (tgt_address t)) (db_targets d)) = 1"

definition single_node :: "db \<Rightarrow> tunnel_stage \<Rightarrow> bool" where
  "single_node d s \<longleftrightarrow> length (filter (\<lambda>n. sn_stage_id n = stg_id s \<and> \<not> sql_blank (sn_node_id n)) (db_stage_nodes d)) = 1"

definition migrateSingleCandidateStrategies :: "vault \<Rightarrow> db \<Rightarrow> store_error + db" where
  "migrateSingleCandidateStrategies va d =
    bindE (GetSetting va singleCandidateStrategyMigrationSetting d) (\<lambda>(_, ok).
      if ok then Inr d
      else Inr (put_setting singleCandidateStrategyMigrationSetting ''1''
        (d\<lparr> db_forwards := update_where (single_target d)
               (\<lambda>f. f\<lparr> fwd_strategy := ''single'', fwd_tcp_strategy := ''single'', fwd_udp_strategy := ''single'' \<rparr>) (db_forwards d),
            db_stages := update_where (single_node d)
               (\<lambda>s. s\<lparr> stg_strategy := ''single'', stg_tcp_strategy := ''single'', stg_udp_strategy := ''single'' \<rparr>) (db_stages d) \<rparr>)))"

definition migrate :: "vault \<Rightarrow> db \<Rightarrow> store_error + db" where
  "migrate va d = bindE (migrateLegacyTargets d) (migrateSingleCandidateStrategies va)"

section \<open>Opening\<close>

text \<open>The key file beside the database, as \<open>loadNodeTokenKey\<close> finds it in each of its two attempts.\<close>

datatype key_file = KeyMissing | KeyRegular "string option" bool | KeyIrregular | KeyStatFailed

datatype key_create = KeyCreated bool | KeyExists | KeyCreateFailed

fun load_key_attempts ::
  "(nat \<Rightarrow> key_file) \<Rightarrow> (nat \<Rightarrow> string option) \<Rightarrow> (nat \<Rightarrow> key_create) \<Rightarrow> nat list \<Rightarrow> store_error + string" where
  "load_key_attempts stat fresh create [] = Inl ErrKeyLength"
| "load_key_attempts stat fresh create (k # ks) =
    (case stat k of
       KeyIrregular \<Rightarrow> Inl ErrKeyLength
     | KeyStatFailed \<Rightarrow> Inl ErrKeyLength
     | KeyRegular content chmod_ok \<Rightarrow>
         (case content of
            None \<Rightarrow> Inl ErrKeyLength
          | Some key \<Rightarrow> if length key \<noteq> nodeTokenKeyBytes \<or> \<not> chmod_ok then Inl ErrKeyLength else Inr key)
     | KeyMissing \<Rightarrow> (case fresh k of
         None \<Rightarrow> Inl ErrKeyLength
       | Some key \<Rightarrow> (case create k of
           KeyExists \<Rightarrow> load_key_attempts stat fresh create ks
         | KeyCreateFailed \<Rightarrow> Inl ErrKeyLength
         | KeyCreated written \<Rightarrow> if written then Inr key else Inl ErrKeyLength)))"

definition loadNodeTokenKey ::
  "string \<Rightarrow> (nat \<Rightarrow> key_file) \<Rightarrow> (nat \<Rightarrow> string option) \<Rightarrow> (nat \<Rightarrow> key_create) \<Rightarrow> store_error + string" where
  "loadNodeTokenKey path stat fresh create =
    (if path = '':memory:'' \<or> prefix ''file:'' path then
       (case fresh 0 of None \<Rightarrow> Inl ErrKeyLength | Some key \<Rightarrow> Inr key)
     else load_key_attempts stat fresh create [0, 1])"

definition OpenWithSecretKey ::
  "aead_seal \<Rightarrow> aead_open \<Rightarrow> store_error + string \<Rightarrow> string \<Rightarrow> (string \<Rightarrow> string option) \<Rightarrow> nonce_source \<Rightarrow>
     db \<Rightarrow> store_error + (vault \<times> db)" where
  "OpenWithSecretKey seal aopen token_key secretKey rand ns d =
    (if length secretKey \<noteq> secretKeyBytes then Inl ErrKeyLength
     else bindE token_key (\<lambda>tk.
       let va = \<lparr> va_seal = seal, va_open = aopen, va_token_key = tk, va_secret_key = secretKey \<rparr>
       in bindE (migrate va d) (\<lambda>d1. bindE (migrateNodeTokens va rand d1) (\<lambda>d2.
          bindE (migrateSensitiveSecrets va ns d2) (\<lambda>d3. Inr (va, d3))))))"

section \<open>The loops\<close>

text \<open>Running the collected updates on the table they were collected from changes each row by its own.\<close>

definition own_update :: "('r \<Rightarrow> store_error + 'v option) \<Rightarrow> ('v \<Rightarrow> 'r \<Rightarrow> 'r) \<Rightarrow> 'r \<Rightarrow> 'r" where
  "own_update f wr r = (case f r of Inr (Some v) \<Rightarrow> wr v r | _ \<Rightarrow> r)"

lemma run_updates_Cons_other:
  "key r \<notin> fst ` set us \<Longrightarrow> run_updates key st us (r # rows) = r # run_updates key st us rows"
proof (induction us arbitrary: rows)
  case (Cons u us)
  obtain k v where u: "u = (k, v)" by (cases u)
  have "run_updates key st (u # us) (r # rows) = run_updates key st us (r # update_where (\<lambda>r. key r = k) (st v) rows)"
    using Cons.prems u by (simp add: run_updates_def) (simp add: update_where_def)
  with Cons.IH Cons.prems u show ?case by (simp add: run_updates_def)
qed (simp add: run_updates_def)

lemma collect_updates_keys:
  "collect_updates f key rows = Inr us \<Longrightarrow> fst ` set us \<subseteq> key ` set rows"
proof (induction rows arbitrary: us)
  case (Cons r rows)
  from Cons.prems obtain u us' where "collect_updates f key rows = Inr us'"
      "us = (case u of None \<Rightarrow> us' | Some v \<Rightarrow> (key r, v) # us')" by (auto simp: err_simps)
  with Cons.IH show ?case by (cases u) auto
qed simp

lemma run_collected:
  assumes "\<And>v r. key (st v r) = key r"
  shows "unique_by key rows \<Longrightarrow> collect_updates f key rows = Inr us \<Longrightarrow>
    run_updates key st us rows = map (own_update f st) rows \<and> (\<forall>r\<in>set rows. \<exists>u. f r = Inr u)"
proof (induction rows arbitrary: us)
  case Nil
  then show ?case by (simp add: run_updates_def)
next
  case (Cons r rows)
  from Cons.prems(2) obtain u us' where u: "f r = Inr u" and c: "collect_updates f key rows = Inr us'"
      and us: "us = (case u of None \<Rightarrow> us' | Some v \<Rightarrow> (key r, v) # us')"
    by (auto simp: err_simps)
  have uniq: "unique_by key rows" "key r \<notin> key ` set rows" using Cons.prems(1) by auto
  note IH = Cons.IH [OF uniq(1) c]
  have other: "key r \<notin> fst ` set us'" using collect_updates_keys [OF c] uniq(2) by force
  show ?case
  proof (cases u)
    case None
    then show ?thesis
      using IH u us run_updates_Cons_other [of key r, OF other, of st rows] by (simp add: own_update_def)
  next
    case (Some v)
    have same: "update_where (\<lambda>x. key x = key r) (st v) rows = rows"
      using uniq(2) by (induction rows) (auto simp: update_where_def)
    have "run_updates key st us (r # rows) = run_updates key st us' (st v r # rows)"
      using Some us same by (simp add: run_updates_def) (simp add: update_where_def)
    also have "\<dots> = st v r # run_updates key st us' rows"
      by (rule run_updates_Cons_other) (use other assms in simp)
    finally show ?thesis using IH u Some by (simp add: own_update_def)
  qed
qed

section \<open>Sealing a value that may already be sealed\<close>

text \<open>
  The contract the migration relies on: for a good value, protecting succeeds, the result reads as the
  value reads, and protecting the result, with whatever randomness, leaves it alone.
\<close>

locale resealing =
  fixes enc :: "string \<Rightarrow> string \<Rightarrow> secret_error + string"
    and again :: "string \<Rightarrow> string \<Rightarrow> secret_error + string"
    and dec :: "string \<Rightarrow> string \<Rightarrow> secret_error + string"
    and good :: "string \<Rightarrow> string \<Rightarrow> bool"
  assumes reseal: "good k v \<Longrightarrow> \<exists>p. enc k v = Inr p \<and> dec k p = dec k v \<and> again k p = Inr p"
begin

lemma reseal_entries:
  "\<forall>e\<in>set es. good (fst e) (snd e) \<Longrightarrow>
     \<exists>out changed. protect_entries enc es = Inr (out, changed) \<and> map fst out = map fst es \<and>
       unprotect_entries dec out = unprotect_entries dec es \<and> protect_entries again out = Inr (out, False) \<and>
       (\<not> changed \<longrightarrow> out = es)"
proof (induction es)
  case (Cons e es)
  obtain k v where e: "e = (k, v)" by (cases e)
  obtain p where p: "enc k v = Inr p" "dec k p = dec k v" "again k p = Inr p"
    using reseal [of k v] Cons.prems e by auto
  from Cons obtain out ch where "protect_entries enc es = Inr (out, ch)" "map fst out = map fst es"
      "unprotect_entries dec out = unprotect_entries dec es" "protect_entries again out = Inr (out, False)"
      "\<not> ch \<longrightarrow> out = es" by auto
  then show ?case by (simp add: e p)
next
  case Nil
  show ?case by (intro exI [of _ "[]"] exI [of _ False]) simp
qed

end

text \<open>A value a key can reseal: empty, a ciphertext that reads, or a plaintext whose ciphertext is
  within the bound of decryptSecretValue.\<close>

definition sealable :: "vault \<Rightarrow> string option \<Rightarrow> string \<Rightarrow> string \<Rightarrow> bool" where
  "sealable va nonce aad v \<longleftrightarrow> v = [] \<or>
     prefix secretCipherPrefix v \<and> (\<exists>p. decryptSecretValue (va_open va) (va_secret_key va) v aad = Inr p) \<or>
     \<not> prefix secretCipherPrefix v \<and> secret_cipher_size (length v) \<le> maxSecretCipherBytes \<and>
       (\<exists>n. nonce = Some n \<and> length n = gcm_nonce)"

definition vault_ok :: "vault \<Rightarrow> bool" where
  "vault_ok va \<longleftrightarrow> aead_ok (va_seal va) (va_open va) \<and> length (va_secret_key va) = secretKeyBytes"

lemma sealable_reseals:
  assumes "vault_ok va" and "sealable va nonce aad v"
  shows "\<exists>p. encryptSecretValue (va_seal va) (va_open va) (va_secret_key va) nonce v aad = Inr p \<and>
    decryptSecretValue (va_open va) (va_secret_key va) p aad = decryptSecretValue (va_open va) (va_secret_key va) v aad \<and>
    encryptSecretValue (va_seal va) (va_open va) (va_secret_key va) nonce' p aad = Inr p"
proof -
  consider (empty) "v = []"
    | (cipher) p where "v \<noteq> []" "prefix secretCipherPrefix v" "decryptSecretValue (va_open va) (va_secret_key va) v aad = Inr p"
    | (plain) n where "v \<noteq> []" "\<not> prefix secretCipherPrefix v" "secret_cipher_size (length v) \<le> maxSecretCipherBytes"
        "nonce = Some n" "length n = gcm_nonce"
    using assms(2) by (auto simp: sealable_def)
  then show ?thesis
  proof cases
    case empty
    then show ?thesis by (simp add: encryptSecretValue_def)
  next
    case cipher
    then show ?thesis by (simp add: encryptSecretValue_def)
  next
    case plain
    let ?c = "secretCipherPrefix @ b64_encode (n @ va_seal va (va_secret_key va) n v aad)"
    have k: "aead_ok (va_seal va) (va_open va)" "length (va_secret_key va) = secretKeyBytes"
      using assms(1) by (simp_all add: vault_ok_def)
    have len: "length v \<le> maxSecretCipherBytes" using plain(3) secret_cipher_size_ge [of "length v"] by simp
    have e: "encryptSecretValue (va_seal va) (va_open va) (va_secret_key va) nonce v aad = Inr ?c"
      using secret_cipher [OF k(1) plain(5) k(2) plain(1,2)] len by (simp add: plain(4))
    have d: "decryptSecretValue (va_open va) (va_secret_key va) ?c aad = Inr v"
      using secret_decrypt [OF k(1) plain(5) k(2) len] plain(3) by simp
    have "decryptSecretValue (va_open va) (va_secret_key va) v aad = Inr v"
      using plain(2) by (simp add: decryptSecretValue_def)
    moreover have "encryptSecretValue (va_seal va) (va_open va) (va_secret_key va) nonce' ?c aad = Inr ?c"
      using d by (simp add: encryptSecretValue_def)
    ultimately show ?thesis using e d by auto
  qed
qed

interpretation sealed_settings: resealing
  "\<lambda>k v. encryptSecretValue (va_seal va) (va_open va) (va_secret_key va) (rand k) v (aad @ '':'' @ k)"
  "\<lambda>k v. encryptSecretValue (va_seal va) (va_open va) (va_secret_key va) (rand' k) v (aad @ '':'' @ k)"
  "\<lambda>k v. decryptSecretValue (va_open va) (va_secret_key va) v (aad @ '':'' @ k)"
  "\<lambda>k v. vault_ok va \<and> sealable va (rand k) (aad @ '':'' @ k) v"
  for va rand rand' aad
  by unfold_locales (blast intro: sealable_reseals)

definition settings_sealable :: "vault \<Rightarrow> (string \<Rightarrow> string option) \<Rightarrow> string \<Rightarrow> settings \<Rightarrow> bool" where
  "settings_sealable va rand aad m \<longleftrightarrow>
     (\<forall>e\<in>set (mentries m). sealable va (rand (fst e)) (aad @ '':'' @ fst e) (snd e))"

lemma migrated_settings:
  assumes "vault_ok va" and "settings_sealable va rand aad m"
  shows "\<exists>u. migrateSettingsJSON va rand m aad = Inr u \<and>
    unprotectSettings (va_open va) (va_secret_key va) (case u of None \<Rightarrow> m | Some p \<Rightarrow> p) aad =
      unprotectSettings (va_open va) (va_secret_key va) m aad \<and>
    migrateSettingsJSON va rand' (case u of None \<Rightarrow> m | Some p \<Rightarrow> p) aad = Inr None"
proof (cases "mlen m = 0")
  case True
  then show ?thesis by (simp add: migrateSettingsJSON_def protectSettings_def)
next
  case False
  then obtain es where m: "m = Some es" "es \<noteq> []" by (auto simp: mlen_def split: option.splits)
  let ?enc = "\<lambda>r k v. encryptSecretValue (va_seal va) (va_open va) (va_secret_key va) (r k) v (aad @ '':'' @ k)"
  let ?dec = "\<lambda>k v. decryptSecretValue (va_open va) (va_secret_key va) v (aad @ '':'' @ k)"
  have good: "\<forall>e\<in>set es. vault_ok va \<and> sealable va (rand (fst e)) (aad @ '':'' @ fst e) (snd e)"
    using assms by (simp add: settings_sealable_def m mentries_def)
  from sealed_settings.reseal_entries [where rand' = rand', OF good] obtain out ch where
      o: "protect_entries (?enc rand) es = Inr (out, ch)" "map fst out = map fst es"
        "unprotect_entries ?dec out = unprotect_entries ?dec es"
        "protect_entries (?enc rand') out = Inr (out, False)" "\<not> ch \<longrightarrow> out = es" by blast
  have ne: "out \<noteq> []" using o(2) m(2) by auto
  have first: "migrateSettingsJSON va rand m aad = Inr (if ch then Some (Some out) else None)"
    using o(1) [unfolded append_Cons append_Nil] m
    by (simp add: migrateSettingsJSON_def protectSettings_def mlen_def mentries_def)
  have second: "migrateSettingsJSON va rand' (Some out) aad = Inr None"
    using o(4) [unfolded append_Cons append_Nil] ne
    by (simp add: migrateSettingsJSON_def protectSettings_def mlen_def mentries_def)
  have read: "unprotectSettings (va_open va) (va_secret_key va) (Some out) aad =
      unprotectSettings (va_open va) (va_secret_key va) m aad"
    using o(3) [unfolded append_Cons append_Nil] ne m
    by (simp add: unprotectSettings_def mlen_def mentries_def)
  show ?thesis
  proof (cases ch)
    case True
    then show ?thesis using first second read by simp
  next
    case False
    then have "out = es" using o(5) by simp
    then show ?thesis using first second False m by simp
  qed
qed

section \<open>The tables\<close>

text \<open>A table whose rows can all be migrated, and then need no second migration and read as before.\<close>

definition row_migrates ::
  "('r \<Rightarrow> store_error + 'v option) \<Rightarrow> ('r \<Rightarrow> store_error + 'v option) \<Rightarrow> ('v \<Rightarrow> 'r \<Rightarrow> 'r) \<Rightarrow> ('r \<Rightarrow> 'w) \<Rightarrow> 'r \<Rightarrow> bool" where
  "row_migrates f f' wr rd r \<longleftrightarrow> (\<exists>u. f r = Inr u \<and> f' (case u of None \<Rightarrow> r | Some v \<Rightarrow> wr v r) = Inr None \<and>
     rd (case u of None \<Rightarrow> r | Some v \<Rightarrow> wr v r) = rd r)"

lemma migrate_table:
  assumes "\<And>v r. key (wr v r) = key r" and "unique_by key rows"
    and "\<forall>r\<in>set rows. row_migrates f f' wr rd r"
  obtains us rows' where "collect_updates f key rows = Inr us" and "run_updates key wr us rows = rows'"
    and "collect_updates f' key rows' = Inr []"
    and "map (\<lambda>r. (key r, rd r)) rows' = map (\<lambda>r. (key r, rd r)) rows"
proof -
  have "\<exists>us. collect_updates f key rows = Inr us"
    using assms(3) by (induction rows) (auto simp: row_migrates_def split: option.splits)
  then obtain us where us: "collect_updates f key rows = Inr us" by blast
  have own: "f' (own_update f wr r) = Inr None \<and> rd (own_update f wr r) = rd r \<and> key (own_update f wr r) = key r"
    if "r \<in> set rows" for r
    using assms(1,3) that by (auto simp: own_update_def row_migrates_def split: option.splits)
  have "collect_updates f' key (map (own_update f wr) rows') = Inr []" if "set rows' \<subseteq> set rows" for rows'
    using that own by (induction rows') auto
  moreover have "map (\<lambda>r. (key r, rd r)) (map (own_update f wr) rows) = map (\<lambda>r. (key r, rd r)) rows"
    using own by simp
  ultimately show thesis using that us run_collected [of key wr, OF assms(1,2) us] by blast
qed

lemma row_with_read: "map_option g (row_with key k rows) = map_of (map (\<lambda>r. (key r, g r)) rows) k"
  by (induction rows) auto

lemma run_updates_Nil [simp]: "run_updates key wr [] rows = rows"
  by (simp add: run_updates_def)

definition migratable :: "vault \<Rightarrow> nonce_source \<Rightarrow> db \<Rightarrow> bool" where
  "migratable va ns d \<longleftrightarrow> vault_ok va \<and>
     unique_by ur_id (db_users d) \<and> unique_by fst (db_settings d) \<and> unique_by tun_id (db_tunnels d) \<and>
     unique_by sn_id (db_stage_nodes d) \<and>
     (\<forall>u\<in>set (db_users d). sealable va (ns_user ns (ur_id u)) (totp_aad (ur_id u)) (ur_totp_secret u)) \<and>
     (\<forall>e\<in>set (db_settings d). fst e = ''config_signing_private_key'' \<longrightarrow>
        sealable va (ns_setting ns) (''setting:'' @ fst e) (snd e)) \<and>
     (\<forall>t\<in>set (db_tunnels d). settings_sealable va (ns_tunnel ns (tun_id t)) (''tunnel:'' @ tun_id t) (tun_settings t)) \<and>
     (\<forall>n\<in>set (db_stage_nodes d). settings_sealable va (ns_node ns (sn_id n)) (''stage-node:'' @ sn_id n) (sn_settings n))"

text \<open>How the rows read, before and after.\<close>

definition read_totp :: "vault \<Rightarrow> user_row \<Rightarrow> (secret_error + string) \<times> bool" where
  "read_totp va u =
     (decryptSecretValue (va_open va) (va_secret_key va) (ur_totp_secret u) (totp_aad (ur_id u)), ur_totp_enabled u)"

lemma totp_migrates:
  assumes "vault_ok va" and "sealable va (ns_user ns (ur_id u)) (totp_aad (ur_id u)) (ur_totp_secret u)"
  shows "row_migrates (totp_update va ns) (totp_update va ns') (\<lambda>v r. r\<lparr> ur_totp_secret := v \<rparr>) (read_totp va) u"
proof -
  from sealable_reseals [OF assms, of "ns_user ns' (ur_id u)"] obtain p where
    "encryptSecretValue (va_seal va) (va_open va) (va_secret_key va) (ns_user ns (ur_id u)) (ur_totp_secret u) (totp_aad (ur_id u)) = Inr p"
    "decryptSecretValue (va_open va) (va_secret_key va) p (totp_aad (ur_id u)) =
       decryptSecretValue (va_open va) (va_secret_key va) (ur_totp_secret u) (totp_aad (ur_id u))"
    "encryptSecretValue (va_seal va) (va_open va) (va_secret_key va) (ns_user ns' (ur_id u)) p (totp_aad (ur_id u)) = Inr p"
    by blast
  then show ?thesis by (auto simp: row_migrates_def totp_update_def read_totp_def)
qed

definition read_setting :: "vault \<Rightarrow> string \<times> string \<Rightarrow> secret_error + string" where
  "read_setting va e = decryptSettingValue (va_open va) (va_secret_key va) (fst e) (snd e)"

lemma signing_migrates:
  assumes "vault_ok va"
    and "fst e = ''config_signing_private_key'' \<longrightarrow> sealable va (ns_setting ns) (''setting:'' @ fst e) (snd e)"
  shows "row_migrates (signing_update va ns) (signing_update va ns') (\<lambda>v e. (fst e, v)) (read_setting va) e"
proof (cases "fst e = ''config_signing_private_key''")
  case True
  then have s: "sealable va (ns_setting ns) (''setting:'' @ fst e) (snd e)" using assms(2) by blast
  from sealable_reseals [OF assms(1) s, of "ns_setting ns'"] obtain p where
    "encryptSecretValue (va_seal va) (va_open va) (va_secret_key va) (ns_setting ns) (snd e) (''setting:'' @ fst e) = Inr p"
    "decryptSecretValue (va_open va) (va_secret_key va) p (''setting:'' @ fst e) =
       decryptSecretValue (va_open va) (va_secret_key va) (snd e) (''setting:'' @ fst e)"
    "encryptSecretValue (va_seal va) (va_open va) (va_secret_key va) (ns_setting ns') p (''setting:'' @ fst e) = Inr p"
    by blast
  then show ?thesis
    using True by (auto simp: row_migrates_def signing_update_def encryptSettingValue_def read_setting_def decryptSettingValue_def)
next
  case False
  then show ?thesis by (simp add: row_migrates_def signing_update_def)
qed

lemma encrypted_value: "encryptSecretValue seal aopen key n v aad = Inr p \<Longrightarrow> p = [] \<or> prefix secretCipherPrefix p"
  by (auto simp: encryptSecretValue_def split: if_splits option.splits sum.splits)

lemma unchanged_entries: "protect_entries enc es = Inr (out, False) \<Longrightarrow> out = es"
  by (induction es arbitrary: out) (auto simp: err_simps)

lemma unchanged_settings:
  assumes "migrateSettingsJSON va rand m aad = Inr None" and "e \<in> set (mentries m)"
  shows "snd e = [] \<or> prefix secretCipherPrefix (snd e)"
proof -
  obtain p where p: "protectSettings (va_seal va) (va_open va) (va_secret_key va) rand m aad = Inr (p, False)"
    using assms(1) by (auto simp: migrateSettingsJSON_def err_simps split: if_splits prod.splits)
  have "p = m"
    using p by (auto simp: protectSettings_def mlen_def mentries_def err_simps
        dest!: unchanged_entries split: if_splits option.splits)
  then show ?thesis using protectSettings_encrypted [OF p, of "fst e" "snd e"] assms(2) by simp
qed

text \<open>No secret is left in plain text: each is empty or a prefixed ciphertext.\<close>

definition no_plaintext :: "db \<Rightarrow> bool" where
  "no_plaintext d \<longleftrightarrow>
     (\<forall>u\<in>set (db_users d). ur_totp_secret u = [] \<or> prefix secretCipherPrefix (ur_totp_secret u)) \<and>
     (\<forall>e\<in>set (db_settings d). fst e = ''config_signing_private_key'' \<longrightarrow>
        snd e = [] \<or> prefix secretCipherPrefix (snd e)) \<and>
     (\<forall>t\<in>set (db_tunnels d). \<forall>e\<in>set (mentries (tun_settings t)). snd e = [] \<or> prefix secretCipherPrefix (snd e)) \<and>
     (\<forall>n\<in>set (db_stage_nodes d). \<forall>e\<in>set (mentries (sn_settings n)). snd e = [] \<or> prefix secretCipherPrefix (snd e))"

lemma no_updates:
  "collect_updates f key rows = Inr [] \<Longrightarrow> r \<in> set rows \<Longrightarrow> f r = Inr None"
proof (induction rows)
  case (Cons x rows)
  from Cons.prems obtain u us where "f x = Inr u" "collect_updates f key rows = Inr us"
      "[] = (case u of None \<Rightarrow> us | Some v \<Rightarrow> (key x, v) # us)"
    by (auto simp: err_simps)
  with Cons show ?case by (cases u) auto
qed simp

lemma no_updates_no_plaintext:
  assumes "collect_updates (totp_update va ns) ur_id (db_users d) = Inr []"
    and "collect_updates (signing_update va ns) fst (db_settings d) = Inr []"
    and "collect_updates (tunnel_update va ns) tun_id (db_tunnels d) = Inr []"
    and "collect_updates (stage_node_update va ns) sn_id (db_stage_nodes d) = Inr []"
  shows "no_plaintext d"
  unfolding no_plaintext_def
proof (intro conjI ballI impI)
  fix u assume "u \<in> set (db_users d)"
  from no_updates [OF assms(1) this] show "ur_totp_secret u = [] \<or> prefix secretCipherPrefix (ur_totp_secret u)"
    by (auto simp: totp_update_def err_simps dest!: encrypted_value split: if_splits)
next
  fix e assume "e \<in> set (db_settings d)" "fst e = ''config_signing_private_key''"
  with no_updates [OF assms(2) this(1)] show "snd e = [] \<or> prefix secretCipherPrefix (snd e)"
    by (auto simp: signing_update_def encryptSettingValue_def err_simps dest!: encrypted_value split: if_splits)
next
  fix t e assume t: "t \<in> set (db_tunnels d)" and e: "e \<in> set (mentries (tun_settings t))"
  from no_updates [OF assms(3) t] unchanged_settings [OF _ e] show "snd e = [] \<or> prefix secretCipherPrefix (snd e)"
    unfolding tunnel_update_def by blast
next
  fix n e assume n: "n \<in> set (db_stage_nodes d)" and e: "e \<in> set (mentries (sn_settings n))"
  from no_updates [OF assms(4) n] unchanged_settings [OF _ e] show "snd e = [] \<or> prefix secretCipherPrefix (snd e)"
    unfolding stage_node_update_def by blast
qed

lemma tunnel_migrates:
  assumes "vault_ok va"
    and "settings_sealable va (ns_tunnel ns (tun_id t)) (''tunnel:'' @ tun_id t) (tun_settings t)"
  shows "row_migrates (tunnel_update va ns) (tunnel_update va ns') (\<lambda>v r. r\<lparr> tun_settings := v \<rparr>) (scanTunnel va) t"
proof -
  from migrated_settings [OF assms, of "ns_tunnel ns' (tun_id t)"] obtain u where
    "migrateSettingsJSON va (ns_tunnel ns (tun_id t)) (tun_settings t) (''tunnel:'' @ tun_id t) = Inr u"
    "unprotectSettings (va_open va) (va_secret_key va) (case u of None \<Rightarrow> tun_settings t | Some p \<Rightarrow> p) (''tunnel:'' @ tun_id t) =
       unprotectSettings (va_open va) (va_secret_key va) (tun_settings t) (''tunnel:'' @ tun_id t)"
    "migrateSettingsJSON va (ns_tunnel ns' (tun_id t)) (case u of None \<Rightarrow> tun_settings t | Some p \<Rightarrow> p)
       (''tunnel:'' @ tun_id t) = Inr None" by blast
  then show ?thesis by (cases u) (simp_all add: row_migrates_def tunnel_update_def scanTunnel_def)
qed

lemma stage_node_migrates:
  assumes "vault_ok va"
    and "settings_sealable va (ns_node ns (sn_id n)) (''stage-node:'' @ sn_id n) (sn_settings n)"
  shows "row_migrates (stage_node_update va ns) (stage_node_update va ns') (\<lambda>v r. r\<lparr> sn_settings := v \<rparr>)
    (scanTunnelStageNode va) n"
proof -
  from migrated_settings [OF assms, of "ns_node ns' (sn_id n)"] obtain u where
    "migrateSettingsJSON va (ns_node ns (sn_id n)) (sn_settings n) (''stage-node:'' @ sn_id n) = Inr u"
    "unprotectSettings (va_open va) (va_secret_key va) (case u of None \<Rightarrow> sn_settings n | Some p \<Rightarrow> p) (''stage-node:'' @ sn_id n) =
       unprotectSettings (va_open va) (va_secret_key va) (sn_settings n) (''stage-node:'' @ sn_id n)"
    "migrateSettingsJSON va (ns_node ns' (sn_id n)) (case u of None \<Rightarrow> sn_settings n | Some p \<Rightarrow> p)
       (''stage-node:'' @ sn_id n) = Inr None" by blast
  then show ?thesis by (cases u) (simp_all add: row_migrates_def stage_node_update_def scanTunnelStageNode_def)
qed

lemma TOTPSecret_read:
  "TOTPSecret va i d = (case map_of (map (\<lambda>r. (ur_id r, read_totp va r)) (db_users d)) i of
     None \<Rightarrow> Inl ErrNoRows | Some (v, b) \<Rightarrow> bindE (secretE v) (\<lambda>s. Inr (s, b)))"
  unfolding row_with_read [symmetric] TOTPSecret_def
  by (auto simp: read_totp_def dest: row_with_Some split: option.splits)

lemma GetSetting_read:
  "GetSetting va k d = (case map_of (map (\<lambda>e. (fst e, read_setting va e)) (db_settings d)) k of
     None \<Rightarrow> Inr ([], False) | Some v \<Rightarrow> bindE (secretE v) (\<lambda>p. Inr (p, True)))"
proof -
  have "map_of (map (\<lambda>e. (fst e, read_setting va e)) es) k = map_option (\<lambda>v. read_setting va (k, v)) (map_of es k)" for es
    by (induction es) auto
  then show ?thesis by (simp add: GetSetting_def read_setting_def split: option.split)
qed

text \<open>opening a database with the controller's key replaces every secret that was stored in plain
  text (TOTP secrets, the signing key, the settings of tunnels and stage nodes) by a ciphertext, in
  one pass: afterwards no secret is left in plain text, every secret reads as it read before, and a
  further start, with whatever randomness, finds nothing to do.\<close>

theorem secrets_migrated:
  assumes "migratable va ns d"
  shows "\<exists>d'. migrateSensitiveSecrets va ns d = Inr d' \<and> no_plaintext d' \<and>
    (\<forall>i. TOTPSecret va i d' = TOTPSecret va i d) \<and> (\<forall>k. GetSetting va k d' = GetSetting va k d) \<and>
    map (scanTunnel va) (db_tunnels d') = map (scanTunnel va) (db_tunnels d) \<and>
    map (scanTunnelStageNode va) (db_stage_nodes d') = map (scanTunnelStageNode va) (db_stage_nodes d) \<and>
    migrateSensitiveSecrets va ns' d' = Inr d'"
proof -
  note m = assms [unfolded migratable_def]
  have v: "vault_ok va" using m by blast
  obtain us users where us: "collect_updates (totp_update va ns) ur_id (db_users d) = Inr us"
      "run_updates ur_id (\<lambda>v r. r\<lparr> ur_totp_secret := v \<rparr>) us (db_users d) = users"
      "collect_updates (totp_update va ns') ur_id users = Inr []"
      "map (\<lambda>r. (ur_id r, read_totp va r)) users = map (\<lambda>r. (ur_id r, read_totp va r)) (db_users d)"
    by (rule migrate_table [of ur_id "\<lambda>v r. r\<lparr> ur_totp_secret := v \<rparr>" "db_users d" "totp_update va ns"
          "totp_update va ns'" "read_totp va"]) (use m totp_migrates [OF v] in simp_all)
  obtain ks settings where ks: "collect_updates (signing_update va ns) fst (db_settings d) = Inr ks"
      "run_updates fst (\<lambda>v e. (fst e, v)) ks (db_settings d) = settings"
      "collect_updates (signing_update va ns') fst settings = Inr []"
      "map (\<lambda>r. (fst r, read_setting va r)) settings = map (\<lambda>r. (fst r, read_setting va r)) (db_settings d)"
    by (rule migrate_table [of fst "\<lambda>v e. (fst e, v)" "db_settings d" "signing_update va ns"
          "signing_update va ns'" "read_setting va"]) (use m signing_migrates [OF v] in simp_all)
  obtain ts tunnels where ts: "collect_updates (tunnel_update va ns) tun_id (db_tunnels d) = Inr ts"
      "run_updates tun_id (\<lambda>v r. r\<lparr> tun_settings := v \<rparr>) ts (db_tunnels d) = tunnels"
      "collect_updates (tunnel_update va ns') tun_id tunnels = Inr []"
      "map (\<lambda>r. (tun_id r, scanTunnel va r)) tunnels = map (\<lambda>r. (tun_id r, scanTunnel va r)) (db_tunnels d)"
    by (rule migrate_table [of tun_id "\<lambda>v r. r\<lparr> tun_settings := v \<rparr>" "db_tunnels d" "tunnel_update va ns"
          "tunnel_update va ns'" "scanTunnel va"]) (use m tunnel_migrates [OF v] in simp_all)
  obtain sns nodes where sns: "collect_updates (stage_node_update va ns) sn_id (db_stage_nodes d) = Inr sns"
      "run_updates sn_id (\<lambda>v r. r\<lparr> sn_settings := v \<rparr>) sns (db_stage_nodes d) = nodes"
      "collect_updates (stage_node_update va ns') sn_id nodes = Inr []"
      "map (\<lambda>r. (sn_id r, scanTunnelStageNode va r)) nodes = map (\<lambda>r. (sn_id r, scanTunnelStageNode va r)) (db_stage_nodes d)"
    by (rule migrate_table [of sn_id "\<lambda>v r. r\<lparr> sn_settings := v \<rparr>" "db_stage_nodes d" "stage_node_update va ns"
          "stage_node_update va ns'" "scanTunnelStageNode va"]) (use m stage_node_migrates [OF v] in simp_all)
  define d' where "d' = d\<lparr> db_users := users, db_settings := settings, db_tunnels := tunnels, db_stage_nodes := nodes \<rparr>"
  have "migrateSensitiveSecrets va ns d = Inr d'"
    by (simp add: migrateSensitiveSecrets_def us(1,2) ks(1,2) ts(1,2) sns(1,2) d'_def)
  moreover have "no_plaintext d'"
    by (rule no_updates_no_plaintext [where va = va and ns = ns']) (simp_all add: d'_def us(3) ks(3) ts(3) sns(3))
  moreover have "TOTPSecret va i d' = TOTPSecret va i d" for i by (simp add: TOTPSecret_read d'_def us(4))
  moreover have "GetSetting va k d' = GetSetting va k d" for k by (simp add: GetSetting_read d'_def ks(4))
  moreover have "map (scanTunnel va) tunnels = map (scanTunnel va) (db_tunnels d)"
    using arg_cong [OF ts(4), of "map snd"] by (simp add: comp_def)
  moreover have "map (scanTunnelStageNode va) nodes = map (scanTunnelStageNode va) (db_stage_nodes d)"
    using arg_cong [OF sns(4), of "map snd"] by (simp add: comp_def)
  moreover have "migrateSensitiveSecrets va ns' d' = Inr d'"
    by (simp add: migrateSensitiveSecrets_def d'_def us(3) ks(3) ts(3) sns(3))
  ultimately show ?thesis by (intro exI [of _ d']) (simp add: d'_def)
qed

text \<open>The same for node tokens: no plain token is left, and every node keeps its token.\<close>

definition token_sealable :: "vault \<Rightarrow> (string \<Rightarrow> string option) \<Rightarrow> node_row \<Rightarrow> bool" where
  "token_sealable va rand r \<longleftrightarrow>
     (ndr_encrypted r \<noteq> [] \<longrightarrow>
        (\<exists>t. decryptNodeToken (va_open va) (va_token_key va) (ndr_id r) (ndr_encrypted r) = Inr t)) \<and>
     (ndr_encrypted r = [] \<and> ndr_token r \<noteq> [] \<longrightarrow>
        (\<exists>n. rand (ndr_id r) = Some n \<and> length n = gcm_nonce) \<and>
        (4 * (length (ndr_token r) + 28) + 2) div 3 \<le> maxNodeTokenCipherBytes)"

lemma ndr_id_set_token [simp]: "ndr_id (set_token v r) = ndr_id r"
  by (simp add: set_token_def ndr_id_def)

lemma token_migrates:
  assumes "aead_ok (va_seal va) (va_open va)" and "length (va_token_key va) = nodeTokenKeyBytes"
    and "token_sealable va rand r"
  shows "row_migrates (token_update va rand) (token_update va rand') set_token (scanNode va) r"
proof (cases "ndr_token r = []")
  case True
  then show ?thesis using assms(3) by (auto simp: row_migrates_def token_update_def token_sealable_def)
next
  case legacy: False
  show ?thesis
  proof (cases "ndr_encrypted r = []")
    case False
    then show ?thesis using assms(3) legacy
      by (auto simp: row_migrates_def token_update_def token_sealable_def scanNode_def resolveNodeToken_def)
        (auto simp: set_token_def ndr_id_def)
  next
    case True
    then obtain n where n: "rand (ndr_id r) = Some n" "length n = gcm_nonce"
        "(4 * (length (ndr_token r) + 28) + 2) div 3 \<le> 4096"
      using assms(3) legacy by (auto simp: token_sealable_def maxNodeTokenCipherBytes_def)
    let ?c = "b64_encode (n @ va_seal va (va_token_key va) n (ndr_token r) (ndr_id r))"
    have d: "decryptNodeToken (va_open va) (va_token_key va) (ndr_id r) ?c = Inr (ndr_token r)"
      using node_token_decrypt [OF assms(1) n(2) assms(2) legacy, of "ndr_id r"] n(3) by simp
    have ne: "?c \<noteq> []" using n(2) by (auto simp: gcm_nonce_def)
    have "token_update va rand r = Inr (Some ?c)"
      using True legacy n(1) assms(2) by (simp add: token_update_def encryptNodeToken_def)
    moreover have "token_update va rand' (set_token ?c r) = Inr None"
      using d ne by (simp add: token_update_def set_token_def ndr_id_def)
    moreover have "scanNode va (set_token ?c r) = scanNode va r"
      using d ne True by (simp add: scanNode_def resolveNodeToken_def set_token_def ndr_id_def)
    ultimately show ?thesis by (simp add: row_migrates_def)
  qed
qed

lemma tokens_migrated:
  assumes "aead_ok (va_seal va) (va_open va)" and "length (va_token_key va) = nodeTokenKeyBytes"
    and "unique_by ndr_id (db_nodes d)" and "\<forall>r\<in>set (db_nodes d). token_sealable va rand r"
  shows "\<exists>d'. migrateNodeTokens va rand d = Inr d' \<and> (\<forall>r\<in>set (db_nodes d'). ndr_token r = []) \<and>
    map (scanNode va) (db_nodes d') = map (scanNode va) (db_nodes d) \<and> migrateNodeTokens va rand' d' = Inr d'"
proof -
  obtain us rows where us: "collect_updates (token_update va rand) ndr_id (db_nodes d) = Inr us"
      "run_updates ndr_id set_token us (db_nodes d) = rows"
      "collect_updates (token_update va rand') ndr_id rows = Inr []"
      "map (\<lambda>r. (ndr_id r, scanNode va r)) rows = map (\<lambda>r. (ndr_id r, scanNode va r)) (db_nodes d)"
    by (rule migrate_table [of ndr_id set_token "db_nodes d" "token_update va rand" "token_update va rand'" "scanNode va"])
      (use assms token_migrates [OF assms(1,2)] in simp_all)
  have "ndr_token r = []" if "r \<in> set rows" for r
    using no_updates [OF us(3) that] by (auto simp: token_update_def err_simps split: if_splits)
  moreover have "map (scanNode va) rows = map (scanNode va) (db_nodes d)"
    using arg_cong [OF us(4), of "map snd"] by (simp add: comp_def)
  ultimately show ?thesis
    by (intro exI [of _ "d\<lparr> db_nodes := rows \<rparr>"]) (simp add: migrateNodeTokens_def us(1-3))
qed

text \<open>Opening a database twice is opening it once: forwards of old versions get their target, single
  candidates their strategy, and the second start changes nothing.\<close>

lemma needs_target_iff:
  "needs_target d f \<longleftrightarrow> \<not> sql_blank (fwd_target f) \<and> fwd_id f \<notin> tgt_forward_id ` set (db_targets d)"
  by (auto simp: needs_target_def list_ex_iff image_iff)

lemma legacy_targets_done:
  assumes "migrateLegacyTargets d = Inr d'"
  shows "\<forall>f\<in>set (db_forwards d'). \<not> needs_target d' f" and "migrateLegacyTargets d' = Inr d'"
proof -
  have d': "d' = d\<lparr> db_targets := db_targets d @ map legacy_target (filter (needs_target d) (db_forwards d)) \<rparr>"
    using assms by (auto simp: migrateLegacyTargets_def Let_def split: if_splits)
  show no_need: "\<forall>f\<in>set (db_forwards d'). \<not> needs_target d' f"
  proof
    fix f assume f: "f \<in> set (db_forwards d')"
    have "tgt_forward_id ` set (db_targets d') =
        tgt_forward_id ` set (db_targets d) \<union> fwd_id ` set (filter (needs_target d) (db_forwards d))"
      by (simp add: d' image_Un image_image legacy_target_def)
    with f show "\<not> needs_target d' f" by (auto simp: needs_target_iff d')
  qed
  then have "filter (needs_target d') (db_forwards d') = []" by (simp add: filter_empty_conv)
  then show "migrateLegacyTargets d' = Inr d'" by (simp add: migrateLegacyTargets_def)
qed

lemma strategies_done:
  assumes "migrateSingleCandidateStrategies va d = Inr d'"
  shows "migrateSingleCandidateStrategies va d' = Inr d'" and "db_targets d' = db_targets d"
    and "map fwd_id (db_forwards d') = map fwd_id (db_forwards d)"
    and "map fwd_target (db_forwards d') = map fwd_target (db_forwards d)"
proof -
  have get: "GetSetting va singleCandidateStrategyMigrationSetting x =
      (case map_of (db_settings x) singleCandidateStrategyMigrationSetting of None \<Rightarrow> Inr ([], False) | Some v \<Rightarrow> Inr (v, True))" for x
    by (simp add: GetSetting_def decryptSettingValue_def singleCandidateStrategyMigrationSetting_def split: option.split)
  show "migrateSingleCandidateStrategies va d' = Inr d'"
    using assms by (auto simp: migrateSingleCandidateStrategies_def get put_setting_def map_simps split: option.splits)
  show "db_targets d' = db_targets d" "map fwd_id (db_forwards d') = map fwd_id (db_forwards d)"
      "map fwd_target (db_forwards d') = map fwd_target (db_forwards d)"
    using assms by (auto simp: migrateSingleCandidateStrategies_def get put_setting_def update_where_def split: option.splits)
qed

text \<open>the schema migration is done after one run: a second run leaves the database as it is.\<close>

lemma migrate_idempotent:
  assumes "migrate va d = Inr d'"
  shows "migrate va d' = Inr d'"
proof -
  obtain d1 where l: "migrateLegacyTargets d = Inr d1" and s: "migrateSingleCandidateStrategies va d1 = Inr d'"
    using assms by (auto simp: migrate_def err_simps)
  note sd = strategies_done [OF s]
  have pairs: "map (\<lambda>f. (fwd_id f, fwd_target f)) (db_forwards d') = map (\<lambda>f. (fwd_id f, fwd_target f)) (db_forwards d1)"
  proof -
    have "map (\<lambda>f. (fwd_id f, fwd_target f)) xs = zip (map fwd_id xs) (map fwd_target xs)"
      for xs :: "forward list"
      by (induction xs) auto
    then show ?thesis by (simp only: sd(3,4))
  qed
  have "\<not> needs_target d' f" if "f \<in> set (db_forwards d')" for f
  proof -
    have "(fwd_id f, fwd_target f) \<in> (\<lambda>f. (fwd_id f, fwd_target f)) ` set (db_forwards d1)"
      using that pairs by (metis (no_types, lifting) image_eqI image_set)
    then obtain g where g: "g \<in> set (db_forwards d1)" "fwd_id g = fwd_id f" "fwd_target g = fwd_target f" by auto
    then have "\<not> needs_target d1 g" using legacy_targets_done(1) [OF l] by blast
    then show ?thesis unfolding needs_target_iff g(2,3) sd(2) .
  qed
  then have "filter (needs_target d') (db_forwards d') = []" by (simp add: filter_empty_conv)
  then show ?thesis using sd(1) by (simp add: migrate_def migrateLegacyTargets_def)
qed

section \<open>A database of an old version\<close>

definition ex_plain_db :: db where
  "ex_plain_db = empty_db\<lparr>
     db_users := [\<lparr> ur_id = 1, ur_username = ''admin'', ur_password_hash = ''h'', ur_totp_secret = ''JBSWY3DP'',
       ur_totp_enabled = True, ur_created_at = 0 \<rparr>],
     db_settings := [(''config_signing_private_key'', ''key''), (''config_revision'', ''7'')] \<rparr>"

definition ex_nonce_source :: nonce_source where
  "ex_nonce_source = \<lparr> ns_user = (\<lambda>_. Some ex_nonce), ns_setting = Some ex_nonce,
     ns_tunnel = (\<lambda>_ _. Some ex_nonce), ns_node = (\<lambda>_ _. Some ex_nonce) \<rparr>"

lemma ex_migratable: "migratable ex_vault ex_nonce_source ex_plain_db"
proof -
  have "vault_ok ex_vault" by (simp add: vault_ok_def ex_vault_def toy_aead secretKeyBytes_def)
  moreover have "sealable ex_vault (Some ex_nonce) aad v" if "length v \<le> 1000" "\<not> prefix secretCipherPrefix v" for aad v
    using that secret_cipher_size_small by (simp add: sealable_def gcm_nonce_def)
  ultimately show ?thesis
    by (simp add: migratable_def ex_plain_db_def empty_db_def ex_nonce_source_def secretCipherPrefix_def)
qed

theorem secrets_migrated_witness:
  "\<exists>d'. migrateSensitiveSecrets ex_vault ex_nonce_source ex_plain_db = Inr d' \<and> no_plaintext d' \<and>
     TOTPSecret ex_vault 1 d' = Inr (''JBSWY3DP'', True) \<and>
     GetSetting ex_vault ''config_signing_private_key'' d' = Inr (''key'', True)"
proof -
  have "TOTPSecret ex_vault 1 ex_plain_db = Inr (''JBSWY3DP'', True)"
    by (simp add: TOTPSecret_def ex_plain_db_def empty_db_def decryptSecretValue_def secretCipherPrefix_def)
  moreover have "GetSetting ex_vault ''config_signing_private_key'' ex_plain_db = Inr (''key'', True)"
    by (simp add: GetSetting_def ex_plain_db_def empty_db_def decryptSettingValue_def decryptSecretValue_def secretCipherPrefix_def)
  ultimately show ?thesis using secrets_migrated [OF ex_migratable, of ex_nonce_source] by metis
qed

end
