(* ===== verification/Spec2Isabelle.thy ===== *)
theory Spec2Isabelle
  imports Admin Updates Login Counters Frames Version UdpSessions Limiter Link Prepare StoreConfig UdpRunFacts UdpStage StoreMigrate StoreHistory
begin

text \<open>
  NyaRelay relays TCP and UDP traffic through chains of nodes.  A \<^bold>\<open>controller\<close> keeps nodes, tunnels and
  forwards in an SQLite database and hands every node a signed runtime configuration; a \<^bold>\<open>node agent\<close> checks that
  configuration and runs it as a relay.  A forward is a port on the entry node of a tunnel; what arrives there
  goes from stage to stage and from the last stage to one of the forward's targets.

  This development models internal/ of the repository: the controller with its store, the agent with its relay,
  and the packages they share.  Every theory names the files it models; the manifest maps each definition to its
  lines.

  \<^bold>\<open>How the parts meet.\<close>  A request of the administration (Admin) passes withAuth (Guard), is turned into a tunnel
  or a forward (Prepare, Ports), checked (Validate), saved with its port allocations in a transaction that ends with
  a new revision (StoreTunnels, StoreConfig), and published: the hub learns the revision (Hub) and every connected node
  is sent the configuration compiled for it (Control, Compile), which is the part of the database that node
  needs (Scope), with a lease, signed (Sign).  The agent verifies and applies it (Agent); the relay
  plans its listeners, rolls back when they cannot be opened, and stops when the lease ends (Relay).
  Relays open links to each other with a hello (Frames), choosing candidates and targets with their selectors
  (Selector, Dial); UDP keeps sessions on the way (UdpSessions, UdpEntry, UdpRun, UdpStage).  Link puts the two
  sides together: what a controller compiles the agents accept, and two agents agree on every link between them.

  \<^bold>\<open>Shared vocabulary.\<close>
    \<^item> Prelude: Go's errors, maps as key-distinct association lists, the hint collections and the lemmas on lists the
      components share.
    \<^item> GoStrings: byte strings and the functions of strings, strconv, unicode and net that are used.
    \<^item> GoTime: instants in nanoseconds since the zero time and the text of RFC3339Nano.
    \<^item> Http: what handlers answer.  Tables: SQL statements on lists of rows.

  \<^bold>\<open>Shared packages\<close> (internal/shared).
    \<^item> Types: model/types.go, a record per struct.  Validate: validate/validate.go, with the characterisation of the
      accepted tunnels.
    \<^item> Version: version/version.go; comparison is a total preorder.
    \<^item> Frames: protocol/relay.go and udp.go; what is written is read back, from any split into reads.
    \<^item> Sign: crypto/sign.go, base64 written out.

  \<^bold>\<open>Controller\<close> (internal/controller).
    \<^item> Secrets, StoreBase, StoreNodes, StoreTunnels, StoreHistory, StoreMigrate: store/store.go and session.go.  StoreConfig proves
      that every operation keeps the tables consistent and that what was saved is read back.
    \<^item> Hub: nodehub/hub.go; no waiter misses a revision set while it waits.
    \<^item> Limiter, Passwords, Totp: auth/; the limiter refines a history of failures, the codes are those of RFC 6238.
    \<^item> Guard, Login: who is let in; Ports, Prepare: from requests to tunnels and forwards; Scope, Compile: what a node
      is told; NodeApi, Control: what nodes send and what is sent to them; Admin: the requests on nodes, tunnels and
      forwards; all in server.go.
    \<^item> Release, Install: release.go, install.go and the downloads of server.go.

  \<^bold>\<open>Node\<close> (internal/node).
    \<^item> Files, Agent: node.go.  Updates: update.go, client.go and config.go, from the command over the control connection to
      the replaced program.
    \<^item> Selector, UdpSessions, Dial, Relay: relay/selector.go, udp_sessions.go and service.go.
    \<^item> UdpEntry, UdpRun, UdpRunFacts: relay/udp_runtime.go as a step relation over all interleavings of a session's goroutine, its
      reader, arriving packets and closing.  UdpStage: relay/udp.go.  Counters: metrics/counters.go.

  \<^bold>\<open>How state and effects are modelled.\<close>
    \<^item> State is a record passed explicitly; an operation that holds a mutex throughout is one function, one that blocks
      or lets go of it is several steps (Hub, Control, UdpRun).  Go values copied by assignment are HOL values; where the
      code updates a map or slice in place, the function returns the updated one.
    \<^item> Errors are values: an option of a structured error, or a sum with the error on the left.  A panic of
      the code is a branch too (\<open>PNilMapPanic\<close> in Prepare).
    \<^item> What the operating system, the network, the clock, the random source or a library answers is an argument or
      a field of an environment record, often a function of a tick that counts the calls.  Laws of cryptography (a
      signature verifies, what was sealed opens, digests have their length) are named hypotheses.
    \<^item> Locales state the interfaces where several operations share a contract or one component relies on another: a
      file that is replaced atomically (Files), a table of sessions (UdpSessions, used by Dial), marks that cool down
      (Selector), values that are stored sealed (Secrets) and rewritten sealed (StoreMigrate).  Each is interpreted on
      the model of the code, and the components use the facts of the interpretation.

  \<^bold>\<open>Bounds and fuel.\<close>  Loops over data are structural recursions.  The pumps of UdpStage run over a list of
  answers to their reads and have no result when it runs out, which stands for a read that blocks.  The life of a UDP
  session has no fuel: \<open>run_step\<close> is a relation, and its retries are shown to end by the limit on
  attempts the code computes.  Counters and one-time codes use machine words; where the code's int cannot overflow on
  the values the validators admit, it is an \<open>int\<close> or a \<open>nat\<close>.

  \<^bold>\<open>Not modelled.\<close>
    \<^item> Calls of libraries without logic of their own: certificates (crypto/certs.go, relay/tls.go), identifiers
      (ids.go), logging, embedded files (web.go); they appear as arguments where their results matter.
    \<^item> The text of the installation script (install.go), the command line programs under cmd/, the web interface, the
      deployment files and the build scripts.
    \<^item> The accept loops of listeners, the copying of TCP streams and the processes that only wait: servers, signals
      and tickers.  Their bodies are modelled as the operations they call.
    \<^item> Failures of SQLite other than violated constraints, except where the code acts on one: the transaction that bumps
      the revision on its own (StoreBase) may fail before its end or at its commit.
\<close>

end
